(* ===== verification/Prelude.thy ===== *)
theory Prelude
  imports Main "HOL-Library.Word"
begin

text \<open>
  Shared vocabulary of the development: Python exceptions and results, byte strings,
  little- and big-endian integers (\<open>int.to_bytes\<close>, \<open>int.from_bytes\<close>), Python slices, and
  \<open>bytes.hex\<close> / \<open>bytes.fromhex\<close>. Everything here models the language and its standard
  library as the sources use them; the component theories build on the lemma collections
  \<open>py_simps\<close> (result monad) and \<open>codec_simps\<close> (byte codecs).
\<close>

named_theorems py_simps \<open>rewriting of the result monad\<close>
named_theorems codec_simps \<open>lengths and inverses of the byte codecs\<close>

section \<open>Exceptions and results\<close>

text \<open>
  A Python call either returns or raises. Exceptions are compared by class only: the
  messages are left out, except that \<open>NoUtxoFound\<close> is the \<open>NetworkError\<close> whose message says so, the
  one message a caller of the modelled code looks at.
\<close>

datatype exn =
    ValidationError | SpvVerificationError
  | ValueError | OverflowError | IndexError | KeyError | TypeError
  | RuntimeError | ZeroDivisionError | NotImplementedError | StructError
  | NetworkError | NoUtxoFound | CancelledError | OtherError
  | CovenantError | ContractExhaustedError | PoolTooSmallError | InvalidFundingUtxoError | MaxAttemptsError

type_synonym 'a result = "exn + 'a"

abbreviation Ok :: "'a \<Rightarrow> 'a result" where
  "Ok x \<equiv> Inr x"

abbreviation Err :: "exn \<Rightarrow> 'a result" where
  "Err e \<equiv> Inl e"

fun bind_r :: "'a result \<Rightarrow> ('a \<Rightarrow> 'b result) \<Rightarrow> 'b result" where
  "bind_r (Inl e) f = Inl e"
| "bind_r (Inr x) f = f x"

definition is_ok :: "'a result \<Rightarrow> bool" where
  "is_ok r = (case r of Inl _ \<Rightarrow> False | Inr _ \<Rightarrow> True)"

lemma is_ok_simps [simp]: "is_ok (Inr x)" "\<not> is_ok (Inl e)"
  by (simp_all add: is_ok_def)

lemma is_ok_iff: "is_ok r \<longleftrightarrow> (\<exists>x. r = Inr x)"
  by (cases r) auto

lemma bind_r_return [simp]: "bind_r m Inr = m" "bind_r m (\<lambda>x. Inr x) = m"
  by (cases m; simp)+

lemma bind_r_Ok_iff [py_simps]: "bind_r m f = Inr y \<longleftrightarrow> (\<exists>x. m = Inr x \<and> f x = Inr y)"
  by (cases m) auto

lemma bind_r_Err_iff:
  "bind_r m f = Inl e \<longleftrightarrow> m = Inl e \<or> (\<exists>x. m = Inr x \<and> f x = Inl e)"
  by (cases m) auto

text \<open>Case distinctions whose outcome is known, for rewriting below quantifiers.\<close>

lemma case_sum_Ok_iff:
  "(case r of Inl e \<Rightarrow> f e | Inr x \<Rightarrow> g x) = Inr y \<longleftrightarrow> (\<exists>e. r = Inl e \<and> f e = Inr y) \<or> (\<exists>x. r = Inr x \<and> g x = Inr y)"
  by (cases r) auto

lemma case_option_Ok_iff:
  "(case v of None \<Rightarrow> r | Some x \<Rightarrow> f x) = Inr y \<longleftrightarrow> v = None \<and> r = Inr y \<or> (\<exists>x. v = Some x \<and> f x = Inr y)"
  by (cases v) auto

lemmas case_Ok_iffs = case_sum_Ok_iff case_option_Ok_iff bind_r_Ok_iff

lemma if_Err_Ok_iff [py_simps]: "(if b then Inl e else r) = Inr y \<longleftrightarrow> \<not> b \<and> r = Inr y"
  by auto

lemma bind_r_cong [fundef_cong]:
  "m = m' \<Longrightarrow> (\<And>x. m' = Inr x \<Longrightarrow> f x = g x) \<Longrightarrow> bind_r m f = bind_r m' g"
  by (cases m') auto

text \<open>A comprehension \<open>[f(x) for x in xs]\<close> stops at the first exception.\<close>

fun map_r :: "('a \<Rightarrow> 'b result) \<Rightarrow> 'a list \<Rightarrow> 'b list result" where
  "map_r f [] = Inr []"
| "map_r f (x # xs) = bind_r (f x) (\<lambda>y. bind_r (map_r f xs) (\<lambda>ys. Inr (y # ys)))"

lemma map_r_Ok_iff: "map_r f xs = Inr ys \<longleftrightarrow> list_all2 (\<lambda>x y. f x = Inr y) xs ys"
  by (induction xs arbitrary: ys) (auto simp: py_simps list_all2_Cons1)

lemma map_r_total: "(\<And>x. x \<in> set xs \<Longrightarrow> f x = Inr (g x)) \<Longrightarrow> map_r f xs = Inr (map g xs)"
  by (induction xs) auto

section \<open>Bytes\<close>

type_synonym byte = "8 word"
type_synonym bytes = "byte list"

text \<open>\<open>data[a:b]\<close> for non-negative bounds: never raises, clips at the end.\<close>

definition pyslice :: "nat \<Rightarrow> nat \<Rightarrow> 'a list \<Rightarrow> 'a list" where
  "pyslice a b xs = take (b - a) (drop a xs)"

lemma length_pyslice [simp]: "length (pyslice a b xs) = min (b - a) (length xs - a)"
  by (simp add: pyslice_def min.commute)

lemma pyslice_append_left: "b \<le> length xs \<Longrightarrow> pyslice a b (xs @ ys) = pyslice a b xs"
  by (simp add: pyslice_def)

lemma pyslice_append_right:
  "length xs \<le> a \<Longrightarrow> pyslice a b (xs @ ys) = pyslice (a - length xs) (b - length xs) ys"
  by (simp add: pyslice_def)

lemma pyslice_at: "pyslice (length xs) (length xs + length ys) (xs @ ys @ zs) = ys"
  by (simp add: pyslice_def)

lemma pyslice_split: "a \<le> b \<Longrightarrow> b \<le> c \<Longrightarrow> pyslice a b xs @ pyslice b c xs = pyslice a c xs"
proof -
  assume ab: "a \<le> b" and bc: "b \<le> c"
  then have "c - a = (b - a) + (c - b)" by simp
  then have "take (c - a) (drop a xs) = take (b - a) (drop a xs) @ take (c - b) (drop (b - a) (drop a xs))"
    by (simp add: take_add)
  with ab show ?thesis by (simp add: pyslice_def add.commute)
qed

section \<open>Integers as bytes\<close>

primrec le_val :: "bytes \<Rightarrow> nat" where
  "le_val [] = 0"
| "le_val (b # bs) = unat b + 256 * le_val bs"

primrec le_bytes :: "nat \<Rightarrow> nat \<Rightarrow> bytes" where
  "le_bytes 0 n = []"
| "le_bytes (Suc k) n = word_of_nat n # le_bytes k (n div 256)"

definition be_val :: "bytes \<Rightarrow> nat" where
  "be_val bs = le_val (rev bs)"

definition be_bytes :: "nat \<Rightarrow> nat \<Rightarrow> bytes" where
  "be_bytes k n = rev (le_bytes k n)"

lemma unat_byte_less [simp]: "unat (b :: byte) < 256"
proof -
  have "unat b < 2 ^ LENGTH(8)" by (rule unsigned_less)
  then show ?thesis by simp
qed

lemma unat_word_of_nat_byte: "unat (word_of_nat n :: byte) = n mod 256"
  by (simp add: unat_of_nat)

lemma length_le_bytes [simp, codec_simps]: "length (le_bytes k n) = k"
  by (induction k arbitrary: n) auto

lemma length_be_bytes [simp, codec_simps]: "length (be_bytes k n) = k"
  by (simp add: be_bytes_def)

lemma le_val_less: "le_val bs < 256 ^ length bs"
proof (induction bs)
  case (Cons b bs)
  have "unat b < 256" by simp
  moreover have "256 * le_val bs + 256 \<le> 256 * 256 ^ length bs"
    using Cons.IH by linarith
  ultimately have "unat b + 256 * le_val bs < 256 * 256 ^ length bs" by linarith
  then show ?case by simp
qed simp

lemma le_val_le_bytes_mod: "le_val (le_bytes k n) = n mod 256 ^ k"
proof (induction k arbitrary: n)
  case (Suc k)
  have "n mod (256 * 256 ^ k) = 256 * (n div 256 mod 256 ^ k) + n mod 256"
    by (rule mod_mult2_eq)
  with Suc.IH show ?case by (simp add: unat_word_of_nat_byte)
qed simp

lemma le_val_le_bytes [codec_simps]: "n < 256 ^ k \<Longrightarrow> le_val (le_bytes k n) = n"
  by (simp add: le_val_le_bytes_mod)

lemma le_bytes_le_val: "le_bytes (length bs) (le_val bs) = bs"
proof (induction bs)
  case (Cons b bs)
  have "(unat b + 256 * le_val bs) div 256 = le_val bs"
    by (simp add: div_eq_0_iff)
  moreover have "(word_of_nat (unat b + 256 * le_val bs) :: byte) = b"
  proof -
    have "unat (word_of_nat (unat b + 256 * le_val bs) :: byte) = unat b"
      by (subst unat_word_of_nat_byte) simp
    then show ?thesis by (simp only: word_unat_eq_iff)
  qed
  ultimately show ?case using Cons.IH by simp
qed simp

lemma le_val_inj: "length xs = length ys \<Longrightarrow> le_val xs = le_val ys \<Longrightarrow> xs = ys"
  by (metis le_bytes_le_val)

lemma be_val_less: "be_val bs < 256 ^ length bs"
  using le_val_less [of "rev bs"] by (simp add: be_val_def)

lemma be_val_be_bytes [codec_simps]: "n < 256 ^ k \<Longrightarrow> be_val (be_bytes k n) = n"
  by (simp add: be_val_def be_bytes_def le_val_le_bytes)

lemma be_bytes_be_val: "be_bytes (length bs) (be_val bs) = bs"
  using le_bytes_le_val [of "rev bs"] by (simp add: be_val_def be_bytes_def)

lemma le_val_append: "le_val (xs @ ys) = le_val xs + 256 ^ length xs * le_val ys"
  by (induction xs) (simp_all add: algebra_simps)

lemma le_val_zeros [simp]: "le_val (replicate k 0) = 0"
  by (induction k) auto

lemma be_val_Cons: "be_val (b # bs) = unat b * 256 ^ length bs + be_val bs"
  by (simp add: be_val_def le_val_append algebra_simps)

lemma be_val_append: "be_val (xs @ ys) = be_val xs * 256 ^ length ys + be_val ys"
  by (simp add: be_val_def le_val_append algebra_simps)

lemma be_val_Nil [simp]: "be_val [] = 0"
  by (simp add: be_val_def)

text \<open>\<open>n.to_bytes(k, "little")\<close> and \<open>n.to_bytes(k, "big")\<close> raise on overflow and on negative numbers.\<close>

definition to_bytes_le :: "int \<Rightarrow> nat \<Rightarrow> bytes result" where
  "to_bytes_le n k =
     (if n < 0 \<or> n \<ge> 256 ^ k then Err OverflowError else Ok (le_bytes k (nat n)))"

definition to_bytes_be :: "int \<Rightarrow> nat \<Rightarrow> bytes result" where
  "to_bytes_be n k =
     (if n < 0 \<or> n \<ge> 256 ^ k then Err OverflowError else Ok (be_bytes k (nat n)))"

lemma to_bytes_le_Ok_iff [py_simps]:
  "to_bytes_le n k = Inr bs \<longleftrightarrow> 0 \<le> n \<and> n < 256 ^ k \<and> bs = le_bytes k (nat n)"
  by (auto simp: to_bytes_le_def)

lemma to_bytes_be_Ok_iff [py_simps]:
  "to_bytes_be n k = Inr bs \<longleftrightarrow> 0 \<le> n \<and> n < 256 ^ k \<and> bs = be_bytes k (nat n)"
  by (auto simp: to_bytes_be_def)

lemma to_bytes_le_val: "to_bytes_le n k = Inr bs \<Longrightarrow> int (le_val bs) = n \<and> length bs = k"
proof -
  assume "to_bytes_le n k = Inr bs"
  then have "0 \<le> n" "n < 256 ^ k" "bs = le_bytes k (nat n)" by (auto simp: py_simps)
  moreover from this have "nat n < 256 ^ k" by (simp add: nat_less_iff)
  ultimately show ?thesis by (simp add: le_val_le_bytes)
qed

lemma to_bytes_le_of_val: "to_bytes_le (int (le_val bs)) (length bs) = Inr bs"
proof -
  have "int (le_val bs) < 256 ^ length bs"
    using le_val_less [of bs] by (simp add: nat_less_iff flip: of_nat_power)
  then show ?thesis by (simp add: to_bytes_le_def le_bytes_le_val)
qed

section \<open>Hexadecimal text\<close>

text \<open>
  \<open>bytes.hex\<close> prints two lower-case digits a byte. \<open>bytes.fromhex\<close> accepts both cases and
  skips ASCII white space between (never inside) the two digits of a byte.
\<close>

definition hex_digit :: "nat \<Rightarrow> char" where
  "hex_digit n = (if n < 10 then char_of (48 + n) else char_of (87 + n))"

definition hex_val :: "char \<Rightarrow> nat option" where
  "hex_val c = (let n = (of_char c :: nat) in
     if 48 \<le> n \<and> n \<le> 57 then Some (n - 48)
     else if 97 \<le> n \<and> n \<le> 102 then Some (n - 87)
     else if 65 \<le> n \<and> n \<le> 70 then Some (n - 55)
     else None)"

definition ascii_space :: "char \<Rightarrow> bool" where
  "ascii_space c = (let n = (of_char c :: nat) in n = 32 \<or> (9 \<le> n \<and> n \<le> 13))"

definition hex :: "bytes \<Rightarrow> string" where
  "hex bs = concat (map (\<lambda>b. [hex_digit (unat b div 16), hex_digit (unat b mod 16)]) bs)"

fun fromhex :: "string \<Rightarrow> bytes result" where
  "fromhex [] = Ok []"
| "fromhex (c # cs) =
     (if ascii_space c then fromhex cs
      else case hex_val c of None \<Rightarrow> Err ValueError
      | Some h \<Rightarrow>
         (case cs of [] \<Rightarrow> Err ValueError
          | d # ds \<Rightarrow>
             (case hex_val d of None \<Rightarrow> Err ValueError
              | Some l \<Rightarrow> bind_r (fromhex ds) (\<lambda>bs. Ok (word_of_nat (16 * h + l) # bs)))))"

lemma of_char_hex_digit:
  "n < 16 \<Longrightarrow> (of_char (hex_digit n) :: nat) = (if n < 10 then 48 + n else 87 + n)"
  by (simp add: hex_digit_def of_char_of)

lemma hex_val_digit [simp]: "n < 16 \<Longrightarrow> hex_val (hex_digit n) = Some n"
  by (simp add: hex_val_def of_char_hex_digit Let_def)

lemma hex_digit_not_space [simp]: "n < 16 \<Longrightarrow> \<not> ascii_space (hex_digit n)"
  by (simp add: ascii_space_def of_char_hex_digit Let_def)

lemma hex_simps [simp]:
  "hex [] = []"
  "hex (b # bs) = hex_digit (unat b div 16) # hex_digit (unat b mod 16) # hex bs"
  by (simp_all add: hex_def)

lemma hex_append: "hex (a @ b) = hex a @ hex b"
  by (simp add: hex_def)

lemma length_hex [simp]: "length (hex bs) = 2 * length bs"
  by (induction bs) auto

lemma unat_nibbles: "(word_of_nat (16 * (unat b div 16) + unat b mod 16) :: byte) = b"
proof -
  have "16 * (unat b div 16) + unat b mod 16 = unat b" by presburger
  then show ?thesis by simp
qed

lemma fromhex_hex [simp]: "fromhex (hex bs) = Ok bs"
proof (induction bs)
  case (Cons b bs)
  have "unat b div 16 < 16"
    using unat_byte_less [of b] by linarith
  with Cons.IH show ?case
    using unat_nibbles [of b] by (simp del: of_nat_add of_nat_mult)
qed simp

lemma fromhex_length: "fromhex s = Ok bs \<Longrightarrow> 2 * length bs \<le> length s"
proof (induction s arbitrary: bs rule: fromhex.induct)
  case (2 c cs)
  show ?case
  proof (cases "ascii_space c")
    case True
    with 2(1) [OF True] 2(3) show ?thesis by fastforce
  next
    case False
    with 2(3) obtain h d ds l bs' where *: "hex_val c = Some h" "cs = d # ds" "hex_val d = Some l"
      "fromhex ds = Ok bs'" "bs = word_of_nat (16 * h + l) # bs'"
      by (auto simp: py_simps split: option.splits list.splits)
    with 2(2) [OF False *(1,2,3)] show ?thesis by fastforce
  qed
qed simp

end
