(* ===== verification/Wire.thy ===== *)
theory Wire
  imports Prelude
begin

text \<open>
  The byte-stream layer of \<open>pyrxd/utils.py\<close>: Bitcoin variable-length integers, the
  \<open>Reader\<close> and \<open>Writer\<close> subclasses of \<open>BytesIO\<close>, and the two strict CompactSize readers of
  the SPV package. The locale \<open>skipper\<close> is the contract of every position-advancing parser
  of the package: on a buffer that holds an encoding at the given position it stops right
  behind it; its loop lemma serves every counted loop over inputs, outputs and witness items.
\<close>

section \<open>Variable-length integers\<close>

definition unsigned_to_varint :: "int \<Rightarrow> bytes result" where
  "unsigned_to_varint num =
     (if num < 0 \<or> num > 0xFFFFFFFFFFFFFFFF then Err OverflowError
      else if num \<le> 0xFC then to_bytes_le num 1
      else if num \<le> 0xFFFF then bind_r (to_bytes_le num 2) (\<lambda>b. Ok (0xfd # b))
      else if num \<le> 0xFFFFFFFF then bind_r (to_bytes_le num 4) (\<lambda>b. Ok (0xfe # b))
      else bind_r (to_bytes_le num 8) (\<lambda>b. Ok (0xff # b)))"

text \<open>The encoding as a function on the representable numbers.\<close>

definition varint_enc :: "nat \<Rightarrow> bytes" where
  "varint_enc n =
     (if n \<le> 0xFC then le_bytes 1 n
      else if n \<le> 0xFFFF then 0xfd # le_bytes 2 n
      else if n \<le> 0xFFFFFFFF then 0xfe # le_bytes 4 n
      else 0xff # le_bytes 8 n)"

lemma unsigned_to_varint_nat:
  "n < 2 ^ 64 \<Longrightarrow> unsigned_to_varint (int n) = Ok (varint_enc n)"
  by (auto simp: unsigned_to_varint_def varint_enc_def to_bytes_le_def)

lemma unsigned_to_varint_Ok_iff:
  "unsigned_to_varint n = Ok enc \<longleftrightarrow> 0 \<le> n \<and> n < 2 ^ 64 \<and> enc = varint_enc (nat n)"
proof (cases "0 \<le> n \<and> n < 2 ^ 64")
  case True
  then obtain m where m: "n = int m" "m < 2 ^ 64"
    by (metis nat_0_le nat_less_numeral_power_cancel_iff of_nat_numeral zero_le_imp_eq_int
        of_nat_less_numeral_power_cancel_iff)
  then show ?thesis by (auto simp: unsigned_to_varint_nat)
next
  case False
  then show ?thesis by (auto simp: unsigned_to_varint_def)
qed

lemma length_varint_enc:
  "length (varint_enc n) =
     (if n \<le> 0xFC then 1 else if n \<le> 0xFFFF then 3 else if n \<le> 0xFFFFFFFF then 5 else 9)"
  by (simp add: varint_enc_def)

lemma varint_enc_not_Nil [simp]: "varint_enc n \<noteq> []"
  by (simp add: varint_enc_def)

section \<open>Reader\<close>

text \<open>
  A \<open>BytesIO\<close> over an immutable buffer: the buffer and the read position. \<open>bio_read\<close> is
  \<open>BytesIO.read\<close>, which returns what is left when fewer bytes remain; \<open>read\<close> is the override
  in \<open>Reader\<close>, which turns the empty result into \<open>None\<close>.
\<close>

record reader =
  rdata :: bytes
  rpos :: nat

definition mk_reader :: "bytes \<Rightarrow> reader" where
  "mk_reader d = \<lparr>rdata = d, rpos = 0\<rparr>"

definition bio_read :: "nat option \<Rightarrow> reader \<Rightarrow> bytes \<times> reader" where
  "bio_read k r =
     (let avail = drop (rpos r) (rdata r);
          out = (case k of None \<Rightarrow> avail | Some n \<Rightarrow> take n avail)
      in (out, r\<lparr>rpos := rpos r + length out\<rparr>))"

definition eof :: "reader \<Rightarrow> bool" where
  "eof r = (rpos r \<ge> length (rdata r))"

definition read :: "nat option \<Rightarrow> reader \<Rightarrow> bytes option \<times> reader" where
  "read k r = (case bio_read k r of (out, r') \<Rightarrow> (if out = [] then None else Some out, r'))"

definition read_reverse :: "nat option \<Rightarrow> reader \<Rightarrow> bytes option \<times> reader" where
  "read_reverse k r = (case read k r of (d, r') \<Rightarrow> (map_option rev d, r'))"

text \<open>\<open>int.from_bytes(..., signed=True)\<close> on a little-endian string.\<close>

definition signed_le_val :: "bytes \<Rightarrow> int" where
  "signed_le_val bs =
     (let v = int (le_val bs); m = 256 ^ length bs in if 2 * v \<ge> m \<and> bs \<noteq> [] then v - m else v)"

definition read_le :: "nat \<Rightarrow> reader \<Rightarrow> nat option \<times> reader" where
  "read_le k r = (case read (Some k) r of (d, r') \<Rightarrow> (map_option le_val d, r'))"

definition read_be :: "nat \<Rightarrow> reader \<Rightarrow> nat option \<times> reader" where
  "read_be k r = (case read (Some k) r of (d, r') \<Rightarrow> (map_option be_val d, r'))"

definition read_int_le :: "nat \<Rightarrow> reader \<Rightarrow> int option \<times> reader" where
  "read_int_le k r = (case read (Some k) r of (d, r') \<Rightarrow> (map_option signed_le_val d, r'))"

definition read_int_be :: "nat \<Rightarrow> reader \<Rightarrow> int option \<times> reader" where
  "read_int_be k r = (case read (Some k) r of (d, r') \<Rightarrow> (map_option (signed_le_val \<circ> rev) d, r'))"

definition read_uint8 :: "reader \<Rightarrow> nat option \<times> reader" where
  "read_uint8 r = (case read (Some 1) r of (d, r') \<Rightarrow> (map_option (\<lambda>bs. unat (hd bs)) d, r'))"

definition read_int8 :: "reader \<Rightarrow> int option \<times> reader" where "read_int8 = read_int_be 1"
definition read_uint16_be :: "reader \<Rightarrow> nat option \<times> reader" where "read_uint16_be = read_be 2"
definition read_int16_be :: "reader \<Rightarrow> int option \<times> reader" where "read_int16_be = read_int_be 2"
definition read_uint16_le :: "reader \<Rightarrow> nat option \<times> reader" where "read_uint16_le = read_le 2"
definition read_int16_le :: "reader \<Rightarrow> int option \<times> reader" where "read_int16_le = read_int_le 2"
definition read_uint32_be :: "reader \<Rightarrow> nat option \<times> reader" where "read_uint32_be = read_be 4"
definition read_int32_be :: "reader \<Rightarrow> int option \<times> reader" where "read_int32_be = read_int_be 4"
definition read_uint32_le :: "reader \<Rightarrow> nat option \<times> reader" where "read_uint32_le = read_le 4"
definition read_int32_le :: "reader \<Rightarrow> int option \<times> reader" where "read_int32_le = read_int_le 4"

definition read_var_int_num :: "reader \<Rightarrow> nat option \<times> reader" where
  "read_var_int_num r =
     (case read_uint8 r of
        (None, r') \<Rightarrow> (None, r')
      | (Some first_byte, r') \<Rightarrow>
          if first_byte < 253 then (Some first_byte, r')
          else if first_byte = 253 then read_uint16_le r'
          else if first_byte = 254 then read_uint32_le r'
          else read_le 8 r')"

definition read_var_int :: "reader \<Rightarrow> bytes option \<times> reader" where
  "read_var_int r =
     (case read (Some 1) r of
        (None, r') \<Rightarrow> (None, r')
      | (Some fb, r') \<Rightarrow>
          (let more = (\<lambda>k. case read (Some k) r' of
                 (d, r'') \<Rightarrow> (Some (fb @ (case d of None \<Rightarrow> [] | Some x \<Rightarrow> x)), r''))
           in if hd fb = 0xFD then more 2
              else if hd fb = 0xFE then more 4
              else if hd fb = 0xFF then more 8
              else (Some fb, r')))"

definition read_bytes :: "nat option \<Rightarrow> reader \<Rightarrow> bytes \<times> reader" where
  "read_bytes k r = (case read k r of (d, r') \<Rightarrow> (case d of None \<Rightarrow> [] | Some x \<Rightarrow> x, r'))"

text \<open>\<open>read_int\<close> with its default byte order, little, the only one the package uses.\<close>

definition read_int :: "nat \<Rightarrow> reader \<Rightarrow> nat option \<times> reader" where
  "read_int k r =
     (case read_bytes (Some k) r of (octets, r') \<Rightarrow>
        (if octets = [] then None else Some (le_val octets), r'))"

lemma bio_read_at:
  "bio_read (Some (length xs)) \<lparr>rdata = pre @ xs @ post, rpos = length pre\<rparr>
     = (xs, \<lparr>rdata = pre @ xs @ post, rpos = length pre + length xs\<rparr>)"
  by (simp add: bio_read_def Let_def)

lemma read_bytes_bio: "read_bytes k r = bio_read k r"
  by (auto simp: read_bytes_def read_def split: prod.splits option.splits if_splits)

lemma read_bytes_at:
  "length xs = k \<Longrightarrow> read_bytes (Some k) \<lparr>rdata = pre @ xs @ post, rpos = length pre\<rparr>
     = (xs, \<lparr>rdata = pre @ xs @ post, rpos = length pre + k\<rparr>)"
  using bio_read_at by (auto simp: read_bytes_bio)

lemma read_at:
  "length xs = k \<Longrightarrow> k > 0 \<Longrightarrow> read (Some k) \<lparr>rdata = pre @ xs @ post, rpos = length pre\<rparr>
     = (Some xs, \<lparr>rdata = pre @ xs @ post, rpos = length pre + k\<rparr>)"
  using bio_read_at [of xs pre post] by (auto simp: read_def)

lemma read_le_at:
  "length xs = k \<Longrightarrow> k > 0 \<Longrightarrow> read_le k \<lparr>rdata = pre @ xs @ post, rpos = length pre\<rparr>
     = (Some (le_val xs), \<lparr>rdata = pre @ xs @ post, rpos = length pre + k\<rparr>)"
  by (simp add: read_le_def read_at)

lemma read_int_at:
  "length xs = k \<Longrightarrow> k > 0 \<Longrightarrow> read_int k \<lparr>rdata = pre @ xs @ post, rpos = length pre\<rparr>
     = (Some (le_val xs), \<lparr>rdata = pre @ xs @ post, rpos = length pre + k\<rparr>)"
  by (auto simp: read_int_def read_bytes_at)

lemma read_uint8_at:
  "read_uint8 \<lparr>rdata = pre @ b # post, rpos = length pre\<rparr>
     = (Some (unat b), \<lparr>rdata = pre @ b # post, rpos = Suc (length pre)\<rparr>)"
  using read_at [of "[b]" 1 pre post] by (simp add: read_uint8_def)

lemma read_le_behind:
  assumes "length xs = k" "k > 0"
  shows "read_le k \<lparr>rdata = pre @ b # xs @ post, rpos = Suc (length pre)\<rparr>
     = (Some (le_val xs), \<lparr>rdata = pre @ b # xs @ post, rpos = Suc (length pre) + k\<rparr>)"
  using read_le_at [OF assms, of "pre @ [b]" post] by simp

lemma read_var_int_num_at:
  assumes "n < 2 ^ 64"
  shows "read_var_int_num \<lparr>rdata = pre @ varint_enc n @ post, rpos = length pre\<rparr>
     = (Some n, \<lparr>rdata = pre @ varint_enc n @ post, rpos = length pre + length (varint_enc n)\<rparr>)"
proof -
  consider "n \<le> 0xFC" | "0xFC < n" "n \<le> 0xFFFF" | "0xFFFF < n" "n \<le> 0xFFFFFFFF" | "0xFFFFFFFF < n"
    by linarith
  then show ?thesis
  proof cases
    case 1
    then have "unat (word_of_nat n :: byte) = n" by (simp add: unat_word_of_nat_byte)
    with 1 show ?thesis by (simp add: varint_enc_def read_var_int_num_def read_uint8_at)
  next
    case 2
    then show ?thesis
      by (simp add: varint_enc_def read_var_int_num_def read_uint8_at read_uint16_le_def
          read_le_behind le_val_le_bytes del: le_bytes.simps)
  next
    case 3
    then show ?thesis
      by (simp add: varint_enc_def read_var_int_num_def read_uint8_at read_uint32_le_def
          read_le_behind le_val_le_bytes del: le_bytes.simps)
  next
    case 4
    with assms show ?thesis
      by (simp add: varint_enc_def read_var_int_num_def read_uint8_at
          read_le_behind le_val_le_bytes del: le_bytes.simps)
  qed
qed

section \<open>Writer\<close>

text \<open>
  \<open>Writer\<close> only ever appends, so its state is the buffer. \<open>struct.pack\<close> raises
  \<open>struct.error\<close> on a number outside the format's range.
\<close>

type_synonym writer = bytes

definition pack_u :: "nat \<Rightarrow> int \<Rightarrow> bytes result" where
  "pack_u k n = (if 0 \<le> n \<and> n < 256 ^ k then Ok (le_bytes k (nat n)) else Err StructError)"

definition pack_s :: "nat \<Rightarrow> int \<Rightarrow> bytes result" where
  "pack_s k n =
     (if - (256 ^ k) \<le> 2 * n \<and> 2 * n < 256 ^ k then Ok (le_bytes k (nat (n mod 256 ^ k)))
      else Err StructError)"

definition writer_write :: "bytes \<Rightarrow> writer \<Rightarrow> writer" where
  "writer_write buf w = w @ buf"

definition write_reverse :: "bytes \<Rightarrow> writer \<Rightarrow> writer" where
  "write_reverse buf w = w @ rev buf"

definition write_packed :: "bytes result \<Rightarrow> writer \<Rightarrow> writer result" where
  "write_packed b w = bind_r b (\<lambda>buf. Ok (writer_write buf w))"

definition write_uint8 :: "int \<Rightarrow> writer \<Rightarrow> writer result" where
  "write_uint8 n = write_packed (pack_u 1 n)"
definition write_int8 :: "int \<Rightarrow> writer \<Rightarrow> writer result" where
  "write_int8 n = write_packed (pack_s 1 n)"
definition write_uint16_be :: "int \<Rightarrow> writer \<Rightarrow> writer result" where
  "write_uint16_be n = write_packed (map_sum id rev (pack_u 2 n))"
definition write_int16_be :: "int \<Rightarrow> writer \<Rightarrow> writer result" where
  "write_int16_be n = write_packed (map_sum id rev (pack_s 2 n))"
definition write_uint16_le :: "int \<Rightarrow> writer \<Rightarrow> writer result" where
  "write_uint16_le n = write_packed (pack_u 2 n)"
definition write_int16_le :: "int \<Rightarrow> writer \<Rightarrow> writer result" where
  "write_int16_le n = write_packed (pack_s 2 n)"
definition write_uint32_be :: "int \<Rightarrow> writer \<Rightarrow> writer result" where
  "write_uint32_be n = write_packed (map_sum id rev (pack_u 4 n))"
definition write_int32_be :: "int \<Rightarrow> writer \<Rightarrow> writer result" where
  "write_int32_be n = write_packed (map_sum id rev (pack_s 4 n))"
definition write_uint32_le :: "int \<Rightarrow> writer \<Rightarrow> writer result" where
  "write_uint32_le n = write_packed (pack_u 4 n)"
definition write_int32_le :: "int \<Rightarrow> writer \<Rightarrow> writer result" where
  "write_int32_le n = write_packed (pack_s 4 n)"
definition write_uint64_be :: "int \<Rightarrow> writer \<Rightarrow> writer result" where
  "write_uint64_be n = write_packed (map_sum id rev (pack_u 8 n))"
definition write_uint64_le :: "int \<Rightarrow> writer \<Rightarrow> writer result" where
  "write_uint64_le n = write_packed (pack_u 8 n)"
definition write_var_int_num :: "int \<Rightarrow> writer \<Rightarrow> writer result" where
  "write_var_int_num n = write_packed (unsigned_to_varint n)"

lemma pack_s_signed_val:
  assumes "pack_s k n = Ok bs" "k > 0"
  shows "signed_le_val bs = n \<and> length bs = k"
proof -
  define m :: int where "m = 256 ^ k"
  from assms(1) have r: "- m \<le> 2 * n" "2 * n < m" and bs: "bs = le_bytes k (nat (n mod m))"
    by (auto simp: pack_s_def m_def split: if_splits)
  have m0: "m > 0" by (simp add: m_def)
  have lt: "nat (n mod m) < 256 ^ k"
    using pos_mod_bound [OF m0, of n] by (simp add: nat_less_iff m_def)
  have v: "int (le_val bs) = n mod m"
    using m0 by (simp add: bs le_val_le_bytes [OF lt])
  have len: "length bs = k" by (simp add: bs)
  show ?thesis
  proof (cases "n < 0")
    case True
    then have "n mod m = n + m"
      using r m0 by (subst mod_pos_pos_trivial [symmetric, of "n + m" m]) auto
    with True r len v assms(2) show ?thesis
      by (auto simp: signed_le_val_def Let_def m_def)
  next
    case False
    then have "n mod m = n" using r by simp
    with False r len v show ?thesis
      by (auto simp: signed_le_val_def Let_def m_def)
  qed
qed

section \<open>Strict CompactSize readers of the SPV package\<close>

text \<open>
  \<open>spv/witness.py\<close> and \<open>spv/proof.py\<close> carry the same reader with different exception
  classes. Both reject truncated and over-long encodings.
\<close>

definition read_compact :: "exn \<Rightarrow> bytes \<Rightarrow> nat \<Rightarrow> (nat \<times> nat) result" where
  "read_compact e buf pos =
     (if pos \<ge> length buf then Err e
      else let first = unat (buf ! pos) in
        if first < 0xFD then Ok (first, pos + 1)
        else if first = 0xFD then
          (if pos + 3 > length buf then Err e
           else let v = le_val (pyslice (pos + 1) (pos + 3) buf) in
             if v < 0xFD then Err e else Ok (v, pos + 3))
        else if first = 0xFE then
          (if pos + 5 > length buf then Err e
           else let v = le_val (pyslice (pos + 1) (pos + 5) buf) in
             if v \<le> 0xFFFF then Err e else Ok (v, pos + 5))
        else
          (if pos + 9 > length buf then Err e
           else let v = le_val (pyslice (pos + 1) (pos + 9) buf) in
             if v \<le> 0xFFFFFFFF then Err e else Ok (v, pos + 9)))"

definition witness_read_varint :: "bytes \<Rightarrow> nat \<Rightarrow> (nat \<times> nat) result" where
  "witness_read_varint = read_compact ValidationError"

definition proof_read_varint :: "bytes \<Rightarrow> nat \<Rightarrow> (nat \<times> nat) result" where
  "proof_read_varint = read_compact SpvVerificationError"

text \<open>\<open>_encode_varint\<close> of \<open>spv/witness.py\<close>; \<open>n.to_bytes(8, ...)\<close> overflows above 64 bits.\<close>

definition encode_varint :: "int \<Rightarrow> bytes result" where
  "encode_varint n =
     (if n < 0 then Err ValidationError
      else if n < 0xFD then Ok [word_of_int n]
      else if n \<le> 0xFFFF then bind_r (to_bytes_le n 2) (\<lambda>b. Ok (0xfd # b))
      else if n \<le> 0xFFFFFFFF then bind_r (to_bytes_le n 4) (\<lambda>b. Ok (0xfe # b))
      else bind_r (to_bytes_le n 8) (\<lambda>b. Ok (0xff # b)))"

lemma encode_varint_nat: "n < 2 ^ 64 \<Longrightarrow> encode_varint (int n) = Ok (varint_enc n)"
  by (auto simp: encode_varint_def varint_enc_def to_bytes_le_def)

lemma pyslice_behind:
  "j = Suc (length xs) \<Longrightarrow> pyslice (Suc (length pre)) (length pre + j) (pre @ b # xs @ post) = xs"
  using pyslice_at [of "pre @ [b]" xs post] by simp

lemma read_compact_at:
  assumes "n < 2 ^ 64"
  shows "read_compact e (pre @ varint_enc n @ post) (length pre)
     = Ok (n, length pre + length (varint_enc n))"
proof -
  consider "n \<le> 0xFC" | "0xFC < n" "n \<le> 0xFFFF" | "0xFFFF < n" "n \<le> 0xFFFFFFFF" | "0xFFFFFFFF < n"
    by linarith
  then show ?thesis
  proof cases
    case 1
    then have "unat (word_of_nat n :: byte) = n" by (simp add: unat_word_of_nat_byte)
    with 1 show ?thesis by (simp add: varint_enc_def read_compact_def nth_append)
  next
    case 2
    then show ?thesis
      by (simp add: varint_enc_def read_compact_def nth_append le_val_le_bytes pyslice_behind
          del: le_bytes.simps)
  next
    case 3
    then show ?thesis
      by (simp add: varint_enc_def read_compact_def nth_append le_val_le_bytes pyslice_behind
          del: le_bytes.simps)
  next
    case 4
    with assms show ?thesis
      by (simp add: varint_enc_def read_compact_def nth_append le_val_le_bytes pyslice_behind
          del: le_bytes.simps)
  qed
qed

lemma split_at_pos:
  "pos + k \<le> length buf \<Longrightarrow> buf = take pos buf @ pyslice pos (pos + k) buf @ drop (pos + k) buf"
  by (simp add: pyslice_def) (metis add.commute append_take_drop_id drop_drop)

lemma pyslice_Suc:
  "pos < length buf \<Longrightarrow> pyslice pos (Suc pos + k) buf = buf ! pos # pyslice (Suc pos) (Suc pos + k) buf"
  by (simp add: pyslice_def Cons_nth_drop_Suc [symmetric])

lemma le_bytes_pyslice:
  "a + k \<le> length buf \<Longrightarrow> le_bytes k (le_val (pyslice a (a + k) buf)) = pyslice a (a + k) buf"
  using le_bytes_le_val [of "pyslice a (a + k) buf"] by simp

lemma le_val_pyslice_less:
  "b = a + k \<Longrightarrow> b \<le> length buf \<Longrightarrow> le_val (pyslice a b buf) < 256 ^ k"
  using le_val_less [of "pyslice a b buf"] by simp

lemma byte_prefix_cases: "unat b < 253 \<or> b = 253 \<or> b = 254 \<or> b = (255 :: byte)"
proof -
  have "unat b < 253 \<or> unat b = 253 \<or> unat b = 254 \<or> unat b = 255"
    using unat_byte_less [of b] by linarith
  then show ?thesis by (auto simp: word_unat_eq_iff)
qed

lemma read_compact_canonical:
  assumes "read_compact e buf pos = Ok (v, q)"
  shows "v < 2 ^ 64 \<and> q \<le> length buf \<and> q = pos + length (varint_enc v)
     \<and> pyslice pos q buf = varint_enc v"
proof -
  from assms have p: "pos < length buf" by (auto simp: read_compact_def split: if_splits)
  have lead: "buf ! pos = w \<Longrightarrow> m = pos + 1 + k \<Longrightarrow> m \<le> length buf
      \<Longrightarrow> pyslice pos m buf = w # le_bytes k (le_val (pyslice (pos + 1) m buf))"
    for w k m using pyslice_Suc [OF p, of k] le_bytes_pyslice [of "pos + 1" k buf] by simp
  consider (a) "unat (buf ! pos) < 253" | (b) "buf ! pos = 253" | (c) "buf ! pos = 254" | (d) "buf ! pos = 255"
    using byte_prefix_cases by blast
  then show ?thesis
  proof cases
    case a
    with assms p have vq: "v = unat (buf ! pos)" "q = pos + 1"
      by (auto simp: read_compact_def)
    have "pyslice pos (Suc pos) buf = [buf ! pos]"
      using pyslice_Suc [OF p, of 0] by (simp add: pyslice_def)
    with a p vq show ?thesis by (simp add: varint_enc_def)
  next
    case b
    with assms p have vq: "pos + 3 \<le> length buf" "v = le_val (pyslice (pos + 1) (pos + 3) buf)"
        "253 \<le> v" "q = pos + 3"
      by (auto simp: read_compact_def Let_def split: if_splits)
    then have "v < 256 ^ 2" using le_val_pyslice_less [of "pos + 3" "pos + 1" 2 buf] by simp
    moreover have "pyslice pos q buf = 253 # le_bytes 2 v" using lead [of 253 "pos + 3" 2] b vq by simp
    ultimately show ?thesis using vq by (simp add: varint_enc_def del: le_bytes.simps)
  next
    case c
    with assms p have vq: "pos + 5 \<le> length buf" "v = le_val (pyslice (pos + 1) (pos + 5) buf)"
        "65535 < v" "q = pos + 5"
      by (auto simp: read_compact_def Let_def split: if_splits)
    then have "v < 256 ^ 4" using le_val_pyslice_less [of "pos + 5" "pos + 1" 4 buf] by simp
    moreover have "pyslice pos q buf = 254 # le_bytes 4 v" using lead [of 254 "pos + 5" 4] c vq by simp
    ultimately show ?thesis using vq by (simp add: varint_enc_def del: le_bytes.simps)
  next
    case d
    with assms p have vq: "pos + 9 \<le> length buf" "v = le_val (pyslice (pos + 1) (pos + 9) buf)"
        "4294967295 < v" "q = pos + 9"
      by (auto simp: read_compact_def Let_def split: if_splits)
    then have "v < 256 ^ 8" using le_val_pyslice_less [of "pos + 9" "pos + 1" 8 buf] by simp
    moreover have "pyslice pos q buf = 255 # le_bytes 8 v" using lead [of 255 "pos + 9" 8] d vq by simp
    ultimately show ?thesis using vq by (simp add: varint_enc_def del: le_bytes.simps)
  qed
qed

lemma read_compact_iff:
  "read_compact e buf pos = Ok (v, q) \<longleftrightarrow>
     (\<exists>pre enc post. unsigned_to_varint (int v) = Ok enc \<and> buf = pre @ enc @ post
        \<and> length pre = pos \<and> q = pos + length enc)" (is "?L \<longleftrightarrow> ?R")
proof
  assume ?L
  from read_compact_canonical [OF this]
  have "v < 2 ^ 64" "q \<le> length buf" "q = pos + length (varint_enc v)" "pyslice pos q buf = varint_enc v"
    by blast+
  moreover from this split_at_pos [of pos "length (varint_enc v)" buf]
  have "buf = take pos buf @ varint_enc v @ drop q buf" by simp
  moreover from calculation have "length (take pos buf) = pos" by simp
  ultimately show ?R using unsigned_to_varint_nat by metis
next
  assume ?R
  then show ?L by (auto simp: unsigned_to_varint_Ok_iff read_compact_at)
qed

lemma read_compact_enc:
  "read_compact e buf pos = Ok (v, q) \<longleftrightarrow>
     v < 2 ^ 64 \<and> (\<exists>pre post. buf = pre @ varint_enc v @ post \<and> length pre = pos
       \<and> q = pos + length (varint_enc v))"
  unfolding read_compact_iff by (auto simp: unsigned_to_varint_Ok_iff)

section \<open>Counted skips\<close>

text \<open>
  \<open>for _ in range(n): pos = skip(pos)\<close>, and the contract that makes such a loop correct: the
  parser succeeds exactly where an encoding stands, and stops right behind it.
\<close>

fun skip_n :: "(nat \<Rightarrow> nat result) \<Rightarrow> nat \<Rightarrow> nat \<Rightarrow> nat result" where
  "skip_n f 0 pos = Ok pos"
| "skip_n f (Suc n) pos = bind_r (f pos) (skip_n f n)"

definition stands_at :: "bytes \<Rightarrow> nat \<Rightarrow> bytes \<Rightarrow> nat \<Rightarrow> bool" where
  "stands_at buf pos xs q \<longleftrightarrow> q \<le> length buf \<and> q = pos + length xs \<and> pyslice pos q buf = xs"

lemma stands_at_iff:
  "stands_at buf pos xs q \<longleftrightarrow> (\<exists>pre post. buf = pre @ xs @ post \<and> length pre = pos \<and> q = pos + length xs)"
proof
  assume *: "stands_at buf pos xs q"
  then show "\<exists>pre post. buf = pre @ xs @ post \<and> length pre = pos \<and> q = pos + length xs"
    using split_at_pos [of pos "length xs" buf]
    by (intro exI [of _ "take pos buf"] exI [of _ "drop q buf"]) (auto simp: stands_at_def)
qed (auto simp: stands_at_def pyslice_at)

lemma stands_at_Nil [simp]: "stands_at buf pos [] q \<longleftrightarrow> q = pos \<and> pos \<le> length buf"
  by (auto simp: stands_at_def pyslice_def)

lemma stands_at_le: "stands_at buf pos xs q \<Longrightarrow> pos \<le> q \<and> q \<le> length buf"
  by (auto simp: stands_at_def)

lemma stands_at_slice: "stands_at buf pos xs q \<Longrightarrow> pyslice pos q buf = xs"
  unfolding stands_at_def by blast

lemma stands_at_append:
  "stands_at buf pos (xs @ ys) q \<longleftrightarrow> (\<exists>p. stands_at buf pos xs p \<and> stands_at buf p ys q)" (is "?L \<longleftrightarrow> ?R")
proof
  assume ?L
  then obtain pre post where "buf = pre @ xs @ ys @ post" "length pre = pos" "q = pos + length xs + length ys"
    by (auto simp: stands_at_iff)
  then have "stands_at buf pos xs (pos + length xs) \<and> stands_at buf (pos + length xs) ys q"
    using pyslice_at [of "pre @ xs" ys post] pyslice_at [of pre xs "ys @ post"] by (auto simp: stands_at_def)
  then show ?R by blast
next
  assume ?R
  then obtain p where "stands_at buf pos xs p" "stands_at buf p ys q" by blast
  moreover from this have "pyslice pos p buf @ pyslice p q buf = pyslice pos q buf"
    by (intro pyslice_split) (auto simp: stands_at_def)
  ultimately show ?L by (auto simp: stands_at_def)
qed

lemma stands_at_whole: "stands_at (pre @ xs @ post) (length pre) xs (length pre + length xs)"
  by (auto simp: stands_at_iff)

lemma stands_at_any:
  "(\<exists>a. length a = k \<and> stands_at buf pos a q) \<longleftrightarrow> q = pos + k \<and> q \<le> length buf"
  by (auto simp: stands_at_def intro!: exI [of _ "pyslice pos q buf"])

lemma read_compact_stands:
  "read_compact e buf pos = Ok (v, q) \<longleftrightarrow> v < 2 ^ 64 \<and> stands_at buf pos (varint_enc v) q"
  by (simp add: read_compact_enc stands_at_iff)

locale skipper =
  fixes wf :: "'a \<Rightarrow> bool"
    and enc :: "'a \<Rightarrow> bytes"
    and skip :: "bytes \<Rightarrow> nat \<Rightarrow> nat result"
  assumes skip_iff: "skip buf pos = Ok q \<longleftrightarrow> (\<exists>x. wf x \<and> stands_at buf pos (enc x) q)"
begin

lemma skip_n_iff:
  "pos \<le> length buf \<Longrightarrow>
     skip_n (skip buf) n pos = Ok q \<longleftrightarrow>
       (\<exists>xs. length xs = n \<and> list_all wf xs \<and> stands_at buf pos (concat (map enc xs)) q)"
proof (induction n arbitrary: pos)
  case 0
  then show ?case by auto
next
  case (Suc n)
  show ?case (is "?L \<longleftrightarrow> ?R")
  proof
    assume ?L
    then obtain p x where x: "wf x" "stands_at buf pos (enc x) p" "skip_n (skip buf) n p = Ok q"
      by (auto simp: py_simps skip_iff)
    with Suc.IH [of p] obtain xs where
      "length xs = n" "list_all wf xs" "stands_at buf p (concat (map enc xs)) q"
      by (auto dest: stands_at_le)
    with x show ?R by (intro exI [of _ "x # xs"]) (auto simp: stands_at_append)
  next
    assume ?R
    then obtain x xs p where x: "wf x" "length xs = n" "list_all wf xs"
      "stands_at buf pos (enc x) p" "stands_at buf p (concat (map enc xs)) q"
      by (auto simp: length_Suc_conv stands_at_append)
    then have "skip buf pos = Ok p" by (auto simp: skip_iff)
    moreover have "skip_n (skip buf) n p = Ok q"
      using Suc.IH [of p] x by (auto dest: stands_at_le)
    ultimately show ?L by simp
  qed
qed

lemma skip_n_at:
  "list_all wf xs \<Longrightarrow>
     skip_n (skip (pre @ concat (map enc xs) @ post)) (length xs) (length pre)
       = Ok (length pre + length (concat (map enc xs)))"
  using stands_at_whole [of pre "concat (map enc xs)" post] by (subst skip_n_iff) auto

end

text \<open>
  The shape shared by inputs, outputs and witness items: \<open>k\<close> bytes, a length-prefixed string,
  and \<open>m\<close> bytes.
\<close>

type_synonym field = "bytes \<times> bytes \<times> bytes"

definition wf_field :: "nat \<Rightarrow> nat \<Rightarrow> field \<Rightarrow> bool" where
  "wf_field k m = (\<lambda>(a, s, b). length a = k \<and> length s < 2 ^ 64 \<and> length b = m)"

definition enc_field :: "field \<Rightarrow> bytes" where
  "enc_field = (\<lambda>(a, s, b). a @ varint_enc (length s) @ s @ b)"

lemma field_stands:
  "(\<exists>x. wf_field k m x \<and> stands_at buf pos (enc_field x) q) \<longleftrightarrow>
     (\<exists>v p. read_compact e buf (pos + k) = Ok (v, p) \<and> q = p + v + m \<and> q \<le> length buf)" (is "?L \<longleftrightarrow> ?R")
proof
  assume ?L
  then obtain a s b where w: "length a = k" "length s < 2 ^ 64" "length b = m"
    "stands_at buf pos (a @ varint_enc (length s) @ s @ b) q"
    by (auto simp: wf_field_def enc_field_def)
  then obtain p0 p1 p2 where p: "stands_at buf pos a p0" "stands_at buf p0 (varint_enc (length s)) p1"
    "stands_at buf p1 s p2" "stands_at buf p2 b q"
    by (auto simp: stands_at_append)
  with w have "p0 = pos + k" "q = p1 + length s + m" "q \<le> length buf" by (auto simp: stands_at_def)
  with p w show ?R by (auto simp: read_compact_stands)
next
  assume ?R
  then obtain v p where v: "v < 2 ^ 64" "stands_at buf (pos + k) (varint_enc v) p" "q = p + v + m" "q \<le> length buf"
    by (auto simp: read_compact_stands)
  then have "pos + k \<le> length buf" "p \<le> length buf" by (auto dest: stands_at_le)
  with v stands_at_any [of k buf pos "pos + k"] stands_at_any [of v buf p "p + v"] stands_at_any [of m buf "p + v" q]
  obtain a s b where "length a = k" "stands_at buf pos a (pos + k)" "length s = v" "stands_at buf p s (p + v)"
    "length b = m" "stands_at buf (p + v) b q" by auto
  with v have "wf_field k m (a, s, b) \<and> stands_at buf pos (enc_field (a, s, b)) q"
    by (auto simp: wf_field_def enc_field_def stands_at_append)
  then show ?L by blast
qed

section \<open>Properties\<close>

text \<open>
  What \<open>unsigned_to_varint\<close> writes, \<open>Reader.read_var_int_num\<close> reads back at any
  position of any buffer, leaving the reader right behind the encoding.
\<close>

theorem varint_reader_roundtrip:
  assumes "unsigned_to_varint n = Ok enc"
  shows "read_var_int_num \<lparr>rdata = pre @ enc @ post, rpos = length pre\<rparr>
     = (Some (nat n), \<lparr>rdata = pre @ enc @ post, rpos = length pre + length enc\<rparr>)"
proof -
  from assms have "nat n < 2 ^ 64" "enc = varint_enc (nat n)"
    by (auto simp: unsigned_to_varint_Ok_iff nat_less_iff)
  then show ?thesis by (simp add: read_var_int_num_at)
qed

theorem varint_reader_roundtrip_witness:
  "unsigned_to_varint 300 = Ok [0xfd, 0x2c, 0x01]
   \<and> read_var_int_num \<lparr>rdata = [7] @ [0xfd, 0x2c, 0x01] @ [9], rpos = length [7::byte]\<rparr>
     = (Some (nat 300), \<lparr>rdata = [7] @ [0xfd, 0x2c, 0x01] @ [9], rpos = length [7::byte] + length [0xfd, 0x2c, 0x01::byte]\<rparr>)"
proof -
  have h: "unsigned_to_varint 300 = Ok [0xfd, 0x2c, 0x01]" by code_simp
  show ?thesis using h varint_reader_roundtrip [OF h, of "[7]" "[9]"] by blast
qed

text \<open>
  The strict readers of \<open>spv/witness.py\<close> and \<open>spv/proof.py\<close> accept a buffer at a
  position exactly when the canonical encoding that \<open>unsigned_to_varint\<close> produces for the
  returned value stands there, and they stop right behind it: no truncated and no over-long
  encoding passes, and both readers agree.
\<close>

theorem strict_varint_canonical:
  "(witness_read_varint buf pos = Ok (v, q) \<longleftrightarrow>
      (\<exists>pre enc post. unsigned_to_varint (int v) = Ok enc \<and> buf = pre @ enc @ post
         \<and> length pre = pos \<and> q = pos + length enc))
   \<and> (proof_read_varint buf pos = Ok (v, q) \<longleftrightarrow> witness_read_varint buf pos = Ok (v, q))"
  by (simp only: witness_read_varint_def proof_read_varint_def read_compact_iff)

end
