(* ===== verification/Boundary.thy ===== *)
theory Boundary
  imports Prelude
begin

unbundle bit_operations_syntax

text \<open>
  The trust-boundary newtypes of \<open>pyrxd/security/types.py\<close>. A constructor receives an
  arbitrary Python object; \<open>pyval\<close> distinguishes the classes the \<open>isinstance\<close> tests
  distinguish (a \<open>bool\<close> is an \<open>int\<close> to Python, and each constructor excludes it by hand).
\<close>

section \<open>Python values at the boundary\<close>

datatype pyval =
    PyNone | PyBool bool | PyInt int | PyStr string | PyBytes bytes | PyBytearray bytes | PyOther

section \<open>Txid\<close>

definition lower_hex :: "char \<Rightarrow> bool" where
  "lower_hex c = (let n = (of_char c :: nat) in (48 \<le> n \<and> n \<le> 57) \<or> (97 \<le> n \<and> n \<le> 102))"

text \<open>
  \<open>re.match(r"^[0-9a-f]{64}$", s)\<close>: without \<open>re.MULTILINE\<close> the anchor \<open>$\<close> also matches just
  before a newline that ends the string.
\<close>

definition txid_re_match :: "string \<Rightarrow> bool" where
  "txid_re_match s =
     (length (take 64 s) = 64 \<and> list_all lower_hex (take 64 s)
      \<and> (drop 64 s = [] \<or> drop 64 s = [char_of (10 :: nat)]))"

definition Txid :: "pyval \<Rightarrow> string result" where
  "Txid v = (case v of
      PyStr s \<Rightarrow> if \<not> txid_re_match s then Err ValidationError else Ok s
    | _ \<Rightarrow> Err ValidationError)"

section \<open>Fixed-length bytes\<close>

definition fixed_bytes :: "nat \<Rightarrow> pyval \<Rightarrow> bytes result" where
  "fixed_bytes expected_len v = (case v of
      PyBytes b \<Rightarrow> if length b \<noteq> expected_len then Err ValidationError else Ok b
    | PyBytearray b \<Rightarrow> if length b \<noteq> expected_len then Err ValidationError else Ok b
    | _ \<Rightarrow> Err ValidationError)"

definition fixed_bytes_from_hex :: "nat \<Rightarrow> pyval \<Rightarrow> bytes result" where
  "fixed_bytes_from_hex expected_len v = (case v of
      PyStr s \<Rightarrow> (case fromhex s of
          Inl _ \<Rightarrow> Err ValidationError
        | Inr raw \<Rightarrow> fixed_bytes expected_len (PyBytes raw))
    | _ \<Rightarrow> Err ValidationError)"

definition Hex32 :: "pyval \<Rightarrow> bytes result" where
  "Hex32 = fixed_bytes 32"

definition Hex20 :: "pyval \<Rightarrow> bytes result" where
  "Hex20 = fixed_bytes 20"

section \<open>Amounts and heights\<close>

definition BTC_MAX_SATS :: int where "BTC_MAX_SATS = 2100000000000000"
definition BLOCK_HEIGHT_CEIL :: int where "BLOCK_HEIGHT_CEIL = 10000000"

definition Satoshis :: "pyval \<Rightarrow> int result" where
  "Satoshis v = (case v of
      PyInt n \<Rightarrow> if n < 0 then Err ValidationError
                 else if n > BTC_MAX_SATS then Err ValidationError else Ok n
    | _ \<Rightarrow> Err ValidationError)"

definition Photons :: "pyval \<Rightarrow> int result" where
  "Photons v = (case v of
      PyInt n \<Rightarrow> if n < 0 then Err ValidationError else Ok n
    | _ \<Rightarrow> Err ValidationError)"

definition BlockHeight :: "pyval \<Rightarrow> int result" where
  "BlockHeight v = (case v of
      PyInt n \<Rightarrow> if n < 0 then Err ValidationError
                 else if n > BLOCK_HEIGHT_CEIL then Err ValidationError else Ok n
    | _ \<Rightarrow> Err ValidationError)"

section \<open>Nbits\<close>

definition nbits_mantissa :: "bytes \<Rightarrow> nat" where
  "nbits_mantissa raw =
     (push_bit 16 (unat (raw ! 2)) OR push_bit 8 (unat (raw ! 1))) OR unat (raw ! 0)"

definition nbits_check :: "bytes \<Rightarrow> bytes result" where
  "nbits_check raw =
     (if length raw \<noteq> 4 then Err ValidationError
      else if unat (raw ! 3) > 0x1D then Err ValidationError
      else if nbits_mantissa raw AND 0x00800000 \<noteq> 0 then Err ValidationError
      else if nbits_mantissa raw = 0 then Err ValidationError
      else Ok raw)"

definition Nbits :: "pyval \<Rightarrow> bytes result" where
  "Nbits v = (case v of
      PyBytes b \<Rightarrow> nbits_check b
    | PyBytearray b \<Rightarrow> nbits_check b
    | _ \<Rightarrow> Err ValidationError)"

section \<open>RawTx and SighashFlag\<close>

definition RawTx :: "pyval \<Rightarrow> bytes result" where
  "RawTx v = (case v of
      PyBytes b \<Rightarrow> if length b \<le> 64 then Err ValidationError else Ok b
    | PyBytearray b \<Rightarrow> if length b \<le> 64 then Err ValidationError else Ok b
    | _ \<Rightarrow> Err ValidationError)"

definition VALID_SIGHASH_FLAGS :: "int set" where
  "VALID_SIGHASH_FLAGS = {0x41, 0x42, 0x43, 0xC1, 0xC2, 0xC3}"

definition SighashFlag :: "pyval \<Rightarrow> int result" where
  "SighashFlag v = (case v of
      PyInt n \<Rightarrow> if n \<notin> VALID_SIGHASH_FLAGS then Err ValidationError else Ok n
    | _ \<Rightarrow> Err ValidationError)"

section \<open>The mantissa as a little-endian number\<close>

lemma or_push_bit_add: "a < 2 ^ n \<Longrightarrow> push_bit n b OR a = b * 2 ^ n + (a :: nat)"
proof -
  assume a: "a < 2 ^ n"
  have "push_bit n b AND a = 0"
  proof (rule bit_eqI)
    fix k
    show "bit (push_bit n b AND a) k \<longleftrightarrow> bit 0 k"
    proof -
      have "take_bit n a = a" using a by (simp add: take_bit_nat_eq_self)
      then have "bit a k \<Longrightarrow> k < n" by (metis bit_take_bit_iff)
      then show ?thesis by (auto simp: bit_simps)
    qed
  qed
  then have "push_bit n b + a = push_bit n b OR a" by (rule disjunctive_add_eq_or)
  then show ?thesis by (simp add: push_bit_eq_mult)
qed

lemma nbits_mantissa_eq:
  "nbits_mantissa raw = unat (raw ! 2) * 65536 + unat (raw ! 1) * 256 + unat (raw ! 0)"
proof -
  let ?a = "unat (raw ! 0)" and ?b = "unat (raw ! 1)" and ?c = "unat (raw ! 2)"
  have "push_bit 16 ?c OR push_bit 8 ?b = ?c * 2 ^ 16 + push_bit 8 ?b"
    using unat_byte_less [of "raw ! 1"] by (intro or_push_bit_add) (simp add: push_bit_eq_mult)
  also have "\<dots> = push_bit 8 (?c * 256 + ?b)" by (simp add: push_bit_eq_mult)
  finally have "nbits_mantissa raw = push_bit 8 (?c * 256 + ?b) OR ?a" by (simp add: nbits_mantissa_def)
  also have "\<dots> = (?c * 256 + ?b) * 2 ^ 8 + ?a" by (rule or_push_bit_add) simp
  finally show ?thesis by simp
qed

lemma list4E:
  assumes "length raw = 4"
  obtains a b c d where "raw = [a, b, c, d]"
  using assms by (auto simp: numeral_eq_Suc length_Suc_conv)

lemma nbits_mantissa_le_val: "length raw = 4 \<Longrightarrow> nbits_mantissa raw = le_val (take 3 raw)"
  by (elim list4E) (simp add: nbits_mantissa_eq)

lemma and_bit23_iff: "n < 2 ^ 24 \<Longrightarrow> n AND 0x00800000 \<noteq> 0 \<longleftrightarrow> 2 ^ 23 \<le> (n :: nat)"
proof -
  assume n: "n < 2 ^ 24"
  have "n AND 2 ^ 23 = 0 \<longleftrightarrow> \<not> bit n 23" by (rule and_exp_eq_0_iff_not_bit)
  moreover have "bit n 23 \<longleftrightarrow> 2 ^ 23 \<le> n"
  proof -
    have "n div 2 ^ 23 < 2" using n by (simp add: less_mult_imp_div_less)
    then have "odd (n div 2 ^ 23) \<longleftrightarrow> n div 2 ^ 23 = 1" by (cases "n div 2 ^ 23") auto
    also have "\<dots> \<longleftrightarrow> 2 ^ 23 \<le> n" using n by (auto simp: div_nat_eqI div_greater_zero_iff)
    finally show ?thesis by (simp add: bit_iff_odd)
  qed
  ultimately show ?thesis by simp
qed

lemma nbits_check_Ok_iff:
  "nbits_check raw = Ok r \<longleftrightarrow> r = raw \<and> length raw = 4 \<and> unat (raw ! 3) \<le> 0x1D
     \<and> 0 < le_val (take 3 raw) \<and> le_val (take 3 raw) < 2 ^ 23"
proof (cases "length raw = 4")
  case True
  then have "le_val (take 3 raw) < 2 ^ 24"
    using le_val_less [of "take 3 raw"] by simp
  from and_bit23_iff [OF this] True show ?thesis
    by (auto simp: nbits_check_def nbits_mantissa_le_val)
qed (auto simp: nbits_check_def)

section \<open>Properties\<close>

text \<open>
  \<open>Nbits\<close> accepts exactly the four-byte values whose exponent byte is at most 0x1d and
  whose 24-bit mantissa is positive with a clear sign bit, and returns the bytes unchanged;
  so the zero, negative and over-large targets never get past it.
\<close>

theorem Nbits_accepts_iff:
  "Nbits (PyBytes raw) = Ok r \<longleftrightarrow> r = raw \<and> length raw = 4 \<and> unat (raw ! 3) \<le> 0x1D
     \<and> 0 < le_val (take 3 raw) \<and> le_val (take 3 raw) < 2 ^ 23"
  by (simp add: Nbits_def nbits_check_Ok_iff)

text \<open>
  \<open>Txid\<close> accepts a string of 64 lower-case hexadecimal digits, but also the same string
  followed by a newline, because the pattern ends in \<open>$\<close>: a 65-character value passes the
  64-character check.
\<close>

theorem Txid_accepts_trailing_newline:
  "Txid (PyStr (replicate 64 (CHR ''0'') @ [char_of (10 :: nat)]))
     = Ok (replicate 64 (CHR ''0'') @ [char_of (10 :: nat)])"
  by (simp add: Txid_def txid_re_match_def lower_hex_def list_all_iff Let_def)

text \<open>
  \<open>from_hex\<close> of the fixed-length byte types is documented to reject white space, but
  white space between the digits of different bytes is skipped, as \<open>bytes.fromhex\<close> does:
  every rendering of a value with spaces between its bytes constructs the value.
\<close>

theorem from_hex_skips_whitespace:
  "fixed_bytes_from_hex (length bs) (PyStr (concat (map (\<lambda>b. CHR '' '' # hex [b]) bs))) = Ok bs"
proof -
  have "fromhex (concat (map (\<lambda>b. CHR '' '' # hex [b]) bs)) = Ok bs"
  proof (induction bs)
    case (Cons b bs)
    have "ascii_space (CHR '' '')" by (simp add: ascii_space_def)
    moreover have "unat b div 16 < 16" using unat_byte_less [of b] by linarith
    ultimately show ?case
      using Cons.IH unat_nibbles [of b] by (simp del: of_nat_add of_nat_mult)
  qed simp
  then show ?thesis by (simp add: fixed_bytes_from_hex_def fixed_bytes_def)
qed

end
