(* ===== verification/Sha256.thy ===== *)
theory Sha256
  imports Prelude
begin

unbundle bit_operations_syntax

text \<open>
  SHA-256 (FIPS 180-4), which the sources take from \<open>hashlib\<close>, and Bitcoin's double hash
  \<open>hash256\<close>. Thirty-two-bit words are natural numbers with the wrap-around written out.
  The locale \<open>digest\<close> is all that the other components need to know about a hash function;
  it is interpreted on \<open>hash256\<close> and on \<open>sha256\<close> itself.
\<close>

section \<open>The compression function\<close>

definition sha_K :: "nat list" where
  "sha_K = [
     1116352408, 1899447441, 3049323471, 3921009573,
     961987163, 1508970993, 2453635748, 2870763221,
     3624381080, 310598401, 607225278, 1426881987,
     1925078388, 2162078206, 2614888103, 3248222580,
     3835390401, 4022224774, 264347078, 604807628,
     770255983, 1249150122, 1555081692, 1996064986,
     2554220882, 2821834349, 2952996808, 3210313671,
     3336571891, 3584528711, 113926993, 338241895,
     666307205, 773529912, 1294757372, 1396182291,
     1695183700, 1986661051, 2177026350, 2456956037,
     2730485921, 2820302411, 3259730800, 3345764771,
     3516065817, 3600352804, 4094571909, 275423344,
     430227734, 506948616, 659060556, 883997877,
     958139571, 1322822218, 1537002063, 1747873779,
     1955562222, 2024104815, 2227730452, 2361852424,
     2428436474, 2756734187, 3204031479, 3329325298]"

datatype sha_state = Sha nat nat nat nat nat nat nat nat

definition add32 :: "nat \<Rightarrow> nat \<Rightarrow> nat" where
  "add32 a b = take_bit 32 (a + b)"

definition rotr32 :: "nat \<Rightarrow> nat \<Rightarrow> nat" where
  "rotr32 n x = push_bit (32 - n) (take_bit n x) + drop_bit n x"

definition big_sigma0 :: "nat \<Rightarrow> nat" where
  "big_sigma0 x = rotr32 2 x XOR rotr32 13 x XOR rotr32 22 x"

definition big_sigma1 :: "nat \<Rightarrow> nat" where
  "big_sigma1 x = rotr32 6 x XOR rotr32 11 x XOR rotr32 25 x"

definition small_sigma0 :: "nat \<Rightarrow> nat" where
  "small_sigma0 x = rotr32 7 x XOR rotr32 18 x XOR drop_bit 3 x"

definition small_sigma1 :: "nat \<Rightarrow> nat" where
  "small_sigma1 x = rotr32 17 x XOR rotr32 19 x XOR drop_bit 10 x"

definition sha_ch :: "nat \<Rightarrow> nat \<Rightarrow> nat \<Rightarrow> nat" where
  "sha_ch e f g = (e AND f) XOR ((0xFFFFFFFF XOR e) AND g)"

definition sha_maj :: "nat \<Rightarrow> nat \<Rightarrow> nat \<Rightarrow> nat" where
  "sha_maj a b c = (a AND b) XOR (a AND c) XOR (b AND c)"

fun sha_mix :: "sha_state \<Rightarrow> nat \<Rightarrow> nat \<Rightarrow> sha_state" where
  "sha_mix (Sha a b c d e f g h) t1 t2 = Sha (add32 t1 t2) a b c (add32 d t1) e f g"

fun sha_round :: "sha_state \<Rightarrow> nat \<Rightarrow> nat \<Rightarrow> sha_state" where
  "sha_round (Sha a b c d e f g h) k w =
     sha_mix (Sha a b c d e f g h)
       (h + big_sigma1 e + sha_ch e f g + k + w) (big_sigma0 a + sha_maj a b c)"

fun sha_rounds :: "nat list \<Rightarrow> nat list \<Rightarrow> sha_state \<Rightarrow> sha_state" where
  "sha_rounds (k # ks) (w # ws) s = sha_rounds ks ws (sha_round s k w)"
| "sha_rounds _ _ s = s"

text \<open>The message schedule, a window of sixteen words that slides by one.\<close>

fun sha_schedule :: "nat \<Rightarrow> nat list \<Rightarrow> nat list" where
  "sha_schedule (Suc n) [w0, w1, w2, w3, w4, w5, w6, w7, w8, w9, w10, w11, w12, w13, w14, w15] =
     w0 # sha_schedule n [w1, w2, w3, w4, w5, w6, w7, w8, w9, w10, w11, w12, w13, w14, w15,
       take_bit 32 (w0 + small_sigma0 w1 + w9 + small_sigma1 w14)]"
| "sha_schedule _ _ = []"

fun sha_words :: "bytes \<Rightarrow> nat list" where
  "sha_words (a # b # c # d # bs) = be_val [a, b, c, d] # sha_words bs"
| "sha_words _ = []"

fun sha_add :: "sha_state \<Rightarrow> sha_state \<Rightarrow> sha_state" where
  "sha_add (Sha a b c d e f g h) (Sha a' b' c' d' e' f' g' h') =
     Sha (add32 a a') (add32 b b') (add32 c c') (add32 d d')
         (add32 e e') (add32 f f') (add32 g g') (add32 h h')"

definition sha_compress :: "sha_state \<Rightarrow> bytes \<Rightarrow> sha_state" where
  "sha_compress s blk = sha_add s (sha_rounds sha_K (sha_schedule 64 (sha_words blk)) s)"

section \<open>Padding and the whole hash\<close>

fun sha_blocks :: "nat \<Rightarrow> bytes \<Rightarrow> sha_state \<Rightarrow> sha_state" where
  "sha_blocks 0 bs s = s"
| "sha_blocks (Suc n) bs s = sha_blocks n (drop 64 bs) (sha_compress s (take 64 bs))"

definition sha_pad :: "bytes \<Rightarrow> bytes" where
  "sha_pad m = m @ 0x80 # replicate ((119 - length m mod 64) mod 64) 0 @ be_bytes 8 (8 * length m)"

definition sha_init :: sha_state where
  "sha_init = Sha 1779033703 3144134277 1013904242 2773480762 1359893119 2600822924 528734635 1541459225"

fun sha_digest :: "sha_state \<Rightarrow> bytes" where
  "sha_digest (Sha a b c d e f g h) =
     be_bytes 4 a @ be_bytes 4 b @ be_bytes 4 c @ be_bytes 4 d
     @ be_bytes 4 e @ be_bytes 4 f @ be_bytes 4 g @ be_bytes 4 h"

definition sha256 :: "bytes \<Rightarrow> bytes" where
  "sha256 m = sha_digest (sha_blocks (length (sha_pad m) div 64) (sha_pad m) sha_init)"

definition hash256 :: "bytes \<Rightarrow> bytes" where
  "hash256 data = sha256 (sha256 data)"

section \<open>The contract of a 32-byte digest\<close>

locale digest =
  fixes H :: "bytes \<Rightarrow> bytes"
  assumes H_length: "length (H x) = 32"
begin

lemma H_pair_length: "length (H x @ H y) = 64"
  by (simp add: H_length)

lemma H_pair_inj: "length x = 32 \<Longrightarrow> length x' = 32 \<Longrightarrow> x @ y = x' @ y' \<Longrightarrow> x = x' \<and> y = y'"
  by simp

end

lemma length_sha_digest: "length (sha_digest s) = 32"
  by (cases s) simp

interpretation sha: digest sha256
  by unfold_locales (simp add: sha256_def length_sha_digest)

interpretation h256: digest hash256
  by unfold_locales (simp add: hash256_def sha.H_length)

lemmas hash256_length [simp, codec_simps] = h256.H_length
lemmas sha256_length [simp, codec_simps] = sha.H_length

end
