(* ===== verification/Spv_Header.thy ===== *)
theory Spv_Header
  imports Sha256 Boundary
begin

text \<open>
  Block headers: \<open>pyrxd/spv/pow.py\<close> (the proof-of-work check of one 80-byte header) and
  \<open>pyrxd/spv/chain.py\<close> (a chain of headers hanging off an anchor). The reference notions are
  numeric: a header's work is valid when its hash, read as a little-endian number, lies below
  the target \<open>mantissa * 256 ^ (exponent - 3)\<close>.
\<close>

section \<open>Proof of work\<close>

text \<open>
  The comparison loop over eight big-endian 32-bit chunks, most significant first; the list
  is the range of chunk indices still to compare.
\<close>

fun pow_compare :: "bytes \<Rightarrow> bytes \<Rightarrow> bytes \<Rightarrow> nat list \<Rightarrow> bytes result" where
  "pow_compare hash_le hash_be target_be [] = Err SpvVerificationError"
| "pow_compare hash_le hash_be target_be (i # is) =
     (let h_chunk = be_val (pyslice (i * 4) (i * 4 + 4) hash_be);
          t_chunk = be_val (pyslice (i * 4) (i * 4 + 4) target_be)
      in if h_chunk < t_chunk then Ok hash_le
         else if h_chunk > t_chunk then Err SpvVerificationError
         else pow_compare hash_le hash_be target_be is)"

definition verify_header_pow :: "bytes \<Rightarrow> bytes result" where
  "verify_header_pow header =
     (if length header \<noteq> 80 then Err ValidationError
      else let nbits_raw = pyslice 72 76 header in
        bind_r (Nbits (PyBytes nbits_raw)) (\<lambda>_.
          let exponent = unat (nbits_raw ! 3);
              mantissa_le = pyslice 0 3 nbits_raw
          in if exponent < 3 then Err ValidationError
             else let target_le = replicate (exponent - 3) 0 @ mantissa_le @ replicate (32 - exponent) 0
               in if length target_le \<noteq> 32 then Err RuntimeError
                  else let hash_le = hash256 header
                    in pow_compare hash_le (rev hash_le) (rev target_le) [0..<8]))"

section \<open>Header chains\<close>

text \<open>
  The loop of \<open>verify_chain\<close>. \<open>prev\<close> is \<open>prev_hash\<close>, which is \<open>None\<close> exactly in the first
  iteration.
\<close>

fun chain_loop ::
  "bytes option \<Rightarrow> bytes list option \<Rightarrow> bytes option \<Rightarrow> bytes list \<Rightarrow> bytes list \<Rightarrow> bytes list result"
where
  "chain_loop anchor allowed prev hashes [] = Ok hashes"
| "chain_loop anchor allowed prev hashes (header # headers) =
     (if length header \<noteq> 80 then Err ValidationError
      else if (case allowed of None \<Rightarrow> False | Some bs \<Rightarrow> pyslice 72 76 header \<notin> set bs)
        then Err SpvVerificationError
      else if (case prev of
                 None \<Rightarrow> (case anchor of None \<Rightarrow> False | Some a \<Rightarrow> pyslice 4 36 header \<noteq> a)
               | Some p \<Rightarrow> pyslice 4 36 header \<noteq> p)
        then Err SpvVerificationError
      else bind_r (verify_header_pow header) (\<lambda>header_hash.
             chain_loop anchor allowed (Some header_hash) (hashes @ [header_hash]) headers))"

definition allowed_nbits :: "bytes option \<Rightarrow> bytes option \<Rightarrow> bytes list option" where
  "allowed_nbits expected expected_next =
     (case expected of
        None \<Rightarrow> None
      | Some nb \<Rightarrow> Some [nb, (case expected_next of None \<Rightarrow> nb | Some nb' \<Rightarrow> nb')])"

definition verify_chain ::
  "bytes list \<Rightarrow> bytes option \<Rightarrow> bytes option \<Rightarrow> bytes option \<Rightarrow> bytes list result"
where
  "verify_chain headers chain_anchor expected_nbits expected_nbits_next =
     (if headers = [] then Err ValidationError
      else if (case chain_anchor of None \<Rightarrow> False | Some a \<Rightarrow> length a \<noteq> 32) then Err ValidationError
      else if (case expected_nbits of None \<Rightarrow> False | Some nb \<Rightarrow> length nb \<noteq> 4) then Err ValidationError
      else if (case expected_nbits_next of None \<Rightarrow> False | Some nb \<Rightarrow> length nb \<noteq> 4) then Err ValidationError
      else chain_loop chain_anchor (allowed_nbits expected_nbits expected_nbits_next) None [] headers)"

section \<open>The reference notions\<close>

definition header_target :: "bytes \<Rightarrow> nat" where
  "header_target header =
     le_val (pyslice 72 75 header) * 256 ^ (unat (header ! 75) - 3)"

definition header_pow_valid :: "bytes \<Rightarrow> bool" where
  "header_pow_valid header \<longleftrightarrow>
     length header = 80 \<and> unat (header ! 75) \<in> {3..29}
     \<and> le_val (pyslice 72 75 header) \<in> {1..<2 ^ 23}
     \<and> le_val (hash256 header) < header_target header"

definition extends :: "bytes \<Rightarrow> bytes \<Rightarrow> bool" where
  "extends header header' \<longleftrightarrow> pyslice 4 36 header' = hash256 header"

definition opt_all :: "('a \<Rightarrow> bool) \<Rightarrow> 'a option \<Rightarrow> bool" where
  "opt_all P x = (case x of None \<Rightarrow> True | Some y \<Rightarrow> P y)"

lemma opt_all_simps [simp]: "opt_all P None" "opt_all P (Some y) \<longleftrightarrow> P y"
  by (simp_all add: opt_all_def)

definition header_chain_valid :: "bytes option \<Rightarrow> bytes list option \<Rightarrow> bytes list \<Rightarrow> bool" where
  "header_chain_valid anchor allowed headers \<longleftrightarrow>
     headers \<noteq> [] \<and> list_all header_pow_valid headers
     \<and> successively extends headers
     \<and> opt_all (\<lambda>a. pyslice 4 36 (hd headers) = a) anchor
     \<and> opt_all (\<lambda>bs. list_all (\<lambda>h. pyslice 72 76 h \<in> set bs) headers) allowed"

section \<open>The comparison loop compares numbers\<close>

lemma be_val_chunk:
  assumes "length xs = 32" "i < 8"
  shows "be_val (drop (i * 4) xs)
     = be_val (pyslice (i * 4) (i * 4 + 4) xs) * 256 ^ (28 - i * 4) + be_val (drop (Suc i * 4) xs)"
proof -
  have "drop (i * 4) xs = pyslice (i * 4) (i * 4 + 4) xs @ drop (Suc i * 4) xs"
    using append_take_drop_id [of 4 "drop (i * 4) xs"] by (simp add: pyslice_def add.commute)
  then have "be_val (drop (i * 4) xs) = be_val (pyslice (i * 4) (i * 4 + 4) xs @ drop (Suc i * 4) xs)"
    by (rule arg_cong)
  with assms show ?thesis by (simp add: be_val_append)
qed

lemma digit_compare:
  fixes a b :: nat
  assumes "r < m" "s < m"
  shows "a < b \<Longrightarrow> a * m + r < b * m + s" and "a * m + r < a * m + s \<longleftrightarrow> r < s"
proof -
  assume "a < b"
  then have "Suc a * m \<le> b * m" by (intro mult_le_mono1) simp
  with assms show "a * m + r < b * m + s" by simp
qed simp

lemma pow_compare_upt:
  assumes "length hs = 32" "length ts = 32" "i \<le> 8"
  shows "pow_compare r hs ts [i..<8]
     = (if be_val (drop (i * 4) hs) < be_val (drop (i * 4) ts) then Ok r else Err SpvVerificationError)"
  using assms(3)
proof (induction "8 - i" arbitrary: i)
  case 0
  with assms show ?case by simp
next
  case (Suc k)
  then have i: "i < 8" by simp
  let ?h = "be_val (pyslice (i * 4) (i * 4 + 4) hs)" and ?t = "be_val (pyslice (i * 4) (i * 4 + 4) ts)"
  have m: "be_val (drop (Suc i * 4) hs) < 256 ^ (28 - i * 4)" "be_val (drop (Suc i * 4) ts) < 256 ^ (28 - i * 4)"
    using be_val_less [of "drop (Suc i * 4) hs"] be_val_less [of "drop (Suc i * 4) ts"] assms by simp_all
  have IH: "pow_compare r hs ts [Suc i..<8]
     = (if be_val (drop (Suc i * 4) hs) < be_val (drop (Suc i * 4) ts) then Ok r else Err SpvVerificationError)"
    using Suc i by simp
  have step: "pow_compare r hs ts [i..<8]
     = (if ?h < ?t then Ok r else if ?t < ?h then Err SpvVerificationError
        else pow_compare r hs ts [Suc i..<8])"
    using i by (simp add: upt_rec Let_def)
  let ?m = "256 ^ (28 - i * 4)"
  let ?G = "(if ?h < ?t then Ok r else if ?t < ?h then Err SpvVerificationError
        else if be_val (drop (Suc i * 4) hs) < be_val (drop (Suc i * 4) ts) then Ok r else Err SpvVerificationError)
      = (if ?h * ?m + be_val (drop (Suc i * 4) hs) < ?t * ?m + be_val (drop (Suc i * 4) ts)
         then Ok r else Err SpvVerificationError)"
  show ?case
    unfolding step IH be_val_chunk [OF assms(1) i] be_val_chunk [OF assms(2) i]
  proof (cases ?h ?t rule: linorder_cases)
    case less
    then show "?G" using digit_compare(1) [OF m less] by simp
  next
    case equal
    then show "?G" by simp
  next
    case greater
    then show "?G" using digit_compare(1) [OF m(2,1) greater] by simp
  qed
qed

lemma pow_compare_le:
  "length hs = 32 \<Longrightarrow> length ts = 32 \<Longrightarrow>
     pow_compare r (rev hs) (rev ts) [0..<8]
       = (if le_val hs < le_val ts then Ok r else Err SpvVerificationError)"
  using pow_compare_upt [of "rev hs" "rev ts" 0] by (simp add: be_val_def del: upt_Suc)

lemma le_val_target:
  "le_val (replicate k 0 @ m @ replicate j 0) = le_val m * 256 ^ k"
  by (simp add: le_val_append)

lemma pyslice_nth: "i < b - a \<Longrightarrow> a + i < length xs \<Longrightarrow> pyslice a b xs ! i = xs ! (a + i)"
  by (simp add: pyslice_def)

lemma pyslice_pyslice: "pyslice a b (pyslice c d xs) = pyslice (c + a) (min (c + b) d) xs"
proof -
  have "min (b - a) (d - c - a) = min (c + b) d - (c + a)" by linarith
  then show ?thesis by (simp add: pyslice_def drop_take add.commute)
qed

lemma verify_header_pow_iff:
  "verify_header_pow header = Ok r \<longleftrightarrow> header_pow_valid header \<and> r = hash256 header"
proof (cases "length header = 80")
  case len: True
  let ?nb = "pyslice 72 76 header"
  have nb: "?nb ! 3 = header ! 75" "take 3 ?nb = pyslice 72 75 header" "length ?nb = 4"
    "pyslice 0 3 ?nb = pyslice 72 75 header"
    using len by (simp_all add: pyslice_nth pyslice_pyslice) (simp add: pyslice_def)
  show ?thesis
  proof (cases "unat (header ! 75) \<in> {3..29} \<and> le_val (pyslice 72 75 header) \<in> {1..<2 ^ 23}")
    case True
    then have "Nbits (PyBytes ?nb) = Ok ?nb"
      using len by (auto simp: Nbits_def nbits_check_Ok_iff nb)
    with True len nb show ?thesis
      by (auto simp: verify_header_pow_def header_pow_valid_def header_target_def Let_def
          pow_compare_le le_val_target simp del: upt_Suc rev_append)
  next
    case False
    then show ?thesis
      using len nb by (auto simp: verify_header_pow_def header_pow_valid_def Let_def Nbits_def
          nbits_check_Ok_iff py_simps)
  qed
qed (simp add: verify_header_pow_def header_pow_valid_def)

lemma header_pow_valid_length: "header_pow_valid h \<Longrightarrow> length h = 80"
  by (simp add: header_pow_valid_def)

lemma chain_loop_iff:
  "chain_loop anchor allowed prev hashes headers = Ok out \<longleftrightarrow>
     out = hashes @ map hash256 headers \<and> list_all header_pow_valid headers
     \<and> successively extends headers
     \<and> opt_all (\<lambda>bs. list_all (\<lambda>h. pyslice 72 76 h \<in> set bs) headers) allowed
     \<and> (headers = [] \<or> opt_all (\<lambda>a. pyslice 4 36 (hd headers) = a) (case prev of None \<Rightarrow> anchor | Some p \<Rightarrow> Some p))"
proof (induction headers arbitrary: prev hashes)
  case Nil
  then show ?case by (cases allowed) auto
next
  case (Cons header headers)
  note IH = Cons.IH [of "Some (hash256 header)" "hashes @ [hash256 header]"]
  show ?case
    using IH by (cases prev; cases allowed; cases anchor)
      (auto simp: verify_header_pow_iff py_simps successively_Cons extends_def [of header]
        header_pow_valid_length)
qed

lemma verify_chain_iff:
  "verify_chain headers anchor nb nb' = Ok out \<longleftrightarrow>
     opt_all (\<lambda>a. length a = 32) anchor \<and> opt_all (\<lambda>x. length x = 4) nb \<and> opt_all (\<lambda>x. length x = 4) nb'
     \<and> header_chain_valid anchor (allowed_nbits nb nb') headers
     \<and> out = map hash256 headers"
  by (cases anchor; cases nb; cases nb')
    (auto simp: verify_chain_def header_chain_valid_def chain_loop_iff)

section \<open>Properties\<close>

text \<open>
  The proof-of-work check of one header. \<open>verify_header_pow\<close> succeeds exactly on 80-byte
  headers whose compact target is well formed and whose double hash, as a little-endian number,
  is strictly below the target; it then returns that hash. So the chunk-wise comparison the
  code shares with the covenant is the comparison of 256-bit numbers.
\<close>

theorem verify_header_pow_correct:
  "verify_header_pow header = Ok r \<longleftrightarrow>
     length header = 80 \<and> 3 \<le> unat (header ! 75) \<and> unat (header ! 75) \<le> 29
     \<and> 0 < le_val (pyslice 72 75 header) \<and> le_val (pyslice 72 75 header) < 2 ^ 23
     \<and> le_val (hash256 header) < le_val (pyslice 72 75 header) * 256 ^ (unat (header ! 75) - 3)
     \<and> r = hash256 header"
  by (auto simp: verify_header_pow_iff header_pow_valid_def header_target_def)

text \<open>
  C33: \<open>verify_chain\<close> succeeds exactly when the optional arguments have the right lengths and
  the headers form a non-empty chain: every header carries valid work, each one's previous-hash
  field is the hash of its predecessor, the first one hangs off the anchor, and every nBits
  field is one of the committed values. The result lists the header hashes in order.
\<close>

theorem verify_chain_correct:
  "verify_chain headers anchor nb nb' = Ok out \<longleftrightarrow>
     opt_all (\<lambda>a. length a = 32) anchor \<and> opt_all (\<lambda>x. length x = 4) nb \<and> opt_all (\<lambda>x. length x = 4) nb'
     \<and> header_chain_valid anchor (allowed_nbits nb nb') headers
     \<and> out = map hash256 headers"
  by (rule verify_chain_iff)

end
