(* ===== verification/Spv_Merkle.thy ===== *)
theory Spv_Merkle
  imports Sha256
begin

unbundle bit_operations_syntax

text \<open>
  Merkle inclusion proofs, \<open>pyrxd/spv/merkle.py\<close>: the branch encoder, the walk from a leaf to
  the root and the full inclusion check. The reference is Bitcoin's tree over a list of leaves,
  in which a level of odd length duplicates its last node. Completeness: the branch of a leaf
  leads to the root. Soundness: a proof of the right depth that reaches the root belongs to a
  leaf, unless two of the finitely many strings hashed by the tree and by the walk collide.
\<close>

section \<open>The code\<close>

definition branch_entry :: "int \<Rightarrow> nat \<times> string \<Rightarrow> bytes result" where
  "branch_entry pos = (\<lambda>(i, sibling_be_hex).
     if length sibling_be_hex \<noteq> 64 then Err ValidationError
     else case fromhex sibling_be_hex of
         Inl _ \<Rightarrow> Err ValidationError
       | Inr sibling_be \<Rightarrow> Ok (word_of_int (drop_bit i pos AND 1) # rev sibling_be))"

definition build_branch :: "string list \<Rightarrow> int \<Rightarrow> bytes result" where
  "build_branch merkle_be pos =
     (if pos < 0 then Err ValidationError
      else if drop_bit (length merkle_be) pos \<noteq> 0 then Err ValidationError
      else bind_r (map_r (branch_entry pos) (enumerate 0 merkle_be)) (\<lambda>parts. Ok (concat parts)))"

fun root_walk :: "bytes \<Rightarrow> bytes \<Rightarrow> nat list \<Rightarrow> bytes" where
  "root_walk branch current [] = current"
| "root_walk branch current (i # is) =
     (let direction = branch ! (i * 33);
          sibling = pyslice (i * 33 + 1) (i * 33 + 33) branch
      in root_walk branch
           (if direction = 0 then hash256 (current @ sibling) else hash256 (sibling @ current)) is)"

definition compute_root :: "string \<Rightarrow> bytes \<Rightarrow> bytes result" where
  "compute_root txid_be_hex branch =
     (if length branch mod 33 \<noteq> 0 then Err ValidationError
      else if length txid_be_hex \<noteq> 64 then Err ValidationError
      else case fromhex txid_be_hex of
          Inl _ \<Rightarrow> Err ValidationError
        | Inr leaf_be \<Rightarrow> Ok (root_walk branch (rev leaf_be) [0..<length branch div 33]))"

definition extract_merkle_root :: "bytes \<Rightarrow> bytes result" where
  "extract_merkle_root header =
     (if length header \<noteq> 80 then Err ValidationError else Ok (pyslice 36 68 header))"

definition verify_tx_in_block ::
  "bytes \<Rightarrow> string \<Rightarrow> bytes \<Rightarrow> int \<Rightarrow> bytes \<Rightarrow> int option \<Rightarrow> unit result"
where
  "verify_tx_in_block raw_tx txid_be_hex branch pos header expected_depth =
     (if length raw_tx \<le> 64 then Err SpvVerificationError
      else if pos = 0 then Err SpvVerificationError
      else if length branch mod 33 \<noteq> 0 then Err ValidationError
      else let branch_depth = length branch div 33 in
        if drop_bit branch_depth pos \<noteq> 0 then Err SpvVerificationError
        else if (case expected_depth of None \<Rightarrow> False | Some d \<Rightarrow> int branch_depth \<noteq> d)
          then Err SpvVerificationError
        else bind_r (fromhex txid_be_hex) (\<lambda>claimed_txid_be.
          if hash256 raw_tx \<noteq> rev claimed_txid_be then Err SpvVerificationError
          else bind_r (compute_root txid_be_hex branch) (\<lambda>computed_root.
            bind_r (extract_merkle_root header) (\<lambda>expected_root.
              if computed_root \<noteq> expected_root then Err SpvVerificationError else Ok ()))))"

section \<open>The reference tree\<close>

fun merkle_level :: "bytes list \<Rightarrow> bytes list" where
  "merkle_level [] = []"
| "merkle_level [x] = [hash256 (x @ x)]"
| "merkle_level (x # y # xs) = hash256 (x @ y) # merkle_level xs"

lemma length_merkle_level [simp]: "length (merkle_level xs) = (length xs + 1) div 2"
  by (induction xs rule: merkle_level.induct) auto

function merkle_root :: "bytes list \<Rightarrow> bytes" where
  "merkle_root xs = (if length xs \<le> 1 then concat xs else merkle_root (merkle_level xs))"
  by auto
termination by (relation "measure length") auto

function merkle_path :: "bytes list \<Rightarrow> nat \<Rightarrow> bytes list" where
  "merkle_path xs pos =
     (if length xs \<le> 1 then []
      else xs ! min (if even pos then pos + 1 else pos - 1) (length xs - 1)
           # merkle_path (merkle_level xs) (pos div 2))"
  by auto
termination by (relation "measure (length \<circ> fst)") auto

function tree_depth :: "bytes list \<Rightarrow> nat" where
  "tree_depth xs = (if length xs \<le> 1 then 0 else Suc (tree_depth (merkle_level xs)))"
  by auto
termination by (relation "measure length") auto

declare merkle_root.simps [simp del] merkle_path.simps [simp del] tree_depth.simps [simp del]

text \<open>Every string that is hashed when the tree is built.\<close>

definition level_inputs :: "bytes list \<Rightarrow> bytes list" where
  "level_inputs xs =
     map (\<lambda>j. xs ! (2 * j) @ xs ! min (2 * j + 1) (length xs - 1)) [0..<length (merkle_level xs)]"

function tree_inputs :: "bytes list \<Rightarrow> bytes list" where
  "tree_inputs xs = (if length xs \<le> 1 then [] else level_inputs xs @ tree_inputs (merkle_level xs))"
  by auto
termination by (relation "measure length") auto

declare tree_inputs.simps [simp del]

text \<open>A branch as a list of entries, the step of the walk and the strings it hashes.\<close>

type_synonym merkle_entry = "byte \<times> bytes"

definition branch_nth :: "bytes \<Rightarrow> nat \<Rightarrow> merkle_entry" where
  "branch_nth branch i = (branch ! (i * 33), pyslice (i * 33 + 1) (i * 33 + 33) branch)"

definition branch_entries :: "bytes \<Rightarrow> merkle_entry list" where
  "branch_entries branch = map (branch_nth branch) [0..<length branch div 33]"

definition walk_input :: "bytes \<Rightarrow> merkle_entry \<Rightarrow> bytes" where
  "walk_input cur e = (if fst e = 0 then cur @ snd e else snd e @ cur)"

definition walk_step :: "bytes \<Rightarrow> merkle_entry \<Rightarrow> bytes" where
  "walk_step cur e = hash256 (walk_input cur e)"

fun walk_inputs :: "bytes \<Rightarrow> merkle_entry list \<Rightarrow> bytes list" where
  "walk_inputs cur [] = []"
| "walk_inputs cur (e # es) = walk_input cur e # walk_inputs (walk_step cur e) es"

lemma root_walk_foldl: "root_walk branch cur is = foldl walk_step cur (map (branch_nth branch) is)"
  by (induction "is" arbitrary: cur) (auto simp: Let_def branch_nth_def walk_step_def walk_input_def)

lemma compute_root_eq:
  "compute_root s branch = Ok r \<longleftrightarrow>
     length branch mod 33 = 0 \<and> length s = 64
     \<and> (\<exists>leaf. fromhex s = Ok leaf \<and> r = foldl walk_step (rev leaf) (branch_entries branch))"
  by (auto simp: compute_root_def root_walk_foldl branch_entries_def split: sum.splits)

section \<open>Nodes of a level\<close>

lemma merkle_level_nth:
  "j < length (merkle_level xs) \<Longrightarrow>
     merkle_level xs ! j = hash256 (xs ! (2 * j) @ xs ! min (2 * j + 1) (length xs - 1))"
proof (induction xs arbitrary: j rule: merkle_level.induct)
  case (3 x y xs)
  show ?case
  proof (cases j)
    case (Suc k)
    then have "k < length (merkle_level xs)" using "3.prems" by simp
    moreover from this have "min (2 * k + 1) (length xs - 1) + 2 = min (2 * j + 1) (length (x # y # xs) - 1)"
      using Suc by auto
    ultimately show ?thesis
      using "3.IH" [of k] Suc by (simp add: nth_Cons' min_def split: if_splits)
  qed simp
qed auto

lemma merkle_level_inputs: "merkle_level xs = map hash256 (level_inputs xs)"
  by (rule nth_equalityI) (simp_all add: level_inputs_def merkle_level_nth)

lemma merkle_level_nodes: "list_all (\<lambda>x. length x = 32) (merkle_level xs)"
  by (simp add: merkle_level_inputs list_all_iff)

section \<open>Branches as entry lists\<close>

definition entry_bytes :: "merkle_entry \<Rightarrow> bytes" where
  "entry_bytes e = fst e # snd e"

lemma branch_nth_concat:
  "list_all (\<lambda>e. length (snd e) = 32) es \<Longrightarrow> i < length es \<Longrightarrow>
     branch_nth (concat (map entry_bytes es)) i = es ! i"
proof (induction es arbitrary: i)
  case (Cons e es)
  let ?rest = "concat (map entry_bytes es)"
  have len: "length (entry_bytes e) = 33" using Cons.prems by (simp add: entry_bytes_def)
  show ?case
  proof (cases i)
    case 0
    then show ?thesis
      using Cons.prems by (simp add: branch_nth_def entry_bytes_def pyslice_def)
  next
    case (Suc k)
    then have "branch_nth (entry_bytes e @ ?rest) i = branch_nth ?rest k"
      using len by (simp add: branch_nth_def nth_append pyslice_def)
    then show ?thesis using Cons Suc by simp
  qed
qed simp

lemma length_concat_entries:
  "list_all (\<lambda>e. length (snd e) = 32) es \<Longrightarrow> length (concat (map entry_bytes es)) = 33 * length es"
  by (induction es) (auto simp: entry_bytes_def)

lemma branch_entries_concat:
  "list_all (\<lambda>e. length (snd e) = 32) es \<Longrightarrow> branch_entries (concat (map entry_bytes es)) = es"
  by (rule nth_equalityI) (simp_all add: branch_entries_def length_concat_entries branch_nth_concat)

fun path_entries :: "bytes list \<Rightarrow> nat \<Rightarrow> merkle_entry list" where
  "path_entries [] pos = []"
| "path_entries (s # ss) pos = (if even pos then 0 else 1, s) # path_entries ss (pos div 2)"

lemma length_path_entries [simp]: "length (path_entries ss pos) = length ss"
  by (induction ss pos rule: path_entries.induct) auto

lemma path_entries_siblings: "map snd (path_entries ss pos) = ss"
  by (induction ss pos rule: path_entries.induct) auto

lemma list_all_path_entries:
  "list_all (\<lambda>x. length x = 32) ss \<Longrightarrow> list_all (\<lambda>e. length (snd e) = 32) (path_entries ss pos)"
  by (induction ss pos rule: path_entries.induct) auto

lemma direction_bit: "(word_of_int (drop_bit i (int pos) AND 1) :: byte) = (if even (pos div 2 ^ i) then 0 else 1)"
proof -
  have "drop_bit i (int pos) AND 1 = int (pos div 2 ^ i) mod 2"
    by (simp add: and_one_eq drop_bit_eq_div of_nat_div)
  also have "\<dots> = (if even (pos div 2 ^ i) then 0 else 1)" by presburger
  finally show ?thesis by simp
qed

lemma map_r_branch_entry:
  "list_all (\<lambda>x. length x = 32) ss \<Longrightarrow>
     map_r (branch_entry (int pos)) (enumerate k (map (\<lambda>s. hex (rev s)) ss))
       = Ok (map entry_bytes (path_entries ss (pos div 2 ^ k)))"
proof (induction ss arbitrary: k)
  case (Cons s ss)
  have "branch_entry (int pos) (k, hex (rev s)) = Ok (entry_bytes (if even (pos div 2 ^ k) then 0 else 1, s))"
    using Cons.prems by (simp add: branch_entry_def direction_bit entry_bytes_def)
  moreover have "pos div 2 ^ k div 2 = pos div 2 ^ Suc k" by (simp only: power_Suc2 div_mult2_eq)
  ultimately show ?case using Cons by simp
qed simp

lemma build_branch_path:
  assumes "list_all (\<lambda>x. length x = 32) ss" "pos < 2 ^ length ss"
  shows "build_branch (map (\<lambda>s. hex (rev s)) ss) (int pos) = Ok (concat (map entry_bytes (path_entries ss pos)))"
proof -
  have "drop_bit (length ss) (int pos) = 0"
    using assms(2) by (simp add: drop_bit_eq_div )
  with assms(1) map_r_branch_entry [of ss pos 0] show ?thesis
    by (simp add: build_branch_def)
qed

section \<open>Completeness\<close>

lemma length_merkle_path: "length (merkle_path xs pos) = tree_depth xs"
  by (induction xs pos rule: merkle_path.induct) (simp add: merkle_path.simps tree_depth.simps)

lemma merkle_path_nodes:
  "list_all (\<lambda>x. length x = 32) xs \<Longrightarrow> list_all (\<lambda>x. length x = 32) (merkle_path xs pos)"
proof (induction xs pos rule: merkle_path.induct)
  case (1 xs pos)
  let ?i = "min (if even pos then pos + 1 else pos - 1) (length xs - 1)"
  show ?case
  proof (cases "length xs \<le> 1")
    case False
    then have "?i < length xs" by auto
    then have "length (xs ! ?i) = 32" using "1.prems" unfolding list_all_length by blast
    then show ?thesis
      using False "1.IH" [OF False merkle_level_nodes] merkle_path.simps [of xs pos] by (simp only: if_False list.pred_inject)
  qed (simp add: merkle_path.simps)
qed

lemma pos_less_depth: "pos < length xs \<Longrightarrow> pos < 2 ^ tree_depth xs"
proof (induction xs arbitrary: pos rule: tree_depth.induct)
  case (1 xs)
  show ?case
  proof (cases "length xs \<le> 1")
    case False
    then have "pos div 2 < 2 ^ tree_depth (merkle_level xs)" using 1 by auto
    then show ?thesis using False by (simp add: tree_depth.simps [of xs])
  qed (use 1 in \<open>simp add: tree_depth.simps\<close>)
qed

lemma walk_step_level:
  assumes "pos < length xs" "1 < length xs"
  shows "walk_step (xs ! pos) (if even pos then 0 else 1, xs ! min (if even pos then pos + 1 else pos - 1) (length xs - 1))
     = merkle_level xs ! (pos div 2)"
proof (cases "even pos")
  case True
  then have "2 * (pos div 2) = pos" by simp
  with True assms show ?thesis
    by (simp add: walk_step_def walk_input_def merkle_level_nth)
next
  case False
  then obtain k where k: "pos = Suc (2 * k)" by (auto elim: oddE)
  with assms show ?thesis
    by (simp add: walk_step_def walk_input_def merkle_level_nth min_absorb1)
qed

lemma walk_path_root:
  "pos < length xs \<Longrightarrow> foldl walk_step (xs ! pos) (path_entries (merkle_path xs pos) pos) = merkle_root xs"
proof (induction xs pos rule: merkle_path.induct)
  case (1 xs pos)
  show ?case
  proof (cases "length xs \<le> 1")
    case True
    with "1.prems" obtain x where "xs = [x]" "pos = 0" by (cases xs) auto
    then show ?thesis by (simp add: merkle_path.simps merkle_root.simps)
  next
    case False
    with "1.prems" have "pos div 2 < length (merkle_level xs)" by auto
    with 1 False show ?thesis
      using walk_step_level [of pos xs]
      by (simp add: merkle_path.simps [of xs] merkle_root.simps [of xs] Let_def)
  qed
qed

section \<open>Soundness\<close>

lemma level_input_parts:
  assumes "y \<in> set (level_inputs xs)" "list_all (\<lambda>x. length x = 32) xs"
  obtains a b where "y = a @ b" "a \<in> set xs" "b \<in> set xs" "length a = 32" "length b = 32"
proof -
  from assms(1) obtain j where j: "j < (length xs + 1) div 2"
    "y = xs ! (2 * j) @ xs ! min (2 * j + 1) (length xs - 1)"
    by (auto simp: level_inputs_def)
  then have "2 * j < length xs" "min (2 * j + 1) (length xs - 1) < length xs" by auto
  with j assms(2) that show ?thesis by (auto simp: list_all_length)
qed

lemma walk_input_parts:
  assumes "walk_input cur e = a @ b" "length cur = 32" "length (snd e) = 32" "length a = 32"
  shows "cur = a \<or> cur = b"
  using assms by (auto simp: walk_input_def split: if_splits)

lemma walk_step_length [simp]: "length (walk_step cur e) = 32"
  by (simp add: walk_step_def)

lemma merkle_root_reached:
  assumes "list_all (\<lambda>x. length x = 32) xs" "xs \<noteq> []"
    "length es = tree_depth xs" "list_all (\<lambda>e. length (snd e) = 32) es" "length cur = 32"
    "foldl walk_step cur es = merkle_root xs"
  shows "cur \<in> set xs
     \<or> (\<exists>x \<in> set (walk_inputs cur es). \<exists>y \<in> set (tree_inputs xs). x \<noteq> y \<and> hash256 x = hash256 y)"
  using assms
proof (induction xs arbitrary: cur es rule: tree_depth.induct)
  case (1 xs)
  show ?case
  proof (cases "length xs \<le> 1")
    case True
    with "1.prems" obtain x where "xs = [x]" by (cases xs) auto
    with "1.prems" show ?thesis by (simp add: tree_depth.simps merkle_root.simps)
  next
    case False
    let ?ys = "merkle_level xs"
    from False "1.prems"(3) obtain e es' where es: "es = e # es'" "length es' = tree_depth ?ys"
      by (cases es) (auto simp: tree_depth.simps [of xs])
    have ne: "?ys \<noteq> []" using False by (auto simp flip: length_0_conv)
    have tin: "set (tree_inputs xs) = set (level_inputs xs) \<union> set (tree_inputs ?ys)"
      using False by (simp add: tree_inputs.simps [of xs])
    have "walk_step cur e \<in> set ?ys
        \<or> (\<exists>x \<in> set (walk_inputs (walk_step cur e) es'). \<exists>y \<in> set (tree_inputs ?ys). x \<noteq> y \<and> hash256 x = hash256 y)"
      using 1 False es ne merkle_level_nodes by (simp add: merkle_root.simps [of xs])
    then show ?thesis
    proof
      assume "walk_step cur e \<in> set ?ys"
      then obtain y where y: "y \<in> set (level_inputs xs)" "hash256 (walk_input cur e) = hash256 y"
        by (auto simp: merkle_level_inputs walk_step_def)
      show ?thesis
      proof (cases "walk_input cur e = y")
        case True
        from level_input_parts [OF y(1) "1.prems"(1)] obtain a b
          where "y = a @ b" "a \<in> set xs" "b \<in> set xs" "length a = 32" .
        with True walk_input_parts [of cur e a b] "1.prems" es show ?thesis by auto
      next
        case False
        with y es tin show ?thesis by auto
      qed
    next
      assume "\<exists>x \<in> set (walk_inputs (walk_step cur e) es'). \<exists>y \<in> set (tree_inputs ?ys). x \<noteq> y \<and> hash256 x = hash256 y"
      then show ?thesis using es tin by auto
    qed
  qed
qed

lemma branch_entries_length:
  assumes "length branch mod 33 = 0"
  shows "list_all (\<lambda>e. length (snd e) = 32) (branch_entries branch)"
proof -
  have "length branch = 33 * (length branch div 33)" using assms by auto
  then have "i < length branch div 33 \<Longrightarrow> 33 * i + 33 \<le> length branch" for i by linarith
  then show ?thesis
    by (simp add: branch_entries_def branch_nth_def list_all_length mult.commute)
qed

lemma verify_tx_in_block_iff:
  "verify_tx_in_block raw_tx s branch pos header depth = Ok () \<longleftrightarrow>
     64 < length raw_tx \<and> 0 < pos \<and> pos < 2 ^ (length branch div 33)
     \<and> length branch mod 33 = 0 \<and> (depth = None \<or> depth = Some (int (length branch div 33)))
     \<and> length s = 64 \<and> fromhex s = Ok (rev (hash256 raw_tx)) \<and> length header = 80
     \<and> foldl walk_step (hash256 raw_tx) (branch_entries branch) = pyslice 36 68 header"
proof -
  have "drop_bit k pos = 0 \<longleftrightarrow> 0 \<le> pos \<and> pos < 2 ^ k" for k :: nat
    using zero_less_power [of "2 :: int" k] by (auto simp: drop_bit_eq_div zdiv_eq_0_iff simp del: zero_less_power)
  moreover have "hash256 raw_tx = rev c \<longleftrightarrow> c = rev (hash256 raw_tx)" for c by auto
  ultimately show ?thesis
    by (cases depth) (auto simp: verify_tx_in_block_def Let_def py_simps compute_root_eq extract_merkle_root_def)
qed

section \<open>Properties\<close>

text \<open>
  Completeness of Merkle proofs. For every non-empty list of 32-byte leaves and every
  position in it, the siblings that Bitcoin's tree has on the way to the root, in the display
  format of block explorers, encode to a branch, and walking that branch from the leaf arrives
  at the root, whatever the number of leaves (odd levels duplicate their last node).
\<close>

theorem merkle_proof_complete:
  assumes "list_all (\<lambda>x. length x = 32) leaves" "pos < length leaves"
  shows "\<exists>branch. build_branch (map (\<lambda>s. hex (rev s)) (merkle_path leaves pos)) (int pos) = Ok branch
     \<and> length branch = 33 * tree_depth leaves
     \<and> compute_root (hex (rev (leaves ! pos))) branch = Ok (merkle_root leaves)"
proof -
  let ?es = "path_entries (merkle_path leaves pos) pos"
  have len: "list_all (\<lambda>e. length (snd e) = 32) ?es" "length (leaves ! pos) = 32"
    using assms merkle_path_nodes list_all_path_entries by (auto simp: list_all_length)
  then show ?thesis
    using build_branch_path [of "merkle_path leaves pos" pos] assms pos_less_depth [of pos leaves]
    by (simp add: merkle_path_nodes length_merkle_path compute_root_eq branch_entries_concat
        walk_path_root length_concat_entries)
qed

theorem merkle_proof_complete_witness:
  "\<exists>branch. build_branch (map (\<lambda>s. hex (rev s)) (merkle_path [replicate 32 1, replicate 32 2, replicate 32 3] 2)) (int 2) = Ok branch
     \<and> length branch = 33 * tree_depth [replicate 32 1, replicate 32 2, replicate 32 3]
     \<and> compute_root (hex (rev ([replicate 32 1, replicate 32 2, replicate 32 3] ! 2))) branch
        = Ok (merkle_root [replicate 32 1, replicate 32 2, replicate 32 3])"
  by (rule merkle_proof_complete) simp_all

text \<open>
  C25: Soundness of Merkle proofs. Let the header's root be the root of Bitcoin's tree over some
  leaves. When \<open>verify_tx_in_block\<close> accepts a transaction with the depth of that tree, then the
  transaction's hash is one of the leaves, unless one of the finitely many strings hashed on the
  walk up the branch and one of those hashed in building the tree are a collision of the double
  hash.
\<close>

theorem verify_tx_in_block_sound:
  assumes "verify_tx_in_block raw_tx txid branch pos header (Some (int (tree_depth leaves))) = Ok ()"
    and "list_all (\<lambda>x. length x = 32) leaves" "leaves \<noteq> []"
    and "extract_merkle_root header = Ok (merkle_root leaves)"
  shows "fromhex txid = Ok (rev (hash256 raw_tx))
     \<and> (hash256 raw_tx \<in> set leaves
        \<or> (\<exists>x \<in> set (walk_inputs (hash256 raw_tx) (branch_entries branch)).
             \<exists>y \<in> set (tree_inputs leaves). x \<noteq> y \<and> hash256 x = hash256 y))"
proof -
  from assms(1) have v: "length branch mod 33 = 0" "length branch div 33 = tree_depth leaves"
    "fromhex txid = Ok (rev (hash256 raw_tx))"
    "foldl walk_step (hash256 raw_tx) (branch_entries branch) = pyslice 36 68 header" "length header = 80"
    by (auto simp: verify_tx_in_block_iff)
  with assms(4) have "foldl walk_step (hash256 raw_tx) (branch_entries branch) = merkle_root leaves"
    by (simp add: extract_merkle_root_def)
  moreover have "length (branch_entries branch) = tree_depth leaves" by (simp add: branch_entries_def v)
  ultimately show ?thesis
    using merkle_root_reached [OF assms(2,3)] v branch_entries_length by simp
qed

theorem verify_tx_in_block_sound_witness:
  "let raw_tx = replicate 65 1; txid = hex (rev (hash256 raw_tx)); sibling = replicate 32 7;
       branch = 1 # sibling; leaves = [sibling, hash256 raw_tx];
       header = replicate 36 0 @ merkle_root leaves @ replicate 12 0
   in verify_tx_in_block raw_tx txid branch 1 header (Some (int (tree_depth leaves))) = Ok ()
     \<and> fromhex txid = Ok (rev (hash256 raw_tx))
     \<and> (hash256 raw_tx \<in> set leaves
        \<or> (\<exists>x \<in> set (walk_inputs (hash256 raw_tx) (branch_entries branch)).
             \<exists>y \<in> set (tree_inputs leaves). x \<noteq> y \<and> hash256 x = hash256 y))"
proof -
  define raw_tx :: bytes where "raw_tx = replicate 65 1"
  define sibling :: bytes where "sibling = replicate 32 7"
  let ?txid = "hex (rev (hash256 raw_tx))" and ?branch = "1 # sibling" and ?leaves = "[sibling, hash256 raw_tx]"
  let ?header = "replicate 36 0 @ merkle_root ?leaves @ replicate 12 0"
  have d: "tree_depth ?leaves = 1" by (simp add: tree_depth.simps)
  have r: "merkle_root ?leaves = hash256 (sibling @ hash256 raw_tx)" by (simp add: merkle_root.simps)
  have e: "branch_entries ?branch = [(1, sibling)]"
    by (simp add: branch_entries_def branch_nth_def pyslice_def sibling_def)
  have len: "length raw_tx = 65" "length sibling = 32" by (simp_all add: raw_tx_def sibling_def)
  have ok: "verify_tx_in_block raw_tx ?txid ?branch 1 ?header (Some (int (tree_depth ?leaves))) = Ok ()"
    by (simp add: verify_tx_in_block_iff d r e len walk_step_def walk_input_def pyslice_def)
  have x: "extract_merkle_root ?header = Ok (merkle_root ?leaves)"
    by (simp add: extract_merkle_root_def r pyslice_def)
  show ?thesis
    using ok verify_tx_in_block_sound [OF ok _ _ x] len unfolding Let_def raw_tx_def [symmetric] sibling_def [symmetric]
    by simp
qed

end
