(* ===== verification/Spv_Witness.thy ===== *)
theory Spv_Witness
  imports Wire
begin

text \<open>
  \<open>pyrxd/spv/witness.py\<close>: removing the witness data of a segwit transaction. The reference is
  the pair of wire formats of one abstract transaction; the code turns the segwit form into
  the legacy form of the same transaction. The skipping loops of the code interpret the
  contract \<open>skipper\<close> of theory \<open>Wire\<close>.
\<close>

section \<open>The code\<close>

definition skip_input :: "bytes \<Rightarrow> nat \<Rightarrow> nat result" where
  "skip_input raw_tx pos =
     (if pos + 36 > length raw_tx then Err ValidationError
      else bind_r (witness_read_varint raw_tx (pos + 36)) (\<lambda>(script_len, pos).
        if pos + script_len + 4 > length raw_tx then Err ValidationError
        else Ok (pos + script_len + 4)))"

definition skip_output :: "bytes \<Rightarrow> nat \<Rightarrow> nat result" where
  "skip_output raw_tx pos =
     (if pos + 8 > length raw_tx then Err ValidationError
      else bind_r (witness_read_varint raw_tx (pos + 8)) (\<lambda>(script_len, pos).
        if pos + script_len > length raw_tx then Err ValidationError
        else Ok (pos + script_len)))"

definition skip_witness_item :: "bytes \<Rightarrow> nat \<Rightarrow> nat result" where
  "skip_witness_item raw_tx pos =
     bind_r (witness_read_varint raw_tx pos) (\<lambda>(item_len, pos).
       if pos + item_len > length raw_tx then Err ValidationError
       else Ok (pos + item_len))"

definition skip_witness_stack :: "bytes \<Rightarrow> nat \<Rightarrow> nat result" where
  "skip_witness_stack raw_tx pos =
     bind_r (witness_read_varint raw_tx pos) (\<lambda>(item_count, pos).
       skip_n (skip_witness_item raw_tx) item_count pos)"

definition strip_witness :: "bytes \<Rightarrow> bytes result" where
  "strip_witness raw_tx =
     (if length raw_tx < 10 then Err ValidationError
      else if raw_tx ! 4 \<noteq> 0x00 then Ok raw_tx
      else if raw_tx ! 5 \<noteq> 0x01 then Err ValidationError
      else
        bind_r (witness_read_varint raw_tx 6) (\<lambda>(input_count, inputs_start).
        bind_r (skip_n (skip_input raw_tx) input_count inputs_start) (\<lambda>inputs_end.
        bind_r (witness_read_varint raw_tx inputs_end) (\<lambda>(output_count, outputs_start).
        bind_r (skip_n (skip_output raw_tx) output_count outputs_start) (\<lambda>outputs_end.
        bind_r (skip_n (skip_witness_stack raw_tx) input_count outputs_end) (\<lambda>pos.
          if pos + 4 > length raw_tx then Err ValidationError
          else
            bind_r (encode_varint (int input_count)) (\<lambda>ic.
            bind_r (encode_varint (int output_count)) (\<lambda>oc.
              Ok (pyslice 0 4 raw_tx @ ic @ pyslice inputs_start inputs_end raw_tx
                  @ oc @ pyslice outputs_start outputs_end raw_tx @ pyslice pos (pos + 4) raw_tx)))))))))"

section \<open>The two wire formats\<close>

text \<open>
  An input is an outpoint of 36 bytes, a script and a sequence number of 4 bytes; an output is
  an 8-byte value and a script; a witness item is a string.
\<close>

record btc_tx =
  tx_version :: bytes
  tx_ins :: "field list"
  tx_outs :: "field list"
  tx_witness :: "bytes list list"
  tx_locktime :: bytes

definition wf_btc_tx :: "btc_tx \<Rightarrow> bool" where
  "wf_btc_tx tx \<longleftrightarrow>
     length (tx_version tx) = 4 \<and> length (tx_locktime tx) = 4
     \<and> length (tx_ins tx) < 2 ^ 64 \<and> list_all (wf_field 36 4) (tx_ins tx)
     \<and> length (tx_outs tx) < 2 ^ 64 \<and> list_all (wf_field 8 0) (tx_outs tx)
     \<and> length (tx_witness tx) = length (tx_ins tx)
     \<and> list_all (\<lambda>st. length st < 2 ^ 64 \<and> list_all (\<lambda>it. length it < 2 ^ 64) st) (tx_witness tx)"

definition enc_list :: "('a \<Rightarrow> bytes) \<Rightarrow> 'a list \<Rightarrow> bytes" where
  "enc_list e xs = varint_enc (length xs) @ concat (map e xs)"

definition enc_item :: "bytes \<Rightarrow> bytes" where
  "enc_item it = enc_field ([], it, [])"

definition ser_legacy :: "btc_tx \<Rightarrow> bytes" where
  "ser_legacy tx = tx_version tx @ enc_list enc_field (tx_ins tx) @ enc_list enc_field (tx_outs tx)
     @ tx_locktime tx"

definition ser_segwit :: "btc_tx \<Rightarrow> bytes" where
  "ser_segwit tx = tx_version tx @ [0x00, 0x01] @ enc_list enc_field (tx_ins tx)
     @ enc_list enc_field (tx_outs tx) @ concat (map (enc_list enc_item) (tx_witness tx))
     @ tx_locktime tx"

section \<open>The skipping functions meet their contract\<close>

interpretation win: skipper "wf_field 36 4" enc_field skip_input
proof
  fix buf pos q
  show "skip_input buf pos = Ok q \<longleftrightarrow> (\<exists>x. wf_field 36 4 x \<and> stands_at buf pos (enc_field x) q)"
    unfolding field_stands [of 36 4 buf pos q ValidationError]
    by (auto simp: skip_input_def witness_read_varint_def py_simps read_compact_stands dest: stands_at_le)
qed

interpretation wout: skipper "wf_field 8 0" enc_field skip_output
proof
  fix buf pos q
  show "skip_output buf pos = Ok q \<longleftrightarrow> (\<exists>x. wf_field 8 0 x \<and> stands_at buf pos (enc_field x) q)"
    unfolding field_stands [of 8 0 buf pos q ValidationError]
    by (auto simp: skip_output_def witness_read_varint_def py_simps read_compact_stands dest: stands_at_le)
qed

lemma ex_item_field:
  "(\<exists>it. length it < 2 ^ 64 \<and> stands_at buf pos (enc_item it) q)
     \<longleftrightarrow> (\<exists>x. wf_field 0 0 x \<and> stands_at buf pos (enc_field x) q)"
  by (auto simp: wf_field_def enc_item_def)

interpretation witem: skipper "\<lambda>it. length it < 2 ^ 64" enc_item skip_witness_item
proof
  fix buf pos q
  show "skip_witness_item buf pos = Ok q \<longleftrightarrow> (\<exists>it. length it < 2 ^ 64 \<and> stands_at buf pos (enc_item it) q)"
    unfolding ex_item_field field_stands [of 0 0 buf pos q ValidationError]
    by (auto simp: skip_witness_item_def witness_read_varint_def py_simps)
qed

text \<open>A counted list of encodings, read by a count and a loop.\<close>

context skipper
begin

lemma counted_parts:
  "read_compact e buf pos = Ok (n, p) \<and> skip_n (skip buf) n p = Ok q \<longleftrightarrow>
     (\<exists>xs. n = length xs \<and> length xs < 2 ^ 64 \<and> list_all wf xs
        \<and> stands_at buf pos (varint_enc (length xs)) p \<and> stands_at buf p (concat (map enc xs)) q)"
proof (cases "stands_at buf pos (varint_enc n) p")
  case True
  then have "p \<le> length buf" by (simp add: stands_at_le)
  with True show ?thesis by (auto simp: read_compact_stands skip_n_iff)
qed (auto simp: read_compact_stands)

lemma counted_iff:
  "(\<exists>n p. read_compact e buf pos = Ok (n, p) \<and> skip_n (skip buf) n p = Ok q) \<longleftrightarrow>
     (\<exists>xs. length xs < 2 ^ 64 \<and> list_all wf xs \<and> stands_at buf pos (enc_list enc xs) q)"
  unfolding counted_parts by (auto simp: enc_list_def stands_at_append)

end

interpretation wstack: skipper
  "\<lambda>st. length st < 2 ^ 64 \<and> list_all (\<lambda>it. length it < 2 ^ 64) st" "enc_list enc_item" skip_witness_stack
proof
  fix buf pos q
  show "skip_witness_stack buf pos = Ok q \<longleftrightarrow>
      (\<exists>st. (length st < 2 ^ 64 \<and> list_all (\<lambda>it. length it < 2 ^ 64) st)
         \<and> stands_at buf pos (enc_list enc_item st) q)"
    using witem.counted_iff [of ValidationError buf pos q]
    by (auto simp: skip_witness_stack_def witness_read_varint_def py_simps)
qed

section \<open>Stripping\<close>

lemma stands_at_2: "stands_at buf pos [a, b] q \<longleftrightarrow> q = pos + 2 \<and> q \<le> length buf \<and> buf ! pos = a \<and> buf ! (pos + 1) = b"
proof -
  have "pos + 2 \<le> length buf \<Longrightarrow> pyslice pos (pos + 2) buf = [buf ! pos, buf ! (pos + 1)]"
    using pyslice_Suc [of pos buf 1] pyslice_Suc [of "Suc pos" buf 0] by (simp add: pyslice_def)
  then show ?thesis by (auto simp: stands_at_def)
qed

lemma stands_at_prefix: "stands_at buf 0 xs q \<longleftrightarrow> q = length xs \<and> (\<exists>rest. buf = xs @ rest)"
  by (auto simp: stands_at_iff)

text \<open>Both wire formats, cut into the pieces the code reads.\<close>

definition wire_cut :: "bytes \<Rightarrow> btc_tx \<Rightarrow> nat \<Rightarrow> nat \<Rightarrow> nat \<Rightarrow> nat \<Rightarrow> nat \<Rightarrow> bool" where
  "wire_cut raw tx p0 p1 p2 p3 p4 \<longleftrightarrow>
     stands_at raw 0 (tx_version tx) 4 \<and> stands_at raw 4 [0x00, 0x01] 6
     \<and> stands_at raw 6 (varint_enc (length (tx_ins tx))) p0
     \<and> stands_at raw p0 (concat (map enc_field (tx_ins tx))) p1
     \<and> stands_at raw p1 (varint_enc (length (tx_outs tx))) p2
     \<and> stands_at raw p2 (concat (map enc_field (tx_outs tx))) p3
     \<and> stands_at raw p3 (concat (map (enc_list enc_item) (tx_witness tx))) p4
     \<and> stands_at raw p4 (tx_locktime tx) (p4 + 4)"

lemma wire_cut_iff:
  "wf_btc_tx tx \<Longrightarrow> (\<exists>rest. raw = ser_segwit tx @ rest) \<longleftrightarrow> (\<exists>p0 p1 p2 p3 p4. wire_cut raw tx p0 p1 p2 p3 p4)"
proof -
  assume "wf_btc_tx tx"
  then have len: "length (tx_version tx) = 4" "length (tx_locktime tx) = 4" by (simp_all add: wf_btc_tx_def)
  then have v: "stands_at raw 0 (tx_version tx) p \<longleftrightarrow> p = 4 \<and> stands_at raw 0 (tx_version tx) 4" for p
    by (auto simp: stands_at_def)
  have s: "stands_at raw a [0, 1] p \<longleftrightarrow> p = a + 2 \<and> stands_at raw a [0, 1] (a + 2)" for a p
    by (auto simp: stands_at_def)
  have l: "stands_at raw a (tx_locktime tx) p \<longleftrightarrow> p = a + 4 \<and> stands_at raw a (tx_locktime tx) (a + 4)" for a p
    using len by (auto simp: stands_at_def)
  have "(\<exists>rest. raw = ser_segwit tx @ rest) \<longleftrightarrow> (\<exists>q. stands_at raw 0 (ser_segwit tx) q)"
    by (auto simp: stands_at_prefix)
  also have "\<dots> \<longleftrightarrow> (\<exists>p0 p1 p2 p3 p4. wire_cut raw tx p0 p1 p2 p3 p4)"
    unfolding ser_segwit_def enc_list_def [of enc_field] stands_at_append append_assoc wire_cut_def
    by (subst v, subst s, subst l) (simp, blast)
  finally show ?thesis .
qed

lemma strip_witness_cut:
  assumes "wf_btc_tx tx" "wire_cut raw tx p0 p1 p2 p3 p4"
  shows "strip_witness raw = Ok (ser_legacy tx)"
proof -
  note cut = assms(2) [unfolded wire_cut_def] and wf = assms(1) [unfolded wf_btc_tx_def]
  have "length raw \<ge> 10" "raw ! 4 = 0" "raw ! 5 = 1" "p4 + 4 \<le> length raw"
    using cut stands_at_le [of raw p4] by (auto simp: stands_at_2 dest!: stands_at_le)
  moreover have "witness_read_varint raw 6 = Ok (length (tx_ins tx), p0)"
    "witness_read_varint raw p1 = Ok (length (tx_outs tx), p2)"
    using cut wf by (simp_all add: witness_read_varint_def read_compact_stands)
  moreover have "skip_n (skip_input raw) (length (tx_ins tx)) p0 = Ok p1"
    using cut wf by (subst win.skip_n_iff) (auto dest: stands_at_le)
  moreover have "skip_n (skip_output raw) (length (tx_outs tx)) p2 = Ok p3"
    using cut wf by (subst wout.skip_n_iff) (auto dest: stands_at_le)
  moreover have "skip_n (skip_witness_stack raw) (length (tx_ins tx)) p3 = Ok p4"
    using cut wf by (subst wstack.skip_n_iff) (auto dest: stands_at_le)
  moreover have "pyslice 0 4 raw = tx_version tx" "pyslice p0 p1 raw = concat (map enc_field (tx_ins tx))"
    "pyslice p2 p3 raw = concat (map enc_field (tx_outs tx))" "pyslice p4 (p4 + 4) raw = tx_locktime tx"
    using cut by (auto dest: stands_at_slice)
  ultimately show ?thesis
    using wf by (simp add: strip_witness_def encode_varint_nat ser_legacy_def enc_list_def)
qed

lemma strip_witness_inv:
  assumes "strip_witness raw = Ok s" "raw ! 4 = 0"
  shows "\<exists>tx p0 p1 p2 p3 p4. wf_btc_tx tx \<and> wire_cut raw tx p0 p1 p2 p3 p4"
proof -
  from assms obtain ic p0 p1 oc p2 p3 p4 where len: "10 \<le> length raw" "raw ! 5 = 1" "p4 + 4 \<le> length raw"
    and r: "read_compact ValidationError raw 6 = Ok (ic, p0)" "read_compact ValidationError raw p1 = Ok (oc, p2)"
    and i: "skip_n (skip_input raw) ic p0 = Ok p1" and o: "skip_n (skip_output raw) oc p2 = Ok p3"
    and w: "skip_n (skip_witness_stack raw) ic p3 = Ok p4"
    by (auto simp: strip_witness_def witness_read_varint_def py_simps not_less split: if_splits)
  from win.counted_parts [THEN iffD1, OF conjI, OF r(1) i] obtain ins where
    ins: "ic = length ins" "length ins < 2 ^ 64" "list_all (wf_field 36 4) ins"
    "stands_at raw 6 (varint_enc (length ins)) p0" "stands_at raw p0 (concat (map enc_field ins)) p1" by blast
  from wout.counted_parts [THEN iffD1, OF conjI, OF r(2) o] obtain outs where
    outs: "oc = length outs" "length outs < 2 ^ 64" "list_all (wf_field 8 0) outs"
    "stands_at raw p1 (varint_enc (length outs)) p2" "stands_at raw p2 (concat (map enc_field outs)) p3" by blast
  from outs(5) have "p3 \<le> length raw" by (simp add: stands_at_le)
  from wstack.skip_n_iff [THEN iffD1, OF this w] obtain wit where wit: "length wit = ic"
    "list_all (\<lambda>st. length st < 2 ^ 64 \<and> list_all (\<lambda>it. length it < 2 ^ 64) st) wit"
    "stands_at raw p3 (concat (map (enc_list enc_item) wit)) p4" by blast
  let ?tx = "\<lparr>tx_version = pyslice 0 4 raw, tx_ins = ins, tx_outs = outs, tx_witness = wit,
      tx_locktime = pyslice p4 (p4 + 4) raw\<rparr>"
  have "wf_btc_tx ?tx" using ins outs wit len by (simp add: wf_btc_tx_def)
  moreover have "wire_cut raw ?tx p0 p1 p2 p3 p4"
    using ins outs wit len assms(2) by (simp add: wire_cut_def stands_at_2) (simp add: stands_at_def)
  ultimately show ?thesis by blast
qed

lemma strip_witness_iff:
  "strip_witness raw = Ok s \<longleftrightarrow>
     (10 \<le> length raw \<and> raw ! 4 \<noteq> 0 \<and> s = raw)
     \<or> (\<exists>tx rest. wf_btc_tx tx \<and> raw = ser_segwit tx @ rest \<and> s = ser_legacy tx)" (is "_ \<longleftrightarrow> ?A \<or> ?B")
proof (cases "raw ! 4 = 0")
  case True
  have "strip_witness raw = Ok s \<longleftrightarrow> ?B"
  proof
    assume *: "strip_witness raw = Ok s"
    from strip_witness_inv [OF this True] obtain tx p0 p1 p2 p3 p4
      where tx: "wf_btc_tx tx" "wire_cut raw tx p0 p1 p2 p3 p4" by blast
    with * strip_witness_cut [OF tx] wire_cut_iff [OF tx(1), of raw] show ?B by auto
  next
    assume ?B
    then show "strip_witness raw = Ok s" using strip_witness_cut wire_cut_iff by blast
  qed
  with True show ?thesis by blast
next
  case False
  then have "\<not> ?B" by (auto simp: wf_btc_tx_def ser_segwit_def nth_append)
  with False show ?thesis by (auto simp: strip_witness_def)
qed

section \<open>Properties\<close>

text \<open>
  C34: \<open>strip_witness\<close> succeeds exactly in two cases: on at least ten bytes without the segwit
  marker, which it returns unchanged, and on a buffer that starts with the segwit serialization
  of some transaction, for which it returns that transaction's legacy serialization. No malformed
  or truncated segwit buffer yields a result.
\<close>

theorem strip_witness_correct:
  "strip_witness raw = Ok s \<longleftrightarrow>
     (10 \<le> length raw \<and> raw ! 4 \<noteq> 0 \<and> s = raw)
     \<or> (\<exists>tx rest. wf_btc_tx tx \<and> raw = ser_segwit tx @ rest \<and> s = ser_legacy tx)"
  by (rule strip_witness_iff)

end
