(* ===== verification/Spv_Payment.thy ===== *)
theory Spv_Payment
  imports Wire
begin

text \<open>
  \<open>pyrxd/spv/payment.py\<close>: checking that the output at a given offset of a raw transaction
  pays a given hash at least a given amount. The reference is the exact byte string of such
  an output.
\<close>

section \<open>The code\<close>

definition P2PKH :: string where "P2PKH = ''p2pkh''"
definition P2WPKH :: string where "P2WPKH = ''p2wpkh''"
definition P2SH :: string where "P2SH = ''p2sh''"
definition P2TR :: string where "P2TR = ''p2tr''"

lemmas type_names = P2PKH_def P2WPKH_def P2SH_def P2TR_def

definition OUTPUT_SCRIPT_LENGTHS :: "string \<rightharpoonup> nat" where
  "OUTPUT_SCRIPT_LENGTHS = [P2PKH \<mapsto> 25, P2WPKH \<mapsto> 22, P2SH \<mapsto> 23, P2TR \<mapsto> 34]"

definition SCRIPT_PATTERNS :: "string \<rightharpoonup> bytes \<times> bytes" where
  "SCRIPT_PATTERNS =
     [P2PKH \<mapsto> ([0x76, 0xa9, 0x14], [0x88, 0xac]),
      P2WPKH \<mapsto> ([0x00, 0x14], []),
      P2SH \<mapsto> ([0xa9, 0x14], [0x87]),
      P2TR \<mapsto> ([0x51, 0x20], [])]"

definition verify_payment :: "bytes \<Rightarrow> int \<Rightarrow> bytes \<Rightarrow> string \<Rightarrow> int \<Rightarrow> unit result" where
  "verify_payment raw_tx output_offset expected_hash output_type min_satoshis =
     (case SCRIPT_PATTERNS output_type of
        None \<Rightarrow> Err ValidationError
      | Some (prefix, suffix) \<Rightarrow>
        (case OUTPUT_SCRIPT_LENGTHS output_type of
           None \<Rightarrow> Err KeyError
         | Some script_len \<Rightarrow>
             let min_output_size = 8 + 1 + script_len in
             if output_offset < 0 then Err ValidationError
             else if output_offset + int min_output_size > int (length raw_tx) then Err SpvVerificationError
             else let off = nat output_offset;
                      val = le_val (pyslice off (off + 8) raw_tx) in
             if val \<ge> 2 ^ 63 then Err SpvVerificationError
             else if val = 0 then Err SpvVerificationError
             else if int val < min_satoshis then Err SpvVerificationError
             else if unat (raw_tx ! (off + 8)) \<noteq> script_len then Err SpvVerificationError
             else let script = pyslice (off + 9) (off + 9 + script_len) raw_tx in
             if length script \<noteq> script_len then Err SpvVerificationError
             else if script ! 0 = 0x6A then Err SpvVerificationError
             else let hash_len = (if output_type = P2TR then 32 else 20) in
             if output_type = P2TR \<and> length expected_hash \<noteq> 32 then Err ValidationError
             else if output_type \<noteq> P2TR \<and> length expected_hash \<noteq> 20 then Err ValidationError
             else let hash_start = length prefix in
             if take hash_start script \<noteq> prefix then Err SpvVerificationError
             else if pyslice hash_start (hash_start + hash_len) script \<noteq> expected_hash
               then Err SpvVerificationError
             else if suffix \<noteq> [] \<and> drop (hash_start + hash_len) script \<noteq> suffix
               then Err SpvVerificationError
             else Ok ()))"

section \<open>The bytes of a payment\<close>

definition hash_len_of :: "string \<Rightarrow> nat" where
  "hash_len_of output_type = (if output_type = P2TR then 32 else 20)"

definition payment_script :: "string \<Rightarrow> bytes \<Rightarrow> bytes option" where
  "payment_script output_type h =
     map_option (\<lambda>(prefix, suffix). prefix @ h @ suffix) (SCRIPT_PATTERNS output_type)"

lemma output_type_cases:
  assumes "SCRIPT_PATTERNS ty = Some (prefix, suffix)"
  shows "OUTPUT_SCRIPT_LENGTHS ty = Some (length prefix + hash_len_of ty + length suffix)
     \<and> prefix \<noteq> [] \<and> hd prefix \<noteq> 0x6A \<and> length prefix + hash_len_of ty + length suffix < 253"
  using assms
  by (auto simp: SCRIPT_PATTERNS_def OUTPUT_SCRIPT_LENGTHS_def hash_len_of_def type_names split: if_splits)

lemma script_parts:
  assumes "length script = length prefix + k + length suffix" "length h = k"
  shows "take (length prefix) script = prefix \<and> pyslice (length prefix) (length prefix + k) script = h
     \<and> (suffix \<noteq> [] \<longrightarrow> drop (length prefix + k) script = suffix) \<longleftrightarrow> script = prefix @ h @ suffix" (is "?L \<longleftrightarrow> _")
proof
  assume ?L
  moreover have "script = take (length prefix) script @ pyslice (length prefix) (length prefix + k) script
      @ drop (length prefix + k) script"
    by (simp add: pyslice_def) (metis add.commute append_take_drop_id drop_drop)
  moreover have "suffix = [] \<Longrightarrow> drop (length prefix + k) script = []" using assms by simp
  ultimately show "script = prefix @ h @ suffix" by metis
qed (use assms in \<open>simp add: pyslice_def\<close>)

lemma stands_at_single: "stands_at buf pos [b] q \<longleftrightarrow> q = Suc pos \<and> pos < length buf \<and> buf ! pos = b"
proof -
  have "pos < length buf \<Longrightarrow> pyslice pos (Suc pos) buf = [buf ! pos]"
    using pyslice_Suc [of pos buf 0] by (simp add: pyslice_def)
  then show ?thesis by (auto simp: stands_at_def)
qed

lemma stands_at_le_bytes:
  "v < 256 ^ k \<Longrightarrow> stands_at buf pos (le_bytes k v) q \<longleftrightarrow>
     q = pos + k \<and> q \<le> length buf \<and> le_val (pyslice pos q buf) = v"
  by (auto simp: stands_at_def le_val_le_bytes) (metis add_diff_cancel_left' le_bytes_pyslice)

lemma word_of_nat_eq_byte: "m < 256 \<Longrightarrow> (word_of_nat m :: byte) = b \<longleftrightarrow> unat b = m"
  by (auto simp: unat_word_of_nat_byte word_unat_eq_iff)

lemma stands_at_output:
  assumes "v < 2 ^ 64" "length S < 256"
  shows "stands_at raw p (le_bytes 8 v @ word_of_nat (length S) # S) q \<longleftrightarrow>
     q = p + 9 + length S \<and> q \<le> length raw \<and> le_val (pyslice p (p + 8) raw) = v
     \<and> unat (raw ! (p + 8)) = length S \<and> pyslice (p + 9) (p + 9 + length S) raw = S"
proof -
  have tail: "stands_at raw (p + 8) (word_of_nat (length S) # S) q \<longleftrightarrow>
     q = p + 9 + length S \<and> q \<le> length raw \<and> raw ! (p + 8) = word_of_nat (length S)
     \<and> pyslice (p + 9) q raw = S"
    using pyslice_Suc [of "p + 8" raw "length S"] by (auto simp: stands_at_def ac_simps)
  have "stands_at raw p (le_bytes 8 v @ word_of_nat (length S) # S) q \<longleftrightarrow>
     stands_at raw (p + 8) (word_of_nat (length S) # S) q \<and> le_val (pyslice p (p + 8) raw) = v"
    using assms(1) unfolding stands_at_append
    by (auto simp: stands_at_le_bytes dest: stands_at_le simp del: le_bytes.simps)
  then show ?thesis unfolding tail using word_of_nat_eq_byte [OF assms(2)] by metis
qed

lemma verify_payment_stands:
  assumes pat: "SCRIPT_PATTERNS ty = Some (prefix, suffix)"
  shows "verify_payment raw off h ty min_sats = Ok () \<longleftrightarrow>
     length h = hash_len_of ty \<and> 0 \<le> off
     \<and> (\<exists>v q. 0 < v \<and> v < 2 ^ 63 \<and> min_sats \<le> int v
          \<and> stands_at raw (nat off) (le_bytes 8 v @ word_of_nat (length (prefix @ h @ suffix)) # prefix @ h @ suffix) q)"
    (is "_ \<longleftrightarrow> ?R")
proof (cases "length h = hash_len_of ty \<and> 0 \<le> off")
  case True
  then obtain o' where o': "off = int o'" "length h = hash_len_of ty" by (metis nat_0_le)
  let ?n = "length prefix + hash_len_of ty + length suffix"
  have len: "OUTPUT_SCRIPT_LENGTHS ty = Some ?n" using output_type_cases [OF pat] by simp
  let ?script = "pyslice (o' + 9) (o' + 9 + ?n) raw"
  note ty = output_type_cases [OF pat]
  have hd: "?script = prefix @ h @ suffix \<Longrightarrow> ?script ! 0 \<noteq> 0x6A"
    using ty by (auto simp: hd_conv_nth nth_append)
  have n: "length (prefix @ h @ suffix) = ?n" "?n < 256" using ty o' by simp_all
  have "verify_payment raw off h ty min_sats = Ok () \<longleftrightarrow>
     o' + 9 + ?n \<le> length raw \<and> le_val (pyslice o' (o' + 8) raw) < 2 ^ 63 \<and> 0 < le_val (pyslice o' (o' + 8) raw)
     \<and> min_sats \<le> int (le_val (pyslice o' (o' + 8) raw)) \<and> unat (raw ! (o' + 8)) = ?n
     \<and> ?script ! 0 \<noteq> 0x6A \<and> take (length prefix) ?script = prefix
     \<and> pyslice (length prefix) (length prefix + hash_len_of ty) ?script = h
     \<and> (suffix \<noteq> [] \<longrightarrow> drop (length prefix + hash_len_of ty) ?script = suffix)"
    using ty o' unfolding verify_payment_def pat len option.case prod.case Let_def if_Err_Ok_iff hash_len_of_def [symmetric]
    by (auto simp: not_less hash_len_of_def split: if_splits)
  also have "\<dots> \<longleftrightarrow> o' + 9 + ?n \<le> length raw \<and> le_val (pyslice o' (o' + 8) raw) < 2 ^ 63
     \<and> 0 < le_val (pyslice o' (o' + 8) raw)
     \<and> min_sats \<le> int (le_val (pyslice o' (o' + 8) raw)) \<and> unat (raw ! (o' + 8)) = ?n
     \<and> ?script = prefix @ h @ suffix"
    using script_parts [of ?script prefix "hash_len_of ty" suffix h] hd o' by auto
  also have "\<dots> \<longleftrightarrow> (\<exists>v q. 0 < v \<and> v < 2 ^ 63 \<and> min_sats \<le> int v
     \<and> stands_at raw o' (le_bytes 8 v @ word_of_nat ?n # prefix @ h @ suffix) q)"
    (is "?L \<longleftrightarrow> ?R")
  proof -
    have st: "v < 2 ^ 63 \<Longrightarrow> stands_at raw o' (le_bytes 8 v @ word_of_nat ?n # prefix @ h @ suffix) q \<longleftrightarrow>
        q = o' + 9 + ?n \<and> q \<le> length raw \<and> le_val (pyslice o' (o' + 8) raw) = v
        \<and> unat (raw ! (o' + 8)) = ?n \<and> ?script = prefix @ h @ suffix" for v q
      using stands_at_output [of v "prefix @ h @ suffix" raw o' q] n(2) unfolding n(1) by simp
    show ?thesis by (auto simp: st cong: conj_cong simp del: le_bytes.simps of_nat_add)
  qed
  finally show ?thesis unfolding n(1) using o' by simp
next
  case False
  have len: "OUTPUT_SCRIPT_LENGTHS ty = Some (length prefix + hash_len_of ty + length suffix)"
    using output_type_cases [OF pat] by simp
  have "verify_payment raw off h ty min_sats \<noteq> Ok ()"
  proof
    assume "verify_payment raw off h ty min_sats = Ok ()"
    then have "\<not> off < 0" "\<not> (ty = P2TR \<and> length h \<noteq> 32)" "\<not> (ty \<noteq> P2TR \<and> length h \<noteq> 20)"
      unfolding verify_payment_def pat len option.case prod.case Let_def if_Err_Ok_iff by blast+
    with False show False by (auto simp: hash_len_of_def split: if_splits)
  qed
  with False show ?thesis by blast
qed

section \<open>Properties\<close>

text \<open>
  \<open>verify_payment\<close> accepts exactly the well-formed payments: the type is known, the hash has
  the length of its type, the offset is not negative, and at the offset stand, complete, an
  8-byte value that is positive, below 2 ^ 63 and at least the minimum, the one-byte script
  length, and the script template of the type around exactly the expected hash.
\<close>

theorem verify_payment_correct:
  "verify_payment raw_tx off h ty min_sats = Ok () \<longleftrightarrow>
     (\<exists>script v pre post. payment_script ty h = Some script \<and> length h = hash_len_of ty
        \<and> 0 < v \<and> v < 2 ^ 63 \<and> min_sats \<le> int v
        \<and> off = int (length pre) \<and> raw_tx = pre @ le_bytes 8 v @ word_of_nat (length script) # script @ post)"
proof (cases "SCRIPT_PATTERNS ty")
  case None
  then show ?thesis by (simp add: verify_payment_def payment_script_def)
next
  case (Some a)
  obtain prefix suffix where "a = (prefix, suffix)" by (cases a)
  with Some have pat: "SCRIPT_PATTERNS ty = Some (prefix, suffix)" by simp
  show ?thesis
    unfolding verify_payment_stands [OF pat] stands_at_iff payment_script_def pat
    by (simp del: le_bytes.simps) (metis nat_int nat_0_le of_nat_0_le_iff)
qed

end
