(* ===== verification/Spv_Proof.thy ===== *)
theory Spv_Proof
  imports Spv_Header Spv_Merkle Spv_Witness Spv_Payment
begin

text \<open>
  \<open>pyrxd/spv/proof.py\<close>: the structural walk over a stripped transaction, the covenant
  parameters and \<open>SpvProofBuilder.build\<close>, which strings the verifiers of the SPV package
  together. Arguments have the types their annotations declare, so the \<open>isinstance\<close> tests of
  \<open>CovenantParams\<close> hold; \<open>raw_tx_hex\<close>, \<open>txid_be\<close> and the header strings are arbitrary.
\<close>

section \<open>Structural walks\<close>

definition proof_skip_input :: "bytes \<Rightarrow> nat \<Rightarrow> nat result" where
  "proof_skip_input tx pos =
     bind_r (proof_read_varint tx (pos + 36)) (\<lambda>(script_len, pos).
       if pos + script_len + 4 > length tx then Err SpvVerificationError
       else Ok (pos + script_len + 4))"

definition proof_skip_output :: "bytes \<Rightarrow> nat \<Rightarrow> nat result" where
  "proof_skip_output tx pos =
     bind_r (proof_read_varint tx (pos + 8)) (\<lambda>(script_len, pos).
       if pos + script_len > length tx then Err SpvVerificationError
       else Ok (pos + script_len))"

fun output_loop :: "bytes \<Rightarrow> nat \<Rightarrow> nat \<Rightarrow> nat set \<Rightarrow> (nat \<times> nat set) result" where
  "output_loop tx 0 pos offsets = Ok (pos, offsets)"
| "output_loop tx (Suc n) pos offsets =
     bind_r (proof_skip_output tx pos) (\<lambda>pos'. output_loop tx n pos' (insert pos offsets))"

definition output_offsets :: "bytes \<Rightarrow> nat set result" where
  "output_offsets stripped_tx =
     bind_r (proof_read_varint stripped_tx 4) (\<lambda>(n_in, pos).
     bind_r (skip_n (proof_skip_input stripped_tx) n_in pos) (\<lambda>pos.
     bind_r (proof_read_varint stripped_tx pos) (\<lambda>(n_out, pos).
     bind_r (output_loop stripped_tx n_out pos {}) (\<lambda>(pos, offsets).
       if int pos \<noteq> int (length stripped_tx) - 4 then Err SpvVerificationError else Ok offsets))))"

definition COVENANT_MAX_INPUT_SCRIPTSIG_LEN :: nat where
  "COVENANT_MAX_INPUT_SCRIPTSIG_LEN = 127"

definition first_input_is_null_outpoint :: "bytes \<Rightarrow> bool" where
  "first_input_is_null_outpoint stripped_tx =
     (case proof_read_varint stripped_tx 4 of
        Inl _ \<Rightarrow> False
      | Inr (_, p) \<Rightarrow>
          if p + 36 > length stripped_tx then False
          else pyslice p (p + 32) stripped_tx = replicate 32 0
               \<and> pyslice (p + 32) (p + 36) stripped_tx = [0xff, 0xff, 0xff, 0xff])"

fun scriptsig_loop :: "bytes \<Rightarrow> nat \<Rightarrow> nat \<Rightarrow> nat \<Rightarrow> nat result" where
  "scriptsig_loop tx 0 pos longest = Ok longest"
| "scriptsig_loop tx (Suc n) pos longest =
     bind_r (proof_read_varint tx (pos + 36)) (\<lambda>(script_len, pos).
       if pos + script_len + 4 > length tx then Err SpvVerificationError
       else scriptsig_loop tx n (pos + script_len + 4) (max longest script_len))"

definition max_input_scriptsig_len :: "bytes \<Rightarrow> nat result" where
  "max_input_scriptsig_len stripped_tx =
     bind_r (proof_read_varint stripped_tx 4) (\<lambda>(n_in, pos). scriptsig_loop stripped_tx n_in pos 0)"

section \<open>Covenant parameters\<close>

record covenant_params =
  btc_receive_hash :: bytes
  btc_receive_type :: string
  btc_satoshis :: int
  chain_anchor :: bytes
  anchor_height :: int
  merkle_depth :: int
  expected_nbits :: "bytes option"
  expected_nbits_next :: "bytes option"

definition VALID_RECEIVE_TYPES :: "string list" where
  "VALID_RECEIVE_TYPES = [P2PKH, P2WPKH, P2SH, P2TR]"

definition check_nbits_pin :: "bytes option \<Rightarrow> unit result" where
  "check_nbits_pin pin =
     (case pin of
        None \<Rightarrow> Ok ()
      | Some nb \<Rightarrow> if length nb \<noteq> 4 then Err ValidationError
                   else bind_r (Nbits (PyBytes nb)) (\<lambda>_. Ok ()))"

definition CovenantParams_post_init :: "covenant_params \<Rightarrow> covenant_params result" where
  "CovenantParams_post_init p =
     (if btc_receive_type p \<notin> set VALID_RECEIVE_TYPES then Err ValidationError
      else if btc_satoshis p \<le> 0 then Err ValidationError
      else if length (chain_anchor p) \<noteq> 32 then Err ValidationError
      else if anchor_height p < 0 then Err ValidationError
      else if merkle_depth p < 1 \<or> merkle_depth p > 32 then Err ValidationError
      else if length (btc_receive_hash p) \<noteq> (if btc_receive_type p = P2TR then 32 else 20)
        then Err ValidationError
      else bind_r (check_nbits_pin (expected_nbits p)) (\<lambda>_.
           bind_r (check_nbits_pin (expected_nbits_next p)) (\<lambda>_.
             if expected_nbits_next p \<noteq> None \<and> expected_nbits p = None then Err ValidationError
             else Ok p)))"

section \<open>The proof builder\<close>

text \<open>
  \<open>SpvProof\<close> can only be constructed with the module's private token, which \<open>build\<close> supplies;
  the model has no other producer of the record.
\<close>

record spv_proof =
  proof_txid :: string
  proof_raw_tx :: bytes
  proof_headers :: "bytes list"
  proof_branch :: bytes
  proof_pos :: int
  proof_output_offset :: int
  proof_params :: covenant_params

fun find_header :: "bytes \<Rightarrow> bytes list \<Rightarrow> bytes option result" where
  "find_header root [] = Ok None"
| "find_header root (header # headers) =
     bind_r (extract_merkle_root header) (\<lambda>r.
       if root = r then Ok (Some header) else find_header root headers)"

definition match_header ::
  "covenant_params \<Rightarrow> bytes list \<Rightarrow> bytes \<Rightarrow> int option \<Rightarrow> bytes result"
where
  "match_header params headers computed_root tx_block_height =
     (case tx_block_height of
        Some height \<Rightarrow>
          (let expected_index = height - anchor_height params - 1 in
           if \<not> (0 \<le> expected_index \<and> expected_index < int (length headers)) then Err SpvVerificationError
           else let header = headers ! nat expected_index in
             bind_r (extract_merkle_root header) (\<lambda>r.
               if computed_root \<noteq> r then Err SpvVerificationError else Ok header))
      | None \<Rightarrow>
          bind_r (find_header computed_root headers) (\<lambda>m.
            case m of None \<Rightarrow> Err SpvVerificationError | Some header \<Rightarrow> Ok header))"

definition longest_scriptsig :: "bytes \<Rightarrow> nat result" where
  "longest_scriptsig stripped =
     (case max_input_scriptsig_len stripped of
        Inl e \<Rightarrow> if e = SpvVerificationError then Ok 0 else Err e
      | Inr n \<Rightarrow> Ok n)"

definition build ::
  "covenant_params \<Rightarrow> string \<Rightarrow> string \<Rightarrow> string list \<Rightarrow> string list \<Rightarrow> int \<Rightarrow> int \<Rightarrow> int option \<Rightarrow> spv_proof result"
where
  "build params txid_be raw_tx_hex headers_hex merkle_be pos output_offset tx_block_height =
     (if pos = 0 then Err SpvVerificationError
      else if pos < 0 then Err ValidationError
      else
        bind_r (fromhex raw_tx_hex) (\<lambda>raw_tx.
        bind_r (strip_witness raw_tx) (\<lambda>stripped.
        if length stripped \<le> 64 then Err SpvVerificationError
        else
        bind_r (fromhex txid_be) (\<lambda>claimed_txid_be.
        if hash256 stripped \<noteq> rev claimed_txid_be then Err SpvVerificationError
        else if first_input_is_null_outpoint stripped then Err SpvVerificationError
        else
        bind_r (longest_scriptsig stripped) (\<lambda>longest_ss.
        if longest_ss > COVENANT_MAX_INPUT_SCRIPTSIG_LEN then Err SpvVerificationError
        else
        bind_r (map_r fromhex headers_hex) (\<lambda>headers.
        bind_r (verify_chain headers (Some (chain_anchor params)) (expected_nbits params)
                  (expected_nbits_next params)) (\<lambda>_.
        bind_r (build_branch merkle_be pos) (\<lambda>branch.
        bind_r (compute_root txid_be branch) (\<lambda>computed_root.
        bind_r (match_header params headers computed_root tx_block_height) (\<lambda>matching_header.
        bind_r (verify_tx_in_block stripped txid_be branch pos matching_header
                  (Some (merkle_depth params))) (\<lambda>_.
        bind_r (output_offsets stripped) (\<lambda>offsets.
        if \<not> (0 \<le> output_offset \<and> nat output_offset \<in> offsets) then Err SpvVerificationError
        else
        bind_r (verify_payment stripped output_offset (btc_receive_hash params)
                  (btc_receive_type params) (btc_satoshis params)) (\<lambda>_.
          Ok \<lparr>proof_txid = txid_be, proof_raw_tx = stripped, proof_headers = headers,
              proof_branch = branch, proof_pos = pos, proof_output_offset = output_offset,
              proof_params = params\<rparr>)))))))))))))"

section \<open>What the walks find\<close>

interpretation pin: skipper "wf_field 36 4" enc_field proof_skip_input
proof
  fix buf pos q
  show "proof_skip_input buf pos = Ok q \<longleftrightarrow> (\<exists>x. wf_field 36 4 x \<and> stands_at buf pos (enc_field x) q)"
    unfolding field_stands [of 36 4 buf pos q SpvVerificationError]
    by (auto simp: proof_skip_input_def proof_read_varint_def py_simps)
qed

interpretation pout: skipper "wf_field 8 0" enc_field proof_skip_output
proof
  fix buf pos q
  show "proof_skip_output buf pos = Ok q \<longleftrightarrow> (\<exists>x. wf_field 8 0 x \<and> stands_at buf pos (enc_field x) q)"
    unfolding field_stands [of 8 0 buf pos q SpvVerificationError]
    by (auto simp: proof_skip_output_def proof_read_varint_def py_simps)
qed

fun starts :: "nat \<Rightarrow> field list \<Rightarrow> nat list" where
  "starts p [] = []"
| "starts p (x # xs) = p # starts (p + length (enc_field x)) xs"

lemma output_loop_skip_n:
  "output_loop tx n pos offs = Ok (q, offs') \<Longrightarrow> skip_n (proof_skip_output tx) n pos = Ok q"
  by (induction n arbitrary: pos offs) (auto simp: py_simps)

lemma output_loop_starts:
  assumes "list_all (wf_field 8 0) xs" "stands_at tx pos (concat (map enc_field xs)) q"
  shows "\<exists>q'. output_loop tx (length xs) pos offs = Ok (q', offs \<union> set (starts pos xs))"
  using assms
proof (induction xs arbitrary: pos offs)
  case (Cons x xs)
  then obtain p where p: "stands_at tx pos (enc_field x) p" "stands_at tx p (concat (map enc_field xs)) q"
    by (auto simp: stands_at_append)
  have "proof_skip_output tx pos = Ok p" using p Cons.prems unfolding pout.skip_iff by (intro exI [of _ x]) simp
  moreover have "p = pos + length (enc_field x)" using p by (simp add: stands_at_def)
  moreover obtain q' where "output_loop tx (length xs) p (insert pos offs) = Ok (q', insert pos offs \<union> set (starts p xs))"
    using Cons.IH [of p "insert pos offs"] p Cons.prems by auto
  ultimately show ?case by auto
qed simp

definition legacy_cut :: "bytes \<Rightarrow> btc_tx \<Rightarrow> nat \<Rightarrow> nat \<Rightarrow> nat \<Rightarrow> nat \<Rightarrow> bool" where
  "legacy_cut s tx p0 p1 p2 p3 \<longleftrightarrow>
     stands_at s 0 (tx_version tx) 4
     \<and> stands_at s 4 (varint_enc (length (tx_ins tx))) p0
     \<and> stands_at s p0 (concat (map enc_field (tx_ins tx))) p1
     \<and> stands_at s p1 (varint_enc (length (tx_outs tx))) p2
     \<and> stands_at s p2 (concat (map enc_field (tx_outs tx))) p3
     \<and> stands_at s p3 (tx_locktime tx) (length s) \<and> length s = p3 + 4"

definition out_starts :: "btc_tx \<Rightarrow> nat list" where
  "out_starts tx =
     starts (4 + length (enc_list enc_field (tx_ins tx)) + length (varint_enc (length (tx_outs tx)))) (tx_outs tx)"

lemma legacy_cut_iff:
  "wf_btc_tx tx \<Longrightarrow> s = ser_legacy tx \<longleftrightarrow> (\<exists>p0 p1 p2 p3. legacy_cut s tx p0 p1 p2 p3)"
proof -
  assume "wf_btc_tx tx"
  then have len: "length (tx_version tx) = 4" "length (tx_locktime tx) = 4" by (simp_all add: wf_btc_tx_def)
  then have v: "stands_at s 0 (tx_version tx) p \<longleftrightarrow> p = 4 \<and> stands_at s 0 (tx_version tx) 4" for p
    by (auto simp: stands_at_def)
  have l: "stands_at s a (tx_locktime tx) q \<longleftrightarrow> q = a + 4 \<and> stands_at s a (tx_locktime tx) q" for a q
    using len by (auto simp: stands_at_def)
  have "s = ser_legacy tx \<longleftrightarrow> stands_at s 0 (ser_legacy tx) (length s)"
    by (auto simp: stands_at_prefix)
  also have "\<dots> \<longleftrightarrow> (\<exists>p0 p1 p2 p3. legacy_cut s tx p0 p1 p2 p3)"
    unfolding ser_legacy_def enc_list_def [of enc_field] stands_at_append append_assoc legacy_cut_def
    by (subst v, subst l) (simp, blast)
  finally show ?thesis .
qed

lemma legacy_cut_reads:
  assumes "wf_btc_tx tx" "legacy_cut s tx p0 p1 p2 p3"
  shows "proof_read_varint s 4 = Ok (length (tx_ins tx), p0)"
    "skip_n (proof_skip_input s) (length (tx_ins tx)) p0 = Ok p1"
    "proof_read_varint s p1 = Ok (length (tx_outs tx), p2)"
    "skip_n (proof_skip_output s) (length (tx_outs tx)) p2 = Ok p3"
    "output_loop s (length (tx_outs tx)) p2 {} = Ok (p3, set (out_starts tx))"
proof -
  note cut = assms(2) [unfolded legacy_cut_def] and wf = assms(1) [unfolded wf_btc_tx_def]
  show "proof_read_varint s 4 = Ok (length (tx_ins tx), p0)"
    "proof_read_varint s p1 = Ok (length (tx_outs tx), p2)"
    using cut wf by (simp_all add: proof_read_varint_def read_compact_stands)
  show "skip_n (proof_skip_input s) (length (tx_ins tx)) p0 = Ok p1"
    using cut wf by (subst pin.skip_n_iff) (auto dest: stands_at_le)
  show sk: "skip_n (proof_skip_output s) (length (tx_outs tx)) p2 = Ok p3"
    using cut wf by (subst pout.skip_n_iff) (auto dest: stands_at_le)
  have "p2 = 4 + length (enc_list enc_field (tx_ins tx)) + length (varint_enc (length (tx_outs tx)))"
    using cut by (simp add: stands_at_def enc_list_def)
  then obtain q where q: "output_loop s (length (tx_outs tx)) p2 {} = Ok (q, set (out_starts tx))"
    using output_loop_starts [of "tx_outs tx" s p2 p3 "{}"] cut wf by (auto simp: out_starts_def)
  with output_loop_skip_n [OF q] sk
  show "output_loop s (length (tx_outs tx)) p2 {} = Ok (p3, set (out_starts tx))" by simp
qed

lemma output_offsets_cut:
  assumes "wf_btc_tx tx" "legacy_cut s tx p0 p1 p2 p3"
  shows "output_offsets s = Ok (set (out_starts tx))"
proof -
  have "length s = p3 + 4" using assms(2) by (simp add: legacy_cut_def)
  then show ?thesis using legacy_cut_reads [OF assms] by (simp add: output_offsets_def)
qed

lemma output_offsets_inv:
  assumes "output_offsets s = Ok offs"
  shows "\<exists>tx p0 p1 p2 p3. wf_btc_tx tx \<and> legacy_cut s tx p0 p1 p2 p3"
proof -
  from assms obtain ic p0 p1 oc p2 p3 where len: "int p3 = int (length s) - 4"
    and r: "read_compact SpvVerificationError s 4 = Ok (ic, p0)" "read_compact SpvVerificationError s p1 = Ok (oc, p2)"
    and i: "skip_n (proof_skip_input s) ic p0 = Ok p1" and o: "output_loop s oc p2 {} = Ok (p3, offs)"
    by (auto simp: output_offsets_def proof_read_varint_def py_simps split: if_splits)
  from pin.counted_parts [THEN iffD1, OF conjI, OF r(1) i] obtain ins where
    ins: "ic = length ins" "length ins < 2 ^ 64" "list_all (wf_field 36 4) ins"
    "stands_at s 4 (varint_enc (length ins)) p0" "stands_at s p0 (concat (map enc_field ins)) p1" by blast
  from pout.counted_parts [THEN iffD1, OF conjI, OF r(2) output_loop_skip_n [OF o]] obtain outs where
    outs: "oc = length outs" "length outs < 2 ^ 64" "list_all (wf_field 8 0) outs"
    "stands_at s p1 (varint_enc (length outs)) p2" "stands_at s p2 (concat (map enc_field outs)) p3" by blast
  let ?tx = "\<lparr>tx_version = pyslice 0 4 s, tx_ins = ins, tx_outs = outs,
      tx_witness = replicate (length ins) [], tx_locktime = pyslice p3 (p3 + 4) s\<rparr>"
  have l: "length s = p3 + 4" "4 \<le> length s" using len by auto
  then have v: "stands_at s 0 (pyslice 0 4 s) 4" "stands_at s p3 (pyslice p3 (p3 + 4) s) (length s)"
    by (simp_all add: stands_at_def)
  have "wf_btc_tx ?tx" using ins(2,3) outs(2,3) l by (simp add: wf_btc_tx_def list_all_iff)
  moreover have "legacy_cut s ?tx p0 p1 p2 p3"
    using ins(4,5) outs(4,5) l(1) v by (simp only: legacy_cut_def btc_tx.simps)
  ultimately show ?thesis by blast
qed

lemma output_offsets_iff:
  "output_offsets s = Ok offs \<longleftrightarrow> (\<exists>tx. wf_btc_tx tx \<and> s = ser_legacy tx \<and> offs = set (out_starts tx))"
proof
  assume *: "output_offsets s = Ok offs"
  from output_offsets_inv [OF this] obtain tx p0 p1 p2 p3
    where tx: "wf_btc_tx tx" "legacy_cut s tx p0 p1 p2 p3" by blast
  have "offs = set (out_starts tx)" using * output_offsets_cut [OF tx] by simp
  with tx legacy_cut_iff [OF tx(1), of s]
  show "\<exists>tx. wf_btc_tx tx \<and> s = ser_legacy tx \<and> offs = set (out_starts tx)" by blast
next
  assume "\<exists>tx. wf_btc_tx tx \<and> s = ser_legacy tx \<and> offs = set (out_starts tx)"
  then obtain tx where tx: "wf_btc_tx tx" "s = ser_legacy tx" "offs = set (out_starts tx)" by blast
  with legacy_cut_iff [OF tx(1), of s] output_offsets_cut [OF tx(1), of s]
  show "output_offsets s = Ok offs" by blast
qed

text \<open>The other two walks on a serialized transaction.\<close>

lemma scriptsig_loop_max:
  assumes "list_all (wf_field 36 4) xs" "stands_at tx pos (concat (map enc_field xs)) q"
  shows "scriptsig_loop tx (length xs) pos longest = Ok (fold (\<lambda>x m. max m (length (fst (snd x)))) xs longest)"
  using assms
proof (induction xs arbitrary: pos longest)
  case (Cons x xs)
  obtain a s b where x: "x = (a, s, b)" by (cases x)
  from Cons.prems obtain p where p: "stands_at tx pos (a @ varint_enc (length s) @ s @ b) p"
    "stands_at tx p (concat (map enc_field xs)) q"
    by (auto simp: stands_at_append x enc_field_def)
  then obtain p0 p1 p2 where pp: "stands_at tx pos a p0" "stands_at tx p0 (varint_enc (length s)) p1"
    "stands_at tx p1 s p2" "stands_at tx p2 b p"
    by (auto simp: stands_at_append)
  have "p0 = pos + 36" "p = p1 + length s + 4" "p \<le> length tx" "length s < 2 ^ 64"
    using pp Cons.prems by (auto simp: stands_at_def x wf_field_def)
  moreover from this pp have "proof_read_varint tx (pos + 36) = Ok (length s, p1)"
    by (simp add: proof_read_varint_def read_compact_stands)
  ultimately show ?case using Cons p by (simp add: x)
qed simp

lemma fold_max_le:
  "fold (\<lambda>x m. max m (f x)) xs n \<le> (k :: nat) \<longleftrightarrow> n \<le> k \<and> list_all (\<lambda>x. f x \<le> k) xs"
  by (induction xs arbitrary: n) auto

lemma longest_scriptsig_le:
  assumes "wf_btc_tx tx" "s = ser_legacy tx"
  shows "(\<exists>n. longest_scriptsig s = Ok n \<and> n \<le> k) \<longleftrightarrow> list_all (\<lambda>x. length (fst (snd x)) \<le> k) (tx_ins tx)"
proof -
  from legacy_cut_iff [OF assms(1), of s] assms(2) obtain p0 p1 p2 p3
    where cut: "legacy_cut s tx p0 p1 p2 p3" by blast
  have "max_input_scriptsig_len s = Ok (fold (\<lambda>x m. max m (length (fst (snd x)))) (tx_ins tx) 0)"
    using legacy_cut_reads(1) [OF assms(1) cut] scriptsig_loop_max [of "tx_ins tx" s p0 p1 0] cut assms(1)
    by (simp add: max_input_scriptsig_len_def legacy_cut_def wf_btc_tx_def)
  then show ?thesis by (simp add: longest_scriptsig_def fold_max_le)
qed

definition null_outpoint :: bytes where
  "null_outpoint = replicate 32 0 @ [0xff, 0xff, 0xff, 0xff]"

definition spends_coinbase :: "btc_tx \<Rightarrow> bool" where
  "spends_coinbase tx \<longleftrightarrow> tx_ins tx \<noteq> [] \<and> fst (hd (tx_ins tx)) = null_outpoint"

lemma pyslice_null_outpoint:
  "p + 36 \<le> length s \<Longrightarrow> pyslice p (p + 32) s = replicate 32 0 \<and> pyslice (p + 32) (p + 36) s = [0xff, 0xff, 0xff, 0xff]
     \<longleftrightarrow> pyslice p (p + 36) s = null_outpoint"
  unfolding null_outpoint_def using pyslice_split [of p "p + 32" "p + 36" s, symmetric] by simp

lemma varint_enc_hd_zero: "hd (varint_enc n) = 0 \<Longrightarrow> n = 0"
  by (auto simp: varint_enc_def word_of_nat_eq_byte split: if_splits)

lemma first_input_null_iff:
  assumes "wf_btc_tx tx" "s = ser_legacy tx"
  shows "first_input_is_null_outpoint s \<longleftrightarrow> spends_coinbase tx"
proof -
  from legacy_cut_iff [OF assms(1), of s] assms(2) obtain p0 p1 p2 p3
    where cut: "legacy_cut s tx p0 p1 p2 p3" by blast
  note r = legacy_cut_reads(1) [OF assms(1) cut]
  have f: "first_input_is_null_outpoint s \<longleftrightarrow> p0 + 36 \<le> length s \<and> pyslice p0 (p0 + 36) s = null_outpoint"
    using pyslice_null_outpoint [of p0 s] by (auto simp: first_input_is_null_outpoint_def r)
  show ?thesis
  proof (cases "tx_ins tx")
    case Nil
    have "\<not> (p0 + 36 \<le> length s \<and> pyslice p0 (p0 + 36) s = null_outpoint)"
    proof
      assume n: "p0 + 36 \<le> length s \<and> pyslice p0 (p0 + 36) s = null_outpoint"
      have "p1 = p0" using cut Nil by (simp add: legacy_cut_def)
      then have v: "stands_at s p0 (varint_enc (length (tx_outs tx))) p2" using cut by (simp add: legacy_cut_def)
      then obtain pre post where "s = pre @ varint_enc (length (tx_outs tx)) @ post" "length pre = p0"
        by (auto simp: stands_at_iff)
      then have "s ! p0 = hd (varint_enc (length (tx_outs tx)))"
        by (simp add: nth_append hd_conv_nth [symmetric])
      moreover have "pyslice p0 (p0 + 36) s ! 0 = s ! (p0 + 0)" by (rule pyslice_nth) (use n in auto)
      moreover have "null_outpoint ! 0 = 0" by (simp add: null_outpoint_def nth_append)
      ultimately have "hd (varint_enc (length (tx_outs tx))) = 0" using n by simp
      then have "tx_outs tx = []" using varint_enc_hd_zero by force
      with cut v have "p3 = Suc p0" by (simp add: legacy_cut_def stands_at_def length_varint_enc)
      with cut n show False by (simp add: legacy_cut_def)
    qed
    with f Nil show ?thesis by (simp add: spends_coinbase_def)
  next
    case (Cons x xs)
    obtain a sc b where x: "x = (a, sc, b)" by (cases x)
    have "length a = 36" using assms(1) Cons by (simp add: wf_btc_tx_def x wf_field_def)
    moreover have "stands_at s p0 (a @ varint_enc (length sc) @ sc @ b @ concat (map enc_field xs)) p1"
      using cut Cons by (simp add: legacy_cut_def x enc_field_def)
    ultimately obtain p where "stands_at s p0 a p" "p = p0 + 36"
      unfolding stands_at_append [of _ _ a] by (auto simp: stands_at_def [of _ _ a])
    then have "stands_at s p0 a (p0 + 36)" by simp
    then have "p0 + 36 \<le> length s" "pyslice p0 (p0 + 36) s = a" by (auto simp: stands_at_le stands_at_slice)
    with f Cons x show ?thesis by (simp add: spends_coinbase_def)
  qed
qed

section \<open>The output at a boundary\<close>

lemma varint_single: "n < 253 \<Longrightarrow> varint_enc n = [word_of_nat n]"
  by (simp add: varint_enc_def)

lemma varint_enc_first:
  assumes "varint_enc n @ xs = word_of_nat m # ys" "m < 253"
  shows "n = m \<and> xs = ys"
proof (cases "n < 253")
  case True
  with assms have "(word_of_nat n :: byte) = word_of_nat m" "xs = ys" by (auto simp: varint_single)
  with True assms(2) word_of_nat_eq_byte [of n "word_of_nat m"] show ?thesis
    by (simp add: unat_word_of_nat_byte)
next
  case False
  then have "hd (varint_enc n) \<in> {253, 254, 255}" by (auto simp: varint_enc_def)
  moreover have "hd (varint_enc n) = word_of_nat m" using assms(1) by (metis hd_append2 list.sel(1) varint_enc_not_Nil)
  ultimately have "unat (word_of_nat m :: byte) \<ge> 253" by auto
  with assms(2) show ?thesis by (simp add: unat_word_of_nat_byte)
qed

lemma output_unique:
  assumes "wf_field 8 0 x" "stands_at s p (enc_field x) q"
    "stands_at s p (le_bytes 8 v @ word_of_nat (length script) # script) q'" "length script < 253"
  shows "x = (le_bytes 8 v, script, [])"
proof -
  obtain a sc b where x: "x = (a, sc, b)" by (cases x)
  with assms(1) have l: "length a = 8" "b = []" by (simp_all add: wf_field_def)
  from assms(2) obtain pre post where 1: "s = pre @ enc_field x @ post" "length pre = p"
    by (auto simp: stands_at_iff)
  from assms(3) obtain pre' post' where
    2: "s = pre' @ (le_bytes 8 v @ word_of_nat (length script) # script) @ post'" "length pre' = p"
    unfolding stands_at_iff by blast
  from 1 2 have "enc_field x @ post = (le_bytes 8 v @ word_of_nat (length script) # script) @ post'"
    by (metis append_eq_append_conv)
  then have "a @ varint_enc (length sc) @ sc @ post = le_bytes 8 v @ word_of_nat (length script) # script @ post'"
    by (simp add: x l enc_field_def del: le_bytes.simps)
  then have "a = le_bytes 8 v" "varint_enc (length sc) @ sc @ post = word_of_nat (length script) # script @ post'"
    using l by (simp_all del: le_bytes.simps)
  with varint_enc_first [OF _ assms(4), of "length sc" "sc @ post" "script @ post'"] show ?thesis by (auto simp: x l)
qed

lemma starts_nth: "k < length xs \<Longrightarrow> starts p xs ! k = p + length (concat (map enc_field (take k xs)))"
  by (induction xs arbitrary: p k) (auto simp: nth_Cons split: nat.splits)

lemma length_starts [simp]: "length (starts p xs) = length xs"
  by (induction xs arbitrary: p) auto

lemma stands_at_nth:
  assumes "stands_at s p (concat (map enc_field xs)) q" "k < length xs"
  shows "\<exists>q'. stands_at s (starts p xs ! k) (enc_field (xs ! k)) q'"
proof -
  have "concat (map enc_field xs) = concat (map enc_field (take k xs)) @ enc_field (xs ! k) @ concat (map enc_field (drop (Suc k) xs))"
    using id_take_nth_drop [OF assms(2)] by (metis concat.simps(2) concat_append list.simps(9) map_append)
  with assms(1) obtain p1 p2 where "stands_at s p (concat (map enc_field (take k xs))) p1" "stands_at s p1 (enc_field (xs ! k)) p2"
    by (auto simp: stands_at_append)
  then show ?thesis using starts_nth [OF assms(2), of p] by (auto simp: stands_at_def)
qed

lemma payment_at_output:
  assumes tx: "wf_btc_tx tx" "s = ser_legacy tx"
  shows "off \<ge> 0 \<and> nat off \<in> set (out_starts tx) \<and> verify_payment s off h ty sats = Ok () \<longleftrightarrow>
     (\<exists>k script v. k < length (tx_outs tx) \<and> off = int (out_starts tx ! k)
        \<and> payment_script ty h = Some script \<and> length h = hash_len_of ty
        \<and> 0 < v \<and> v < 2 ^ 63 \<and> sats \<le> int v \<and> tx_outs tx ! k = (le_bytes 8 v, script, []))" (is "?L \<longleftrightarrow> ?R")
proof -
  from legacy_cut_iff [OF assms(1), of s] assms(2) obtain p0 p1 p2 p3
    where cut: "legacy_cut s tx p0 p1 p2 p3" by blast
  have p2: "out_starts tx = starts p2 (tx_outs tx)"
  proof -
    have "p0 = 4 + length (varint_enc (length (tx_ins tx)))"
      "p1 = p0 + length (concat (map enc_field (tx_ins tx)))"
      "p2 = p1 + length (varint_enc (length (tx_outs tx)))"
      using cut unfolding legacy_cut_def stands_at_def by blast+
    then show ?thesis by (simp add: out_starts_def enc_list_def add.assoc)
  qed
  have nth: "k < length (tx_outs tx) \<Longrightarrow> \<exists>q. stands_at s (out_starts tx ! k) (enc_field (tx_outs tx ! k)) q" for k
    using stands_at_nth [of s p2 "tx_outs tx" p3 k] cut by (simp add: p2 legacy_cut_def)
  have wf: "k < length (tx_outs tx) \<Longrightarrow> wf_field 8 0 (tx_outs tx ! k)" for k
    using tx(1) by (simp add: wf_btc_tx_def list_all_length)
  show ?thesis
  proof
    assume L: ?L
    then obtain k where k: "k < length (tx_outs tx)" "off = int (out_starts tx ! k)"
      by (auto simp: in_set_conv_nth p2)
    from L obtain prefix suffix where pat: "SCRIPT_PATTERNS ty = Some (prefix, suffix)"
      by (cases "SCRIPT_PATTERNS ty") (auto simp: verify_payment_def)
    from L obtain v q where v: "length h = hash_len_of ty" "0 < v" "v < 2 ^ 63" "sats \<le> int v"
      "stands_at s (out_starts tx ! k) (le_bytes 8 v @ word_of_nat (length (prefix @ h @ suffix)) # prefix @ h @ suffix) q"
      unfolding verify_payment_stands [OF pat] k(2) nat_int by blast
    moreover have "length (prefix @ h @ suffix) < 253" using output_type_cases [OF pat] v(1) by simp
    ultimately have "tx_outs tx ! k = (le_bytes 8 v, prefix @ h @ suffix, [])"
      using output_unique [OF wf [OF k(1)]] nth [OF k(1)] by blast
    with k v pat show ?R unfolding payment_script_def by auto
  next
    assume ?R
    then obtain k script v where k: "k < length (tx_outs tx)" "off = int (out_starts tx ! k)"
      and s: "payment_script ty h = Some script" "length h = hash_len_of ty"
      and v: "0 < v" "v < 2 ^ 63" "sats \<le> int v" "tx_outs tx ! k = (le_bytes 8 v, script, [])" by blast
    from s obtain prefix suffix where pat: "SCRIPT_PATTERNS ty = Some (prefix, suffix)" "script = prefix @ h @ suffix"
      by (auto simp: payment_script_def)
    have "length script < 253" using output_type_cases [OF pat(1)] s pat(2) by simp
    then have "enc_field (tx_outs tx ! k) = le_bytes 8 v @ word_of_nat (length script) # script"
      by (simp add: v(4) enc_field_def varint_single del: le_bytes.simps)
    with nth [OF k(1)] obtain q where "stands_at s (out_starts tx ! k) (le_bytes 8 v @ word_of_nat (length script) # script) q"
      by auto
    with k s v have "verify_payment s off h ty sats = Ok ()"
      unfolding verify_payment_stands [OF pat(1)] pat(2) by auto
    with k show ?L by (simp add: p2)
  qed
qed

section \<open>The whole proof\<close>

text \<open>
  What a proof establishes: a transaction whose stripped serialization is longer than 64 bytes,
  hashes to the claimed identifier, does not spend the null outpoint and has short input
  scripts; a chain of headers with valid work off the covenant's anchor; a branch of the
  committed depth from the transaction to the root of one of these headers, the one at the
  claimed height when a height is given; and a genuine output that pays the covenant's hash
  at least the committed amount.
\<close>

definition spv_established ::
  "covenant_params \<Rightarrow> string \<Rightarrow> btc_tx \<Rightarrow> bytes list \<Rightarrow> bytes \<Rightarrow> int \<Rightarrow> int \<Rightarrow> int option \<Rightarrow> bool"
where
  "spv_established params txid_be tx headers branch pos off height \<longleftrightarrow>
     wf_btc_tx tx \<and> 64 < length (ser_legacy tx) \<and> length txid_be = 64
     \<and> fromhex txid_be = Ok (rev (hash256 (ser_legacy tx)))
     \<and> \<not> spends_coinbase tx \<and> list_all (\<lambda>x. length (fst (snd x)) \<le> 127) (tx_ins tx)
     \<and> length (chain_anchor params) = 32
     \<and> opt_all (\<lambda>x. length x = 4) (expected_nbits params) \<and> opt_all (\<lambda>x. length x = 4) (expected_nbits_next params)
     \<and> header_chain_valid (Some (chain_anchor params))
          (allowed_nbits (expected_nbits params) (expected_nbits_next params)) headers
     \<and> length branch mod 33 = 0 \<and> int (length branch div 33) = merkle_depth params
     \<and> 0 < pos \<and> pos < 2 ^ (length branch div 33)
     \<and> (\<exists>i < length headers. opt_all (\<lambda>h. h = anchor_height params + 1 + int i) height
          \<and> foldl walk_step (hash256 (ser_legacy tx)) (branch_entries branch) = pyslice 36 68 (headers ! i))
     \<and> (\<exists>k script v. k < length (tx_outs tx) \<and> off = int (out_starts tx ! k)
          \<and> payment_script (btc_receive_type params) (btc_receive_hash params) = Some script
          \<and> length (btc_receive_hash params) = hash_len_of (btc_receive_type params)
          \<and> 0 < v \<and> v < 2 ^ 63 \<and> btc_satoshis params \<le> int v
          \<and> tx_outs tx ! k = (le_bytes 8 v, script, []))"

lemma find_header_iff:
  assumes "list_all (\<lambda>h. length h = 80) headers"
  shows "(\<exists>h. find_header root headers = Ok (Some h)) \<longleftrightarrow> (\<exists>h \<in> set headers. pyslice 36 68 h = root)"
    and "find_header root headers = Ok (Some h) \<Longrightarrow> h \<in> set headers \<and> pyslice 36 68 h = root"
proof -
  show "find_header root headers = Ok (Some h) \<Longrightarrow> h \<in> set headers \<and> pyslice 36 68 h = root" for h
    using assms by (induction headers) (auto simp: extract_merkle_root_def split: if_splits)
  show "(\<exists>h. find_header root headers = Ok (Some h)) \<longleftrightarrow> (\<exists>h \<in> set headers. pyslice 36 68 h = root)"
    using assms by (induction headers) (auto simp: extract_merkle_root_def)
qed

lemma match_header_iff:
  assumes "list_all (\<lambda>h. length h = 80) headers"
  shows "(\<exists>h. match_header params headers root height = Ok h) \<longleftrightarrow>
     (\<exists>i < length headers. opt_all (\<lambda>h. h = anchor_height params + 1 + int i) height
        \<and> root = pyslice 36 68 (headers ! i))" (is ?A)
    and "match_header params headers root height = Ok h \<Longrightarrow> length h = 80 \<and> root = pyslice 36 68 h"
proof -
  show ?A
  proof (cases height)
    case None
    have "match_header params headers root height = Ok h \<longleftrightarrow> find_header root headers = Ok (Some h)" for h
      by (cases "find_header root headers") (auto simp: match_header_def None split: option.splits)
    then show ?thesis
      using find_header_iff(1) [OF assms] by (auto simp: None in_set_conv_nth Bex_def)
  next
    case (Some ht)
    have *: "(\<exists>i < length headers. ht = anchor_height params + 1 + int i \<and> Q i) \<longleftrightarrow>
        0 \<le> ht - anchor_height params - 1 \<and> ht - anchor_height params - 1 < int (length headers)
        \<and> Q (nat (ht - anchor_height params - 1))" for Q
      by (auto intro!: exI [of _ "nat (ht - anchor_height params - 1)"] simp: nat_less_iff)
    have len: "i < length headers \<Longrightarrow> length (headers ! i) = 80" for i
      using assms by (simp add: list_all_length)
    show ?thesis
      unfolding Some opt_all_simps *
      by (auto simp: match_header_def Some Let_def py_simps extract_merkle_root_def len nat_less_iff)
  qed
  show "match_header params headers root height = Ok h \<Longrightarrow> length h = 80 \<and> root = pyslice 36 68 h"
    using find_header_iff(2) [OF assms] assms
    by (cases height) (auto simp: match_header_def Let_def py_simps extract_merkle_root_def list_all_iff
        split: option.splits if_splits)
qed

lemma build_flat:
  "build params txid_be raw_tx_hex headers_hex merkle_be pos off height = Ok pf \<longleftrightarrow>
     (\<exists>raw s headers branch.
        0 < pos \<and> fromhex raw_tx_hex = Ok raw \<and> strip_witness raw = Ok s \<and> 64 < length s
        \<and> fromhex txid_be = Ok (rev (hash256 s)) \<and> \<not> first_input_is_null_outpoint s
        \<and> (\<exists>n. longest_scriptsig s = Ok n \<and> n \<le> 127)
        \<and> map_r fromhex headers_hex = Ok headers
        \<and> (\<exists>out. verify_chain headers (Some (chain_anchor params)) (expected_nbits params)
                     (expected_nbits_next params) = Ok out)
        \<and> build_branch merkle_be pos = Ok branch
        \<and> (\<exists>root h. compute_root txid_be branch = Ok root \<and> match_header params headers root height = Ok h
              \<and> verify_tx_in_block s txid_be branch pos h (Some (merkle_depth params)) = Ok ())
        \<and> (\<exists>offs. output_offsets s = Ok offs \<and> 0 \<le> off \<and> nat off \<in> offs
              \<and> verify_payment s off (btc_receive_hash params) (btc_receive_type params) (btc_satoshis params) = Ok ())
        \<and> pf = \<lparr>proof_txid = txid_be, proof_raw_tx = s, proof_headers = headers,
                proof_branch = branch, proof_pos = pos, proof_output_offset = off, proof_params = params\<rparr>)"
    (is "_ \<longleftrightarrow> ?R")
proof -
  have *: "hash256 s = rev c \<longleftrightarrow> c = rev (hash256 s)" for s c by auto
  have "build params txid_be raw_tx_hex headers_hex merkle_be pos off height = Ok pf \<longleftrightarrow>
     pos \<noteq> 0 \<and> \<not> pos < 0 \<and>
     (\<exists>raw. fromhex raw_tx_hex = Ok raw \<and> (\<exists>s. strip_witness raw = Ok s \<and> \<not> length s \<le> 64
      \<and> (\<exists>c. fromhex txid_be = Ok c \<and> hash256 s = rev c \<and> \<not> first_input_is_null_outpoint s
      \<and> (\<exists>n. longest_scriptsig s = Ok n \<and> \<not> n > COVENANT_MAX_INPUT_SCRIPTSIG_LEN
      \<and> (\<exists>headers. map_r fromhex headers_hex = Ok headers
      \<and> (\<exists>out. verify_chain headers (Some (chain_anchor params)) (expected_nbits params) (expected_nbits_next params) = Ok out
      \<and> (\<exists>branch. build_branch merkle_be pos = Ok branch
      \<and> (\<exists>root. compute_root txid_be branch = Ok root
      \<and> (\<exists>h. match_header params headers root height = Ok h
      \<and> (\<exists>u. verify_tx_in_block s txid_be branch pos h (Some (merkle_depth params)) = Ok u
      \<and> (\<exists>offs. output_offsets s = Ok offs \<and> 0 \<le> off \<and> nat off \<in> offs
      \<and> (\<exists>u. verify_payment s off (btc_receive_hash params) (btc_receive_type params) (btc_satoshis params) = Ok u
      \<and> pf = \<lparr>proof_txid = txid_be, proof_raw_tx = s, proof_headers = headers,
                proof_branch = branch, proof_pos = pos, proof_output_offset = off, proof_params = params\<rparr>))))))))))))"
    unfolding build_def if_Err_Ok_iff bind_r_Ok_iff not_not sum.inject conj_assoc
    by (subst eq_commute [of _ pf]) (rule refl)
  also have "\<dots> \<longleftrightarrow> ?R"
    unfolding * COVENANT_MAX_INPUT_SCRIPTSIG_LEN_def not_le not_less by auto
  finally show ?thesis .
qed

lemma chain_valid_lengths:
  "header_chain_valid anchor allowed headers \<Longrightarrow> list_all (\<lambda>h. length h = 80) headers"
  by (auto simp: header_chain_valid_def list_all_iff header_pow_valid_def)

lemma inclusion_iff:
  assumes "header_chain_valid anchor allowed headers" "fromhex txid_be = Ok (rev (hash256 s))" "0 < pos" "64 < length s"
  shows "(\<exists>root h. compute_root txid_be branch = Ok root \<and> match_header params headers root height = Ok h
        \<and> verify_tx_in_block s txid_be branch pos h (Some depth) = Ok ()) \<longleftrightarrow>
     length txid_be = 64 \<and> length branch mod 33 = 0 \<and> int (length branch div 33) = depth
     \<and> pos < 2 ^ (length branch div 33)
     \<and> (\<exists>i < length headers. opt_all (\<lambda>h. h = anchor_height params + 1 + int i) height
          \<and> foldl walk_step (hash256 s) (branch_entries branch) = pyslice 36 68 (headers ! i))" (is "?L \<longleftrightarrow> ?R")
proof
  note len = chain_valid_lengths [OF assms(1)]
  let ?root = "foldl walk_step (hash256 s) (branch_entries branch)"
  have root: "compute_root txid_be branch = Ok r \<longleftrightarrow> length branch mod 33 = 0 \<and> length txid_be = 64 \<and> r = ?root" for r
    by (auto simp: compute_root_eq assms(2))
  show ?L if ?R
  proof -
    from that match_header_iff(1) [OF len, of params ?root height] obtain h
      where h: "match_header params headers ?root height = Ok h" by blast
    with match_header_iff(2) [OF len h] that assms show ?L
      by (auto simp: root verify_tx_in_block_iff)
  qed
  show ?R if ?L
  proof -
    from that obtain h where h: "match_header params headers ?root height = Ok h"
      "verify_tx_in_block s txid_be branch pos h (Some depth) = Ok ()" by (auto simp: root)
    with match_header_iff(1) [OF len, of params ?root height] show ?R
      by (auto simp: verify_tx_in_block_iff)
  qed
qed

section \<open>Properties\<close>

text \<open>
  The structural walk of the proof builder finds exactly the output boundaries. \<open>_output_offsets\<close>
  succeeds on a byte string if and only if the string is the legacy serialization of a
  transaction, and then returns the set of positions at which that transaction's outputs start.
\<close>

theorem output_offsets_correct:
  "output_offsets s = Ok offs \<longleftrightarrow> (\<exists>tx. wf_btc_tx tx \<and> s = ser_legacy tx \<and> offs = set (out_starts tx))"
  by (rule output_offsets_iff)

text \<open>
  C7: \<open>SpvProofBuilder.build\<close> returns a proof exactly when everything a proof is meant to
  establish holds of a transaction whose legacy serialization is the stripped input: identity
  with the claimed identifier, valid work on a chain of headers off the covenant's anchor,
  Merkle inclusion at the committed depth in a header of that chain (the one at the claimed
  height when given), no coinbase, and a genuine output that pays the covenant's hash at least
  the committed amount. The proof records exactly the verified data.
\<close>

theorem build_correct:
  "build params txid_be raw_tx_hex headers_hex merkle_be pos off height = Ok pf \<longleftrightarrow>
     (\<exists>raw tx headers branch.
        fromhex raw_tx_hex = Ok raw \<and> strip_witness raw = Ok (ser_legacy tx)
        \<and> map_r fromhex headers_hex = Ok headers \<and> build_branch merkle_be pos = Ok branch
        \<and> spv_established params txid_be tx headers branch pos off height
        \<and> pf = \<lparr>proof_txid = txid_be, proof_raw_tx = ser_legacy tx, proof_headers = headers,
                proof_branch = branch, proof_pos = pos, proof_output_offset = off, proof_params = params\<rparr>)"
proof -
  have chain: "(\<exists>out. verify_chain headers (Some (chain_anchor params)) (expected_nbits params)
      (expected_nbits_next params) = Ok out) \<longleftrightarrow>
      length (chain_anchor params) = 32 \<and> opt_all (\<lambda>x. length x = 4) (expected_nbits params)
      \<and> opt_all (\<lambda>x. length x = 4) (expected_nbits_next params)
      \<and> header_chain_valid (Some (chain_anchor params))
          (allowed_nbits (expected_nbits params) (expected_nbits_next params)) headers" for headers
    by (simp add: verify_chain_iff)
  show ?thesis (is "?L \<longleftrightarrow> ?R")
  proof
    assume ?L
    then obtain raw s headers branch offs where f: "0 < pos" "64 < length s"
        "fromhex txid_be = Ok (rev (hash256 s))" "\<not> first_input_is_null_outpoint s"
        "\<exists>n. longest_scriptsig s = Ok n \<and> n \<le> 127"
        "length (chain_anchor params) = 32 \<and> opt_all (\<lambda>x. length x = 4) (expected_nbits params)
         \<and> opt_all (\<lambda>x. length x = 4) (expected_nbits_next params)"
        "header_chain_valid (Some (chain_anchor params))
          (allowed_nbits (expected_nbits params) (expected_nbits_next params)) headers"
      and inc: "\<exists>root h. compute_root txid_be branch = Ok root \<and> match_header params headers root height = Ok h
              \<and> verify_tx_in_block s txid_be branch pos h (Some (merkle_depth params)) = Ok ()"
      and offs: "output_offsets s = Ok offs"
      and pay: "0 \<le> off \<and> nat off \<in> offs \<and> verify_payment s off (btc_receive_hash params)
              (btc_receive_type params) (btc_satoshis params) = Ok ()"
      and rest: "fromhex raw_tx_hex = Ok raw" "strip_witness raw = Ok s" "map_r fromhex headers_hex = Ok headers"
        "build_branch merkle_be pos = Ok branch"
        "pf = \<lparr>proof_txid = txid_be, proof_raw_tx = s, proof_headers = headers,
                proof_branch = branch, proof_pos = pos, proof_output_offset = off, proof_params = params\<rparr>"
      unfolding build_flat chain by blast
    from offs obtain tx where tx: "wf_btc_tx tx" "s = ser_legacy tx" "offs = set (out_starts tx)"
      by (auto simp: output_offsets_iff)
    have "spv_established params txid_be tx headers branch pos off height"
      unfolding spv_established_def tx(2) [symmetric]
      using f tx(1) inclusion_iff [OF f(7,3,1,2), THEN iffD1, OF inc]
        payment_at_output [OF tx(1,2), THEN iffD1, OF pay [unfolded tx(3)]]
        first_input_null_iff [OF tx(1,2)] longest_scriptsig_le [OF tx(1,2), of 127] by blast
    with rest tx(2) show ?R by blast
  next
    assume ?R
    then obtain raw tx headers branch where rest: "fromhex raw_tx_hex = Ok raw"
        "strip_witness raw = Ok (ser_legacy tx)" "map_r fromhex headers_hex = Ok headers"
        "build_branch merkle_be pos = Ok branch"
        "pf = \<lparr>proof_txid = txid_be, proof_raw_tx = ser_legacy tx, proof_headers = headers,
                proof_branch = branch, proof_pos = pos, proof_output_offset = off, proof_params = params\<rparr>"
      and est: "spv_established params txid_be tx headers branch pos off height" by blast
    note e = est [unfolded spv_established_def]
    from e have tx: "wf_btc_tx tx" "ser_legacy tx = ser_legacy tx"
      and h: "header_chain_valid (Some (chain_anchor params))
          (allowed_nbits (expected_nbits params) (expected_nbits_next params)) headers"
        "fromhex txid_be = Ok (rev (hash256 (ser_legacy tx)))" "0 < pos" "64 < length (ser_legacy tx)" by blast+
    have inc: "\<exists>root h. compute_root txid_be branch = Ok root \<and> match_header params headers root height = Ok h
        \<and> verify_tx_in_block (ser_legacy tx) txid_be branch pos h (Some (merkle_depth params)) = Ok ()"
      unfolding inclusion_iff [OF h] using e by blast
    have "output_offsets (ser_legacy tx) = Ok (set (out_starts tx))"
      using tx by (auto simp: output_offsets_iff)
    moreover have "off \<ge> 0 \<and> nat off \<in> set (out_starts tx) \<and> verify_payment (ser_legacy tx) off
        (btc_receive_hash params) (btc_receive_type params) (btc_satoshis params) = Ok ()"
      unfolding payment_at_output [OF tx] using e by blast
    moreover have "\<not> first_input_is_null_outpoint (ser_legacy tx)"
      "\<exists>n. longest_scriptsig (ser_legacy tx) = Ok n \<and> n \<le> 127"
      using e first_input_null_iff [OF tx] longest_scriptsig_le [OF tx, of 127] by blast+
    ultimately show ?L unfolding build_flat chain using rest h inc e by blast
  qed
qed

end
