(* ===== verification/Timelock.thy ===== *)
theory Timelock
  imports Prelude
begin

unbundle bit_operations_syntax

text \<open>
  Unit-tagged relative timelocks (\<open>Timelock\<close> of \<open>pyrxd/btc_wallet/taproot.py\<close>) and the
  bridge from Ethereum's absolute deadline to Radiant's relative window
  (\<open>pyrxd/gravity/eth_rxd_timelock.py\<close>). Block intervals are whole seconds; on them
  the code's floating-point quotients, floors and ceilings are those of the integers, for
  which \<open>div\<close> is the floor and \<open>ceil_div\<close> the ceiling.
\<close>

section \<open>Rounding\<close>

definition ceil_div :: "int \<Rightarrow> int \<Rightarrow> int" where
  "ceil_div a b = - ((- a) div b)"

lemma le_div_iff: "0 < b \<Longrightarrow> k \<le> a div b \<longleftrightarrow> k * b \<le> (a :: int)"
proof
  assume b: "0 < b"
  have split: "a div b * b + a mod b = a" "0 \<le> a mod b" "a mod b < b" using b by simp_all
  show "k * b \<le> a" if "k \<le> a div b"
    using mult_right_mono [OF that, of b] b split by linarith
  show "k \<le> a div b" if "k * b \<le> a"
  proof (rule ccontr)
    assume "\<not> k \<le> a div b"
    then have "a div b + 1 \<le> k" by simp
    then have "(a div b + 1) * b \<le> k * b" using b by (intro mult_right_mono) auto
    then have "a div b * b + b \<le> k * b" by (simp add: distrib_right)
    with that split show False by linarith
  qed
qed

lemma ceil_div_le_iff: "0 < b \<Longrightarrow> ceil_div a b \<le> k \<longleftrightarrow> a \<le> k * b"
  using le_div_iff [of b "- k" "- a"] by (auto simp: ceil_div_def)

lemma ceil_div_of_multiple [simp]: "b \<noteq> 0 \<Longrightarrow> ceil_div (k * b) b = k"
  by (simp add: ceil_div_def flip: mult_minus_left)

lemma ceil_div_floor: "0 < b \<Longrightarrow> ceil_div a b = a div b + (if a mod b = 0 then 0 else 1)"
  by (simp add: ceil_div_def zdiv_zminus1_eq_if)

lemma floor_le_ceil_div: "0 < b \<Longrightarrow> a div b \<le> ceil_div a b"
  by (simp add: ceil_div_floor)

section \<open>Timelocks\<close>

datatype time_unit = BLOCKS | SECONDS

record timelock =
  tl_value :: int
  tl_unit :: time_unit

definition SEQUENCE_LOCKTIME_TYPE_FLAG :: int where "SEQUENCE_LOCKTIME_TYPE_FLAG = push_bit 22 1"
definition SEQUENCE_LOCKTIME_MASK :: int where "SEQUENCE_LOCKTIME_MASK = 0x0000FFFF"
definition SECONDS_GRANULARITY :: int where "SECONDS_GRANULARITY = 512"

lemmas bip68_consts = SEQUENCE_LOCKTIME_TYPE_FLAG_def SEQUENCE_LOCKTIME_MASK_def SECONDS_GRANULARITY_def

definition Timelock :: "int \<Rightarrow> time_unit \<Rightarrow> timelock result" where
  "Timelock v u =
     (if v < 0 then Err ValidationError
      else if u = BLOCKS \<and> v > SEQUENCE_LOCKTIME_MASK then Err ValidationError
      else if u = SECONDS \<and> v div SECONDS_GRANULARITY > SEQUENCE_LOCKTIME_MASK then Err ValidationError
      else Ok \<lparr>tl_value = v, tl_unit = u\<rparr>)"

definition to_nsequence :: "timelock \<Rightarrow> int" where
  "to_nsequence lock =
     (if tl_unit lock = BLOCKS then tl_value lock AND SEQUENCE_LOCKTIME_MASK
      else let units = tl_value lock div SECONDS_GRANULARITY
           in SEQUENCE_LOCKTIME_TYPE_FLAG OR (units AND SEQUENCE_LOCKTIME_MASK))"

definition csv_script_operand :: "timelock \<Rightarrow> int" where
  "csv_script_operand lock = to_nsequence lock"

definition normalize_to :: "timelock \<Rightarrow> time_unit \<Rightarrow> int \<Rightarrow> timelock result" where
  "normalize_to lock u block_interval_s =
     (if block_interval_s \<le> 0 then Err ValidationError
      else if u = tl_unit lock then Ok lock
      else if tl_unit lock = BLOCKS \<and> u = SECONDS then Timelock (tl_value lock * block_interval_s) SECONDS
      else Timelock (tl_value lock div block_interval_s) BLOCKS)"

definition wf_timelock :: "timelock \<Rightarrow> bool" where
  "wf_timelock lock \<longleftrightarrow> 0 \<le> tl_value lock
     \<and> (if tl_unit lock = BLOCKS then tl_value lock < 2 ^ 16 else tl_value lock < 512 * 2 ^ 16)"

lemma Timelock_Ok_iff: "Timelock v u = Ok lock \<longleftrightarrow> lock = \<lparr>tl_value = v, tl_unit = u\<rparr> \<and> wf_timelock lock"
  by (cases u) (auto simp: Timelock_def wf_timelock_def bip68_consts)

lemma Timelock_wf: "Timelock v u = Ok lock \<Longrightarrow> wf_timelock lock"
  unfolding Timelock_Ok_iff by blast

lemma Timelock_self: "wf_timelock lock \<Longrightarrow> Timelock (tl_value lock) (tl_unit lock) = Ok lock"
  by (simp add: Timelock_Ok_iff)

lemma normalize_to_wf: "wf_timelock lock \<Longrightarrow> normalize_to lock u b = Ok lock' \<Longrightarrow> wf_timelock lock' \<and> tl_unit lock' = u"
  by (cases u; cases "tl_unit lock") (auto simp: normalize_to_def Timelock_Ok_iff split: if_splits)

lemma nsequence_low: "0 \<le> v \<Longrightarrow> v < 2 ^ 16 \<Longrightarrow> v AND SEQUENCE_LOCKTIME_MASK = v" for v :: int
proof -
  assume v: "0 \<le> v" "v < 2 ^ 16"
  have "SEQUENCE_LOCKTIME_MASK = mask 16" by (simp add: SEQUENCE_LOCKTIME_MASK_def mask_eq_exp_minus_1)
  then have "v AND SEQUENCE_LOCKTIME_MASK = take_bit 16 v" by (simp add: take_bit_eq_mask)
  with v show ?thesis by (simp add: take_bit_int_eq_self)
qed

lemma nsequence_flag: "0 \<le> v \<Longrightarrow> v < 2 ^ 16 \<Longrightarrow> SEQUENCE_LOCKTIME_TYPE_FLAG OR v = 2 ^ 22 + v" for v :: int
proof -
  assume v: "0 \<le> v" "v < 2 ^ 16"
  have "push_bit k (1 :: int) AND v = 0" if "16 \<le> k" for k
  proof (rule bit_eqI)
    fix n
    have "bit v n \<Longrightarrow> n < 16" using v by (metis bit_take_bit_iff take_bit_int_eq_self)
    with that show "bit (push_bit k 1 AND v) n \<longleftrightarrow> bit 0 n" by (auto simp: bit_and_iff bit_exp_iff)
  qed
  from this [of 22] have "push_bit 22 (1 :: int) AND v = 0" by simp
  then have "push_bit 22 1 + v = push_bit 22 1 OR v" by (rule disjunctive_add_eq_or)
  then show ?thesis by (simp add: SEQUENCE_LOCKTIME_TYPE_FLAG_def push_bit_eq_mult)
qed

lemma to_nsequence_eq:
  "wf_timelock lock \<Longrightarrow> to_nsequence lock =
     (if tl_unit lock = BLOCKS then tl_value lock else 2 ^ 22 + tl_value lock div 512)"
proof -
  assume "wf_timelock lock"
  moreover from this have "tl_unit lock \<noteq> BLOCKS \<Longrightarrow> 0 \<le> tl_value lock div 512 \<and> tl_value lock div 512 < 2 ^ 16"
    by (auto simp: wf_timelock_def split: if_splits)
  ultimately show ?thesis
    by (auto simp: to_nsequence_def Let_def nsequence_low nsequence_flag SECONDS_GRANULARITY_def
        wf_timelock_def split: if_splits)
qed

section \<open>Ethereum deadline and Radiant window\<close>

record cross_clock_margin =
  eth_reorg_finality_s :: int
  rxd_claim_burial_s :: int
  rxd_confirm_slack_s :: int
  rounding_slack_s :: int
  eth_finality_stall_tolerance_s :: int

definition CrossClockMargin :: "cross_clock_margin \<Rightarrow> cross_clock_margin result" where
  "CrossClockMargin m =
     (if eth_reorg_finality_s m < 0 \<or> rxd_claim_burial_s m < 0 \<or> rxd_confirm_slack_s m < 0
         \<or> rounding_slack_s m < 0 \<or> eth_finality_stall_tolerance_s m < 0
      then Err ValidationError else Ok m)"

definition total_s :: "cross_clock_margin \<Rightarrow> int" where
  "total_s m = eth_reorg_finality_s m + rxd_claim_burial_s m + rxd_confirm_slack_s m
     + rounding_slack_s m + eth_finality_stall_tolerance_s m"

definition MAX_RXD_CSV_BLOCKS :: int where "MAX_RXD_CSV_BLOCKS = 0xFFFF"

definition eth_absolute_to_rxd_relative_blocks ::
  "int \<Rightarrow> int \<Rightarrow> cross_clock_margin \<Rightarrow> int \<Rightarrow> int \<Rightarrow> timelock result"
where
  "eth_absolute_to_rxd_relative_blocks eth_timeout rxd_lock_time margin rxd_block_interval_s floor_blocks =
     (if floor_blocks < 1 then Err ValidationError
      else if rxd_block_interval_s \<le> 0 then Err ValidationError
      else let budget_s = eth_timeout - total_s margin - rxd_lock_time in
        if budget_s \<le> 0 then Err ValidationError
        else let t_rxd_blocks = budget_s div rxd_block_interval_s in
          if t_rxd_blocks < floor_blocks then Err ValidationError
          else if t_rxd_blocks > MAX_RXD_CSV_BLOCKS then Err ValidationError
          else Timelock t_rxd_blocks BLOCKS)"

definition assert_covenant_confirms_before_eth_deadline ::
  "int \<Rightarrow> int \<Rightarrow> cross_clock_margin \<Rightarrow> timelock \<Rightarrow> int \<Rightarrow> int \<Rightarrow> unit result"
where
  "assert_covenant_confirms_before_eth_deadline now eth_timeout margin t_rxd rxd_block_interval_s wait_s =
     (if tl_unit t_rxd \<noteq> BLOCKS then Err ValidationError
      else if rxd_block_interval_s \<le> 0 then Err ValidationError
      else if wait_s < 0 then Err ValidationError
      else let deadline_s = eth_timeout - total_s margin;
               projected_rxd_open_s = now + wait_s + tl_value t_rxd * rxd_block_interval_s
        in if projected_rxd_open_s \<ge> deadline_s then Err ValidationError else Ok ())"

section \<open>Properties\<close>

text \<open>
  The BIP68 encoding is exact. A constructible timelock of \<open>n\<close> blocks encodes to the
  sequence number \<open>n\<close>; one of \<open>n\<close> seconds to the type flag plus \<open>n div 512\<close>; the two ranges are
  disjoint, so a block lock is never read as a time lock, and the value always fits the 32-bit
  sequence field with the disable bit clear.
\<close>

theorem to_nsequence_correct:
  assumes "Timelock v u = Ok lock"
  shows "to_nsequence lock = (if u = BLOCKS then v else 2 ^ 22 + v div 512)
     \<and> (u = BLOCKS \<longleftrightarrow> to_nsequence lock < 2 ^ 22) \<and> 0 \<le> to_nsequence lock \<and> to_nsequence lock < 2 ^ 31"
proof -
  from assms have lock: "lock = \<lparr>tl_value = v, tl_unit = u\<rparr>" "wf_timelock lock" by (auto simp: Timelock_Ok_iff)
  then have v: "0 \<le> v" "u = BLOCKS \<Longrightarrow> v < 2 ^ 16" "u \<noteq> BLOCKS \<Longrightarrow> v < 512 * 2 ^ 16"
    by (auto simp: wf_timelock_def split: if_splits)
  have "u \<noteq> BLOCKS \<Longrightarrow> 0 \<le> v div 512 \<and> v div 512 < 2 ^ 16" using v by auto
  with to_nsequence_eq [OF lock(2)] v show ?thesis by (auto simp: lock(1))
qed

theorem to_nsequence_correct_witness:
  "Timelock 1024 SECONDS = Ok \<lparr>tl_value = 1024, tl_unit = SECONDS\<rparr>
   \<and> to_nsequence \<lparr>tl_value = 1024, tl_unit = SECONDS\<rparr> = 2 ^ 22 + 2"
proof -
  have ok: "Timelock 1024 SECONDS = Ok \<lparr>tl_value = 1024, tl_unit = SECONDS\<rparr>"
    by (simp add: Timelock_def bip68_consts)
  from to_nsequence_correct [OF ok] ok show ?thesis by simp
qed

text \<open>
  Sizing the Radiant window from the Ethereum deadline is the largest safe choice. When the
  conversion succeeds with \<open>n\<close> blocks, the refund opens no later than the deadline minus the
  whole margin, one block more would open past it, and the window respects the floor and the
  16-bit cap.
\<close>

theorem eth_window_maximal:
  assumes "eth_absolute_to_rxd_relative_blocks eth_timeout lock_time margin interval floor_blocks = Ok lock"
  shows "tl_unit lock = BLOCKS \<and> floor_blocks \<le> tl_value lock \<and> tl_value lock < 2 ^ 16
     \<and> lock_time + tl_value lock * interval \<le> eth_timeout - total_s margin
     \<and> eth_timeout - total_s margin < lock_time + (tl_value lock + 1) * interval"
proof -
  let ?b = "eth_timeout - total_s margin - lock_time"
  from assms have i: "0 < interval" and lock: "tl_unit lock = BLOCKS" "tl_value lock = ?b div interval"
    "floor_blocks \<le> ?b div interval" "?b div interval \<le> 0xFFFF"
    by (auto simp: eth_absolute_to_rxd_relative_blocks_def Let_def Timelock_Ok_iff MAX_RXD_CSV_BLOCKS_def
        split: if_splits)
  have "tl_value lock * interval \<le> ?b" using le_div_iff [OF i, of "tl_value lock" ?b] lock by simp
  moreover have "\<not> (tl_value lock + 1) * interval \<le> ?b"
    using le_div_iff [OF i, of "tl_value lock + 1" ?b] lock by simp
  ultimately show ?thesis using lock by auto
qed

theorem eth_window_maximal_witness:
  "let m = \<lparr>eth_reorg_finality_s = 768, rxd_claim_burial_s = 1800, rxd_confirm_slack_s = 600,
            rounding_slack_s = 300, eth_finality_stall_tolerance_s = 3600\<rparr>;
       lock = \<lparr>tl_value = 309, tl_unit = BLOCKS\<rparr>
   in eth_absolute_to_rxd_relative_blocks 100000 100 m 300 12 = Ok lock
      \<and> 100 + tl_value lock * 300 \<le> 100000 - total_s m \<and> 100000 - total_s m < 100 + (tl_value lock + 1) * 300"
proof -
  define m where "m = \<lparr>eth_reorg_finality_s = 768, rxd_claim_burial_s = 1800, rxd_confirm_slack_s = 600,
            rounding_slack_s = 300, eth_finality_stall_tolerance_s = 3600\<rparr>"
  have ok: "eth_absolute_to_rxd_relative_blocks 100000 100 m 300 12 = Ok \<lparr>tl_value = 309, tl_unit = BLOCKS\<rparr>"
    by (simp add: eth_absolute_to_rxd_relative_blocks_def total_s_def m_def Timelock_def bip68_consts
        MAX_RXD_CSV_BLOCKS_def)
  from eth_window_maximal [OF ok] ok show ?thesis unfolding Let_def m_def [symmetric] by simp
qed

text \<open>
  The converter promises a window that opens strictly before the deadline minus the margin,
  but its result is accepted by the funding gate, run at the very lock time it was computed for,
  exactly when the budget is not a whole number of blocks: on a whole number the converter
  returns a window that opens at the deadline, which the gate refuses.
\<close>

theorem eth_window_gate_agreement:
  assumes "eth_absolute_to_rxd_relative_blocks eth_timeout lock_time margin interval floor_blocks = Ok lock"
  shows "assert_covenant_confirms_before_eth_deadline lock_time eth_timeout margin lock interval 0 = Ok ()
     \<longleftrightarrow> (eth_timeout - total_s margin - lock_time) mod interval \<noteq> 0"
proof -
  let ?b = "eth_timeout - total_s margin - lock_time"
  from assms have i: "0 < interval" and lock: "tl_unit lock = BLOCKS" "tl_value lock = ?b div interval"
    by (auto simp: eth_absolute_to_rxd_relative_blocks_def Let_def Timelock_Ok_iff split: if_splits)
  have "?b = tl_value lock * interval + ?b mod interval" "0 \<le> ?b mod interval" using i lock by simp_all
  then have "eth_timeout - total_s margin \<le> lock_time + tl_value lock * interval \<longleftrightarrow> ?b mod interval = 0" by linarith
  with i lock(1) show ?thesis by (simp add: assert_covenant_confirms_before_eth_deadline_def Let_def)
qed

theorem eth_window_gate_agreement_witness:
  "let m = \<lparr>eth_reorg_finality_s = 768, rxd_claim_burial_s = 1800, rxd_confirm_slack_s = 600,
            rounding_slack_s = 300, eth_finality_stall_tolerance_s = 3600\<rparr>;
       lock = \<lparr>tl_value = 309, tl_unit = BLOCKS\<rparr>
   in eth_absolute_to_rxd_relative_blocks (7068 + 100 + 309 * 300) 100 m 300 12 = Ok lock
      \<and> assert_covenant_confirms_before_eth_deadline 100 (7068 + 100 + 309 * 300) m lock 300 0 \<noteq> Ok ()"
proof -
  define m where "m = \<lparr>eth_reorg_finality_s = 768, rxd_claim_burial_s = 1800, rxd_confirm_slack_s = 600,
            rounding_slack_s = 300, eth_finality_stall_tolerance_s = 3600\<rparr>"
  have ok: "eth_absolute_to_rxd_relative_blocks (7068 + 100 + 309 * 300) 100 m 300 12
      = Ok \<lparr>tl_value = 309, tl_unit = BLOCKS\<rparr>"
    by (simp add: eth_absolute_to_rxd_relative_blocks_def total_s_def m_def Timelock_def bip68_consts
        MAX_RXD_CSV_BLOCKS_def)
  have "(7068 + 100 + 309 * 300 - total_s m - 100) mod 300 = 0" by (simp add: total_s_def m_def)
  with eth_window_gate_agreement [OF ok] ok show ?thesis unfolding Let_def m_def [symmetric] by simp
qed

end
