(* ===== verification/Locator.thy ===== *)
theory Locator
  imports Wire Timelock
begin

unbundle bit_operations_syntax

text \<open>
  The durable handles of a funded counter leg: \<open>BtcOutpoint\<close>, \<open>ScriptTree\<close> and
  \<open>BtcHtlcLocator\<close> of \<open>pyrxd/btc_wallet/taproot.py\<close>, and \<open>EthHtlcLocator\<close> of
  \<open>pyrxd/eth_wallet/locator.py\<close>. A constructor returns the validated value. The dictionaries
  of \<open>to_dict\<close> and \<open>from_dict\<close> are records with the keys and value types of the wire form;
  losing a handle strands funds, so the property is that the wire form is loss-free.
\<close>

section \<open>Bitcoin\<close>

record btc_outpoint =
  op_txid :: string
  op_vout :: int

definition BtcOutpoint :: "string \<Rightarrow> int \<Rightarrow> btc_outpoint result" where
  "BtcOutpoint txid vout =
     (if length txid \<noteq> 64 then Err ValidationError
      else case fromhex txid of
          Inl _ \<Rightarrow> Err ValidationError
        | Inr _ \<Rightarrow> if vout < 0 then Err ValidationError
                   else Ok \<lparr>op_txid = txid, op_vout = vout\<rparr>)"

definition prevout_bytes :: "btc_outpoint \<Rightarrow> bytes result" where
  "prevout_bytes op =
     bind_r (fromhex (op_txid op)) (\<lambda>t. bind_r (pack_u 4 (op_vout op)) (\<lambda>v. Ok (rev t @ v)))"

record script_tree =
  claim_script :: bytes
  refund_script :: bytes
  leaf_version :: int

definition ScriptTree :: "bytes \<Rightarrow> bytes \<Rightarrow> int \<Rightarrow> script_tree result" where
  "ScriptTree cs rs lv =
     (if lv AND 1 \<noteq> 0 then Err ValidationError
      else Ok \<lparr>claim_script = cs, refund_script = rs, leaf_version = lv\<rparr>)"

record btc_locator =
  funding_outpoint :: btc_outpoint
  loc_tree :: script_tree
  control_block_claim :: bytes
  control_block_refund :: bytes
  internal_key :: bytes
  amount_sats :: int
  network :: string

definition BtcHtlcLocator :: "btc_locator \<Rightarrow> btc_locator result" where
  "BtcHtlcLocator l =
     (if length (control_block_claim l) \<noteq> 65 then Err ValidationError
      else if length (control_block_refund l) \<noteq> 65 then Err ValidationError
      else if length (internal_key l) \<noteq> 32 then Err ValidationError
      else if amount_sats l \<le> 0 then Err ValidationError
      else if network l = [] then Err ValidationError
      else Ok l)"

record btc_locator_wire =
  bw_txid :: string
  bw_vout :: int
  bw_claim_script :: string
  bw_refund_script :: string
  bw_leaf_version :: "int option"
  bw_control_block_claim :: string
  bw_control_block_refund :: string
  bw_internal_key :: string
  bw_amount_sats :: int
  bw_network :: "string option"

definition LEAF_VERSION_TAPSCRIPT :: int where "LEAF_VERSION_TAPSCRIPT = 0xC0"

definition btc_locator_to_dict :: "btc_locator \<Rightarrow> btc_locator_wire" where
  "btc_locator_to_dict l =
     \<lparr>bw_txid = op_txid (funding_outpoint l), bw_vout = op_vout (funding_outpoint l),
      bw_claim_script = hex (claim_script (loc_tree l)),
      bw_refund_script = hex (refund_script (loc_tree l)),
      bw_leaf_version = Some (leaf_version (loc_tree l)),
      bw_control_block_claim = hex (control_block_claim l),
      bw_control_block_refund = hex (control_block_refund l),
      bw_internal_key = hex (internal_key l),
      bw_amount_sats = amount_sats l,
      bw_network = Some (network l)\<rparr>"

definition btc_locator_from_dict :: "btc_locator_wire \<Rightarrow> btc_locator result" where
  "btc_locator_from_dict d =
     bind_r (fromhex (bw_claim_script d)) (\<lambda>cs.
     bind_r (fromhex (bw_refund_script d)) (\<lambda>rs.
     bind_r (ScriptTree cs rs (case bw_leaf_version d of None \<Rightarrow> LEAF_VERSION_TAPSCRIPT | Some v \<Rightarrow> v)) (\<lambda>tree.
     bind_r (BtcOutpoint (bw_txid d) (bw_vout d)) (\<lambda>op.
     bind_r (fromhex (bw_control_block_claim d)) (\<lambda>cbc.
     bind_r (fromhex (bw_control_block_refund d)) (\<lambda>cbr.
     bind_r (fromhex (bw_internal_key d)) (\<lambda>ik.
       BtcHtlcLocator
         \<lparr>funding_outpoint = op, loc_tree = tree, control_block_claim = cbc,
          control_block_refund = cbr, internal_key = ik, amount_sats = bw_amount_sats d,
          network = (case bw_network d of None \<Rightarrow> ''bc'' | Some n \<Rightarrow> n)\<rparr>)))))))"

definition wf_btc_locator :: "btc_locator \<Rightarrow> bool" where
  "wf_btc_locator l \<longleftrightarrow>
     BtcOutpoint (op_txid (funding_outpoint l)) (op_vout (funding_outpoint l)) = Ok (funding_outpoint l)
     \<and> ScriptTree (claim_script (loc_tree l)) (refund_script (loc_tree l)) (leaf_version (loc_tree l)) = Ok (loc_tree l)
     \<and> BtcHtlcLocator l = Ok l"

section \<open>Ethereum\<close>

definition check_hex_addr :: "string \<Rightarrow> unit result" where
  "check_hex_addr val =
     (if take 2 val \<noteq> ''0x'' \<or> length val \<noteq> 42 then Err ValidationError
      else case fromhex (drop 2 val) of Inl _ \<Rightarrow> Err ValidationError | Inr _ \<Rightarrow> Ok ())"

record eth_locator =
  chain_id :: int
  contract_address :: string
  deploy_tx_hash :: string
  eth_hashlock :: string
  claimant :: string
  refundee :: string
  eth_timeout :: int
  amount_wei :: int

definition EthHtlcLocator :: "eth_locator \<Rightarrow> eth_locator result" where
  "EthHtlcLocator l =
     (if chain_id l \<le> 0 then Err ValidationError
      else bind_r (check_hex_addr (contract_address l)) (\<lambda>_.
           bind_r (check_hex_addr (claimant l)) (\<lambda>_.
           bind_r (check_hex_addr (refundee l)) (\<lambda>_.
             if take 2 (deploy_tx_hash l) \<noteq> ''0x'' then Err ValidationError
             else if take 2 (eth_hashlock l) \<noteq> ''0x'' \<or> length (eth_hashlock l) \<noteq> 66 then Err ValidationError
             else case fromhex (drop 2 (eth_hashlock l)) of
                 Inl _ \<Rightarrow> Err ValidationError
               | Inr _ \<Rightarrow>
                   if eth_timeout l < 0 \<or> amount_wei l < 0 then Err ValidationError
                   else if amount_wei l = 0 then Err ValidationError
                   else Ok l))))"

text \<open>The wire form has the same eight keys with the same values.\<close>

definition eth_locator_to_dict :: "eth_locator \<Rightarrow> eth_locator" where
  "eth_locator_to_dict l =
     \<lparr>chain_id = chain_id l, contract_address = contract_address l, deploy_tx_hash = deploy_tx_hash l,
      eth_hashlock = eth_hashlock l, claimant = claimant l, refundee = refundee l,
      eth_timeout = eth_timeout l, amount_wei = amount_wei l\<rparr>"

definition eth_locator_from_dict :: "eth_locator \<Rightarrow> eth_locator result" where
  "eth_locator_from_dict d =
     EthHtlcLocator
       \<lparr>chain_id = chain_id d, contract_address = contract_address d, deploy_tx_hash = deploy_tx_hash d,
        eth_hashlock = eth_hashlock d, claimant = claimant d, refundee = refundee d,
        eth_timeout = eth_timeout d, amount_wei = amount_wei d\<rparr>"

lemma eth_locator_roundtrip:
  "EthHtlcLocator l = Ok l \<Longrightarrow> eth_locator_from_dict (eth_locator_to_dict l) = Ok l"
  by (cases l) (simp add: eth_locator_from_dict_def eth_locator_to_dict_def)

section \<open>Either chain\<close>

datatype locator = BtcLoc btc_locator | EthLoc eth_locator

definition wf_locator :: "locator \<Rightarrow> bool" where
  "wf_locator l = (case l of BtcLoc b \<Rightarrow> wf_btc_locator b | EthLoc e \<Rightarrow> EthHtlcLocator e = Ok e)"

lemma btc_locator_roundtrip:
  "wf_btc_locator l \<Longrightarrow> btc_locator_from_dict (btc_locator_to_dict l) = Ok l"
  by (cases l) (simp add: wf_btc_locator_def btc_locator_from_dict_def btc_locator_to_dict_def)

lemma prevout_bytes_length:
  assumes "BtcOutpoint txid vout = Ok op" "prevout_bytes op = Ok b"
  shows "length b \<le> 36"
  using assms fromhex_length [of txid]
  by (auto simp: BtcOutpoint_def prevout_bytes_def py_simps pack_u_def split: if_splits sum.splits)

end
