(* ===== verification/Swap_State.thy ===== *)
theory Swap_State
  imports Locator
begin

text \<open>
  \<open>pyrxd/gravity/swap_state.py\<close>: the states, events and transition table of the atomic swap,
  the negotiated terms and the durable swap record. Arguments have the types their annotations
  declare. The dictionaries of \<open>to_dict\<close> and \<open>from_dict\<close> are records with the keys and value
  types of the wire form, \<open>None\<close> standing for an absent optional key.
\<close>

section \<open>The state machine\<close>

datatype swap_state =
    NEGOTIATED | BTC_LOCKED | BOTH_LOCKED | SECRET_REVEALED | COMPLETED | MUTUAL_REFUND
  | PARAMS_MISMATCH | MAKER_STALLS | ASSET_VULNERABLE | ONE_SIDED_LOSS_TAKER | ABORTED
  | ASSET_REFUNDED_TAKER_ACTS

definition TERMINAL_STATES :: "swap_state set" where
  "TERMINAL_STATES = {COMPLETED, MUTUAL_REFUND, ABORTED, ASSET_REFUNDED_TAKER_ACTS, ONE_SIDED_LOSS_TAKER}"

datatype swap_event =
    TAKER_FUNDS_BTC | TAKER_NEVER_FUNDS | MAKER_LOCKS_ASSET | MAKER_LOCKS_WRONG_PARAMS
  | MAKER_NEVER_LOCKS_BTC_TIMEOUT | TAKER_REFUNDS_BTC | MAKER_CLAIMS_BTC_REVEALS_P
  | MAKER_STALL_DETECTED | TAKER_REFUNDS_ASSET_PROACTIVELY | BOTH_TIMEOUTS_ELAPSE
  | TAKER_SCRAPES_P_CLAIMS_ASSET | TAKER_OFFLINE_OR_PINNED | MAKER_REFUNDS_ASSET_CSV

definition TRANSITION_TABLE :: "(swap_state \<times> swap_event \<times> swap_state) list" where
  "TRANSITION_TABLE =
    [(NEGOTIATED, TAKER_FUNDS_BTC, BTC_LOCKED),
     (NEGOTIATED, TAKER_NEVER_FUNDS, ABORTED),
     (BTC_LOCKED, MAKER_LOCKS_ASSET, BOTH_LOCKED),
     (BTC_LOCKED, MAKER_NEVER_LOCKS_BTC_TIMEOUT, ABORTED),
     (BTC_LOCKED, MAKER_LOCKS_WRONG_PARAMS, PARAMS_MISMATCH),
     (PARAMS_MISMATCH, TAKER_REFUNDS_BTC, ABORTED),
     (BOTH_LOCKED, MAKER_CLAIMS_BTC_REVEALS_P, SECRET_REVEALED),
     (BOTH_LOCKED, MAKER_STALL_DETECTED, MAKER_STALLS),
     (BOTH_LOCKED, BOTH_TIMEOUTS_ELAPSE, MUTUAL_REFUND),
     (MAKER_STALLS, TAKER_REFUNDS_ASSET_PROACTIVELY, ASSET_REFUNDED_TAKER_ACTS),
     (SECRET_REVEALED, TAKER_SCRAPES_P_CLAIMS_ASSET, COMPLETED),
     (SECRET_REVEALED, TAKER_OFFLINE_OR_PINNED, ASSET_VULNERABLE),
     (ASSET_VULNERABLE, MAKER_REFUNDS_ASSET_CSV, ONE_SIDED_LOSS_TAKER),
     (ASSET_VULNERABLE, TAKER_SCRAPES_P_CLAIMS_ASSET, COMPLETED)]"

definition TRANSITIONS :: "(swap_state \<times> swap_state) list" where
  "TRANSITIONS = map (\<lambda>(src, ev, dst). (src, dst)) TRANSITION_TABLE"

definition can_transition :: "swap_state \<Rightarrow> swap_state \<Rightarrow> bool" where
  "can_transition src dst \<longleftrightarrow> (src, dst) \<in> set TRANSITIONS"

definition allowed_targets :: "swap_state \<Rightarrow> swap_state set" where
  "allowed_targets src = set (map snd (filter (\<lambda>(s, dst). s = src) TRANSITIONS))"

definition is_terminal :: "swap_state \<Rightarrow> bool" where
  "is_terminal s \<longleftrightarrow> s \<in> TERMINAL_STATES"

text \<open>The scan of the table; the table is a set, and no two entries share state and event.\<close>

fun scan_table ::
  "(swap_state \<times> swap_event \<times> swap_state) list \<Rightarrow> swap_state \<Rightarrow> swap_event \<Rightarrow> swap_state result"
where
  "scan_table [] st ev = Err ValidationError"
| "scan_table ((src, e, dst) # rest) st ev = (if src = st \<and> e = ev then Ok dst else scan_table rest st ev)"

definition advance :: "swap_state \<Rightarrow> swap_event \<Rightarrow> swap_state result" where
  "advance st ev =
     (if st \<in> TERMINAL_STATES then Err ValidationError else scan_table TRANSITION_TABLE st ev)"

lemma advance_Ok_iff: "advance st ev = Ok st' \<longleftrightarrow> (st, ev, st') \<in> set TRANSITION_TABLE"
  by (cases st; cases ev; cases st') (simp_all add: advance_def TERMINAL_STATES_def TRANSITION_TABLE_def)

lemma table_functional:
  "(st, ev, a) \<in> set TRANSITION_TABLE \<Longrightarrow> (st, ev, b) \<in> set TRANSITION_TABLE \<Longrightarrow> a = b"
  by (metis Inr_inject advance_Ok_iff)

lemma can_transition_iff: "can_transition st st' \<longleftrightarrow> (\<exists>ev. advance st ev = Ok st')"
  by (auto simp: can_transition_def TRANSITIONS_def advance_Ok_iff image_iff split: prod.splits)

section \<open>Negotiated terms\<close>

definition ASSET_VARIANTS :: "string set" where "ASSET_VARIANTS = {''rxd'', ''ft'', ''nft''}"
definition COUNTER_CHAINS :: "string set" where "COUNTER_CHAINS = {''btc'', ''eth''}"
definition ZERO32 :: bytes where "ZERO32 = replicate 32 0"

record terms =
  hashlock :: bytes
  btc_sats :: int
  radiant_amount :: int
  t_btc :: timelock
  t_rxd :: timelock
  asset_variant :: string
  genesis_ref :: bytes
  taker_dest_hash :: bytes
  maker_dest_hash :: bytes
  btc_claim_pubkey_xonly :: bytes
  btc_refund_pubkey_xonly :: bytes
  counter_chain :: string
  value_amount :: int
  eth_timeout_unix_s :: "int option"
  credential_ref :: bytes

definition b32 :: "bytes \<Rightarrow> bytes result" where
  "b32 v = (if length v \<noteq> 32 then Err ValidationError else Ok v)"

definition pos_int :: "int \<Rightarrow> bool" where
  "pos_int v \<longleftrightarrow> v > 0"

text \<open>The first half of \<open>__post_init__\<close>: amounts, chain, and the defaulted counter amount.\<close>

definition terms_amounts :: "terms \<Rightarrow> terms result" where
  "terms_amounts t =
     (if \<not> pos_int (btc_sats t) then Err ValidationError
      else if \<not> pos_int (radiant_amount t) then Err ValidationError
      else if counter_chain t \<notin> COUNTER_CHAINS then Err ValidationError
      else bind_r
        (if counter_chain t = ''btc'' then
           (if value_amount t = 0 then Ok (t\<lparr>value_amount := btc_sats t\<rparr>)
            else if value_amount t \<noteq> btc_sats t then Err ValidationError
            else Ok t)
         else if value_amount t = 0 then Err ValidationError
         else Ok t)
        (\<lambda>t. if \<not> pos_int (value_amount t) then Err ValidationError
             else if counter_chain t = ''eth'' then
               (case eth_timeout_unix_s t of
                  None \<Rightarrow> Err ValidationError
                | Some s \<Rightarrow> if \<not> pos_int s then Err ValidationError else Ok t)
             else if eth_timeout_unix_s t \<noteq> None then Err ValidationError
             else Ok t))"

definition terms_keys :: "terms \<Rightarrow> terms result" where
  "terms_keys t =
     (if counter_chain t = ''btc'' then
        bind_r (b32 (btc_claim_pubkey_xonly t)) (\<lambda>_. bind_r (b32 (btc_refund_pubkey_xonly t)) (\<lambda>_. Ok t))
      else
        bind_r (b32 (btc_claim_pubkey_xonly t)) (\<lambda>v.
          if v \<noteq> ZERO32 then Err ValidationError
          else bind_r (b32 (btc_refund_pubkey_xonly t)) (\<lambda>v.
            if v \<noteq> ZERO32 then Err ValidationError else Ok t)))"

definition NegotiatedTerms :: "terms \<Rightarrow> terms result" where
  "NegotiatedTerms t =
     bind_r (b32 (hashlock t)) (\<lambda>_.
     bind_r (terms_amounts t) (\<lambda>t.
       if tl_unit (t_rxd t) \<noteq> BLOCKS then Err ValidationError
       else if asset_variant t \<notin> ASSET_VARIANTS then Err ValidationError
       else if asset_variant t \<in> {''ft'', ''nft''} \<and> length (genesis_ref t) = 0 then Err ValidationError
       else bind_r (b32 (taker_dest_hash t)) (\<lambda>_.
            bind_r (b32 (maker_dest_hash t)) (\<lambda>_.
              if length (credential_ref t) \<noteq> 0 \<and> length (credential_ref t) \<noteq> 36 then Err ValidationError
              else bind_r (terms_keys t) (\<lambda>t.
                if tl_unit (t_btc t) = tl_unit (t_rxd t) \<and> tl_value (t_btc t) \<le> tl_value (t_rxd t)
                then Err ValidationError
                else Ok t)))))"

record timelock_wire =
  tw_value :: int
  tw_unit :: string

definition unit_value :: "time_unit \<Rightarrow> string" where
  "unit_value u = (case u of BLOCKS \<Rightarrow> ''blocks'' | SECONDS \<Rightarrow> ''seconds'')"

definition unit_of_value :: "string \<Rightarrow> time_unit result" where
  "unit_of_value s = (if s = ''blocks'' then Ok BLOCKS else if s = ''seconds'' then Ok SECONDS else Err ValueError)"

definition timelock_to_dict :: "timelock \<Rightarrow> timelock_wire" where
  "timelock_to_dict l = \<lparr>tw_value = tl_value l, tw_unit = unit_value (tl_unit l)\<rparr>"

definition timelock_from_dict :: "timelock_wire \<Rightarrow> timelock result" where
  "timelock_from_dict d = bind_r (unit_of_value (tw_unit d)) (\<lambda>u. Timelock (tw_value d) u)"

record terms_wire =
  w_hashlock :: string
  w_btc_sats :: int
  w_radiant_amount :: int
  w_t_btc :: timelock_wire
  w_t_rxd :: timelock_wire
  w_asset_variant :: string
  w_genesis_ref :: string
  w_taker_dest_hash :: string
  w_maker_dest_hash :: string
  w_btc_claim_pubkey_xonly :: string
  w_btc_refund_pubkey_xonly :: string
  w_counter_chain :: "string option"
  w_value_amount :: "int option"
  w_eth_timeout_unix_s :: "int option"
  w_credential_ref :: "string option"

definition terms_to_dict :: "terms \<Rightarrow> terms_wire" where
  "terms_to_dict t =
     \<lparr>w_hashlock = hex (hashlock t), w_btc_sats = btc_sats t, w_radiant_amount = radiant_amount t,
      w_t_btc = timelock_to_dict (t_btc t), w_t_rxd = timelock_to_dict (t_rxd t),
      w_asset_variant = asset_variant t, w_genesis_ref = hex (genesis_ref t),
      w_taker_dest_hash = hex (taker_dest_hash t), w_maker_dest_hash = hex (maker_dest_hash t),
      w_btc_claim_pubkey_xonly = hex (btc_claim_pubkey_xonly t),
      w_btc_refund_pubkey_xonly = hex (btc_refund_pubkey_xonly t),
      w_counter_chain = (if counter_chain t \<noteq> ''btc'' then Some (counter_chain t) else None),
      w_value_amount = (if value_amount t \<noteq> btc_sats t then Some (value_amount t) else None),
      w_eth_timeout_unix_s = eth_timeout_unix_s t,
      w_credential_ref = (if credential_ref t \<noteq> [] then Some (hex (credential_ref t)) else None)\<rparr>"

definition terms_from_dict :: "terms_wire \<Rightarrow> terms result" where
  "terms_from_dict d =
     bind_r (fromhex (w_hashlock d)) (\<lambda>h.
     bind_r (timelock_from_dict (w_t_btc d)) (\<lambda>tb.
     bind_r (timelock_from_dict (w_t_rxd d)) (\<lambda>tr.
     bind_r (fromhex (w_genesis_ref d)) (\<lambda>g.
     bind_r (fromhex (w_taker_dest_hash d)) (\<lambda>td.
     bind_r (fromhex (w_maker_dest_hash d)) (\<lambda>md.
     bind_r (fromhex (w_btc_claim_pubkey_xonly d)) (\<lambda>ck.
     bind_r (fromhex (w_btc_refund_pubkey_xonly d)) (\<lambda>rk.
     bind_r (case w_credential_ref d of
               None \<Rightarrow> Ok [] | Some s \<Rightarrow> if s = [] then Ok [] else fromhex s) (\<lambda>cr.
       NegotiatedTerms
         \<lparr>hashlock = h, btc_sats = w_btc_sats d, radiant_amount = w_radiant_amount d,
          t_btc = tb, t_rxd = tr, asset_variant = w_asset_variant d, genesis_ref = g,
          taker_dest_hash = td, maker_dest_hash = md,
          btc_claim_pubkey_xonly = ck, btc_refund_pubkey_xonly = rk,
          counter_chain = (case w_counter_chain d of None \<Rightarrow> ''btc'' | Some c \<Rightarrow> c),
          value_amount = (case w_value_amount d of None \<Rightarrow> 0 | Some v \<Rightarrow> v),
          eth_timeout_unix_s = w_eth_timeout_unix_s d, credential_ref = cr\<rparr>)))))))))"

text \<open>Terms that went through the constructor, with constructed timelocks.\<close>

definition wf_terms :: "terms \<Rightarrow> bool" where
  "wf_terms t \<longleftrightarrow> NegotiatedTerms t = Ok t \<and> wf_timelock (t_btc t) \<and> wf_timelock (t_rxd t)"

section \<open>The durable record\<close>

record swap_record =
  sr_state :: swap_state
  sr_terms :: terms
  counterchain_locator :: "locator option"
  radiant_covenant_outpoint :: "string option"
  radiant_covenant_spk_hex :: "string option"

definition SwapRecord :: "swap_record \<Rightarrow> swap_record result" where
  "SwapRecord r =
     (if (case counterchain_locator r of
            Some (BtcLoc _) \<Rightarrow> counter_chain (sr_terms r) \<noteq> ''btc'' | _ \<Rightarrow> False) then Err ValidationError
      else if (case counterchain_locator r of
            Some (EthLoc _) \<Rightarrow> counter_chain (sr_terms r) \<noteq> ''eth'' | _ \<Rightarrow> False) then Err ValidationError
      else (case radiant_covenant_spk_hex r of
          None \<Rightarrow> Ok r
        | Some s \<Rightarrow> (case fromhex s of Inl _ \<Rightarrow> Err ValidationError | Inr _ \<Rightarrow> Ok r)))"

definition btc_locator_of :: "swap_record \<Rightarrow> btc_locator option" where
  "btc_locator_of r = (case counterchain_locator r of Some (BtcLoc b) \<Rightarrow> Some b | _ \<Rightarrow> None)"

definition with_state :: "swap_record \<Rightarrow> swap_state \<Rightarrow> swap_record result" where
  "with_state r st = SwapRecord (r\<lparr>sr_state := st\<rparr>)"

definition with_counter_lock :: "swap_record \<Rightarrow> locator \<Rightarrow> swap_record result" where
  "with_counter_lock r l = SwapRecord (r\<lparr>counterchain_locator := Some l\<rparr>)"

definition with_radiant_lock :: "swap_record \<Rightarrow> string \<Rightarrow> string \<Rightarrow> swap_record result" where
  "with_radiant_lock r op spk =
     SwapRecord (r\<lparr>radiant_covenant_outpoint := Some op, radiant_covenant_spk_hex := Some spk\<rparr>)"

definition state_value :: "swap_state \<Rightarrow> string" where
  "state_value st = (case st of
      NEGOTIATED \<Rightarrow> ''negotiated'' | BTC_LOCKED \<Rightarrow> ''btc_locked'' | BOTH_LOCKED \<Rightarrow> ''both_locked''
    | SECRET_REVEALED \<Rightarrow> ''secret_revealed'' | COMPLETED \<Rightarrow> ''completed''
    | MUTUAL_REFUND \<Rightarrow> ''mutual_refund'' | PARAMS_MISMATCH \<Rightarrow> ''params_mismatch''
    | MAKER_STALLS \<Rightarrow> ''maker_stalls'' | ASSET_VULNERABLE \<Rightarrow> ''asset_vulnerable''
    | ONE_SIDED_LOSS_TAKER \<Rightarrow> ''one_sided_loss_taker'' | ABORTED \<Rightarrow> ''aborted''
    | ASSET_REFUNDED_TAKER_ACTS \<Rightarrow> ''asset_refunded_taker_acts'')"

definition all_states :: "swap_state list" where
  "all_states = [NEGOTIATED, BTC_LOCKED, BOTH_LOCKED, SECRET_REVEALED, COMPLETED, MUTUAL_REFUND,
     PARAMS_MISMATCH, MAKER_STALLS, ASSET_VULNERABLE, ONE_SIDED_LOSS_TAKER, ABORTED, ASSET_REFUNDED_TAKER_ACTS]"

definition state_of_value :: "string \<Rightarrow> swap_state result" where
  "state_of_value s = (case find (\<lambda>st. state_value st = s) all_states of None \<Rightarrow> Err ValueError | Some st \<Rightarrow> Ok st)"

datatype locator_wire =
    V1 "btc_locator_wire option"
  | V2_eth eth_locator
  | V2_btc btc_locator_wire
  | V2_unknown string

record record_wire =
  rw_state :: string
  rw_terms :: terms_wire
  rw_outpoint :: "string option"
  rw_spk_hex :: "string option"
  rw_locator :: locator_wire

definition record_to_dict :: "swap_record \<Rightarrow> record_wire" where
  "record_to_dict r =
     \<lparr>rw_state = state_value (sr_state r), rw_terms = terms_to_dict (sr_terms r),
      rw_outpoint = radiant_covenant_outpoint r, rw_spk_hex = radiant_covenant_spk_hex r,
      rw_locator = (case counterchain_locator r of
          Some (EthLoc l) \<Rightarrow> V2_eth (eth_locator_to_dict l)
        | Some (BtcLoc l) \<Rightarrow> V1 (Some (btc_locator_to_dict l))
        | None \<Rightarrow> V1 None)\<rparr>"

definition locator_from_dict :: "locator_wire \<Rightarrow> locator option result" where
  "locator_from_dict w = (case w of
      V2_eth d \<Rightarrow> bind_r (eth_locator_from_dict d) (\<lambda>l. Ok (Some (EthLoc l)))
    | V2_btc d \<Rightarrow> bind_r (btc_locator_from_dict d) (\<lambda>l. Ok (Some (BtcLoc l)))
    | V2_unknown _ \<Rightarrow> Err ValidationError
    | V1 None \<Rightarrow> Ok None
    | V1 (Some d) \<Rightarrow> bind_r (btc_locator_from_dict d) (\<lambda>l. Ok (Some (BtcLoc l))))"

definition record_from_dict :: "record_wire \<Rightarrow> swap_record result" where
  "record_from_dict d =
     bind_r (locator_from_dict (rw_locator d)) (\<lambda>loc.
     bind_r (state_of_value (rw_state d)) (\<lambda>st.
     bind_r (terms_from_dict (rw_terms d)) (\<lambda>t.
       SwapRecord
         \<lparr>sr_state = st, sr_terms = t, counterchain_locator = loc,
          radiant_covenant_outpoint = rw_outpoint d, radiant_covenant_spk_hex = rw_spk_hex d\<rparr>)))"

definition wf_record :: "swap_record \<Rightarrow> bool" where
  "wf_record r \<longleftrightarrow> SwapRecord r = Ok r \<and> wf_terms (sr_terms r)
     \<and> (case counterchain_locator r of None \<Rightarrow> True | Some l \<Rightarrow> wf_locator l)"

section \<open>Lemmas\<close>

lemma terms_amounts_btc:
  "counter_chain t = ''btc'' \<Longrightarrow> terms_amounts t = Ok t' \<longleftrightarrow>
     0 < btc_sats t \<and> 0 < radiant_amount t \<and> eth_timeout_unix_s t = None
     \<and> (value_amount t = 0 \<or> value_amount t = btc_sats t) \<and> t' = t\<lparr>value_amount := btc_sats t\<rparr>"
  by (cases t) (auto simp: terms_amounts_def pos_int_def COUNTER_CHAINS_def)

lemma terms_amounts_eth:
  "counter_chain t \<noteq> ''btc'' \<Longrightarrow> terms_amounts t = Ok t' \<longleftrightarrow>
     0 < btc_sats t \<and> 0 < radiant_amount t \<and> counter_chain t = ''eth'' \<and> 0 < value_amount t
     \<and> (\<exists>s > 0. eth_timeout_unix_s t = Some s) \<and> t' = t"
  by (cases "eth_timeout_unix_s t") (auto simp: terms_amounts_def pos_int_def COUNTER_CHAINS_def)

lemma terms_amounts_fields: "terms_amounts t = Ok t' \<Longrightarrow> \<exists>v. t' = t\<lparr>value_amount := v\<rparr>"
proof -
  assume *: "terms_amounts t = Ok t'"
  show ?thesis
  proof (cases "counter_chain t = ''btc''")
    case False
    with * have "t' = t\<lparr>value_amount := value_amount t\<rparr>" by (simp add: terms_amounts_eth)
    then show ?thesis by blast
  qed (use * in \<open>auto simp: terms_amounts_btc\<close>)
qed

lemma terms_amounts_idem: "terms_amounts t = Ok t' \<Longrightarrow> terms_amounts t' = Ok t'"
  by (cases "counter_chain t = ''btc''") (auto simp: terms_amounts_btc terms_amounts_eth)

lemma b32_Ok_iff: "b32 v = Ok w \<longleftrightarrow> w = v \<and> length v = 32"
  by (auto simp: b32_def)

lemma terms_keys_Ok_iff:
  "terms_keys t = Ok t' \<longleftrightarrow> t' = t
     \<and> length (btc_claim_pubkey_xonly t) = 32 \<and> length (btc_refund_pubkey_xonly t) = 32
     \<and> (counter_chain t = ''btc'' \<or> btc_claim_pubkey_xonly t = ZERO32 \<and> btc_refund_pubkey_xonly t = ZERO32)"
  by (cases "counter_chain t = ''btc''") (auto simp: terms_keys_def bind_r_Ok_iff if_Err_Ok_iff b32_Ok_iff)

definition terms_rest :: "terms \<Rightarrow> bool" where
  "terms_rest t \<longleftrightarrow> length (hashlock t) = 32 \<and> tl_unit (t_rxd t) = BLOCKS
     \<and> asset_variant t \<in> ASSET_VARIANTS \<and> \<not> (asset_variant t \<in> {''ft'', ''nft''} \<and> length (genesis_ref t) = 0)
     \<and> length (taker_dest_hash t) = 32 \<and> length (maker_dest_hash t) = 32
     \<and> (length (credential_ref t) = 0 \<or> length (credential_ref t) = 36)
     \<and> length (btc_claim_pubkey_xonly t) = 32 \<and> length (btc_refund_pubkey_xonly t) = 32
     \<and> (counter_chain t = ''btc'' \<or> btc_claim_pubkey_xonly t = ZERO32 \<and> btc_refund_pubkey_xonly t = ZERO32)
     \<and> \<not> (tl_unit (t_btc t) = tl_unit (t_rxd t) \<and> tl_value (t_btc t) \<le> tl_value (t_rxd t))"

lemma terms_rest_value_amount [simp]: "terms_rest (t\<lparr>value_amount := v\<rparr>) = terms_rest t"
  by (simp add: terms_rest_def)

lemma NegotiatedTerms_parts: "NegotiatedTerms t = Ok t' \<longleftrightarrow> terms_amounts t = Ok t' \<and> terms_rest t"
proof (cases "terms_amounts t")
  case (Inl e)
  then show ?thesis by (simp add: NegotiatedTerms_def bind_r_Ok_iff)
next
  case (Inr t'')
  then obtain v where v: "t'' = t\<lparr>value_amount := v\<rparr>" using terms_amounts_fields by blast
  have "NegotiatedTerms t = Ok t' \<longleftrightarrow> length (hashlock t) = 32 \<and> terms_rest t'' \<and> t' = t''"
    unfolding NegotiatedTerms_def Inr bind_r.simps(2) bind_r_Ok_iff if_Err_Ok_iff b32_Ok_iff terms_keys_Ok_iff
      terms_rest_def by (auto simp: v)
  then show ?thesis unfolding Inr by (auto simp: v terms_rest_def)
qed

lemma NegotiatedTerms_idem: "NegotiatedTerms t = Ok t' \<Longrightarrow> NegotiatedTerms t' = Ok t'"
proof -
  assume *: "NegotiatedTerms t = Ok t'"
  then have a: "terms_amounts t = Ok t'" by (simp add: NegotiatedTerms_parts)
  with * terms_amounts_fields [OF this] terms_amounts_idem [OF a] show ?thesis
    unfolding NegotiatedTerms_parts by (metis terms_rest_value_amount)
qed

lemma timelock_roundtrip: "wf_timelock l \<Longrightarrow> timelock_from_dict (timelock_to_dict l) = Ok l"
  by (cases "tl_unit l")
    (simp_all add: timelock_from_dict_def timelock_to_dict_def unit_value_def unit_of_value_def
      Timelock_self [of l, symmetric])

lemma state_roundtrip: "state_of_value (state_value st) = Ok st"
  by (cases st) (simp_all add: state_of_value_def state_value_def all_states_def)

lemma wf_terms_value:
  "wf_terms t \<Longrightarrow> counter_chain t = ''btc'' \<Longrightarrow> value_amount t = btc_sats t"
proof -
  assume "wf_terms t" "counter_chain t = ''btc''"
  then have "t = t\<lparr>value_amount := btc_sats t\<rparr>" by (simp add: wf_terms_def NegotiatedTerms_parts terms_amounts_btc)
  then have "value_amount t = value_amount (t\<lparr>value_amount := btc_sats t\<rparr>)" by (rule arg_cong)
  then show ?thesis by simp
qed

text \<open>What \<open>from_dict\<close> hands to the constructor: the terms, with the counter amount of the wire form.\<close>

lemma terms_from_to_dict:
  assumes "wf_timelock (t_btc t)" "wf_timelock (t_rxd t)"
  shows "terms_from_dict (terms_to_dict t)
     = NegotiatedTerms (t\<lparr>value_amount := if value_amount t \<noteq> btc_sats t then value_amount t else 0\<rparr>)"
proof -
  have "hex x = [] \<longleftrightarrow> x = []" for x by (cases x) auto
  then show ?thesis
    using assms by (cases t) (simp add: terms_from_dict_def terms_to_dict_def timelock_roundtrip)
qed

lemma terms_roundtrip_iff:
  assumes "wf_terms t"
  shows "terms_from_dict (terms_to_dict t) = Ok t \<longleftrightarrow> counter_chain t = ''btc'' \<or> value_amount t \<noteq> btc_sats t"
proof -
  from assms have ok: "terms_amounts t = Ok t" "terms_rest t" and wf: "wf_timelock (t_btc t)" "wf_timelock (t_rxd t)"
    by (auto simp: wf_terms_def NegotiatedTerms_parts)
  define u where "u = t\<lparr>value_amount := if value_amount t \<noteq> btc_sats t then value_amount t else 0\<rparr>"
  have rest: "NegotiatedTerms u = Ok t \<longleftrightarrow> terms_amounts u = Ok t" using ok(2) by (simp add: NegotiatedTerms_parts u_def)
  have wire: "terms_from_dict (terms_to_dict t) = NegotiatedTerms u" unfolding u_def by (rule terms_from_to_dict [OF wf])
  show ?thesis
  proof (cases "counter_chain t = ''btc''")
    case True
    with ok(1) have v: "0 < btc_sats t" "0 < radiant_amount t" "eth_timeout_unix_s t = None"
      and t: "t = t\<lparr>value_amount := btc_sats t\<rparr>" by (simp_all add: terms_amounts_btc)
    then have "value_amount t = btc_sats t" using wf_terms_value [OF assms True] by simp
    then have u: "u = t\<lparr>value_amount := 0\<rparr>" by (simp add: u_def)
    then have "terms_amounts u = Ok (t\<lparr>value_amount := btc_sats t\<rparr>)"
      using True v terms_amounts_btc [of u] by simp
    with t True show ?thesis unfolding wire rest by simp
  next
    case False
    with ok(1) have "0 < value_amount t" by (simp add: terms_amounts_eth)
    moreover have "terms_amounts u \<noteq> Ok t" if "value_amount t = btc_sats t"
      using that False terms_amounts_eth [of u] by (simp add: u_def)
    moreover have "u = t" if "value_amount t \<noteq> btc_sats t" using that by (simp add: u_def)
    ultimately show ?thesis unfolding wire rest using False ok(1) by blast
  qed
qed

lemma locator_roundtrip:
  "(case l of None \<Rightarrow> True | Some l \<Rightarrow> wf_locator l) \<Longrightarrow>
     locator_from_dict (case l of Some (EthLoc l) \<Rightarrow> V2_eth (eth_locator_to_dict l)
        | Some (BtcLoc l) \<Rightarrow> V1 (Some (btc_locator_to_dict l)) | None \<Rightarrow> V1 None) = Ok l"
  by (auto simp: locator_from_dict_def wf_locator_def btc_locator_roundtrip eth_locator_roundtrip
      split: option.splits locator.splits)

section \<open>Runs\<close>

fun run :: "swap_state \<Rightarrow> swap_event list \<Rightarrow> swap_state result" where
  "run st [] = Ok st"
| "run st (ev # evs) = bind_r (advance st ev) (\<lambda>st'. run st' evs)"

text \<open>The number of transitions that can still follow.\<close>

fun rank :: "swap_state \<Rightarrow> nat" where
  "rank NEGOTIATED = 5"
| "rank BTC_LOCKED = 4"
| "rank BOTH_LOCKED = 3"
| "rank SECRET_REVEALED = 2"
| "rank ASSET_VULNERABLE = 1"
| "rank MAKER_STALLS = 1"
| "rank PARAMS_MISMATCH = 1"
| "rank _ = 0"

lemma advance_rank: "advance st ev = Ok st' \<Longrightarrow> rank st' < rank st"
  by (cases st; cases ev) (auto simp: advance_Ok_iff TRANSITION_TABLE_def)

lemma run_length: "run st evs = Ok st' \<Longrightarrow> length evs + rank st' \<le> rank st"
  by (induction evs arbitrary: st) (auto simp: bind_r_Ok_iff dest!: advance_rank, fastforce)

lemma advance_from:
  "advance NEGOTIATED ev = Ok st \<longleftrightarrow> ev = TAKER_FUNDS_BTC \<and> st = BTC_LOCKED \<or> ev = TAKER_NEVER_FUNDS \<and> st = ABORTED"
  "advance BTC_LOCKED ev = Ok st \<longleftrightarrow> ev = MAKER_LOCKS_ASSET \<and> st = BOTH_LOCKED
     \<or> ev = MAKER_NEVER_LOCKS_BTC_TIMEOUT \<and> st = ABORTED \<or> ev = MAKER_LOCKS_WRONG_PARAMS \<and> st = PARAMS_MISMATCH"
  "advance PARAMS_MISMATCH ev = Ok st \<longleftrightarrow> ev = TAKER_REFUNDS_BTC \<and> st = ABORTED"
  "advance BOTH_LOCKED ev = Ok st \<longleftrightarrow> ev = MAKER_CLAIMS_BTC_REVEALS_P \<and> st = SECRET_REVEALED
     \<or> ev = MAKER_STALL_DETECTED \<and> st = MAKER_STALLS \<or> ev = BOTH_TIMEOUTS_ELAPSE \<and> st = MUTUAL_REFUND"
  "advance MAKER_STALLS ev = Ok st \<longleftrightarrow> ev = TAKER_REFUNDS_ASSET_PROACTIVELY \<and> st = ASSET_REFUNDED_TAKER_ACTS"
  "advance SECRET_REVEALED ev = Ok st \<longleftrightarrow> ev = TAKER_SCRAPES_P_CLAIMS_ASSET \<and> st = COMPLETED
     \<or> ev = TAKER_OFFLINE_OR_PINNED \<and> st = ASSET_VULNERABLE"
  "advance ASSET_VULNERABLE ev = Ok st \<longleftrightarrow> ev = MAKER_REFUNDS_ASSET_CSV \<and> st = ONE_SIDED_LOSS_TAKER
     \<or> ev = TAKER_SCRAPES_P_CLAIMS_ASSET \<and> st = COMPLETED"
  by (auto simp: advance_Ok_iff TRANSITION_TABLE_def)

lemma advance_terminal: "st \<in> TERMINAL_STATES \<Longrightarrow> advance st ev = Err ValidationError"
  by (simp add: advance_def)

lemma run_terminal: "st \<in> TERMINAL_STATES \<Longrightarrow> run st evs = Ok st' \<longleftrightarrow> evs = [] \<and> st' = st"
  by (cases evs) (auto simp: advance_terminal)

lemma run_Cons_iff: "run st (ev # evs) = Ok st' \<longleftrightarrow> (\<exists>s. advance st ev = Ok s \<and> run s evs = Ok st')"
  by (simp add: bind_r_Ok_iff)

lemma run_Nil_or_Cons:
  "run st evs = Ok st' \<longleftrightarrow> evs = [] \<and> st' = st \<or> (\<exists>ev evs' s. evs = ev # evs' \<and> advance st ev = Ok s \<and> run s evs' = Ok st')"
  by (cases evs) (auto simp: bind_r_Ok_iff)

lemmas run_terminals =
  run_terminal [of COMPLETED, simplified TERMINAL_STATES_def, simplified]
  run_terminal [of ABORTED, simplified TERMINAL_STATES_def, simplified]
  run_terminal [of MUTUAL_REFUND, simplified TERMINAL_STATES_def, simplified]
  run_terminal [of ASSET_REFUNDED_TAKER_ACTS, simplified TERMINAL_STATES_def, simplified]
  run_terminal [of ONE_SIDED_LOSS_TAKER, simplified TERMINAL_STATES_def, simplified]

lemma run_from:
  "run ASSET_VULNERABLE evs = Ok st \<longleftrightarrow> evs = [] \<and> st = ASSET_VULNERABLE
     \<or> evs = [MAKER_REFUNDS_ASSET_CSV] \<and> st = ONE_SIDED_LOSS_TAKER \<or> evs = [TAKER_SCRAPES_P_CLAIMS_ASSET] \<and> st = COMPLETED"
  "run MAKER_STALLS evs = Ok st \<longleftrightarrow> evs = [] \<and> st = MAKER_STALLS
     \<or> evs = [TAKER_REFUNDS_ASSET_PROACTIVELY] \<and> st = ASSET_REFUNDED_TAKER_ACTS"
  "run PARAMS_MISMATCH evs = Ok st \<longleftrightarrow> evs = [] \<and> st = PARAMS_MISMATCH \<or> evs = [TAKER_REFUNDS_BTC] \<and> st = ABORTED"
  by (subst run_Nil_or_Cons; auto simp: advance_from run_terminals)+

lemma run_secret_revealed:
  "run SECRET_REVEALED evs = Ok st \<longleftrightarrow> evs = [] \<and> st = SECRET_REVEALED
     \<or> evs = [TAKER_SCRAPES_P_CLAIMS_ASSET] \<and> st = COMPLETED
     \<or> (\<exists>evs'. evs = TAKER_OFFLINE_OR_PINNED # evs' \<and> run ASSET_VULNERABLE evs' = Ok st)"
  by (subst run_Nil_or_Cons) (auto simp: advance_from run_terminals)

lemma run_both_locked:
  "run BOTH_LOCKED evs = Ok st \<longleftrightarrow> evs = [] \<and> st = BOTH_LOCKED
     \<or> evs = [BOTH_TIMEOUTS_ELAPSE] \<and> st = MUTUAL_REFUND
     \<or> (\<exists>evs'. evs = MAKER_STALL_DETECTED # evs' \<and> run MAKER_STALLS evs' = Ok st)
     \<or> (\<exists>evs'. evs = MAKER_CLAIMS_BTC_REVEALS_P # evs' \<and> run SECRET_REVEALED evs' = Ok st)"
  by (subst run_Nil_or_Cons) (auto simp: advance_from run_terminals)

lemma run_negotiated:
  "run NEGOTIATED evs = Ok st \<longleftrightarrow> evs = [] \<and> st = NEGOTIATED \<or> evs = [TAKER_NEVER_FUNDS] \<and> st = ABORTED
     \<or> (\<exists>evs'. evs = TAKER_FUNDS_BTC # evs' \<and> run BTC_LOCKED evs' = Ok st)"
  by (subst run_Nil_or_Cons) (auto simp: advance_from run_terminals)

lemma run_btc_locked:
  "run BTC_LOCKED evs = Ok st \<longleftrightarrow> evs = [] \<and> st = BTC_LOCKED \<or> evs = [MAKER_NEVER_LOCKS_BTC_TIMEOUT] \<and> st = ABORTED
     \<or> (\<exists>evs'. evs = MAKER_LOCKS_WRONG_PARAMS # evs' \<and> run PARAMS_MISMATCH evs' = Ok st)
     \<or> (\<exists>evs'. evs = MAKER_LOCKS_ASSET # evs' \<and> run BOTH_LOCKED evs' = Ok st)"
  by (subst run_Nil_or_Cons) (auto simp: advance_from run_terminals)

lemmas run_table = run_negotiated run_btc_locked run_both_locked run_secret_revealed run_from

fun exit_events :: "swap_state \<Rightarrow> swap_event list" where
  "exit_events NEGOTIATED = [TAKER_NEVER_FUNDS]"
| "exit_events BTC_LOCKED = [MAKER_NEVER_LOCKS_BTC_TIMEOUT]"
| "exit_events BOTH_LOCKED = [BOTH_TIMEOUTS_ELAPSE]"
| "exit_events SECRET_REVEALED = [TAKER_SCRAPES_P_CLAIMS_ASSET]"
| "exit_events PARAMS_MISMATCH = [TAKER_REFUNDS_BTC]"
| "exit_events MAKER_STALLS = [TAKER_REFUNDS_ASSET_PROACTIVELY]"
| "exit_events ASSET_VULNERABLE = [MAKER_REFUNDS_ASSET_CSV]"
| "exit_events _ = []"

lemma exit_events_run:
  "\<exists>st'. length (exit_events st) \<le> 5 \<and> run st (exit_events st) = Ok st' \<and> is_terminal st'"
  by (cases st) (simp_all add: is_terminal_def advance_def TERMINAL_STATES_def TRANSITION_TABLE_def)

section \<open>Properties\<close>


text \<open>
  No state strands and no swap runs for ever. From every state some sequence of at most five
  events leads to a terminal state; a terminal state is exactly a state in which every event is
  refused, and exactly one without a target; and no history of more than five events exists.
\<close>

theorem swap_fsm_terminates:
  "(\<exists>evs st'. length evs \<le> 5 \<and> run st evs = Ok st' \<and> is_terminal st')
   \<and> (is_terminal st \<longleftrightarrow> (\<forall>ev. advance st ev = Err ValidationError))
   \<and> (is_terminal st \<longleftrightarrow> allowed_targets st = {})
   \<and> (\<nexists>evs st'. 5 < length evs \<and> run st evs = Ok st')"
proof (intro conjI)
  show "\<exists>evs st'. length evs \<le> 5 \<and> run st evs = Ok st' \<and> is_terminal st'"
    using exit_events_run by blast
  show "is_terminal st \<longleftrightarrow> allowed_targets st = {}"
    by (cases st) (auto simp: is_terminal_def TERMINAL_STATES_def allowed_targets_def TRANSITIONS_def TRANSITION_TABLE_def)
  show "is_terminal st \<longleftrightarrow> (\<forall>ev. advance st ev = Err ValidationError)"
  proof
    assume "is_terminal st"
    then show "\<forall>ev. advance st ev = Err ValidationError" by (simp add: is_terminal_def advance_terminal)
  next
    assume *: "\<forall>ev. advance st ev = Err ValidationError"
    show "is_terminal st"
    proof (rule ccontr)
      assume "\<not> is_terminal st"
      then have "\<exists>ev st'. advance st ev = Ok st'"
        by (cases st) (auto simp: is_terminal_def TERMINAL_STATES_def advance_from)
      with * show False by auto
    qed
  qed
  have "rank st \<le> 5" by (cases st) auto
  then show "\<nexists>evs st'. 5 < length evs \<and> run st evs = Ok st'" using run_length by fastforce
qed

text \<open>
  C38: Durability of the swap record. Writing a record and reading it back restores it exactly
  for every Bitcoin swap and for every Ethereum swap whose wei amount differs from the number of
  satoshis; an Ethereum swap in which the two numbers coincide writes a record that can never be
  read again, because the writer drops the amount and the reader refuses its absence.
\<close>

theorem record_roundtrip:
  assumes "wf_record r"
  shows "record_from_dict (record_to_dict r) =
     (if counter_chain (sr_terms r) = ''btc'' \<or> value_amount (sr_terms r) \<noteq> btc_sats (sr_terms r)
      then Ok r else Err ValidationError)"
proof -
  let ?t = "sr_terms r"
  from assms have wf: "wf_terms ?t" and rec: "SwapRecord r = Ok r"
    and loc: "case counterchain_locator r of None \<Rightarrow> True | Some l \<Rightarrow> wf_locator l"
    by (auto simp: wf_record_def)
  have step: "record_from_dict (record_to_dict r) = bind_r (terms_from_dict (terms_to_dict ?t)) (\<lambda>t. SwapRecord (r\<lparr>sr_terms := t\<rparr>))"
    using locator_roundtrip [OF loc] by (cases r) (simp add: record_from_dict_def record_to_dict_def state_roundtrip)
  show ?thesis
  proof (cases "counter_chain ?t = ''btc'' \<or> value_amount ?t \<noteq> btc_sats ?t")
    case True
    then have "terms_from_dict (terms_to_dict ?t) = Ok ?t" using terms_roundtrip_iff [OF wf] by simp
    with True rec step show ?thesis by simp
  next
    case False
    from wf have "wf_timelock (t_btc ?t)" "wf_timelock (t_rxd ?t)" "terms_amounts ?t = Ok ?t" "terms_rest ?t"
      by (auto simp: wf_terms_def NegotiatedTerms_parts)
    with False have "terms_from_dict (terms_to_dict ?t) = Err ValidationError"
      by (simp add: terms_from_to_dict terms_amounts_eth NegotiatedTerms_def terms_amounts_def b32_def terms_rest_def
          pos_int_def COUNTER_CHAINS_def)
    with False step show ?thesis by simp
  qed
qed

definition example_eth_terms :: terms where
  "example_eth_terms =
     \<lparr>hashlock = ZERO32, btc_sats = 5000, radiant_amount = 1000,
      t_btc = \<lparr>tl_value = 144, tl_unit = BLOCKS\<rparr>, t_rxd = \<lparr>tl_value = 72, tl_unit = BLOCKS\<rparr>,
      asset_variant = ''rxd'', genesis_ref = [], taker_dest_hash = ZERO32, maker_dest_hash = ZERO32,
      btc_claim_pubkey_xonly = ZERO32, btc_refund_pubkey_xonly = ZERO32, counter_chain = ''eth'',
      value_amount = 5000, eth_timeout_unix_s = Some 1800000000, credential_ref = []\<rparr>"

definition example_eth_record :: swap_record where
  "example_eth_record =
     \<lparr>sr_state = NEGOTIATED, sr_terms = example_eth_terms, counterchain_locator = None,
      radiant_covenant_outpoint = None, radiant_covenant_spk_hex = None\<rparr>"

lemma example_eth_record_wf: "wf_record example_eth_record"
proof -
  have "terms_amounts example_eth_terms = Ok example_eth_terms"
    by (simp add: terms_amounts_def example_eth_terms_def pos_int_def COUNTER_CHAINS_def)
  moreover have "terms_rest example_eth_terms"
    by (simp add: terms_rest_def example_eth_terms_def ZERO32_def ASSET_VARIANTS_def)
  ultimately show ?thesis
    by (simp add: wf_record_def wf_terms_def NegotiatedTerms_parts example_eth_record_def SwapRecord_def)
      (simp add: example_eth_terms_def wf_timelock_def)
qed

theorem record_roundtrip_witness:
  "wf_record example_eth_record
   \<and> record_from_dict (record_to_dict example_eth_record) = Err ValidationError"
  using example_eth_record_wf record_roundtrip [OF example_eth_record_wf]
  by (simp add: example_eth_record_def example_eth_terms_def)

end
