(* ===== verification/Margin.thy ===== *)
theory Margin
  imports Timelock Complex_Main
begin

text \<open>
  The pure safety gates of a swap: the finality verdicts and the stall detector of
  \<open>pyrxd/gravity/finality.py\<close>, and the margin policy, the timelock-margin check, the
  value-scaled burial and the claim-finality assessment of \<open>pyrxd/gravity/swap_coordinator.py\<close>.
  Block intervals are whole seconds (see theory \<open>Timelock\<close>); the burial safety factor, which the
  code turns into an exact \<open>Fraction\<close>, is a rational number.
\<close>

section \<open>Finality verdicts\<close>

datatype counter_claim_state = FINAL | NOT_YET_FINAL_LIVE | COUNTER_CHAIN_NOT_FINALIZING

record counter_claim_finality =
  ccf_state :: counter_claim_state
  confirmations :: "int option"
  required_depth :: "int option"

definition CounterClaimFinality :: "counter_claim_state \<Rightarrow> int option \<Rightarrow> int option \<Rightarrow> counter_claim_finality result" where
  "CounterClaimFinality st c d =
     (if (case c of None \<Rightarrow> False | Some v \<Rightarrow> v < 0) then Err ValidationError
      else if (case d of None \<Rightarrow> False | Some v \<Rightarrow> v < 0) then Err ValidationError
      else Ok \<lparr>ccf_state = st, confirmations = c, required_depth = d\<rparr>)"

definition from_btc_depth :: "int \<Rightarrow> int \<Rightarrow> counter_claim_finality result" where
  "from_btc_depth confs depth =
     (if confs < 0 then Err ValidationError
      else if depth < 0 then Err ValidationError
      else CounterClaimFinality (if confs \<ge> depth then FINAL else NOT_YET_FINAL_LIVE) (Some confs) (Some depth))"

definition remaining_positive :: "counter_claim_finality \<Rightarrow> bool" where
  "remaining_positive v =
     (case (confirmations v, required_depth v) of
        (Some c, Some d) \<Rightarrow> d - c > 0
      | _ \<Rightarrow> True)"

section \<open>The stall detector\<close>

record stall_tracker =
  patience_slots :: int
  max_normal_lag_slots :: int
  stuck_finalized :: "int option"
  head_at_run_start :: "int option"

definition FinalityStallTracker :: "int \<Rightarrow> int \<Rightarrow> stall_tracker result" where
  "FinalityStallTracker patience lag =
     (if patience < 1 then Err ValidationError
      else if lag < 1 then Err ValidationError
      else Ok \<lparr>patience_slots = patience, max_normal_lag_slots = lag, stuck_finalized = None, head_at_run_start = None\<rparr>)"

definition observe :: "stall_tracker \<Rightarrow> int \<Rightarrow> int \<Rightarrow> (bool \<times> stall_tracker) result" where
  "observe tr head_block finalized_block =
     (if head_block < 0 then Err ValidationError
      else if finalized_block < 0 then Err ValidationError
      else if finalized_block > head_block then Err ValidationError
      else if stuck_finalized tr \<noteq> Some finalized_block then
        Ok (False, tr\<lparr>stuck_finalized := Some finalized_block, head_at_run_start := Some head_block\<rparr>)
      else
        let head_progress = head_block - (case head_at_run_start tr of None \<Rightarrow> head_block | Some h \<Rightarrow> h);
            live_gap = head_block - finalized_block
        in Ok (head_progress \<ge> patience_slots tr \<and> live_gap > max_normal_lag_slots tr, tr))"

definition verdict ::
  "stall_tracker \<Rightarrow> counter_claim_finality \<Rightarrow> int \<Rightarrow> int \<Rightarrow> (counter_claim_finality \<times> stall_tracker) result"
where
  "verdict tr point_in_time head_block finalized_block =
     (if ccf_state point_in_time = FINAL then Ok (point_in_time, tr)
      else bind_r (observe tr head_block finalized_block) (\<lambda>(stalled, tr').
        if stalled then
          bind_r (CounterClaimFinality COUNTER_CHAIN_NOT_FINALIZING None None) (\<lambda>v. Ok (v, tr'))
        else Ok (point_in_time, tr')))"

fun observe_all :: "stall_tracker \<Rightarrow> (int \<times> int) list \<Rightarrow> stall_tracker result" where
  "observe_all tr [] = Ok tr"
| "observe_all tr ((h, f) # ss) = bind_r (observe tr h f) (\<lambda>(_, tr'). observe_all tr' ss)"

section \<open>The margin policy\<close>

definition ESTIMATED_DEFAULT_MARGIN_BLOCKS :: int where "ESTIMATED_DEFAULT_MARGIN_BLOCKS = 36"
definition ESTIMATED_BTC_CLAIM_REORG_DEPTH_BLOCKS :: int where "ESTIMATED_BTC_CLAIM_REORG_DEPTH_BLOCKS = 6"
definition ESTIMATED_RXD_CLAIM_BURIAL_BLOCKS :: int where "ESTIMATED_RXD_CLAIM_BURIAL_BLOCKS = 6"
definition MIN_REORG_DEPTH_BLOCKS :: int where "MIN_REORG_DEPTH_BLOCKS = 2"
definition MIN_ETH_FINALIZATION_WINDOW_S :: int where "MIN_ETH_FINALIZATION_WINDOW_S = 768"

record margin_policy =
  margin :: timelock
  block_interval_s :: int
  is_measured :: bool
  require_measured :: bool
  rxd_block_interval_s :: int
  btc_claim_reorg_depth :: timelock
  rxd_claim_burial :: timelock
  rxd_reorg_cost_per_block :: "int option"
  value_at_risk_photons :: "int option"
  burial_safety_factor :: rat
  accept_flat_burial :: bool
  eth_finalization_window_s :: "int option"
  cross_clock_margin_of :: "cross_clock_margin option"
  max_covenant_confirm_wait_s :: "int option"

definition check_depth_floor :: "timelock \<Rightarrow> int \<Rightarrow> unit result" where
  "check_depth_floor depth interval =
     bind_r (normalize_to depth BLOCKS interval) (\<lambda>d.
       if tl_value d < MIN_REORG_DEPTH_BLOCKS then Err ValidationError else Ok ())"

definition opt_pos :: "int option \<Rightarrow> bool" where
  "opt_pos v = (case v of None \<Rightarrow> True | Some n \<Rightarrow> 0 < n)"

definition MarginPolicy :: "margin_policy \<Rightarrow> margin_policy result" where
  "MarginPolicy p =
     (if block_interval_s p \<le> 0 then Err ValidationError
      else if rxd_block_interval_s p \<le> 0 then Err ValidationError
      else bind_r (check_depth_floor (btc_claim_reorg_depth p) (block_interval_s p)) (\<lambda>_.
           bind_r (check_depth_floor (rxd_claim_burial p) (block_interval_s p)) (\<lambda>_.
             if require_measured p \<and> \<not> is_measured p then Err ValidationError
             else if \<not> opt_pos (rxd_reorg_cost_per_block p) then Err ValidationError
             else if \<not> opt_pos (value_at_risk_photons p) then Err ValidationError
             else if burial_safety_factor p < 1 then Err ValidationError
             else if \<not> opt_pos (eth_finalization_window_s p) then Err ValidationError
             else if (case eth_finalization_window_s p of
                        None \<Rightarrow> False | Some w \<Rightarrow> w < MIN_ETH_FINALIZATION_WINDOW_S) then Err ValidationError
             else if (case max_covenant_confirm_wait_s p of None \<Rightarrow> False | Some w \<Rightarrow> w < 0)
               then Err ValidationError
             else Ok p)))"

definition estimated :: "int \<Rightarrow> bool \<Rightarrow> bool \<Rightarrow> margin_policy result" where
  "estimated interval req flat =
     MarginPolicy
       \<lparr>margin = \<lparr>tl_value = ESTIMATED_DEFAULT_MARGIN_BLOCKS, tl_unit = BLOCKS\<rparr>,
        block_interval_s = interval, is_measured = False, require_measured = req,
        rxd_block_interval_s = 300,
        btc_claim_reorg_depth = \<lparr>tl_value = ESTIMATED_BTC_CLAIM_REORG_DEPTH_BLOCKS, tl_unit = BLOCKS\<rparr>,
        rxd_claim_burial = \<lparr>tl_value = ESTIMATED_RXD_CLAIM_BURIAL_BLOCKS, tl_unit = BLOCKS\<rparr>,
        rxd_reorg_cost_per_block = None, value_at_risk_photons = None, burial_safety_factor = 1,
        accept_flat_burial = flat, eth_finalization_window_s = None, cross_clock_margin_of = None,
        max_covenant_confirm_wait_s = None\<rparr>"

definition measured ::
  "timelock \<Rightarrow> int \<Rightarrow> timelock option \<Rightarrow> timelock option \<Rightarrow> int option \<Rightarrow> int option \<Rightarrow> int option \<Rightarrow> rat \<Rightarrow> bool
   \<Rightarrow> margin_policy result"
where
  "measured m interval depth burial rxd_interval cost value_at_risk factor flat =
     MarginPolicy
       \<lparr>margin = m, block_interval_s = interval, is_measured = True, require_measured = True,
        rxd_block_interval_s = (case rxd_interval of None \<Rightarrow> 300 | Some i \<Rightarrow> i),
        btc_claim_reorg_depth =
          (case depth of None \<Rightarrow> \<lparr>tl_value = ESTIMATED_BTC_CLAIM_REORG_DEPTH_BLOCKS, tl_unit = BLOCKS\<rparr> | Some d \<Rightarrow> d),
        rxd_claim_burial =
          (case burial of None \<Rightarrow> \<lparr>tl_value = ESTIMATED_RXD_CLAIM_BURIAL_BLOCKS, tl_unit = BLOCKS\<rparr> | Some d \<Rightarrow> d),
        rxd_reorg_cost_per_block = cost, value_at_risk_photons = value_at_risk, burial_safety_factor = factor,
        accept_flat_burial = flat, eth_finalization_window_s = None, cross_clock_margin_of = None,
        max_covenant_confirm_wait_s = None\<rparr>"

definition assert_timelock_margin :: "timelock \<Rightarrow> timelock \<Rightarrow> margin_policy \<Rightarrow> unit result" where
  "assert_timelock_margin t_btc t_rxd policy =
     (if require_measured policy \<and> \<not> is_measured policy then Err ValidationError
      else
        bind_r (normalize_to t_btc BLOCKS (block_interval_s policy)) (\<lambda>b.
        bind_r (normalize_to t_rxd BLOCKS (block_interval_s policy)) (\<lambda>r.
        bind_r (normalize_to (margin policy) BLOCKS (block_interval_s policy)) (\<lambda>m.
          if tl_value b \<le> tl_value r then Err ValidationError
          else if tl_value b - tl_value r < tl_value m then Err ValidationError
          else Ok ()))))"

definition taker_refund_window_open :: "int \<Rightarrow> int \<Rightarrow> timelock \<Rightarrow> int \<Rightarrow> bool \<Rightarrow> int \<Rightarrow> bool result" where
  "taker_refund_window_open now_height locked_at t_rxd window maker_has_claimed interval =
     (if maker_has_claimed then Ok False
      else if now_height < 0 then Err ValidationError
      else if locked_at < 0 then Err ValidationError
      else if window < 0 then Err ValidationError
      else bind_r (normalize_to t_rxd BLOCKS interval) (\<lambda>r.
        let maturity = locked_at + tl_value r in Ok (now_height \<ge> maturity - window)))"

section \<open>Burial and claim finality\<close>

datatype claim_finality = SAFE | WAIT | SQUEEZED

definition value_scaled_burial_blocks :: "margin_policy \<Rightarrow> int option \<Rightarrow> int" where
  "value_scaled_burial_blocks policy value_at_risk =
     (case (rxd_reorg_cost_per_block policy, value_at_risk) of
        (Some cost, Some v) \<Rightarrow> \<lceil>of_int v * burial_safety_factor policy / of_int cost\<rceil>
      | _ \<Rightarrow> 0)"

definition max_protected_value :: "int \<Rightarrow> int \<Rightarrow> rat \<Rightarrow> int result" where
  "max_protected_value burial_blocks cost safety_factor =
     (if burial_blocks \<le> 0 then Err ValidationError
      else if cost \<le> 0 then Err ValidationError
      else if safety_factor < 1 then Err ValidationError
      else let (num, den) = quotient_of safety_factor in Ok ((burial_blocks * cost * den) div num))"

definition reserve_to_blocks :: "timelock \<Rightarrow> int \<Rightarrow> int" where
  "reserve_to_blocks reserve interval =
     (if tl_unit reserve = BLOCKS then tl_value reserve else ceil_div (tl_value reserve) interval)"

definition assess_claim_finality ::
  "counter_claim_finality \<Rightarrow> int \<Rightarrow> int \<Rightarrow> timelock \<Rightarrow> margin_policy \<Rightarrow> int option \<Rightarrow> claim_finality result"
where
  "assess_claim_finality vd now_rxd_height asset_locked_at_height t_rxd policy value_at_risk =
     (if now_rxd_height < 0 then Err ValidationError
      else if asset_locked_at_height < 0 then Err ValidationError
      else if now_rxd_height < asset_locked_at_height then Err ValidationError
      else bind_r (normalize_to t_rxd BLOCKS (block_interval_s policy)) (\<lambda>r.
        let flat_burial = reserve_to_blocks (rxd_claim_burial policy) (block_interval_s policy);
            effective_value = (case value_at_risk of None \<Rightarrow> value_at_risk_photons policy | Some v \<Rightarrow> Some v);
            rxd_burial = max flat_burial (value_scaled_burial_blocks policy effective_value);
            required_depth_blocks = reserve_to_blocks (btc_claim_reorg_depth policy) (block_interval_s policy)
        in if rxd_reorg_cost_per_block policy \<noteq> None \<and> effective_value = None then Ok SQUEEZED
           else let blocks_left = asset_locked_at_height + tl_value r - now_rxd_height in
             (case ccf_state vd of
                COUNTER_CHAIN_NOT_FINALIZING \<Rightarrow> Ok SQUEEZED
              | FINAL \<Rightarrow> if blocks_left \<ge> rxd_burial then Ok SAFE else Ok SQUEEZED
              | NOT_YET_FINAL_LIVE \<Rightarrow>
                  bind_r
                    (case required_depth vd of
                       Some d \<Rightarrow>
                         if d \<noteq> required_depth_blocks then Err ValidationError
                         else Ok (ceil_div (required_depth_blocks * block_interval_s policy) (rxd_block_interval_s policy))
                     | None \<Rightarrow>
                         (case eth_finalization_window_s policy of
                            None \<Rightarrow> Err ValidationError
                          | Some w \<Rightarrow> Ok (ceil_div w (rxd_block_interval_s policy))))
                    (\<lambda>counter_reserve_rxd.
                       if blocks_left - counter_reserve_rxd \<ge> rxd_burial \<and> remaining_positive vd
                       then Ok WAIT else Ok SQUEEZED))))"

section \<open>What the gates promise\<close>

definition lock_blocks :: "timelock \<Rightarrow> int \<Rightarrow> int" where
  "lock_blocks lock b = (if tl_unit lock = BLOCKS then tl_value lock else tl_value lock div b)"

definition in_blocks :: "timelock \<Rightarrow> int \<Rightarrow> bool" where
  "in_blocks lock b \<longleftrightarrow> 0 < b \<and> (tl_unit lock = SECONDS \<longrightarrow> 0 \<le> lock_blocks lock b \<and> lock_blocks lock b < 2 ^ 16)"

lemma normalize_blocks_iff:
  "normalize_to lock BLOCKS b = Ok r \<longleftrightarrow>
     in_blocks lock b \<and> r = \<lparr>tl_value = lock_blocks lock b, tl_unit = BLOCKS\<rparr>"
  by (cases lock; cases "tl_unit lock")
    (auto simp: normalize_to_def in_blocks_def lock_blocks_def Timelock_Ok_iff wf_timelock_def)

text \<open>The value at stake that an assessment uses, and the burial it asks for.\<close>

definition effective_value :: "margin_policy \<Rightarrow> int option \<Rightarrow> int option" where
  "effective_value policy v = (case v of None \<Rightarrow> value_at_risk_photons policy | Some n \<Rightarrow> Some n)"

text \<open>
  Reorganising \<open>n\<close> blocks costs an attacker at least the value at stake times the safety factor.
  A policy with a cost but no value to compare it with promises nothing.
\<close>

definition reorg_deterred :: "margin_policy \<Rightarrow> int option \<Rightarrow> int \<Rightarrow> bool" where
  "reorg_deterred policy v n =
     (case (rxd_reorg_cost_per_block policy, v) of
        (Some c, Some x) \<Rightarrow> of_int x * burial_safety_factor policy \<le> of_int (n * c)
      | (Some c, None) \<Rightarrow> False
      | (None, _) \<Rightarrow> True)"

definition flat_burial :: "margin_policy \<Rightarrow> int" where
  "flat_burial policy = reserve_to_blocks (rxd_claim_burial policy) (block_interval_s policy)"

text \<open>Radiant blocks left before the maker's refund opens.\<close>

definition blocks_left :: "margin_policy \<Rightarrow> timelock \<Rightarrow> int \<Rightarrow> int \<Rightarrow> int" where
  "blocks_left policy t_rxd locked now = locked + lock_blocks t_rxd (block_interval_s policy) - now"

definition claim_window :: "margin_policy \<Rightarrow> int option \<Rightarrow> int \<Rightarrow> bool" where
  "claim_window policy v n \<longleftrightarrow> flat_burial policy \<le> n \<and> reorg_deterred policy v n"

lemma MarginPolicy_Ok:
  "MarginPolicy q = Ok p \<Longrightarrow> p = q"
  unfolding MarginPolicy_def bind_r_Ok_iff if_Err_Ok_iff by auto

lemma MarginPolicy_facts:
  assumes "MarginPolicy q = Ok p"
  shows "0 < block_interval_s p" "0 < rxd_block_interval_s p" "1 \<le> burial_safety_factor p"
    "\<And>c. rxd_reorg_cost_per_block p = Some c \<Longrightarrow> 0 < c"
    "require_measured p \<longrightarrow> is_measured p"
    "\<And>w. eth_finalization_window_s p = Some w \<Longrightarrow> 768 \<le> w"
proof -
  note pq = MarginPolicy_Ok [OF assms]
  show "0 < block_interval_s p" "0 < rxd_block_interval_s p" "1 \<le> burial_safety_factor p"
    "\<And>c. rxd_reorg_cost_per_block p = Some c \<Longrightarrow> 0 < c"
    "require_measured p \<longrightarrow> is_measured p"
    "\<And>w. eth_finalization_window_s p = Some w \<Longrightarrow> 768 \<le> w"
    using assms unfolding MarginPolicy_def bind_r_Ok_iff if_Err_Ok_iff pq
    by (auto simp: opt_pos_def MIN_ETH_FINALIZATION_WINDOW_S_def)
qed

lemma value_scaled_burial_le_iff:
  assumes "rxd_reorg_cost_per_block p = Some c" "0 < c"
  shows "value_scaled_burial_blocks p (Some x) \<le> n \<longleftrightarrow> of_int x * burial_safety_factor p \<le> of_int (n * c)"
  using assms by (simp add: value_scaled_burial_blocks_def ceiling_le_iff pos_divide_le_eq)

lemma check_depth_floor_reserve:
  assumes "check_depth_floor lock b = Ok u"
  shows "2 \<le> reserve_to_blocks lock b"
proof -
  from assms have b: "0 < b" and two: "2 \<le> lock_blocks lock b"
    unfolding check_depth_floor_def bind_r_Ok_iff normalize_blocks_iff
    by (auto simp: in_blocks_def MIN_REORG_DEPTH_BLOCKS_def split: if_splits)
  then show ?thesis
    using floor_le_ceil_div [OF b, of "tl_value lock"]
    by (auto simp: reserve_to_blocks_def lock_blocks_def split: if_splits)
qed

lemma MarginPolicy_depths:
  assumes "MarginPolicy q = Ok p"
  shows "2 \<le> reserve_to_blocks (btc_claim_reorg_depth p) (block_interval_s p)" "2 \<le> flat_burial p"
  using assms MarginPolicy_Ok [OF assms]
  unfolding MarginPolicy_def bind_r_Ok_iff if_Err_Ok_iff flat_burial_def
  by (auto intro: check_depth_floor_reserve)

lemma burial_le_iff:
  assumes "MarginPolicy q = Ok p" "\<not> (rxd_reorg_cost_per_block p \<noteq> None \<and> v = None)"
  shows "max (flat_burial p) (value_scaled_burial_blocks p v) \<le> n \<longleftrightarrow> claim_window p v n"
proof (cases "rxd_reorg_cost_per_block p")
  case None
  with MarginPolicy_depths(2) [OF assms(1)] show ?thesis
    by (simp add: claim_window_def reorg_deterred_def value_scaled_burial_blocks_def)
next
  case (Some c)
  with assms(2) obtain x where x: "v = Some x" by auto
  from value_scaled_burial_le_iff [OF Some MarginPolicy_facts(4) [OF assms(1) Some], of x n] Some x
  show ?thesis by (simp add: claim_window_def reorg_deterred_def)
qed

lemma claim_window_valued: "claim_window p v n \<Longrightarrow> \<not> (rxd_reorg_cost_per_block p \<noteq> None \<and> v = None)"
  by (auto simp: claim_window_def reorg_deterred_def split: option.splits)

lemma claim_window_mono:
  assumes "MarginPolicy q = Ok p" "claim_window p v m" "m \<le> n"
  shows "claim_window p v n"
  using burial_le_iff [OF assms(1) claim_window_valued [OF assms(2)]] assms(2,3) order_trans by blast

text \<open>The window the Radiant chain must leave for the counter claim to become final, in seconds.\<close>

definition counter_reserve_s :: "margin_policy \<Rightarrow> counter_claim_finality \<Rightarrow> int" where
  "counter_reserve_s p vd =
     (case required_depth vd of
        Some d \<Rightarrow> d * block_interval_s p
      | None \<Rightarrow> (case eth_finalization_window_s p of None \<Rightarrow> 0 | Some w \<Rightarrow> w))"

definition heights_ok :: "margin_policy \<Rightarrow> timelock \<Rightarrow> int \<Rightarrow> int \<Rightarrow> bool" where
  "heights_ok p t_rxd locked now \<longleftrightarrow> 0 \<le> locked \<and> locked \<le> now \<and> in_blocks t_rxd (block_interval_s p)"

lemma assess_unfold:
  assumes "heights_ok p t_rxd locked now"
  shows "assess_claim_finality vd now locked t_rxd p v =
    (let left = blocks_left p t_rxd locked now;
         burial = max (flat_burial p) (value_scaled_burial_blocks p (effective_value p v));
         depth = reserve_to_blocks (btc_claim_reorg_depth p) (block_interval_s p)
     in if rxd_reorg_cost_per_block p \<noteq> None \<and> effective_value p v = None then Ok SQUEEZED
        else (case ccf_state vd of
                COUNTER_CHAIN_NOT_FINALIZING \<Rightarrow> Ok SQUEEZED
              | FINAL \<Rightarrow> if left \<ge> burial then Ok SAFE else Ok SQUEEZED
              | NOT_YET_FINAL_LIVE \<Rightarrow>
                  bind_r
                    (case required_depth vd of
                       Some d \<Rightarrow>
                         if d \<noteq> depth then Err ValidationError
                         else Ok (ceil_div (depth * block_interval_s p) (rxd_block_interval_s p))
                     | None \<Rightarrow>
                         (case eth_finalization_window_s p of
                            None \<Rightarrow> Err ValidationError
                          | Some w \<Rightarrow> Ok (ceil_div w (rxd_block_interval_s p))))
                    (\<lambda>res. if left - res \<ge> burial \<and> remaining_positive vd then Ok WAIT else Ok SQUEEZED)))"
proof -
  from assms have norm: "normalize_to t_rxd BLOCKS (block_interval_s p)
      = Ok \<lparr>tl_value = lock_blocks t_rxd (block_interval_s p), tl_unit = BLOCKS\<rparr>"
    by (simp add: normalize_blocks_iff heights_ok_def)
  with assms show ?thesis
    by (simp add: assess_claim_finality_def heights_ok_def Let_def blocks_left_def flat_burial_def
        effective_value_def)
qed

lemma assess_Ok_heights:
  "assess_claim_finality vd now locked t_rxd p v = Ok r \<Longrightarrow> heights_ok p t_rxd locked now"
  unfolding assess_claim_finality_def bind_r_Ok_iff if_Err_Ok_iff normalize_blocks_iff heights_ok_def
  by auto

lemma assess_FINAL:
  assumes "MarginPolicy q = Ok p" "ccf_state vd = FINAL" "heights_ok p t_rxd locked now"
  shows "assess_claim_finality vd now locked t_rxd p v =
    Ok (if claim_window p (effective_value p v) (blocks_left p t_rxd locked now) then SAFE else SQUEEZED)"
  using burial_le_iff [OF assms(1), of "effective_value p v" "blocks_left p t_rxd locked now"]
    claim_window_valued [of p "effective_value p v" "blocks_left p t_rxd locked now"] assms(2)
  unfolding assess_unfold [OF assms(3)] Let_def by (auto simp del: max.bounded_iff)

lemma assess_SAFE_FINAL:
  assumes "assess_claim_finality vd now locked t_rxd p v = Ok SAFE"
  shows "ccf_state vd = FINAL"
  using assms unfolding assess_unfold [OF assess_Ok_heights [OF assms]] Let_def
  by (cases "ccf_state vd") (auto simp: bind_r_Ok_iff split: if_splits)

lemma assess_WAIT:
  assumes "MarginPolicy q = Ok p" "assess_claim_finality vd now locked t_rxd p v = Ok WAIT"
  shows "ccf_state vd = NOT_YET_FINAL_LIVE"
    "claim_window p (effective_value p v)
       (blocks_left p t_rxd locked now - ceil_div (counter_reserve_s p vd) (rxd_block_interval_s p))"
    "0 < counter_reserve_s p vd"
proof -
  note un = assms(2) [unfolded assess_unfold [OF assess_Ok_heights [OF assms(2)]] Let_def]
  from un have val: "\<not> (rxd_reorg_cost_per_block p \<noteq> None \<and> effective_value p v = None)"
    by (auto split: if_splits)
  from un show st: "ccf_state vd = NOT_YET_FINAL_LIVE"
    by (cases "ccf_state vd") (auto split: if_splits)
  note pos = MarginPolicy_facts [OF assms(1)] MarginPolicy_depths(1) [OF assms(1)]
  from un show "claim_window p (effective_value p v)
       (blocks_left p t_rxd locked now - ceil_div (counter_reserve_s p vd) (rxd_block_interval_s p))"
    unfolding burial_le_iff [OF assms(1) val, symmetric]
    by (simp add: st val counter_reserve_s_def bind_r_Ok_iff split: option.splits if_splits)
  from un show "0 < counter_reserve_s p vd"
    using pos(1,6,7)
    by (fastforce simp: st val counter_reserve_s_def bind_r_Ok_iff split: option.splits if_splits)
qed

lemma claim_safe_rule:
  assumes "MarginPolicy q = Ok p"
  shows "assess_claim_finality vd now locked t_rxd p v = Ok SAFE \<longleftrightarrow>
    ccf_state vd = FINAL \<and> heights_ok p t_rxd locked now
    \<and> flat_burial p \<le> blocks_left p t_rxd locked now
    \<and> reorg_deterred p (effective_value p v) (blocks_left p t_rxd locked now)"
proof
  assume safe: "assess_claim_finality vd now locked t_rxd p v = Ok SAFE"
  note h = assess_Ok_heights [OF safe] and f = assess_SAFE_FINAL [OF safe]
  with assess_FINAL [OF assms f h, of v] safe show "ccf_state vd = FINAL \<and> heights_ok p t_rxd locked now
    \<and> flat_burial p \<le> blocks_left p t_rxd locked now
    \<and> reorg_deterred p (effective_value p v) (blocks_left p t_rxd locked now)"
    by (auto simp: claim_window_def split: if_splits)
next
  assume r: "ccf_state vd = FINAL \<and> heights_ok p t_rxd locked now
    \<and> flat_burial p \<le> blocks_left p t_rxd locked now
    \<and> reorg_deterred p (effective_value p v) (blocks_left p t_rxd locked now)"
  with assess_FINAL [OF assms, of vd t_rxd locked now v]
  show "assess_claim_finality vd now locked t_rxd p v = Ok SAFE" by (simp add: claim_window_def)
qed

text \<open>C9: A claim of the asset is judged safe exactly when the counter-chain claim is final, the
  reported heights are possible, and the blocks left before the maker's refund opens cover the
  policy's burial depth and make a reorganisation that deep cost at least the value at stake
  times the safety factor (a configured cost with no known value is never safe).\<close>

theorem claim_safe_iff:
  assumes "MarginPolicy q = Ok p"
  shows "assess_claim_finality vd now locked t_rxd p v = Ok SAFE \<longleftrightarrow>
    ccf_state vd = FINAL \<and> heights_ok p t_rxd locked now
    \<and> flat_burial p \<le> blocks_left p t_rxd locked now
    \<and> reorg_deterred p (effective_value p v) (blocks_left p t_rxd locked now)"
  by (rule claim_safe_rule [OF assms])

definition example_policy :: margin_policy where
  "example_policy =
     \<lparr>margin = \<lparr>tl_value = 36, tl_unit = BLOCKS\<rparr>, block_interval_s = 600, is_measured = True,
      require_measured = True, rxd_block_interval_s = 300,
      btc_claim_reorg_depth = \<lparr>tl_value = 6, tl_unit = BLOCKS\<rparr>,
      rxd_claim_burial = \<lparr>tl_value = 6, tl_unit = BLOCKS\<rparr>,
      rxd_reorg_cost_per_block = Some 1000, value_at_risk_photons = Some 9500, burial_safety_factor = 2,
      accept_flat_burial = False, eth_finalization_window_s = None, cross_clock_margin_of = None,
      max_covenant_confirm_wait_s = None\<rparr>"

lemma example_policy_Ok: "MarginPolicy example_policy = Ok example_policy"
  by (simp add: MarginPolicy_def example_policy_def check_depth_floor_def normalize_to_def opt_pos_def
      MIN_REORG_DEPTH_BLOCKS_def)

theorem claim_safe_iff_witness:
  "assess_claim_finality \<lparr>ccf_state = FINAL, confirmations = Some 6, required_depth = Some 6\<rparr>
     100 90 \<lparr>tl_value = 29, tl_unit = BLOCKS\<rparr> example_policy None = Ok SAFE
   \<and> assess_claim_finality \<lparr>ccf_state = FINAL, confirmations = Some 6, required_depth = Some 6\<rparr>
     100 90 \<lparr>tl_value = 28, tl_unit = BLOCKS\<rparr> example_policy None \<noteq> Ok SAFE"
  unfolding claim_safe_iff [OF example_policy_Ok]
  by (simp add: heights_ok_def in_blocks_def flat_burial_def blocks_left_def lock_blocks_def
      reorg_deterred_def effective_value_def reserve_to_blocks_def example_policy_def)

text \<open>C26: A wait verdict never strands the taker: the counter claim can take its whole reserve
  (the required depth at the measured interval, or the finalization window) to become final, and at
  every Radiant height up to that moment a final verdict is still judged safe.\<close>

theorem claim_wait_leaves_room:
  assumes "MarginPolicy q = Ok p"
    and "assess_claim_finality vd now locked t_rxd p v = Ok WAIT"
    and "now \<le> now'" and "(now' - now - 1) * rxd_block_interval_s p < counter_reserve_s p vd"
    and "ccf_state vd' = FINAL"
  shows "assess_claim_finality vd' now' locked t_rxd p v = Ok SAFE"
proof -
  note h = assess_Ok_heights [OF assms(2)]
  have pos: "0 < rxd_block_interval_s p" using MarginPolicy_facts [OF assms(1)] by blast
  have "now' - now \<le> ceil_div (counter_reserve_s p vd) (rxd_block_interval_s p)"
    using ceil_div_le_iff [OF pos, of "counter_reserve_s p vd" "now' - now - 1"] assms(4) by linarith
  then have w: "claim_window p (effective_value p v) (blocks_left p t_rxd locked now')"
    by (intro claim_window_mono [OF assms(1) assess_WAIT(2) [OF assms(1,2)]]) (simp add: blocks_left_def)
  from h assms(3) have "heights_ok p t_rxd locked now'" by (simp add: heights_ok_def)
  from assess_FINAL [OF assms(1,5) this, of v] w show ?thesis by simp
qed

theorem claim_wait_leaves_room_witness:
  "assess_claim_finality \<lparr>ccf_state = FINAL, confirmations = Some 6, required_depth = Some 6\<rparr>
     112 90 \<lparr>tl_value = 60, tl_unit = BLOCKS\<rparr> example_policy None = Ok SAFE"
proof (rule claim_wait_leaves_room [OF example_policy_Ok, where now = 100])
  show "assess_claim_finality \<lparr>ccf_state = NOT_YET_FINAL_LIVE, confirmations = Some 2, required_depth = Some 6\<rparr>
     100 90 \<lparr>tl_value = 60, tl_unit = BLOCKS\<rparr> example_policy None = Ok WAIT"
    by (simp add: assess_claim_finality_def normalize_to_def reserve_to_blocks_def remaining_positive_def
        value_scaled_burial_blocks_def ceil_div_def example_policy_def)
qed (simp_all add: counter_reserve_s_def example_policy_def)

lemma max_protected_value_rule:
  assumes "max_protected_value b c f = Ok m"
  shows "0 < c" "x \<le> m \<longleftrightarrow> of_int x * f \<le> of_int (b * c)"
proof -
  obtain num den where q: "quotient_of f = (num, den)" by (cases "quotient_of f")
  from assms q have c: "0 < c" and f1: "1 \<le> f" and m: "m = (b * c * den) div num"
    by (auto simp: max_protected_value_def split: if_splits)
  from quotient_of_denom_pos [OF q] quotient_of_div [OF q]
  have den: "0 < den" and f: "f = of_int num / of_int den" by simp_all
  with f1 have num: "0 < num" by (auto simp: le_divide_eq_1_pos)
  show "0 < c" by (rule c)
  have "of_int x * f \<le> of_int (b * c) \<longleftrightarrow> of_int (x * num) \<le> (of_int (b * c * den) :: rat)"
    using den by (simp add: f pos_divide_le_eq)
  also have "\<dots> \<longleftrightarrow> x \<le> m" unfolding m le_div_iff [OF num] by (simp only: of_int_le_iff)
  finally show "x \<le> m \<longleftrightarrow> of_int x * f \<le> of_int (b * c)" by simp
qed

text \<open>The inverse of the burial formula is exact: on a policy with this cost and factor,
  a value is protected by \<open>b\<close> blocks of burial exactly when it is at most
  \<open>max_protected_value\<close> of \<open>b\<close>.\<close>

theorem max_protected_value_exact:
  assumes "max_protected_value b c f = Ok m"
    and "rxd_reorg_cost_per_block p = Some c" and "burial_safety_factor p = f"
  shows "value_scaled_burial_blocks p (Some x) \<le> b \<longleftrightarrow> x \<le> m"
  using value_scaled_burial_le_iff [OF assms(2) max_protected_value_rule(1) [OF assms(1)], of x b]
    max_protected_value_rule(2) [OF assms(1), of x] assms(3) by simp

theorem max_protected_value_exact_witness:
  "value_scaled_burial_blocks example_policy (Some 3000) \<le> 6
   \<and> \<not> value_scaled_burial_blocks example_policy (Some 3001) \<le> 6"
  using max_protected_value_exact [of 6 1000 2 3000 example_policy 3000]
    max_protected_value_exact [of 6 1000 2 3000 example_policy 3001]
  by (simp add: max_protected_value_def example_policy_def)

text \<open>The duration a timelock stands for, in seconds.\<close>

definition lock_seconds :: "timelock \<Rightarrow> int \<Rightarrow> int" where
  "lock_seconds lock b = (if tl_unit lock = BLOCKS then tl_value lock * b else tl_value lock)"

lemma lock_blocks_seconds:
  assumes "0 < b"
  shows "lock_blocks lock b * b \<le> lock_seconds lock b" "lock_seconds lock b < (lock_blocks lock b + 1) * b"
  using le_div_iff [OF assms, of "tl_value lock div b" "tl_value lock"]
    le_div_iff [OF assms, of "tl_value lock div b + 1" "tl_value lock"] assms
  by (auto simp: lock_blocks_def lock_seconds_def distrib_right)

lemma assert_timelock_margin_iff:
  "assert_timelock_margin t_btc t_rxd p = Ok () \<longleftrightarrow>
     (require_measured p \<longrightarrow> is_measured p)
     \<and> in_blocks t_btc (block_interval_s p) \<and> in_blocks t_rxd (block_interval_s p)
     \<and> in_blocks (margin p) (block_interval_s p)
     \<and> lock_blocks t_rxd (block_interval_s p) < lock_blocks t_btc (block_interval_s p)
     \<and> lock_blocks t_rxd (block_interval_s p) + lock_blocks (margin p) (block_interval_s p)
        \<le> lock_blocks t_btc (block_interval_s p)"
  unfolding assert_timelock_margin_def bind_r_Ok_iff if_Err_Ok_iff normalize_blocks_iff by auto

text \<open>When the ordering gate passes, the Bitcoin refund opens later than the Radiant refund by
  at least the margin, up to less than two block intervals of rounding; with all three in blocks the
  margin is met exactly.\<close>

theorem timelock_margin_bound:
  assumes "assert_timelock_margin t_btc t_rxd p = Ok ()"
  shows "lock_seconds (margin p) (block_interval_s p) - 2 * block_interval_s p
           < lock_seconds t_btc (block_interval_s p) - lock_seconds t_rxd (block_interval_s p)
    \<and> (tl_unit t_btc = BLOCKS \<and> tl_unit t_rxd = BLOCKS \<and> tl_unit (margin p) = BLOCKS \<longrightarrow>
           tl_value t_rxd < tl_value t_btc \<and> tl_value (margin p) \<le> tl_value t_btc - tl_value t_rxd)"
proof (rule conjI)
  let ?b = "block_interval_s p"
  note m = assms [unfolded assert_timelock_margin_iff]
  then have b: "0 < ?b" by (simp add: in_blocks_def)
  from m have "(lock_blocks t_rxd ?b + lock_blocks (margin p) ?b) * ?b \<le> lock_blocks t_btc ?b * ?b"
    using b by (intro mult_right_mono) auto
  with lock_blocks_seconds [OF b, of t_btc] lock_blocks_seconds [OF b, of t_rxd]
    lock_blocks_seconds [OF b, of "margin p"]
  show "lock_seconds (margin p) ?b - 2 * ?b < lock_seconds t_btc ?b - lock_seconds t_rxd ?b"
    by (simp add: distrib_right)
  from m show "tl_unit t_btc = BLOCKS \<and> tl_unit t_rxd = BLOCKS \<and> tl_unit (margin p) = BLOCKS \<longrightarrow>
      tl_value t_rxd < tl_value t_btc \<and> tl_value (margin p) \<le> tl_value t_btc - tl_value t_rxd"
    by (auto simp: lock_blocks_def)
qed

theorem timelock_margin_bound_witness:
  "assert_timelock_margin \<lparr>tl_value = 60001, tl_unit = SECONDS\<rparr> \<lparr>tl_value = 60, tl_unit = BLOCKS\<rparr> example_policy = Ok ()
   \<and> lock_seconds (margin example_policy) 600 - 2 * 600
      < lock_seconds \<lparr>tl_value = 60001, tl_unit = SECONDS\<rparr> 600 - lock_seconds \<lparr>tl_value = 60, tl_unit = BLOCKS\<rparr> 600"
  using timelock_margin_bound [of "\<lparr>tl_value = 60001, tl_unit = SECONDS\<rparr>"
      "\<lparr>tl_value = 60, tl_unit = BLOCKS\<rparr>" example_policy]
  by (simp add: Timelock_def bip68_consts assert_timelock_margin_def normalize_to_def lock_seconds_def example_policy_def)

text \<open>
  The head seen when the current run of equal finalized checkpoints began: \<open>ss\<close> lists the
  observations, oldest first.
\<close>

fun run_head :: "int \<Rightarrow> int option \<Rightarrow> (int \<times> int) list \<Rightarrow> int option" where
  "run_head f acc [] = acc"
| "run_head f acc ((h, g) # ss) = run_head f (if g = f then (if acc = None then Some h else acc) else None) ss"

lemma observe_next:
  assumes "observe tr h g = Ok (b, tr')"
  shows "stuck_finalized tr' = Some g"
    "head_at_run_start tr' = (if stuck_finalized tr = Some g then head_at_run_start tr else Some h)"
    "patience_slots tr' = patience_slots tr" "max_normal_lag_slots tr' = max_normal_lag_slots tr"
  using assms by (auto simp: observe_def Let_def split: if_splits)

lemma observe_all_run:
  assumes "observe_all tr ss = Ok tr'" "stuck_finalized tr \<noteq> None \<longrightarrow> head_at_run_start tr \<noteq> None"
  shows "(if stuck_finalized tr' = Some f then head_at_run_start tr' else None)
      = run_head f (if stuck_finalized tr = Some f then head_at_run_start tr else None) ss
    \<and> (stuck_finalized tr' \<noteq> None \<longrightarrow> head_at_run_start tr' \<noteq> None)
    \<and> patience_slots tr' = patience_slots tr \<and> max_normal_lag_slots tr' = max_normal_lag_slots tr"
  using assms
proof (induction tr ss rule: observe_all.induct)
  case (2 tr h g ss)
  then obtain b tr1 where o: "observe tr h g = Ok (b, tr1)" and r: "observe_all tr1 ss = Ok tr'"
    by (auto simp: bind_r_Ok_iff)
  note nx = observe_next [OF o]
  have inv: "stuck_finalized tr1 \<noteq> None \<longrightarrow> head_at_run_start tr1 \<noteq> None"
    using nx 2(3) by auto
  have "(if stuck_finalized tr1 = Some f then head_at_run_start tr1 else None) =
    (if g = f then (if (if stuck_finalized tr = Some f then head_at_run_start tr else None) = None then Some h
       else (if stuck_finalized tr = Some f then head_at_run_start tr else None)) else None)"
    using nx 2(3) by auto
  with 2(1) [OF o refl r inv] nx show ?case by simp
qed auto

text \<open>After any sequence of observations, the detector reports a stall exactly when the head has
  advanced by at least the patience since the finalized checkpoint last moved and the distance from
  the head to that checkpoint exceeds the normal lag.\<close>

theorem stall_detector_correct:
  assumes "FinalityStallTracker patience lag = Ok tr0" and "observe_all tr0 ss = Ok tr"
    and "observe tr h f = Ok (stalled, tr')"
  shows "stalled \<longleftrightarrow> (\<exists>h0. run_head f None ss = Some h0 \<and> patience \<le> h - h0 \<and> lag < h - f)"
proof -
  from assms(1) have tr0: "1 \<le> patience" "stuck_finalized tr0 = None" "patience_slots tr0 = patience"
    "max_normal_lag_slots tr0 = lag"
    by (auto simp: FinalityStallTracker_def split: if_splits)
  with observe_all_run [OF assms(2), of f]
  have run: "(if stuck_finalized tr = Some f then head_at_run_start tr else None) = run_head f None ss"
    and h0: "stuck_finalized tr \<noteq> None \<longrightarrow> head_at_run_start tr \<noteq> None"
    and pl: "patience_slots tr = patience" "max_normal_lag_slots tr = lag"
    by simp_all
  show ?thesis
  proof (cases "stuck_finalized tr = Some f")
    case True
    with h0 obtain a where a: "head_at_run_start tr = Some a" by auto
    with True run have "run_head f None ss = Some a" by simp
    with a True assms(3) pl show ?thesis by (auto simp: observe_def Let_def split: if_splits)
  next
    case False
    with run assms(3) show ?thesis by (auto simp: observe_def split: if_splits)
  qed
qed

theorem stall_detector_correct_witness:
  "\<exists>tr tr'. observe_all \<lparr>patience_slots = 64, max_normal_lag_slots = 96, stuck_finalized = None,
      head_at_run_start = None\<rparr> [(1000, 936), (1032, 936)] = Ok tr \<and> observe tr 1064 936 = Ok (True, tr')"
  using stall_detector_correct [of 64 96 "\<lparr>patience_slots = 64, max_normal_lag_slots = 96,
      stuck_finalized = None, head_at_run_start = None\<rparr>" "[(1000, 936), (1032, 936)]" _ 1064 936]
  by (simp add: FinalityStallTracker_def observe_def)

end
