(* ===== verification/Btc_Raw.thy ===== *)
theory Btc_Raw
  imports Spv_Witness Sha256
begin

text \<open>
  The raw-transaction parsers of \<open>pyrxd/btc_wallet/taproot.py\<close> that the swap trusts instead of a
  counterparty's word: the transaction id, the fields a pre-signed refund is bound by, the spent
  outpoints, and the search for the preimage in the witness of a claim. The parsers walk a cursor;
  the model passes the bytes behind the cursor. The walks interpret the contract \<open>decoder\<close>, and
  the reference is again the pair of wire formats of theory \<open>Spv_Witness\<close>.
\<close>

section \<open>The cursor\<close>

definition take_b :: "nat \<Rightarrow> bytes \<Rightarrow> (bytes \<times> bytes) result" where
  "take_b k rest = (if k > length rest then Err ValidationError else Ok (take k rest, drop k rest))"

definition cs_size :: "nat \<Rightarrow> nat" where
  "cs_size v = (if v = 0xFD then 2 else if v = 0xFE then 4 else 8)"

text \<open>The value of a CompactSize, the exact bytes consumed, and what is left.\<close>

definition take_compact :: "bytes \<Rightarrow> ((nat \<times> bytes) \<times> bytes) result" where
  "take_compact rest =
     bind_r (take_b 1 rest) (\<lambda>(first, rest).
       let v = unat (hd first) in
       if v < 0xFD then Ok ((v, first), rest)
       else bind_r (take_b (cs_size v) rest) (\<lambda>(raw, rest). Ok ((le_val raw, first @ raw), rest)))"

fun repeat_p :: "nat \<Rightarrow> (bytes \<Rightarrow> ('a \<times> bytes) result) \<Rightarrow> bytes \<Rightarrow> ('a list \<times> bytes) result" where
  "repeat_p 0 p rest = Ok ([], rest)"
| "repeat_p (Suc k) p rest =
     bind_r (p rest) (\<lambda>(x, rest). bind_r (repeat_p k p rest) (\<lambda>(xs, rest). Ok (x # xs, rest)))"

definition MAX_COUNT :: nat where "MAX_COUNT = 100000"

definition at_segwit_marker :: "bytes \<Rightarrow> bool" where
  "at_segwit_marker rest \<longleftrightarrow> 2 \<le> length rest \<and> rest ! 0 = 0x00 \<and> rest ! 1 = 0x01"

text \<open>A script of at most \<open>n\<close> bytes with its length prefix, as raw bytes and as the script.\<close>

definition take_script :: "nat \<Rightarrow> bytes \<Rightarrow> ((bytes \<times> bytes) \<times> bytes) result" where
  "take_script n rest =
     bind_r (take_compact rest) (\<lambda>((slen, slen_b), rest).
       if slen > n then Err ValidationError
       else bind_r (take_b slen rest) (\<lambda>(s, rest). Ok ((slen_b @ s, s), rest)))"

definition take_input :: "nat \<Rightarrow> bytes \<Rightarrow> ((bytes \<times> bytes \<times> bytes) \<times> bytes) result" where
  "take_input n rest =
     bind_r (take_b 36 rest) (\<lambda>(prevout, rest).
     bind_r (take_script n rest) (\<lambda>((raw, _), rest).
     bind_r (take_b 4 rest) (\<lambda>(sequence, rest).
       Ok ((prevout @ raw @ sequence, prevout, sequence), rest))))"

definition take_output :: "nat \<Rightarrow> bytes \<Rightarrow> ((bytes \<times> bytes \<times> bytes) \<times> bytes) result" where
  "take_output n rest =
     bind_r (take_b 8 rest) (\<lambda>(amount, rest).
     bind_r (take_script n rest) (\<lambda>((raw, s), rest).
       Ok ((amount @ raw, amount, s), rest)))"

definition take_item :: "nat \<Rightarrow> bytes \<Rightarrow> (bytes \<times> bytes) result" where
  "take_item n rest = bind_r (take_script n rest) (\<lambda>((_, s), rest). Ok (s, rest))"

definition take_stack :: "nat \<Rightarrow> bytes \<Rightarrow> (bytes list \<times> bytes) result" where
  "take_stack n rest =
     bind_r (take_compact rest) (\<lambda>((n_items, _), rest).
       if n_items > MAX_COUNT then Err ValidationError
       else repeat_p n_items (take_item n) rest)"

section \<open>The parsers\<close>

definition btc_txid_from_raw :: "bytes \<Rightarrow> string result" where
  "btc_txid_from_raw raw_tx =
     (let n = length raw_tx in
      bind_r (take_b 4 raw_tx) (\<lambda>(version, rest).
      let is_segwit = at_segwit_marker rest;
          rest = (if is_segwit then drop 2 rest else rest)
      in
      bind_r (take_compact rest) (\<lambda>((n_in, n_in_b), rest).
      if n_in = 0 \<or> n_in > MAX_COUNT then Err ValidationError else
      bind_r (repeat_p n_in (take_input n) rest) (\<lambda>(ins, rest).
      bind_r (take_compact rest) (\<lambda>((n_out, n_out_b), rest).
      if n_out > MAX_COUNT then Err ValidationError else
      bind_r (repeat_p n_out (take_output n) rest) (\<lambda>(outs, rest).
      bind_r (if is_segwit then repeat_p n_in (take_stack n) rest else Ok ([], rest)) (\<lambda>(_, rest).
      bind_r (take_b 4 rest) (\<lambda>(locktime, rest).
      if rest \<noteq> [] then Err ValidationError
      else Ok (hex (rev (hash256
             (version @ n_in_b @ concat (map fst ins) @ n_out_b @ concat (map fst outs) @ locktime))))))))))))"

record spend_fields =
  input_prevouts :: "bytes list"
  input_sequences :: "nat list"
  outputs :: "(nat \<times> bytes) list"

definition btc_spend_fields_from_raw :: "bytes \<Rightarrow> spend_fields result" where
  "btc_spend_fields_from_raw raw_tx =
     (let n = length raw_tx in
      bind_r (take_b 4 raw_tx) (\<lambda>(_, rest).
      let is_segwit = at_segwit_marker rest;
          rest = (if is_segwit then drop 2 rest else rest)
      in
      bind_r (take_compact rest) (\<lambda>((n_in, _), rest).
      if n_in = 0 \<or> n_in > MAX_COUNT then Err ValidationError else
      bind_r (repeat_p n_in (take_input n) rest) (\<lambda>(ins, rest).
      bind_r (take_compact rest) (\<lambda>((n_out, _), rest).
      if n_out = 0 \<or> n_out > MAX_COUNT then Err ValidationError else
      bind_r (repeat_p n_out (take_output n) rest) (\<lambda>(outs, rest).
      bind_r (if is_segwit then repeat_p n_in (take_stack n) rest else Ok ([], rest)) (\<lambda>(_, rest).
      bind_r (take_b 4 rest) (\<lambda>(_, rest).
      if rest \<noteq> [] then Err ValidationError
      else Ok \<lparr>input_prevouts = map (\<lambda>(_, p, _). p) ins,
               input_sequences = map (\<lambda>(_, _, s). le_val s) ins,
               outputs = map (\<lambda>(_, v, s). (le_val v, s)) outs\<rparr>))))))))"

definition btc_input_outpoints_from_raw :: "bytes \<Rightarrow> bytes list result" where
  "btc_input_outpoints_from_raw raw_tx =
     (let n = length raw_tx in
      bind_r (take_b 4 raw_tx) (\<lambda>(_, rest).
      let rest = (if at_segwit_marker rest then drop 2 rest else rest) in
      bind_r (take_compact rest) (\<lambda>((n_in, _), rest).
      if n_in = 0 \<or> n_in > MAX_COUNT then Err ValidationError else
      bind_r (repeat_p n_in (take_input n) rest) (\<lambda>(ins, _).
        Ok (map (\<lambda>(_, p, _). p) ins)))))"

text \<open>
  \<open>_iter_witness_stack\<close> never raises: a problem before the witness gives no stacks, a problem
  inside it gives the stacks read so far.
\<close>

fun read_stacks :: "nat \<Rightarrow> nat \<Rightarrow> bytes \<Rightarrow> bytes list list" where
  "read_stacks n 0 rest = []"
| "read_stacks n (Suc k) rest =
     (case take_stack n rest of Inl _ \<Rightarrow> [] | Inr (st, rest) \<Rightarrow> st # read_stacks n k rest)"

definition iter_witness_stack :: "bytes \<Rightarrow> bytes list list" where
  "iter_witness_stack b =
     (let n = length b;
          stacks =
            bind_r (take_b 4 b) (\<lambda>(_, rest).
            bind_r (take_b 2 rest) (\<lambda>(marker_flag, rest).
            if marker_flag ! 0 \<noteq> 0x00 \<or> marker_flag ! 1 \<noteq> 0x01 then Err ValidationError else
            bind_r (take_compact rest) (\<lambda>((n_in, _), rest).
            if n_in = 0 \<or> n_in > MAX_COUNT then Err ValidationError else
            bind_r (repeat_p n_in (take_input n) rest) (\<lambda>(_, rest).
            bind_r (take_compact rest) (\<lambda>((n_out, _), rest).
            if n_out > MAX_COUNT then Err ValidationError else
            bind_r (repeat_p n_out (take_output n) rest) (\<lambda>(_, rest).
              Ok (read_stacks n n_in rest)))))))
      in case stacks of Inl _ \<Rightarrow> [] | Inr ss \<Rightarrow> ss)"

definition scrape_secret :: "bytes \<Rightarrow> bytes \<Rightarrow> bytes result" where
  "scrape_secret claim_tx_bytes hashlock =
     (if length hashlock \<noteq> 32 then Err ValidationError
      else case find (\<lambda>item. length item = 32 \<and> sha256 item = hashlock)
                  (concat (iter_witness_stack claim_tx_bytes)) of
             Some p \<Rightarrow> Ok p
           | None \<Rightarrow> Err ValidationError)"

section \<open>Decoding what was encoded\<close>

lemma take_b_append [simp]: "length a = k \<Longrightarrow> take_b k (a @ rest) = Ok (a, rest)"
  by (auto simp: take_b_def)

lemma take_b_exact [simp]: "length a = k \<Longrightarrow> take_b k a = Ok (a, [])"
  by (auto simp: take_b_def)

lemma take_compact_varint:
  assumes "v < 2 ^ 64"
  shows "take_compact (varint_enc v @ rest) = Ok ((v, varint_enc v), rest)"
proof (cases "v \<le> 0xFC")
  case True
  then have e: "varint_enc v = [word_of_nat v]" by (simp add: varint_enc_def)
  from True show ?thesis by (simp add: e take_compact_def take_b_def unat_of_nat)
next
  case False
  obtain c k where e: "varint_enc v = c # le_bytes k v" and c: "\<not> unat c < 0xFD" "cs_size (unat c) = k"
    and v: "v < 256 ^ k"
  proof (cases "v \<le> 0xFFFF")
    case True
    with False show ?thesis by (intro that [of "0xfd" 2]) (simp_all add: varint_enc_def cs_size_def)
  next
    case big: False
    show ?thesis
    proof (cases "v \<le> 0xFFFFFFFF")
      case True
      with big show ?thesis by (intro that [of "0xfe" 4]) (simp_all add: varint_enc_def cs_size_def)
    next
      case False
      with big assms show ?thesis by (intro that [of "0xff" 8]) (simp_all add: varint_enc_def cs_size_def)
    qed
  qed
  from v have "le_val (le_bytes k v) = v" by (rule le_val_le_bytes)
  moreover have "take_b 1 (c # le_bytes k v @ rest) = Ok ([c], le_bytes k v @ rest)" by (simp add: take_b_def)
  ultimately show ?thesis using c by (simp add: take_compact_def e)
qed

locale decoder =
  fixes wf :: "'a \<Rightarrow> bool"
    and enc :: "'a \<Rightarrow> bytes"
    and dec :: "bytes \<Rightarrow> ('b \<times> bytes) result"
    and out :: "'a \<Rightarrow> 'b"
  assumes dec_enc: "wf x \<Longrightarrow> dec (enc x @ rest) = Ok (out x, rest)"
begin

lemma repeat_dec:
  "list_all wf xs \<Longrightarrow> repeat_p (length xs) dec (concat (map enc xs) @ rest) = Ok (map out xs, rest)"
  by (induction xs) (simp_all add: dec_enc)

end

lemma take_script_dec:
  "length s < 2 ^ 64 \<Longrightarrow> length s \<le> n \<Longrightarrow>
     take_script n (varint_enc (length s) @ s @ rest) = Ok ((varint_enc (length s) @ s, s), rest)"
  by (simp add: take_script_def take_compact_varint)

interpretation din: decoder
  "\<lambda>x. wf_field 36 4 x \<and> length (fst (snd x)) \<le> n" enc_field "take_input n"
  "\<lambda>x. (enc_field x, fst x, snd (snd x))" for n
  by unfold_locales (auto simp: wf_field_def enc_field_def take_input_def take_script_dec)

interpretation dout: decoder
  "\<lambda>x. wf_field 8 0 x \<and> length (fst (snd x)) \<le> n" enc_field "take_output n"
  "\<lambda>x. (enc_field x, fst x, fst (snd x))" for n
  by unfold_locales (auto simp: wf_field_def enc_field_def take_output_def take_script_dec)

interpretation ditem: decoder "\<lambda>it. length it < 2 ^ 64 \<and> length it \<le> n" enc_item "take_item n" "\<lambda>it. it" for n
  by unfold_locales (auto simp: enc_item_def enc_field_def take_item_def take_script_dec)

interpretation dstack: decoder
  "\<lambda>st. length st \<le> MAX_COUNT \<and> list_all (\<lambda>it. length it < 2 ^ 64 \<and> length it \<le> n) st"
  "enc_list enc_item" "take_stack n" "\<lambda>st. st" for n
proof
  fix st :: "bytes list" and rest
  assume "length st \<le> MAX_COUNT \<and> list_all (\<lambda>it. length it < 2 ^ 64 \<and> length it \<le> n) st"
  then show "take_stack n (enc_list enc_item st @ rest) = Ok (st, rest)"
    using ditem.repeat_dec [of n st rest]
    by (simp add: take_stack_def MAX_COUNT_def enc_list_def take_compact_varint)
qed

section \<open>Whole transactions\<close>

text \<open>The counts the parsers accept.\<close>

definition within_counts :: "btc_tx \<Rightarrow> bool" where
  "within_counts tx \<longleftrightarrow> wf_btc_tx tx \<and> 1 \<le> length (tx_ins tx) \<and> length (tx_ins tx) \<le> MAX_COUNT
     \<and> length (tx_outs tx) \<le> MAX_COUNT \<and> list_all (\<lambda>st. length st \<le> MAX_COUNT) (tx_witness tx)"

definition fits_in :: "nat \<Rightarrow> btc_tx \<Rightarrow> bool" where
  "fits_in n tx \<longleftrightarrow> list_all (\<lambda>x. wf_field 36 4 x \<and> length (fst (snd x)) \<le> n) (tx_ins tx)
     \<and> list_all (\<lambda>x. wf_field 8 0 x \<and> length (fst (snd x)) \<le> n) (tx_outs tx)"

definition stacks_fit :: "nat \<Rightarrow> btc_tx \<Rightarrow> bool" where
  "stacks_fit n tx \<longleftrightarrow>
     list_all (\<lambda>st. length st \<le> MAX_COUNT \<and> list_all (\<lambda>it. length it < 2 ^ 64 \<and> length it \<le> n) st) (tx_witness tx)"

lemma elem_le_concat: "x \<in> set xs \<Longrightarrow> length (f x) \<le> length (concat (map f xs))"
  by (induction xs) auto

lemma script_le_enc_list: "x \<in> set xs \<Longrightarrow> length (fst (snd x)) \<le> length (enc_list enc_field xs)"
  using elem_le_concat [of x xs enc_field]
  by (simp add: enc_list_def enc_field_def case_prod_beta)

lemma item_le_enc_list: "it \<in> set st \<Longrightarrow> length it \<le> length (enc_list enc_item st)"
  using elem_le_concat [of it st enc_item] by (simp add: enc_list_def enc_item_def enc_field_def)

lemma fits_in_ser:
  assumes "wf_btc_tx tx" "length (enc_list enc_field (tx_ins tx)) \<le> n" "length (enc_list enc_field (tx_outs tx)) \<le> n"
  shows "fits_in n tx"
  using assms script_le_enc_list [of _ "tx_ins tx"] script_le_enc_list [of _ "tx_outs tx"]
  by (fastforce simp: fits_in_def wf_btc_tx_def list_all_iff intro: order_trans)

lemma stacks_fit_ser:
  assumes "within_counts tx" "length (concat (map (enc_list enc_item) (tx_witness tx))) \<le> n"
  shows "stacks_fit n tx"
proof -
  have "length it \<le> n" if "st \<in> set (tx_witness tx)" "it \<in> set st" for st it
    using item_le_enc_list [OF that(2)] elem_le_concat [OF that(1), of "enc_list enc_item"] assms(2) by linarith
  with assms(1) show ?thesis
    by (simp add: stacks_fit_def within_counts_def wf_btc_tx_def list_all_iff)
qed

lemma ser_fits:
  shows "wf_btc_tx tx \<Longrightarrow> fits_in (length (ser_segwit tx @ r)) tx"
    "within_counts tx \<Longrightarrow> stacks_fit (length (ser_segwit tx @ r)) tx"
    "wf_btc_tx tx \<Longrightarrow> fits_in (length (ser_legacy tx)) tx"
  by (erule fits_in_ser stacks_fit_ser; simp add: ser_segwit_def ser_legacy_def)+

lemma within_counts_wf: "within_counts tx \<Longrightarrow> wf_btc_tx tx"
  by (simp add: within_counts_def)

lemma at_segwit_marker_simps:
  "at_segwit_marker (0 # 1 # rest)"
  "v < 2 ^ 64 \<Longrightarrow> v \<noteq> 0 \<Longrightarrow> \<not> at_segwit_marker (varint_enc v @ rest)"
proof -
  have "word_of_nat v \<noteq> (0 :: byte)" if "v \<le> 0xFC" "v \<noteq> 0"
  proof
    assume "word_of_nat v = (0 :: byte)"
    then have "v mod 256 = 0" using unat_word_of_nat_byte [of v] by simp
    with that show False by simp
  qed
  then show "v < 2 ^ 64 \<Longrightarrow> v \<noteq> 0 \<Longrightarrow> \<not> at_segwit_marker (varint_enc v @ rest)"
    by (auto simp: at_segwit_marker_def varint_enc_def)
qed (simp add: at_segwit_marker_def)

lemmas decode_simps = take_compact_varint at_segwit_marker_simps
  din.repeat_dec dout.repeat_dec dstack.repeat_dec

lemma within_counts_bounds:
  assumes "within_counts tx"
  shows "length (tx_version tx) = 4" "length (tx_locktime tx) = 4"
    "length (tx_ins tx) < 2 ^ 64" "length (tx_outs tx) < 2 ^ 64" "tx_ins tx \<noteq> []"
    "\<not> MAX_COUNT < length (tx_ins tx)" "\<not> MAX_COUNT < length (tx_outs tx)" "length (tx_witness tx) = length (tx_ins tx)"
  using assms by (auto simp: within_counts_def wf_btc_tx_def)

lemma repeat_stacks:
  assumes "within_counts tx" "stacks_fit n tx"
  shows "repeat_p (length (tx_ins tx)) (take_stack n) (concat (map (enc_list enc_item) (tx_witness tx)) @ rest)
    = Ok (tx_witness tx, rest)"
  using dstack.repeat_dec [of n "tx_witness tx" rest] assms(2) within_counts_bounds(8) [OF assms(1)]
  by (simp add: stacks_fit_def)

lemma read_stacks_ser:
  "list_all (\<lambda>st. length st \<le> MAX_COUNT \<and> list_all (\<lambda>it. length it < 2 ^ 64 \<and> length it \<le> n) st) ws \<Longrightarrow>
     read_stacks n (length ws) (concat (map (enc_list enc_item) ws) @ rest) = ws"
  by (induction ws) (simp_all add: dstack.dec_enc)

lemma ser_segwit_parts:
  "ser_segwit tx @ rest = tx_version tx @ 0 # 1 # varint_enc (length (tx_ins tx))
     @ concat (map enc_field (tx_ins tx)) @ varint_enc (length (tx_outs tx)) @ concat (map enc_field (tx_outs tx))
     @ concat (map (enc_list enc_item) (tx_witness tx)) @ tx_locktime tx @ rest"
  by (simp add: ser_segwit_def enc_list_def)

lemma ser_legacy_parts:
  "ser_legacy tx = tx_version tx @ varint_enc (length (tx_ins tx)) @ concat (map enc_field (tx_ins tx))
     @ varint_enc (length (tx_outs tx)) @ concat (map enc_field (tx_outs tx)) @ tx_locktime tx"
  by (simp add: ser_legacy_def enc_list_def)

text \<open>The parsers evaluated on both formats, given the bounds on the lengths.\<close>

lemma parse_segwit:
  assumes "within_counts tx"
  shows "btc_txid_from_raw (ser_segwit tx @ rest) =
      (if rest = [] then Ok (hex (rev (hash256 (ser_legacy tx)))) else Err ValidationError)"
    and "btc_input_outpoints_from_raw (ser_segwit tx @ rest) = Ok (map fst (tx_ins tx))"
    and "iter_witness_stack (ser_segwit tx @ rest) = tx_witness tx"
    and "tx_outs tx \<noteq> [] \<Longrightarrow> btc_spend_fields_from_raw (ser_segwit tx) =
      Ok \<lparr>input_prevouts = map fst (tx_ins tx), input_sequences = map (\<lambda>x. le_val (snd (snd x))) (tx_ins tx),
          outputs = map (\<lambda>x. (le_val (fst x), fst (snd x))) (tx_outs tx)\<rparr>"
proof -
  note b = within_counts_bounds [OF assms]
  define n where "n = length (ser_segwit tx @ rest)"
  note f = ser_fits(1) [OF within_counts_wf [OF assms], of rest, folded n_def, unfolded fits_in_def]
  note g = ser_fits(2) [OF assms, of rest, folded n_def]
  show "btc_txid_from_raw (ser_segwit tx @ rest) =
      (if rest = [] then Ok (hex (rev (hash256 (ser_legacy tx)))) else Err ValidationError)"
    unfolding btc_txid_from_raw_def Let_def n_def [symmetric]
    using b f by (simp add: ser_segwit_parts decode_simps repeat_stacks [OF assms g] ser_legacy_parts comp_def)
  show "btc_input_outpoints_from_raw (ser_segwit tx @ rest) = Ok (map fst (tx_ins tx))"
    unfolding btc_input_outpoints_from_raw_def Let_def n_def [symmetric]
    using b f by (simp add: ser_segwit_parts decode_simps comp_def)
  show "iter_witness_stack (ser_segwit tx @ rest) = tx_witness tx"
    unfolding iter_witness_stack_def Let_def n_def [symmetric]
    using b f read_stacks_ser [of n "tx_witness tx"] g
    by (simp add: ser_segwit_parts decode_simps stacks_fit_def take_b_def)
next
  note b = within_counts_bounds [OF assms]
  define n where "n = length (ser_segwit tx)"
  note f = ser_fits(1) [OF within_counts_wf [OF assms], of "[]", unfolded append_Nil2, folded n_def, unfolded fits_in_def]
  note g = ser_fits(2) [OF assms, of "[]", unfolded append_Nil2, folded n_def]
  show "tx_outs tx \<noteq> [] \<Longrightarrow> btc_spend_fields_from_raw (ser_segwit tx) =
      Ok \<lparr>input_prevouts = map fst (tx_ins tx), input_sequences = map (\<lambda>x. le_val (snd (snd x))) (tx_ins tx),
          outputs = map (\<lambda>x. (le_val (fst x), fst (snd x))) (tx_outs tx)\<rparr>"
    unfolding btc_spend_fields_from_raw_def Let_def n_def [symmetric]
    using b f ser_segwit_parts [of tx "[]"] 
    by (simp add: decode_simps repeat_stacks [OF assms g] comp_def)
qed

lemma parse_legacy:
  assumes "within_counts tx"
  shows "btc_txid_from_raw (ser_legacy tx) = Ok (hex (rev (hash256 (ser_legacy tx))))"
    and "btc_input_outpoints_from_raw (ser_legacy tx) = Ok (map fst (tx_ins tx))"
    and "tx_outs tx \<noteq> [] \<Longrightarrow> btc_spend_fields_from_raw (ser_legacy tx) =
      Ok \<lparr>input_prevouts = map fst (tx_ins tx), input_sequences = map (\<lambda>x. le_val (snd (snd x))) (tx_ins tx),
          outputs = map (\<lambda>x. (le_val (fst x), fst (snd x))) (tx_outs tx)\<rparr>"
proof -
  note b = within_counts_bounds [OF assms]
  define n where "n = length (ser_legacy tx)"
  note f = ser_fits(3) [OF within_counts_wf [OF assms], folded n_def, unfolded fits_in_def]
  show "btc_txid_from_raw (ser_legacy tx) = Ok (hex (rev (hash256 (ser_legacy tx))))"
    unfolding btc_txid_from_raw_def Let_def n_def [symmetric]
    using b f by (simp add: decode_simps ser_legacy_parts comp_def)
  show "btc_input_outpoints_from_raw (ser_legacy tx) = Ok (map fst (tx_ins tx))"
    unfolding btc_input_outpoints_from_raw_def Let_def n_def [symmetric]
    using b f by (simp add: ser_legacy_parts decode_simps comp_def)
  show "tx_outs tx \<noteq> [] \<Longrightarrow> btc_spend_fields_from_raw (ser_legacy tx) =
      Ok \<lparr>input_prevouts = map fst (tx_ins tx), input_sequences = map (\<lambda>x. le_val (snd (snd x))) (tx_ins tx),
          outputs = map (\<lambda>x. (le_val (fst x), fst (snd x))) (tx_outs tx)\<rparr>"
    unfolding btc_spend_fields_from_raw_def Let_def n_def [symmetric]
    using b f by (simp add: ser_legacy_parts decode_simps comp_def)
qed

section \<open>Re-serialization is verbatim\<close>

definition copies :: "('a \<Rightarrow> bytes) \<Rightarrow> (bytes \<Rightarrow> ('a \<times> bytes) result) \<Rightarrow> bool" where
  "copies g p \<longleftrightarrow> (\<forall>r x r'. p r = Ok (x, r') \<longrightarrow> r = g x @ r')"

lemma copiesD: "copies g p \<Longrightarrow> p r = Ok (x, r') \<Longrightarrow> r = g x @ r'"
  by (simp add: copies_def)

lemma copies_take_b: "copies (\<lambda>a. a) (take_b k)"
  by (auto simp: copies_def take_b_def split: if_splits)

lemma copies_take_compact: "copies snd take_compact"
  by (auto simp: copies_def take_compact_def Let_def bind_r_Ok_iff split: if_splits dest!: copiesD [OF copies_take_b])

lemma copies_take_script: "copies fst (take_script n)"
  by (auto simp: copies_def take_script_def bind_r_Ok_iff split: if_splits
      dest!: copiesD [OF copies_take_b] copiesD [OF copies_take_compact])

lemma copies_take_input: "copies fst (take_input n)"
  by (auto simp: copies_def take_input_def bind_r_Ok_iff
      dest!: copiesD [OF copies_take_b] copiesD [OF copies_take_script])

lemma copies_take_output: "copies fst (take_output n)"
  by (auto simp: copies_def take_output_def bind_r_Ok_iff
      dest!: copiesD [OF copies_take_b] copiesD [OF copies_take_script])

lemma copies_repeat: "copies g p \<Longrightarrow> copies (\<lambda>xs. concat (map g xs)) (repeat_p k p)"
proof (induction k)
  case (Suc k)
  then show ?case by (fastforce simp: copies_def bind_r_Ok_iff)
qed (simp add: copies_def)

lemma txid_no_marker:
  assumes "btc_txid_from_raw raw = Ok t" "\<not> at_segwit_marker (drop 4 raw)"
  shows "t = hex (rev (hash256 raw))"
proof -
  let ?n = "length raw"
  from assms obtain n_in n_in_b r1 ins r2 n_out n_out_b r3 outs r4 where p:
    "4 \<le> length raw" "take_compact (drop 4 raw) = Ok ((n_in, n_in_b), r1)"
    "repeat_p n_in (take_input ?n) r1 = Ok (ins, r2)" "take_compact r2 = Ok ((n_out, n_out_b), r3)"
    "repeat_p n_out (take_output ?n) r3 = Ok (outs, r4)"
    and t: "t = hex (rev (hash256 (take 4 raw @ n_in_b @ concat (map fst ins) @ n_out_b @ concat (map fst outs) @ take 4 r4)))"
    and e: "length r4 = 4"
    unfolding btc_txid_from_raw_def Let_def
    by (auto simp: bind_r_Ok_iff take_b_def not_less split: if_splits intro!: that)
  have "drop 4 raw = n_in_b @ r1" "r1 = concat (map fst ins) @ r2" "r2 = n_out_b @ r3"
    "r3 = concat (map fst outs) @ r4"
    using copiesD [OF copies_take_compact p(2)] copiesD [OF copies_take_compact p(4)]
      copiesD [OF copies_repeat [OF copies_take_input] p(3)] copiesD [OF copies_repeat [OF copies_take_output] p(5)]
    by simp_all
  with e t show ?thesis by (metis append_take_drop_id append_assoc take_all order_refl)
qed

lemma repeat_stacks_counts:
  assumes "repeat_p (length ws) (take_stack n) (concat (map (enc_list enc_item) ws) @ rest) = Ok r"
    and "list_all (\<lambda>st. length st < 2 ^ 64 \<and> list_all (\<lambda>it. length it < 2 ^ 64 \<and> length it \<le> n) st) ws"
  shows "list_all (\<lambda>st. length st \<le> MAX_COUNT) ws"
  using assms
proof (induction ws arbitrary: r)
  case (Cons st ws)
  have "take_compact (varint_enc (length st) @ concat (map enc_item st) @ concat (map (enc_list enc_item) ws) @ rest)
      = Ok ((length st, varint_enc (length st)), concat (map enc_item st) @ concat (map (enc_list enc_item) ws) @ rest)"
    using Cons.prems(2) by (simp add: take_compact_varint)
  moreover from Cons.prems(1) obtain x r1 where
    "take_stack n (enc_list enc_item st @ concat (map (enc_list enc_item) ws) @ rest) = Ok (x, r1)"
    by (auto simp: bind_r_Ok_iff)
  ultimately have c: "length st \<le> MAX_COUNT"
    by (simp add: take_stack_def enc_list_def [of enc_item st] not_less split: if_splits)
  with Cons.prems(2) have "take_stack n (enc_list enc_item st @ concat (map (enc_list enc_item) ws) @ rest)
      = Ok (st, concat (map (enc_list enc_item) ws) @ rest)"
    by (intro dstack.dec_enc) simp
  with Cons c show ?case by (auto simp: bind_r_Ok_iff)
qed simp

lemma txid_counts:
  assumes "wf_btc_tx tx" "btc_txid_from_raw (ser_segwit tx @ rest) = Ok t"
  shows "within_counts tx"
proof -
  define n where "n = length (ser_segwit tx @ rest)"
  note f = ser_fits(1) [OF assms(1), of rest, folded n_def, unfolded fits_in_def]
  have b: "length (tx_version tx) = 4" "length (tx_ins tx) < 2 ^ 64" "length (tx_outs tx) < 2 ^ 64"
    "length (tx_witness tx) = length (tx_ins tx)"
    using assms(1) by (simp_all add: wf_btc_tx_def)
  from assms(2) b f have c: "tx_ins tx \<noteq> []" "length (tx_ins tx) \<le> MAX_COUNT" "length (tx_outs tx) \<le> MAX_COUNT"
    and w: "\<exists>r. repeat_p (length (tx_ins tx)) (take_stack n)
          (concat (map (enc_list enc_item) (tx_witness tx)) @ tx_locktime tx @ rest) = Ok r"
    unfolding btc_txid_from_raw_def Let_def n_def [symmetric]
    by (auto simp: ser_segwit_parts decode_simps bind_r_Ok_iff not_less split: if_splits)
  have "length it \<le> n" if "st \<in> set (tx_witness tx)" "it \<in> set st" for st it
    using item_le_enc_list [OF that(2)] elem_le_concat [OF that(1), of "enc_list enc_item"]
    by (simp add: n_def ser_segwit_def)
  with assms(1) have "list_all (\<lambda>st. length st < 2 ^ 64 \<and> list_all (\<lambda>it. length it < 2 ^ 64 \<and> length it \<le> n) st) (tx_witness tx)"
    by (simp add: wf_btc_tx_def list_all_iff)
  moreover from w b obtain r where "repeat_p (length (tx_witness tx)) (take_stack n)
      (concat (map (enc_list enc_item) (tx_witness tx)) @ tx_locktime tx @ rest) = Ok r" by auto
  ultimately have "list_all (\<lambda>st. length st \<le> MAX_COUNT) (tx_witness tx)"
    by (intro repeat_stacks_counts)
  with c assms(1) show ?thesis by (simp add: within_counts_def Suc_le_eq)
qed

section \<open>Properties\<close>

text \<open>The transaction id computed from raw bytes is the reversed double hash of the transaction
  without its witness, in both wire formats, for every transaction within the parser's counts; bytes
  behind the transaction are refused.\<close>

theorem txid_of_wire_formats:
  assumes "within_counts tx"
  shows "btc_txid_from_raw (ser_legacy tx) = Ok (hex (rev (hash256 (ser_legacy tx))))
    \<and> btc_txid_from_raw (ser_segwit tx @ rest) =
        (if rest = [] then Ok (hex (rev (hash256 (ser_legacy tx)))) else Err ValidationError)"
  using parse_legacy(1) [OF assms] parse_segwit(1) [OF assms] by blast

definition example_tx :: btc_tx where
  "example_tx = \<lparr>tx_version = [2, 0, 0, 0], tx_ins = [(replicate 36 7, [], replicate 4 255)],
     tx_outs = [(le_bytes 8 5000, [0x51], [])], tx_witness = [[replicate 32 9]], tx_locktime = replicate 4 0\<rparr>"

lemma example_tx_counts: "within_counts example_tx"
  by (simp add: within_counts_def wf_btc_tx_def wf_field_def example_tx_def MAX_COUNT_def)

theorem txid_of_wire_formats_witness:
  "btc_txid_from_raw (ser_segwit example_tx) = Ok (hex (rev (hash256 (ser_legacy example_tx))))"
  using txid_of_wire_formats [OF example_tx_counts, of "[]"] by simp

text \<open>The id parser of the swap and the witness stripper of the SPV code, written
  independently, agree: whenever both accept the same bytes, the id is the reversed double hash of
  the stripped transaction.\<close>

theorem txid_agrees_with_strip:
  assumes "btc_txid_from_raw raw = Ok t" and "strip_witness raw = Ok s"
  shows "t = hex (rev (hash256 s))"
proof -
  from assms(2) [unfolded strip_witness_iff] consider "10 \<le> length raw" "raw ! 4 \<noteq> 0" "s = raw"
    | tx rest where "wf_btc_tx tx" "raw = ser_segwit tx @ rest" "s = ser_legacy tx" by blast
  then show ?thesis
  proof cases
    case 1
    then have "\<not> at_segwit_marker (drop 4 raw)" by (simp add: at_segwit_marker_def)
    from txid_no_marker [OF assms(1) this] 1 show ?thesis by simp
  next
    case 2
    note c = txid_counts [OF 2(1) assms(1) [unfolded 2(2)]]
    from parse_segwit(1) [OF c, of rest] assms(1) 2 show ?thesis by (simp split: if_splits)
  qed
qed

theorem txid_agrees_with_strip_witness:
  "\<exists>t. btc_txid_from_raw (ser_segwit example_tx) = Ok t \<and> strip_witness (ser_segwit example_tx) = Ok (ser_legacy example_tx)
     \<and> t = hex (rev (hash256 (ser_legacy example_tx)))"
proof -
  have t: "btc_txid_from_raw (ser_segwit example_tx) = Ok (hex (rev (hash256 (ser_legacy example_tx))))"
    using parse_segwit(1) [OF example_tx_counts, of "[]"] by simp
  have s: "strip_witness (ser_segwit example_tx) = Ok (ser_legacy example_tx)"
    unfolding strip_witness_iff using within_counts_wf [OF example_tx_counts]
    by (intro disjI2 exI [of _ example_tx] exI [of _ "[]"]) simp
  from t s txid_agrees_with_strip [OF t s] show ?thesis by blast
qed

text \<open>C36: The preimage search returns only 32-byte strings that hash to the hashlock, never raises
  anything but the refusal, and on the segwit form of a transaction finds the first such witness
  item whenever there is one.\<close>

theorem scrape_secret_correct:
  assumes "length h = 32"
  shows "(\<forall>p. scrape_secret raw h = Ok p \<longrightarrow> length p = 32 \<and> sha256 p = h)
    \<and> (within_counts tx \<longrightarrow> scrape_secret (ser_segwit tx @ rest) h =
         (case find (\<lambda>it. length it = 32 \<and> sha256 it = h) (concat (tx_witness tx)) of
            Some p \<Rightarrow> Ok p | None \<Rightarrow> Err ValidationError))"
proof (rule conjI)
  show "\<forall>p. scrape_secret raw h = Ok p \<longrightarrow> length p = 32 \<and> sha256 p = h"
    by (auto simp: scrape_secret_def find_Some_iff split: if_splits option.splits)
  show "within_counts tx \<longrightarrow> scrape_secret (ser_segwit tx @ rest) h =
         (case find (\<lambda>it. length it = 32 \<and> sha256 it = h) (concat (tx_witness tx)) of
            Some p \<Rightarrow> Ok p | None \<Rightarrow> Err ValidationError)"
    using assms parse_segwit(3) [of tx rest] by (simp add: scrape_secret_def)
qed

theorem scrape_secret_correct_witness:
  "scrape_secret (ser_segwit example_tx) (sha256 (replicate 32 9)) = Ok (replicate 32 9)"
  using scrape_secret_correct [of "sha256 (replicate 32 9)" "[]" example_tx "[]"] example_tx_counts
  by (simp add: example_tx_def del: replicate.simps replicate_Suc)

text \<open>The fields a pre-signed refund is bound by are read exactly from both wire formats: the
  outpoints, the sequence numbers, and the value and script of every output; the outpoint parser
  agrees with them.\<close>

theorem spend_fields_correct:
  assumes "within_counts tx" and "tx_outs tx \<noteq> []" and "raw = ser_segwit tx \<or> raw = ser_legacy tx"
  shows "btc_spend_fields_from_raw raw =
      Ok \<lparr>input_prevouts = map fst (tx_ins tx), input_sequences = map (\<lambda>x. le_val (snd (snd x))) (tx_ins tx),
          outputs = map (\<lambda>x. (le_val (fst x), fst (snd x))) (tx_outs tx)\<rparr>
    \<and> btc_input_outpoints_from_raw raw = Ok (map fst (tx_ins tx))"
  using assms(2,3) parse_segwit(2) [OF assms(1), of "[]"] parse_segwit(4) [OF assms(1)]
    parse_legacy(2,3) [OF assms(1)] by (elim disjE) simp_all

lemma example_tx_numbers:
  "le_val (replicate 4 255) = 4294967295" "le_val (le_bytes 8 5000) = 5000"
proof -
  have "replicate 4 (255 :: byte) = [255, 255, 255, 255]" by (simp add: numeral_eq_Suc)
  then show "le_val (replicate 4 255) = 4294967295" by simp
  show "le_val (le_bytes 8 5000) = 5000" by (rule le_val_le_bytes) simp
qed

theorem spend_fields_correct_witness:
  "btc_input_outpoints_from_raw (ser_segwit example_tx) = Ok [replicate 36 7]
   \<and> btc_spend_fields_from_raw (ser_segwit example_tx) =
      Ok \<lparr>input_prevouts = [replicate 36 7], input_sequences = [4294967295], outputs = [(5000, [0x51])]\<rparr>"
  using spend_fields_correct [OF example_tx_counts, of "ser_segwit example_tx"]
  by (simp add: example_tx_def example_tx_numbers)

end
