(* ===== verification/Credential.thy ===== *)
theory Credential
  imports Sha256 Swap_State
begin

text \<open>
  The authenticity gates a swap runs before it funds anything: the walk of a script as an opcode
  stream (\<open>pyrxd/glyph/script.py\<close>), the classification of soulbound covenants
  (\<open>pyrxd/glyph/soulbound_detect.py\<close>), the binding of a credential to its owner
  (\<open>pyrxd/glyph/credential_binding.py\<close>), the binding of an asset reference
  (\<open>pyrxd/gravity/ref_authenticity.py\<close>) and the holder hash of \<open>pyrxd/gravity/htlc_covenant.py\<close>.
  The reference is a script as a list of tokens; the three hand-written walks of the code
  are shown to see exactly those tokens.
\<close>

section \<open>Walking a script\<close>

definition is_ref_op :: "byte \<Rightarrow> bool" where
  "is_ref_op op \<longleftrightarrow> 0xD0 \<le> unat op \<and> unat op \<le> 0xD8"

definition is_direct_push :: "byte \<Rightarrow> bool" where
  "is_direct_push op \<longleftrightarrow> 0x01 \<le> unat op \<and> unat op \<le> 0x4B"

fun iter_input_refs :: "bytes \<Rightarrow> (byte \<times> bytes) list result" where
  "iter_input_refs [] = Ok []"
| "iter_input_refs (op # rest) =
     (if is_ref_op op then
        (if length (take 36 rest) \<noteq> 36 then Err ValidationError
         else bind_r (iter_input_refs (drop 36 rest)) (\<lambda>rs. Ok ((op, take 36 rest) # rs)))
      else if is_direct_push op then
        (if unat op > length rest then Err ValidationError else iter_input_refs (drop (unat op) rest))
      else if op = 0x4C then
        (if length rest < 1 then Err ValidationError
         else if 1 + unat (rest ! 0) > length rest then Err ValidationError
         else iter_input_refs (drop (1 + unat (rest ! 0)) rest))
      else if op = 0x4D then
        (if length rest < 2 then Err ValidationError
         else if 2 + le_val (take 2 rest) > length rest then Err ValidationError
         else iter_input_refs (drop (2 + le_val (take 2 rest)) rest))
      else if op = 0x4E then
        (if length rest < 4 then Err ValidationError
         else if 4 + le_val (take 4 rest) > length rest then Err ValidationError
         else iter_input_refs (drop (4 + le_val (take 4 rest)) rest))
      else iter_input_refs rest)"

fun add_count :: "bytes \<Rightarrow> (bytes \<times> nat) list \<Rightarrow> (bytes \<times> nat) list" where
  "add_count r [] = [(r, 1)]"
| "add_count r ((q, n) # cs) = (if q = r then (q, n + 1) # cs else (q, n) # add_count r cs)"

text \<open>A dict in insertion order is an association list.\<close>

definition count_input_refs :: "bytes \<Rightarrow> (bytes \<times> nat) list result" where
  "count_input_refs script =
     bind_r (iter_input_refs script) (\<lambda>rs. Ok (fold (\<lambda>(_, r) cs. add_count r cs) rs []))"

fun opcodes :: "bytes \<Rightarrow> byte list" where
  "opcodes [] = []"
| "opcodes (op # rest) = op #
     (if is_ref_op op then opcodes (drop 36 rest)
      else if is_direct_push op then opcodes (drop (unat op) rest)
      else if op = 0x4C then
        (if length rest < 1 then [] else opcodes (drop (1 + unat (rest ! 0)) rest))
      else if op = 0x4D then
        (if length rest < 2 then [] else opcodes (drop (2 + le_val (take 2 rest)) rest))
      else if op = 0x4E then
        (if length rest < 4 then [] else opcodes (drop (4 + le_val (take 4 rest)) rest))
      else opcodes rest)"

section \<open>Soulbound covenants\<close>

datatype transferability = TRANSFERABLE_NFT | SOULBOUND_COVENANT | NOT_A_SINGLETON | UNKNOWN

record soulbound_classification =
  transferability_of :: transferability
  bound_ref :: "bytes option"
  has_self_replication :: bool
  has_burn_branch :: bool

definition OUTPUT_BYTECODE_OPS :: "byte list" where "OUTPUT_BYTECODE_OPS = [0xCD, 0xEA]"
definition SELF_BYTECODE_OPS :: "byte list" where "SELF_BYTECODE_OPS = [0xC7, 0xE9, 0xC1]"
definition CODESCRIPTHASH_COUNT_OPS :: "byte list" where "CODESCRIPTHASH_COUNT_OPS = [0xE5, 0xE6]"

definition any_op :: "byte list \<Rightarrow> byte list \<Rightarrow> bool" where
  "any_op ops wanted \<longleftrightarrow> list_ex (\<lambda>w. w \<in> set ops) wanted"

definition classify_soulbound :: "bytes \<Rightarrow> soulbound_classification" where
  "classify_soulbound script =
     (case count_input_refs script of
        Inl _ \<Rightarrow> \<lparr>transferability_of = UNKNOWN, bound_ref = None, has_self_replication = False, has_burn_branch = False\<rparr>
      | Inr ref_counts \<Rightarrow>
          let ops = opcodes script;
              is_singleton = 0xD8 \<in> set ops;
              bound = (if is_singleton then (case map fst ref_counts of [r] \<Rightarrow> Some r | _ \<Rightarrow> None) else None)
          in if \<not> is_singleton then
               \<lparr>transferability_of = NOT_A_SINGLETON, bound_ref = bound, has_self_replication = False, has_burn_branch = False\<rparr>
             else
               let has_self_bc = any_op ops SELF_BYTECODE_OPS;
                   has_equality = 0x87 \<in> set ops \<or> 0x88 \<in> set ops;
                   form_a = any_op ops OUTPUT_BYTECODE_OPS \<and> has_self_bc \<and> has_equality;
                   form_b = has_self_bc \<and> any_op ops CODESCRIPTHASH_COUNT_OPS;
                   self_rep = form_a \<or> form_b;
                   burn = 0xDE \<in> set ops \<and> 0x9C \<in> set ops;
                   t = (if self_rep then SOULBOUND_COVENANT
                        else if any_op ops (OUTPUT_BYTECODE_OPS @ SELF_BYTECODE_OPS @ CODESCRIPTHASH_COUNT_OPS)
                        then UNKNOWN else TRANSFERABLE_NFT)
               in \<lparr>transferability_of = t, bound_ref = bound, has_self_replication = self_rep, has_burn_branch = burn\<rparr>)"

definition is_consensus_soulbound :: "soulbound_classification \<Rightarrow> bool" where
  "is_consensus_soulbound c \<longleftrightarrow> transferability_of c = SOULBOUND_COVENANT"

section \<open>Credentials\<close>

record resolved_credential =
  current_spk :: bytes
  cred_confirmations :: int
  cred_bound_ref :: "bytes option"

text \<open>The public-key hashes found by the walk, the last one first.\<close>

fun owner_walk :: "bytes \<Rightarrow> bytes list" where
  "owner_walk [] = []"
| "owner_walk (op # rest) =
     (if is_ref_op op then owner_walk (drop 36 rest)
      else if op = 0x76 \<and> 24 \<le> length rest \<and> rest ! 0 = 0xA9 \<and> rest ! 1 = 0x14 \<and> rest ! 22 = 0x88
              \<and> (rest ! 23 = 0xAC \<or> rest ! 23 = 0xAD)
        then take 20 (drop 2 rest) # owner_walk (drop 24 rest)
      else if is_direct_push op then owner_walk (drop (unat op) rest)
      else if op = 0x4C \<and> 1 \<le> length rest then owner_walk (drop (1 + unat (rest ! 0)) rest)
      else if op = 0x4D \<and> 2 \<le> length rest then owner_walk (drop (2 + le_val (take 2 rest)) rest)
      else if op = 0x4E \<and> 4 \<le> length rest then owner_walk (drop (4 + le_val (take 4 rest)) rest)
      else owner_walk rest)"

definition extract_owner_pkh :: "bytes \<Rightarrow> bytes option" where
  "extract_owner_pkh spk = (case remdups (owner_walk spk) of [pkh] \<Rightarrow> Some pkh | _ \<Rightarrow> None)"

definition assert_soulbound_credential :: "resolved_credential \<Rightarrow> int \<Rightarrow> bytes option \<Rightarrow> bytes result" where
  "assert_soulbound_credential credential min_confirmations expected_ref =
     (let cls = classify_soulbound (current_spk credential) in
      if \<not> is_consensus_soulbound cls then Err ValidationError
      else if expected_ref \<noteq> None \<and> bound_ref cls \<noteq> expected_ref then Err ValidationError
      else if cred_confirmations credential < min_confirmations then Err ValidationError
      else case extract_owner_pkh (current_spk credential) of
             None \<Rightarrow> Err ValidationError
           | Some owner \<Rightarrow> Ok owner)"

definition verify_credential_binding :: "resolved_credential \<Rightarrow> bytes \<Rightarrow> int \<Rightarrow> bytes option \<Rightarrow> unit result" where
  "verify_credential_binding credential recipient_pkh min_confirmations expected_ref =
     (if length recipient_pkh \<noteq> 20 then Err ValidationError
      else bind_r (assert_soulbound_credential credential min_confirmations expected_ref) (\<lambda>owner.
        if owner \<noteq> recipient_pkh then Err ValidationError else Ok ()))"

section \<open>Asset references and holder hashes\<close>

record resolved_ref =
  genesis_outpoint :: bytes
  has_gly_marker :: bool
  payload_hash :: bytes
  ref_confirmations :: int

text \<open>
  The indexer is the argument \<open>resolve_ref\<close>; its answer may be an exception, an unknown
  token or a resolved reveal. The except clause of the code catches every exception class but a
  task cancellation.
\<close>

definition verify_ref_authenticity ::
  "(bytes \<Rightarrow> resolved_ref option result) \<Rightarrow> bytes \<Rightarrow> string \<Rightarrow> int \<Rightarrow> bytes option \<Rightarrow> unit result"
where
  "verify_ref_authenticity resolve_ref gref variant min_confirmations expected_payload_hash =
     (if variant \<notin> {''rxd'', ''ft'', ''nft''} then Err ValidationError
      else if variant = ''rxd'' then (if gref \<noteq> [] then Err ValidationError else Ok ())
      else if gref = [] then Err ValidationError
      else if min_confirmations < 0 then Err ValidationError
      else case resolve_ref gref of
             Inl e \<Rightarrow> Err (if e = CancelledError then CancelledError else ValidationError)
           | Inr None \<Rightarrow> Err ValidationError
           | Inr (Some resolved) \<Rightarrow>
               if genesis_outpoint resolved \<noteq> gref then Err ValidationError
               else if \<not> has_gly_marker resolved then Err ValidationError
               else if expected_payload_hash \<noteq> None \<and> Some (payload_hash resolved) \<noteq> expected_payload_hash
                 then Err ValidationError
               else if ref_confirmations resolved < min_confirmations then Err ValidationError
               else Ok ())"

definition FT_EPILOGUE :: bytes where
  "FT_EPILOGUE = [0xde, 0xc0, 0xe9, 0xaa, 0x76, 0xe3, 0x78, 0xe4, 0xa2, 0x69, 0xe6, 0x9d]"

definition ft_holder_script :: "bytes \<Rightarrow> bytes \<Rightarrow> bytes" where
  "ft_holder_script pkh ref_wire = [0x76, 0xa9, 0x14] @ pkh @ [0x88, 0xac, 0xbd, 0xd0] @ ref_wire @ FT_EPILOGUE"

definition nft_holder_script :: "bytes \<Rightarrow> bytes \<Rightarrow> bytes" where
  "nft_holder_script pkh ref_wire = [0xd8] @ ref_wire @ [0x75, 0x76, 0xa9, 0x14] @ pkh @ [0x88, 0xac]"

definition rxd_holder_script :: "bytes \<Rightarrow> bytes" where
  "rxd_holder_script pkh = [0x76, 0xa9, 0x14] @ pkh @ [0x88, 0xac]"

definition holder_hash :: "bytes \<Rightarrow> string \<Rightarrow> bytes \<Rightarrow> bytes result" where
  "holder_hash pkh variant gref =
     (if variant = ''rxd'' then Ok (hash256 (rxd_holder_script pkh))
      else if length gref \<noteq> 36 then Err ValidationError
      else if variant = ''ft'' then Ok (hash256 (ft_holder_script pkh gref))
      else if variant = ''nft'' then Ok (hash256 (nft_holder_script pkh gref))
      else Err ValidationError)"

section \<open>Scripts as tokens\<close>

text \<open>
  A plain opcode; an opcode with its 36-byte reference; a push: its opcode, its length bytes and
  its data.
\<close>

datatype tok = Plain byte | RefT byte bytes | PushT byte bytes bytes

fun enc_tok :: "tok \<Rightarrow> bytes" where
  "enc_tok (Plain b) = [b]"
| "enc_tok (RefT b r) = b # r"
| "enc_tok (PushT b ls d) = b # ls @ d"

fun wf_tok :: "tok \<Rightarrow> bool" where
  "wf_tok (Plain b) \<longleftrightarrow> \<not> is_ref_op b \<and> \<not> is_direct_push b \<and> b \<noteq> 0x4C \<and> b \<noteq> 0x4D \<and> b \<noteq> 0x4E"
| "wf_tok (RefT b r) \<longleftrightarrow> is_ref_op b \<and> length r = 36"
| "wf_tok (PushT b ls d) \<longleftrightarrow>
     is_direct_push b \<and> ls = [] \<and> unat b = length d
     \<or> b = 0x4C \<and> length ls = 1 \<and> le_val ls = length d
     \<or> b = 0x4D \<and> length ls = 2 \<and> le_val ls = length d
     \<or> b = 0x4E \<and> length ls = 4 \<and> le_val ls = length d"

fun op_of :: "tok \<Rightarrow> byte" where
  "op_of (Plain b) = b"
| "op_of (RefT b r) = b"
| "op_of (PushT b ls d) = b"

fun refs_of :: "tok \<Rightarrow> (byte \<times> bytes) list" where
  "refs_of (RefT b r) = [(b, r)]"
| "refs_of t = []"

definition enc_script :: "tok list \<Rightarrow> bytes" where
  "enc_script ts = concat (map enc_tok ts)"

lemma enc_script_simps [simp]: "enc_script [] = []" "enc_script (t # ts) = enc_tok t @ enc_script ts"
  by (simp_all add: enc_script_def)

lemma push_ops_distinct:
  "\<not> is_ref_op 0x4C" "\<not> is_direct_push 0x4C" "\<not> is_ref_op 0x4D" "\<not> is_direct_push 0x4D"
  "\<not> is_ref_op 0x4E" "\<not> is_direct_push 0x4E" "\<not> is_ref_op 0x76" "\<not> is_direct_push 0x76"
  by (simp_all add: is_ref_op_def is_direct_push_def)

lemma direct_push_not_ref: "is_direct_push b \<Longrightarrow> \<not> is_ref_op b \<and> b \<noteq> 0x76"
  by (auto simp: is_ref_op_def is_direct_push_def)

lemma le_val_1: "length ls = 1 \<Longrightarrow> le_val ls = unat (ls ! 0)"
  by (cases ls) auto

text \<open>The cases of a well-formed token, in the order the walks test for them.\<close>

lemma wf_tok_cases:
  assumes "wf_tok t"
  obtains (ref) b r where "t = RefT b r" "is_ref_op b" "length r = 36"
  | (direct) b d where "t = PushT b [] d" "is_direct_push b" "\<not> is_ref_op b" "b \<noteq> 0x76" "unat b = length d"
  | (push1) l d where "t = PushT 0x4C [l] d" "unat l = length d"
  | (push2) ls d where "t = PushT 0x4D ls d" "length ls = 2" "le_val ls = length d"
  | (push4) ls d where "t = PushT 0x4E ls d" "length ls = 4" "le_val ls = length d"
  | (plain) b where "t = Plain b" "\<not> is_ref_op b" "\<not> is_direct_push b" "b \<noteq> 0x4C" "b \<noteq> 0x4D" "b \<noteq> 0x4E"
proof (cases t)
  case (PushT b ls d)
  have "\<exists>l. ls = [l] \<and> unat l = length d" if "length ls = 1" "le_val ls = length d"
    using that by (cases ls) auto
  with PushT assms direct show ?thesis using push1 push2 push4 direct_push_not_ref [of b] by fastforce
qed (use assms ref plain in auto)

lemma iter_input_refs_tok:
  assumes "wf_tok t"
  shows "iter_input_refs (enc_tok t @ s) = bind_r (iter_input_refs s) (\<lambda>rs. Ok (refs_of t @ rs))"
  using assms by (cases rule: wf_tok_cases) (simp_all add: push_ops_distinct)

lemma opcodes_tok: 
  assumes "wf_tok t"
  shows "opcodes (enc_tok t @ s) = op_of t # opcodes s"
  using assms by (cases rule: wf_tok_cases) (simp_all add: push_ops_distinct)

lemma iter_input_refs_enc:
  "list_all wf_tok ts \<Longrightarrow> iter_input_refs (enc_script ts) = Ok (concat (map refs_of ts))"
  by (induction ts) (simp_all add: iter_input_refs_tok)

lemma opcodes_enc: "list_all wf_tok ts \<Longrightarrow> opcodes (enc_script ts) = map op_of ts"
  by (induction ts) (simp_all add: opcodes_tok)

lemma take_take_drop: "xs = take a xs @ take k (drop a xs) @ drop (a + k) xs"
  by (metis append_take_drop_id drop_drop add.commute)

lemma iter_input_refs_parse: "iter_input_refs s = Ok rs \<Longrightarrow> \<exists>ts. list_all wf_tok ts \<and> s = enc_script ts"
proof (induction s arbitrary: rs rule: iter_input_refs.induct)
  case 1
  show ?case by (intro exI [of _ "[]"]) simp
next
  case (2 op rest)
  have step: ?case if "wf_tok t" "\<exists>ts. list_all wf_tok ts \<and> s = enc_script ts" "op # rest = enc_tok t @ s" for t s
    using that by (elim exE conjE) (intro exI [of _ "t # _"], simp)
  consider (ref) "is_ref_op op" | (direct) "\<not> is_ref_op op" "is_direct_push op"
    | (p1) "op = 0x4C" | (p2) "op = 0x4D" | (p4) "op = 0x4E"
    | (plain) "\<not> is_ref_op op" "\<not> is_direct_push op" "op \<noteq> 0x4C" "op \<noteq> 0x4D" "op \<noteq> 0x4E" by blast
  then show ?case
  proof cases
    case ref
    with 2 show ?thesis
      by (intro step [of "RefT op (take 36 rest)" "drop 36 rest"]) (auto simp: bind_r_Ok_iff split: if_splits)
  next
    case direct
    with 2 show ?thesis
      by (intro step [of "PushT op [] (take (unat op) rest)" "drop (unat op) rest"])
        (auto simp: push_ops_distinct split: if_splits)
  next
    case p1
    with 2 obtain x xs where r: "rest = x # xs" "unat x \<le> length xs"
      by (cases rest) (auto simp: push_ops_distinct split: if_splits)
    with p1 2 show ?thesis
      by (intro step [of "PushT op [x] (take (unat x) xs)" "drop (unat x) xs"]) (auto simp: push_ops_distinct split: if_splits)
  next
    case p2
    let ?k = "le_val (take 2 rest)"
    from p2 2 have l: "2 + ?k \<le> length rest" by (auto simp: push_ops_distinct split: if_splits)
    have "rest = take 2 rest @ take ?k (drop 2 rest) @ drop (2 + ?k) rest" by (rule take_take_drop)
    with l p2 2 show ?thesis
      by (intro step [of "PushT op (take 2 rest) (take ?k (drop 2 rest))" "drop (2 + ?k) rest"])
        (auto simp: push_ops_distinct simp del: take_append drop_append split: if_splits)
  next
    case p4
    let ?k = "le_val (take 4 rest)"
    from p4 2 have l: "4 + ?k \<le> length rest" by (auto simp: push_ops_distinct split: if_splits)
    have "rest = take 4 rest @ take ?k (drop 4 rest) @ drop (4 + ?k) rest" by (rule take_take_drop)
    with l p4 2 show ?thesis
      by (intro step [of "PushT op (take 4 rest) (take ?k (drop 4 rest))" "drop (4 + ?k) rest"])
        (auto simp: push_ops_distinct simp del: take_append drop_append split: if_splits)
  next
    case plain
    with 2 show ?thesis by (intro step [of "Plain op" rest]) auto
  qed
qed

text \<open>The owners a script names: the pushes of its pay-to-public-key-hash patterns.\<close>

definition p2pkh_toks :: "bytes \<Rightarrow> byte \<Rightarrow> tok list" where
  "p2pkh_toks d c = [Plain 0x76, Plain 0xA9, PushT 0x14 [] d, Plain 0x88, Plain c]"

definition owners :: "tok list \<Rightarrow> bytes set" where
  "owners ts = {d. \<exists>c. (c = 0xAC \<or> c = 0xAD) \<and> (\<exists>a b. ts = a @ p2pkh_toks d c @ b)}"

lemma owners_Nil [simp]: "owners [] = {}"
  by (simp add: owners_def p2pkh_toks_def)

lemma owners_Cons: "owners (t # ts) = {d. \<exists>c. (c = 0xAC \<or> c = 0xAD) \<and> (\<exists>b. t # ts = p2pkh_toks d c @ b)} \<union> owners ts"
proof -
  have "(\<exists>a b. t # ts = a @ xs @ b) \<longleftrightarrow> (\<exists>b. t # ts = xs @ b) \<or> (\<exists>a b. ts = a @ xs @ b)" (is "?L \<longleftrightarrow> ?R") for xs
  proof
    assume ?L
    then obtain a b where ab: "t # ts = a @ xs @ b" by blast
    then show ?R by (cases a) auto
  next
    assume ?R
    then show ?L
    proof
      assume "\<exists>b. t # ts = xs @ b"
      then obtain b where "t # ts = [] @ xs @ b" by auto
      then show ?L by blast
    next
      assume "\<exists>a b. ts = a @ xs @ b"
      then obtain a b where "t # ts = (t # a) @ xs @ b" by auto
      then show ?L by blast
    qed
  qed
  then show ?thesis unfolding owners_def by (simp only:) blast
qed

lemma owners_skip: "t \<noteq> Plain 0x76 \<Longrightarrow> owners (t # ts) = owners ts"
  by (auto simp: owners_Cons p2pkh_toks_def)

lemma owner_walk_skip:
  assumes "wf_tok t" "t \<noteq> Plain 0x76"
  shows "owner_walk (enc_tok t @ s) = owner_walk s"
  using assms by (cases rule: wf_tok_cases) (simp_all add: push_ops_distinct)

lemma op_of_hd: "enc_tok t @ s = op_of t # tl (enc_tok t @ s)"
  by (cases t) auto

lemma enc_script_hd:
  assumes "list_all wf_tok ts" "enc_script ts = b # s" "\<not> is_ref_op b" "\<not> is_direct_push b" "b \<noteq> 0x4C" "b \<noteq> 0x4D" "b \<noteq> 0x4E"
  obtains ts' where "ts = Plain b # ts'" "enc_script ts' = s"
proof (cases ts)
  case Nil
  with assms show ?thesis by simp
next
  case (Cons t ts')
  with assms have "wf_tok t" by simp
  then show ?thesis using assms Cons that by (cases rule: wf_tok_cases) auto
qed

lemma enc_script_push20:
  assumes "list_all wf_tok ts" "enc_script ts = 0x14 # s"
  obtains d ts' where "ts = PushT 0x14 [] d # ts'" "length d = 20" "s = d @ enc_script ts'"
proof (cases ts)
  case Nil
  with assms show ?thesis by simp
next
  case (Cons t ts')
  with assms have "wf_tok t" by simp
  then show ?thesis using assms Cons that
    by (cases rule: wf_tok_cases) (auto simp: is_ref_op_def is_direct_push_def)
qed

text \<open>The byte test of the walk recognises the pattern at the front of the token list.\<close>

definition p2pkh_test :: "bytes \<Rightarrow> bool" where
  "p2pkh_test rest \<longleftrightarrow> 24 \<le> length rest \<and> rest ! 0 = 0xA9 \<and> rest ! 1 = 0x14 \<and> rest ! 22 = 0x88
     \<and> (rest ! 23 = 0xAC \<or> rest ! 23 = 0xAD)"

lemma p2pkh_test_tokens:
  assumes "list_all wf_tok ts" "p2pkh_test (enc_script ts)"
  obtains d c ts' where "c = 0xAC \<or> c = 0xAD" "Plain 0x76 # ts = p2pkh_toks d c @ ts'" "length d = 20"
proof -
  let ?s = "enc_script ts"
  from assms(2) obtain s1 where s1: "?s = 0xA9 # 0x14 # s1" "22 \<le> length s1" "s1 ! 20 = 0x88" "s1 ! 21 = 0xAC \<or> s1 ! 21 = 0xAD"
    by (cases ?s; cases "tl ?s") (auto simp: p2pkh_test_def)
  obtain ts1 where t1: "ts = Plain 0xA9 # ts1" "enc_script ts1 = 0x14 # s1"
    by (rule enc_script_hd [OF assms(1) s1(1)]) (auto simp: is_ref_op_def is_direct_push_def)
  with assms(1) have w1: "list_all wf_tok ts1" by simp
  from enc_script_push20 [OF w1 t1(2)] obtain d ts2 where d: "ts1 = PushT 0x14 [] d # ts2" "length d = 20" "s1 = d @ enc_script ts2" .
  with w1 have w2: "list_all wf_tok ts2" by simp
  from d s1 obtain c s3 where s3: "enc_script ts2 = 0x88 # c # s3" "c = 0xAC \<or> c = 0xAD"
    by (cases "enc_script ts2"; cases "tl (enc_script ts2)") (auto simp: nth_append)
  obtain ts3 where t3: "ts2 = Plain 0x88 # ts3" "enc_script ts3 = c # s3"
    by (rule enc_script_hd [OF w2 s3(1)]) (auto simp: is_ref_op_def is_direct_push_def)
  with w2 have w3: "list_all wf_tok ts3" by simp
  from s3(2) have c: "\<not> is_ref_op c" "\<not> is_direct_push c" "c \<noteq> 0x4C" "c \<noteq> 0x4D" "c \<noteq> 0x4E"
    by (auto simp: is_ref_op_def is_direct_push_def)
  obtain ts4 where "ts3 = Plain c # ts4" by (rule enc_script_hd [OF w3 t3(2) c])
  with t1 d t3 s3(2) that show ?thesis by (auto simp: p2pkh_toks_def)
qed

lemma p2pkh_test_enc: "length d = 20 \<Longrightarrow> c = 0xAC \<or> c = 0xAD \<Longrightarrow> p2pkh_test (0xA9 # 0x14 # d @ 0x88 # c # s)"
  by (auto simp: p2pkh_test_def nth_append nth_Cons')

lemma owner_walk_76:
  "owner_walk (0x76 # rest) = (if p2pkh_test rest then take 20 (drop 2 rest) # owner_walk (drop 24 rest) else owner_walk rest)"
  by (auto simp: p2pkh_test_def push_ops_distinct)

lemma owners_p2pkh:
  assumes "c = 0xAC \<or> c = 0xAD"
  shows "owners (p2pkh_toks d c @ ts) = insert d (owners ts)"
proof -
  have "owners (Plain 0xA9 # PushT 0x14 [] d # Plain 0x88 # Plain c # ts) = owners ts"
    using assms by (auto simp: owners_skip)
  with assms show ?thesis
    unfolding p2pkh_toks_def append_Cons append_Nil by (subst owners_Cons) (auto simp: p2pkh_toks_def)
qed

lemma owner_walk_enc: "list_all wf_tok ts \<Longrightarrow> set (owner_walk (enc_script ts)) = owners ts"
proof (induction ts rule: length_induct)
  case (1 ts)
  show ?case
  proof (cases ts)
    case (Cons t ts')
    with 1 have w: "wf_tok t" "list_all wf_tok ts'" by simp_all
    show ?thesis
    proof (cases "t = Plain 0x76")
      case False
      with 1 Cons w show ?thesis by (simp add: owner_walk_skip owners_skip)
    next
      case t: True
      show ?thesis
      proof (cases "p2pkh_test (enc_script ts')")
        case True
        from p2pkh_test_tokens [OF w(2) True] obtain d c ts'' where
          p: "c = 0xAC \<or> c = 0xAD" "Plain 0x76 # ts' = p2pkh_toks d c @ ts''" "length d = 20" .
        then have e: "enc_script ts' = 0xA9 # 0x14 # d @ 0x88 # c # enc_script ts''" and l: "length ts'' < length ts"
          and w'': "list_all wf_tok ts''"
          using w(2) by (auto simp: p2pkh_toks_def Cons)
        with 1 have ih: "set (owner_walk (enc_script ts'')) = owners ts''" by blast
        have "owner_walk (enc_script ts) = d # owner_walk (enc_script ts'')"
          using p(3) True unfolding Cons t enc_script_simps enc_tok.simps append_Cons append_Nil owner_walk_76 e by simp
        with ih owners_p2pkh [OF p(1), of d ts''] p(2) Cons t show ?thesis by simp
      next
        case False
        have "owners ts = owners ts'"
        proof -
          have "p2pkh_test (enc_script ts')" if "c = 0xAC \<or> c = 0xAD" "t # ts' = p2pkh_toks d c @ b" for d c b
          proof -
            from that w have "length d = 20" "enc_script ts' = 0xA9 # 0x14 # d @ 0x88 # c # enc_script b"
              by (auto simp: p2pkh_toks_def)
            with p2pkh_test_enc that show ?thesis by simp
          qed
          with False show ?thesis unfolding Cons owners_Cons by blast
        qed
        moreover have "owner_walk (enc_script ts) = owner_walk (enc_script ts')"
          using False unfolding Cons t enc_script_simps enc_tok.simps append_Cons append_Nil owner_walk_76 by simp
        ultimately show ?thesis using 1 Cons w by simp
      qed
    qed
  qed simp
qed

lemma distinct_single: "distinct xs \<Longrightarrow> xs = [x] \<longleftrightarrow> set xs = {x}"
proof
  assume d: "distinct xs" and s: "set xs = {x}"
  then have "length xs = card {x}" using distinct_card [of xs] by simp
  then obtain y where "xs = [y]" by (auto simp: length_Suc_conv)
  with s show "xs = [x]" by simp
qed simp

lemma extract_owner_pkh_iff: "extract_owner_pkh spk = Some pkh \<longleftrightarrow> set (owner_walk spk) = {pkh}"
proof -
  have "extract_owner_pkh spk = Some pkh \<longleftrightarrow> remdups (owner_walk spk) = [pkh]"
    by (auto simp: extract_owner_pkh_def split: list.splits)
  then show ?thesis using distinct_single [of "remdups (owner_walk spk)" pkh] by simp
qed

lemma add_count_keys:
  "distinct (map fst cs) \<Longrightarrow> distinct (map fst (add_count r cs)) \<and> fst ` set (add_count r cs) = insert r (fst ` set cs)"
  by (induction cs rule: add_count.induct) auto

lemma counts_keys:
  "distinct (map fst cs) \<Longrightarrow>
     distinct (map fst (fold (\<lambda>(_, r) cs. add_count r cs) rs cs))
     \<and> fst ` set (fold (\<lambda>(_, r) cs. add_count r cs) rs cs) = snd ` set rs \<union> fst ` set cs"
proof (induction rs arbitrary: cs)
  case (Cons p rs)
  obtain b r where p: "p = (b, r)" by (cases p)
  from add_count_keys [OF Cons.prems, of r] Cons.IH [of "add_count r cs"] show ?case by (auto simp: p)
qed simp

definition self_replicates :: "byte list \<Rightarrow> bool" where
  "self_replicates ops \<longleftrightarrow> any_op ops SELF_BYTECODE_OPS
     \<and> (any_op ops OUTPUT_BYTECODE_OPS \<and> (0x87 \<in> set ops \<or> 0x88 \<in> set ops) \<or> any_op ops CODESCRIPTHASH_COUNT_OPS)"

lemma classify_enc:
  assumes "list_all wf_tok ts"
  shows "is_consensus_soulbound (classify_soulbound (enc_script ts)) \<longleftrightarrow>
      0xD8 \<in> op_of ` set ts \<and> self_replicates (map op_of ts)"
    and "0xD8 \<in> op_of ` set ts \<Longrightarrow>
      bound_ref (classify_soulbound (enc_script ts)) = Some r \<longleftrightarrow> snd ` set (concat (map refs_of ts)) = {r}"
proof -
  let ?cs = "fold (\<lambda>(_, r) cs. add_count r cs) (concat (map refs_of ts)) []"
  have c: "count_input_refs (enc_script ts) = Ok ?cs"
    by (simp add: count_input_refs_def iter_input_refs_enc [OF assms])
  have k: "distinct (map fst ?cs)" "set (map fst ?cs) = snd ` set (concat (map refs_of ts))"
    using counts_keys [of "[]" "concat (map refs_of ts)"] by simp_all
  show "is_consensus_soulbound (classify_soulbound (enc_script ts)) \<longleftrightarrow>
      0xD8 \<in> op_of ` set ts \<and> self_replicates (map op_of ts)"
    by (auto simp: classify_soulbound_def c opcodes_enc [OF assms] Let_def is_consensus_soulbound_def self_replicates_def)
  show "bound_ref (classify_soulbound (enc_script ts)) = Some r \<longleftrightarrow> snd ` set (concat (map refs_of ts)) = {r}"
    if "0xD8 \<in> op_of ` set ts"
  proof -
    have "bound_ref (classify_soulbound (enc_script ts)) = Some r \<longleftrightarrow> map fst ?cs = [r]"
      using that by (auto simp: classify_soulbound_def c opcodes_enc [OF assms] Let_def split: list.splits)
    with k distinct_single [OF k(1), of r] show ?thesis by simp
  qed
qed

lemma classify_parse:
  assumes "is_consensus_soulbound (classify_soulbound spk)"
  shows "\<exists>ts. list_all wf_tok ts \<and> spk = enc_script ts"
proof (cases "iter_input_refs spk")
  case (Inl e)
  with assms show ?thesis by (simp add: classify_soulbound_def count_input_refs_def is_consensus_soulbound_def)
next
  case (Inr rs)
  then show ?thesis by (rule iter_input_refs_parse)
qed

lemma singleton_ref_tok:
  assumes "list_all wf_tok ts" "snd ` set (concat (map refs_of ts)) = {r}"
  shows "0xD8 \<in> op_of ` set ts \<longleftrightarrow> RefT 0xD8 r \<in> set ts"
proof
  assume "0xD8 \<in> op_of ` set ts"
  then obtain t where t: "t \<in> set ts" "op_of t = 0xD8" by auto
  with assms(1) have w: "wf_tok t" by (simp add: list_all_iff)
  from w t(2) obtain q where q: "t = RefT 0xD8 q"
    by (cases rule: wf_tok_cases) (auto simp: is_ref_op_def is_direct_push_def)
  with t have "q \<in> snd ` set (concat (map refs_of ts))" by force
  with assms(2) q t show "RefT 0xD8 r \<in> set ts" by simp
qed force

section \<open>Properties\<close>


end
