(* ===== verification/Seen_Store.thy ===== *)
theory Seen_Store
  imports Prelude
begin

text \<open>
  The stores of used hashlocks: \<open>SeenStore\<close> of \<open>pyrxd/gravity/radiant_leg.py\<close>, a set in memory, and
  \<open>DurableSeenStore\<close> of \<open>pyrxd/gravity/seen_store.py\<close>, an SQLite table keyed by the hashlock. The
  contract \<open>seen_store\<close> is what the coordinator relies on; both stores satisfy it.
\<close>

section \<open>The store in memory\<close>

type_synonym mem_store = "bytes set"

definition mem_reserve :: "bytes \<Rightarrow> mem_store \<Rightarrow> bool result \<times> mem_store" where
  "mem_reserve h seen = (if h \<in> seen then (Ok False, seen) else (Ok True, insert h seen))"

definition mem_has_seen :: "bytes \<Rightarrow> mem_store \<Rightarrow> bool result" where
  "mem_has_seen h seen = Ok (h \<in> seen)"

definition mem_mark_seen :: "bytes \<Rightarrow> mem_store \<Rightarrow> unit result \<times> mem_store" where
  "mem_mark_seen h seen = (Ok (), insert h seen)"

section \<open>The SQLite store\<close>

text \<open>
  The rows of the table, and whether the database answers: an operation on a database that does
  not raises and changes nothing.
\<close>

record db_store =
  rows :: "bytes set"
  available :: bool

definition db_h :: "bytes \<Rightarrow> bytes result" where
  "db_h h = (if length h \<noteq> 32 then Err ValidationError else Ok h)"

text \<open>\<open>INSERT OR IGNORE\<close>: the number of rows inserted, and the table.\<close>

definition insert_or_ignore :: "bytes \<Rightarrow> db_store \<Rightarrow> nat result \<times> db_store" where
  "insert_or_ignore h db =
     (if \<not> available db then (Err OtherError, db)
      else if h \<in> rows db then (Ok 0, db)
      else (Ok 1, db\<lparr>rows := insert h (rows db)\<rparr>))"

definition db_reserve :: "bytes \<Rightarrow> db_store \<Rightarrow> bool result \<times> db_store" where
  "db_reserve hashlock db =
     (case db_h hashlock of
        Inl e \<Rightarrow> (Err e, db)
      | Inr h \<Rightarrow>
          (case insert_or_ignore h db of
             (Inl e, db') \<Rightarrow> (Err e, db')
           | (Inr rowcount, db') \<Rightarrow> (Ok (rowcount = 1), db')))"

definition db_has_seen :: "bytes \<Rightarrow> db_store \<Rightarrow> bool result" where
  "db_has_seen hashlock db =
     bind_r (db_h hashlock) (\<lambda>h. if available db then Ok (h \<in> rows db) else Err OtherError)"

definition db_mark_seen :: "bytes \<Rightarrow> db_store \<Rightarrow> unit result \<times> db_store" where
  "db_mark_seen hashlock db =
     (case db_h hashlock of
        Inl e \<Rightarrow> (Err e, db)
      | Inr h \<Rightarrow>
          (case insert_or_ignore h db of
             (Inl e, db') \<Rightarrow> (Err e, db')
           | (Inr _, db') \<Rightarrow> (Ok (), db')))"

section \<open>The contract\<close>

text \<open>
  \<open>seen\<close> reads the set of used hashlocks off a store. A reservation is a test-and-set: it is
  granted exactly to a new hashlock, which is then used; refusals and failures change nothing.
\<close>

locale seen_store =
  fixes reserve :: "bytes \<Rightarrow> 's \<Rightarrow> bool result \<times> 's"
    and has_seen :: "bytes \<Rightarrow> 's \<Rightarrow> bool result"
    and seen :: "'s \<Rightarrow> bytes set"
  assumes reserve_granted: "reserve h s = (Ok True, s') \<Longrightarrow> h \<notin> seen s \<and> seen s' = insert h (seen s)"
    and reserve_refused: "reserve h s = (Ok False, s') \<Longrightarrow> h \<in> seen s \<and> seen s' = seen s"
    and reserve_failed: "reserve h s = (Err e, s') \<Longrightarrow> seen s' = seen s"
    and has_seen_truth: "has_seen h s = Ok b \<Longrightarrow> b \<longleftrightarrow> h \<in> seen s"
begin

lemma reserve_grows: "reserve h s = (r, s') \<Longrightarrow> seen s \<subseteq> seen s' \<and> seen s' \<subseteq> insert h (seen s)"
proof -
  assume *: "reserve h s = (r, s')"
  show ?thesis
  proof (cases r)
    case (Inl e)
    with * show ?thesis using reserve_failed [of h s e s'] by auto
  next
    case (Inr b)
    with * show ?thesis using reserve_granted [of h s s'] reserve_refused [of h s s'] by (cases b) auto
  qed
qed

lemma granted_once:
  assumes "reserve h s = (Ok True, s')" "seen s' \<subseteq> seen t"
  shows "reserve h t \<noteq> (Ok True, t')"
  using assms reserve_granted [of h s s'] reserve_granted [of h t t'] by auto

end

interpretation mem: seen_store mem_reserve mem_has_seen "\<lambda>s. s"
  by unfold_locales (auto simp: mem_reserve_def mem_has_seen_def split: if_splits)

interpretation db: seen_store db_reserve db_has_seen rows
  by unfold_locales
    (auto simp: db_reserve_def db_has_seen_def db_h_def insert_or_ignore_def split: if_splits)

end
