(* ===== verification/Coordinator.thy ===== *)
theory Coordinator
  imports Margin Btc_Raw Credential Seen_Store
begin

text \<open>
  \<open>pyrxd/gravity/swap_coordinator.py\<close>: the coordinator that drives one swap against injected chain
  legs, an indexer, a store of used hashlocks and a durable-write hook. Each \<open>async\<close> method is a
  function from the coordinator's state to a result and a new state; a raised exception keeps the
  changes made before it. The injected objects are the fields of \<open>env\<close>: arbitrary functions that
  may answer differently in every call, raise, or be cancelled. The state logs every call that
  leaves the process, in order, at the moment it is made. Zeroizing the preimage and the log
  messages have no counterpart.
\<close>

section \<open>State, environment and the monad of steps\<close>

datatype effect =
    EPersist swap_record
  | EReserve bytes
  | EFund terms
  | ECounterClaim swap_record bytes
  | ECounterRefund swap_record
  | EClaimAsset swap_record bytes
  | ERefundAsset swap_record

record 's coord =
  the_record :: swap_record
  store :: 's
  durable_record :: "swap_record option"
  trace :: "effect list"

record 's store_ops =
  st_reserve :: "bytes \<Rightarrow> 's \<Rightarrow> bool result \<times> 's"
  st_has_seen :: "bytes \<Rightarrow> 's \<Rightarrow> bool result"
  st_durable :: bool

record env =
  resolve_ref :: "bytes \<Rightarrow> resolved_ref option result"
  resolve_credential :: "(bytes \<Rightarrow> resolved_credential option result) option"
  derive_funding_spk :: "terms \<Rightarrow> bytes result"
  promised_funding_spk :: "terms \<Rightarrow> bytes result"
  leg_fund :: "terms \<Rightarrow> locator result"
  locked_amount :: "locator \<Rightarrow> int result"
  leg_claim :: "locator \<Rightarrow> bytes \<Rightarrow> unit result"
  leg_refund :: "locator \<Rightarrow> timelock \<Rightarrow> unit result"
  leg_scrape_tx :: "bytes \<Rightarrow> bytes \<Rightarrow> bytes result"
  confirmations_of_claim :: "bytes \<Rightarrow> int result"
  fetch_claim_artifacts :: "bytes \<Rightarrow> bytes list result"
  leg_scrape_artifacts :: "bytes list \<Rightarrow> bytes \<Rightarrow> bytes result"
  assert_claim_provenance :: "bytes \<Rightarrow> string \<Rightarrow> bytes \<Rightarrow> unit result"
  claim_finality_verdict :: "bytes \<Rightarrow> counter_claim_finality result"
  verify_counterparty_funded :: "(string \<Rightarrow> terms \<Rightarrow> bool \<Rightarrow> locator result) option"
  expected_covenant_spk :: "terms \<Rightarrow> bytes result"
  covenant_outpoint :: "terms \<Rightarrow> string result"
  claim_asset :: "swap_record \<Rightarrow> bytes \<Rightarrow> unit result"
  refund_asset :: "swap_record \<Rightarrow> unit result"
  persist_hook :: "(swap_record \<Rightarrow> unit result) option"

type_synonym ('s, 'a) act = "'s coord \<Rightarrow> 'a result \<times> 's coord"

definition ret :: "'a \<Rightarrow> ('s, 'a) act" where
  "ret x = (\<lambda>c. (Ok x, c))"

definition lift_r :: "'a result \<Rightarrow> ('s, 'a) act" where
  "lift_r r = (\<lambda>c. (r, c))"

definition bind_s :: "('s, 'a) act \<Rightarrow> ('a \<Rightarrow> ('s, 'b) act) \<Rightarrow> ('s, 'b) act" where
  "bind_s m f = (\<lambda>c. case m c of (Inl e, c') \<Rightarrow> (Inl e, c') | (Inr x, c') \<Rightarrow> f x c')"

definition require :: "bool \<Rightarrow> ('s, unit) act" where
  "require b = lift_r (if b then Ok () else Err ValidationError)"

definition get_record :: "('s, swap_record) act" where
  "get_record = (\<lambda>c. (Ok (the_record c), c))"

definition put_record :: "swap_record result \<Rightarrow> ('s, unit) act" where
  "put_record r = (\<lambda>c. case r of Inl e \<Rightarrow> (Inl e, c) | Inr r' \<Rightarrow> (Ok (), c\<lparr>the_record := r'\<rparr>))"

definition emit :: "effect \<Rightarrow> ('s, unit) act" where
  "emit e = (\<lambda>c. (Ok (), c\<lparr>trace := trace c @ [e]\<rparr>))"

text \<open>\<open>except ValidationError: handler; raise\<close>\<close>

definition on_validation_error :: "('s, 'a) act \<Rightarrow> ('s, unit) act \<Rightarrow> ('s, 'a) act" where
  "on_validation_error m h =
     (\<lambda>c. case m c of
        (Inl e, c') \<Rightarrow>
          if e = ValidationError
          then (case h c' of (Inl e', c'') \<Rightarrow> (Inl e', c'') | (Inr _, c'') \<Rightarrow> (Inl e, c''))
          else (Inl e, c')
      | (Inr x, c') \<Rightarrow> (Inr x, c'))"

section \<open>Configuration and construction\<close>

record config =
  policy :: margin_policy
  maker_stall_safety_window_blocks :: int
  min_ref_confirmations :: int
  accept_nondurable_seen :: bool
  accept_estimated_eth_margins :: bool
  min_credential_confirmations :: int

definition CoordinatorConfig :: "config \<Rightarrow> config result" where
  "CoordinatorConfig cfg =
     (if maker_stall_safety_window_blocks cfg < 0 then Err ValidationError
      else if min_ref_confirmations cfg < 0 then Err ValidationError
      else if min_credential_confirmations cfg < 0 then Err ValidationError
      else Ok cfg)"

definition AUDIT_CLEARED_NETWORKS :: "string set" where
  "AUDIT_CLEARED_NETWORKS = {''bcrt'', ''regtest'', ''tb'', ''signet'', ''rltc'', ''tltc''}"

text \<open>The \<open>network\<close> tag of a leg, \<open>None\<close> for a leg without one.\<close>

definition leg_is_value_bearing :: "string option \<Rightarrow> bool" where
  "leg_is_value_bearing net =
     (case net of None \<Rightarrow> False | Some n \<Rightarrow> n \<noteq> [] \<and> n \<notin> AUDIT_CLEARED_NETWORKS)"

text \<open>
  The gates of \<open>SwapCoordinator.__init__\<close>, in their order: the two leg arguments (of which
  exactly one must be given), then durability, burial, value, margins, window and stall floor.
\<close>

definition stall_window_floor :: "margin_policy \<Rightarrow> int \<Rightarrow> int" where
  "stall_window_floor mp window =
     ceil_div window (rxd_block_interval_s mp)
     + reserve_to_blocks (rxd_claim_burial mp) (block_interval_s mp) - 1"

definition SwapCoordinator ::
  "swap_record \<Rightarrow> string option option \<Rightarrow> string option option \<Rightarrow> string option \<Rightarrow> 's store_ops \<Rightarrow> config \<Rightarrow> unit result"
where
  "SwapCoordinator rec counter_leg btc_leg radiant_net ops cfg =
     (let mp = policy cfg; t = sr_terms rec in
      if counter_leg \<noteq> None \<and> btc_leg \<noteq> None then Err ValidationError
      else case (if counter_leg \<noteq> None then counter_leg else btc_leg) of
        None \<Rightarrow> Err ValidationError
      | Some leg_net \<Rightarrow>
          let value_bearing = leg_is_value_bearing leg_net \<or> leg_is_value_bearing radiant_net in
          if value_bearing \<and> \<not> st_durable ops \<and> \<not> accept_nondurable_seen cfg then Err ValidationError
          else if leg_is_value_bearing radiant_net \<and> \<not> accept_flat_burial mp
              \<and> (rxd_reorg_cost_per_block mp = None \<or> value_at_risk_photons mp = None) then Err ValidationError
          else if leg_is_value_bearing radiant_net \<and> asset_variant t = ''rxd''
              \<and> (case value_at_risk_photons mp of None \<Rightarrow> False | Some v \<Rightarrow> v < radiant_amount t)
            then Err ValidationError
          else if value_bearing \<and> counter_chain t \<noteq> ''btc'' \<and> \<not> is_measured mp
              \<and> \<not> accept_estimated_eth_margins cfg then Err ValidationError
          else if counter_chain t \<noteq> ''btc'' then
            (case eth_finalization_window_s mp of
               None \<Rightarrow> Err ValidationError
             | Some w \<Rightarrow>
                 if is_measured mp \<and> maker_stall_safety_window_blocks cfg < stall_window_floor mp w
                 then Err ValidationError else Ok ())
          else Ok ())"

section \<open>Advancing and persisting\<close>

definition advance_act :: "swap_event \<Rightarrow> ('s, unit) act" where
  "advance_act ev =
     bind_s get_record (\<lambda>r.
     bind_s (lift_r (advance (sr_state r) ev)) (\<lambda>st.
       put_record (with_state r st)))"

text \<open>
  A shielded write completes although the awaiting task is cancelled: the cancellation is raised,
  the record is written.
\<close>

definition persist_record :: "env \<Rightarrow> bool \<Rightarrow> ('s, unit) act" where
  "persist_record E shield =
     (case persist_hook E of
        None \<Rightarrow> ret ()
      | Some hook \<Rightarrow>
          bind_s get_record (\<lambda>r.
          bind_s (emit (EPersist r)) (\<lambda>_ c.
            (case hook r of
               Inr u \<Rightarrow> (Ok (), c\<lparr>durable_record := Some r\<rparr>)
             | Inl e \<Rightarrow>
                 if e = CancelledError \<and> shield then (Err e, c\<lparr>durable_record := Some r\<rparr>) else (Err e, c)))))"

section \<open>The gate before funding\<close>

definition assert_eth_timelock_ordering :: "config \<Rightarrow> terms \<Rightarrow> int option \<Rightarrow> unit result" where
  "assert_eth_timelock_ordering cfg t now =
     (case (now, eth_timeout_unix_s t, cross_clock_margin_of (policy cfg), max_covenant_confirm_wait_s (policy cfg)) of
        (Some now_unix_s, Some timeout, Some m, Some wait) \<Rightarrow>
          assert_covenant_confirms_before_eth_deadline now_unix_s timeout m (t_rxd t)
            (rxd_block_interval_s (policy cfg)) wait
      | _ \<Rightarrow> Err ValidationError)"

text \<open>
  A gate is passed or refused; \<open>catch_validation\<close> and \<open>catch_any\<close> are \<open>except ValidationError\<close> and
  \<open>except Exception\<close> with a refusal as handler. A cancellation is not an \<open>Exception\<close>.
\<close>

definition catch_validation :: "'a result \<Rightarrow> ('a \<Rightarrow> bool result) \<Rightarrow> bool result" where
  "catch_validation r k =
     (case r of Inl e \<Rightarrow> (if e = ValidationError then Ok False else Err e) | Inr x \<Rightarrow> k x)"

definition catch_any :: "'a result \<Rightarrow> ('a \<Rightarrow> bool result) \<Rightarrow> bool result" where
  "catch_any r k =
     (case r of Inl e \<Rightarrow> (if e = CancelledError then Err e else Ok False) | Inr x \<Rightarrow> k x)"

definition credential_gate :: "config \<Rightarrow> env \<Rightarrow> terms \<Rightarrow> bool result" where
  "credential_gate cfg E t =
     (if credential_ref t = [] then Ok True
      else case resolve_credential E of
        None \<Rightarrow> Ok False
      | Some resolve \<Rightarrow>
          catch_any (resolve (credential_ref t)) (\<lambda>cred.
            case cred of None \<Rightarrow> Ok False
            | Some cr \<Rightarrow>
                catch_any (assert_soulbound_credential cr (min_credential_confirmations cfg) (Some (credential_ref t)))
                  (\<lambda>owner. catch_any (holder_hash owner (asset_variant t) (genesis_ref t)) (\<lambda>expected.
                    Ok (expected = taker_dest_hash t)))))"

definition pre_btc_lock_check ::
  "config \<Rightarrow> 's store_ops \<Rightarrow> env \<Rightarrow> terms \<Rightarrow> int option \<Rightarrow> 's \<Rightarrow> bool result"
where
  "pre_btc_lock_check cfg ops E t now s =
     catch_validation
       (verify_ref_authenticity (resolve_ref E) (genesis_ref t) (asset_variant t) (min_ref_confirmations cfg) None)
       (\<lambda>_. bind_r (credential_gate cfg E t) (\<lambda>cred_ok.
         if \<not> cred_ok then Ok False
         else catch_any (st_has_seen ops (hashlock t) s) (\<lambda>seen.
           if seen then Ok False
           else catch_validation
             (if counter_chain t = ''btc'' then assert_timelock_margin (t_btc t) (t_rxd t) (policy cfg)
              else assert_eth_timelock_ordering cfg t now)
             (\<lambda>_. catch_any (derive_funding_spk E t) (\<lambda>expected_spk.
                  catch_any (promised_funding_spk E t) (\<lambda>promised_spk.
                    Ok (expected_spk = promised_spk)))))))"

section \<open>Taker funds the counter leg\<close>

definition reserve_act :: "'s store_ops \<Rightarrow> bytes \<Rightarrow> ('s, bool) act" where
  "reserve_act ops h =
     (\<lambda>c. case st_reserve ops h (store c) of
        (Inl e, s') \<Rightarrow> (Err ValidationError, c\<lparr>store := s'\<rparr>)
      | (Inr b, s') \<Rightarrow> (Ok b, c\<lparr>store := s', trace := (if b then trace c @ [EReserve h] else trace c)\<rparr>))"

definition taker_funds_btc :: "config \<Rightarrow> 's store_ops \<Rightarrow> env \<Rightarrow> terms \<Rightarrow> int option \<Rightarrow> ('s, unit) act" where
  "taker_funds_btc cfg ops E t now =
     bind_s get_record (\<lambda>r.
     bind_s (require (sr_state r = NEGOTIATED)) (\<lambda>_.
     bind_s (\<lambda>c. (pre_btc_lock_check cfg ops E t now (store c), c)) (\<lambda>ok.
     bind_s (require ok) (\<lambda>_.
     bind_s (persist_record E False) (\<lambda>_.
     bind_s (reserve_act ops (hashlock t)) (\<lambda>reserved.
     bind_s (require reserved) (\<lambda>_.
     bind_s (emit (EFund t)) (\<lambda>_.
     bind_s (lift_r (leg_fund E t)) (\<lambda>loc.
     bind_s (lift_r (locked_amount E loc)) (\<lambda>funded.
     bind_s (require (funded = value_amount t)) (\<lambda>_.
     bind_s (put_record (with_counter_lock r loc)) (\<lambda>_.
     bind_s (advance_act TAKER_FUNDS_BTC) (\<lambda>_.
       persist_record E True)))))))))))))"

section \<open>Covenant lock\<close>

definition assert_eth_lock_timing_still_safe :: "config \<Rightarrow> terms \<Rightarrow> int option \<Rightarrow> unit result" where
  "assert_eth_lock_timing_still_safe cfg t now =
     (case (now, eth_timeout_unix_s t, cross_clock_margin_of (policy cfg)) of
        (Some now_unix_s, Some timeout, Some m) \<Rightarrow>
          assert_covenant_confirms_before_eth_deadline now_unix_s timeout m (t_rxd t)
            (rxd_block_interval_s (policy cfg)) 0
      | _ \<Rightarrow> Err ValidationError)"

definition assert_eth_counter_funding_verified :: "config \<Rightarrow> env \<Rightarrow> int option \<Rightarrow> ('s, unit) act" where
  "assert_eth_counter_funding_verified cfg E now =
     bind_s get_record (\<lambda>r.
       case counterchain_locator r of
         Some (EthLoc l) \<Rightarrow>
           (case verify_counterparty_funded E of
              None \<Rightarrow> bind_s (persist_record E True) (\<lambda>_. lift_r (Err ValidationError))
            | Some verify \<Rightarrow>
                on_validation_error
                  (bind_s (lift_r (verify (contract_address l) (sr_terms r) (is_measured (policy cfg)))) (\<lambda>reverified.
                   bind_s (put_record (with_counter_lock r reverified)) (\<lambda>_.
                     lift_r (assert_eth_lock_timing_still_safe cfg (sr_terms r) now))))
                  (persist_record E True))
       | _ \<Rightarrow> bind_s (persist_record E True) (\<lambda>_. lift_r (Err ValidationError)))"

definition post_asset_lock_revalidate :: "config \<Rightarrow> env \<Rightarrow> bytes \<Rightarrow> int option \<Rightarrow> ('s, unit) act" where
  "post_asset_lock_revalidate cfg E observed now =
     bind_s get_record (\<lambda>r.
     bind_s (require (sr_state r = BTC_LOCKED)) (\<lambda>_.
       case expected_covenant_spk E (sr_terms r) of
         Inl e \<Rightarrow>
           if e = CancelledError then lift_r (Err e)
           else
             bind_s (put_record (with_radiant_lock r ''<unverifiable>'' (hex observed))) (\<lambda>_.
             bind_s (advance_act MAKER_LOCKS_WRONG_PARAMS) (\<lambda>_.
             bind_s (persist_record E True) (\<lambda>_.
               lift_r (Err ValidationError))))
       | Inr expected \<Rightarrow>
           bind_s (lift_r (covenant_outpoint E (sr_terms r))) (\<lambda>outpoint.
           bind_s (put_record (with_radiant_lock r outpoint (hex observed))) (\<lambda>_.
             if observed \<noteq> expected then
               bind_s (advance_act MAKER_LOCKS_WRONG_PARAMS) (\<lambda>_. persist_record E True)
             else
               bind_s (if counter_chain (sr_terms r) \<noteq> ''btc''
                       then assert_eth_counter_funding_verified cfg E now else ret ()) (\<lambda>_.
               bind_s (advance_act MAKER_LOCKS_ASSET) (\<lambda>_.
                 persist_record E True))))))"

definition maker_verify_counter_funding :: "env \<Rightarrow> string \<Rightarrow> ('s, unit) act" where
  "maker_verify_counter_funding E addr =
     bind_s get_record (\<lambda>r.
     bind_s (require (counter_chain (sr_terms r) = ''eth'')) (\<lambda>_.
       case verify_counterparty_funded E of
         None \<Rightarrow> lift_r (Err ValidationError)
       | Some verify \<Rightarrow>
           bind_s (lift_r (verify addr (sr_terms r) False)) (\<lambda>loc.
           bind_s (put_record (with_counter_lock r loc)) (\<lambda>_.
             persist_record E True))))"

section \<open>Claims\<close>

definition maker_claims_btc :: "env \<Rightarrow> bytes \<Rightarrow> ('s, unit) act" where
  "maker_claims_btc E raw =
     bind_s get_record (\<lambda>r.
     bind_s (require (sr_state r = BOTH_LOCKED)) (\<lambda>_.
       case counterchain_locator r of
         None \<Rightarrow> lift_r (Err ValidationError)
       | Some loc \<Rightarrow>
           bind_s (require (sha256 raw = hashlock (sr_terms r))) (\<lambda>_.
           bind_s (emit (ECounterClaim r raw)) (\<lambda>_.
           bind_s (lift_r (leg_claim E loc raw)) (\<lambda>_.
           bind_s (advance_act MAKER_CLAIMS_BTC_REVEALS_P) (\<lambda>_.
             persist_record E True))))))"

definition assert_claim_tx_spends_our_htlc :: "swap_record \<Rightarrow> bytes \<Rightarrow> unit result" where
  "assert_claim_tx_spends_our_htlc r tx =
     (case counterchain_locator r of
        None \<Rightarrow> Err ValidationError
      | Some (EthLoc l) \<Rightarrow> Err OtherError
      | Some (BtcLoc l) \<Rightarrow>
          bind_r (prevout_bytes (funding_outpoint l)) (\<lambda>expected.
          bind_r (btc_input_outpoints_from_raw tx) (\<lambda>prevouts.
            if expected \<notin> set prevouts then Err ValidationError else Ok ())))"

text \<open>What all claims end with: the broadcast on Radiant, the transition, the write.\<close>

definition claim_and_complete :: "env \<Rightarrow> bytes \<Rightarrow> ('s, unit) act" where
  "claim_and_complete E p =
     bind_s get_record (\<lambda>r.
     bind_s (emit (EClaimAsset r p)) (\<lambda>_.
     bind_s (lift_r (claim_asset E r p)) (\<lambda>_.
     bind_s (advance_act TAKER_SCRAPES_P_CLAIMS_ASSET) (\<lambda>_.
       persist_record E True))))"

text \<open>The three outcomes of the reorganisation gate.\<close>

definition act_on_finality :: "env \<Rightarrow> bytes \<Rightarrow> claim_finality \<Rightarrow> ('s, unit) act" where
  "act_on_finality E p f =
     (case f of
        WAIT \<Rightarrow> ret ()
      | SQUEEZED \<Rightarrow> bind_s (advance_act TAKER_OFFLINE_OR_PINNED) (\<lambda>_. persist_record E True)
      | SAFE \<Rightarrow> claim_and_complete E p)"

definition btc_claim_verdict :: "margin_policy \<Rightarrow> int \<Rightarrow> counter_claim_finality result" where
  "btc_claim_verdict mp confs =
     bind_r (normalize_to (btc_claim_reorg_depth mp) BLOCKS (block_interval_s mp)) (\<lambda>d.
       from_btc_depth confs (tl_value d))"

definition taker_scrape_and_claim_eth :: "config \<Rightarrow> env \<Rightarrow> bytes \<Rightarrow> int \<Rightarrow> int \<Rightarrow> ('s, unit) act" where
  "taker_scrape_and_claim_eth cfg E tx_hash now_rxd locked_at =
     bind_s get_record (\<lambda>r.
     bind_s (require (sr_state r = SECRET_REVEALED)) (\<lambda>_.
       case counterchain_locator r of
         Some (EthLoc l) \<Rightarrow>
           bind_s (lift_r (fetch_claim_artifacts E tx_hash)) (\<lambda>arts.
           bind_s (lift_r (leg_scrape_artifacts E arts (hashlock (sr_terms r)))) (\<lambda>p.
           bind_s (require (sha256 p = hashlock (sr_terms r))) (\<lambda>_.
           bind_s (lift_r (assert_claim_provenance E tx_hash (contract_address l) p)) (\<lambda>_.
           bind_s (lift_r (claim_finality_verdict E tx_hash)) (\<lambda>vd.
           bind_s (lift_r (assess_claim_finality vd now_rxd locked_at (t_rxd (sr_terms r)) (policy cfg) None))
             (act_on_finality E p))))))
       | _ \<Rightarrow> lift_r (Err ValidationError)))"

definition taker_scrape_and_claim_asset :: "config \<Rightarrow> env \<Rightarrow> bytes \<Rightarrow> int \<Rightarrow> int \<Rightarrow> ('s, unit) act" where
  "taker_scrape_and_claim_asset cfg E tx now_rxd locked_at =
     bind_s get_record (\<lambda>r.
       if counter_chain (sr_terms r) \<noteq> ''btc'' then taker_scrape_and_claim_eth cfg E tx now_rxd locked_at
       else
         bind_s (require (sr_state r = SECRET_REVEALED)) (\<lambda>_.
         bind_s (lift_r (leg_scrape_tx E tx (hashlock (sr_terms r)))) (\<lambda>p.
         bind_s (require (sha256 p = hashlock (sr_terms r))) (\<lambda>_.
         bind_s (lift_r (assert_claim_tx_spends_our_htlc r tx)) (\<lambda>_.
         bind_s (lift_r (confirmations_of_claim E tx)) (\<lambda>confs.
         bind_s (lift_r (btc_claim_verdict (policy cfg) confs)) (\<lambda>vd.
         bind_s (lift_r (assess_claim_finality vd now_rxd locked_at (t_rxd (sr_terms r)) (policy cfg) None))
           (act_on_finality E p))))))))"

definition taker_claim_eth_from_vulnerable :: "env \<Rightarrow> bytes \<Rightarrow> ('s, unit) act" where
  "taker_claim_eth_from_vulnerable E tx_hash =
     bind_s get_record (\<lambda>r.
     bind_s (require (sr_state r = ASSET_VULNERABLE)) (\<lambda>_.
       case counterchain_locator r of
         Some (EthLoc l) \<Rightarrow>
           bind_s (lift_r (fetch_claim_artifacts E tx_hash)) (\<lambda>arts.
           bind_s (lift_r (leg_scrape_artifacts E arts (hashlock (sr_terms r)))) (\<lambda>p.
           bind_s (require (sha256 p = hashlock (sr_terms r))) (\<lambda>_.
           bind_s (lift_r (assert_claim_provenance E tx_hash (contract_address l) p)) (\<lambda>_.
             claim_and_complete E p))))
       | _ \<Rightarrow> lift_r (Err ValidationError)))"

definition taker_claim_asset_from_vulnerable :: "env \<Rightarrow> bytes \<Rightarrow> ('s, unit) act" where
  "taker_claim_asset_from_vulnerable E tx =
     bind_s get_record (\<lambda>r.
       if counter_chain (sr_terms r) \<noteq> ''btc'' then taker_claim_eth_from_vulnerable E tx
       else
         bind_s (require (sr_state r = ASSET_VULNERABLE)) (\<lambda>_.
         bind_s (lift_r (leg_scrape_tx E tx (hashlock (sr_terms r)))) (\<lambda>p.
         bind_s (require (sha256 p = hashlock (sr_terms r))) (\<lambda>_.
         bind_s (lift_r (assert_claim_tx_spends_our_htlc r tx)) (\<lambda>_.
           claim_and_complete E p)))))"

section \<open>Refunds\<close>

definition maybe_refund_asset_on_maker_stall :: "config \<Rightarrow> env \<Rightarrow> int \<Rightarrow> int \<Rightarrow> bool \<Rightarrow> ('s, unit) act" where
  "maybe_refund_asset_on_maker_stall cfg E now_height locked_at claimed =
     bind_s get_record (\<lambda>r.
     bind_s (require (sr_state r = BOTH_LOCKED)) (\<lambda>_.
     bind_s (lift_r (taker_refund_window_open now_height locked_at (t_rxd (sr_terms r))
              (maker_stall_safety_window_blocks cfg) claimed (block_interval_s (policy cfg)))) (\<lambda>trigger.
       if \<not> trigger then ret ()
       else
         bind_s (emit (ERefundAsset r)) (\<lambda>_.
         bind_s (lift_r (refund_asset E r)) (\<lambda>_.
         bind_s (advance_act MAKER_STALL_DETECTED) (\<lambda>_.
         bind_s (advance_act TAKER_REFUNDS_ASSET_PROACTIVELY) (\<lambda>_.
           persist_record E True)))))))"

definition taker_refund_btc :: "env \<Rightarrow> ('s, unit) act" where
  "taker_refund_btc E =
     bind_s get_record (\<lambda>r.
     bind_s (require (sr_state r \<in> {BTC_LOCKED, PARAMS_MISMATCH})) (\<lambda>_.
       case counterchain_locator r of
         None \<Rightarrow> lift_r (Err ValidationError)
       | Some loc \<Rightarrow>
           bind_s (emit (ECounterRefund r)) (\<lambda>_.
           bind_s (lift_r (leg_refund E loc (t_btc (sr_terms r)))) (\<lambda>_.
           bind_s (advance_act (if sr_state r = BTC_LOCKED then MAKER_NEVER_LOCKS_BTC_TIMEOUT else TAKER_REFUNDS_BTC)) (\<lambda>_.
             persist_record E True)))))"

definition mutual_refund :: "env \<Rightarrow> ('s, unit) act" where
  "mutual_refund E =
     bind_s get_record (\<lambda>r.
     bind_s (require (sr_state r = BOTH_LOCKED)) (\<lambda>_.
       case counterchain_locator r of
         None \<Rightarrow> lift_r (Err ValidationError)
       | Some loc \<Rightarrow>
           bind_s (emit (ECounterRefund r)) (\<lambda>_.
           bind_s (lift_r (leg_refund E loc (t_btc (sr_terms r)))) (\<lambda>_.
           bind_s (emit (ERefundAsset r)) (\<lambda>_.
           bind_s (lift_r (refund_asset E r)) (\<lambda>_.
           bind_s (advance_act BOTH_TIMEOUTS_ELAPSE) (\<lambda>_.
             persist_record E True)))))))"

section \<open>Calls\<close>

text \<open>The public methods; one instance runs one of them at a time, under its lock.\<close>

datatype call =
    Funds terms "int option"
  | Revalidate bytes "int option"
  | Verify_counter string
  | Maker_claims bytes
  | Scrape_and_claim bytes int int
  | Claim_vulnerable bytes
  | Stall_refund int int bool
  | Refund_btc
  | Mutual

fun exec :: "config \<Rightarrow> 's store_ops \<Rightarrow> env \<Rightarrow> call \<Rightarrow> ('s, unit) act" where
  "exec cfg ops E (Funds t now) = taker_funds_btc cfg ops E t now"
| "exec cfg ops E (Revalidate spk now) = post_asset_lock_revalidate cfg E spk now"
| "exec cfg ops E (Verify_counter addr) = maker_verify_counter_funding E addr"
| "exec cfg ops E (Maker_claims p) = maker_claims_btc E p"
| "exec cfg ops E (Scrape_and_claim tx now locked) = taker_scrape_and_claim_asset cfg E tx now locked"
| "exec cfg ops E (Claim_vulnerable tx) = taker_claim_asset_from_vulnerable E tx"
| "exec cfg ops E (Stall_refund now locked claimed) = maybe_refund_asset_on_maker_stall cfg E now locked claimed"
| "exec cfg ops E Refund_btc = taker_refund_btc E"
| "exec cfg ops E Mutual = mutual_refund E"

end
