(* ===== verification/Coordinator_Inv.thy ===== *)
theory Coordinator_Inv
  imports Coordinator
begin

text \<open>
  Reasoning about the coordinator: weakest preconditions of the step combinators, collected in
  \<open>wp_simps\<close>, and the invariant that every call keeps: a valid record with its negotiated terms, a
  state the transition table allows, the counter-chain locator in every state after funding, and
  the same of the durable copy.
\<close>

section \<open>Weakest preconditions\<close>

named_theorems wp_simps \<open>weakest preconditions of the step combinators\<close>

definition wp :: "('s, 'a) act \<Rightarrow> ('a \<Rightarrow> 's coord \<Rightarrow> bool) \<Rightarrow> (exn \<Rightarrow> 's coord \<Rightarrow> bool) \<Rightarrow> 's coord \<Rightarrow> bool" where
  "wp m Q X c = (case m c of (Inr x, c') \<Rightarrow> Q x c' | (Inl e, c') \<Rightarrow> X e c')"

lemma wp_ret [wp_simps]: "wp (ret x) Q X c = Q x c"
  by (simp add: wp_def ret_def)

lemma wp_lift_r [wp_simps]: "wp (lift_r r) Q X c = (case r of Inr x \<Rightarrow> Q x c | Inl e \<Rightarrow> X e c)"
  by (simp add: wp_def lift_r_def split: sum.splits)

lemma wp_bind_s [wp_simps]: "wp (bind_s m f) Q X c = wp m (\<lambda>x. wp (f x) Q X) X c"
  by (simp add: wp_def bind_s_def split: prod.splits sum.splits)

lemma wp_require [wp_simps]: "wp (require b) Q X c = (if b then Q () c else X ValidationError c)"
  by (simp add: require_def wp_lift_r)

lemma wp_get_record [wp_simps]: "wp get_record Q X c = Q (the_record c) c"
  by (simp add: wp_def get_record_def)

lemma wp_put_record:
  "wp (put_record r) Q X c = (case r of Inr r' \<Rightarrow> Q () (c\<lparr>the_record := r'\<rparr>) | Inl e \<Rightarrow> X e c)"
  by (simp add: wp_def put_record_def split: sum.splits)

lemma wp_emit [wp_simps]: "wp (emit e) Q X c = Q () (c\<lparr>trace := trace c @ [e]\<rparr>)"
  by (simp add: wp_def emit_def)

lemma wp_pure_state: "wp (\<lambda>c. (f c, c)) Q X c = (case f c of Inr x \<Rightarrow> Q x c | Inl e \<Rightarrow> X e c)"
  by (simp add: wp_def split: sum.splits)

lemma wp_on_validation_error [wp_simps]:
  "wp (on_validation_error m h) Q X c =
     wp m Q (\<lambda>e c'. if e = ValidationError then wp h (\<lambda>_. X e) X c' else X e c') c"
  by (auto simp: wp_def on_validation_error_def split: prod.splits sum.splits)

lemma wp_advance_act:
  "wp (advance_act ev) Q X c =
     (case advance (sr_state (the_record c)) ev of
        Inl e \<Rightarrow> X e c
      | Inr st \<Rightarrow> (case with_state (the_record c) st of Inl e \<Rightarrow> X e c | Inr r \<Rightarrow> Q () (c\<lparr>the_record := r\<rparr>)))"
  by (simp add: advance_act_def wp_simps wp_put_record split: sum.splits)

lemma wp_persist_record:
  "wp (persist_record E sh) Q X c =
     (case persist_hook E of
        None \<Rightarrow> Q () c
      | Some hook \<Rightarrow>
          let c1 = c\<lparr>trace := trace c @ [EPersist (the_record c)]\<rparr>;
              c2 = c1\<lparr>durable_record := Some (the_record c)\<rparr>
          in (case hook (the_record c) of
                Inr _ \<Rightarrow> Q () c2
              | Inl e \<Rightarrow> if e = CancelledError \<and> sh then X e c2 else X e c1))"
  by (simp add: persist_record_def wp_simps Let_def split: option.splits sum.splits)
    (auto simp: wp_def)

lemma wp_case_option [wp_simps]:
  "wp (case x of None \<Rightarrow> m | Some y \<Rightarrow> f y) Q X c = (case x of None \<Rightarrow> wp m Q X c | Some y \<Rightarrow> wp (f y) Q X c)"
  by (simp split: option.splits)

lemma wp_case_sum [wp_simps]:
  "wp (case x of Inl e \<Rightarrow> m e | Inr y \<Rightarrow> f y) Q X c = (case x of Inl e \<Rightarrow> wp (m e) Q X c | Inr y \<Rightarrow> wp (f y) Q X c)"
  by (simp split: sum.splits)

lemma wp_case_locator [wp_simps]:
  "wp (case x of BtcLoc b \<Rightarrow> m b | EthLoc l \<Rightarrow> f l) Q X c = (case x of BtcLoc b \<Rightarrow> wp (m b) Q X c | EthLoc l \<Rightarrow> wp (f l) Q X c)"
  by (simp split: locator.splits)

lemma wp_if [wp_simps]: "wp (if b then m else n) Q X c = (if b then wp m Q X c else wp n Q X c)"
  by simp

lemma wp_mono: "wp m Q X c \<Longrightarrow> (\<And>x c'. Q x c' \<Longrightarrow> Q' x c') \<Longrightarrow> (\<And>e c'. X e c' \<Longrightarrow> X' e c') \<Longrightarrow> wp m Q' X' c"
  by (auto simp: wp_def split: prod.splits sum.splits)

text \<open>One condition for both ways a call can end.\<close>

abbreviation keeps :: "('s coord \<Rightarrow> bool) \<Rightarrow> ('s, 'a) act \<Rightarrow> 's coord \<Rightarrow> bool" where
  "keeps P m c \<equiv> wp m (\<lambda>_. P) (\<lambda>_. P) c"

lemma keeps_snd: "keeps P m c \<longleftrightarrow> P (snd (m c))"
  by (auto simp: wp_def split: prod.splits sum.splits)

section \<open>Invariant\<close>

definition rec_inv :: "swap_record \<Rightarrow> bool" where
  "rec_inv r \<longleftrightarrow> SwapRecord r = Ok r \<and> (sr_state r \<noteq> NEGOTIATED \<longrightarrow> counterchain_locator r \<noteq> None)
     \<and> (\<exists>evs. run NEGOTIATED evs = Ok (sr_state r))"

definition coord_inv :: "terms \<Rightarrow> 's coord \<Rightarrow> bool" where
  "coord_inv t c \<longleftrightarrow> rec_inv (the_record c) \<and> sr_terms (the_record c) = t
     \<and> (\<forall>r. durable_record c = Some r \<longrightarrow> rec_inv r \<and> sr_terms r = t)"

lemma SwapRecord_Ok: "SwapRecord r = Ok r' \<Longrightarrow> r' = r"
  by (auto simp: SwapRecord_def split: option.splits locator.splits if_splits sum.splits)

lemma SwapRecord_state [simp]: "SwapRecord (r\<lparr>sr_state := st\<rparr>) = bind_r (SwapRecord r) (\<lambda>r. Ok (r\<lparr>sr_state := st\<rparr>))"
  by (auto simp: SwapRecord_def split: option.splits locator.splits if_splits sum.splits)

lemma run_append: "run st (evs @ evs') = bind_r (run st evs) (\<lambda>st'. run st' evs')"
  by (induction evs arbitrary: st) (simp_all, metis bind_r.simps sum.exhaust)

lemma coord_inv_trace [simp]: "coord_inv t (c\<lparr>trace := tr\<rparr>) = coord_inv t c"
  by (simp add: coord_inv_def)

lemma coord_inv_store [simp]: "coord_inv t (c\<lparr>store := s\<rparr>) = coord_inv t c"
  by (simp add: coord_inv_def)

lemma rec_inv_advance:
  assumes "rec_inv r" "counterchain_locator r \<noteq> None" "advance (sr_state r) ev = Ok st"
  shows "with_state r st = Ok (r\<lparr>sr_state := st\<rparr>) \<and> rec_inv (r\<lparr>sr_state := st\<rparr>)"
proof -
  from assms(1) obtain evs where "run NEGOTIATED evs = Ok (sr_state r)" by (auto simp: rec_inv_def)
  with assms(3) have "run NEGOTIATED (evs @ [ev]) = Ok st" by (simp add: run_append)
  with assms show ?thesis by (auto simp: rec_inv_def with_state_def)
qed

lemma wp_advance_inv:
  assumes "coord_inv t c" "counterchain_locator (the_record c) \<noteq> None"
    "\<And>st. coord_inv t (c\<lparr>the_record := (the_record c)\<lparr>sr_state := st\<rparr>\<rparr>) \<Longrightarrow> advance (sr_state (the_record c)) ev = Ok st \<Longrightarrow>
       Q () (c\<lparr>the_record := (the_record c)\<lparr>sr_state := st\<rparr>\<rparr>)" "\<And>e. X e c"
  shows "wp (advance_act ev) Q X c"
proof (cases "advance (sr_state (the_record c)) ev")
  case (Inr st)
  from assms(1) have "rec_inv (the_record c)" by (simp add: coord_inv_def)
  with rec_inv_advance [OF this assms(2) Inr] assms(1,3) Inr show ?thesis
    by (simp add: wp_advance_act coord_inv_def)
qed (simp add: wp_advance_act assms(4))

lemma wp_persist_inv:
  assumes "coord_inv t c"
    "\<And>c'. coord_inv t c' \<Longrightarrow> the_record c' = the_record c \<Longrightarrow> Q () c'"
    "\<And>e c'. coord_inv t c' \<Longrightarrow> the_record c' = the_record c \<Longrightarrow> X e c'"
  shows "wp (persist_record E sh) Q X c"
  using assms by (auto simp: wp_persist_record Let_def coord_inv_def split: option.splits sum.splits)

lemma wp_put_counter_inv:
  assumes "coord_inv t c" "r = the_record c"
    "coord_inv t (c\<lparr>the_record := r\<lparr>counterchain_locator := Some l\<rparr>\<rparr>) \<Longrightarrow> Q () (c\<lparr>the_record := r\<lparr>counterchain_locator := Some l\<rparr>\<rparr>)"
    "\<And>e. X e c"
  shows "wp (put_record (with_counter_lock r l)) Q X c"
proof (cases "with_counter_lock r l")
  case (Inr r')
  then have "r' = r\<lparr>counterchain_locator := Some l\<rparr>" by (auto simp: with_counter_lock_def dest: SwapRecord_Ok)
  with Inr assms show ?thesis by (simp add: wp_put_record coord_inv_def rec_inv_def with_counter_lock_def)
qed (simp add: wp_put_record assms(4))

lemma wp_put_radiant_inv:
  assumes "coord_inv t c" "r = the_record c"
    "coord_inv t (c\<lparr>the_record := r\<lparr>radiant_covenant_outpoint := Some op, radiant_covenant_spk_hex := Some spk\<rparr>\<rparr>) \<Longrightarrow>
       Q () (c\<lparr>the_record := r\<lparr>radiant_covenant_outpoint := Some op, radiant_covenant_spk_hex := Some spk\<rparr>\<rparr>)"
    "\<And>e. X e c"
  shows "wp (put_record (with_radiant_lock r op spk)) Q X c"
proof (cases "with_radiant_lock r op spk")
  case (Inr r')
  then have "r' = r\<lparr>radiant_covenant_outpoint := Some op, radiant_covenant_spk_hex := Some spk\<rparr>"
    by (auto simp: with_radiant_lock_def dest: SwapRecord_Ok)
  with Inr assms show ?thesis by (simp add: wp_put_record coord_inv_def rec_inv_def with_radiant_lock_def)
qed (simp add: wp_put_record assms(4))

lemmas inv_rules = wp_advance_inv wp_persist_inv wp_put_counter_inv wp_put_radiant_inv

lemma wp_reserve_act:
  "wp (reserve_act ops h) Q X c =
     (case st_reserve ops h (store c) of
        (Inl e, s') \<Rightarrow> X ValidationError (c\<lparr>store := s'\<rparr>)
      | (Inr b, s') \<Rightarrow> Q b (c\<lparr>store := s', trace := (if b then trace c @ [EReserve h] else trace c)\<rparr>))"
  by (auto simp: wp_def reserve_act_def split: prod.splits sum.splits)

lemma coord_inv_locator: "coord_inv t c \<Longrightarrow> sr_state (the_record c) \<noteq> NEGOTIATED \<Longrightarrow> counterchain_locator (the_record c) \<noteq> None"
  by (simp add: coord_inv_def rec_inv_def)

lemma claim_and_complete_inv:
  "coord_inv t c \<Longrightarrow> counterchain_locator (the_record c) \<noteq> None \<Longrightarrow> keeps (coord_inv t) (claim_and_complete E p) c"
  by (auto simp: claim_and_complete_def wp_simps split: sum.splits intro!: inv_rules)

lemma act_on_finality_inv:
  "coord_inv t c \<Longrightarrow> counterchain_locator (the_record c) \<noteq> None \<Longrightarrow> keeps (coord_inv t) (act_on_finality E p f) c"
  by (cases f) (auto simp: act_on_finality_def wp_simps intro!: inv_rules claim_and_complete_inv)

lemma taker_funds_btc_inv: "coord_inv t c \<Longrightarrow> keeps (coord_inv t) (taker_funds_btc cfg ops E u now) c"
  by (auto simp: taker_funds_btc_def wp_simps wp_pure_state wp_reserve_act split: sum.splits prod.splits intro!: inv_rules)


lemma assert_eth_counter_funding_verified_inv:
  assumes "coord_inv t c"
    "\<And>c'. coord_inv t c' \<Longrightarrow> counterchain_locator (the_record c') \<noteq> None \<Longrightarrow> sr_state (the_record c') = sr_state (the_record c) \<Longrightarrow> Q () c'"
    "\<And>e c'. coord_inv t c' \<Longrightarrow> X e c'"
  shows "wp (assert_eth_counter_funding_verified cfg E now) Q X c"
  using assms
  by (auto simp: assert_eth_counter_funding_verified_def wp_simps split: option.splits locator.splits sum.splits
      intro!: inv_rules)

lemma post_asset_lock_revalidate_inv: "coord_inv t c \<Longrightarrow> keeps (coord_inv t) (post_asset_lock_revalidate cfg E spk now) c"
  using coord_inv_locator [of t c]
  by (auto simp: post_asset_lock_revalidate_def wp_simps split: sum.splits
      intro!: inv_rules assert_eth_counter_funding_verified_inv [of t])

lemma maker_verify_counter_funding_inv: "coord_inv t c \<Longrightarrow> keeps (coord_inv t) (maker_verify_counter_funding E addr) c"
  by (auto simp: maker_verify_counter_funding_def wp_simps split: option.splits sum.splits intro!: inv_rules)

lemma maker_claims_btc_inv: "coord_inv t c \<Longrightarrow> keeps (coord_inv t) (maker_claims_btc E p) c"
  by (auto simp: maker_claims_btc_def wp_simps split: option.splits sum.splits intro!: inv_rules)

lemma taker_scrape_and_claim_eth_inv: "coord_inv t c \<Longrightarrow> keeps (coord_inv t) (taker_scrape_and_claim_eth cfg E tx n l) c"
  by (auto simp: taker_scrape_and_claim_eth_def wp_simps split: option.splits locator.splits sum.splits intro!: act_on_finality_inv)

lemma taker_scrape_and_claim_asset_inv: "coord_inv t c \<Longrightarrow> keeps (coord_inv t) (taker_scrape_and_claim_asset cfg E tx n l) c"
  using coord_inv_locator [of t c]
  by (auto simp: taker_scrape_and_claim_asset_def wp_simps split: sum.splits
      intro!: act_on_finality_inv taker_scrape_and_claim_eth_inv)

lemma taker_claim_asset_from_vulnerable_inv: "coord_inv t c \<Longrightarrow> keeps (coord_inv t) (taker_claim_asset_from_vulnerable E tx) c"
  using coord_inv_locator [of t c]
  by (auto simp: taker_claim_asset_from_vulnerable_def taker_claim_eth_from_vulnerable_def wp_simps
      split: option.splits locator.splits sum.splits intro!: claim_and_complete_inv)

lemma maybe_refund_inv: "coord_inv t c \<Longrightarrow> keeps (coord_inv t) (maybe_refund_asset_on_maker_stall cfg E n l b) c"
  using coord_inv_locator [of t c]
  by (auto simp: maybe_refund_asset_on_maker_stall_def wp_simps split: sum.splits intro!: inv_rules)

lemma taker_refund_btc_inv: "coord_inv t c \<Longrightarrow> keeps (coord_inv t) (taker_refund_btc E) c"
  by (auto simp: taker_refund_btc_def wp_simps split: option.splits sum.splits intro!: inv_rules)

lemma mutual_refund_inv: "coord_inv t c \<Longrightarrow> keeps (coord_inv t) (mutual_refund E) c"
  by (auto simp: mutual_refund_def wp_simps split: option.splits sum.splits intro!: inv_rules)

lemma exec_inv: "coord_inv t c \<Longrightarrow> keeps (coord_inv t) (exec cfg ops E cl) c"
  by (cases cl) (simp_all add: taker_funds_btc_inv post_asset_lock_revalidate_inv maker_verify_counter_funding_inv
      maker_claims_btc_inv taker_scrape_and_claim_asset_inv taker_claim_asset_from_vulnerable_inv maybe_refund_inv
      taker_refund_btc_inv mutual_refund_inv)

end
