(* ===== verification/Coordinator_Safety.thy ===== *)
theory Coordinator_Safety
  imports Coordinator_Inv
begin

text \<open>
  What the coordinator promises. Every call is a run of the transition table (a simulation of
  the state machine of theory \<open>Swap_State\<close>); broadcasts happen only behind their gates; and in a
  system of coordinators that share one store of hashlocks, with an adversarial environment and
  with crashes, no hashlock is ever funded twice.
\<close>

section \<open>Calls simulate the state machine\<close>

lemmas wp_all = wp_simps wp_pure_state wp_put_record wp_advance_act wp_persist_record

fun call_events :: "call \<Rightarrow> swap_event list list" where
  "call_events (Funds t now) = [[], [TAKER_FUNDS_BTC]]"
| "call_events (Revalidate spk now) = [[], [MAKER_LOCKS_ASSET], [MAKER_LOCKS_WRONG_PARAMS]]"
| "call_events (Verify_counter addr) = [[]]"
| "call_events (Maker_claims p) = [[], [MAKER_CLAIMS_BTC_REVEALS_P]]"
| "call_events (Scrape_and_claim tx now locked) = [[], [TAKER_SCRAPES_P_CLAIMS_ASSET], [TAKER_OFFLINE_OR_PINNED]]"
| "call_events (Claim_vulnerable tx) = [[], [TAKER_SCRAPES_P_CLAIMS_ASSET]]"
| "call_events (Stall_refund now locked claimed) =
     [[], [MAKER_STALL_DETECTED], [MAKER_STALL_DETECTED, TAKER_REFUNDS_ASSET_PROACTIVELY]]"
| "call_events Refund_btc = [[], [MAKER_NEVER_LOCKS_BTC_TIMEOUT], [TAKER_REFUNDS_BTC]]"
| "call_events Mutual = [[], [BOTH_TIMEOUTS_ELAPSE]]"

fun targets :: "swap_event list list \<Rightarrow> swap_state \<Rightarrow> swap_state \<Rightarrow> bool" where
  "targets [] s st = False"
| "targets (evs # evss) s st = (run s evs = Ok st \<or> targets evss s st)"

lemma with_state_Ok: "with_state r st = Ok r' \<Longrightarrow> r' = r\<lparr>sr_state := st\<rparr>"
  unfolding with_state_def by (drule SwapRecord_Ok) simp

lemma with_counter_lock_Ok: "with_counter_lock r l = Ok r' \<Longrightarrow> r' = r\<lparr>counterchain_locator := Some l\<rparr>"
  unfolding with_counter_lock_def by (drule SwapRecord_Ok) simp

lemma with_radiant_lock_Ok:
  "with_radiant_lock r op spk = Ok r' \<Longrightarrow> r' = r\<lparr>radiant_covenant_outpoint := Some op, radiant_covenant_spk_hex := Some spk\<rparr>"
  unfolding with_radiant_lock_def by (drule SwapRecord_Ok) simp

lemmas with_Ok = with_state_Ok with_counter_lock_Ok with_radiant_lock_Ok

lemma wp_advance_state:
  "(\<And>r. advance (sr_state (the_record c)) ev = Ok (sr_state r) \<Longrightarrow> Q () (c\<lparr>the_record := r\<rparr>)) \<Longrightarrow> (\<And>e. X e c) \<Longrightarrow>
   wp (advance_act ev) Q X c"
  by (auto simp: wp_advance_act split: sum.splits dest!: with_Ok)

lemma wp_persist_state:
  "(\<And>c'. the_record c' = the_record c \<Longrightarrow> Q () c') \<Longrightarrow> (\<And>e c'. the_record c' = the_record c \<Longrightarrow> X e c') \<Longrightarrow>
   wp (persist_record E sh) Q X c"
  by (auto simp: wp_persist_record Let_def split: option.splits sum.splits)

lemma wp_put_state:
  "(\<And>r'. sr_state r' = sr_state r \<Longrightarrow> Q () (c\<lparr>the_record := r'\<rparr>)) \<Longrightarrow> (\<And>e. X e c) \<Longrightarrow> wp (put_record (with_counter_lock r l)) Q X c"
  "(\<And>r'. sr_state r' = sr_state r \<Longrightarrow> Q () (c\<lparr>the_record := r'\<rparr>)) \<Longrightarrow> (\<And>e. X e c) \<Longrightarrow> wp (put_record (with_radiant_lock r op spk)) Q X c"
  by (auto simp: wp_put_record split: sum.splits dest!: with_Ok)

lemmas state_rules = wp_advance_state wp_persist_state wp_put_state

abbreviation moves :: "call \<Rightarrow> 's coord \<Rightarrow> 's coord \<Rightarrow> bool" where
  "moves cl c c' \<equiv> targets (call_events cl) (sr_state (the_record c)) (sr_state (the_record c'))"

lemma wp_verified_state:
  "(\<And>c'. sr_state (the_record c') = sr_state (the_record c) \<Longrightarrow> Q () c') \<Longrightarrow>
   (\<And>e c'. sr_state (the_record c') = sr_state (the_record c) \<Longrightarrow> X e c') \<Longrightarrow>
   wp (assert_eth_counter_funding_verified cfg E now) Q X c"
  by (auto simp: assert_eth_counter_funding_verified_def wp_simps split: option.splits locator.splits sum.splits intro!: state_rules)

lemma claim_and_complete_state:
  "S (sr_state (the_record c)) \<Longrightarrow>
   (\<And>st. advance (sr_state (the_record c)) TAKER_SCRAPES_P_CLAIMS_ASSET = Ok st \<Longrightarrow> S st) \<Longrightarrow>
   keeps (\<lambda>c'. S (sr_state (the_record c'))) (claim_and_complete E p) c"
  by (auto simp: claim_and_complete_def wp_simps split: sum.splits intro!: state_rules)

lemma act_on_finality_state:
  "S (sr_state (the_record c)) \<Longrightarrow>
   (\<And>st. advance (sr_state (the_record c)) TAKER_SCRAPES_P_CLAIMS_ASSET = Ok st \<Longrightarrow> S st) \<Longrightarrow>
   (\<And>st. advance (sr_state (the_record c)) TAKER_OFFLINE_OR_PINNED = Ok st \<Longrightarrow> S st) \<Longrightarrow>
   keeps (\<lambda>c'. S (sr_state (the_record c'))) (act_on_finality E p f) c"
  by (cases f) (auto simp: act_on_finality_def wp_simps intro!: state_rules claim_and_complete_state)

lemma scrape_eth_moves: "keeps (moves (Scrape_and_claim tx n l) c) (taker_scrape_and_claim_eth cfg E tx n l) c"
  by (auto simp: taker_scrape_and_claim_eth_def wp_simps split: sum.splits option.splits locator.splits
      intro!: act_on_finality_state)

lemma claim_eth_moves: "keeps (moves (Claim_vulnerable tx) c) (taker_claim_eth_from_vulnerable E tx) c"
  by (auto simp: taker_claim_eth_from_vulnerable_def wp_simps split: sum.splits option.splits locator.splits
      intro!: claim_and_complete_state)

lemma exec_moves: "keeps (moves cl c) (exec cfg ops E cl) c"
proof (cases cl)
  case (Funds t now)
  then show ?thesis
    by (auto simp: taker_funds_btc_def wp_simps wp_pure_state wp_reserve_act split: sum.splits prod.splits intro!: state_rules)
next
  case (Revalidate spk now)
  then show ?thesis
    by (auto simp: post_asset_lock_revalidate_def wp_simps split: sum.splits intro!: state_rules wp_verified_state)
next
  case (Verify_counter addr)
  then show ?thesis
    by (auto simp: maker_verify_counter_funding_def wp_simps split: option.splits sum.splits intro!: state_rules)
next
  case (Maker_claims p)
  then show ?thesis
    by (auto simp: maker_claims_btc_def wp_simps split: option.splits sum.splits intro!: state_rules)
next
  case (Scrape_and_claim tx n l)
  show ?thesis
  proof (cases "counter_chain (sr_terms (the_record c)) = ''btc''")
    case True
    with Scrape_and_claim show ?thesis
      by (auto simp: taker_scrape_and_claim_asset_def wp_simps split: sum.splits intro!: act_on_finality_state)
  next
    case False
    with Scrape_and_claim scrape_eth_moves [where tx = tx and n = n and l = l and c = c and cfg = cfg and E = E]
    show ?thesis by (simp add: taker_scrape_and_claim_asset_def wp_simps)
  qed
next
  case (Claim_vulnerable tx)
  show ?thesis
  proof (cases "counter_chain (sr_terms (the_record c)) = ''btc''")
    case True
    with Claim_vulnerable show ?thesis
      by (auto simp: taker_claim_asset_from_vulnerable_def wp_simps split: sum.splits intro!: claim_and_complete_state)
  next
    case False
    with Claim_vulnerable claim_eth_moves [where tx = tx and c = c and E = E]
    show ?thesis by (simp add: taker_claim_asset_from_vulnerable_def wp_simps)
  qed
next
  case (Stall_refund n l b)
  then show ?thesis
    by (auto simp: maybe_refund_asset_on_maker_stall_def wp_simps split: sum.splits intro!: state_rules)
next
  case Refund_btc
  then show ?thesis
    by (auto simp: taker_refund_btc_def wp_simps split: sum.splits option.splits intro!: state_rules)
next
  case Mutual
  then show ?thesis
    by (auto simp: mutual_refund_def wp_simps split: sum.splits option.splits intro!: state_rules)
qed

section \<open>Guards of the broadcasts\<close>

text \<open>What must hold of the record and the preimage at the moment of each broadcast.\<close>

fun effect_ok :: "terms \<Rightarrow> effect \<Rightarrow> bool" where
  "effect_ok t (EPersist r) \<longleftrightarrow> sr_terms r = t"
| "effect_ok t (EReserve h) \<longleftrightarrow> True"
| "effect_ok t (EFund u) \<longleftrightarrow> True"
| "effect_ok t (ECounterClaim r p) \<longleftrightarrow>
     sr_terms r = t \<and> sr_state r = BOTH_LOCKED \<and> counterchain_locator r \<noteq> None \<and> sha256 p = hashlock t"
| "effect_ok t (ECounterRefund r) \<longleftrightarrow>
     sr_terms r = t \<and> sr_state r \<in> {BTC_LOCKED, PARAMS_MISMATCH, BOTH_LOCKED} \<and> counterchain_locator r \<noteq> None"
| "effect_ok t (EClaimAsset r p) \<longleftrightarrow>
     sr_terms r = t \<and> sr_state r \<in> {SECRET_REVEALED, ASSET_VULNERABLE} \<and> sha256 p = hashlock t"
| "effect_ok t (ERefundAsset r) \<longleftrightarrow> sr_terms r = t \<and> sr_state r = BOTH_LOCKED"

definition guarded :: "terms \<Rightarrow> 's coord \<Rightarrow> bool" where
  "guarded t c \<longleftrightarrow> sr_terms (the_record c) = t \<and> list_all (effect_ok t) (trace c)"

lemma wp_advance_guarded:
  "guarded t c \<Longrightarrow> (\<And>r. guarded t (c\<lparr>the_record := r\<rparr>) \<Longrightarrow> Q () (c\<lparr>the_record := r\<rparr>)) \<Longrightarrow> (\<And>e. X e c) \<Longrightarrow>
   wp (advance_act ev) Q X c"
  by (auto simp: wp_advance_act guarded_def split: sum.splits dest!: with_Ok)

lemma wp_persist_guarded:
  "guarded t c \<Longrightarrow> (\<And>c'. guarded t c' \<Longrightarrow> the_record c' = the_record c \<Longrightarrow> Q () c') \<Longrightarrow>
   (\<And>e c'. guarded t c' \<Longrightarrow> X e c') \<Longrightarrow> wp (persist_record E sh) Q X c"
  by (auto simp: wp_persist_record guarded_def Let_def split: option.splits sum.splits)

lemma wp_put_guarded:
  "guarded t c \<Longrightarrow> r = the_record c \<Longrightarrow> (\<And>r'. guarded t (c\<lparr>the_record := r'\<rparr>) \<Longrightarrow> Q () (c\<lparr>the_record := r'\<rparr>)) \<Longrightarrow> (\<And>e. X e c) \<Longrightarrow>
     wp (put_record (with_counter_lock r l)) Q X c"
  "guarded t c \<Longrightarrow> r = the_record c \<Longrightarrow> (\<And>r'. guarded t (c\<lparr>the_record := r'\<rparr>) \<Longrightarrow> Q () (c\<lparr>the_record := r'\<rparr>)) \<Longrightarrow> (\<And>e. X e c) \<Longrightarrow>
     wp (put_record (with_radiant_lock r op spk)) Q X c"
  by (auto simp: wp_put_record guarded_def split: sum.splits dest!: with_Ok)

lemmas guard_rules = wp_advance_guarded wp_persist_guarded wp_put_guarded

lemma guarded_emit [simp]: "guarded t (c\<lparr>trace := trace c @ es\<rparr>) \<longleftrightarrow> guarded t c \<and> list_all (effect_ok t) es"
  by (auto simp: guarded_def)

lemma guarded_store [simp]: "guarded t (c\<lparr>store := s, trace := tr\<rparr>) = guarded t (c\<lparr>trace := tr\<rparr>)"
  "guarded t (c\<lparr>store := s\<rparr>) = guarded t c"
  by (simp_all add: guarded_def)

lemma guarded_terms: "guarded t c \<Longrightarrow> sr_terms (the_record c) = t"
  by (simp add: guarded_def)

lemma claim_and_complete_guarded:
  "guarded t c \<Longrightarrow> sr_state (the_record c) \<in> {SECRET_REVEALED, ASSET_VULNERABLE} \<Longrightarrow> sha256 p = hashlock t \<Longrightarrow>
   keeps (guarded t) (claim_and_complete E p) c"
  using guarded_terms [of t c]
  by (auto simp: claim_and_complete_def wp_simps split: sum.splits intro!: guard_rules)

lemma act_on_finality_guarded:
  "guarded t c \<Longrightarrow> sr_state (the_record c) \<in> {SECRET_REVEALED, ASSET_VULNERABLE} \<Longrightarrow> sha256 p = hashlock t \<Longrightarrow>
   keeps (guarded t) (act_on_finality E p f) c"
  by (cases f) (auto simp: act_on_finality_def wp_simps intro!: guard_rules claim_and_complete_guarded)

lemma verified_guarded:
  "guarded t c \<Longrightarrow> (\<And>c'. guarded t c' \<Longrightarrow> Q () c') \<Longrightarrow> (\<And>e c'. guarded t c' \<Longrightarrow> X e c') \<Longrightarrow>
   wp (assert_eth_counter_funding_verified cfg E now) Q X c"
  by (auto simp: assert_eth_counter_funding_verified_def wp_simps split: option.splits locator.splits sum.splits intro!: guard_rules)

lemma scrape_eth_guarded: "guarded t c \<Longrightarrow> keeps (guarded t) (taker_scrape_and_claim_eth cfg E tx n l) c"
  using guarded_terms [of t c]
  by (auto simp: taker_scrape_and_claim_eth_def wp_simps split: sum.splits option.splits locator.splits
      intro!: act_on_finality_guarded)

lemma claim_eth_guarded: "guarded t c \<Longrightarrow> keeps (guarded t) (taker_claim_eth_from_vulnerable E tx) c"
  using guarded_terms [of t c]
  by (auto simp: taker_claim_eth_from_vulnerable_def wp_simps split: sum.splits option.splits locator.splits
      intro!: claim_and_complete_guarded)

lemma exec_guarded:
  assumes "guarded t c" "coord_inv t c"
  shows "keeps (guarded t) (exec cfg ops E cl) c"
proof (cases cl)
  case (Funds u now)
  with assms(1) show ?thesis
    by (auto simp: taker_funds_btc_def wp_simps wp_pure_state wp_reserve_act split: sum.splits prod.splits intro!: guard_rules)
next
  case (Revalidate spk now)
  with assms(1) show ?thesis
    by (auto simp: post_asset_lock_revalidate_def wp_simps split: sum.splits intro!: guard_rules verified_guarded)
next
  case (Verify_counter addr)
  with assms(1) show ?thesis
    by (auto simp: maker_verify_counter_funding_def wp_simps split: option.splits sum.splits intro!: guard_rules)
next
  case (Maker_claims p)
  with assms(1) guarded_terms [OF assms(1)] show ?thesis
    by (auto simp: maker_claims_btc_def wp_simps split: option.splits sum.splits intro!: guard_rules)
next
  case (Scrape_and_claim tx n l)
  with assms(1) guarded_terms [OF assms(1)] show ?thesis
    by (auto simp: taker_scrape_and_claim_asset_def wp_simps split: sum.splits
        intro!: act_on_finality_guarded scrape_eth_guarded)
next
  case (Claim_vulnerable tx)
  with assms(1) guarded_terms [OF assms(1)] show ?thesis
    by (auto simp: taker_claim_asset_from_vulnerable_def wp_simps split: sum.splits
        intro!: claim_and_complete_guarded claim_eth_guarded)
next
  case (Stall_refund n l b)
  with assms(1) guarded_terms [OF assms(1)] show ?thesis
    by (auto simp: maybe_refund_asset_on_maker_stall_def wp_simps split: sum.splits intro!: guard_rules)
next
  case Refund_btc
  with assms(1) guarded_terms [OF assms(1)] show ?thesis
    by (auto simp: taker_refund_btc_def wp_simps split: sum.splits option.splits intro!: guard_rules)
next
  case Mutual
  with assms(1) guarded_terms [OF assms(1)] show ?thesis
    by (auto simp: mutual_refund_def wp_simps split: sum.splits option.splits intro!: guard_rules)
qed

section \<open>Funding and the store\<close>

fun is_fund :: "bytes \<Rightarrow> effect \<Rightarrow> bool" where
  "is_fund h (EFund t) \<longleftrightarrow> hashlock t = h"
| "is_fund h _ \<longleftrightarrow> False"

definition fund_count :: "bytes \<Rightarrow> effect list \<Rightarrow> nat" where
  "fund_count h tr = length (filter (is_fund h) tr)"

lemma fund_count_simps [simp]:
  "fund_count h [] = 0" "fund_count h (e # es) = (if is_fund h e then 1 else 0) + fund_count h es"
  "fund_count h (xs @ ys) = fund_count h xs + fund_count h ys"
  by (simp_all add: fund_count_def)

text \<open>All calls but the funding call leave the store alone and fund nothing.\<close>

definition same_funds :: "'s coord \<Rightarrow> 's coord \<Rightarrow> bool" where
  "same_funds c c' \<longleftrightarrow> store c' = store c \<and> (\<forall>h. fund_count h (trace c') = fund_count h (trace c))"

lemma wp_same_funds:
  "same_funds c0 c \<Longrightarrow> (\<And>r. same_funds c0 (c\<lparr>the_record := r\<rparr>) \<Longrightarrow> Q () (c\<lparr>the_record := r\<rparr>)) \<Longrightarrow> (\<And>e. X e c) \<Longrightarrow>
     wp (advance_act ev) Q X c"
  "same_funds c0 c \<Longrightarrow> (\<And>c'. same_funds c0 c' \<Longrightarrow> Q () c') \<Longrightarrow> (\<And>e c'. same_funds c0 c' \<Longrightarrow> X e c') \<Longrightarrow>
     wp (persist_record E sh) Q X c"
  "same_funds c0 c \<Longrightarrow> (\<And>r'. same_funds c0 (c\<lparr>the_record := r'\<rparr>) \<Longrightarrow> Q () (c\<lparr>the_record := r'\<rparr>)) \<Longrightarrow> (\<And>e. X e c) \<Longrightarrow>
     wp (put_record r) Q X c"
  by (auto simp: wp_advance_act wp_persist_record wp_put_record same_funds_def Let_def
      split: sum.splits option.splits)

lemma same_funds_emit [simp]:
  "same_funds c0 (c\<lparr>trace := trace c @ es\<rparr>) \<longleftrightarrow> store c = store c0 \<and> (\<forall>h. fund_count h (trace c) + fund_count h es = fund_count h (trace c0))"
  by (auto simp: same_funds_def)

lemma same_funds_refl [simp]: "same_funds c c"
  by (simp add: same_funds_def)

lemma claim_and_complete_funds: "keeps (same_funds c) (claim_and_complete E p) c"
  by (auto simp: claim_and_complete_def wp_simps split: sum.splits intro!: wp_same_funds [of c])

lemma act_on_finality_funds: "keeps (same_funds c) (act_on_finality E p f) c"
  by (cases f) (auto simp: act_on_finality_def wp_simps intro!: wp_same_funds [of c] claim_and_complete_funds)

lemma verified_funds:
  "same_funds c0 c \<Longrightarrow> (\<And>c'. same_funds c0 c' \<Longrightarrow> Q () c') \<Longrightarrow> (\<And>e c'. same_funds c0 c' \<Longrightarrow> X e c') \<Longrightarrow>
   wp (assert_eth_counter_funding_verified cfg E now) Q X c"
  by (auto simp: assert_eth_counter_funding_verified_def wp_simps split: option.splits locator.splits sum.splits
      intro!: wp_same_funds [of c0])

lemma exec_same_funds:
  assumes "\<And>t now. cl \<noteq> Funds t now"
  shows "keeps (same_funds c) (exec cfg ops E cl) c"
proof (cases cl)
  case (Revalidate spk now)
  then show ?thesis
    by (auto simp: post_asset_lock_revalidate_def wp_simps split: sum.splits intro!: wp_same_funds [of c] verified_funds [of c])
next
  case (Scrape_and_claim tx n l)
  have "keeps (same_funds c) (taker_scrape_and_claim_eth cfg E tx n l) c"
    by (auto simp: taker_scrape_and_claim_eth_def wp_simps split: sum.splits option.splits locator.splits
        intro!: act_on_finality_funds)
  with Scrape_and_claim show ?thesis
    by (auto simp: taker_scrape_and_claim_asset_def wp_simps split: sum.splits intro!: act_on_finality_funds)
next
  case (Claim_vulnerable tx)
  have "keeps (same_funds c) (taker_claim_eth_from_vulnerable E tx) c"
    by (auto simp: taker_claim_eth_from_vulnerable_def wp_simps split: sum.splits option.splits locator.splits
        intro!: claim_and_complete_funds)
  with Claim_vulnerable show ?thesis
    by (auto simp: taker_claim_asset_from_vulnerable_def wp_simps split: sum.splits intro!: claim_and_complete_funds)
qed (use assms in \<open>auto simp: maker_verify_counter_funding_def maker_claims_btc_def maybe_refund_asset_on_maker_stall_def
       taker_refund_btc_def mutual_refund_def wp_simps split: option.splits sum.splits intro!: wp_same_funds [of c]\<close>)

text \<open>
  The client side of the store contract: a call funds a hashlock at most once, and only one that
  it has just reserved.
\<close>

context seen_store
begin

definition funds_reserved :: "'s coord \<Rightarrow> 's coord \<Rightarrow> bool" where
  "funds_reserved c c' \<longleftrightarrow> seen (store c) \<subseteq> seen (store c')
     \<and> (\<forall>h. fund_count h (trace c') \<le> fund_count h (trace c) + (if h \<in> seen (store c') - seen (store c) then 1 else 0))"

definition reserved :: "bytes \<Rightarrow> bool \<Rightarrow> 's coord \<Rightarrow> 's coord \<Rightarrow> bool" where
  "reserved h funded c c' \<longleftrightarrow> h \<notin> seen (store c) \<and> seen (store c') = insert h (seen (store c))
     \<and> (\<forall>k. fund_count k (trace c') = fund_count k (trace c) + (if k = h \<and> funded then 1 else 0))"

lemma same_funds_reserved: "same_funds c c1 \<Longrightarrow> funds_reserved c c1"
  by (simp add: funds_reserved_def same_funds_def)

lemma reserved_funds: "reserved h b c c1 \<Longrightarrow> funds_reserved c c1"
  by (auto simp: funds_reserved_def reserved_def)

lemma wp_persist_same_funds:
  "(\<And>c'. same_funds c c' \<Longrightarrow> the_record c' = the_record c \<Longrightarrow> Q () c') \<Longrightarrow> (\<And>e c'. same_funds c c' \<Longrightarrow> X e c') \<Longrightarrow>
   wp (persist_record E False) Q X c"
  by (auto simp: wp_persist_record same_funds_def Let_def split: option.splits sum.splits)

lemma wp_reserve_reserved:
  assumes "st_reserve ops = reserve" "same_funds c c1"
    and X: "\<And>e c2. funds_reserved c c2 \<Longrightarrow> X e c2" and F: "\<And>c2. funds_reserved c c2 \<Longrightarrow> Q False c2"
    and T: "\<And>c2. reserved h False c c2 \<Longrightarrow> Q True c2"
  shows "wp (reserve_act ops h) Q X c1"
proof -
  obtain r s' where r: "reserve h (store c1) = (r, s')" by (cases "reserve h (store c1)")
  from assms(2) have st: "store c1 = store c" and n: "\<And>k. fund_count k (trace c1) = fund_count k (trace c)"
    by (simp_all add: same_funds_def)
  show ?thesis
  proof (cases r)
    case (Inl e)
    with r reserve_failed [of h "store c1" e s'] have "funds_reserved c (c1\<lparr>store := s'\<rparr>)"
      by (simp add: funds_reserved_def st n)
    with Inl r X show ?thesis by (simp add: wp_reserve_act assms(1))
  next
    case (Inr b)
    show ?thesis
    proof (cases b)
      case True
      with r Inr reserve_granted [of h "store c1" s']
      have "reserved h False c (c1\<lparr>store := s', trace := trace c1 @ [EReserve h]\<rparr>)" by (simp add: reserved_def st n)
      with Inr True r T show ?thesis by (simp add: wp_reserve_act assms(1))
    next
      case False
      with r Inr reserve_refused [of h "store c1" s'] have "funds_reserved c (c1\<lparr>store := s'\<rparr>)"
        by (simp add: funds_reserved_def st n)
      with Inr False r F show ?thesis by (simp add: wp_reserve_act assms(1))
    qed
  qed
qed

lemma reserved_emit: "reserved (hashlock t) False c c1 \<Longrightarrow> reserved (hashlock t) True c (c1\<lparr>trace := trace c1 @ [EFund t]\<rparr>)"
  by (simp add: reserved_def)

lemma wp_reserved_rules:
  "reserved h True c c1 \<Longrightarrow> (\<And>c2. reserved h True c c2 \<Longrightarrow> Q () c2) \<Longrightarrow> (\<And>e c2. reserved h True c c2 \<Longrightarrow> X e c2) \<Longrightarrow> wp (advance_act ev) Q X c1"
  "reserved h True c c1 \<Longrightarrow> (\<And>c2. reserved h True c c2 \<Longrightarrow> Q () c2) \<Longrightarrow> (\<And>e c2. reserved h True c c2 \<Longrightarrow> X e c2) \<Longrightarrow> wp (put_record r) Q X c1"
  "reserved h True c c1 \<Longrightarrow> (\<And>c2. reserved h True c c2 \<Longrightarrow> Q () c2) \<Longrightarrow> (\<And>e c2. reserved h True c c2 \<Longrightarrow> X e c2) \<Longrightarrow> wp (persist_record E True) Q X c1"
  by (auto simp: wp_advance_act wp_persist_record wp_put_record reserved_def Let_def split: sum.splits option.splits)

lemma taker_funds_reserved:
  assumes "st_reserve ops = reserve"
  shows "keeps (funds_reserved c) (taker_funds_btc cfg ops E t now) c"
  using assms
  by (auto simp: taker_funds_btc_def wp_simps wp_pure_state split: sum.splits
      intro!: wp_persist_same_funds wp_reserve_reserved [of ops c] wp_reserved_rules [of "hashlock t" c] reserved_emit
      intro: same_funds_reserved)
    (blast intro: reserved_funds reserved_emit)+

lemma exec_funds_reserved:
  assumes "st_reserve ops = reserve"
  shows "keeps (funds_reserved c) (exec cfg ops E cl) c"
proof (cases "\<exists>t now. cl = Funds t now")
  case True
  with taker_funds_reserved [OF assms] show ?thesis by auto
next
  case False
  then have "keeps (same_funds c) (exec cfg ops E cl) c" by (intro exec_same_funds) auto
  then show ?thesis by (rule wp_mono) (auto intro: same_funds_reserved)
qed

end

section \<open>A system of coordinators\<close>

text \<open>
  Coordinators, numbered, run their calls in any order against one store. A crash restarts a
  coordinator from its durable record; the store survives it only if it is durable.
\<close>

record 's system =
  recs :: "nat \<Rightarrow> swap_record"
  shared :: 's
  durables :: "nat \<Rightarrow> swap_record option"
  log :: "(nat \<times> effect) list"

definition view :: "nat \<Rightarrow> 's system \<Rightarrow> 's coord" where
  "view i S = \<lparr>the_record = recs S i, store = shared S, durable_record = durables S i, trace = []\<rparr>"

definition commit :: "nat \<Rightarrow> 's coord \<Rightarrow> 's system \<Rightarrow> 's system" where
  "commit i c S = \<lparr>recs = (recs S)(i := the_record c), shared = store c,
     durables = (durables S)(i := durable_record c), log = log S @ map (Pair i) (trace c)\<rparr>"

definition fresh_record :: "swap_record \<Rightarrow> bool" where
  "fresh_record r \<longleftrightarrow> sr_state r = NEGOTIATED \<and> counterchain_locator r = None
     \<and> radiant_covenant_outpoint r = None \<and> radiant_covenant_spk_hex r = None"

definition initial :: "'s system \<Rightarrow> bool" where
  "initial S \<longleftrightarrow> (\<forall>i. fresh_record (recs S i)) \<and> durables S = (\<lambda>_. None) \<and> log S = []"

inductive reaches :: "(nat \<Rightarrow> config) \<Rightarrow> 's store_ops \<Rightarrow> 's system \<Rightarrow> 's system \<Rightarrow> bool"
  for cfgs ops S0
where
  start: "reaches cfgs ops S0 S0"
| call: "reaches cfgs ops S0 S \<Longrightarrow>
     reaches cfgs ops S0 (commit i (snd (exec (cfgs i) ops E cl (view i S))) S)"
| crash: "reaches cfgs ops S0 S \<Longrightarrow> st_durable ops \<Longrightarrow> durables S i = Some r \<Longrightarrow>
     reaches cfgs ops S0 (S\<lparr>recs := (recs S)(i := r)\<rparr>)"

definition system_inv :: "'s system \<Rightarrow> 's system \<Rightarrow> bool" where
  "system_inv S0 S \<longleftrightarrow> (\<forall>i. coord_inv (sr_terms (recs S0 i)) (view i S))
     \<and> (\<forall>(i, e) \<in> set (log S). effect_ok (sr_terms (recs S0 i)) e)"

lemma view_commit:
  "the_record (view j (commit i c S)) = (if j = i then the_record c else recs S j)"
  "durable_record (view j (commit i c S)) = (if j = i then durable_record c else durables S j)"
  by (simp_all add: view_def commit_def)

lemma coord_inv_fields:
  "coord_inv t c \<Longrightarrow> the_record c' = the_record c \<Longrightarrow> durable_record c' = durable_record c \<Longrightarrow> coord_inv t c'"
  by (simp add: coord_inv_def)

lemma initial_inv: "initial S0 \<Longrightarrow> system_inv S0 S0"
proof -
  assume init: "initial S0"
  have "rec_inv r" if "fresh_record r" for r
    using that by (auto simp: fresh_record_def rec_inv_def SwapRecord_def intro!: exI [of _ "[]"])
  with init show ?thesis by (auto simp: initial_def system_inv_def coord_inv_def view_def)
qed

lemma reaches_inv:
  assumes "reaches cfgs ops S0 S" "initial S0"
  shows "system_inv S0 S"
  using assms(1)
proof induction
  case start
  from initial_inv [OF assms(2)] show ?case .
next
  case (call S i E cl)
  let ?t = "sr_terms (recs S0 i)" and ?c = "view i S"
  let ?c' = "snd (exec (cfgs i) ops E cl ?c)"
  from call.IH have inv: "coord_inv ?t ?c" by (simp add: system_inv_def)
  then have "sr_terms (the_record ?c) = ?t" by (simp add: coord_inv_def)
  then have "guarded ?t ?c" by (simp add: guarded_def view_def)
  from exec_guarded [OF this inv, of "cfgs i" ops E cl] have g: "list_all (effect_ok ?t) (trace ?c')"
    by (simp add: keeps_snd guarded_def)
  from exec_inv [OF inv, of "cfgs i" ops E cl] have i: "coord_inv ?t ?c'" by (simp add: keeps_snd)
  have "coord_inv (sr_terms (recs S0 j)) (view j (commit i ?c' S))" for j
  proof (cases "j = i")
    case True
    from i show ?thesis unfolding True by (rule coord_inv_fields) (simp_all add: view_commit)
  next
    case False
    from call.IH have "coord_inv (sr_terms (recs S0 j)) (view j S)" by (simp add: system_inv_def)
    then show ?thesis by (rule coord_inv_fields) (use False in \<open>simp_all add: view_def commit_def\<close>)
  qed
  with g call.IH show ?case by (auto simp: system_inv_def commit_def list_all_iff)
next
  case (crash S i r)
  have "coord_inv (sr_terms (recs S0 j)) (view j (S\<lparr>recs := (recs S)(i := r)\<rparr>))" for j
    using crash.IH crash.hyps(3) by (cases "j = i") (auto simp: system_inv_def coord_inv_def view_def)
  with crash.IH show ?case by (simp add: system_inv_def)
qed

context seen_store
begin

definition funded_within :: "'s system \<Rightarrow> bool" where
  "funded_within S \<longleftrightarrow> (\<forall>h. fund_count h (map snd (log S)) \<le> (if h \<in> seen (shared S) then 1 else 0))"

lemma reaches_funded_within:
  assumes "reaches cfgs ops S0 S" "initial S0" "st_reserve ops = reserve"
  shows "funded_within S"
  using assms(1)
proof induction
  case start
  from assms(2) show ?case by (simp add: initial_def funded_within_def)
next
  case (call S i E cl)
  let ?c' = "snd (exec (cfgs i) ops E cl (view i S))"
  from exec_funds_reserved [OF assms(3), where c = "view i S" and cfg = "cfgs i" and E = E and cl = cl]
  have "funds_reserved (view i S) ?c'" by (simp add: keeps_snd)
  then have new: "seen (shared S) \<subseteq> seen (store ?c')"
    "\<And>h. fund_count h (trace ?c') \<le> (if h \<in> seen (store ?c') - seen (shared S) then 1 else 0)"
    by (simp_all add: funds_reserved_def view_def)
  have "fund_count h (map snd (log S)) + fund_count h (trace ?c') \<le> (if h \<in> seen (store ?c') then 1 else 0)" for h
    using call.IH new(1) new(2) [of h] by (auto simp: funded_within_def split: if_splits dest: spec [of _ h])
  then show ?case by (simp add: funded_within_def commit_def comp_def)
next
  case (crash S i r)
  then show ?case by (simp add: funded_within_def)
qed

end

section \<open>Refunds complete\<close>

text \<open>When the broadcasts and the durable write go through, the refund calls reach a terminal state.\<close>

definition refunds_work :: "env \<Rightarrow> bool" where
  "refunds_work E \<longleftrightarrow> leg_refund E = (\<lambda>_ _. Ok ()) \<and> refund_asset E = (\<lambda>_. Ok ()) \<and> persist_hook E = Some (\<lambda>_. Ok ())"

lemma rec_inv_with_state:
  assumes "rec_inv r" "sr_state r \<noteq> NEGOTIATED" "advance (sr_state r) ev = Ok st"
  shows "with_state r st = Ok (r\<lparr>sr_state := st\<rparr>)"
  using rec_inv_advance [OF assms(1) _ assms(3)] assms(1,2) by (auto simp: rec_inv_def)

lemma wp_completes:
  assumes "wp m (\<lambda>_ c'. sr_state (the_record c') = st \<and> durable_record c' = Some (the_record c')) (\<lambda>_ _. False) c"
  shows "\<exists>c'. m c = (Ok (), c') \<and> sr_state (the_record c') = st \<and> durable_record c' = Some (the_record c')"
  using assms by (auto simp: wp_def split: prod.splits sum.splits)

lemma mutual_refund_completes:
  assumes "rec_inv (the_record c)" "sr_state (the_record c) = BOTH_LOCKED" "refunds_work E"
  shows "\<exists>c'. mutual_refund E c = (Ok (), c') \<and> sr_state (the_record c') = MUTUAL_REFUND \<and> durable_record c' = Some (the_record c')"
proof (rule wp_completes)
  from assms(1,2) obtain loc where "counterchain_locator (the_record c) = Some loc" by (auto simp: rec_inv_def)
  moreover have "advance BOTH_LOCKED BOTH_TIMEOUTS_ELAPSE = Ok MUTUAL_REFUND" by (simp add: advance_from)
  moreover note rec_inv_with_state [OF assms(1), of BOTH_TIMEOUTS_ELAPSE MUTUAL_REFUND]
  ultimately show "wp (mutual_refund E)
      (\<lambda>_ c'. sr_state (the_record c') = MUTUAL_REFUND \<and> durable_record c' = Some (the_record c')) (\<lambda>_ _. False) c"
    using assms(2,3) by (simp add: mutual_refund_def wp_simps wp_advance_act wp_persist_record refunds_work_def Let_def)
qed

lemma taker_refund_completes:
  assumes "rec_inv (the_record c)" "sr_state (the_record c) \<in> {BTC_LOCKED, PARAMS_MISMATCH}" "refunds_work E"
  shows "\<exists>c'. taker_refund_btc E c = (Ok (), c') \<and> sr_state (the_record c') = ABORTED \<and> durable_record c' = Some (the_record c')"
proof (rule wp_completes)
  from assms(1,2) obtain loc where "counterchain_locator (the_record c) = Some loc" by (auto simp: rec_inv_def)
  moreover have "advance BTC_LOCKED MAKER_NEVER_LOCKS_BTC_TIMEOUT = Ok ABORTED" "advance PARAMS_MISMATCH TAKER_REFUNDS_BTC = Ok ABORTED"
    by (simp_all add: advance_from)
  moreover note rec_inv_with_state [OF assms(1), of MAKER_NEVER_LOCKS_BTC_TIMEOUT ABORTED]
    rec_inv_with_state [OF assms(1), of TAKER_REFUNDS_BTC ABORTED]
  ultimately show "wp (taker_refund_btc E)
      (\<lambda>_ c'. sr_state (the_record c') = ABORTED \<and> durable_record c' = Some (the_record c')) (\<lambda>_ _. False) c"
    using assms(2,3)
    by (auto simp: taker_refund_btc_def wp_simps wp_advance_act wp_persist_record refunds_work_def Let_def)
qed

end
