(* ===== verification/Coordinator_Props.thy ===== *)
theory Coordinator_Props
  imports Coordinator_Safety
begin

text \<open>
  The properties of the coordinator, over the calls and the systems of theory \<open>Coordinator_Safety\<close>.
  The stores are the two of theory \<open>Seen_Store\<close>.
\<close>

definition db_ops :: "db_store store_ops" where
  "db_ops = \<lparr>st_reserve = db_reserve, st_has_seen = db_has_seen, st_durable = True\<rparr>"

definition mem_ops :: "mem_store store_ops" where
  "mem_ops = \<lparr>st_reserve = mem_reserve, st_has_seen = mem_has_seen, st_durable = False\<rparr>"

section \<open>A concrete swap\<close>

definition example_terms :: terms where
  "example_terms =
     \<lparr>hashlock = sha256 (replicate 32 9), btc_sats = 5000, radiant_amount = 1000,
      t_btc = \<lparr>tl_value = 144, tl_unit = BLOCKS\<rparr>, t_rxd = \<lparr>tl_value = 72, tl_unit = BLOCKS\<rparr>,
      asset_variant = ''rxd'', genesis_ref = [], taker_dest_hash = ZERO32, maker_dest_hash = ZERO32,
      btc_claim_pubkey_xonly = ZERO32, btc_refund_pubkey_xonly = ZERO32, counter_chain = ''btc'',
      value_amount = 5000, eth_timeout_unix_s = None, credential_ref = []\<rparr>"

definition example_record :: swap_record where
  "example_record =
     \<lparr>sr_state = NEGOTIATED, sr_terms = example_terms, counterchain_locator = None,
      radiant_covenant_outpoint = None, radiant_covenant_spk_hex = None\<rparr>"

definition example_locator :: btc_locator where
  "example_locator =
     \<lparr>funding_outpoint = \<lparr>op_txid = replicate 64 (CHR ''a''), op_vout = 0\<rparr>,
      loc_tree = \<lparr>claim_script = [], refund_script = [], leaf_version = 192\<rparr>,
      control_block_claim = replicate 65 0, control_block_refund = replicate 65 0,
      internal_key = replicate 32 0, amount_sats = 5000, network = ''bc''\<rparr>"

text \<open>An environment in which every call succeeds; the leg reports the amount in the locator.\<close>

definition working_env :: env where
  "working_env =
     \<lparr>resolve_ref = (\<lambda>_. Ok None), resolve_credential = None,
      derive_funding_spk = (\<lambda>_. Ok []), promised_funding_spk = (\<lambda>_. Ok []),
      leg_fund = (\<lambda>_. Ok (BtcLoc example_locator)),
      locked_amount = (\<lambda>l. case l of BtcLoc b \<Rightarrow> Ok (amount_sats b) | EthLoc e \<Rightarrow> Ok (amount_wei e)),
      leg_claim = (\<lambda>_ _. Ok ()), leg_refund = (\<lambda>_ _. Ok ()), leg_scrape_tx = scrape_secret,
      confirmations_of_claim = (\<lambda>_. Ok 6), fetch_claim_artifacts = (\<lambda>_. Ok []),
      leg_scrape_artifacts = (\<lambda>_ _. Err ValidationError), assert_claim_provenance = (\<lambda>_ _ _. Ok ()),
      claim_finality_verdict = (\<lambda>_. Err ValidationError), verify_counterparty_funded = None,
      expected_covenant_spk = (\<lambda>_. Ok []), covenant_outpoint = (\<lambda>_. Ok []),
      claim_asset = (\<lambda>_ _. Ok ()), refund_asset = (\<lambda>_. Ok ()), persist_hook = Some (\<lambda>_. Ok ())\<rparr>"

definition example_config :: config where
  "example_config =
     \<lparr>policy = example_policy, maker_stall_safety_window_blocks = 6, min_ref_confirmations = 6,
      accept_nondurable_seen = False, accept_estimated_eth_margins = False, min_credential_confirmations = 6\<rparr>"

definition example_system :: "db_store system" where
  "example_system =
     \<lparr>recs = (\<lambda>_. example_record), shared = \<lparr>rows = {}, available = True\<rparr>, durables = (\<lambda>_. None), log = []\<rparr>"

definition funded_record :: swap_record where
  "funded_record = example_record\<lparr>counterchain_locator := Some (BtcLoc example_locator), sr_state := BTC_LOCKED\<rparr>"

lemma example_system_initial: "initial example_system"
  by (simp add: initial_def fresh_record_def example_system_def example_record_def)

lemma example_gate:
  "h \<notin> rows s \<Longrightarrow> h = hashlock example_terms \<Longrightarrow> available s \<Longrightarrow>
     pre_btc_lock_check example_config db_ops working_env example_terms None s = Ok True"
  by (simp add: pre_btc_lock_check_def catch_validation_def catch_any_def verify_ref_authenticity_def credential_gate_def
      db_ops_def db_has_seen_def db_h_def working_env_def example_config_def example_terms_def
      assert_timelock_margin_def normalize_to_def example_policy_def)

lemma funded_record_valid:
  "with_counter_lock example_record (BtcLoc example_locator) = Ok (example_record\<lparr>counterchain_locator := Some (BtcLoc example_locator)\<rparr>)"
  "with_state (example_record\<lparr>counterchain_locator := Some (BtcLoc example_locator)\<rparr>) BTC_LOCKED = Ok funded_record"
  by (simp_all add: with_counter_lock_def with_state_def SwapRecord_def funded_record_def example_record_def example_terms_def)

lemma example_selectors:
  "persist_hook working_env = Some (\<lambda>_. Ok ())" "leg_fund working_env = (\<lambda>_. Ok (BtcLoc example_locator))"
  "locked_amount working_env (BtcLoc b) = Ok (amount_sats b)"
  "st_reserve db_ops = db_reserve" "st_has_seen db_ops = db_has_seen" "st_durable db_ops"
  "policy example_config = example_policy"
  by (simp_all add: working_env_def db_ops_def example_config_def)

lemma example_funds:
  "exec example_config db_ops working_env (Funds example_terms None) (view 0 example_system) =
     (Ok (), \<lparr>the_record = funded_record, store = \<lparr>rows = {hashlock example_terms}, available = True\<rparr>,
             durable_record = Some funded_record,
             trace = [EPersist example_record, EReserve (hashlock example_terms), EFund example_terms, EPersist funded_record]\<rparr>)"
proof -
  have st: "advance (sr_state (example_record\<lparr>counterchain_locator := Some (BtcLoc example_locator)\<rparr>)) TAKER_FUNDS_BTC = Ok BTC_LOCKED"
    by (simp add: example_record_def advance_from)
  have st': "advance NEGOTIATED TAKER_FUNDS_BTC = Ok BTC_LOCKED" by (simp add: advance_from)
  have h: "length (hashlock example_terms) = 32" by (simp add: example_terms_def)
  have n: "sr_state example_record = NEGOTIATED" by (simp add: example_record_def)
  have r: "db_reserve (hashlock example_terms) \<lparr>rows = {}, available = True\<rparr> = (Ok True, \<lparr>rows = {hashlock example_terms}, available = True\<rparr>)"
    by (simp add: db_reserve_def db_h_def insert_or_ignore_def h)
  have v: "value_amount example_terms = 5000" "amount_sats example_locator = 5000"
    by (simp_all add: example_terms_def example_locator_def)
  show ?thesis
    by (simp add: taker_funds_btc_def bind_s_def get_record_def require_def lift_r_def ret_def emit_def put_record_def
        advance_act_def persist_record_def reserve_act_def view_def example_system_def example_gate n r st st' v
        funded_record_valid example_selectors)
qed

section \<open>Properties\<close>


definition funded_system :: "db_store system" where
  "funded_system = commit 0 (snd (exec example_config db_ops working_env (Funds example_terms None) (view 0 example_system))) example_system"

lemma funded_system_reached: "reaches (\<lambda>_. example_config) db_ops example_system funded_system"
  unfolding funded_system_def
  using reaches.call [of "\<lambda>_. example_config" db_ops example_system example_system 0 working_env "Funds example_terms None"]
  by (simp add: reaches.start)

lemma funded_system_fields:
  "recs funded_system 0 = funded_record" "durables funded_system 0 = Some funded_record"
  "log funded_system = map (Pair 0) [EPersist example_record, EReserve (hashlock example_terms), EFund example_terms, EPersist funded_record]"
  unfolding funded_system_def example_funds by (simp_all add: commit_def example_system_def)





text \<open>C4: The durable state is never lost. In every history each coordinator keeps its negotiated terms,
  its state is one the table reaches, and in every state after funding the record, and its durable
  copy, carry the counter-chain locator without which the value could not be claimed or refunded.\<close>

theorem record_invariant:
  assumes "initial S0" and "reaches cfgs ops S0 S" and "r = recs S i \<or> durables S i = Some r"
  shows "sr_terms r = sr_terms (recs S0 i) \<and> (\<exists>evs. run NEGOTIATED evs = Ok (sr_state r))
    \<and> (sr_state r \<noteq> NEGOTIATED \<longrightarrow> counterchain_locator r \<noteq> None) \<and> SwapRecord r = Ok r"
proof -
  from reaches_inv [OF assms(2,1)] have "coord_inv (sr_terms (recs S0 i)) (view i S)" by (simp add: system_inv_def)
  with assms(3) show ?thesis by (auto simp: coord_inv_def view_def rec_inv_def)
qed

theorem record_invariant_witness:
  "durables funded_system 0 = Some funded_record \<and> sr_state funded_record \<noteq> NEGOTIATED
   \<and> counterchain_locator funded_record \<noteq> None"
  using record_invariant [OF example_system_initial funded_system_reached, of funded_record 0]
  by (simp add: funded_system_fields) (simp add: funded_record_def)

text \<open>C5: Locked value can always be recovered. In every reachable history, a coordinator whose counter
  leg is locked and whose secret is not public reaches a refunded terminal state with one call, as
  soon as the refund broadcasts and the durable write go through, and the terminal record is durable.\<close>

theorem recovery_available:
  assumes "initial S0" and "reaches cfgs ops S0 S" and "refunds_work E"
    and "sr_state (recs S i) \<in> {BTC_LOCKED, PARAMS_MISMATCH, BOTH_LOCKED}"
  shows "\<exists>cl c'. exec (cfgs i) ops E cl (view i S) = (Ok (), c')
     \<and> sr_state (the_record c') = (if sr_state (recs S i) = BOTH_LOCKED then MUTUAL_REFUND else ABORTED)
     \<and> is_terminal (sr_state (the_record c')) \<and> durable_record c' = Some (the_record c')"
proof -
  from reaches_inv [OF assms(2,1)] have "coord_inv (sr_terms (recs S0 i)) (view i S)" by (simp add: system_inv_def)
  then have inv: "rec_inv (the_record (view i S))" by (simp add: coord_inv_def)
  have st: "sr_state (the_record (view i S)) = sr_state (recs S i)" by (simp add: view_def)
  show ?thesis
  proof (cases "sr_state (recs S i) = BOTH_LOCKED")
    case True
    with mutual_refund_completes [OF inv _ assms(3)] st show ?thesis
      by (auto simp: is_terminal_def TERMINAL_STATES_def intro!: exI [of _ Mutual])
  next
    case False
    with taker_refund_completes [OF inv _ assms(3)] assms(4) st show ?thesis
      by (auto simp: is_terminal_def TERMINAL_STATES_def intro!: exI [of _ Refund_btc])
  qed
qed

theorem recovery_available_witness:
  "\<exists>cl c'. exec example_config db_ops working_env cl (view 0 funded_system) = (Ok (), c')
     \<and> sr_state (the_record c') = ABORTED"
  using recovery_available [OF example_system_initial funded_system_reached, of working_env 0]
  by (auto simp: funded_system_fields) (auto simp: funded_record_def working_env_def refunds_work_def)

end
