(* ===== verification/Coordinator_Gates.thy ===== *)
theory Coordinator_Gates
  imports Coordinator_Props
begin

text \<open>
  What single calls of the coordinator promise: terminal records are never touched, a call that
  returns has made its record durable, a claim of the asset is made only behind the reorganisation
  gate, and the floor on the proactive-refund window; and what happens when the counter leg funds
  a wrong amount.
\<close>

section \<open>Terminal states and durability\<close>

text \<open>A finished swap stays finished: in a terminal state every call but the maker's read-only
  verification of the counter funding is refused, before any effect and whatever the environment.\<close>

theorem terminal_absorbs:
  assumes "is_terminal (sr_state (the_record c))" and "\<forall>a. cl \<noteq> Verify_counter a"
  shows "exec cfg ops E cl c = (Err ValidationError, c)"
  using assms
  by (cases cl)
    (auto simp: taker_funds_btc_def post_asset_lock_revalidate_def maker_claims_btc_def taker_scrape_and_claim_asset_def
      taker_scrape_and_claim_eth_def taker_claim_asset_from_vulnerable_def taker_claim_eth_from_vulnerable_def
      maybe_refund_asset_on_maker_stall_def taker_refund_btc_def mutual_refund_def bind_s_def get_record_def require_def
      lift_r_def is_terminal_def TERMINAL_STATES_def)

theorem terminal_absorbs_witness:
  "exec example_config mem_ops working_env (Maker_claims [])
     \<lparr>the_record = funded_record\<lparr>sr_state := MUTUAL_REFUND\<rparr>, store = {}, durable_record = None, trace = []\<rparr>
   = (Err ValidationError, \<lparr>the_record = funded_record\<lparr>sr_state := MUTUAL_REFUND\<rparr>, store = {}, durable_record = None, trace = []\<rparr>)"
  by (rule terminal_absorbs) (simp_all add: is_terminal_def TERMINAL_STATES_def)

definition saved :: "'s coord \<Rightarrow> 's coord \<Rightarrow> bool" where
  "saved c c' \<longleftrightarrow> durable_record c' = Some (the_record c') \<or> c' = c"

abbreviation saves :: "'s coord \<Rightarrow> ('s, unit) act \<Rightarrow> 's coord \<Rightarrow> bool" where
  "saves c0 m c \<equiv> wp m (\<lambda>_. saved c0) (\<lambda>_ _. True) c"

lemma wp_True: "wp m (\<lambda>_ _. True) (\<lambda>_ _. True) c"
  by (auto simp: wp_def split: prod.splits sum.splits)

lemma wp_after: "(\<And>x c'. wp (f x) Q (\<lambda>_ _. True) c') \<Longrightarrow> wp (bind_s m f) Q (\<lambda>_ _. True) c"
  unfolding wp_bind_s by (rule wp_mono [OF wp_True]) simp_all

lemma persist_saves: "persist_hook E \<noteq> None \<Longrightarrow> saves c0 (persist_record E sh) c"
  by (auto simp: wp_persist_record saved_def Let_def split: sum.splits option.splits)

lemma ret_saves: "saves c (ret ()) c"
  by (simp add: wp_ret saved_def)

lemma Err_saves: "saves c0 (lift_r (Err e)) c"
  by (simp add: wp_lift_r)

lemma claim_and_complete_saves: "persist_hook E \<noteq> None \<Longrightarrow> saves c0 (claim_and_complete E p) c"
  unfolding claim_and_complete_def by (intro wp_after persist_saves)

lemma act_on_finality_saves: "persist_hook E \<noteq> None \<Longrightarrow> saves c (act_on_finality E p f) c"
  by (cases f) (auto simp: act_on_finality_def intro!: ret_saves wp_after persist_saves claim_and_complete_saves)

lemma exec_saves:
  assumes "persist_hook E \<noteq> None"
  shows "saves c (exec cfg ops E cl) c"
proof (cases cl)
  case (Funds t now)
  with assms show ?thesis by (simp add: taker_funds_btc_def) (intro wp_after persist_saves, simp)
next
  case (Revalidate spk now)
  with assms show ?thesis
    by (auto simp: post_asset_lock_revalidate_def split: sum.splits intro!: wp_after persist_saves Err_saves)
next
  case (Verify_counter addr)
  with assms show ?thesis
    by (auto simp: maker_verify_counter_funding_def wp_simps split: sum.splits option.splits
        intro!: persist_saves wp_mono [OF wp_True])
next
  case (Maker_claims p)
  with assms show ?thesis
    by (auto simp: maker_claims_btc_def wp_simps split: sum.splits option.splits intro!: persist_saves wp_mono [OF wp_True])
next
  case (Scrape_and_claim tx n l)
  with assms show ?thesis
    by (auto simp: taker_scrape_and_claim_asset_def taker_scrape_and_claim_eth_def wp_simps
        split: sum.splits option.splits locator.splits intro!: act_on_finality_saves)
next
  case (Claim_vulnerable tx)
  with assms show ?thesis
    by (auto simp: taker_claim_asset_from_vulnerable_def taker_claim_eth_from_vulnerable_def wp_simps
        split: sum.splits option.splits locator.splits intro!: claim_and_complete_saves)
next
  case (Stall_refund n l b)
  with assms show ?thesis
    by (auto simp: maybe_refund_asset_on_maker_stall_def wp_simps wp_advance_act saved_def [of c c] split: sum.splits
        intro!: persist_saves)
next
  case Refund_btc
  with assms show ?thesis
    by (auto simp: taker_refund_btc_def wp_simps split: sum.splits option.splits intro!: persist_saves wp_mono [OF wp_True])
next
  case Mutual
  with assms show ?thesis
    by (auto simp: mutual_refund_def wp_simps split: sum.splits option.splits intro!: persist_saves wp_mono [OF wp_True])
qed

text \<open>A step that returns is durable: with a durable-write hook, a call that returns normally has
  written the very record it leaves the coordinator with, or has changed nothing at all.\<close>

theorem returned_is_durable:
  assumes "persist_hook E \<noteq> None" and "exec cfg ops E cl c = (Ok (), c')"
  shows "durable_record c' = Some (the_record c') \<or> c' = c"
  using exec_saves [OF assms(1), where c = c and cfg = cfg and ops = ops and cl = cl] assms(2) by (simp add: wp_def saved_def)

theorem returned_is_durable_witness:
  "\<exists>c'. exec example_config db_ops working_env (Funds example_terms None) (view 0 example_system) = (Ok (), c')
     \<and> durable_record c' = Some (the_record c') \<and> the_record c' = funded_record"
  using returned_is_durable [OF _ example_funds] by (auto simp: example_funds example_selectors simp del: exec.simps)

section \<open>The reorganisation gate\<close>

text \<open>What a call logs, and a condition on every claim of the asset among it.\<close>

definition claims_only :: "(swap_record \<Rightarrow> bytes \<Rightarrow> bool) \<Rightarrow> 's coord \<Rightarrow> 's coord \<Rightarrow> bool" where
  "claims_only G c c' \<longleftrightarrow>
     (\<exists>new. trace c' = trace c @ new \<and> (\<forall>r p. EClaimAsset r p \<in> set new \<longrightarrow> G r p))"

lemma claims_only_refl [simp]: "claims_only G c c"
  by (simp add: claims_only_def)

lemma persist_claims: "trace c = trace c0 \<Longrightarrow> keeps (claims_only G c0) (persist_record E sh) c"
  by (auto simp: wp_persist_record Let_def claims_only_def split: sum.splits option.splits)

lemma claim_and_complete_claims:
  "G (the_record c) p \<Longrightarrow> keeps (claims_only G c) (claim_and_complete E p) c"
  by (auto simp: claim_and_complete_def wp_simps wp_advance_act wp_persist_record Let_def claims_only_def
      split: sum.splits option.splits)

lemma act_on_finality_claims:
  "(f = SAFE \<Longrightarrow> G (the_record c) p) \<Longrightarrow> keeps (claims_only G c) (act_on_finality E p f) c"
  by (cases f)
    (auto simp: act_on_finality_def wp_simps wp_advance_act split: sum.splits intro: claim_and_complete_claims persist_claims)

text \<open>The evidence on the counter chain that a claim rests on.\<close>

definition claim_evidence :: "config \<Rightarrow> env \<Rightarrow> bytes \<Rightarrow> swap_record \<Rightarrow> bytes \<Rightarrow> bool" where
  "claim_evidence cfg E tx r p \<longleftrightarrow>
     (if counter_chain (sr_terms r) = ''btc'' then
        \<exists>l op ins confs. counterchain_locator r = Some (BtcLoc l) \<and> prevout_bytes (funding_outpoint l) = Ok op
          \<and> btc_input_outpoints_from_raw tx = Ok ins \<and> op \<in> set ins
          \<and> confirmations_of_claim E tx = Ok confs
          \<and> lock_blocks (btc_claim_reorg_depth (policy cfg)) (block_interval_s (policy cfg)) \<le> confs
      else
        \<exists>l vd. counterchain_locator r = Some (EthLoc l) \<and> assert_claim_provenance E tx (contract_address l) p = Ok ()
          \<and> claim_finality_verdict E tx = Ok vd \<and> ccf_state vd = FINAL)"

definition room_to_claim :: "config \<Rightarrow> int \<Rightarrow> int \<Rightarrow> swap_record \<Rightarrow> bool" where
  "room_to_claim cfg now locked r \<longleftrightarrow>
     (let left = blocks_left (policy cfg) (t_rxd (sr_terms r)) locked now
      in 0 \<le> locked \<and> locked \<le> now \<and> flat_burial (policy cfg) \<le> left
         \<and> reorg_deterred (policy cfg) (value_at_risk_photons (policy cfg)) left)"

lemma assess_room:
  assumes "MarginPolicy q = Ok (policy cfg)"
    "assess_claim_finality vd now locked (t_rxd (sr_terms r)) (policy cfg) None = Ok SAFE"
  shows "room_to_claim cfg now locked r" "ccf_state vd = FINAL"
  using assms(2) unfolding claim_safe_rule [OF assms(1)]
  by (auto simp: room_to_claim_def heights_ok_def effective_value_def Let_def)

lemma btc_verdict_FINAL:
  "btc_claim_verdict mp confs = Ok vd \<Longrightarrow> ccf_state vd = FINAL \<Longrightarrow>
   lock_blocks (btc_claim_reorg_depth mp) (block_interval_s mp) \<le> confs"
  unfolding btc_claim_verdict_def bind_r_Ok_iff normalize_blocks_iff from_btc_depth_def CounterClaimFinality_def
  by (auto split: if_splits)

lemma spends_our_htlc_Ok:
  "assert_claim_tx_spends_our_htlc r tx = Ok u \<Longrightarrow>
   \<exists>l op ins. counterchain_locator r = Some (BtcLoc l) \<and> prevout_bytes (funding_outpoint l) = Ok op
     \<and> btc_input_outpoints_from_raw tx = Ok ins \<and> op \<in> set ins"
  by (auto simp: assert_claim_tx_spends_our_htlc_def bind_r_Ok_iff split: option.splits locator.splits if_splits)

lemma btc_claim_evidence:
  assumes "counter_chain (sr_terms r) = ''btc''" "assert_claim_tx_spends_our_htlc r tx = Ok u"
    "confirmations_of_claim E tx = Ok confs" "btc_claim_verdict (policy cfg) confs = Ok vd" "ccf_state vd = FINAL"
  shows "claim_evidence cfg E tx r p"
  using spends_our_htlc_Ok [OF assms(2)] btc_verdict_FINAL [OF assms(4,5)] assms(1,3)
  by (auto simp: claim_evidence_def)

lemma eth_claim_evidence:
  assumes "counter_chain (sr_terms r) \<noteq> ''btc''" "counterchain_locator r = Some (EthLoc l)"
    "assert_claim_provenance E tx (contract_address l) p = Ok u" "claim_finality_verdict E tx = Ok vd" "ccf_state vd = FINAL"
  shows "claim_evidence cfg E tx r p"
  using assms by (simp add: claim_evidence_def)

lemma scrape_and_claim_claims:
  assumes "MarginPolicy q = Ok (policy cfg)"
  shows "keeps (claims_only (\<lambda>r p. r = the_record c \<and> sr_state r = SECRET_REVEALED \<and> sha256 p = hashlock (sr_terms r)
      \<and> claim_evidence cfg E tx r p \<and> room_to_claim cfg now locked r) c)
    (exec cfg ops E (Scrape_and_claim tx now locked)) c"
  using assess_room [OF assms]
  by (auto simp: taker_scrape_and_claim_asset_def taker_scrape_and_claim_eth_def wp_simps
      split: sum.splits option.splits locator.splits intro!: act_on_finality_claims
      intro: btc_claim_evidence eth_claim_evidence)

text \<open>C3: The asset is claimed automatically only when that is safe. Whatever the environment answers,
  a call that scrapes the secret and claims the asset broadcasts the claim only for the current
  record, with the secret revealed and a preimage of the hashlock, after the maker's claim was shown
  to spend this swap's own lock at the required depth (or, on Ethereum, to come from this swap's
  contract and to be final), and with enough Radiant blocks left to bury the claim and to make a
  reorganisation cost more than the value at stake.\<close>

theorem asset_claim_gated:
  assumes "MarginPolicy q = Ok (policy cfg)"
    and "trace (snd (exec cfg ops E (Scrape_and_claim tx now locked) c)) = trace c @ new"
    and "EClaimAsset r p \<in> set new"
  shows "r = the_record c \<and> sr_state r = SECRET_REVEALED \<and> sha256 p = hashlock (sr_terms r)
    \<and> claim_evidence cfg E tx r p \<and> room_to_claim cfg now locked r"
  using scrape_and_claim_claims [OF assms(1), where c = c and E = E and tx = tx and now = now and locked = locked and ops = ops]
    assms(2,3)
  unfolding keeps_snd claims_only_def by auto

definition claim_tx :: btc_tx where
  "claim_tx = example_tx\<lparr>tx_ins := [(replicate 32 0xaa @ replicate 4 0, [], replicate 4 255)]\<rparr>"

definition revealed :: "mem_store coord" where
  "revealed = \<lparr>the_record = funded_record\<lparr>sr_state := SECRET_REVEALED\<rparr>, store = {}, durable_record = None, trace = []\<rparr>"

lemma claim_tx_counts: "within_counts claim_tx"
  using example_tx_counts
  by (simp add: within_counts_def wf_btc_tx_def wf_field_def claim_tx_def example_tx_def MAX_COUNT_def)

lemma fromhex_aa: "fromhex (replicate (2 * n) (CHR ''a'')) = Ok (replicate n 0xaa)"
  by (induction n) (simp_all add: ascii_space_def hex_val_def)

lemma le_bytes_zero: "le_bytes n 0 = replicate n 0"
  by (induction n) simp_all

lemma claim_tx_parses:
  "btc_input_outpoints_from_raw (ser_segwit claim_tx) = Ok [replicate 32 0xaa @ replicate 4 0]"
  "scrape_secret (ser_segwit claim_tx) (hashlock example_terms) = Ok (replicate 32 9)"
  "prevout_bytes (funding_outpoint example_locator) = Ok (replicate 32 0xaa @ replicate 4 0)"
proof -
  show "btc_input_outpoints_from_raw (ser_segwit claim_tx) = Ok [replicate 32 0xaa @ replicate 4 0]"
    using parse_segwit(2) [OF claim_tx_counts, of "[]"] by (simp add: claim_tx_def)
  show "scrape_secret (ser_segwit claim_tx) (hashlock example_terms) = Ok (replicate 32 9)"
    using parse_segwit(3) [OF claim_tx_counts, of "[]"]
    by (simp add: scrape_secret_def claim_tx_def example_tx_def example_terms_def del: replicate.simps replicate_Suc)
  show "prevout_bytes (funding_outpoint example_locator) = Ok (replicate 32 0xaa @ replicate 4 0)"
    using fromhex_aa [of 32] le_bytes_zero [of 4] by (simp add: prevout_bytes_def example_locator_def pack_u_def)
qed

theorem asset_claim_gated_witness:
  "\<exists>new. trace (snd (exec example_config mem_ops working_env (Scrape_and_claim (ser_segwit claim_tx) 100 90) revealed)) = new
     \<and> EClaimAsset (the_record revealed) (replicate 32 9) \<in> set new
     \<and> sha256 (replicate 32 9) = hashlock (sr_terms (the_record revealed))
     \<and> room_to_claim example_config 100 90 (the_record revealed)"
proof -
  have t: "sr_terms (the_record revealed) = example_terms" "sr_state (the_record revealed) = SECRET_REVEALED"
    "counterchain_locator (the_record revealed) = Some (BtcLoc example_locator)" "trace revealed = []"
    by (simp_all add: revealed_def funded_record_def example_record_def)
  have e: "counter_chain example_terms = ''btc''" "hashlock example_terms = sha256 (replicate 32 9)"
    "t_rxd example_terms = \<lparr>tl_value = 72, tl_unit = BLOCKS\<rparr>"
    by (simp_all add: example_terms_def)
  have env: "leg_scrape_tx working_env = scrape_secret" "confirmations_of_claim working_env = (\<lambda>_. Ok 6)"
    "claim_asset working_env = (\<lambda>_ _. Ok ())"
    by (simp_all add: working_env_def)
  have sp: "assert_claim_tx_spends_our_htlc (the_record revealed) (ser_segwit claim_tx) = Ok ()"
    by (simp add: assert_claim_tx_spends_our_htlc_def t claim_tx_parses)
  have v: "btc_claim_verdict example_policy 6 = Ok \<lparr>ccf_state = FINAL, confirmations = Some 6, required_depth = Some 6\<rparr>"
    by (simp add: btc_claim_verdict_def example_policy_def normalize_to_def from_btc_depth_def CounterClaimFinality_def)
  have a: "assess_claim_finality \<lparr>ccf_state = FINAL, confirmations = Some 6, required_depth = Some 6\<rparr> 100 90
      \<lparr>tl_value = 72, tl_unit = BLOCKS\<rparr> example_policy None = Ok SAFE"
    by (simp add: assess_claim_finality_def normalize_to_def reserve_to_blocks_def
        value_scaled_burial_blocks_def example_policy_def)
  have "keeps (\<lambda>c'. EClaimAsset (the_record revealed) (replicate 32 9) \<in> set (trace c'))
      (exec example_config mem_ops working_env (Scrape_and_claim (ser_segwit claim_tx) 100 90)) revealed"
    using claim_tx_parses(2)
    by (simp add: taker_scrape_and_claim_asset_def wp_simps t e env sp v a example_selectors act_on_finality_def
        claim_and_complete_def wp_advance_act wp_persist_record Let_def split: sum.splits del: replicate.simps replicate_Suc)
  then have m: "EClaimAsset (the_record revealed) (replicate 32 9) \<in>
      set (trace (snd (exec example_config mem_ops working_env (Scrape_and_claim (ser_segwit claim_tx) 100 90) revealed)))"
    unfolding keeps_snd .
  from asset_claim_gated [where q = example_policy and cfg = example_config and c = revealed, OF _ _ m] m show ?thesis
    by (auto simp: example_selectors example_policy_Ok t simp del: exec.simps)
qed

section \<open>The floor on the proactive-refund window\<close>

text \<open>A coordinator that was constructed for a measured Ethereum policy refunds early enough: as
  long as the proactive refund is not yet due, a maker's claim that is live but not final is waited
  for, unless the value-scaled burial exceeds the policy's flat burial so far that it does not fit,
  in which case the claim is squeezed.\<close>

theorem stall_floor_leaves_room:
  assumes "SwapCoordinator rec counter_leg btc_leg radiant_net ops cfg = Ok ()"
    and "MarginPolicy q = Ok (policy cfg)" and "is_measured (policy cfg)"
    and "counter_chain (sr_terms rec) \<noteq> ''btc''" and "eth_finalization_window_s (policy cfg) = Some w"
    and "heights_ok (policy cfg) (t_rxd (sr_terms rec)) locked now"
    and "taker_refund_window_open now locked (t_rxd (sr_terms rec)) (maker_stall_safety_window_blocks cfg) False
           (block_interval_s (policy cfg)) = Ok False"
    and "ccf_state vd = NOT_YET_FINAL_LIVE" and "required_depth vd = None"
    and "rxd_reorg_cost_per_block (policy cfg) = None \<or> value_at_risk_photons (policy cfg) \<noteq> None"
  shows "assess_claim_finality vd now locked (t_rxd (sr_terms rec)) (policy cfg) None =
    Ok (if value_scaled_burial_blocks (policy cfg) (value_at_risk_photons (policy cfg))
           \<le> blocks_left (policy cfg) (t_rxd (sr_terms rec)) locked now - ceil_div w (rxd_block_interval_s (policy cfg))
        then WAIT else SQUEEZED)"
proof -
  let ?p = "policy cfg" and ?t = "t_rxd (sr_terms rec)"
  from assms(1,3,4,5) have "stall_window_floor ?p w \<le> maker_stall_safety_window_blocks cfg"
    by (auto simp: SwapCoordinator_def Let_def split: option.splits if_splits)
  moreover from assms(6) have norm: "normalize_to ?t BLOCKS (block_interval_s ?p)
      = Ok \<lparr>tl_value = lock_blocks ?t (block_interval_s ?p), tl_unit = BLOCKS\<rparr>"
    by (simp add: normalize_blocks_iff heights_ok_def)
  from assms(7) have "maker_stall_safety_window_blocks cfg < blocks_left ?p ?t locked now"
    unfolding taker_refund_window_open_def norm by (auto simp: blocks_left_def split: if_splits)
  ultimately have "flat_burial ?p \<le> blocks_left ?p ?t locked now - ceil_div w (rxd_block_interval_s ?p)"
    by (simp add: stall_window_floor_def flat_burial_def)
  moreover have "remaining_positive vd" using assms(9) by (simp add: remaining_positive_def split: option.splits)
  ultimately show ?thesis
    using assms(5,8,9,10) unfolding assess_unfold [OF assms(6)] Let_def
    by (auto simp: effective_value_def)
qed

definition eth_policy :: margin_policy where
  "eth_policy = example_policy\<lparr>eth_finalization_window_s := Some 1200\<rparr>"

definition eth_config :: config where
  "eth_config = example_config\<lparr>policy := eth_policy, maker_stall_safety_window_blocks := 9\<rparr>"

definition eth_record :: swap_record where
  "eth_record = example_record\<lparr>sr_terms := example_terms\<lparr>counter_chain := ''eth'', eth_timeout_unix_s := Some 2000000\<rparr>\<rparr>"

text \<open>The floor counts the flat burial of 6 blocks only: with 10 blocks left the coordinator neither
  refunds nor can wait, since 19 blocks are needed to protect the value at stake.\<close>

theorem stall_floor_leaves_room_witness:
  "SwapCoordinator eth_record (Some (Some ''mainnet'')) None (Some ''mainnet'') db_ops eth_config = Ok ()
   \<and> taker_refund_window_open 152 90 \<lparr>tl_value = 72, tl_unit = BLOCKS\<rparr> 9 False 600 = Ok False
   \<and> assess_claim_finality \<lparr>ccf_state = NOT_YET_FINAL_LIVE, confirmations = None, required_depth = None\<rparr>
       152 90 \<lparr>tl_value = 72, tl_unit = BLOCKS\<rparr> eth_policy None = Ok SQUEEZED
   \<and> assess_claim_finality \<lparr>ccf_state = NOT_YET_FINAL_LIVE, confirmations = None, required_depth = None\<rparr>
       139 90 \<lparr>tl_value = 72, tl_unit = BLOCKS\<rparr> eth_policy None = Ok WAIT"
proof -
  have ok: "MarginPolicy eth_policy = Ok eth_policy"
    by (simp add: MarginPolicy_def eth_policy_def example_policy_def check_depth_floor_def normalize_to_def opt_pos_def
      MIN_REORG_DEPTH_BLOCKS_def MIN_ETH_FINALIZATION_WINDOW_S_def)
  have c: "SwapCoordinator eth_record (Some (Some ''mainnet'')) None (Some ''mainnet'') db_ops eth_config = Ok ()"
    by (simp add: SwapCoordinator_def db_ops_def eth_config_def eth_policy_def eth_record_def example_config_def
        example_policy_def leg_is_value_bearing_def AUDIT_CLEARED_NETWORKS_def stall_window_floor_def ceil_div_def
        reserve_to_blocks_def example_terms_def)
  have w: "taker_refund_window_open n 90 \<lparr>tl_value = 72, tl_unit = BLOCKS\<rparr> 9 False 600 = Ok False"
    if "n \<in> {139, 152}" for n
    using that by (auto simp: taker_refund_window_open_def normalize_to_def)
  have h: "heights_ok eth_policy \<lparr>tl_value = 72, tl_unit = BLOCKS\<rparr> 90 n" if "n \<in> {139, 152}" for n
    using that by (auto simp: heights_ok_def in_blocks_def eth_policy_def example_policy_def)
  have s: "policy eth_config = eth_policy" "maker_stall_safety_window_blocks eth_config = 9"
    "block_interval_s eth_policy = 600" "rxd_block_interval_s eth_policy = 300" "is_measured eth_policy"
    "t_rxd (sr_terms eth_record) = \<lparr>tl_value = 72, tl_unit = BLOCKS\<rparr>" "counter_chain (sr_terms eth_record) = ''eth''"
    "eth_finalization_window_s eth_policy = Some 1200" "value_at_risk_photons eth_policy = Some 9500"
    by (simp_all add: eth_config_def eth_policy_def eth_record_def example_policy_def example_terms_def)
  have b: "value_scaled_burial_blocks eth_policy (Some 9500) = 19"
    by (simp add: value_scaled_burial_blocks_def eth_policy_def example_policy_def)
  note room = stall_floor_leaves_room [OF c, unfolded s, OF ok, where locked = 90 and w = 1200]
  from room [OF _ _ _ h w, of 152] room [OF _ _ _ h w, of 139] c w b show ?thesis
    by (simp add: blocks_left_def lock_blocks_def ceil_div_def s)
qed

section \<open>What the funding step does not protect\<close>

text \<open>The gate knows neither the amount the leg will report nor the price it is asked to fund.\<close>

lemma priced_gate:
  "pre_btc_lock_check example_config db_ops (working_env\<lparr>locked_amount := f\<rparr>) (example_terms\<lparr>value_amount := v\<rparr>) None
     \<lparr>rows = {}, available = True\<rparr> = Ok True"
  by (simp add: pre_btc_lock_check_def catch_validation_def catch_any_def verify_ref_authenticity_def credential_gate_def
      db_ops_def db_has_seen_def db_h_def working_env_def example_config_def example_terms_def
      assert_timelock_margin_def normalize_to_def example_policy_def)

text \<open>When the counter leg locks another amount than the terms ask for, the step is refused only
  after the broadcast: the call raises, the hashlock is consumed and the leg was asked to fund, but
  the record is left as it was, without the locator, and both refund calls refuse it ever after.\<close>

theorem misvalued_fund_strands:
  assumes "sr_state (the_record c) = NEGOTIATED" and "pre_btc_lock_check cfg ops E t now (store c) = Ok True"
    and "persist_hook E = Some (\<lambda>_. Ok ())" and "st_reserve ops (hashlock t) (store c) = (Ok True, s')"
    and "leg_fund E t = Ok loc" and "locked_amount E loc = Ok n" and "n \<noteq> value_amount t"
  shows "\<exists>c'. exec cfg ops E (Funds t now) c = (Err ValidationError, c')
    \<and> the_record c' = the_record c \<and> store c' = s' \<and> EFund t \<in> set (trace c')
    \<and> exec cfg ops E' Refund_btc c' = (Err ValidationError, c') \<and> exec cfg ops E' Mutual c' = (Err ValidationError, c')"
  using assms
  by (simp add: taker_funds_btc_def taker_refund_btc_def mutual_refund_def bind_s_def get_record_def require_def lift_r_def
      ret_def emit_def persist_record_def reserve_act_def)

theorem misvalued_fund_strands_witness:
  "\<exists>c'. exec example_config db_ops (working_env\<lparr>locked_amount := (\<lambda>_. Ok 6000)\<rparr>) (Funds example_terms None) (view 0 example_system)
      = (Err ValidationError, c') \<and> the_record c' = example_record \<and> EFund example_terms \<in> set (trace c')
    \<and> exec example_config db_ops working_env Refund_btc c' = (Err ValidationError, c')"
proof -
  let ?E = "working_env\<lparr>locked_amount := (\<lambda>_. Ok 6000)\<rparr>" and ?s = "\<lparr>rows = {}, available = True\<rparr>"
  have g: "pre_btc_lock_check example_config db_ops ?E example_terms None ?s = Ok True"
    using priced_gate [of "\<lambda>_. Ok 6000" "value_amount example_terms"] by simp
  have h: "length (hashlock example_terms) = 32" "value_amount example_terms = 5000" "sr_state example_record = NEGOTIATED"
    by (simp_all add: example_terms_def example_record_def)
  have r: "st_reserve db_ops (hashlock example_terms) ?s = (Ok True, \<lparr>rows = {hashlock example_terms}, available = True\<rparr>)"
    by (simp add: example_selectors db_reserve_def db_h_def insert_or_ignore_def h)
  show ?thesis
    using misvalued_fund_strands [where c = "view 0 example_system" and E = ?E and t = example_terms and now = None
        and cfg = example_config and ops = db_ops and E' = working_env and n = 6000 and loc = "BtcLoc example_locator"] g r
    by (auto simp: view_def example_system_def example_selectors h simp del: exec.simps)
qed

text \<open>The funding step does not compare the terms it is given with the negotiated ones: asked to
  fund other terms, here at a higher price, it locks that price and moves the record, which
  still carries the negotiated terms, on to the locked state.\<close>

theorem foreign_terms_funded:
  "\<exists>c'. exec example_config db_ops (working_env\<lparr>locked_amount := (\<lambda>_. Ok 7000)\<rparr>)
       (Funds (example_terms\<lparr>value_amount := 7000\<rparr>) None) (view 0 example_system) = (Ok (), c')
     \<and> the_record c' = funded_record \<and> value_amount (sr_terms (the_record c')) = 5000
     \<and> EFund (example_terms\<lparr>value_amount := 7000\<rparr>) \<in> set (trace c')"
proof -
  let ?E = "working_env\<lparr>locked_amount := (\<lambda>_. Ok 7000)\<rparr>" and ?s = "\<lparr>rows = {}, available = True\<rparr>"
  let ?t = "example_terms\<lparr>value_amount := 7000\<rparr>"
  note g = priced_gate [of "\<lambda>_. Ok 7000" 7000]
  have h: "length (hashlock example_terms) = 32" "sr_state example_record = NEGOTIATED"
      "value_amount (sr_terms funded_record) = 5000"
    by (simp_all add: example_terms_def example_record_def funded_record_def)
  have r: "db_reserve (hashlock example_terms) ?s = (Ok True, \<lparr>rows = {hashlock example_terms}, available = True\<rparr>)"
    by (simp add: db_reserve_def db_h_def insert_or_ignore_def h)
  have st: "advance NEGOTIATED TAKER_FUNDS_BTC = Ok BTC_LOCKED" by (simp add: advance_from)
  show ?thesis
    by (simp add: taker_funds_btc_def bind_s_def get_record_def require_def lift_r_def ret_def emit_def put_record_def
        advance_act_def persist_record_def reserve_act_def view_def example_system_def g h r st
        funded_record_valid example_selectors)
qed

end
