(* ===== verification/Watch_Decide.thy ===== *)
theory Watch_Decide
  imports Coordinator_Props
begin

text \<open>
  \<open>pyrxd/gravity/watch/decide.py\<close>: the decision core of the watchtower. From the durable record of
  a swap, what the chains show and the margin policy it concludes what the operator, or an
  executor, has to do this tick. The texts of the reasons are not modelled; the name of the
  coordinator step an alert carries is.
\<close>

section \<open>Data\<close>

datatype intent = WATCH | PAGE_CLAIM | PAGE_REFUND | PAGE_SQUEEZED | RETIRE | NOOP

record observations =
  maker_has_claimed_btc :: bool
  now_rxd_height :: int
  asset_locked_at_height :: "int option"
  btc_claim_confirmations :: "int option"
  btc_funding_confirmations :: "int option"
  eth_claim_detected :: bool
  eth_claim_finality :: "counter_claim_state option"
  obs_low_corroboration :: bool

definition opt_nonneg :: "int option \<Rightarrow> bool" where
  "opt_nonneg v = (case v of None \<Rightarrow> True | Some n \<Rightarrow> 0 \<le> n)"

definition Observations :: "observations \<Rightarrow> observations result" where
  "Observations obs =
     (if now_rxd_height obs < 0 then Err ValidationError
      else if \<not> opt_nonneg (asset_locked_at_height obs) then Err ValidationError
      else if \<not> opt_nonneg (btc_claim_confirmations obs) then Err ValidationError
      else if \<not> opt_nonneg (btc_funding_confirmations obs) then Err ValidationError
      else Ok obs)"

record decision =
  dec_intent :: intent
  recommended_action :: "string option"
  deadline_rxd_height :: "int option"
  dec_low_corroboration :: bool
  autonomous_btc_refund :: bool
  autonomous_asset_claim :: bool

definition Decision :: "decision \<Rightarrow> decision result" where
  "Decision d =
     (if autonomous_btc_refund d \<and> autonomous_asset_claim d then Err ValidationError
      else if autonomous_btc_refund d \<and> dec_intent d \<noteq> PAGE_REFUND then Err ValidationError
      else if autonomous_asset_claim d \<and> dec_intent d \<noteq> PAGE_CLAIM then Err ValidationError
      else Ok d)"

text \<open>A decision without autonomy.\<close>

definition plain :: "intent \<Rightarrow> string option \<Rightarrow> int option \<Rightarrow> bool \<Rightarrow> decision" where
  "plain i act deadline corr =
     \<lparr>dec_intent = i, recommended_action = act, deadline_rxd_height = deadline, dec_low_corroboration = corr,
      autonomous_btc_refund = False, autonomous_asset_claim = False\<rparr>"

section \<open>The decision\<close>

definition watch_value_at_risk :: "terms \<Rightarrow> int option" where
  "watch_value_at_risk t = (if asset_variant t = ''rxd'' then Some (radiant_amount t) else None)"

definition required_btc_depth_blocks :: "margin_policy \<Rightarrow> int result" where
  "required_btc_depth_blocks mp =
     bind_r (normalize_to (btc_claim_reorg_depth mp) BLOCKS (block_interval_s mp)) (\<lambda>d. Ok (tl_value d))"

definition refund_opens_at :: "margin_policy \<Rightarrow> terms \<Rightarrow> int \<Rightarrow> int result" where
  "refund_opens_at mp t locked_at =
     bind_r (normalize_to (t_rxd t) BLOCKS (block_interval_s mp)) (\<lambda>r. Ok (locked_at + tl_value r))"

definition btc_refund_matured :: "terms \<Rightarrow> observations \<Rightarrow> bool" where
  "btc_refund_matured t obs \<longleftrightarrow>
     tl_unit (t_btc t) = BLOCKS
     \<and> (case btc_funding_confirmations obs of None \<Rightarrow> False | Some n \<Rightarrow> tl_value (t_btc t) \<le> n)"

text \<open>The page for the outcome of the claim gate; an unassessable gate is a page too.\<close>

definition claim_page :: "bool \<Rightarrow> bool \<Rightarrow> int \<Rightarrow> claim_finality result \<Rightarrow> decision result" where
  "claim_page arms corr deadline gate =
     (case gate of
        Inl e \<Rightarrow>
          if e = ValidationError
          then Decision (plain PAGE_SQUEEZED (Some ''taker_scrape_and_claim_asset (verify finality manually)'') (Some deadline) corr)
          else Err e
      | Inr SAFE \<Rightarrow>
          Decision ((plain PAGE_CLAIM (Some ''taker_scrape_and_claim_asset'') (Some deadline) corr)\<lparr>autonomous_asset_claim := arms\<rparr>)
      | Inr WAIT \<Rightarrow> Decision (plain WATCH None (Some deadline) corr)
      | Inr SQUEEZED \<Rightarrow>
          Decision (plain PAGE_SQUEEZED (Some ''taker_claim_asset_from_vulnerable (winner-take-all) vs accept loss'') (Some deadline) corr))"

text \<open>Both legs locked and nothing revealed: is the refund due?\<close>

definition stall_page :: "margin_policy \<Rightarrow> int \<Rightarrow> terms \<Rightarrow> observations \<Rightarrow> decision result" where
  "stall_page mp window t obs =
     (let corr = obs_low_corroboration obs in
      case asset_locked_at_height obs of
        None \<Rightarrow> Decision (plain WATCH None None corr)
      | Some locked \<Rightarrow>
          bind_r (refund_opens_at mp t locked) (\<lambda>deadline.
            case taker_refund_window_open (now_rxd_height obs) locked (t_rxd t) window False (block_interval_s mp) of
              Inl e \<Rightarrow>
                if e = ValidationError then Decision (plain PAGE_REFUND (Some ''mutual_refund'') (Some deadline) corr) else Err e
            | Inr due \<Rightarrow>
                if due then Decision (plain PAGE_REFUND (Some ''mutual_refund'') (Some deadline) corr)
                else Decision (plain WATCH None (Some deadline) corr)))"

definition decide_eth :: "swap_record \<Rightarrow> observations \<Rightarrow> margin_policy \<Rightarrow> int \<Rightarrow> decision result" where
  "decide_eth rec obs mp window =
     (let corr = obs_low_corroboration obs; t = sr_terms rec; st = sr_state rec in
      if eth_claim_detected obs \<or> st = SECRET_REVEALED then
        (case (eth_claim_finality obs, asset_locked_at_height obs) of
           (Some fin, Some locked) \<Rightarrow>
             bind_r (CounterClaimFinality fin None None) (\<lambda>vd.
             bind_r (refund_opens_at mp t locked) (\<lambda>deadline.
               claim_page False corr deadline
                 (assess_claim_finality vd (now_rxd_height obs) locked (t_rxd t) mp (watch_value_at_risk t))))
         | _ \<Rightarrow> Decision (plain PAGE_SQUEEZED (Some ''taker_scrape_and_claim_asset (verify finality manually)'') None corr))
      else if st = ASSET_VULNERABLE then
        Decision (plain PAGE_SQUEEZED (Some ''taker_claim_asset_from_vulnerable vs accept loss'') None corr)
      else if st = PARAMS_MISMATCH then Decision (plain PAGE_REFUND (Some ''taker_refund_btc'') None corr)
      else if st = MAKER_STALLS then
        Decision (plain PAGE_SQUEEZED (Some ''investigate (mutual_refund is only valid from BOTH_LOCKED)'') None corr)
      else if st = BOTH_LOCKED then stall_page mp window t obs
      else Decision (plain WATCH None None corr))"

definition decide :: "swap_record \<Rightarrow> observations \<Rightarrow> margin_policy \<Rightarrow> int \<Rightarrow> decision result" where
  "decide rec obs mp window =
     (let corr = obs_low_corroboration obs; t = sr_terms rec; st = sr_state rec in
      if window < 0 then Err ValidationError
      else if is_terminal st then Decision (plain RETIRE None None corr)
      else if counter_chain t = ''eth'' then decide_eth rec obs mp window
      else if counter_chain t \<noteq> ''btc'' then Decision (plain NOOP None None corr)
      else if maker_has_claimed_btc obs \<or> st = SECRET_REVEALED then
        (case (btc_claim_confirmations obs, asset_locked_at_height obs) of
           (Some confs, Some locked) \<Rightarrow>
             bind_r (required_btc_depth_blocks mp) (\<lambda>depth.
             bind_r (from_btc_depth confs depth) (\<lambda>vd.
             bind_r (refund_opens_at mp t locked) (\<lambda>deadline.
               claim_page True corr deadline
                 (assess_claim_finality vd (now_rxd_height obs) locked (t_rxd t) mp (watch_value_at_risk t)))))
         | _ \<Rightarrow> Decision (plain PAGE_SQUEEZED (Some ''taker_scrape_and_claim_asset (verify finality manually)'') None corr))
      else if st = ASSET_VULNERABLE then
        Decision (plain PAGE_SQUEEZED (Some ''taker_claim_asset_from_vulnerable vs accept loss'') None corr)
      else if st = PARAMS_MISMATCH then
        Decision ((plain PAGE_REFUND (Some ''taker_refund_btc'') None corr)\<lparr>autonomous_btc_refund := btc_refund_matured t obs\<rparr>)
      else if st = MAKER_STALLS then
        Decision (plain PAGE_SQUEEZED (Some ''investigate (mutual_refund is only valid from BOTH_LOCKED)'') None corr)
      else if st = BOTH_LOCKED then stall_page mp window t obs
      else if st = BTC_LOCKED then
        (if asset_locked_at_height obs \<noteq> None then Decision (plain WATCH None None corr)
         else if btc_refund_matured t obs then
           Decision ((plain PAGE_REFUND (Some ''taker_refund_btc'') None corr)\<lparr>autonomous_btc_refund := True\<rparr>)
         else Decision (plain WATCH None None corr))
      else Decision (plain WATCH None None corr))"

section \<open>What a decision means\<close>

lemma Decision_plain [simp]: "Decision (plain i act dl corr) = Ok (plain i act dl corr)"
  by (simp add: Decision_def plain_def)

lemma Decision_armed [simp]:
  "Decision ((plain PAGE_CLAIM act dl corr)\<lparr>autonomous_asset_claim := b\<rparr>) = Ok ((plain PAGE_CLAIM act dl corr)\<lparr>autonomous_asset_claim := b\<rparr>)"
  "Decision ((plain PAGE_REFUND act dl corr)\<lparr>autonomous_btc_refund := b\<rparr>) = Ok ((plain PAGE_REFUND act dl corr)\<lparr>autonomous_btc_refund := b\<rparr>)"
  by (simp_all add: Decision_def plain_def)

lemma plain_sel [simp]:
  "dec_intent (plain i act dl corr) = i" "recommended_action (plain i act dl corr) = act"
  "deadline_rxd_height (plain i act dl corr) = dl" "\<not> autonomous_btc_refund (plain i act dl corr)"
  "\<not> autonomous_asset_claim (plain i act dl corr)" "dec_low_corroboration (plain i act dl corr) = corr"
  by (simp_all add: plain_def)

lemma claim_page_Ok:
  "claim_page arms corr deadline gate = Ok d \<Longrightarrow>
   deadline_rxd_height d = Some deadline
   \<and> (dec_intent d = PAGE_SQUEEZED
      \<or> gate = Ok SAFE \<and> dec_intent d = PAGE_CLAIM
      \<or> gate = Ok WAIT \<and> dec_intent d = WATCH)"
  by (auto simp: claim_page_def split: sum.splits if_splits claim_finality.splits)

lemma claim_page_autonomy:
  "claim_page arms corr deadline gate = Ok d \<Longrightarrow> \<not> autonomous_btc_refund d \<and> (autonomous_asset_claim d \<longrightarrow> arms \<and> gate = Ok SAFE \<and> dec_intent d = PAGE_CLAIM)"
  by (auto simp: claim_page_def split: sum.splits if_splits claim_finality.splits)

lemma stall_page_Ok:
  assumes "stall_page mp window t obs = Ok d"
  shows "(\<exists>dl. d = plain WATCH None dl (obs_low_corroboration obs))
    \<or> (\<exists>dl. d = plain PAGE_REFUND (Some ''mutual_refund'') dl (obs_low_corroboration obs))"
proof (cases "asset_locked_at_height obs")
  case (Some l)
  with assms show ?thesis
    by (cases "taker_refund_window_open (now_rxd_height obs) l (t_rxd t) window False (block_interval_s mp)")
      (auto simp: stall_page_def Let_def bind_r_Ok_iff split: if_splits)
qed (use assms in \<open>auto simp: stall_page_def\<close>)

lemma refund_opens_at_Ok:
  "refund_opens_at mp t locked = Ok h \<longleftrightarrow>
     in_blocks (t_rxd t) (block_interval_s mp) \<and> h = locked + lock_blocks (t_rxd t) (block_interval_s mp)"
  by (auto simp: refund_opens_at_def bind_r_Ok_iff normalize_blocks_iff)

lemma required_btc_depth_Ok:
  "required_btc_depth_blocks mp = Ok n \<longleftrightarrow>
     in_blocks (btc_claim_reorg_depth mp) (block_interval_s mp) \<and> n = lock_blocks (btc_claim_reorg_depth mp) (block_interval_s mp)"
  by (auto simp: required_btc_depth_blocks_def bind_r_Ok_iff normalize_blocks_iff)

lemma from_btc_depth_Ok:
  "from_btc_depth confs depth = Ok vd \<longleftrightarrow>
     0 \<le> confs \<and> 0 \<le> depth
     \<and> vd = \<lparr>ccf_state = (if depth \<le> confs then FINAL else NOT_YET_FINAL_LIVE), confirmations = Some confs, required_depth = Some depth\<rparr>"
  by (auto simp: from_btc_depth_def CounterClaimFinality_def)

text \<open>The secret is public, by the record or by the counter chain.\<close>

definition revealed_to :: "swap_record \<Rightarrow> observations \<Rightarrow> bool" where
  "revealed_to rec obs \<longleftrightarrow> sr_state rec = SECRET_REVEALED
     \<or> (if counter_chain (sr_terms rec) = ''eth'' then eth_claim_detected obs else maker_has_claimed_btc obs)"

text \<open>The maker's claim is final on the counter chain.\<close>

definition counter_final :: "margin_policy \<Rightarrow> swap_record \<Rightarrow> observations \<Rightarrow> bool" where
  "counter_final mp rec obs \<longleftrightarrow>
     (if counter_chain (sr_terms rec) = ''eth'' then eth_claim_finality obs = Some FINAL
      else \<exists>n. btc_claim_confirmations obs = Some n
        \<and> lock_blocks (btc_claim_reorg_depth mp) (block_interval_s mp) \<le> n)"

text \<open>The time the counter chain may need to make the claim final, in seconds.\<close>

definition finality_time :: "margin_policy \<Rightarrow> swap_record \<Rightarrow> int" where
  "finality_time mp rec =
     (if counter_chain (sr_terms rec) = ''eth'' then (case eth_finalization_window_s mp of None \<Rightarrow> 0 | Some w \<Rightarrow> w)
      else lock_blocks (btc_claim_reorg_depth mp) (block_interval_s mp) * block_interval_s mp)"

abbreviation watch_window :: "margin_policy \<Rightarrow> swap_record \<Rightarrow> int \<Rightarrow> bool" where
  "watch_window mp rec \<equiv> claim_window mp (effective_value mp (watch_value_at_risk (sr_terms rec)))"

abbreviation watch_left :: "margin_policy \<Rightarrow> swap_record \<Rightarrow> int \<Rightarrow> observations \<Rightarrow> int" where
  "watch_left mp rec locked obs \<equiv> blocks_left mp (t_rxd (sr_terms rec)) locked (now_rxd_height obs)"

text \<open>The verdict that both branches hand to the gate, and what the gate then says.\<close>

definition watch_verdict :: "margin_policy \<Rightarrow> swap_record \<Rightarrow> observations \<Rightarrow> counter_claim_finality \<Rightarrow> bool" where
  "watch_verdict mp rec obs vd \<longleftrightarrow>
     (if counter_chain (sr_terms rec) = ''eth''
      then (\<exists>fin. eth_claim_finality obs = Some fin \<and> vd = \<lparr>ccf_state = fin, confirmations = None, required_depth = None\<rparr>)
      else (\<exists>n. btc_claim_confirmations obs = Some n
        \<and> from_btc_depth n (lock_blocks (btc_claim_reorg_depth mp) (block_interval_s mp)) = Ok vd))"

lemma decide_revealed:
  assumes "decide rec obs mp window = Ok d" "\<not> is_terminal (sr_state rec)" "revealed_to rec obs"
    "counter_chain (sr_terms rec) \<in> {''btc'', ''eth''}"
  shows "dec_intent d = PAGE_SQUEEZED \<and> \<not> autonomous_asset_claim d \<and> \<not> autonomous_btc_refund d
    \<or> (\<exists>vd locked. watch_verdict mp rec obs vd \<and> asset_locked_at_height obs = Some locked
        \<and> claim_page (counter_chain (sr_terms rec) = ''btc'') (obs_low_corroboration obs)
            (locked + lock_blocks (t_rxd (sr_terms rec)) (block_interval_s mp))
            (assess_claim_finality vd (now_rxd_height obs) locked (t_rxd (sr_terms rec)) mp (watch_value_at_risk (sr_terms rec))) = Ok d)"
proof (cases "counter_chain (sr_terms rec) = ''eth''")
  case True
  with assms show ?thesis
    by (auto simp: decide_def decide_eth_def Let_def revealed_to_def watch_verdict_def bind_r_Ok_iff refund_opens_at_Ok
        CounterClaimFinality_def split: option.splits if_splits)
next
  case False
  with assms(4) have "counter_chain (sr_terms rec) = ''btc''" by simp
  with assms(1-3) show ?thesis
    by (auto simp: decide_def Let_def revealed_to_def watch_verdict_def bind_r_Ok_iff refund_opens_at_Ok
        required_btc_depth_Ok split: option.splits if_splits)
qed

lemma watch_verdict_FINAL: "watch_verdict mp rec obs vd \<Longrightarrow> ccf_state vd = FINAL \<longleftrightarrow> counter_final mp rec obs"
  by (auto simp: watch_verdict_def counter_final_def from_btc_depth_Ok split: if_splits)

lemma watch_verdict_reserve:
  "watch_verdict mp rec obs vd \<Longrightarrow> counter_reserve_s mp vd = finality_time mp rec"
  by (auto simp: watch_verdict_def counter_reserve_s_def finality_time_def from_btc_depth_Ok split: if_splits)

lemma MarginPolicy_reorg_depth:
  assumes "MarginPolicy q = Ok mp"
  shows "in_blocks (btc_claim_reorg_depth mp) (block_interval_s mp)"
    "2 \<le> lock_blocks (btc_claim_reorg_depth mp) (block_interval_s mp)"
  using assms MarginPolicy_Ok [OF assms]
  unfolding MarginPolicy_def bind_r_Ok_iff if_Err_Ok_iff check_depth_floor_def normalize_blocks_iff
  by (auto simp: MIN_REORG_DEPTH_BLOCKS_def split: if_splits)

text \<open>The gates raise nothing but the refusal.\<close>

lemma normalize_to_Err: "normalize_to l u b = Err e \<Longrightarrow> e = ValidationError"
  by (auto simp: normalize_to_def Timelock_def split: if_splits)

lemma assess_Err: "assess_claim_finality vd now locked lock mp v = Err e \<Longrightarrow> e = ValidationError"
  by (auto simp: assess_claim_finality_def Let_def bind_r_Err_iff dest: normalize_to_Err
      split: if_splits counter_claim_state.splits option.splits)

lemma window_Err: "taker_refund_window_open now locked lock window b i = Err e \<Longrightarrow> e = ValidationError"
  by (auto simp: taker_refund_window_open_def Let_def bind_r_Err_iff dest: normalize_to_Err split: if_splits)

lemma claim_page_total: "\<exists>d. claim_page arms corr deadline (assess_claim_finality vd now locked lock mp v) = Ok d"
  by (cases "assess_claim_finality vd now locked lock mp v")
    (auto simp: claim_page_def dest: assess_Err split: claim_finality.splits)

lemma stall_page_total:
  "in_blocks (t_rxd t) (block_interval_s mp) \<Longrightarrow> \<exists>d. stall_page mp window t obs = Ok d"
  by (cases "asset_locked_at_height obs";
      cases "taker_refund_window_open (now_rxd_height obs) (the (asset_locked_at_height obs)) (t_rxd t) window False (block_interval_s mp)")
    (auto simp: stall_page_def Let_def refund_opens_at_def normalize_blocks_iff [THEN iffD2] dest: window_Err)

section \<open>Properties\<close>

definition example_obs :: observations where
  "example_obs =
     \<lparr>maker_has_claimed_btc = True, now_rxd_height = 100, asset_locked_at_height = Some 90,
      btc_claim_confirmations = Some 6, btc_funding_confirmations = None, eth_claim_detected = False,
      eth_claim_finality = None, obs_low_corroboration = False\<rparr>"

definition locked_record :: swap_record where
  "locked_record = funded_record\<lparr>sr_state := BOTH_LOCKED\<rparr>"

definition example_page :: decision where
  "example_page = (plain PAGE_CLAIM (Some ''taker_scrape_and_claim_asset'') (Some 162) False)\<lparr>autonomous_asset_claim := True\<rparr>"

lemma example_decision: "decide locked_record example_obs example_policy 6 = Ok example_page"
  by (simp add: decide_def locked_record_def funded_record_def example_record_def example_terms_def example_obs_def
      is_terminal_def TERMINAL_STATES_def required_btc_depth_blocks_def refund_opens_at_def normalize_to_def example_policy_def
      from_btc_depth_def CounterClaimFinality_def claim_page_def assess_claim_finality_def reserve_to_blocks_def
      value_scaled_burial_blocks_def watch_value_at_risk_def example_page_def)

lemma locked_record_sel:
  "sr_state locked_record = BOTH_LOCKED" "counter_chain (sr_terms locked_record) = ''btc''"
  "t_rxd (sr_terms locked_record) = \<lparr>tl_value = 72, tl_unit = BLOCKS\<rparr>" "\<not> is_terminal BOTH_LOCKED"
  "revealed_to locked_record example_obs"
  by (simp_all add: locked_record_def funded_record_def example_record_def example_terms_def is_terminal_def
      TERMINAL_STATES_def revealed_to_def example_obs_def)

text \<open>C30: The watchtower is never silent about a public secret. Once the record or the counter chain
  shows that the secret is out, the decision is a page that asks for a decision, or it is a page to
  claim, and then the maker's claim is final and the blocks left cover the burial and deter a
  reorganisation, or the tower keeps watching, and then the claim is not yet final and the same
  still holds after all the time the counter chain may need.\<close>

theorem reveal_is_never_silent:
  assumes "MarginPolicy q = Ok mp" and "decide rec obs mp window = Ok d" and "\<not> is_terminal (sr_state rec)"
    and "revealed_to rec obs" and "counter_chain (sr_terms rec) \<in> {''btc'', ''eth''}"
  shows "dec_intent d = PAGE_SQUEEZED
    \<or> (\<exists>locked. asset_locked_at_height obs = Some locked
        \<and> deadline_rxd_height d = Some (locked + lock_blocks (t_rxd (sr_terms rec)) (block_interval_s mp))
        \<and> (dec_intent d = PAGE_CLAIM \<and> counter_final mp rec obs \<and> watch_window mp rec (watch_left mp rec locked obs)
           \<or> dec_intent d = WATCH \<and> \<not> counter_final mp rec obs
             \<and> watch_window mp rec (watch_left mp rec locked obs - ceil_div (finality_time mp rec) (rxd_block_interval_s mp))))"
  using decide_revealed [OF assms(2-5)]
proof (elim disjE exE conjE)
  fix vd locked
  let ?g = "assess_claim_finality vd (now_rxd_height obs) locked (t_rxd (sr_terms rec)) mp (watch_value_at_risk (sr_terms rec))"
  assume v: "watch_verdict mp rec obs vd" and l: "asset_locked_at_height obs = Some locked"
    and p: "claim_page (counter_chain (sr_terms rec) = ''btc'') (obs_low_corroboration obs)
      (locked + lock_blocks (t_rxd (sr_terms rec)) (block_interval_s mp)) ?g = Ok d"
  note w = assess_WAIT [OF assms(1), of vd "now_rxd_height obs" locked "t_rxd (sr_terms rec)" "watch_value_at_risk (sr_terms rec)"]
  from claim_page_Ok [OF p] l claim_safe_rule [OF assms(1)] w watch_verdict_FINAL [OF v] watch_verdict_reserve [OF v]
  show ?thesis by (auto simp: claim_window_def)
qed simp

theorem reveal_is_never_silent_witness:
  "decide locked_record example_obs example_policy 6 = Ok example_page
   \<and> counter_final example_policy locked_record example_obs \<and> watch_window example_policy locked_record (watch_left example_policy locked_record 90 example_obs)"
proof -
  have o: "asset_locked_at_height example_obs = Some 90" "dec_intent example_page = PAGE_CLAIM"
    by (simp_all add: example_obs_def example_page_def)
  from reveal_is_never_silent [OF example_policy_Ok example_decision] o show ?thesis
    by (simp add: locked_record_sel example_decision)
qed

lemma decide_autonomy:
  assumes "MarginPolicy q = Ok mp" and "decide rec obs mp window = Ok d"
  shows "(autonomous_asset_claim d \<longrightarrow>
      counter_chain (sr_terms rec) = ''btc'' \<and> dec_intent d = PAGE_CLAIM \<and> revealed_to rec obs \<and> counter_final mp rec obs
      \<and> (\<exists>locked. asset_locked_at_height obs = Some locked \<and> watch_window mp rec (watch_left mp rec locked obs)))
    \<and> (autonomous_btc_refund d \<longrightarrow>
      counter_chain (sr_terms rec) = ''btc'' \<and> dec_intent d = PAGE_REFUND \<and> \<not> revealed_to rec obs
      \<and> tl_unit (t_btc (sr_terms rec)) = BLOCKS
      \<and> (\<exists>n. btc_funding_confirmations obs = Some n \<and> tl_value (t_btc (sr_terms rec)) \<le> n)
      \<and> (sr_state rec = PARAMS_MISMATCH \<or> sr_state rec = BTC_LOCKED \<and> asset_locked_at_height obs = None))"
proof (cases "\<not> is_terminal (sr_state rec) \<and> revealed_to rec obs \<and> counter_chain (sr_terms rec) \<in> {''btc'', ''eth''}")
  case True
  then have r: "revealed_to rec obs" by simp
  from True decide_revealed [OF assms(2)] have
    "dec_intent d = PAGE_SQUEEZED \<and> \<not> autonomous_asset_claim d \<and> \<not> autonomous_btc_refund d
    \<or> (\<exists>vd locked. watch_verdict mp rec obs vd \<and> asset_locked_at_height obs = Some locked
        \<and> claim_page (counter_chain (sr_terms rec) = ''btc'') (obs_low_corroboration obs)
            (locked + lock_blocks (t_rxd (sr_terms rec)) (block_interval_s mp))
            (assess_claim_finality vd (now_rxd_height obs) locked (t_rxd (sr_terms rec)) mp (watch_value_at_risk (sr_terms rec))) = Ok d)"
    by blast
  then show ?thesis
  proof (elim disjE exE conjE)
    fix vd locked
    let ?g = "assess_claim_finality vd (now_rxd_height obs) locked (t_rxd (sr_terms rec)) mp (watch_value_at_risk (sr_terms rec))"
    assume v: "watch_verdict mp rec obs vd" and l: "asset_locked_at_height obs = Some locked"
      and p: "claim_page (counter_chain (sr_terms rec) = ''btc'') (obs_low_corroboration obs)
        (locked + lock_blocks (t_rxd (sr_terms rec)) (block_interval_s mp)) ?g = Ok d"
    from claim_page_autonomy [OF p] l r claim_safe_rule [OF assms(1)] watch_verdict_FINAL [OF v]
    show ?thesis by (auto simp: claim_window_def)
  qed auto
next
  case False
  with assms(2) show ?thesis
    by (auto simp: decide_def decide_eth_def Let_def revealed_to_def btc_refund_matured_def
        split: option.splits if_splits dest!: stall_page_Ok)
qed

text \<open>Autonomy is armed only where it is earned: the tower lets an executor claim the asset only on a
  Bitcoin swap whose maker claim is final, with room to bury the claim, and lets one refund the
  counter leg only on a Bitcoin swap without a claim of the maker, whose funding is buried as deep
  as its block-based timelock, and, before the asset is known to mismatch, only while no asset lock
  is seen.\<close>

theorem autonomy_is_earned:
  assumes "MarginPolicy q = Ok mp" and "decide rec obs mp window = Ok d"
  shows "(autonomous_asset_claim d \<longrightarrow>
      counter_chain (sr_terms rec) = ''btc'' \<and> dec_intent d = PAGE_CLAIM \<and> revealed_to rec obs \<and> counter_final mp rec obs
      \<and> (\<exists>locked. asset_locked_at_height obs = Some locked \<and> watch_window mp rec (watch_left mp rec locked obs)))
    \<and> (autonomous_btc_refund d \<longrightarrow>
      counter_chain (sr_terms rec) = ''btc'' \<and> dec_intent d = PAGE_REFUND \<and> \<not> revealed_to rec obs
      \<and> tl_unit (t_btc (sr_terms rec)) = BLOCKS
      \<and> (\<exists>n. btc_funding_confirmations obs = Some n \<and> tl_value (t_btc (sr_terms rec)) \<le> n)
      \<and> (sr_state rec = PARAMS_MISMATCH \<or> sr_state rec = BTC_LOCKED \<and> asset_locked_at_height obs = None))"
  using decide_autonomy [OF assms] .

theorem autonomy_is_earned_witness:
  "autonomous_asset_claim example_page \<and> counter_final example_policy locked_record example_obs
   \<and> watch_window example_policy locked_record (watch_left example_policy locked_record 90 example_obs)"
proof -
  have o: "asset_locked_at_height example_obs = Some 90" "autonomous_asset_claim example_page"
    by (simp_all add: example_obs_def example_page_def)
  from autonomy_is_earned [OF example_policy_Ok example_decision] o show ?thesis by auto
qed

text \<open>C37: The decision is total: on a valid policy, valid observations and terms whose Radiant lock can
  be counted in blocks it never raises, whatever state the record is in and whatever the heights.\<close>

theorem decide_total:
  assumes "MarginPolicy q = Ok mp" and "Observations obs = Ok obs" and "0 \<le> window"
    and "in_blocks (t_rxd (sr_terms rec)) (block_interval_s mp)"
  shows "\<exists>d. decide rec obs mp window = Ok d"
proof -
  note dep = MarginPolicy_reorg_depth [OF assms(1)]
  have deadline: "refund_opens_at mp (sr_terms rec) l = Ok (l + lock_blocks (t_rxd (sr_terms rec)) (block_interval_s mp))" for l
    using assms(4) by (simp add: refund_opens_at_Ok)
  have depth: "required_btc_depth_blocks mp = Ok (lock_blocks (btc_claim_reorg_depth mp) (block_interval_s mp))"
    using dep by (simp add: required_btc_depth_Ok)
  have confs: "\<exists>vd. from_btc_depth n (lock_blocks (btc_claim_reorg_depth mp) (block_interval_s mp)) = Ok vd"
    if "btc_claim_confirmations obs = Some n" for n
    using that assms(2) dep by (auto simp: from_btc_depth_Ok Observations_def opt_nonneg_def split: if_splits)
  show ?thesis
  proof (cases "counter_chain (sr_terms rec) = ''eth''")
    case True
    then show ?thesis
      using assms(3) stall_page_total [OF assms(4), of window obs] claim_page_total
      by (auto simp: decide_def decide_eth_def Let_def deadline CounterClaimFinality_def split: option.splits)
  next
    case False
    then show ?thesis
      using assms(3) stall_page_total [OF assms(4), of window obs] claim_page_total confs
      by (force simp: decide_def Let_def deadline depth split: option.splits)
  qed
qed

theorem decide_total_witness:
  "\<exists>d. decide locked_record example_obs example_policy 6 = Ok d"
  by (rule decide_total [OF example_policy_Ok])
    (simp_all add: Observations_def opt_nonneg_def example_obs_def locked_record_sel in_blocks_def example_policy_def)

section \<open>The tower and the coordinator\<close>

text \<open>The coordinator's call for the step that a page names, as far as it needs no further input.\<close>

definition refund_step :: "string option \<Rightarrow> call option" where
  "refund_step act = (if act = Some ''mutual_refund'' then Some Mutual
     else if act = Some ''taker_refund_btc'' then Some Refund_btc else None)"

lemma claim_page_not_refund: "claim_page arms corr deadline gate = Ok d \<Longrightarrow> dec_intent d \<noteq> PAGE_REFUND"
  using claim_page_Ok by fastforce

lemma decide_refund:
  assumes "decide rec obs mp window = Ok d" "dec_intent d = PAGE_REFUND"
  shows "sr_state rec = BOTH_LOCKED \<and> recommended_action d = Some ''mutual_refund''
    \<or> sr_state rec \<in> {BTC_LOCKED, PARAMS_MISMATCH} \<and> recommended_action d = Some ''taker_refund_btc''"
  using assms
  by (auto simp: decide_def decide_eth_def Let_def bind_r_Ok_iff split: option.splits if_splits
      dest: claim_page_not_refund dest!: stall_page_Ok)

text \<open>A page to refund names a step that works: on any valid record, the coordinator accepts the
  call the page names and, when the refund broadcasts and the durable write go through, reaches a
  terminal state and makes it durable.\<close>

theorem refund_page_is_actionable:
  assumes "decide (the_record c) obs mp window = Ok d" and "dec_intent d = PAGE_REFUND"
    and "rec_inv (the_record c)" and "refunds_work E"
  shows "\<exists>cl c'. refund_step (recommended_action d) = Some cl \<and> exec cfg ops E cl c = (Ok (), c')
    \<and> is_terminal (sr_state (the_record c')) \<and> durable_record c' = Some (the_record c')"
  using decide_refund [OF assms(1,2)] mutual_refund_completes [OF assms(3) _ assms(4)]
    taker_refund_completes [OF assms(3) _ assms(4)]
  by (auto simp: refund_step_def is_terminal_def TERMINAL_STATES_def)

text \<open>A page to claim may name a step that the coordinator refuses. Chain truth overrides the
  record, so the tower pages the claim while the record still waits for the maker, but the step it
  names is then refused without effect, whatever the environment.\<close>

theorem claim_page_can_be_refused:
  assumes "decide (the_record c) obs mp window = Ok d" and "dec_intent d = PAGE_CLAIM"
    and "sr_state (the_record c) \<noteq> SECRET_REVEALED"
  shows "recommended_action d = Some ''taker_scrape_and_claim_asset''
    \<and> exec cfg ops E (Scrape_and_claim tx now locked) c = (Err ValidationError, c)"
proof
  have "claim_page a b dl g = Ok d \<Longrightarrow> recommended_action d = Some ''taker_scrape_and_claim_asset''" for a b dl g
    using assms(2) by (auto simp: claim_page_def split: sum.splits if_splits claim_finality.splits)
  with assms(1,2) show "recommended_action d = Some ''taker_scrape_and_claim_asset''"
    by (auto simp: decide_def decide_eth_def Let_def bind_r_Ok_iff split: option.splits if_splits dest!: stall_page_Ok)
  from assms(3) show "exec cfg ops E (Scrape_and_claim tx now locked) c = (Err ValidationError, c)"
    by (auto simp: taker_scrape_and_claim_asset_def taker_scrape_and_claim_eth_def bind_s_def get_record_def require_def lift_r_def)
qed

definition lagging :: "mem_store coord" where
  "lagging = \<lparr>the_record = locked_record, store = {}, durable_record = None, trace = []\<rparr>"

theorem claim_page_can_be_refused_witness:
  "decide (the_record lagging) example_obs example_policy 6 = Ok example_page
   \<and> exec example_config mem_ops working_env (Scrape_and_claim [] 100 90) lagging = (Err ValidationError, lagging)"
proof -
  have d: "decide (the_record lagging) example_obs example_policy 6 = Ok example_page"
    by (simp add: lagging_def example_decision)
  have "dec_intent example_page = PAGE_CLAIM" "sr_state (the_record lagging) \<noteq> SECRET_REVEALED"
    by (simp_all add: example_page_def lagging_def locked_record_sel)
  from d claim_page_can_be_refused [OF d this] show ?thesis by blast
qed

theorem refund_page_is_actionable_witness:
  "\<exists>d cl c'. decide (the_record lagging) (example_obs\<lparr>maker_has_claimed_btc := False, now_rxd_height := 160\<rparr>) example_policy 6 = Ok d
    \<and> refund_step (recommended_action d) = Some cl \<and> exec example_config mem_ops working_env cl lagging = (Ok (), c')
    \<and> is_terminal (sr_state (the_record c'))"
proof -
  let ?o = "example_obs\<lparr>maker_has_claimed_btc := False, now_rxd_height := 160\<rparr>"
  let ?d = "plain PAGE_REFUND (Some ''mutual_refund'') (Some 162) False"
  have d: "decide (the_record lagging) ?o example_policy 6 = Ok ?d"
    by (simp add: decide_def lagging_def locked_record_sel stall_page_def refund_opens_at_def normalize_to_def example_policy_def
        taker_refund_window_open_def example_obs_def)
  have "advance NEGOTIATED TAKER_FUNDS_BTC = Ok BTC_LOCKED" "advance BTC_LOCKED MAKER_LOCKS_ASSET = Ok BOTH_LOCKED"
    by (simp_all add: advance_from)
  then have "run NEGOTIATED [TAKER_FUNDS_BTC, MAKER_LOCKS_ASSET] = Ok BOTH_LOCKED" by simp
  then have r: "rec_inv (the_record lagging)"
    by (auto simp: rec_inv_def lagging_def locked_record_def funded_record_def example_record_def example_terms_def SwapRecord_def
        intro: exI [of _ "[TAKER_FUNDS_BTC, MAKER_LOCKS_ASSET]"])
  have w: "refunds_work working_env" by (simp add: refunds_work_def working_env_def)
  have i: "dec_intent ?d = PAGE_REFUND" by simp
  from refund_page_is_actionable [OF d i r w, of example_config mem_ops] d show ?thesis by blast
qed

end
