(* ===== verification/Watch_Observe.thy ===== *)
theory Watch_Observe
  imports Watch_Decide
begin

text \<open>
  How the watchtower sees the chains: \<open>pyrxd/gravity/watch/quorum.py\<close> composes the readers of the
  Radiant, Bitcoin and Ethereum chains into the observations of theory \<open>Watch_Decide\<close>, and
  \<open>pyrxd/gravity/watch/adapters.py\<close> builds quorum readers out of several sources. The transports
  are the fields of the source records: functions that answer or raise.
\<close>

section \<open>Sources\<close>

record claim_status =
  cs_claimed :: bool
  cs_txid :: "string option"

definition BtcClaimStatus :: "bool \<Rightarrow> string option \<Rightarrow> claim_status result" where
  "BtcClaimStatus claimed txid =
     (if (case txid of None \<Rightarrow> False | Some t \<Rightarrow> length t \<noteq> 64) then Err ValidationError
      else if claimed \<and> txid = None then Err ValidationError
      else Ok \<lparr>cs_claimed = claimed, cs_txid = txid\<rparr>)"

definition EthClaimStatus :: "bool \<Rightarrow> string option \<Rightarrow> claim_status result" where
  "EthClaimStatus claimed txhash =
     (if (case txhash of None \<Rightarrow> False | Some t \<Rightarrow> take 2 t \<noteq> ''0x'') then Err ValidationError
      else if claimed \<and> txhash = None then Err ValidationError
      else Ok \<lparr>cs_claimed = claimed, cs_txid = txhash\<rparr>)"

record rxd_source =
  tip_height :: "int result"
  covenant_confirmations :: "string \<Rightarrow> int option result"

record btc_source =
  btc_claim_status :: "string \<Rightarrow> int \<Rightarrow> claim_status result"
  btc_confirmations :: "string \<Rightarrow> int result"
  btc_funding_depth :: "string \<Rightarrow> int option result"

record eth_source =
  eth_claim_status :: "string \<Rightarrow> string \<Rightarrow> claim_status result"
  eth_verdict :: "string \<Rightarrow> counter_claim_finality result"
  finality_checkpoint :: "(int \<times> int) result option"

section \<open>The observer\<close>

type_synonym trackers = "string \<rightharpoonup> stall_tracker"

record observer =
  ob_rxd :: rxd_source
  ob_btc :: "btc_source option"
  ob_eth :: "eth_source option"
  rxd_corroborated :: bool

definition ChainObserver :: "bool \<Rightarrow> observer \<Rightarrow> observer result" where
  "ChainObserver source_corroborated ob =
     (if rxd_corroborated ob \<and> \<not> source_corroborated then Err ValidationError
      else if ob_btc ob = None \<and> ob_eth ob = None then Err ValidationError
      else Ok ob)"

definition default_tracker :: stall_tracker where
  "default_tracker =
     \<lparr>patience_slots = 4 * 32, max_normal_lag_slots = 3 * 32, stuck_finalized = None, head_at_run_start = None\<rparr>"

definition upgrade_eth_stall ::
  "eth_source \<Rightarrow> string \<Rightarrow> counter_claim_finality \<Rightarrow> trackers \<Rightarrow> counter_claim_finality result \<times> trackers"
where
  "upgrade_eth_stall src swap_id vd trs =
     (if ccf_state vd = FINAL then (Ok vd, trs)
      else case finality_checkpoint src of
        None \<Rightarrow> (Ok vd, trs)
      | Some (Inl e) \<Rightarrow> (Err e, trs)
      | Some (Inr (head, finalized)) \<Rightarrow>
          let tr = (case trs swap_id of None \<Rightarrow> default_tracker | Some tr \<Rightarrow> tr);
              trs' = trs(swap_id \<mapsto> tr)
          in (case verdict tr vd head finalized of
                Inl e \<Rightarrow> (Err e, trs')
              | Inr (vd', tr') \<Rightarrow> (Ok vd', trs'(swap_id \<mapsto> tr'))))"

definition observe_eth_claim ::
  "observer \<Rightarrow> string \<Rightarrow> swap_record \<Rightarrow> trackers \<Rightarrow> (bool \<times> counter_claim_state option) result \<times> trackers"
where
  "observe_eth_claim ob swap_id rec trs =
     (case ob_eth ob of
        None \<Rightarrow> (Err ValidationError, trs)
      | Some src \<Rightarrow>
          (case counterchain_locator rec of
             Some (EthLoc l) \<Rightarrow>
               (case eth_claim_status src (contract_address l) (deploy_tx_hash l) of
                  Inl e \<Rightarrow> (Err e, trs)
                | Inr status \<Rightarrow>
                    (case (cs_claimed status, cs_txid status) of
                       (True, Some txhash) \<Rightarrow>
                         (case eth_verdict src txhash of
                            Inl e \<Rightarrow> (Err e, trs)
                          | Inr vd \<Rightarrow>
                              (case upgrade_eth_stall src swap_id vd trs of
                                 (Inl e, trs') \<Rightarrow> (Err e, trs')
                               | (Inr vd', trs') \<Rightarrow> (Ok (True, Some (ccf_state vd')), trs')))
                     | _ \<Rightarrow> (Ok (False, None), trs)))
           | _ \<Rightarrow> (Ok (False, None), trs)))"

definition observe_asset_lock :: "rxd_source \<Rightarrow> swap_record \<Rightarrow> int \<Rightarrow> int option result" where
  "observe_asset_lock src rec tip =
     (case radiant_covenant_outpoint rec of
        None \<Rightarrow> Ok None
      | Some outpoint \<Rightarrow>
          bind_r (covenant_confirmations src outpoint) (\<lambda>confs.
            case confs of
              None \<Rightarrow> Ok None
            | Some n \<Rightarrow>
                if n \<ge> 1 then
                  (let candidate = tip - n + 1 in
                   Ok (if 0 \<le> candidate \<and> candidate \<le> tip then Some candidate else None))
                else Ok None))"

definition observe_btc_claim ::
  "btc_source \<Rightarrow> swap_record \<Rightarrow> (bool \<times> int option \<times> int option) result"
where
  "observe_btc_claim src rec =
     (case btc_locator_of rec of
        None \<Rightarrow> Ok (False, None, None)
      | Some l \<Rightarrow>
          bind_r (btc_claim_status src (op_txid (funding_outpoint l)) (op_vout (funding_outpoint l))) (\<lambda>status.
          bind_r (case (cs_claimed status, cs_txid status) of
                    (True, Some txid) \<Rightarrow> bind_r (btc_confirmations src txid) (\<lambda>n. Ok (Some n))
                  | _ \<Rightarrow> Ok None) (\<lambda>confs.
          bind_r (if sr_state rec \<in> {BTC_LOCKED, PARAMS_MISMATCH}
                  then btc_funding_depth src (op_txid (funding_outpoint l)) else Ok None) (\<lambda>funding.
            Ok (cs_claimed status, confs, funding)))))"

definition observe_swap ::
  "observer \<Rightarrow> string \<Rightarrow> swap_record \<Rightarrow> trackers \<Rightarrow> observations result \<times> trackers"
where
  "observe_swap ob swap_id rec trs =
     (case bind_r (tip_height (ob_rxd ob)) (\<lambda>tip. bind_r (observe_asset_lock (ob_rxd ob) rec tip) (\<lambda>lk. Ok (tip, lk))) of
        Inl e \<Rightarrow> (Err e, trs)
      | Inr (tip, asset_locked) \<Rightarrow>
          let low = \<not> rxd_corroborated ob in
          if counter_chain (sr_terms rec) = ''eth'' then
            (case observe_eth_claim ob swap_id rec trs of
               (Inl e, trs') \<Rightarrow> (Err e, trs')
             | (Inr (detected, fin), trs') \<Rightarrow>
                 (Observations \<lparr>maker_has_claimed_btc = False, now_rxd_height = tip, asset_locked_at_height = asset_locked,
                    btc_claim_confirmations = None, btc_funding_confirmations = None, eth_claim_detected = detected,
                    eth_claim_finality = fin, obs_low_corroboration = low\<rparr>, trs'))
          else
            (case ob_btc ob of
               None \<Rightarrow> (Err ValidationError, trs)
             | Some src \<Rightarrow>
                 (bind_r (observe_btc_claim src rec) (\<lambda>(claimed, confs, funding).
                    Observations \<lparr>maker_has_claimed_btc = claimed, now_rxd_height = tip, asset_locked_at_height = asset_locked,
                      btc_claim_confirmations = confs, btc_funding_confirmations = funding, eth_claim_detected = False,
                      eth_claim_finality = None, obs_low_corroboration = low\<rparr>), trs)))"

section \<open>Quorum readers\<close>

text \<open>\<open>asyncio.gather\<close> with its exceptions dropped.\<close>

definition answers :: "'a result list \<Rightarrow> 'a list" where
  "answers rs = concat (map (\<lambda>r. case r of Inl e \<Rightarrow> [] | Inr x \<Rightarrow> [x]) rs)"

definition MultiSourceRxdChainSource :: "'a list \<Rightarrow> int \<Rightarrow> unit result" where
  "MultiSourceRxdChainSource sources quorum =
     (if quorum < 1 then Err ValidationError
      else if int (length sources) < quorum then Err ValidationError
      else Ok ())"

definition multi_corroborated :: "'a list \<Rightarrow> int \<Rightarrow> bool" where
  "multi_corroborated sources quorum \<longleftrightarrow> 2 \<le> quorum \<and> quorum \<le> int (length sources)"

definition multi_tip_height :: "rxd_source list \<Rightarrow> int \<Rightarrow> int result" where
  "multi_tip_height sources quorum =
     (let oks = answers (map tip_height sources) in
      if int (length oks) < quorum then Err NetworkError else Ok (Min (set oks)))"

definition live_and_covenant :: "rxd_source \<Rightarrow> string \<Rightarrow> bool \<times> int option" where
  "live_and_covenant src outpoint =
     (case tip_height src of
        Inl e \<Rightarrow> (False, None)
      | Inr _ \<Rightarrow>
          (True,
           case covenant_confirmations src outpoint of
             Inl e \<Rightarrow> None
           | Inr None \<Rightarrow> None
           | Inr (Some depth) \<Rightarrow> if depth < 1 then None else Some depth))"

definition multi_covenant_confirmations :: "rxd_source list \<Rightarrow> int \<Rightarrow> string \<Rightarrow> int option result" where
  "multi_covenant_confirmations sources quorum outpoint =
     (let ok = map (\<lambda>s. live_and_covenant s outpoint) sources;
          present = map the (filter (\<lambda>d. d \<noteq> None) (map snd ok));
          reachable = length (filter fst ok)
      in if present \<noteq> [] then Ok (Some (Max (set present)))
         else if quorum \<le> int reachable then Ok None
         else Err NetworkError)"

definition multi_source :: "rxd_source list \<Rightarrow> int \<Rightarrow> rxd_source" where
  "multi_source sources quorum =
     \<lparr>tip_height = multi_tip_height sources quorum, covenant_confirmations = multi_covenant_confirmations sources quorum\<rparr>"

text \<open>Claim detection by several outspend backends: the number that failed so far is carried along.\<close>

fun outspend_loop ::
  "(string \<Rightarrow> int \<Rightarrow> (bool \<times> string option) result) list \<Rightarrow> nat \<Rightarrow> string \<Rightarrow> int \<Rightarrow> (nat + claim_status) result"
where
  "outspend_loop [] errors txid vout = Ok (Inl errors)"
| "outspend_loop (f # fs) errors txid vout =
     (case f txid vout of
        Inl e \<Rightarrow> outspend_loop fs (Suc errors) txid vout
      | Inr (spent, spender) \<Rightarrow>
          (case spender of
             Some t \<Rightarrow>
               if spent \<and> t \<noteq> [] then bind_r (BtcClaimStatus True (Some t)) (\<lambda>s. Ok (Inr s))
               else outspend_loop fs errors txid vout
           | None \<Rightarrow> outspend_loop fs errors txid vout))"

definition outspend_claim_status ::
  "(string \<Rightarrow> int \<Rightarrow> (bool \<times> string option) result) list \<Rightarrow> string \<Rightarrow> int \<Rightarrow> claim_status result"
where
  "outspend_claim_status fs txid vout =
     bind_r (outspend_loop fs 0 txid vout) (\<lambda>r.
       case r of
         Inr s \<Rightarrow> Ok s
       | Inl errors \<Rightarrow>
           if errors > 0 \<and> errors = length fs then Err NetworkError else BtcClaimStatus False None)"

definition outspend_funding_confirmations :: "(string \<Rightarrow> int result) \<Rightarrow> string \<Rightarrow> int option result" where
  "outspend_funding_confirmations reader txid =
     (case reader txid of Inl e \<Rightarrow> Ok None | Inr n \<Rightarrow> Ok (Some n))"

section \<open>The directory of records\<close>

text \<open>
  The entries of the records directory in sorted order: for each its name and what reading and
  parsing it gives. \<open>None\<close> is a directory that does not exist.
\<close>

definition ends_with :: "string \<Rightarrow> string \<Rightarrow> bool" where
  "ends_with name suffix \<longleftrightarrow> length suffix \<le> length name \<and> drop (length name - length suffix) name = suffix"

definition record_file :: "string \<Rightarrow> bool" where
  "record_file name \<longleftrightarrow> ends_with name ''.json'' \<and> \<not> ends_with name ''.refund.json'' \<and> \<not> ends_with name ''.claim.json''"

definition path_stem :: "string \<Rightarrow> string" where
  "path_stem name = (if length name > 5 then take (length name - 5) name else name)"

definition list_active :: "(string \<times> swap_record result) list option \<Rightarrow> (string \<times> swap_record) list result" where
  "list_active dir =
     (case dir of
        None \<Rightarrow> Err NetworkError
      | Some entries \<Rightarrow>
          let files = filter (\<lambda>(name, _). record_file name) entries;
              failed = length (filter (\<lambda>(_, r). \<not> is_ok r) files);
              out = concat (map (\<lambda>(name, r). case r of
                      Inl e \<Rightarrow> [] | Inr rec \<Rightarrow> if is_terminal (sr_state rec) then [] else [(path_stem name, rec)]) files)
          in if failed > 0 \<and> failed = length files then Err NetworkError else Ok out)"

section \<open>What the readers promise\<close>

lemma answers_mem [simp]: "x \<in> set (answers rs) \<longleftrightarrow> Ok x \<in> set rs"
  by (force simp: answers_def split: sum.splits)

text \<open>What one source contributes to a read of the covenant: it answers, and it sees a lock.\<close>

definition sees :: "rxd_source \<Rightarrow> string \<Rightarrow> int \<Rightarrow> bool" where
  "sees src outpoint n \<longleftrightarrow> is_ok (tip_height src) \<and> covenant_confirmations src outpoint = Ok (Some n) \<and> 1 \<le> n"

lemma live_and_covenant_sees: "snd (live_and_covenant src outpoint) = Some n \<longleftrightarrow> sees src outpoint n"
  by (auto simp: live_and_covenant_def sees_def split: sum.splits option.splits)

lemma live_and_covenant_live: "fst (live_and_covenant src outpoint) \<longleftrightarrow> is_ok (tip_height src)"
  by (auto simp: live_and_covenant_def split: sum.splits)

definition depths :: "rxd_source list \<Rightarrow> string \<Rightarrow> int set" where
  "depths sources outpoint = {n. \<exists>s\<in>set sources. sees s outpoint n}"

lemma present_depths:
  "set (map the (filter (\<lambda>d. d \<noteq> None) (map snd (map (\<lambda>s. live_and_covenant s outpoint) sources)))) = depths sources outpoint"
  unfolding depths_def live_and_covenant_sees [symmetric] by force

lemma multi_covenant_cases:
  "multi_covenant_confirmations sources quorum outpoint =
     (if depths sources outpoint \<noteq> {} then Ok (Some (Max (depths sources outpoint)))
      else if quorum \<le> int (length (filter (\<lambda>s. is_ok (tip_height s)) sources)) then Ok None else Err NetworkError)"
proof -
  have "length (filter fst (map (\<lambda>s. live_and_covenant s outpoint) sources)) = length (filter (\<lambda>s. is_ok (tip_height s)) sources)"
    by (simp add: filter_map comp_def live_and_covenant_live)
  then show ?thesis
    unfolding multi_covenant_confirmations_def Let_def present_depths [symmetric] by (simp only: set_empty)
qed

lemma depths_finite: "finite (depths sources outpoint)"
  unfolding present_depths [symmetric] by (rule finite_set)

lemma observe_asset_lock_Ok:
  assumes "observe_asset_lock src rec tip = Ok (Some l)"
  obtains op n where "radiant_covenant_outpoint rec = Some op" "covenant_confirmations src op = Ok (Some n)"
    "1 \<le> n" "l = tip - n + 1" "0 \<le> l" "l \<le> tip"
proof -
  from assms obtain op where op: "radiant_covenant_outpoint rec = Some op"
    by (cases "radiant_covenant_outpoint rec") (simp_all add: observe_asset_lock_def)
  with assms obtain n where n: "covenant_confirmations src op = Ok (Some n)"
    by (cases "covenant_confirmations src op"; cases "projr (covenant_confirmations src op)")
      (simp_all add: observe_asset_lock_def)
  from assms that [OF op n] show ?thesis
    by (simp add: observe_asset_lock_def op n Let_def split: if_splits)
qed

lemma Observations_Ok: "Observations obs = Ok obs' \<Longrightarrow> obs' = obs"
  by (simp add: Observations_def split: if_splits)

lemma observe_swap_Ok:
  assumes "observe_swap ob swap_id rec trs = (Ok obs, trs')"
  shows "Observations obs = Ok obs \<and> tip_height (ob_rxd ob) = Ok (now_rxd_height obs)
    \<and> observe_asset_lock (ob_rxd ob) rec (now_rxd_height obs) = Ok (asset_locked_at_height obs)"
proof -
  obtain tip lk where t: "tip_height (ob_rxd ob) = Ok tip" "observe_asset_lock (ob_rxd ob) rec tip = Ok lk"
    using assms
    by (cases "tip_height (ob_rxd ob)"; cases "observe_asset_lock (ob_rxd ob) rec (projr (tip_height (ob_rxd ob)))")
      (simp_all add: observe_swap_def)
  show ?thesis
  proof (cases "counter_chain (sr_terms rec) = ''eth''")
    case True
    obtain det fin where "fst (observe_eth_claim ob swap_id rec trs) = Ok (det, fin)"
      using assms True by (cases "observe_eth_claim ob swap_id rec trs"; cases "fst (observe_eth_claim ob swap_id rec trs)")
        (auto simp: observe_swap_def t Let_def)
    with assms True t show ?thesis
      by (cases "observe_eth_claim ob swap_id rec trs") (auto simp: observe_swap_def Let_def dest: Observations_Ok)
  next
    case False
    then obtain src where src: "ob_btc ob = Some src"
      using assms by (cases "ob_btc ob") (simp_all add: observe_swap_def t Let_def)
    with assms False obtain c n f where "observe_btc_claim src rec = Ok (c, n, f)"
      by (cases "observe_btc_claim src rec") (auto simp: observe_swap_def t Let_def)
    with assms False t src show ?thesis by (auto simp: observe_swap_def Let_def dest: Observations_Ok)
  qed
qed

lemma verdict_other: "verdict tr vd h f = Ok (vd', tr') \<Longrightarrow> vd' = vd \<or> ccf_state vd = NOT_YET_FINAL_LIVE \<and> ccf_state vd' = COUNTER_CHAIN_NOT_FINALIZING
  \<or> ccf_state vd = COUNTER_CHAIN_NOT_FINALIZING \<and> ccf_state vd' = COUNTER_CHAIN_NOT_FINALIZING"
  by (cases "ccf_state vd") (auto simp: verdict_def bind_r_Ok_iff CounterClaimFinality_def split: if_splits)

lemma upgrade_isolated: "upgrade_eth_stall src swap_id vd trs = (r, trs') \<Longrightarrow> i \<noteq> swap_id \<Longrightarrow> trs' i = trs i"
  by (auto simp: upgrade_eth_stall_def Let_def split: if_splits option.splits sum.splits prod.splits)

lemma observe_eth_isolated: "observe_eth_claim ob swap_id rec trs = (r, trs') \<Longrightarrow> i \<noteq> swap_id \<Longrightarrow> trs' i = trs i"
  by (auto simp: observe_eth_claim_def split: option.splits sum.splits prod.splits locator.splits bool.splits
      dest: upgrade_isolated)

lemma observe_isolated: "observe_swap ob swap_id rec trs = (r, trs') \<Longrightarrow> i \<noteq> swap_id \<Longrightarrow> trs' i = trs i"
  by (auto simp: observe_swap_def Let_def split: option.splits sum.splits prod.splits if_splits dest: observe_eth_isolated)

lemma multi_source_left:
  assumes "ob_rxd ob = multi_source sources quorum" "observe_swap ob swap_id rec trs = (Ok obs, trs')"
    "asset_locked_at_height obs = Some locked" "radiant_covenant_outpoint rec = Some op" "s \<in> set sources" "sees s op n"
  shows "blocks_left mp lock locked (now_rxd_height obs) \<le> blocks_left mp lock (tip - n + 1) tip"
proof -
  from observe_swap_Ok [OF assms(2)] assms(3)
  have "observe_asset_lock (multi_source sources quorum) rec (now_rxd_height obs) = Ok (Some locked)"
    unfolding assms(1) by simp
  then obtain m where m: "multi_covenant_confirmations sources quorum op = Ok (Some m)" "locked = now_rxd_height obs - m + 1"
    using assms(4) by (auto elim: observe_asset_lock_Ok simp: multi_source_def)
  then have "m = Max (depths sources op)" by (auto simp: multi_covenant_cases split: if_splits)
  moreover have "n \<in> depths sources op" using assms(5,6) by (auto simp: depths_def)
  ultimately have "n \<le> m" using depths_finite by simp
  with m show ?thesis by (simp add: blocks_left_def)
qed

section \<open>Properties\<close>

text \<open>C31: With a quorum of Radiant sources, an autonomous claim is safe in the eyes of each of them: if the
  tower arms it, then for every source that answers and sees the covenant, the blocks that source
  itself counts as left cover the burial and deter a reorganisation, however many of the other
  sources lag.\<close>

theorem autonomous_claim_safe_for_every_source:
  assumes "MarginPolicy q = Ok mp" and "ob_rxd ob = multi_source sources quorum"
    and "observe_swap ob swap_id rec trs = (Ok obs, trs')" and "decide rec obs mp window = Ok d" and "autonomous_asset_claim d"
    and "radiant_covenant_outpoint rec = Some op" and "s \<in> set sources" and "sees s op n" and "tip_height s = Ok tip"
  shows "flat_burial mp \<le> blocks_left mp (t_rxd (sr_terms rec)) (tip - n + 1) tip
    \<and> reorg_deterred mp (effective_value mp (watch_value_at_risk (sr_terms rec))) (blocks_left mp (t_rxd (sr_terms rec)) (tip - n + 1) tip)"
proof -
  from decide_autonomy [OF assms(1,4)] assms(5) obtain locked where l: "asset_locked_at_height obs = Some locked"
    and w: "watch_window mp rec (watch_left mp rec locked obs)" by blast
  from claim_window_mono [OF assms(1) w multi_source_left [OF assms(2,3) l assms(6-8)]]
  show ?thesis by (simp add: claim_window_def)
qed

definition example_source :: "int \<Rightarrow> int \<Rightarrow> rxd_source" where
  "example_source tip n = \<lparr>tip_height = Ok tip, covenant_confirmations = (\<lambda>_. Ok (Some n))\<rparr>"

definition example_btc :: "bool \<Rightarrow> btc_source" where
  "example_btc claimed =
     \<lparr>btc_claim_status = (\<lambda>_ _. Ok \<lparr>cs_claimed = claimed, cs_txid = (if claimed then Some (replicate 64 CHR ''b'') else None)\<rparr>),
      btc_confirmations = (\<lambda>_. Ok 6), btc_funding_depth = (\<lambda>_. Ok None)\<rparr>"

definition example_observer :: "rxd_source list \<Rightarrow> bool \<Rightarrow> observer" where
  "example_observer sources claimed =
     \<lparr>ob_rxd = multi_source sources 2, ob_btc = Some (example_btc claimed), ob_eth = None, rxd_corroborated = True\<rparr>"

definition watched_record :: swap_record where
  "watched_record = locked_record\<lparr>radiant_covenant_outpoint := Some ''c:0'', radiant_covenant_spk_hex := Some []\<rparr>"

lemma watched_record_sel:
  "sr_terms watched_record = sr_terms locked_record" "sr_state watched_record = BOTH_LOCKED"
  "radiant_covenant_outpoint watched_record = Some ''c:0''"
  "btc_locator_of watched_record = Some example_locator"
  by (simp_all add: watched_record_def locked_record_def btc_locator_of_def funded_record_def)

lemma decide_only_sees:
  assumes "sr_terms r = sr_terms r'" "sr_state r = sr_state r'"
  shows "decide r obs mp w = decide r' obs mp w"
  unfolding decide_def decide_eth_def assms by (rule refl)

lemma example_depths: "depths (map (\<lambda>(t, n). example_source t n) ps) op = {n. \<exists>t. (t, n) \<in> set ps \<and> 1 \<le> n}"
  by (force simp: depths_def sees_def example_source_def)

lemma example_tips: "answers (map tip_height (map (\<lambda>(t, n). example_source t n) ps)) = map fst ps"
  by (induction ps) (auto simp: answers_def example_source_def)

abbreviation two_sources :: "rxd_source list" where
  "two_sources \<equiv> map (\<lambda>(t, n). example_source t n) [(100, 11), (101, 10)]"

lemma example_observed: "observe_swap (example_observer two_sources True) ''x'' watched_record trs = (Ok example_obs, trs)"
proof -
  have tip: "multi_tip_height two_sources 2 = Ok 100"
    unfolding multi_tip_height_def example_tips by simp
  have "depths two_sources ''c:0'' = {11, 10}" unfolding example_depths by auto
  then have cov: "multi_covenant_confirmations two_sources 2 ''c:0'' = Ok (Some 11)"
    by (simp only: multi_covenant_cases) simp
  show ?thesis
    using tip cov
    by (simp add: observe_swap_def example_observer_def multi_source_def observe_asset_lock_def watched_record_sel
        locked_record_sel observe_btc_claim_def example_btc_def Observations_def opt_nonneg_def example_obs_def)
qed

lemma example_decided: "decide watched_record example_obs example_policy 6 = Ok example_page"
  using example_decision decide_only_sees [of watched_record locked_record] by (simp add: watched_record_sel locked_record_sel)

theorem autonomous_claim_safe_for_every_source_witness:
  "\<exists>obs. fst (observe_swap (example_observer two_sources True) ''x'' watched_record Map.empty) = Ok obs
    \<and> decide watched_record obs example_policy 6 = Ok example_page
    \<and> reorg_deterred example_policy (effective_value example_policy (watch_value_at_risk (sr_terms watched_record)))
        (blocks_left example_policy (t_rxd (sr_terms watched_record)) (101 - 10 + 1) 101)"
proof -
  have "autonomous_asset_claim example_page" "sees (example_source 101 10) ''c:0'' 10" "tip_height (example_source 101 10) = Ok 101"
    by (simp_all add: example_page_def sees_def example_source_def)
  from autonomous_claim_safe_for_every_source
    [OF example_policy_Ok _ example_observed example_decided this(1) _ _ this(2,3), of two_sources 2]
    example_observed [of Map.empty] example_decided
  show ?thesis by (simp add: example_observer_def watched_record_sel)
qed

text \<open>Claim detection fails towards paging: if the reader answers that the lock is unspent, then no
  source reported a spender, and not all of them failed.\<close>

theorem claim_detection_fails_towards_paging:
  assumes "outspend_claim_status fs txid vout = Ok st" and "\<not> cs_claimed st" and "fs \<noteq> []"
  shows "(\<forall>f\<in>set fs. \<forall>t. f txid vout = Ok (True, Some t) \<longrightarrow> t = []) \<and> (\<exists>f\<in>set fs. is_ok (f txid vout))"
proof -
  have loop: "outspend_loop fs n txid vout = Ok (Inl m) \<Longrightarrow>
      (\<forall>f\<in>set fs. \<forall>t. f txid vout = Ok (True, Some t) \<longrightarrow> t = [])
      \<and> m = n + length (filter (\<lambda>f. \<not> is_ok (f txid vout)) fs)" for n m
  proof (induction fs arbitrary: n)
    case (Cons f fs)
    from Cons.prems Cons.IH [of n] Cons.IH [of "Suc n"] show ?case
      by (auto simp: bind_r_Ok_iff split: sum.split_asm prod.split_asm option.split_asm if_split_asm)
  qed simp
  have claimed: "outspend_loop fs n txid vout = Ok (Inr s) \<Longrightarrow> cs_claimed s" for n s
    by (induction fs arbitrary: n) (auto simp: BtcClaimStatus_def bind_r_Ok_iff split: sum.split_asm prod.split_asm option.split_asm if_split_asm)
  from assms(1) obtain r where r: "outspend_loop fs 0 txid vout = Ok r"
    by (auto simp: outspend_claim_status_def bind_r_Ok_iff)
  show ?thesis
  proof (cases r)
    case (Inl m)
    with r loop [of 0 m] have m: "m = length (filter (\<lambda>f. \<not> is_ok (f txid vout)) fs)"
      and none: "\<forall>f\<in>set fs. \<forall>t. f txid vout = Ok (True, Some t) \<longrightarrow> t = []" by auto
    from assms(1,3) r Inl have "m \<noteq> length fs" by (auto simp: outspend_claim_status_def split: if_splits)
    moreover have "m = length fs" if "\<not> (\<exists>f\<in>set fs. is_ok (f txid vout))"
      using that unfolding m by (simp add: filter_id_conv)
    ultimately show ?thesis using none by blast
  next
    case (Inr s)
    with r claimed assms(1,2) show ?thesis by (auto simp: outspend_claim_status_def)
  qed
qed

theorem claim_detection_fails_towards_paging_witness:
  "outspend_claim_status [\<lambda>_ _. Err NetworkError, \<lambda>_ _. Ok (False, None)] ''t'' 0 = Ok \<lparr>cs_claimed = False, cs_txid = None\<rparr>
   \<and> (\<exists>f\<in>set [\<lambda>_ _. Err NetworkError, \<lambda>(_::string) (_::int). Ok (False, None :: string option)]. is_ok (f ''t'' 0))"
  using claim_detection_fails_towards_paging
    [of "[\<lambda>_ _. Err NetworkError, \<lambda>_ _. Ok (False, None)]" "''t''" 0 "\<lparr>cs_claimed = False, cs_txid = None\<rparr>"]
  by (simp add: outspend_claim_status_def BtcClaimStatus_def)

text \<open>One source that over-reports the depth of the covenant silences the tower: two honest sources
  show that the refund is due, and on their own make the tower page it, but with a third that claims
  an impossible depth the lock height is dropped and the tower just watches.\<close>

theorem overreport_silences_stall_page:
  "\<exists>obs d obs' d'.
     fst (observe_swap (example_observer (map (\<lambda>(t, n). example_source t n) [(160, 71), (160, 71)]) False) ''x'' watched_record Map.empty) = Ok obs
     \<and> decide watched_record obs example_policy 6 = Ok d \<and> dec_intent d = PAGE_REFUND
     \<and> fst (observe_swap (example_observer (map (\<lambda>(t, n). example_source t n) [(160, 71), (160, 71), (160, 1000)]) False) ''x'' watched_record Map.empty) = Ok obs'
     \<and> decide watched_record obs' example_policy 6 = Ok d' \<and> dec_intent d' = WATCH"
proof -
  let ?run = "\<lambda>ps. observe_swap (example_observer (map (\<lambda>(t, n). example_source t n) ps) False) ''x'' watched_record Map.empty"
  let ?o = "example_obs\<lparr>maker_has_claimed_btc := False, now_rxd_height := 160, btc_claim_confirmations := None\<rparr>"
  have tip: "multi_tip_height (map (\<lambda>(t, n). example_source t n) ps) 2 = Ok 160"
    if "set (map fst ps) = {160}" "2 \<le> length ps" for ps
    using that unfolding multi_tip_height_def example_tips by simp
  have "depths (map (\<lambda>(t, n). example_source t n) [(160, 71), (160, 71)]) ''c:0'' = {71}"
    unfolding example_depths by auto
  then have c1: "multi_covenant_confirmations (map (\<lambda>(t, n). example_source t n) [(160, 71), (160, 71)]) 2 ''c:0'' = Ok (Some 71)"
    by (simp only: multi_covenant_cases) simp
  have "depths (map (\<lambda>(t, n). example_source t n) [(160, 71), (160, 71), (160, 1000)]) ''c:0'' = {71, 1000}"
    unfolding example_depths by auto
  then have c2: "multi_covenant_confirmations (map (\<lambda>(t, n). example_source t n) [(160, 71), (160, 71), (160, 1000)]) 2 ''c:0'' = Ok (Some 1000)"
    by (simp only: multi_covenant_cases) simp
  note obs = observe_swap_def example_observer_def multi_source_def observe_asset_lock_def watched_record_sel
      locked_record_sel observe_btc_claim_def example_btc_def Observations_def opt_nonneg_def example_obs_def
  have o1: "?run [(160, 71), (160, 71)] = (Ok ?o, Map.empty)"
    using tip [of "[(160, 71), (160, 71)]"] c1 by (simp add: obs)
  have o2: "?run [(160, 71), (160, 71), (160, 1000)] = (Ok (?o\<lparr>asset_locked_at_height := None\<rparr>), Map.empty)"
    using tip [of "[(160, 71), (160, 71), (160, 1000)]"] c2 by (simp add: obs)
  note dec = decide_def watched_record_sel locked_record_sel stall_page_def refund_opens_at_def normalize_to_def
      example_policy_def taker_refund_window_open_def example_obs_def
  have d1: "decide watched_record ?o example_policy 6 = Ok (plain PAGE_REFUND (Some ''mutual_refund'') (Some 162) False)"
    by (simp add: dec)
  have d2: "decide watched_record (?o\<lparr>asset_locked_at_height := None\<rparr>) example_policy 6 = Ok (plain WATCH None None False)"
    by (simp add: dec)
  show ?thesis
    by (intro exI [of _ ?o] exI [of _ "?o\<lparr>asset_locked_at_height := None\<rparr>"]
        exI [of _ "plain PAGE_REFUND (Some ''mutual_refund'') (Some 162) False"] exI [of _ "plain WATCH None None False"])
      (simp only: o1 o2 d1 d2 fst_conv plain_sel simp_thms)
qed

end
