(* ===== verification/Watch_Execute.thy ===== *)
theory Watch_Execute
  imports Watch_Observe Coordinator_Gates
begin

text \<open>
  The executors of the watchtower: \<open>pyrxd/gravity/watch/executor.py\<close> broadcasts a refund that the
  operator signed beforehand, \<open>pyrxd/gravity/watch/claim_executor.py\<close> scrapes the secret and claims
  the asset. An executor returns its outcome, or nothing when the decision is none of its business,
  and logs what it sent. The transports, the files beside the records and the Radiant leg are
  functions that answer or raise.
\<close>

datatype exec_outcome = BROADCAST | DECLINED | FAILED

datatype sent = SentRefund string bytes | SentClaim string string swap_record bytes

type_synonym 's executor = "string \<Rightarrow> swap_record \<Rightarrow> decision \<Rightarrow> 's \<Rightarrow> exec_outcome option result \<times> 's \<times> sent list"

definition null_execute :: "'s executor" where
  "null_execute swap_id rec d s = (Ok None, s, [])"

fun composite_execute :: "'s executor list \<Rightarrow> 's executor" where
  "composite_execute [] swap_id rec d s = (Ok None, s, [])"
| "composite_execute (ex # exs) swap_id rec d s =
     (case ex swap_id rec d s of
        (Inr None, s', l) \<Rightarrow>
          (case composite_execute exs swap_id rec d s' of (r, s'', l') \<Rightarrow> (r, s'', l @ l'))
      | (r, s', l) \<Rightarrow> (r, s', l))"

section \<open>The pre-signed refund\<close>

definition MAINNET_DUST_CEILING_SATS :: int where "MAINNET_DUST_CEILING_SATS = 10000"

definition require_audit_cleared :: "string \<Rightarrow> bool \<Rightarrow> unit result" where
  "require_audit_cleared net audit_cleared = Ok ()"

definition make_refund_broadcaster :: "string \<Rightarrow> bool \<Rightarrow> 'b option \<Rightarrow> 'b option result" where
  "make_refund_broadcaster net audit_cleared broadcaster =
     (case require_audit_cleared net audit_cleared of
        Inl e \<Rightarrow> if e = ValidationError then Ok None else Err e
      | Inr _ \<Rightarrow> Ok broadcaster)"

record presigned =
  ps_raw_tx :: bytes
  ps_swap_id :: string

definition PresignedRefund :: "bytes \<Rightarrow> string \<Rightarrow> presigned result" where
  "PresignedRefund raw swap_id =
     (if raw = [] then Err ValidationError
      else if swap_id = [] then Err ValidationError
      else
        bind_r (btc_spend_fields_from_raw raw) (\<lambda>fields.
          if length (input_prevouts fields) \<noteq> 1 \<or> length (outputs fields) \<noteq> 1 then Err ValidationError
          else bind_r (btc_txid_from_raw raw) (\<lambda>_. Ok \<lparr>ps_raw_tx = raw, ps_swap_id = swap_id\<rparr>)))"

text \<open>The JSON object of a sidecar; a missing key is \<open>None\<close>.\<close>

record refund_wire =
  rw_raw_tx :: "string option"
  rw_swap_id :: "string option"

definition presigned_to_dict :: "presigned \<Rightarrow> refund_wire" where
  "presigned_to_dict b = \<lparr>rw_raw_tx = Some (hex (ps_raw_tx b)), rw_swap_id = Some (ps_swap_id b)\<rparr>"

definition presigned_from_dict :: "refund_wire \<Rightarrow> presigned result" where
  "presigned_from_dict w =
     (case (rw_raw_tx w, rw_swap_id w) of
        (Some raw_hex, Some sid) \<Rightarrow>
          (case fromhex raw_hex of Inl e \<Rightarrow> Err ValidationError | Inr raw \<Rightarrow> PresignedRefund raw sid)
      | _ \<Rightarrow> Err ValidationError)"

text \<open>A directory of sidecars: what the file of a swap parses to, if there is one.\<close>

type_synonym 'w sidecars = "string \<Rightarrow> 'w result option"

definition load_presigned_refund :: "refund_wire sidecars \<Rightarrow> string \<Rightarrow> presigned option result" where
  "load_presigned_refund dir swap_id =
     (case dir swap_id of
        None \<Rightarrow> Ok None
      | Some parsed \<Rightarrow>
          bind_r parsed (\<lambda>w. bind_r (presigned_from_dict w) (\<lambda>blob.
            if ps_swap_id blob \<noteq> swap_id then Err ValidationError else Ok (Some blob))))"

record refund_executor =
  rx_broadcaster :: "(bytes \<Rightarrow> string result) option"
  rx_dir :: "refund_wire sidecars"
  rx_network :: string
  rx_cap :: int
  rx_refund_spk :: bytes
  rx_accept_single_source :: bool

definition RefundExecutor :: "refund_executor \<Rightarrow> refund_executor result" where
  "RefundExecutor rx =
     (if rx_network rx = [] then Err ValidationError
      else if rx_cap rx \<le> 0 then Err ValidationError
      else if rx_broadcaster rx \<noteq> None \<and> rx_network rx \<notin> AUDIT_CLEARED_NETWORKS \<and> rx_cap rx > MAINNET_DUST_CEILING_SATS
        then Err ValidationError
      else if rx_refund_spk rx = [] then Err ValidationError
      else Ok rx)"

datatype refund_auth = Authorized presigned "bytes \<Rightarrow> string result" | Refused | NotARefund

definition refund_authorize :: "refund_executor \<Rightarrow> string \<Rightarrow> swap_record \<Rightarrow> decision \<Rightarrow> refund_auth result" where
  "refund_authorize rx swap_id rec d =
     (if \<not> autonomous_btc_refund d then Ok NotARefund
      else if dec_intent d \<noteq> PAGE_REFUND then Ok Refused
      else case rx_broadcaster rx of
        None \<Rightarrow> Ok Refused
      | Some broadcast \<Rightarrow>
          if dec_low_corroboration d \<and> \<not> rx_accept_single_source rx then Ok Refused
          else case btc_locator_of rec of
            None \<Rightarrow> Ok Refused
          | Some l \<Rightarrow>
              if network l \<noteq> rx_network rx then Ok Refused
              else case load_presigned_refund (rx_dir rx) swap_id of
                Inl e \<Rightarrow> if e = ValidationError then Ok Refused else Err e
              | Inr None \<Rightarrow> Ok Refused
              | Inr (Some blob) \<Rightarrow>
                  bind_r (btc_spend_fields_from_raw (ps_raw_tx blob)) (\<lambda>fields.
                  bind_r (prevout_bytes (funding_outpoint l)) (\<lambda>prevout.
                    if hd (input_prevouts fields) \<noteq> prevout then Ok Refused
                    else if int (hd (input_sequences fields)) \<noteq> to_nsequence (t_btc (sr_terms rec)) then Ok Refused
                    else if snd (hd (outputs fields)) \<noteq> rx_refund_spk rx then Ok Refused
                    else let v = int (fst (hd (outputs fields))) in
                      if v \<le> 0 \<or> v > rx_cap rx then Ok Refused
                      else if v \<ge> amount_sats l then Ok Refused
                      else Ok (Authorized blob broadcast))))"

definition refund_execute :: "refund_executor \<Rightarrow> 's executor" where
  "refund_execute rx swap_id rec d s =
     (case refund_authorize rx swap_id rec d of
        Inl e \<Rightarrow> (Err e, s, [])
      | Inr NotARefund \<Rightarrow> (Ok None, s, [])
      | Inr Refused \<Rightarrow> (Ok (Some DECLINED), s, [])
      | Inr (Authorized blob broadcast) \<Rightarrow>
          (case broadcast (ps_raw_tx blob) of
             Inl e \<Rightarrow> (Err e, s, [SentRefund swap_id (ps_raw_tx blob)])
           | Inr txid \<Rightarrow> (Ok (Some BROADCAST), s, [SentRefund swap_id (ps_raw_tx blob)])))"

section \<open>The claim of the asset\<close>

definition MAINNET_DUST_CEILING_PHOTONS :: int where "MAINNET_DUST_CEILING_PHOTONS = 10000"

record claim_context =
  cc_swap_id :: string
  cc_taker_pkh :: bytes
  cc_maker_pkh :: bytes

definition CovenantClaimContext :: "string \<Rightarrow> bytes \<Rightarrow> bytes \<Rightarrow> claim_context result" where
  "CovenantClaimContext sid taker maker =
     (if sid = [] then Err ValidationError
      else if length taker \<noteq> 20 then Err ValidationError
      else if length maker \<noteq> 20 then Err ValidationError
      else Ok \<lparr>cc_swap_id = sid, cc_taker_pkh = taker, cc_maker_pkh = maker\<rparr>)"

record context_wire =
  cw_swap_id :: "string option"
  cw_taker_pkh :: "string option"
  cw_maker_pkh :: "string option"

definition context_to_dict :: "claim_context \<Rightarrow> context_wire" where
  "context_to_dict c =
     \<lparr>cw_swap_id = Some (cc_swap_id c), cw_taker_pkh = Some (hex (cc_taker_pkh c)), cw_maker_pkh = Some (hex (cc_maker_pkh c))\<rparr>"

definition context_from_dict :: "context_wire \<Rightarrow> claim_context result" where
  "context_from_dict w =
     (case (cw_swap_id w, cw_taker_pkh w, cw_maker_pkh w) of
        (Some sid, Some taker, Some maker) \<Rightarrow>
          (case bind_r (fromhex taker) (\<lambda>t. bind_r (fromhex maker) (\<lambda>m. Ok (t, m))) of
             Inl e \<Rightarrow> Err ValidationError
           | Inr (t, m) \<Rightarrow> CovenantClaimContext sid t m)
      | _ \<Rightarrow> Err ValidationError)"

definition load_claim_context :: "context_wire sidecars \<Rightarrow> string \<Rightarrow> claim_context option result" where
  "load_claim_context dir swap_id =
     (case dir swap_id of
        None \<Rightarrow> Ok None
      | Some parsed \<Rightarrow>
          bind_r parsed (\<lambda>w. bind_r (context_from_dict w) (\<lambda>ctx.
            if cc_swap_id ctx \<noteq> swap_id then Err ValidationError else Ok (Some ctx))))"

text \<open>The leg of one swap: the covenant script, the chain reads and the broadcast of the claim.\<close>

record claim_leg =
  cl_expected_spk :: "terms \<Rightarrow> bytes result"
  cl_find_utxo :: "bytes \<Rightarrow> int \<Rightarrow> (string \<times> int \<times> int) result"
  cl_mempool_unspent :: "(string \<Rightarrow> bool option result) option"
  cl_confirmations :: "string \<Rightarrow> int result"
  cl_claim_asset :: "swap_record \<Rightarrow> bytes \<Rightarrow> string result"

definition sidecar_leg_resolver ::
  "context_wire sidecars \<Rightarrow> (claim_context \<Rightarrow> claim_leg result) \<Rightarrow> string \<Rightarrow> swap_record \<Rightarrow> claim_leg option result"
where
  "sidecar_leg_resolver dir make_leg swap_id rec =
     bind_r (load_claim_context dir swap_id) (\<lambda>ctx.
       case ctx of None \<Rightarrow> Ok None | Some c \<Rightarrow> bind_r (make_leg c) (\<lambda>leg. Ok (Some leg)))"

record 's seen_ops =
  so_has_seen :: "bytes \<Rightarrow> 's \<Rightarrow> bool result"
  so_mark_seen :: "bytes \<Rightarrow> 's \<Rightarrow> unit result \<times> 's"

record 's claim_executor =
  cx_resolve_leg :: "(string \<Rightarrow> swap_record \<Rightarrow> claim_leg option result) option"
  cx_status :: "btc_source option"
  cx_bytes :: "(string \<Rightarrow> bytes option result) option"
  cx_policy :: margin_policy
  cx_network :: string
  cx_reorg_cost :: "int option"
  cx_safety_factor :: rat
  cx_accept_unbounded :: bool
  cx_accept_single_source :: bool
  cx_seen :: "'s seen_ops option"
  cx_corroborator :: "(string \<Rightarrow> int option result) option"
  cx_dust_ceiling :: int

definition ClaimExecutor :: "'s claim_executor \<Rightarrow> 's claim_executor result" where
  "ClaimExecutor cx =
     (if cx_network cx = [] then Err ValidationError
      else if \<not> opt_pos (cx_reorg_cost cx) then Err ValidationError
      else if cx_safety_factor cx < 1 then Err ValidationError
      else if cx_dust_ceiling cx \<le> 0 then Err ValidationError
      else Ok cx)"

definition value_bearing :: "'s claim_executor \<Rightarrow> bool" where
  "value_bearing cx \<longleftrightarrow> cx_network cx \<notin> AUDIT_CLEARED_NETWORKS"

text \<open>\<open>True\<close> when the value cap lets the swap pass.\<close>

definition check_value_cap :: "'s claim_executor \<Rightarrow> terms \<Rightarrow> bool result" where
  "check_value_cap cx t =
     (if value_bearing cx \<and> asset_variant t = ''rxd'' \<and> radiant_amount t > cx_dust_ceiling cx then Ok False
      else if \<not> value_bearing cx \<or> cx_accept_unbounded cx then Ok True
      else if asset_variant t \<noteq> ''rxd'' then Ok False
      else case cx_reorg_cost cx of
        None \<Rightarrow> Ok False
      | Some cost \<Rightarrow>
          bind_r (normalize_to (rxd_claim_burial (cx_policy cx)) BLOCKS (block_interval_s (cx_policy cx))) (\<lambda>burial.
          bind_r (max_protected_value (tl_value burial) cost (cx_safety_factor cx)) (\<lambda>ceiling.
            Ok (\<not> radiant_amount t > ceiling))))"

definition encode :: "string \<Rightarrow> bytes" where
  "encode cs = map (\<lambda>c. word_of_nat (of_char c)) cs"

definition claim_key :: "string \<Rightarrow> bytes" where
  "claim_key outpoint = encode (''claim:'' @ outpoint)"

text \<open>
  Step 5: the maker's claim, fetched afresh. The bytes are trusted only when they hash to the
  reported id, and only if they spend the lock of this swap.
\<close>

definition fresh_claim_tx ::
  "btc_source \<Rightarrow> (string \<Rightarrow> bytes option result) \<Rightarrow> btc_locator \<Rightarrow> (exec_outcome + string \<times> bytes) result"
where
  "fresh_claim_tx src fetch l =
     (case btc_claim_status src (op_txid (funding_outpoint l)) (op_vout (funding_outpoint l)) of
        Inl e \<Rightarrow> if e = CancelledError then Err e else Ok (Inl FAILED)
      | Inr st \<Rightarrow>
          (case (cs_claimed st, cs_txid st) of
             (True, Some claim_txid) \<Rightarrow>
               (case fetch claim_txid of
                  Inl e \<Rightarrow> if e = CancelledError then Err e else Ok (Inl FAILED)
                | Inr None \<Rightarrow> Ok (Inl FAILED)
                | Inr (Some raw) \<Rightarrow>
                    if raw = [] then Ok (Inl FAILED)
                    else
                      (case bind_r (btc_txid_from_raw raw) (\<lambda>t.
                              if t \<noteq> claim_txid then Ok (Inl FAILED)
                              else
                                bind_r (prevout_bytes (funding_outpoint l)) (\<lambda>op.
                                bind_r (btc_input_outpoints_from_raw raw) (\<lambda>ins.
                                  if op \<notin> set ins then Ok (Inl DECLINED) else Ok (Inr (claim_txid, raw))))) of
                         Inl e \<Rightarrow> if e = ValidationError then Ok (Inl FAILED) else Err e
                       | Inr r \<Rightarrow> Ok r))
           | _ \<Rightarrow> Ok (Inl DECLINED)))"

text \<open>Step 6: the secret, by its hash.\<close>

definition scrape_and_verify :: "bytes \<Rightarrow> bytes \<Rightarrow> (exec_outcome + bytes) result" where
  "scrape_and_verify raw h =
     (case scrape_secret raw h of
        Inl e \<Rightarrow> if e = ValidationError \<or> e = ValueError then Ok (Inl DECLINED) else Err e
      | Inr p \<Rightarrow> if sha256 p \<noteq> h then Ok (Inl DECLINED) else Ok (Inr p))"

text \<open>Step 7, first half: the covenant output, if it is there and no claim of it is on its way.\<close>

definition locate_covenant :: "claim_leg \<Rightarrow> terms \<Rightarrow> (exec_outcome + string \<times> int) result" where
  "locate_covenant leg t =
     (case bind_r (cl_expected_spk leg t) (\<lambda>spk. cl_find_utxo leg spk (radiant_amount t)) of
        Inl e \<Rightarrow>
          if e = NoUtxoFound then Ok (Inl DECLINED)
          else if e = NetworkError then Ok (Inl FAILED)
          else if e = ValidationError then Ok (Inl DECLINED)
          else Err e
      | Inr (outpoint, _, funded_h) \<Rightarrow> Ok (Inr (outpoint, funded_h)))"

definition mempool_clear :: "claim_leg \<Rightarrow> string \<Rightarrow> (exec_outcome + unit) result" where
  "mempool_clear leg outpoint =
     (case cl_mempool_unspent leg of
        None \<Rightarrow> Ok (Inr ())
      | Some check \<Rightarrow>
          (case check outpoint of
             Inl e \<Rightarrow> if e = NetworkError \<or> e = NoUtxoFound then Ok (Inl FAILED) else Err e
           | Inr unspent \<Rightarrow> if unspent = Some False then Ok (Inl DECLINED) else Ok (Inr ())))"

definition not_fired :: "'s claim_executor \<Rightarrow> string \<Rightarrow> 's \<Rightarrow> (exec_outcome + unit) result" where
  "not_fired cx outpoint s =
     (case cx_seen cx of
        None \<Rightarrow> Ok (Inr ())
      | Some ops \<Rightarrow>
          bind_r (so_has_seen ops (claim_key outpoint) s) (\<lambda>seen. if seen then Ok (Inl DECLINED) else Ok (Inr ())))"

text \<open>Step 7, second half: the depths, read afresh, and the gate.\<close>

definition fresh_depth ::
  "'s claim_executor \<Rightarrow> claim_leg \<Rightarrow> btc_source \<Rightarrow> string \<Rightarrow> string \<Rightarrow> (exec_outcome + int \<times> int) result"
where
  "fresh_depth cx leg src outpoint claim_txid =
     (case bind_r (cl_confirmations leg (takeWhile (\<lambda>c. c \<noteq> CHR '':'') outpoint)) (\<lambda>single.
             bind_r (btc_confirmations src claim_txid) (\<lambda>btc. Ok (single, btc))) of
        Inl e \<Rightarrow> if e = CancelledError then Err e else Ok (Inl FAILED)
      | Inr (single, btc) \<Rightarrow>
          (case cx_corroborator cx of
             None \<Rightarrow> Ok (Inr (single, btc))
           | Some corro \<Rightarrow>
               (case corro outpoint of
                  Inl e \<Rightarrow> if e = CancelledError then Err e else Ok (Inl DECLINED)
                | Inr None \<Rightarrow> Ok (Inl DECLINED)
                | Inr (Some n) \<Rightarrow> Ok (Inr (max single n, btc)))))"

definition fresh_gate :: "'s claim_executor \<Rightarrow> swap_record \<Rightarrow> int \<Rightarrow> int \<Rightarrow> int \<Rightarrow> (exec_outcome + unit) result" where
  "fresh_gate cx rec funded_h cov_confs btc_confs =
     (let now_rxd = funded_h + max cov_confs 1 - 1 in
      bind_r (btc_claim_verdict (cx_policy cx) btc_confs) (\<lambda>vd.
        case assess_claim_finality vd now_rxd funded_h (t_rxd (sr_terms rec)) (cx_policy cx) None of
          Inl e \<Rightarrow> if e = ValidationError then Ok (Inl DECLINED) else Err e
        | Inr fin \<Rightarrow> if fin \<noteq> SAFE then Ok (Inl DECLINED) else Ok (Inr ())))"

text \<open>Step 8: the broadcast, and only then the mark.\<close>

definition claim_broadcast ::
  "'s claim_executor \<Rightarrow> claim_leg \<Rightarrow> string \<Rightarrow> swap_record \<Rightarrow> string \<Rightarrow> bytes \<Rightarrow> 's \<Rightarrow> exec_outcome option result \<times> 's \<times> sent list"
where
  "claim_broadcast cx leg swap_id rec outpoint p s =
     (let l = [SentClaim swap_id outpoint rec p] in
      case cl_claim_asset leg rec p of
        Inl e \<Rightarrow>
          if e = NoUtxoFound then (Ok (Some DECLINED), s, l)
          else if e = NetworkError then (Ok (Some FAILED), s, l)
          else (Err e, s, l)
      | Inr txid \<Rightarrow>
          (case cx_seen cx of
             None \<Rightarrow> (Ok (Some BROADCAST), s, l)
           | Some ops \<Rightarrow>
               (case so_mark_seen ops (claim_key outpoint) s of
                  (Inl e, s') \<Rightarrow> (Err e, s', l)
                | (Inr _, s') \<Rightarrow> (Ok (Some BROADCAST), s', l))))"

text \<open>A step that may decide the outcome early.\<close>

definition or_else ::
  "(exec_outcome + 'a) result \<Rightarrow> ('a \<Rightarrow> exec_outcome option result \<times> 's \<times> sent list) \<Rightarrow> 's \<Rightarrow> exec_outcome option result \<times> 's \<times> sent list"
where
  "or_else r k s =
     (case r of Inl e \<Rightarrow> (Err e, s, []) | Inr (Inl oc) \<Rightarrow> (Ok (Some oc), s, []) | Inr (Inr x) \<Rightarrow> k x)"

definition claim_execute :: "'s claim_executor \<Rightarrow> 's executor" where
  "claim_execute cx swap_id rec d s =
     (if \<not> autonomous_asset_claim d then (Ok None, s, [])
      else if dec_intent d \<noteq> PAGE_CLAIM then (Ok (Some DECLINED), s, [])
      else if counter_chain (sr_terms rec) \<noteq> ''btc'' then (Ok (Some DECLINED), s, [])
      else case (cx_resolve_leg cx, cx_status cx, cx_bytes cx) of
        (Some resolve, Some src, Some fetch) \<Rightarrow>
          (case resolve swap_id rec of
             Inl e \<Rightarrow> if e = CancelledError then (Err e, s, []) else (Ok (Some FAILED), s, [])
           | Inr None \<Rightarrow> (Ok (Some DECLINED), s, [])
           | Inr (Some leg) \<Rightarrow>
               if dec_low_corroboration d \<and> \<not> cx_accept_single_source cx then (Ok (Some DECLINED), s, [])
               else
                 (case check_value_cap cx (sr_terms rec) of
                    Inl e \<Rightarrow> (Err e, s, [])
                  | Inr ok \<Rightarrow>
                      if \<not> ok then (Ok (Some DECLINED), s, [])
                      else
                        (case counterchain_locator rec of
                           None \<Rightarrow> (Ok (Some DECLINED), s, [])
                         | Some (EthLoc _) \<Rightarrow> (Err OtherError, s, [])
                         | Some (BtcLoc l) \<Rightarrow>
                             or_else (fresh_claim_tx src fetch l) (\<lambda>(claim_txid, raw).
                             or_else (scrape_and_verify raw (hashlock (sr_terms rec))) (\<lambda>p.
                             or_else (locate_covenant leg (sr_terms rec)) (\<lambda>(outpoint, funded_h).
                             or_else (mempool_clear leg outpoint) (\<lambda>_.
                             or_else (not_fired cx outpoint s) (\<lambda>_.
                             or_else (fresh_depth cx leg src outpoint claim_txid) (\<lambda>(cov_confs, btc_confs).
                             or_else (fresh_gate cx rec funded_h cov_confs btc_confs) (\<lambda>_.
                               claim_broadcast cx leg swap_id rec outpoint p s) s) s) s) s) s) s) s)))
      | _ \<Rightarrow> (Ok (Some DECLINED), s, []))"

section \<open>What the refund executor promises\<close>

lemma refund_authorize_Authorized:
  assumes "refund_authorize rx swap_id rec d = Ok (Authorized blob broadcast)"
  obtains l fields prevout where "autonomous_btc_refund d" "dec_intent d = PAGE_REFUND" "rx_broadcaster rx = Some broadcast"
    "dec_low_corroboration d \<longrightarrow> rx_accept_single_source rx"
    "btc_locator_of rec = Some l" "network l = rx_network rx" "load_presigned_refund (rx_dir rx) swap_id = Ok (Some blob)"
    "btc_spend_fields_from_raw (ps_raw_tx blob) = Ok fields" "prevout_bytes (funding_outpoint l) = Ok prevout"
    "hd (input_prevouts fields) = prevout" "int (hd (input_sequences fields)) = to_nsequence (t_btc (sr_terms rec))"
    "snd (hd (outputs fields)) = rx_refund_spk rx" "0 < int (fst (hd (outputs fields)))"
    "int (fst (hd (outputs fields))) \<le> rx_cap rx" "int (fst (hd (outputs fields))) < amount_sats l"
  using assms
  by (auto simp: refund_authorize_def Let_def bind_r_Ok_iff split: if_splits option.splits sum.splits)

lemma load_presigned_Ok:
  assumes "load_presigned_refund dir swap_id = Ok (Some blob)"
  shows "ps_swap_id blob = swap_id" "\<exists>fields. btc_spend_fields_from_raw (ps_raw_tx blob) = Ok fields
    \<and> length (input_prevouts fields) = 1 \<and> length (outputs fields) = 1"
  using assms
  by (auto simp: load_presigned_refund_def presigned_from_dict_def PresignedRefund_def case_Ok_iffs split: if_splits)

lemma refund_execute_sent:
  assumes "refund_execute rx swap_id rec d s = (r, s', l)" "x \<in> set l"
  obtains blob broadcast where "refund_authorize rx swap_id rec d = Ok (Authorized blob broadcast)" "x = SentRefund swap_id (ps_raw_tx blob)"
  using assms by (auto simp: refund_execute_def split: sum.splits refund_auth.splits)

text \<open>What a refund that was sent must look like.\<close>

definition refund_bound :: "refund_executor \<Rightarrow> swap_record \<Rightarrow> bytes \<Rightarrow> bool" where
  "refund_bound rx rec raw \<longleftrightarrow>
     (\<exists>l fields op v. btc_locator_of rec = Some l \<and> network l = rx_network rx
        \<and> btc_spend_fields_from_raw raw = Ok fields \<and> prevout_bytes (funding_outpoint l) = Ok op
        \<and> input_prevouts fields = [op] \<and> int (hd (input_sequences fields)) = to_nsequence (t_btc (sr_terms rec))
        \<and> outputs fields = [(v, rx_refund_spk rx)] \<and> 0 < v \<and> int v \<le> rx_cap rx \<and> int v < amount_sats l)"

lemma refund_execute_bound:
  assumes "refund_execute rx swap_id rec d s = (r, s', l)" "x \<in> set l"
  shows "\<exists>raw. x = SentRefund swap_id raw \<and> autonomous_btc_refund d \<and> refund_bound rx rec raw"
proof -
  from assms obtain blob broadcast where a: "refund_authorize rx swap_id rec d = Ok (Authorized blob broadcast)"
    and x: "x = SentRefund swap_id (ps_raw_tx blob)" by (rule refund_execute_sent)
  from a show ?thesis
  proof (rule refund_authorize_Authorized)
    fix loc fields prevout
    assume d: "autonomous_btc_refund d" and l: "btc_locator_of rec = Some loc" "network loc = rx_network rx"
      and b: "load_presigned_refund (rx_dir rx) swap_id = Ok (Some blob)"
      and f: "btc_spend_fields_from_raw (ps_raw_tx blob) = Ok fields" "prevout_bytes (funding_outpoint loc) = Ok prevout"
        "hd (input_prevouts fields) = prevout" "int (hd (input_sequences fields)) = to_nsequence (t_btc (sr_terms rec))"
      and v: "snd (hd (outputs fields)) = rx_refund_spk rx" "0 < int (fst (hd (outputs fields)))"
        "int (fst (hd (outputs fields))) \<le> rx_cap rx" "int (fst (hd (outputs fields))) < amount_sats loc"
    from load_presigned_Ok(2) [OF b] f have n: "length (input_prevouts fields) = 1" "length (outputs fields) = 1" by auto
    then have "input_prevouts fields = [prevout]" "outputs fields = [(fst (hd (outputs fields)), rx_refund_spk rx)]"
      using f(3) v(1) by (auto simp: length_Suc_conv)
    with x d l f v show ?thesis unfolding refund_bound_def by (auto intro!: exI)
  qed
qed

text \<open>The refund executor only ever sends a transaction that is bound to the swap: the decision armed it,
  and the stored bytes, parsed afresh, spend exactly the funding output of this swap with exactly the
  sequence number of the negotiated timelock, and pay a single output, to the operator's own script,
  that is positive, within the cap and less than what was locked.\<close>

theorem refund_broadcast_is_bound:
  assumes "refund_execute rx swap_id rec d s = (r, s', sent)" and "x \<in> set sent"
  shows "\<exists>raw. x = SentRefund swap_id raw \<and> autonomous_btc_refund d \<and> refund_bound rx rec raw"
  using assms by (rule refund_execute_bound)

text \<open>The refund broadcaster is never dormant: on every network, cleared by an audit or not, it is the
  broadcaster that was passed in.\<close>

theorem refund_broadcaster_never_dormant:
  "make_refund_broadcaster net audit_cleared broadcaster = Ok broadcaster"
  by (simp add: make_refund_broadcaster_def require_audit_cleared_def)

definition refund_tx :: btc_tx where
  "refund_tx = \<lparr>tx_version = [2, 0, 0, 0], tx_ins = [(replicate 32 0xaa @ replicate 4 0, [], le_bytes 4 144)],
     tx_outs = [(le_bytes 8 4000, [0x51], [])], tx_witness = [[[]]], tx_locktime = replicate 4 0\<rparr>"

definition example_refunder :: refund_executor where
  "example_refunder =
     \<lparr>rx_broadcaster = Some (\<lambda>_. Ok ''txid''),
      rx_dir = [''x'' \<mapsto> Ok \<lparr>rw_raw_tx = Some (hex (ser_segwit refund_tx)), rw_swap_id = Some ''x''\<rparr>],
      rx_network = ''bc'', rx_cap = 10000, rx_refund_spk = [0x51], rx_accept_single_source = False\<rparr>"

definition armed_refund :: decision where
  "armed_refund = (plain PAGE_REFUND (Some ''taker_refund_btc'') None False)\<lparr>autonomous_btc_refund := True\<rparr>"

lemma refund_tx_parses:
  "btc_txid_from_raw (ser_segwit refund_tx) = Ok (hex (rev (hash256 (ser_legacy refund_tx))))"
  "btc_spend_fields_from_raw (ser_segwit refund_tx) =
     Ok \<lparr>input_prevouts = [replicate 32 0xaa @ replicate 4 0], input_sequences = [144], outputs = [(4000, [0x51])]\<rparr>"
proof -
  have c: "within_counts refund_tx"
    by (simp add: within_counts_def wf_btc_tx_def wf_field_def refund_tx_def MAX_COUNT_def)
  have n: "le_val (le_bytes 4 144) = 144" "le_val (le_bytes 8 4000) = 4000" by (rule le_val_le_bytes, simp)+
  show "btc_txid_from_raw (ser_segwit refund_tx) = Ok (hex (rev (hash256 (ser_legacy refund_tx))))"
    using parse_segwit(1) [OF c, of "[]"] by simp
  show "btc_spend_fields_from_raw (ser_segwit refund_tx) =
     Ok \<lparr>input_prevouts = [replicate 32 0xaa @ replicate 4 0], input_sequences = [144], outputs = [(4000, [0x51])]\<rparr>"
    using parse_segwit(4) [OF c] n by (simp add: refund_tx_def)
qed

theorem refund_broadcast_is_bound_witness:
  "refund_execute example_refunder ''x'' funded_record armed_refund () =
      (Ok (Some BROADCAST), (), [SentRefund ''x'' (ser_segwit refund_tx)])
   \<and> refund_bound example_refunder funded_record (ser_segwit refund_tx)"
proof -
  have ne: "ser_segwit refund_tx \<noteq> []" by (simp add: ser_segwit_def refund_tx_def)
  have blob: "load_presigned_refund (rx_dir example_refunder) ''x'' = Ok (Some \<lparr>ps_raw_tx = ser_segwit refund_tx, ps_swap_id = ''x''\<rparr>)"
    by (simp add: load_presigned_refund_def presigned_from_dict_def PresignedRefund_def example_refunder_def ne refund_tx_parses)
  have f: "btc_locator_of funded_record = Some example_locator" "network example_locator = ''bc''" "amount_sats example_locator = 5000"
    "t_btc (sr_terms funded_record) = \<lparr>tl_value = 144, tl_unit = BLOCKS\<rparr>"
    by (simp_all add: btc_locator_of_def funded_record_def example_record_def example_terms_def example_locator_def)
  have r: "rx_broadcaster example_refunder = Some (\<lambda>_. Ok ''txid'')" "rx_network example_refunder = ''bc''" "rx_cap example_refunder = 10000"
    "rx_refund_spk example_refunder = [0x51]"
    by (simp_all add: example_refunder_def)
  have x: "refund_execute example_refunder ''x'' funded_record armed_refund () =
      (Ok (Some BROADCAST), (), [SentRefund ''x'' (ser_segwit refund_tx)])"
    by (simp add: refund_execute_def refund_authorize_def armed_refund_def f r blob refund_tx_parses claim_tx_parses to_nsequence_def bip68_consts)
  from x refund_broadcast_is_bound [OF x] show ?thesis by simp
qed

section \<open>What the claim executor promises\<close>

lemma or_else_sent:
  assumes "or_else m k s = (r, s', l)" "x \<in> set l"
  obtains v where "m = Ok (Inr v)" "k v = (r, s', l)"
  using assms by (auto simp: or_else_def split: sum.splits)

lemma claim_broadcast_sent:
  "claim_broadcast cx leg swap_id rec outpoint p s = (r, s', l) \<Longrightarrow> x \<in> set l \<Longrightarrow> x = SentClaim swap_id outpoint rec p"
  by (auto simp: claim_broadcast_def Let_def split: sum.splits if_splits option.splits prod.splits)

lemma claim_execute_sent:
  assumes "claim_execute cx swap_id rec d s = (r, s', sent)" "x \<in> set sent"
  obtains resolve src fetch leg l claim_txid raw p outpoint funded_h cov_confs btc_confs where
    "autonomous_asset_claim d" "counter_chain (sr_terms rec) = ''btc''"
    "cx_status cx = Some src" "resolve swap_id rec = Ok (Some leg)"
    "dec_low_corroboration d \<longrightarrow> cx_accept_single_source cx" "check_value_cap cx (sr_terms rec) = Ok True"
    "counterchain_locator rec = Some (BtcLoc l)" "fresh_claim_tx src fetch l = Ok (Inr (claim_txid, raw))"
    "scrape_and_verify raw (hashlock (sr_terms rec)) = Ok (Inr p)" "locate_covenant leg (sr_terms rec) = Ok (Inr (outpoint, funded_h))"
    "mempool_clear leg outpoint = Ok (Inr ())" "not_fired cx outpoint s = Ok (Inr ())"
    "fresh_depth cx leg src outpoint claim_txid = Ok (Inr (cov_confs, btc_confs))"
    "fresh_gate cx rec funded_h cov_confs btc_confs = Ok (Inr ())"
    "claim_broadcast cx leg swap_id rec outpoint p s = (r, s', sent)"
  using assms
  by (auto simp: claim_execute_def split: if_splits option.splits sum.splits locator.splits elim!: or_else_sent)

lemma fresh_claim_tx_Ok:
  assumes "fresh_claim_tx src fetch l = Ok (Inr (claim_txid, raw))"
  shows "btc_txid_from_raw raw = Ok claim_txid" "\<exists>op ins. prevout_bytes (funding_outpoint l) = Ok op \<and> btc_input_outpoints_from_raw raw = Ok ins \<and> op \<in> set ins"
  using assms
  by (auto simp: fresh_claim_tx_def bind_r_Ok_iff split: sum.splits option.splits if_splits bool.splits)

lemma scrape_and_verify_Ok: "scrape_and_verify raw h = Ok (Inr p) \<Longrightarrow> sha256 p = h"
  by (auto simp: scrape_and_verify_def split: sum.splits if_splits)

lemma fresh_gate_Ok:
  assumes "fresh_gate cx rec funded_h cov btc = Ok (Inr ())"
  shows "\<exists>vd. btc_claim_verdict (cx_policy cx) btc = Ok vd
    \<and> assess_claim_finality vd (funded_h + max cov 1 - 1) funded_h (t_rxd (sr_terms rec)) (cx_policy cx) None = Ok SAFE"
  using assms by (auto simp: fresh_gate_def Let_def case_Ok_iffs split: if_splits)

text \<open>
  The value a claim may move: on a network that bears value the absolute ceiling is never waived, and
  unless the operator accepts the risk, reorganising the burial costs the value times the factor.
\<close>

definition value_capped :: "'s claim_executor \<Rightarrow> terms \<Rightarrow> bool" where
  "value_capped cx t \<longleftrightarrow>
     (value_bearing cx \<longrightarrow>
        (asset_variant t = ''rxd'' \<longrightarrow> radiant_amount t \<le> cx_dust_ceiling cx)
        \<and> (\<not> cx_accept_unbounded cx \<longrightarrow>
             asset_variant t = ''rxd''
             \<and> (\<exists>cost. cx_reorg_cost cx = Some cost
                  \<and> of_int (radiant_amount t) * cx_safety_factor cx
                     \<le> of_int (lock_blocks (rxd_claim_burial (cx_policy cx)) (block_interval_s (cx_policy cx)) * cost))))"

lemma max_protected_value_bound:
  "max_protected_value b c f = Ok m \<Longrightarrow> \<not> m < x \<Longrightarrow> of_int x * f \<le> of_int b * of_int c"
  using max_protected_value_rule(2) [of b c f m x] by simp

lemma check_value_cap_capped: "check_value_cap cx t = Ok True \<Longrightarrow> value_capped cx t"
  by (auto simp: check_value_cap_def value_capped_def case_Ok_iffs normalize_blocks_iff
      split: if_splits dest: max_protected_value_bound)

text \<open>The evidence and the room a claim rests on, as read just before it is sent.\<close>

definition claim_evidenced :: "'s claim_executor \<Rightarrow> swap_record \<Rightarrow> bytes \<Rightarrow> bool" where
  "claim_evidenced cx rec p \<longleftrightarrow>
     sha256 p = hashlock (sr_terms rec)
     \<and> (\<exists>l raw txid op ins. counterchain_locator rec = Some (BtcLoc l) \<and> btc_txid_from_raw raw = Ok txid
          \<and> prevout_bytes (funding_outpoint l) = Ok op \<and> btc_input_outpoints_from_raw raw = Ok ins \<and> op \<in> set ins)
     \<and> (\<exists>funded cov btc. let mp = cx_policy cx; left = blocks_left mp (t_rxd (sr_terms rec)) funded (funded + max cov 1 - 1) in
          lock_blocks (btc_claim_reorg_depth mp) (block_interval_s mp) \<le> btc
          \<and> flat_burial mp \<le> left \<and> reorg_deterred mp (value_at_risk_photons mp) left)"

lemma claim_execute_gated:
  assumes "MarginPolicy q = Ok (cx_policy cx)" "claim_execute cx swap_id rec d s = (r, s', sent)" "x \<in> set sent"
  shows "\<exists>outpoint p. x = SentClaim swap_id outpoint rec p \<and> autonomous_asset_claim d \<and> claim_evidenced cx rec p
    \<and> value_capped cx (sr_terms rec)"
  using assms(2,3)
proof (rule claim_execute_sent)
  fix src fetch leg l claim_txid raw p outpoint funded_h cov_confs btc_confs
  assume d: "autonomous_asset_claim d" and cap: "check_value_cap cx (sr_terms rec) = Ok True"
    and l: "counterchain_locator rec = Some (BtcLoc l)" and tx: "fresh_claim_tx src fetch l = Ok (Inr (claim_txid, raw))"
    and p: "scrape_and_verify raw (hashlock (sr_terms rec)) = Ok (Inr p)"
    and g: "fresh_gate cx rec funded_h cov_confs btc_confs = Ok (Inr ())"
    and b: "claim_broadcast cx leg swap_id rec outpoint p s = (r, s', sent)"
  from fresh_gate_Ok [OF g] obtain vd where v: "btc_claim_verdict (cx_policy cx) btc_confs = Ok vd"
    and safe: "assess_claim_finality vd (funded_h + max cov_confs 1 - 1) funded_h (t_rxd (sr_terms rec)) (cx_policy cx) None = Ok SAFE"
    by blast
  note s = safe [unfolded claim_safe_rule [OF assms(1)]]
  from s btc_verdict_FINAL [OF v] have
    "let mp = cx_policy cx; left = blocks_left mp (t_rxd (sr_terms rec)) funded_h (funded_h + max cov_confs 1 - 1) in
       lock_blocks (btc_claim_reorg_depth mp) (block_interval_s mp) \<le> btc_confs
       \<and> flat_burial mp \<le> left \<and> reorg_deterred mp (value_at_risk_photons mp) left"
    by (simp add: effective_value_def Let_def)
  with fresh_claim_tx_Ok [OF tx] l scrape_and_verify_Ok [OF p] have "claim_evidenced cx rec p"
    unfolding claim_evidenced_def by blast
  with claim_broadcast_sent [OF b assms(3)] d check_value_cap_capped [OF cap] show ?thesis by blast
qed

text \<open>The claim executor only ever sends a claim that is still safe when it is sent: the decision armed it,
  the secret hashes to the hashlock and comes from a transaction that hashes to its id and spends this
  swap's own lock, the freshly read depths still make the claim final with room to bury it, and the
  value moved is within the ceilings.\<close>

theorem claim_broadcast_is_gated:
  assumes "MarginPolicy q = Ok (cx_policy cx)" and "claim_execute cx swap_id rec d s = (r, s', sent)" and "x \<in> set sent"
  shows "\<exists>outpoint p. x = SentClaim swap_id outpoint rec p \<and> autonomous_asset_claim d \<and> claim_evidenced cx rec p
    \<and> value_capped cx (sr_terms rec)"
  using assms by (rule claim_execute_gated)

definition seen_ops_of :: "(bytes \<Rightarrow> 's \<Rightarrow> bool result) \<Rightarrow> (bytes \<Rightarrow> 's \<Rightarrow> unit result \<times> 's) \<Rightarrow> 's seen_ops" where
  "seen_ops_of has mark = \<lparr>so_has_seen = has, so_mark_seen = mark\<rparr>"

definition example_leg :: claim_leg where
  "example_leg =
     \<lparr>cl_expected_spk = (\<lambda>_. Ok []), cl_find_utxo = (\<lambda>_ v. Ok (''c:0'', v, 90)), cl_mempool_unspent = None,
      cl_confirmations = (\<lambda>_. Ok 11), cl_claim_asset = (\<lambda>_ _. Ok ''txid'')\<rparr>"

definition claim_txid_of :: string where
  "claim_txid_of = hex (rev (hash256 (ser_legacy claim_tx)))"

definition example_claimer :: "'s seen_ops \<Rightarrow> 's claim_executor" where
  "example_claimer ops =
     \<lparr>cx_resolve_leg = Some (\<lambda>_ _. Ok (Some example_leg)),
      cx_status = Some \<lparr>btc_claim_status = (\<lambda>_ _. Ok \<lparr>cs_claimed = True, cs_txid = Some claim_txid_of\<rparr>),
        btc_confirmations = (\<lambda>_. Ok 6), btc_funding_depth = (\<lambda>_. Ok None)\<rparr>,
      cx_bytes = Some (\<lambda>_. Ok (Some (ser_segwit claim_tx))), cx_policy = example_policy, cx_network = ''bc'',
      cx_reorg_cost = Some 1000, cx_safety_factor = 2, cx_accept_unbounded = False, cx_accept_single_source = False,
      cx_seen = Some ops, cx_corroborator = Some (\<lambda>_. Ok (Some 12)), cx_dust_ceiling = 10000\<rparr>"

lemma example_claimer_sel:
  "cx_resolve_leg (example_claimer ops) = Some (\<lambda>_ _. Ok (Some example_leg))" "cx_policy (example_claimer ops) = example_policy"
  "cx_seen (example_claimer ops) = Some ops" "cx_bytes (example_claimer ops) = Some (\<lambda>_. Ok (Some (ser_segwit claim_tx)))"
  by (simp_all add: example_claimer_def)

lemma example_claim_of:
  assumes rec: "sr_terms rec = example_terms" "counterchain_locator rec = Some (BtcLoc example_locator)"
  shows "claim_execute (example_claimer (seen_ops_of mem_has_seen mem_mark_seen)) ''x'' rec example_page {} =
     (Ok (Some BROADCAST), {claim_key ''c:0''}, [SentClaim ''x'' ''c:0'' rec (replicate 32 9)])"
proof -
  let ?cx = "example_claimer (seen_ops_of mem_has_seen mem_mark_seen)"
  let ?src = "\<lparr>btc_claim_status = (\<lambda>_ _. Ok \<lparr>cs_claimed = True, cs_txid = Some claim_txid_of\<rparr>),
        btc_confirmations = (\<lambda>_. Ok 6), btc_funding_depth = (\<lambda>_. Ok None)\<rparr>"
  have src: "cx_status ?cx = Some ?src" by (simp add: example_claimer_def)
  have terms: "counter_chain example_terms = ''btc''" "hashlock example_terms = sha256 (replicate 32 9)"
    by (simp_all add: example_terms_def)
  have cap: "check_value_cap ?cx example_terms = Ok True"
    by (simp add: check_value_cap_def value_bearing_def example_claimer_def AUDIT_CLEARED_NETWORKS_def example_terms_def
        example_policy_def normalize_to_def max_protected_value_def)
  have ne: "ser_segwit claim_tx \<noteq> []" by (simp add: ser_segwit_def claim_tx_def example_tx_def)
  have id: "btc_txid_from_raw (ser_segwit claim_tx) = Ok claim_txid_of"
    using parse_segwit(1) [OF claim_tx_counts, of "[]"] by (simp add: claim_txid_of_def)
  have tx: "fresh_claim_tx ?src (\<lambda>_. Ok (Some (ser_segwit claim_tx))) example_locator = Ok (Inr (claim_txid_of, ser_segwit claim_tx))"
    by (simp add: fresh_claim_tx_def ne id claim_tx_parses)
  have p: "scrape_and_verify (ser_segwit claim_tx) (sha256 (replicate 32 9)) = Ok (Inr (replicate 32 9))"
    using claim_tx_parses(2) terms by (simp add: scrape_and_verify_def)
  have cov: "locate_covenant example_leg example_terms = Ok (Inr (''c:0'', 90))" "mempool_clear example_leg ''c:0'' = Ok (Inr ())"
    by (simp_all add: locate_covenant_def mempool_clear_def example_leg_def)
  have nf: "not_fired ?cx ''c:0'' {} = Ok (Inr ())"
    by (simp add: not_fired_def example_claimer_sel seen_ops_of_def mem_has_seen_def)
  have dep: "fresh_depth ?cx example_leg ?src ''c:0'' claim_txid_of = Ok (Inr (12, 6))"
    by (simp add: fresh_depth_def example_leg_def example_claimer_def)
  have g: "fresh_gate ?cx rec 90 12 6 = Ok (Inr ())"
    by (simp add: fresh_gate_def example_claimer_sel btc_claim_verdict_def example_policy_def normalize_to_def from_btc_depth_def
        CounterClaimFinality_def assess_claim_finality_def reserve_to_blocks_def value_scaled_burial_blocks_def rec example_terms_def)
  have b: "claim_broadcast ?cx example_leg ''x'' rec ''c:0'' q {} =
      (Ok (Some BROADCAST), {claim_key ''c:0''}, [SentClaim ''x'' ''c:0'' rec q])" for q
    by (simp add: claim_broadcast_def example_leg_def example_claimer_sel seen_ops_of_def mem_mark_seen_def)
  have d: "autonomous_asset_claim example_page" "dec_intent example_page = PAGE_CLAIM" "\<not> dec_low_corroboration example_page"
    by (simp_all add: example_page_def)
  show ?thesis
    unfolding claim_execute_def
    by (simp add: d rec terms src example_claimer_sel cap tx p cov nf dep g b or_else_def del: replicate.simps replicate_Suc)
qed

lemma locked_record_terms:
  "sr_terms locked_record = example_terms" "counterchain_locator locked_record = Some (BtcLoc example_locator)"
  by (simp_all add: locked_record_def funded_record_def example_record_def)

lemmas example_claim = example_claim_of [OF locked_record_terms]

theorem claim_broadcast_is_gated_witness:
  "claim_evidenced (example_claimer (seen_ops_of mem_has_seen mem_mark_seen)) locked_record (replicate 32 9)
   \<and> value_capped (example_claimer (seen_ops_of mem_has_seen mem_mark_seen)) (sr_terms locked_record)"
  using claim_broadcast_is_gated [OF _ example_claim, of example_policy] example_policy_Ok
  by (simp add: example_claimer_sel)

section \<open>Claims fire once\<close>

text \<open>What the executor relies on in its store of claims made.\<close>

locale marked_store =
  fixes has_seen :: "bytes \<Rightarrow> 's \<Rightarrow> bool result"
    and mark_seen :: "bytes \<Rightarrow> 's \<Rightarrow> unit result \<times> 's"
    and seen :: "'s \<Rightarrow> bytes set"
  assumes has_seen_truth: "has_seen k s = Ok b \<Longrightarrow> b \<longleftrightarrow> k \<in> seen s"
    and mark_done: "mark_seen k s = (Ok (), s') \<Longrightarrow> seen s' = insert k (seen s)"
    and mark_failed: "mark_seen k s = (Err e, s') \<Longrightarrow> seen s' = seen s"

fun run_claims ::
  "('s claim_executor \<times> string \<times> swap_record \<times> decision) list \<Rightarrow> 's \<Rightarrow> (exec_outcome option result \<times> sent list) list"
where
  "run_claims [] s = []"
| "run_claims ((cx, swap_id, rec, d) # es) s =
     (case claim_execute cx swap_id rec d s of (r, s', l) \<Rightarrow> (r, l) # run_claims es s')"

definition sends_claim :: "string \<Rightarrow> sent list \<Rightarrow> bool" where
  "sends_claim outpoint l \<longleftrightarrow> (\<exists>sid rec p. SentClaim sid outpoint rec p \<in> set l)"

lemma claim_key_inject [simp]: "claim_key a = claim_key b \<longleftrightarrow> a = b"
proof -
  have "inj (\<lambda>c. word_of_nat (of_char c) :: byte)"
  proof (rule injI)
    fix c c' :: char
    assume "(word_of_nat (of_char c) :: byte) = word_of_nat (of_char c')"
    then have "(of_char c :: nat) mod 256 = of_char c' mod 256"
      by (simp add: word_of_nat_eq_iff take_bit_eq_mod)
    then show "c = c'" by simp
  qed
  then show ?thesis by (simp add: claim_key_def encode_def inj_map_eq_map)
qed

context marked_store
begin

lemma claim_broadcast_marks:
  assumes "claim_broadcast cx leg swap_id rec outpoint p s = (r, s', l)" "cx_seen cx = Some (seen_ops_of has_seen mark_seen)"
  shows "seen s \<subseteq> seen s' \<and> (r = Ok (Some BROADCAST) \<longrightarrow> claim_key outpoint \<in> seen s')"
proof (cases "cl_claim_asset leg rec p")
  case (Inl e)
  with assms show ?thesis by (auto simp: claim_broadcast_def Let_def split: if_splits)
next
  case (Inr txid)
  obtain m s1 where m: "mark_seen (claim_key outpoint) s = (m, s1)" by fastforce
  with mark_done [of "claim_key outpoint" s s1] mark_failed [of "claim_key outpoint" s _ s1] assms Inr show ?thesis
    by (cases m) (auto simp: claim_broadcast_def seen_ops_of_def)
qed

lemma not_fired_unseen:
  "not_fired cx outpoint s = Ok (Inr ()) \<Longrightarrow> cx_seen cx = Some (seen_ops_of has_seen mark_seen) \<Longrightarrow> claim_key outpoint \<notin> seen s"
  using has_seen_truth [of "claim_key outpoint" s]
  by (auto simp: not_fired_def seen_ops_of_def bind_r_Ok_iff split: if_splits)

lemma claim_execute_marks:
  assumes "claim_execute cx swap_id rec d s = (r, s', l)" "cx_seen cx = Some (seen_ops_of has_seen mark_seen)"
  shows "seen s \<subseteq> seen s'" "sends_claim outpoint l \<Longrightarrow> claim_key outpoint \<notin> seen s \<and> (r = Ok (Some BROADCAST) \<longrightarrow> claim_key outpoint \<in> seen s')"
proof -
  have key: "seen s \<subseteq> seen s' \<and> (sends_claim outpoint l \<longrightarrow> claim_key outpoint \<notin> seen s \<and> (r = Ok (Some BROADCAST) \<longrightarrow> claim_key outpoint \<in> seen s'))"
    if "x \<in> set l" for x
    using assms(1) that
  proof (rule claim_execute_sent)
    fix leg o' p
    assume n: "not_fired cx o' s = Ok (Inr ())" and b: "claim_broadcast cx leg swap_id rec o' p s = (r, s', l)"
    from not_fired_unseen [OF n assms(2)] claim_broadcast_marks [OF b assms(2)]
    show ?thesis by (auto simp: sends_claim_def dest: claim_broadcast_sent [OF b])
  qed
  show "sends_claim outpoint l \<Longrightarrow> claim_key outpoint \<notin> seen s \<and> (r = Ok (Some BROADCAST) \<longrightarrow> claim_key outpoint \<in> seen s')"
    using key by (auto simp: sends_claim_def)
  show "seen s \<subseteq> seen s'"
  proof (cases l)
    case Nil
    with assms(1) have "s' = s"
      by (auto simp: claim_execute_def or_else_def claim_broadcast_def Let_def
          split: if_splits option.splits sum.splits locator.splits prod.splits)
    then show ?thesis by simp
  qed (use key in auto)
qed

lemma seen_never_sends:
  "claim_key outpoint \<in> seen s \<Longrightarrow> \<forall>(cx, _)\<in>set es. cx_seen cx = Some (seen_ops_of has_seen mark_seen) \<Longrightarrow> (r, l) \<in> set (run_claims es s) \<Longrightarrow> \<not> sends_claim outpoint l"
proof (induction es arbitrary: s)
  case (Cons e es)
  obtain cx swap_id rec d where e: "e = (cx, swap_id, rec, d)" by (cases e)
  obtain r' s' l' where c: "claim_execute cx swap_id rec d s = (r', s', l')" by (cases "claim_execute cx swap_id rec d s")
  from Cons.prems e have ops: "cx_seen cx = Some (seen_ops_of has_seen mark_seen)" by auto
  from claim_execute_marks [OF c ops] Cons.IH [of s'] Cons.prems e c show ?case by auto
qed simp

lemma fires_once:
  "\<forall>(cx, _)\<in>set es. cx_seen cx = Some (seen_ops_of has_seen mark_seen) \<Longrightarrow>
   length (filter (\<lambda>(r, l). r = Ok (Some BROADCAST) \<and> sends_claim outpoint l) (run_claims es s)) \<le> 1"
proof (induction es arbitrary: s)
  case (Cons e es)
  obtain cx swap_id rec d where e: "e = (cx, swap_id, rec, d)" by (cases e)
  obtain r' s' l' where c: "claim_execute cx swap_id rec d s = (r', s', l')" by (cases "claim_execute cx swap_id rec d s")
  from Cons.prems e have ops: "cx_seen cx = Some (seen_ops_of has_seen mark_seen)" by auto
  show ?case
  proof (cases "r' = Ok (Some BROADCAST) \<and> sends_claim outpoint l'")
    case True
    with claim_execute_marks [OF c ops] have "claim_key outpoint \<in> seen s'" by auto
    with seen_never_sends [of outpoint s' es] Cons.prems
    have "filter (\<lambda>(r, l). r = Ok (Some BROADCAST) \<and> sends_claim outpoint l) (run_claims es s') = []"
      by (auto simp: filter_empty_conv)
    with e c True show ?thesis by simp
  next
    case False
    with Cons.IH [of s'] Cons.prems e c show ?thesis by auto
  qed
qed simp

end

interpretation mem_mark: marked_store mem_has_seen mem_mark_seen "\<lambda>s. s"
  by unfold_locales (auto simp: mem_has_seen_def mem_mark_seen_def)

interpretation db_mark: marked_store db_has_seen db_mark_seen rows
  by unfold_locales
    (auto simp: db_has_seen_def db_mark_seen_def db_h_def insert_or_ignore_def bind_r_Ok_iff split: if_splits)


text \<open>The durable store of used hashlocks blocks every claim: it accepts keys of 32 bytes only, and the
  key of a claim is longer, so with that store no run ever broadcasts.\<close>

theorem durable_store_blocks_claims:
  assumes "cx_seen cx = Some (seen_ops_of db_has_seen db_mark_seen)" and "length outpoint \<noteq> 26"
    and "claim_execute cx swap_id rec d s = (r, s', sent)"
  shows "\<not> sends_claim outpoint sent"
proof
  assume a: "sends_claim outpoint sent"
  then obtain x where x: "x \<in> set sent" by (auto simp: sends_claim_def)
  from assms(3) x show False
  proof (rule claim_execute_sent)
    fix leg o' p
    assume n: "not_fired cx o' s = Ok (Inr ())" and b: "claim_broadcast cx leg swap_id rec o' p s = (r, s', sent)"
    from a have "o' = outpoint" by (auto simp: sends_claim_def dest: claim_broadcast_sent [OF b])
    with n assms(1,2) show False
      by (auto simp: not_fired_def seen_ops_of_def db_has_seen_def db_h_def bind_r_Ok_iff claim_key_def encode_def split: if_splits)
  qed
qed

theorem durable_store_blocks_claims_witness:
  "\<not> sends_claim ''c:0'' (snd (snd (claim_execute (example_claimer (seen_ops_of db_has_seen db_mark_seen)) ''x'' locked_record example_page
      \<lparr>rows = {}, available = True\<rparr>)))"
proof -
  obtain r s' l where e: "claim_execute (example_claimer (seen_ops_of db_has_seen db_mark_seen)) ''x'' locked_record example_page
      \<lparr>rows = {}, available = True\<rparr> = (r, s', l)"
    by (cases "claim_execute (example_claimer (seen_ops_of db_has_seen db_mark_seen)) ''x'' locked_record example_page
      \<lparr>rows = {}, available = True\<rparr>")
  from durable_store_blocks_claims [OF _ _ e, of "''c:0''"] e show ?thesis by (simp add: example_claimer_sel)
qed


end
