(* ===== verification/Watch_Alerts.thy ===== *)
theory Watch_Alerts
  imports Watch_Decide
begin

text \<open>
  How the watchtower reaches the operator: \<open>pyrxd/gravity/watch/alerts.py\<close>, the alerter that pages a
  decision once, or again and again while a critical one is not acknowledged, and the dead-man's
  switch of \<open>pyrxd/gravity/watch/heartbeat.py\<close>. The channel is a function that delivers a page or
  raises. The texts of the messages are not modelled; times are rational numbers.
\<close>

section \<open>The alerter\<close>

datatype severity = INFO | WARN | CRITICAL

definition SEVERITY :: "intent \<rightharpoonup> severity" where
  "SEVERITY = [PAGE_CLAIM \<mapsto> CRITICAL, PAGE_SQUEEZED \<mapsto> CRITICAL, PAGE_REFUND \<mapsto> WARN, RETIRE \<mapsto> INFO]"

record page =
  pg_swap_id :: string
  pg_intent :: "intent option"
  pg_severity :: severity
  pg_action :: "string option"
  pg_deadline :: "int option"
  pg_low_corroboration :: bool

type_synonym channel = "page \<Rightarrow> unit result"

record alerter =
  last_intent :: "string \<rightharpoonup> intent"
  critical_ticks :: "string \<rightharpoonup> int"
  acked :: "string \<rightharpoonup> intent"
  repage_every :: int

definition DedupAlerter :: "int \<Rightarrow> alerter result" where
  "DedupAlerter every =
     (if every < 1 then Err ValidationError
      else Ok \<lparr>last_intent = Map.empty, critical_ticks = Map.empty, acked = Map.empty, repage_every = every\<rparr>)"

definition ack :: "string \<Rightarrow> alerter \<Rightarrow> bool \<times> alerter" where
  "ack swap_id al =
     (case last_intent al swap_id of
        None \<Rightarrow> (False, al)
      | Some i \<Rightarrow>
          if SEVERITY i = Some CRITICAL then (True, al\<lparr>acked := (acked al)(swap_id \<mapsto> i)\<rparr>) else (False, al))"

definition unacked_critical_count :: "alerter \<Rightarrow> nat" where
  "unacked_critical_count al =
     card {sid. \<exists>i. last_intent al sid = Some i \<and> SEVERITY i = Some CRITICAL \<and> acked al sid \<noteq> Some i}"

definition page_of :: "string \<Rightarrow> severity \<Rightarrow> decision \<Rightarrow> page" where
  "page_of swap_id sev d =
     \<lparr>pg_swap_id = swap_id, pg_intent = Some (dec_intent d), pg_severity = sev, pg_action = recommended_action d,
      pg_deadline = deadline_rxd_height d, pg_low_corroboration = dec_low_corroboration d\<rparr>"

text \<open>The result, the new state and the pages delivered.\<close>

definition send_page ::
  "channel \<Rightarrow> string \<Rightarrow> severity \<Rightarrow> decision \<Rightarrow> alerter \<Rightarrow> unit result \<times> alerter \<times> page list"
where
  "send_page send swap_id sev d al =
     (let pg = page_of swap_id sev d in
      case send pg of
        Inl e \<Rightarrow> (Err e, al, [])
      | Inr _ \<Rightarrow>
          (Ok (), al\<lparr>last_intent := (last_intent al)(swap_id \<mapsto> dec_intent d),
                    critical_ticks := (critical_ticks al)(swap_id \<mapsto> 0)\<rparr>, [pg]))"

definition handle ::
  "channel \<Rightarrow> string \<Rightarrow> decision \<Rightarrow> alerter \<Rightarrow> unit result \<times> alerter \<times> page list"
where
  "handle send swap_id d al =
     (case SEVERITY (dec_intent d) of
        None \<Rightarrow> (Ok (), al, [])
      | Some sev \<Rightarrow>
          let al1 = (if dec_intent d = RETIRE
                     then al\<lparr>critical_ticks := (critical_ticks al)(swap_id := None), acked := (acked al)(swap_id := None)\<rparr>
                     else al)
          in if last_intent al1 swap_id = Some (dec_intent d) then
               (if sev \<noteq> CRITICAL then (Ok (), al1, [])
                else if acked al1 swap_id = Some (dec_intent d) then (Ok (), al1, [])
                else
                  let n = (case critical_ticks al1 swap_id of None \<Rightarrow> 0 | Some k \<Rightarrow> k) + 1;
                      al2 = al1\<lparr>critical_ticks := (critical_ticks al1)(swap_id \<mapsto> n)\<rparr>
                  in if n < repage_every al2 then (Ok (), al2, []) else send_page send swap_id sev d al2)
             else send_page send swap_id sev d al1)"

text \<open>A sequence of decisions; a channel failure is caught by the reconciler.\<close>

fun handle_all :: "channel \<Rightarrow> (string \<times> decision) list \<Rightarrow> alerter \<Rightarrow> alerter \<times> page list" where
  "handle_all send [] al = (al, [])"
| "handle_all send ((sid, d) # es) al =
     (case handle send sid d al of (_, al', pgs) \<Rightarrow>
        (case handle_all send es al' of (al'', pgs') \<Rightarrow> (al'', pgs @ pgs')))"

section \<open>The dead-man's switch\<close>

definition CLOCK_SKEW_TOLERANCE_S :: rat where "CLOCK_SKEW_TOLERANCE_S = 60"

text \<open>\<open>None\<close> is a heartbeat file that is missing, unreadable or without a timestamp.\<close>

definition heartbeat_age_s :: "rat option \<Rightarrow> rat \<Rightarrow> rat option" where
  "heartbeat_age_s ts now = (case ts of None \<Rightarrow> None | Some t \<Rightarrow> Some (now - t))"

definition DeadMansSwitch :: "rat \<Rightarrow> unit result" where
  "DeadMansSwitch max_silence = (if max_silence \<le> 0 then Err ValidationError else Ok ())"

definition is_stale :: "rat \<Rightarrow> rat option \<Rightarrow> bool" where
  "is_stale max_silence age =
     (case age of None \<Rightarrow> True | Some a \<Rightarrow> a > max_silence \<or> a < - CLOCK_SKEW_TOLERANCE_S)"

definition liveness_page :: "severity \<Rightarrow> string option \<Rightarrow> page" where
  "liveness_page sev act =
     \<lparr>pg_swap_id = ''<watchtower>'', pg_intent = None, pg_severity = sev, pg_action = act, pg_deadline = None,
      pg_low_corroboration = False\<rparr>"

definition stale_page :: page where
  "stale_page = liveness_page CRITICAL (Some ''restart the watchtower and/or manually watch in-flight swaps'')"

definition recovered_page :: page where
  "recovered_page = liveness_page INFO None"

text \<open>One check: whether the tower is alive, whether the switch has fired, and the pages delivered.\<close>

definition check_switch :: "channel \<Rightarrow> rat \<Rightarrow> rat option \<Rightarrow> rat \<Rightarrow> bool \<Rightarrow> bool \<times> bool \<times> page list" where
  "check_switch send max_silence ts now fired =
     (let age = heartbeat_age_s ts now; stale = is_stale max_silence age in
      if stale \<and> \<not> fired then
        (if is_ok (send stale_page) then (\<not> stale, True, [stale_page]) else (\<not> stale, fired, []))
      else if \<not> stale \<and> fired then
        (if is_ok (send recovered_page) then (\<not> stale, False, [recovered_page]) else (\<not> stale, fired, []))
      else (\<not> stale, fired, []))"

text \<open>The monitor: a check for every interval, each with the file and the clock at that time.\<close>

fun run_monitor :: "channel \<Rightarrow> rat \<Rightarrow> (rat option \<times> rat) list \<Rightarrow> bool \<Rightarrow> bool \<times> page list" where
  "run_monitor send max_silence [] fired = (fired, [])"
| "run_monitor send max_silence ((ts, now) # es) fired =
     (case check_switch send max_silence ts now fired of (_, fired', pgs) \<Rightarrow>
        (case run_monitor send max_silence es fired' of (fired'', pgs') \<Rightarrow> (fired'', pgs @ pgs')))"

section \<open>What the alerter promises\<close>

lemma SEVERITY_simps [simp]:
  "SEVERITY PAGE_CLAIM = Some CRITICAL" "SEVERITY PAGE_SQUEEZED = Some CRITICAL" "SEVERITY PAGE_REFUND = Some WARN"
  "SEVERITY RETIRE = Some INFO" "SEVERITY WATCH = None" "SEVERITY NOOP = None"
  by (simp_all add: SEVERITY_def)

text \<open>The state of one swap is touched by its own decisions only.\<close>

lemma handle_isolated:
  assumes "handle send sid d al = (r, al', pgs)" "i \<noteq> sid"
  shows "last_intent al' i = last_intent al i \<and> critical_ticks al' i = critical_ticks al i \<and> acked al' i = acked al i
    \<and> repage_every al' = repage_every al"
  using assms
  by (auto simp: handle_def send_page_def Let_def split: option.splits if_splits sum.splits)

lemma handle_repage [simp]: "repage_every (fst (snd (handle send sid d al))) = repage_every al"
  by (auto simp: handle_def send_page_def Let_def split: option.splits sum.splits)

text \<open>The ticks a critical situation of a swap has waited for its page.\<close>

definition waited :: "alerter \<Rightarrow> string \<Rightarrow> intent \<Rightarrow> int" where
  "waited al sid i =
     (if last_intent al sid = Some i then (case critical_ticks al sid of None \<Rightarrow> 0 | Some k \<Rightarrow> k) else repage_every al)"

lemma handle_critical:
  assumes "SEVERITY i = Some CRITICAL" "dec_intent d = i" "acked al sid \<noteq> Some i" "is_ok (send (page_of sid CRITICAL d))"
    "handle send sid d al = (r, al', pgs)"
  shows "pgs = [page_of sid CRITICAL d] \<or> pgs = [] \<and> waited al' sid i = waited al sid i + 1 \<and> waited al' sid i < repage_every al
      \<and> acked al' sid = acked al sid"
proof -
  have "i \<noteq> RETIRE" using assms(1) by auto
  with assms show ?thesis
    by (auto simp: handle_def send_page_def waited_def Let_def is_ok_iff split: if_splits sum.splits)
qed

lemma repaged:
  assumes "SEVERITY i = Some CRITICAL" "\<forall>p. is_ok (send p)" "acked al sid \<noteq> Some i"
    "\<forall>(s, d)\<in>set es. s = sid \<longrightarrow> dec_intent d = i"
    "repage_every al \<le> waited al sid i + int (length (filter (\<lambda>(s, d). s = sid) es))"
    "filter (\<lambda>(s, d). s = sid) es \<noteq> []"
  shows "\<exists>pg\<in>set (snd (handle_all send es al)). pg_swap_id pg = sid \<and> pg_intent pg = Some i"
  using assms(3-)
proof (induction es arbitrary: al)
  case (Cons e es)
  obtain s d where e: "e = (s, d)" by (cases e)
  obtain r al' pgs where h: "handle send s d al = (r, al', pgs)" by (cases "handle send s d al")
  show ?case
  proof (cases "s = sid")
    case False
    with handle_isolated [OF h] have "waited al' sid i = waited al sid i" "acked al' sid = acked al sid" "repage_every al' = repage_every al"
      by (auto simp: waited_def)
    with Cons.IH [of al'] Cons.prems False e h show ?thesis by (auto split: prod.splits)
  next
    case True
    with Cons.prems e have i: "dec_intent d = i" by auto
    from handle_critical [OF assms(1) i _ _ h [unfolded True]] Cons.prems(1) assms(2)
    consider "pgs = [page_of sid CRITICAL d]"
      | "pgs = []" "waited al' sid i = waited al sid i + 1" "waited al' sid i < repage_every al" "acked al' sid = acked al sid" by blast
    then show ?thesis
    proof cases
      case 1
      with True e h i show ?thesis by (auto simp: page_of_def split: prod.splits)
    next
      case 2
      have rep: "repage_every al' = repage_every al" using handle_repage [of send s d al] h by simp
      from Cons.prems(3) e True have len: "repage_every al \<le> waited al' sid i + int (length (filter (\<lambda>(s, d). s = sid) es))"
        using 2(2) by simp
      with 2(3) have "filter (\<lambda>(s, d). s = sid) es \<noteq> []" by auto
      with Cons.IH [of al'] Cons.prems 2 len rep e h show ?thesis by (auto split: prod.splits)
    qed
  qed
qed simp


definition example_alerter :: alerter where
  "example_alerter =
     \<lparr>last_intent = [''a'' \<mapsto> PAGE_CLAIM], critical_ticks = [''a'' \<mapsto> 0], acked = Map.empty, repage_every = 2\<rparr>"


text \<open>An acknowledgement outlives the situation it was given for. Situations are told apart by their
  intent only: after the operator acknowledged a page about an unreadable source, the page that the
  claim window is closing has the same intent and is not sent, although its deadline differs and
  nobody acknowledged it.\<close>

theorem ack_silences_next_situation:
  "\<exists>al pgs. handle_all (\<lambda>_. Ok ()) [(''a'', plain PAGE_SQUEEZED (Some ''investigate'') None False)]
       \<lparr>last_intent = Map.empty, critical_ticks = Map.empty, acked = Map.empty, repage_every = 1\<rparr> = (al, pgs)
     \<and> pgs \<noteq> [] \<and> fst (ack ''a'' al)
     \<and> snd (handle_all (\<lambda>_. Ok ()) (replicate n (''a'', plain PAGE_SQUEEZED
         (Some ''taker_claim_asset_from_vulnerable (winner-take-all) vs accept loss'') (Some 162) False)) (snd (ack ''a'' al))) = []"
proof -
  let ?al0 = "\<lparr>last_intent = Map.empty, critical_ticks = Map.empty, acked = Map.empty, repage_every = 1\<rparr>"
  let ?d = "plain PAGE_SQUEEZED (Some ''taker_claim_asset_from_vulnerable (winner-take-all) vs accept loss'') (Some 162) False"
  obtain al pgs where r: "handle_all (\<lambda>_. Ok ()) [(''a'', plain PAGE_SQUEEZED (Some ''investigate'') None False)] ?al0 = (al, pgs)"
    by (cases "handle_all (\<lambda>_. Ok ()) [(''a'', plain PAGE_SQUEEZED (Some ''investigate'') None False)] ?al0")
  then have al: "last_intent al ''a'' = Some PAGE_SQUEEZED" "pgs \<noteq> []"
    by (auto simp: handle_def send_page_def)
  then have a: "ack ''a'' al = (True, al\<lparr>acked := (acked al)(''a'' \<mapsto> PAGE_SQUEEZED)\<rparr>)" by (simp add: ack_def)
  have "handle_all (\<lambda>_. Ok ()) (replicate n (''a'', ?d)) b = (b, [])"
    if "last_intent b ''a'' = Some PAGE_SQUEEZED" "acked b ''a'' = Some PAGE_SQUEEZED" for b
    using that by (induction n) (simp_all add: handle_def)
  with a al r show ?thesis by simp
qed

section \<open>What the dead-man's switch promises\<close>

fun alternate :: "bool \<Rightarrow> page list \<Rightarrow> bool" where
  "alternate fired [] = True"
| "alternate fired (p # ps) = (p = (if fired then recovered_page else stale_page) \<and> alternate (\<not> fired) ps)"

text \<open>The dead-man's switch is edge-triggered and never silent: for any channel, it delivers the alarm
  and the all-clear in turn, beginning with the alarm; it counts as fired exactly when the last page
  delivered was the alarm; and with a working channel a check that finds the heartbeat absent, too
  old or dated too far ahead leaves the alarm delivered.\<close>

theorem deadman_switch_correct:
  assumes "run_monitor send max_silence es False = (fired, pgs)"
  shows "alternate False pgs \<and> (fired \<longleftrightarrow> pgs \<noteq> [] \<and> last pgs = stale_page)
    \<and> (es \<noteq> [] \<and> is_ok (send stale_page) \<and> is_stale max_silence (heartbeat_age_s (fst (last es)) (snd (last es))) \<longrightarrow> fired)"
proof -
  have ne: "stale_page \<noteq> recovered_page" by (simp add: stale_page_def recovered_page_def liveness_page_def)
  have "run_monitor send max_silence es b = (fired, pgs) \<Longrightarrow>
      alternate b pgs \<and> fired = (if pgs = [] then b else last pgs = stale_page)
      \<and> (es \<noteq> [] \<and> is_ok (send stale_page) \<and> is_stale max_silence (heartbeat_age_s (fst (last es)) (snd (last es))) \<longrightarrow> fired)" for b
  proof (induction es arbitrary: b pgs)
    case (Cons e es)
    obtain ts now where e: "e = (ts, now)" by (cases e)
    obtain v b' p1 where c: "check_switch send max_silence ts now b = (v, b', p1)" by (cases "check_switch send max_silence ts now b")
    obtain f p2 where r: "run_monitor send max_silence es b' = (f, p2)" by (cases "run_monitor send max_silence es b'")
    from Cons.prems e c r have f: "f = fired" "pgs = p1 @ p2" by auto
    from c have step: "p1 = [] \<and> b' = b \<or> \<not> b \<and> p1 = [stale_page] \<and> b' \<or> b \<and> p1 = [recovered_page] \<and> \<not> b'"
      and live: "is_ok (send stale_page) \<Longrightarrow> is_stale max_silence (heartbeat_age_s ts now) \<Longrightarrow> b'"
      by (auto simp: check_switch_def Let_def split: if_splits)
    from Cons.IH [OF r [unfolded f(1)]] f step live ne e r show ?case by (cases "es = []") auto
  qed simp
  from this [OF assms] show ?thesis by auto
qed

theorem deadman_switch_correct_witness:
  "\<exists>fired pgs. run_monitor (\<lambda>_. Ok ()) 120 [(Some 0, 60), (Some 0, 300), (Some 290, 310), (None, 320)] False = (fired, pgs)
    \<and> alternate False pgs \<and> fired"
proof -
  obtain fired pgs where r: "run_monitor (\<lambda>_. Ok ()) 120 [(Some 0, 60), (Some 0, 300), (Some 290, 310), (None, 320)] False = (fired, pgs)"
    by (cases "run_monitor (\<lambda>_. Ok ()) 120 [(Some 0, 60), (Some 0, 300), (Some 290, 310), (None, 320)] False")
  from deadman_switch_correct [OF r] have "alternate False pgs \<and> fired"
    by (auto simp: is_stale_def heartbeat_age_s_def)
  with r show ?thesis by blast
qed

end
