(* ===== verification/Watch_Tower.thy ===== *)
theory Watch_Tower
  imports Watch_Execute Watch_Alerts
begin

text \<open>
  The loop body of the watchtower, \<open>pyrxd/gravity/watch/reconciler.py\<close>, and its poll loop,
  \<open>pyrxd/gravity/watch/daemon.py\<close>: one pass lists the active swaps, observes each, decides, runs the
  executor and always tells the alerter. An \<open>except Exception\<close> catches every error but
  \<open>CancelledError\<close>, which is no \<open>Exception\<close>. The environment of a pass (directory, sources, channel,
  transports) is part of its argument, so that it may differ from pass to pass. Logging is not
  modelled, but for the numbers of the heartbeat line.
\<close>

section \<open>The reconciler\<close>

record reconcile_result =
  rr_swap_id :: string
  rr_decision :: decision
  rr_error :: "exn option"
  rr_alert_delivered :: "bool option"
  rr_executed :: "exec_outcome option"

record 's reconciler =
  rc_observer :: observer
  rc_channel :: channel
  rc_policy :: margin_policy
  rc_safety :: int
  rc_executor :: "'s executor"

text \<open>What lasts from pass to pass: the alerter, the stall trackers, the swaps in flight, the store of claims made.\<close>

record 's tower =
  tw_alerter :: alerter
  tw_trackers :: trackers
  tw_inflight :: "string set"
  tw_seen :: 's

record tower_log =
  lg_pages :: "page list"
  lg_sent :: "sent list"

definition silent_log :: tower_log where
  "silent_log = \<lparr>lg_pages = [], lg_sent = []\<rparr>"

definition append_log :: "tower_log \<Rightarrow> tower_log \<Rightarrow> tower_log" where
  "append_log a b = \<lparr>lg_pages = lg_pages a @ lg_pages b, lg_sent = lg_sent a @ lg_sent b\<rparr>"

definition Reconciler :: "'s reconciler \<Rightarrow> 's reconciler result" where
  "Reconciler rc = (if rc_safety rc < 0 then Err ValidationError else Ok rc)"

definition STORE :: string where "STORE = ''<records-store>''"

definition ROUTED_INTENTS :: "intent set" where
  "ROUTED_INTENTS = {PAGE_CLAIM, PAGE_REFUND, PAGE_SQUEEZED, RETIRE}"

definition safe_execute ::
  "'s reconciler \<Rightarrow> string \<Rightarrow> swap_record \<Rightarrow> decision \<Rightarrow> 's tower \<Rightarrow> exec_outcome option result \<times> 's tower \<times> sent list"
where
  "safe_execute rc swap_id rec d tw =
     (if dec_intent d \<notin> {PAGE_REFUND, PAGE_CLAIM} then (Ok None, tw, [])
      else case rc_executor rc swap_id rec d (tw_seen tw) of (r, s', l) \<Rightarrow>
        (case r of
           Inl e \<Rightarrow> (if e = CancelledError then Err e else Ok (Some FAILED), tw\<lparr>tw_seen := s'\<rparr>, l)
         | Inr oc \<Rightarrow> (Ok oc, tw\<lparr>tw_seen := s'\<rparr>, l)))"

definition safe_handle ::
  "'s reconciler \<Rightarrow> string \<Rightarrow> decision \<Rightarrow> 's tower \<Rightarrow> bool result \<times> 's tower \<times> page list"
where
  "safe_handle rc swap_id d tw =
     (case handle (rc_channel rc) swap_id d (tw_alerter tw) of (r, al, pgs) \<Rightarrow>
        (case r of
           Inl e \<Rightarrow> (if e = CancelledError then Err e else Ok False, tw\<lparr>tw_alerter := al\<rparr>, pgs)
         | Inr _ \<Rightarrow> (Ok True, tw\<lparr>tw_alerter := al\<rparr>, pgs)))"

definition investigate :: decision where
  "investigate = plain PAGE_SQUEEZED (Some ''investigate'') None False"

definition store_unreadable :: decision where
  "store_unreadable =
     plain PAGE_SQUEEZED (Some ''check the records dir exists/is mounted/readable; manually watch in-flight swaps'') None False"

definition observe_and_decide ::
  "'s reconciler \<Rightarrow> string \<Rightarrow> swap_record \<Rightarrow> 's tower \<Rightarrow> decision result \<times> 's tower"
where
  "observe_and_decide rc swap_id rec tw =
     (case observe_swap (rc_observer rc) swap_id rec (tw_trackers tw) of (r, trs) \<Rightarrow>
        (bind_r r (\<lambda>obs. decide rec obs (rc_policy rc) (rc_safety rc)), tw\<lparr>tw_trackers := trs\<rparr>))"

text \<open>The body of the guarded region; \<open>reconcile_one\<close> marks the swap before it and unmarks it after, whatever happened.\<close>

definition reconcile_body ::
  "'s reconciler \<Rightarrow> string \<Rightarrow> swap_record \<Rightarrow> 's tower \<Rightarrow> reconcile_result result \<times> 's tower \<times> tower_log"
where
  "reconcile_body rc swap_id rec tw =
     (case observe_and_decide rc swap_id rec tw of
        (Inl e, tw1) \<Rightarrow>
          if e = CancelledError then (Err e, tw1, silent_log)
          else
            (case safe_handle rc swap_id investigate tw1 of (r, tw2, pgs) \<Rightarrow>
               (bind_r r (\<lambda>delivered.
                  Ok \<lparr>rr_swap_id = swap_id, rr_decision = investigate, rr_error = Some e,
                     rr_alert_delivered = Some delivered, rr_executed = None\<rparr>), tw2, \<lparr>lg_pages = pgs, lg_sent = []\<rparr>))
      | (Inr d, tw1) \<Rightarrow>
          if dec_intent d \<in> ROUTED_INTENTS then
            (case safe_execute rc swap_id rec d tw1 of
               (Inl e, tw2, l) \<Rightarrow> (Err e, tw2, \<lparr>lg_pages = [], lg_sent = l\<rparr>)
             | (Inr executed, tw2, l) \<Rightarrow>
                 (case safe_handle rc swap_id d tw2 of (r, tw3, pgs) \<Rightarrow>
                    (bind_r r (\<lambda>delivered.
                       Ok \<lparr>rr_swap_id = swap_id, rr_decision = d, rr_error = None,
                          rr_alert_delivered = Some delivered, rr_executed = executed\<rparr>), tw3, \<lparr>lg_pages = pgs, lg_sent = l\<rparr>)))
          else
            (Ok \<lparr>rr_swap_id = swap_id, rr_decision = d, rr_error = None, rr_alert_delivered = None, rr_executed = None\<rparr>,
             tw1, silent_log))"

definition reconcile_one ::
  "'s reconciler \<Rightarrow> string \<Rightarrow> swap_record \<Rightarrow> 's tower \<Rightarrow> reconcile_result result \<times> 's tower \<times> tower_log"
where
  "reconcile_one rc swap_id rec tw =
     (if swap_id \<in> tw_inflight tw then
        (Ok \<lparr>rr_swap_id = swap_id, rr_decision = plain WATCH None None False, rr_error = None,
           rr_alert_delivered = None, rr_executed = None\<rparr>, tw, silent_log)
      else
        (case reconcile_body rc swap_id rec (tw\<lparr>tw_inflight := insert swap_id (tw_inflight tw)\<rparr>) of (r, tw', lg) \<Rightarrow>
           (r, tw'\<lparr>tw_inflight := tw_inflight tw' - {swap_id}\<rparr>, lg)))"

fun reconcile_all ::
  "'s reconciler \<Rightarrow> (string \<times> swap_record) list \<Rightarrow> 's tower \<Rightarrow> reconcile_result list result \<times> 's tower \<times> tower_log"
where
  "reconcile_all rc [] tw = (Ok [], tw, silent_log)"
| "reconcile_all rc ((swap_id, rec) # active) tw =
     (case reconcile_one rc swap_id rec tw of
        (Inl e, tw1, lg) \<Rightarrow> (Err e, tw1, lg)
      | (Inr r, tw1, lg) \<Rightarrow>
          (case reconcile_all rc active tw1 of (rs, tw2, lg') \<Rightarrow> (bind_r rs (\<lambda>xs. Ok (r # xs)), tw2, append_log lg lg')))"

type_synonym records_dir = "(string \<times> swap_record result) list option"

definition tick ::
  "'s reconciler \<Rightarrow> records_dir \<Rightarrow> 's tower \<Rightarrow> reconcile_result list result \<times> 's tower \<times> tower_log"
where
  "tick rc dir tw =
     (case list_active dir of
        Inl e \<Rightarrow>
          (case safe_handle rc STORE store_unreadable tw of (r, tw1, pgs) \<Rightarrow>
             (bind_r r (\<lambda>delivered.
                Ok [\<lparr>rr_swap_id = STORE, rr_decision = store_unreadable, rr_error = Some e,
                   rr_alert_delivered = Some delivered, rr_executed = None\<rparr>]), tw1, \<lparr>lg_pages = pgs, lg_sent = []\<rparr>))
      | Inr active \<Rightarrow> reconcile_all rc active tw)"

section \<open>The poll loop\<close>

text \<open>The numbers of the heartbeat line, and whether it is logged as an error.\<close>

record heartbeat =
  hb_iteration :: nat
  hb_swaps :: nat
  hb_paged :: nat
  hb_undelivered :: nat
  hb_broadcast :: nat
  hb_exec_failed :: nat
  hb_loud :: bool

definition default_heartbeat :: "(unit \<Rightarrow> int result) option \<Rightarrow> nat \<Rightarrow> reconcile_result list \<Rightarrow> heartbeat" where
  "default_heartbeat unacked_critical iteration results =
     (let paged = length (filter (\<lambda>r. dec_intent (rr_decision r) \<in> {PAGE_CLAIM, PAGE_REFUND, PAGE_SQUEEZED}) results);
          undelivered = length (filter (\<lambda>r. rr_alert_delivered r = Some False) results);
          broadcast = length (filter (\<lambda>r. rr_executed r = Some BROADCAST) results);
          exec_failed = length (filter (\<lambda>r. rr_executed r = Some FAILED) results);
          unacked = (case unacked_critical of
                       None \<Rightarrow> - 1
                     | Some f \<Rightarrow> (case f () of Inl e \<Rightarrow> - 1 | Inr n \<Rightarrow> n))
      in \<lparr>hb_iteration = iteration, hb_swaps = length results, hb_paged = paged, hb_undelivered = undelivered,
          hb_broadcast = broadcast, hb_exec_failed = exec_failed,
          hb_loud = (undelivered > 0 \<or> exec_failed > 0 \<or> unacked > 0)\<rparr>)"

text \<open>
  One turn of the loop as the outside shapes it: whether \<open>stop\<close> is set at its start and at its end, the
  acknowledgements the hook drains before the pass, the environment of the pass, and whether the time
  limit is what cancels it.
\<close>

record 's turn =
  tn_stop :: bool
  tn_stop_after :: bool
  tn_acks :: "string list"
  tn_reconciler :: "'s reconciler"
  tn_dir :: records_dir
  tn_timeout :: bool

definition check_run_loop :: "rat \<Rightarrow> int option \<Rightarrow> rat option \<Rightarrow> unit result" where
  "check_run_loop interval max_iterations tick_timeout =
     (if interval < 0 then Err ValidationError
      else if (case max_iterations of None \<Rightarrow> False | Some m \<Rightarrow> m < 0) then Err ValidationError
      else if (case tick_timeout of None \<Rightarrow> False | Some t \<Rightarrow> t \<le> 0) then Err ValidationError
      else Ok ())"

definition drain_acks :: "string list \<Rightarrow> 's tower \<Rightarrow> 's tower" where
  "drain_acks ids tw = tw\<lparr>tw_alerter := fold (\<lambda>i al. snd (ack i al)) ids (tw_alerter tw)\<rparr>"

text \<open>The turns end where \<open>stop\<close> is set; the beats carry the results of the pass.\<close>

fun run_loop ::
  "int option \<Rightarrow> nat \<Rightarrow> 's turn list \<Rightarrow> 's tower \<Rightarrow> nat result \<times> 's tower \<times> (nat \<times> reconcile_result list) list \<times> tower_log"
where
  "run_loop mx n [] tw = (Ok n, tw, [], silent_log)"
| "run_loop mx n (t # ts) tw =
     (if tn_stop t \<or> (case mx of None \<Rightarrow> False | Some m \<Rightarrow> m \<le> int n) then (Ok n, tw, [], silent_log)
      else
        (case tick (tn_reconciler t) (tn_dir t) (drain_acks (tn_acks t) tw) of (r, tw1, lg) \<Rightarrow>
           (case r of
              Inl e \<Rightarrow>
                if tn_timeout t then
                  (if tn_stop_after t \<or> (case mx of None \<Rightarrow> False | Some m \<Rightarrow> m \<le> int (Suc n)) then (Ok (Suc n), tw1, [], lg)
                   else
                     (case run_loop mx (Suc n) ts tw1 of (k, tw2, bs, lg') \<Rightarrow> (k, tw2, bs, append_log lg lg')))
                else (Err e, tw1, [], lg)
            | Inr results \<Rightarrow>
                if tn_stop_after t \<or> (case mx of None \<Rightarrow> False | Some m \<Rightarrow> m \<le> int (Suc n))
                then (Ok (Suc n), tw1, [(Suc n, results)], lg)
                else
                  (case run_loop mx (Suc n) ts tw1 of (k, tw2, bs, lg') \<Rightarrow>
                     (k, tw2, (Suc n, results) # bs, append_log lg lg')))))"

section \<open>What a pass promises\<close>

lemmas log_sel [simp] = silent_log_def append_log_def

lemma safe_handle_cases:
  "safe_handle rc sid d tw = (r, tw', pgs) \<Longrightarrow>
     (\<exists>b. r = Ok b) \<or> r = Err CancelledError"
  by (auto simp: safe_handle_def split: sum.splits if_splits prod.splits)

lemma safe_handle_keeps:
  "safe_handle rc sid d tw = (r, tw', pgs) \<Longrightarrow> tw_inflight tw' = tw_inflight tw \<and> tw_seen tw' = tw_seen tw \<and> tw_trackers tw' = tw_trackers tw"
  by (auto simp: safe_handle_def split: sum.splits prod.splits)

lemma safe_execute_keeps:
  "safe_execute rc sid rec d tw = (r, tw', l) \<Longrightarrow>
     tw_inflight tw' = tw_inflight tw \<and> tw_alerter tw' = tw_alerter tw \<and> ((\<exists>oc. r = Ok oc) \<or> r = Err CancelledError)"
  by (auto simp: safe_execute_def split: sum.splits prod.splits if_splits)

lemma observe_and_decide_keeps:
  "observe_and_decide rc sid rec tw = (r, tw') \<Longrightarrow>
     tw_inflight tw' = tw_inflight tw \<and> tw_alerter tw' = tw_alerter tw \<and> tw_seen tw' = tw_seen tw"
  by (auto simp: observe_and_decide_def split: prod.splits)

text \<open>A result tells whether its decision reached the alerter: every routed one did, and an error is routed.\<close>

definition told :: "reconcile_result \<Rightarrow> bool" where
  "told r \<longleftrightarrow> (dec_intent (rr_decision r) \<in> ROUTED_INTENTS \<longleftrightarrow> rr_alert_delivered r \<noteq> None)
     \<and> (rr_error r \<noteq> None \<longrightarrow> dec_intent (rr_decision r) = PAGE_SQUEEZED)
     \<and> (rr_executed r \<noteq> None \<longrightarrow> dec_intent (rr_decision r) \<in> {PAGE_REFUND, PAGE_CLAIM})"

lemma told_investigate [simp]:
  "told \<lparr>rr_swap_id = i, rr_decision = investigate, rr_error = e, rr_alert_delivered = Some b, rr_executed = None\<rparr>"
  "told \<lparr>rr_swap_id = i, rr_decision = store_unreadable, rr_error = e, rr_alert_delivered = Some b, rr_executed = None\<rparr>"
  by (simp_all add: told_def investigate_def store_unreadable_def ROUTED_INTENTS_def)

lemma safe_execute_intent:
  "safe_execute rc sid rec d tw = (Ok (Some oc), tw', l) \<Longrightarrow> dec_intent d \<in> {PAGE_REFUND, PAGE_CLAIM}"
  by (auto simp: safe_execute_def split: if_splits)

lemma reconcile_body_ok:
  assumes "reconcile_body rc sid rec tw = (r, tw', lg)"
  shows "tw_inflight tw' = tw_inflight tw
    \<and> (r = Err CancelledError \<or> (\<exists>x. r = Ok x \<and> rr_swap_id x = sid \<and> told x))"
proof -
  obtain dr tw1 where d: "observe_and_decide rc sid rec tw = (dr, tw1)" by fastforce
  note k = observe_and_decide_keeps [OF d]
  show ?thesis
  proof (cases dr)
    case (Inl e)
    obtain b tw2 pgs where h: "safe_handle rc sid investigate tw1 = (b, tw2, pgs)" by (cases "safe_handle rc sid investigate tw1")
    from safe_handle_cases [OF h] safe_handle_keeps [OF h] assms d Inl h k show ?thesis
      by (auto simp: reconcile_body_def split: if_splits)
  next
    case (Inr dec)
    obtain oc tw2 l where x: "safe_execute rc sid rec dec tw1 = (oc, tw2, l)" by (cases "safe_execute rc sid rec dec tw1")
    obtain b tw3 pgs where h: "safe_handle rc sid dec tw2 = (b, tw3, pgs)" by (cases "safe_handle rc sid dec tw2")
    from safe_handle_cases [OF h] safe_handle_keeps [OF h] safe_execute_keeps [OF x] assms d Inr h x k
      safe_execute_intent [of rc sid rec dec tw1 _ tw2 l]
    show ?thesis
      by (auto simp: reconcile_body_def told_def split: if_splits)
  qed
qed

lemma reconcile_one_ok:
  assumes "reconcile_one rc sid rec tw = (r, tw', lg)"
  shows "tw_inflight tw' = tw_inflight tw
    \<and> (r = Err CancelledError \<or> (\<exists>x. r = Ok x \<and> rr_swap_id x = sid \<and> told x))"
proof (cases "sid \<in> tw_inflight tw")
  case True
  with assms show ?thesis by (auto simp: reconcile_one_def told_def ROUTED_INTENTS_def)
next
  case False
  obtain r' tw1 lg' where b: "reconcile_body rc sid rec (tw\<lparr>tw_inflight := insert sid (tw_inflight tw)\<rparr>) = (r', tw1, lg')"
    by (cases "reconcile_body rc sid rec (tw\<lparr>tw_inflight := insert sid (tw_inflight tw)\<rparr>)")
  from reconcile_body_ok [OF b] assms False b show ?thesis by (auto simp: reconcile_one_def)
qed

lemma reconcile_all_ok:
  "reconcile_all rc active tw = (r, tw', lg) \<Longrightarrow>
     tw_inflight tw' = tw_inflight tw
     \<and> (r = Err CancelledError \<or> (\<exists>rs. r = Ok rs \<and> map rr_swap_id rs = map fst active \<and> (\<forall>x\<in>set rs. told x)))"
proof (induction active arbitrary: tw r tw' lg)
  case (Cons a active)
  obtain sid rec where a: "a = (sid, rec)" by (cases a)
  obtain r1 tw1 lg1 where o: "reconcile_one rc sid rec tw = (r1, tw1, lg1)" by (cases "reconcile_one rc sid rec tw")
  obtain r2 tw2 lg2 where t: "reconcile_all rc active tw1 = (r2, tw2, lg2)" by (cases "reconcile_all rc active tw1")
  from reconcile_one_ok [OF o] Cons.IH [OF t] Cons.prems a o t show ?case by auto
qed simp

lemma tick_ok:
  assumes "tick rc dir tw = (r, tw', lg)"
  shows "tw_inflight tw' = tw_inflight tw
    \<and> (r = Err CancelledError
       \<or> (\<exists>rs. r = Ok rs \<and> (\<forall>x\<in>set rs. told x)
            \<and> map rr_swap_id rs = (case list_active dir of Inl e \<Rightarrow> [STORE] | Inr active \<Rightarrow> map fst active)))"
proof (cases "list_active dir")
  case (Inl e)
  obtain b tw1 pgs where h: "safe_handle rc STORE store_unreadable tw = (b, tw1, pgs)" by (cases "safe_handle rc STORE store_unreadable tw")
  from safe_handle_cases [OF h] safe_handle_keeps [OF h] assms Inl h show ?thesis by (auto simp: tick_def)
next
  case (Inr active)
  with assms reconcile_all_ok [of rc active tw r tw' lg] show ?thesis by (auto simp: tick_def)
qed

text \<open>C28: A pass of the tower answers for every swap: unless it is cancelled it never raises, whatever the
  directory, the sources, the executor and the channel do; it returns one result for each active
  swap, in order, or a single one that pages that the records cannot be read; an error of a swap is
  paged; and a decision to page is handed to the alerter whatever the executor did before. The set
  of swaps in flight is as before, also after a cancellation.\<close>

theorem tick_answers_for_every_swap:
  assumes "tick rc dir tw = (r, tw', lg)"
  shows "tw_inflight tw' = tw_inflight tw
    \<and> (r = Err CancelledError
       \<or> (\<exists>rs. r = Ok rs \<and> (\<forall>x\<in>set rs. told x)
            \<and> map rr_swap_id rs = (case list_active dir of Inl e \<Rightarrow> [STORE] | Inr active \<Rightarrow> map fst active)))"
  using assms by (rule tick_ok)

text \<open>The tower with both executors behind it.\<close>

definition both :: "refund_executor \<Rightarrow> 's claim_executor \<Rightarrow> 's executor" where
  "both rx cx = composite_execute [refund_execute rx, claim_execute cx]"

definition sent_safely :: "'s reconciler \<Rightarrow> refund_executor \<Rightarrow> 's claim_executor \<Rightarrow> string \<Rightarrow> swap_record \<Rightarrow> sent \<Rightarrow> bool" where
  "sent_safely rc rx cx sid rec x \<longleftrightarrow>
     (\<exists>trs obs trs'. observe_swap (rc_observer rc) sid rec trs = (Ok obs, trs')
        \<and> ((\<exists>raw n. x = SentRefund sid raw \<and> refund_bound rx rec raw \<and> \<not> revealed_to rec obs
              \<and> btc_funding_confirmations obs = Some n \<and> tl_unit (t_btc (sr_terms rec)) = BLOCKS
              \<and> tl_value (t_btc (sr_terms rec)) \<le> n)
           \<or> (\<exists>outpoint p locked. x = SentClaim sid outpoint rec p \<and> claim_evidenced cx rec p \<and> value_capped cx (sr_terms rec)
              \<and> revealed_to rec obs \<and> counter_final (rc_policy rc) rec obs \<and> asset_locked_at_height obs = Some locked
              \<and> watch_window (rc_policy rc) rec (watch_left (rc_policy rc) rec locked obs))))"

lemma both_sent:
  assumes "both rx cx sid rec d s = (r, s', l)" "x \<in> set l"
  shows "(\<exists>r1 s1 l1. refund_execute rx sid rec d s = (r1, s1, l1) \<and> x \<in> set l1)
    \<or> (\<exists>s0 r1 s1 l1. claim_execute cx sid rec d s0 = (r1, s1, l1) \<and> x \<in> set l1)"
proof -
  obtain r1 s1 l1 where a: "refund_execute rx sid rec d s = (r1, s1, l1)" by (cases "refund_execute rx sid rec d s")
  obtain r2 s2 l2 where b: "claim_execute cx sid rec d s1 = (r2, s2, l2)" by (cases "claim_execute cx sid rec d s1")
  from assms a b show ?thesis
    by (cases r1; cases "projr r1"; cases r2; cases "projr r2") (auto simp: both_def)
qed

lemma reconcile_one_sent:
  assumes "MarginPolicy q = Ok (rc_policy rc)" "MarginPolicy q' = Ok (cx_policy cx)" "rc_executor rc = both rx cx"
    "reconcile_one rc sid rec tw = (r, tw', lg)" "x \<in> set (lg_sent lg)"
  shows "sent_safely rc rx cx sid rec x"
proof -
  let ?tw = "tw\<lparr>tw_inflight := insert sid (tw_inflight tw)\<rparr>"
  obtain r0 tw0 where b: "reconcile_body rc sid rec ?tw = (r0, tw0, lg)"
    using assms(4,5) by (cases "reconcile_body rc sid rec ?tw") (auto simp: reconcile_one_def split: if_splits)
  obtain dr tw1 where od: "observe_and_decide rc sid rec ?tw = (dr, tw1)" by fastforce
  with b assms(5) obtain d where d: "dr = Ok d"
    by (cases dr) (auto simp: reconcile_body_def split: if_splits prod.splits)
  obtain oc tw2 l where x: "safe_execute rc sid rec d tw1 = (oc, tw2, l)" by (cases "safe_execute rc sid rec d tw1")
  with b od d assms(5) have xl: "x \<in> set l"
    by (auto simp: reconcile_body_def split: if_splits prod.splits sum.splits)
  obtain obs trs' where o: "observe_swap (rc_observer rc) sid rec (tw_trackers ?tw) = (Ok obs, trs')"
    and dec: "decide rec obs (rc_policy rc) (rc_safety rc) = Ok d"
    using od d by (auto simp: observe_and_decide_def bind_r_Ok_iff split: prod.splits)
  obtain r1 s1 where ex: "both rx cx sid rec d (tw_seen tw1) = (r1, s1, l)"
    using x xl assms(3) by (cases "both rx cx sid rec d (tw_seen tw1)") (auto simp: safe_execute_def split: if_splits sum.splits)
  from both_sent [OF ex xl] show ?thesis
  proof (elim disjE exE conjE)
    fix r1 s1 l1 assume "refund_execute rx sid rec d (tw_seen tw1) = (r1, s1, l1)" "x \<in> set l1"
    from refund_execute_bound [OF this] decide_autonomy [OF assms(1) dec] o show ?thesis
      unfolding sent_safely_def by blast
  next
    fix s0 r1 s1 l1 assume "claim_execute cx sid rec d s0 = (r1, s1, l1)" "x \<in> set l1"
    from claim_execute_gated [OF assms(2) this] decide_autonomy [OF assms(1) dec] o show ?thesis
      unfolding sent_safely_def by blast
  qed
qed

lemma reconcile_all_sent:
  assumes "MarginPolicy q = Ok (rc_policy rc)" "MarginPolicy q' = Ok (cx_policy cx)" "rc_executor rc = both rx cx"
  shows "reconcile_all rc active tw = (r, tw', lg) \<Longrightarrow> x \<in> set (lg_sent lg) \<Longrightarrow> \<exists>(sid, rec)\<in>set active. sent_safely rc rx cx sid rec x"
proof (induction active arbitrary: tw r tw' lg)
  case (Cons a active)
  obtain sid rec where a: "a = (sid, rec)" by (cases a)
  obtain r1 tw1 lg1 where o: "reconcile_one rc sid rec tw = (r1, tw1, lg1)" by (cases "reconcile_one rc sid rec tw")
  obtain r2 tw2 lg2 where t: "reconcile_all rc active tw1 = (r2, tw2, lg2)" by (cases "reconcile_all rc active tw1")
  from Cons.prems a o t have "x \<in> set (lg_sent lg1) \<or> x \<in> set (lg_sent lg2)" by (auto split: sum.splits)
  then show ?case
  proof
    assume "x \<in> set (lg_sent lg1)"
    from reconcile_one_sent [OF assms o this] a show ?thesis by auto
  next
    assume "x \<in> set (lg_sent lg2)"
    from Cons.IH [OF t this] show ?thesis by auto
  qed
qed simp


section \<open>What the loop promises\<close>

text \<open>The passes of a run, one after the other.\<close>

fun passes :: "'s turn list \<Rightarrow> 's tower \<Rightarrow> reconcile_result list result list" where
  "passes [] tw = []"
| "passes (t # ts) tw =
     (case tick (tn_reconciler t) (tn_dir t) (drain_acks (tn_acks t) tw) of (r, tw1, lg) \<Rightarrow> r # passes ts tw1)"

fun beats_of :: "nat \<Rightarrow> reconcile_result list result list \<Rightarrow> (nat \<times> reconcile_result list) list" where
  "beats_of n [] = []"
| "beats_of n (r # rs) = (case r of Inl e \<Rightarrow> [] | Inr xs \<Rightarrow> [(Suc n, xs)]) @ beats_of (Suc n) rs"

lemma passes_told: "r \<in> set (passes ts tw) \<Longrightarrow> r = Err CancelledError \<or> (\<exists>rs. r = Ok rs \<and> (\<forall>x\<in>set rs. told x))"
proof (induction ts arbitrary: tw)
  case (Cons t ts)
  obtain r1 tw1 lg where t: "tick (tn_reconciler t) (tn_dir t) (drain_acks (tn_acks t) tw) = (r1, tw1, lg)"
    by (cases "tick (tn_reconciler t) (tn_dir t) (drain_acks (tn_acks t) tw)")
  from tick_ok [OF t] Cons t show ?case by auto
qed simp

text \<open>The loop beats exactly for the passes that saw the chains: with a time limit on every pass and no
  order to stop, it runs every turn, gives a beat with the results and the number of the pass for
  each pass that completed, none for a pass that hung, and no pass ends in any other way.\<close>

theorem loop_beats_iff_observed:
  assumes "\<forall>t\<in>set ts. \<not> tn_stop t \<and> \<not> tn_stop_after t \<and> tn_timeout t"
  shows "(\<exists>tw' lg. run_loop None n ts tw = (Ok (n + length ts), tw', beats_of n (passes ts tw), lg))
    \<and> (\<forall>r\<in>set (passes ts tw). r = Err CancelledError \<or> (\<exists>rs. r = Ok rs \<and> (\<forall>x\<in>set rs. told x)))"
proof -
  have "\<exists>tw' lg. run_loop None n ts tw = (Ok (n + length ts), tw', beats_of n (passes ts tw), lg)"
    using assms
  proof (induction ts arbitrary: n tw)
    case (Cons t ts)
    obtain r1 tw1 lg where t: "tick (tn_reconciler t) (tn_dir t) (drain_acks (tn_acks t) tw) = (r1, tw1, lg)"
      by (cases "tick (tn_reconciler t) (tn_dir t) (drain_acks (tn_acks t) tw)")
    have ts: "\<forall>t\<in>set ts. \<not> tn_stop t \<and> \<not> tn_stop_after t \<and> tn_timeout t"
      and "\<not> tn_stop t" "\<not> tn_stop_after t" "tn_timeout t" using Cons.prems by simp_all
    moreover obtain tw2 lg2
      where "run_loop None (Suc n) ts tw1 = (Ok (Suc n + length ts), tw2, beats_of (Suc n) (passes ts tw1), lg2)"
      using Cons.IH [OF ts] by blast
    ultimately show ?case using t by (cases r1) simp_all
  qed simp
  with passes_told [of _ ts tw] show ?thesis by auto
qed

section \<open>An example\<close>

definition example_dir :: records_dir where
  "example_dir = Some [(''x.claim.json'', Err OtherError), (''x.json'', Ok watched_record), (''y.json'', Err OtherError)]"

definition example_tower :: "bytes set tower" where
  "example_tower =
     \<lparr>tw_alerter = \<lparr>last_intent = Map.empty, critical_ticks = Map.empty, acked = Map.empty, repage_every = 1\<rparr>,
      tw_trackers = Map.empty, tw_inflight = {}, tw_seen = {}\<rparr>"

definition example_reconciler :: "bool \<Rightarrow> bytes set reconciler" where
  "example_reconciler working =
     \<lparr>rc_observer = example_observer two_sources True,
      rc_channel = (\<lambda>_. if working then Ok () else Err NetworkError), rc_policy = example_policy, rc_safety = 6,
      rc_executor = both example_refunder (example_claimer (seen_ops_of mem_has_seen mem_mark_seen))\<rparr>"

lemma example_active: "list_active example_dir = Ok [(''x'', watched_record)]"
  by (simp add: list_active_def example_dir_def record_file_def ends_with_def path_stem_def watched_record_sel locked_record_sel is_ok_def)

lemma example_tick:
  "\<exists>tw lg. tick (example_reconciler working) example_dir example_tower =
      (Ok [\<lparr>rr_swap_id = ''x'', rr_decision = example_page, rr_error = None, rr_alert_delivered = Some working,
            rr_executed = Some BROADCAST\<rparr>], tw, lg)
    \<and> SentClaim ''x'' ''c:0'' watched_record (replicate 32 9) \<in> set (lg_sent lg)"
proof -
  let ?tw = "example_tower\<lparr>tw_inflight := {''x''}\<rparr>"
  have w: "sr_terms watched_record = example_terms" "counterchain_locator watched_record = Some (BtcLoc example_locator)"
    using locked_record_terms by (simp_all add: watched_record_def)
  have od: "observe_and_decide (example_reconciler working) ''x'' watched_record ?tw = (Ok example_page, ?tw)"
    by (simp add: observe_and_decide_def example_reconciler_def example_observed [simplified] example_decided example_tower_def)
  have d: "dec_intent example_page = PAGE_CLAIM" "\<not> autonomous_btc_refund example_page"
    by (simp_all add: example_page_def)
  have x: "safe_execute (example_reconciler working) ''x'' watched_record example_page ?tw =
      (Ok (Some BROADCAST), ?tw\<lparr>tw_seen := {claim_key ''c:0''}\<rparr>, [SentClaim ''x'' ''c:0'' watched_record (replicate 32 9)])"
    by (simp add: safe_execute_def example_reconciler_def both_def refund_execute_def refund_authorize_def d example_tower_def
        example_claim_of [OF w] del: replicate.simps replicate_Suc)
  have h: "\<exists>tw pgs. safe_handle (example_reconciler working) ''x'' example_page (?tw\<lparr>tw_seen := {claim_key ''c:0''}\<rparr>) = (Ok working, tw, pgs)"
    by (simp add: safe_handle_def handle_def send_page_def d example_reconciler_def example_tower_def)
  have i: "tw_inflight example_tower = {}" by (simp add: example_tower_def)
  show ?thesis
    using h by (auto simp: tick_def example_active reconcile_one_def reconcile_body_def od x d i ROUTED_INTENTS_def
        simp del: replicate.simps replicate_Suc)
qed

theorem tick_answers_for_every_swap_witness:
  "(\<exists>tw lg x. tick (example_reconciler False) example_dir example_tower = (Ok [x], tw, lg) \<and> rr_swap_id x = ''x'' \<and> told x
      \<and> rr_alert_delivered x = Some False)
   \<and> (\<exists>tw lg x. tick (example_reconciler True) None example_tower = (Ok [x], tw, lg) \<and> rr_swap_id x = STORE \<and> told x)"
proof
  from example_tick [of False] obtain x tw lg where t: "tick (example_reconciler False) example_dir example_tower = (Ok [x], tw, lg)"
    and x: "rr_alert_delivered x = Some False" by auto
  from tick_answers_for_every_swap [OF t] t x
  show "\<exists>tw lg x. tick (example_reconciler False) example_dir example_tower = (Ok [x], tw, lg) \<and> rr_swap_id x = ''x'' \<and> told x
      \<and> rr_alert_delivered x = Some False"
    by (auto simp: example_active)
  have "\<exists>tw lg x. tick (example_reconciler True) None example_tower = (Ok [x], tw, lg)"
    by (simp add: tick_def list_active_def safe_handle_def handle_def send_page_def store_unreadable_def example_reconciler_def example_tower_def)
  then obtain x tw lg where t: "tick (example_reconciler True) None example_tower = (Ok [x], tw, lg)" by blast
  from tick_answers_for_every_swap [OF t] t
  show "\<exists>tw lg x. tick (example_reconciler True) None example_tower = (Ok [x], tw, lg) \<and> rr_swap_id x = STORE \<and> told x"
    by (auto simp: list_active_def)
qed


definition example_turn :: "bool \<Rightarrow> bytes set turn" where
  "example_turn hangs =
     \<lparr>tn_stop = False, tn_stop_after = False, tn_acks = [],
      tn_reconciler = (example_reconciler True)\<lparr>rc_channel := (\<lambda>_. if hangs then Err CancelledError else Ok ())\<rparr>,
      tn_dir = None, tn_timeout = True\<rparr>"

theorem loop_beats_iff_observed_witness:
  "\<exists>tw lg xs. run_loop None 0 [example_turn True, example_turn False] example_tower = (Ok 2, tw, [(2, xs)], lg)"
proof -
  have hang: "tick (tn_reconciler (example_turn True)) None example_tower = (Err CancelledError, example_tower, \<lparr>lg_pages = [], lg_sent = []\<rparr>)"
    by (simp add: example_turn_def tick_def list_active_def safe_handle_def handle_def send_page_def store_unreadable_def example_tower_def)
  have run: "\<exists>xs tw lg. tick (tn_reconciler (example_turn False)) None example_tower = (Ok xs, tw, lg)"
    by (simp add: example_turn_def tick_def list_active_def safe_handle_def handle_def send_page_def store_unreadable_def example_tower_def)
  have e: "tn_dir (example_turn h) = None" "tn_acks (example_turn h) = []" "drain_acks [] tw = tw" for h and tw :: "bytes set tower"
    by (simp_all add: example_turn_def drain_acks_def)
  have "\<exists>xs. passes [example_turn True, example_turn False] example_tower = [Err CancelledError, Ok xs]"
    using run by (auto simp: e hang)
  then obtain xs where p: "passes [example_turn True, example_turn False] example_tower = [Err CancelledError, Ok xs]" by blast
  have "\<forall>t\<in>set [example_turn True, example_turn False]. \<not> tn_stop t \<and> \<not> tn_stop_after t \<and> tn_timeout t"
    by (simp add: example_turn_def)
  from loop_beats_iff_observed [OF this, of 0 example_tower] p show ?thesis by auto
qed

end
