(* ===== verification/Script.thy ===== *)
theory Script
  imports Credential
begin

text \<open>
  Scripts as the wallet builds and reads them: the push and integer encoders of \<open>pyrxd/utils.py\<close> and
  the chunk reader of \<open>pyrxd/script/script.py\<close>. A \<open>Script\<close> is its bytes; its chunks are computed from
  them when it is made. The assembly notation of scripts is not modelled.
\<close>

section \<open>Encoding pushes\<close>

definition get_pushdata_code :: "nat \<Rightarrow> bytes result" where
  "get_pushdata_code byte_length =
     (if byte_length \<le> 0x4B then Ok (le_bytes 1 byte_length)
      else if byte_length \<le> 0xFF then Ok (0x4C # le_bytes 1 byte_length)
      else if byte_length \<le> 0xFFFF then Ok (0x4D # le_bytes 2 byte_length)
      else if byte_length \<le> 0xFFFFFFFF then Ok (0x4E # le_bytes 4 byte_length)
      else Err ValueError)"

definition encode_pushdata :: "bytes \<Rightarrow> bool \<Rightarrow> bytes result" where
  "encode_pushdata pushdata minimal_push =
     (let plain = bind_r (get_pushdata_code (length pushdata)) (\<lambda>code. Ok (code @ pushdata)) in
      if minimal_push then
        (if pushdata = [] then Ok [0x00]
         else if length pushdata = 1 \<and> 1 \<le> unat (hd pushdata) \<and> unat (hd pushdata) \<le> 16
           then Ok [0x51 + hd pushdata - 1]
         else if length pushdata = 1 \<and> hd pushdata = 0x81 then Ok [0x4F]
         else plain)
      else if pushdata = [] then Err ValidationError
      else plain)"

text \<open>\<open>math.ceil(num.bit_length() / 8) or 1\<close> is the number of base-256 digits, at least one.\<close>

fun byte_digits :: "nat \<Rightarrow> nat" where
  "byte_digits n = (if n < 256 then 1 else Suc (byte_digits (n div 256)))"

declare byte_digits.simps [simp del]

definition unsigned_to_bytes :: "nat \<Rightarrow> bool \<Rightarrow> bytes" where
  "unsigned_to_bytes num big = (if big then be_bytes (byte_digits num) num else le_bytes (byte_digits num) num)"

definition encode_int :: "int \<Rightarrow> bytes result" where
  "encode_int num =
     (if num = 0 then Ok [0x00]
      else
        let negative = num < 0;
            octets = unsigned_to_bytes (nat \<bar>num\<bar>) False;
            octets = (if unat (last octets) \<ge> 0x80 then octets @ [0x00] else octets);
            octets = (if negative then butlast octets @ [word_of_nat (unat (last octets) + 0x80)] else octets)
        in encode_pushdata octets True)"

section \<open>Chunks\<close>

record chunk =
  ch_op :: byte
  ch_data :: "bytes option"

fun build_chunks :: "bytes \<Rightarrow> chunk list" where
  "build_chunks [] = []"
| "build_chunks (op # rest) =
     (if is_direct_push op then
        \<lparr>ch_op = op, ch_data = Some (take (unat op) rest)\<rparr> # build_chunks (drop (unat op) rest)
      else if op = 0x4C then
        (if rest = [] then [\<lparr>ch_op = op, ch_data = None\<rparr>]
         else \<lparr>ch_op = op, ch_data = Some (take (unat (rest ! 0)) (drop 1 rest))\<rparr>
           # build_chunks (drop (1 + unat (rest ! 0)) rest))
      else if op = 0x4D then
        (if rest = [] then [\<lparr>ch_op = op, ch_data = None\<rparr>]
         else \<lparr>ch_op = op, ch_data = Some (take (le_val (take 2 rest)) (drop 2 rest))\<rparr>
           # build_chunks (drop (2 + le_val (take 2 rest)) rest))
      else if op = 0x4E then
        (if rest = [] then [\<lparr>ch_op = op, ch_data = None\<rparr>]
         else \<lparr>ch_op = op, ch_data = Some (take (le_val (take 4 rest)) (drop 4 rest))\<rparr>
           # build_chunks (drop (4 + le_val (take 4 rest)) rest))
      else \<lparr>ch_op = op, ch_data = None\<rparr> # build_chunks rest)"

definition is_push_only :: "bytes \<Rightarrow> bool" where
  "is_push_only script \<longleftrightarrow> list_all (\<lambda>c. unat (ch_op c) \<le> 0x60) (build_chunks script)"

definition chunk_bytes :: "chunk \<Rightarrow> bytes result" where
  "chunk_bytes c = (case ch_data c of None \<Rightarrow> Ok [ch_op c] | Some d \<Rightarrow> encode_pushdata d True)"

definition from_chunks :: "chunk list \<Rightarrow> bytes result" where
  "from_chunks cs = bind_r (map_r chunk_bytes cs) (\<lambda>bss. Ok (concat bss))"

definition find_and_delete :: "bytes \<Rightarrow> bytes \<Rightarrow> bytes result" where
  "find_and_delete source pat =
     bind_r (map_r chunk_bytes (build_chunks source)) (\<lambda>bss. Ok (concat (filter (\<lambda>bs. bs \<noteq> pat) bss)))"

definition write_bin :: "bytes \<Rightarrow> bytes result" where
  "write_bin octets = encode_pushdata octets True"

section \<open>Push encodings\<close>

lemma byte_digits_pos: "0 < byte_digits n"
  by (subst byte_digits.simps) simp

lemma byte_digits_bounds: "n < 256 ^ byte_digits n \<and> (256 \<le> n \<longrightarrow> 256 ^ (byte_digits n - 1) \<le> n)"
proof (induction n rule: byte_digits.induct)
  case (1 n)
  show ?case
  proof (cases "n < 256")
    case True
    then show ?thesis by (simp add: byte_digits.simps [of n])
  next
    case False
    with 1 have ih: "n div 256 < 256 ^ byte_digits (n div 256)"
      "256 \<le> n div 256 \<longrightarrow> 256 ^ (byte_digits (n div 256) - 1) \<le> n div 256" by simp_all
    have e: "byte_digits n = Suc (byte_digits (n div 256))" using False by (simp add: byte_digits.simps [of n])
    have lo: "256 ^ (byte_digits (n div 256) - 1) \<le> n div 256"
    proof (cases "n div 256 < 256")
      case True
      then have "byte_digits (n div 256) = 1" by (simp add: byte_digits.simps [of "n div 256"])
      moreover from False have "1 \<le> n div 256" by (simp add: less_eq_div_iff_mult_less_eq)
      ultimately show ?thesis by simp
    qed (use ih in simp)
    have "n < 256 * 256 ^ byte_digits (n div 256)" using ih(1) by (simp add: div_less_iff_less_mult mult.commute)
    moreover have "256 ^ byte_digits (n div 256) \<le> n"
    proof -
      have "256 ^ byte_digits (n div 256) = 256 * 256 ^ (byte_digits (n div 256) - 1)"
        using byte_digits_pos [of "n div 256"] by (cases "byte_digits (n div 256)") simp_all
      also have "\<dots> \<le> 256 * (n div 256)" using lo by simp
      also have "\<dots> \<le> n" by simp
      finally show ?thesis .
    qed
    ultimately show ?thesis by (simp add: e)
  qed
qed

text \<open>The value the interpreter reads off a pushed byte string: little-endian, the top bit is the sign.\<close>

definition script_num :: "bytes \<Rightarrow> int" where
  "script_num bs =
     (if bs = [] then 0
      else let m = int (le_val bs); s = 128 * 256 ^ (length bs - 1) in if s \<le> m then - (m - s) else m)"

text \<open>What a chunk leaves on the stack.\<close>

definition pushed :: "chunk \<Rightarrow> bytes option" where
  "pushed c =
     (case ch_data c of
        Some d \<Rightarrow> Some d
      | None \<Rightarrow>
          if ch_op c = 0x00 then Some []
          else if ch_op c = 0x4F then Some [0x81]
          else if 0x51 \<le> unat (ch_op c) \<and> unat (ch_op c) \<le> 0x60 then Some [ch_op c - 0x50]
          else None)"


lemma push_code_parses:
  assumes "get_pushdata_code (length d) = Ok code" "d \<noteq> []"
  shows "build_chunks (code @ d @ s) = \<lparr>ch_op = hd code, ch_data = Some d\<rparr> # build_chunks s"
proof -
  consider "length d \<le> 0x4B" | "0x4B < length d" "length d \<le> 0xFF" | "0xFF < length d" "length d \<le> 0xFFFF"
    | "0xFFFF < length d" "length d \<le> 0xFFFFFFFF"
    using assms(1) by (auto simp: get_pushdata_code_def split: if_splits)
  then show ?thesis
  proof cases
    case 1
    then have u: "unat (word_of_nat (length d) :: byte) = length d" by (simp add: unat_word_of_nat_byte)
    with 1 assms(2) have "is_direct_push (word_of_nat (length d))" by (simp add: is_direct_push_def Suc_le_eq)
    moreover from 1 assms have "code = [word_of_nat (length d)]" by (simp add: get_pushdata_code_def)
    ultimately show ?thesis using u by simp
  next
    case 2
    then have u: "unat (word_of_nat (length d) :: byte) = length d" by (simp add: unat_word_of_nat_byte)
    from 2 assms have c: "code = [0x4C, word_of_nat (length d)]" by (simp add: get_pushdata_code_def)
    show ?thesis using u by (simp add: c is_direct_push_def)
  next
    case 3
    with assms have c: "code = 0x4D # le_bytes 2 (length d)" by (simp add: get_pushdata_code_def)
    have l: "le_val (le_bytes 2 (length d)) = length d" using 3 by (simp add: le_val_le_bytes)
    show ?thesis using l 3 assms(2) by (simp add: c is_direct_push_def del: le_bytes.simps)
  next
    case 4
    with assms have c: "code = 0x4E # le_bytes 4 (length d)" by (simp add: get_pushdata_code_def)
    have l: "le_val (le_bytes 4 (length d)) = length d" using 4 by (simp add: le_val_le_bytes)
    show ?thesis using l 4 assms(2) by (simp add: c is_direct_push_def del: le_bytes.simps)
  qed
qed

lemma encode_pushdata_cases:
  assumes "encode_pushdata d True = Ok enc"
  obtains "d = []" "enc = [0x00]"
    | b where "d = [b]" "1 \<le> unat b" "unat b \<le> 16" "enc = [0x50 + b]"
    | "d = [0x81]" "enc = [0x4F]"
    | code where "get_pushdata_code (length d) = Ok code" "d \<noteq> []" "enc = code @ d"
  using assms
  by (cases d) (auto simp: encode_pushdata_def Let_def bind_r_Ok_iff split: if_splits)

text \<open>What is pushed is what was to be pushed.\<close>

lemma encode_pushdata_pushes:
  assumes "encode_pushdata d True = Ok enc"
  shows "\<exists>c. build_chunks (enc @ s) = c # build_chunks s \<and> pushed c = Some d"
  using assms
proof (cases rule: encode_pushdata_cases)
  case (2 b)
  then have u: "unat (0x50 + b) = 0x50 + unat b" by (simp add: unat_word_ariths)
  with 2 have "\<not> is_direct_push (0x50 + b)" "0x50 + b \<noteq> 0x4C" "0x50 + b \<noteq> 0x4D" "0x50 + b \<noteq> 0x4E"
    "0x50 + b \<noteq> 0" "0x50 + b \<noteq> 0x4F"
    by (auto simp: is_direct_push_def word_unat_eq_iff)
  with 2 u show ?thesis by (simp add: pushed_def)
next
  case (4 code)
  with push_code_parses [of d code s] show ?thesis by (simp add: pushed_def)
qed (simp_all add: is_direct_push_def pushed_def)

lemma encode_pushdata_total: "length d \<le> 0xFFFFFFFF \<Longrightarrow> \<exists>enc. encode_pushdata d True = Ok enc"
  by (simp add: encode_pushdata_def get_pushdata_code_def Let_def)

section \<open>Script numbers\<close>

lemma script_num_snoc:
  "script_num (bs @ [b]) =
     (if unat b < 128 then int (le_val (bs @ [b])) else - int (le_val bs + 256 ^ length bs * (unat b - 128)))"
proof -
  have lt: "le_val bs < 256 ^ length bs" by (rule le_val_less)
  have v: "le_val (bs @ [b]) = le_val bs + 256 ^ length bs * unat b" by (simp add: le_val_append)
  have s: "script_num (bs @ [b]) =
      (if 128 * 256 ^ length bs \<le> le_val (bs @ [b]) then - (int (le_val (bs @ [b])) - int (128 * 256 ^ length bs)) else int (le_val (bs @ [b])))"
    by (simp add: script_num_def Let_def flip: of_nat_le_iff [where 'a = int] del: of_nat_le_iff)
  show ?thesis
  proof (cases "unat b < 128")
    case True
    then have "256 ^ length bs * unat b \<le> 256 ^ length bs * 127" by (intro mult_left_mono) auto
    with lt v have "le_val (bs @ [b]) < 128 * 256 ^ length bs" by linarith
    with True s show ?thesis by simp
  next
    case False
    then have "256 ^ length bs * unat b = 256 ^ length bs * (unat b - 128) + 128 * 256 ^ length bs"
      by (simp add: algebra_simps flip: distrib_left)
    with v have "le_val (bs @ [b]) = le_val bs + 256 ^ length bs * (unat b - 128) + 128 * 256 ^ length bs" by simp
    with False s show ?thesis by (simp del: of_nat_add of_nat_mult add: of_nat_add [symmetric] of_nat_diff [symmetric])
  qed
qed

text \<open>The shortest encoding: the last byte is not needed for the sign alone.\<close>

definition minimal_num :: "bytes \<Rightarrow> bool" where
  "minimal_num bs \<longleftrightarrow>
     bs = [] \<or> unat (last bs) mod 128 \<noteq> 0 \<or> (1 < length bs \<and> 128 \<le> unat (last (butlast bs)))"

definition int_octets :: "int \<Rightarrow> bytes" where
  "int_octets num =
     (let octets = le_bytes (byte_digits (nat \<bar>num\<bar>)) (nat \<bar>num\<bar>);
          octets = (if unat (last octets) \<ge> 0x80 then octets @ [0x00] else octets)
      in if num < 0 then butlast octets @ [word_of_nat (unat (last octets) + 0x80)] else octets)"

lemma encode_int_octets: "encode_int num = (if num = 0 then Ok [0x00] else encode_pushdata (int_octets num) True)"
  by (simp add: encode_int_def int_octets_def unsigned_to_bytes_def Let_def)

lemma le_bytes_snoc:
  assumes "n \<noteq> 0"
  obtains bs b where "le_bytes (byte_digits n) n = bs @ [b]" "length bs = byte_digits n - 1" "0 < unat b" "le_val (bs @ [b]) = n"
proof -
  obtain bs b where e: "le_bytes (byte_digits n) n = bs @ [b]"
    using byte_digits_pos [of n] by (metis length_le_bytes length_greater_0_conv rev_exhaust)
  then have len: "length bs = byte_digits n - 1" by (metis length_append_singleton length_le_bytes diff_Suc_1)
  have val: "le_val (bs @ [b]) = n" using byte_digits_bounds [of n] by (simp add: le_val_le_bytes flip: e)
  then have v: "n = le_val bs + 256 ^ length bs * unat b" by (simp add: le_val_append)
  have "0 < unat b"
  proof (rule ccontr)
    assume "\<not> 0 < unat b"
    with v le_val_less [of bs] have lt: "n < 256 ^ length bs" by simp
    show False
    proof (cases "256 \<le> n")
      case True
      with byte_digits_bounds [of n] len lt show False by simp
    next
      case False
      then have "byte_digits n = 1" by (simp add: byte_digits.simps [of n])
      with len lt assms show False by simp
    qed
  qed
  with val show ?thesis using that e len by blast
qed

lemma int_octets_value:
  assumes "num \<noteq> 0"
  shows "script_num (int_octets num) = num \<and> minimal_num (int_octets num)"
proof -
  from assms have "nat \<bar>num\<bar> \<noteq> 0" by simp
  then obtain bs b where e: "le_bytes (byte_digits (nat \<bar>num\<bar>)) (nat \<bar>num\<bar>) = bs @ [b]" and b: "0 < unat b"
    and v: "le_val (bs @ [b]) = nat \<bar>num\<bar>"
    by (rule le_bytes_snoc)
  show ?thesis
  proof (cases "unat b < 128")
    case True
    have u: "unat (word_of_nat (unat b + 128) :: byte) = unat b + 128" using True by (simp add: unat_word_ariths)
    have i: "int_octets num = (if num < 0 then bs @ [word_of_nat (unat b + 128)] else bs @ [b])"
      using True by (simp add: int_octets_def e Let_def)
    have "script_num (bs @ [word_of_nat (unat b + 128)]) = - int (le_val (bs @ [b]))"
      using True u by (subst script_num_snoc) (simp add: le_val_append)
    moreover have "script_num (bs @ [b]) = int (le_val (bs @ [b]))" using True by (subst script_num_snoc) simp
    moreover have "minimal_num (int_octets num)" using b True u by (simp add: i minimal_num_def mod_if)
    ultimately show ?thesis using i v by simp
  next
    case False
    have i: "int_octets num = (if num < 0 then (bs @ [b]) @ [0x80] else (bs @ [b]) @ [0x00])"
      using False by (simp add: int_octets_def e Let_def butlast_append)
    have "script_num ((bs @ [b]) @ [0x80]) = - int (le_val (bs @ [b]))" by (subst script_num_snoc) simp
    moreover have "script_num ((bs @ [b]) @ [0x00]) = int (le_val (bs @ [b]))"
      by (subst script_num_snoc) (simp add: le_val_append)
    moreover have "minimal_num (int_octets num)" using False by (simp add: i minimal_num_def butlast_append)
    ultimately show ?thesis using i v by simp
  qed
qed

lemma length_int_octets: "length (int_octets num) \<le> Suc (byte_digits (nat \<bar>num\<bar>))"
  by (cases "num < 0") (simp_all add: int_octets_def Let_def)

lemma byte_digits_le: "n < 256 ^ k \<Longrightarrow> 0 < k \<Longrightarrow> byte_digits n \<le> k"
proof (rule ccontr)
  assume n: "n < 256 ^ k" "0 < k" and "\<not> byte_digits n \<le> k"
  then have k: "k \<le> byte_digits n - 1" by simp
  show False
  proof (cases "256 \<le> n")
    case True
    with byte_digits_bounds [of n] have "256 ^ (byte_digits n - 1) \<le> n" by simp
    moreover from k have "(256::nat) ^ k \<le> 256 ^ (byte_digits n - 1)" by (intro power_increasing) auto
    ultimately show False using n by linarith
  next
    case False
    with n k show False by (simp add: byte_digits.simps [of n])
  qed
qed

text \<open>Integers reach the stack as they are: for every integer of up to 64 bits of magnitude \<open>encode_int\<close>
  returns a script of one push, which the chunk reader reads as one chunk, and what that chunk leaves
  on the stack is the shortest script number of that value.\<close>

theorem encode_int_correct:
  assumes "\<bar>num\<bar> < 2 ^ 64"
  shows "\<exists>enc c d. encode_int num = Ok enc \<and> build_chunks enc = [c] \<and> pushed c = Some d \<and> script_num d = num \<and> minimal_num d"
proof (cases "num = 0")
  case True
  then show ?thesis
    by (simp add: encode_int_octets is_direct_push_def pushed_def script_num_def minimal_num_def)
next
  case False
  have "nat \<bar>num\<bar> < 256 ^ 8" using assms by (simp add: nat_less_iff)
  then have "byte_digits (nat \<bar>num\<bar>) \<le> 8" by (rule byte_digits_le) simp
  then have "length (int_octets num) \<le> 9" using length_int_octets [of num] by simp
  then obtain enc where enc: "encode_pushdata (int_octets num) True = Ok enc"
    using encode_pushdata_total [of "int_octets num"] by auto
  from encode_pushdata_pushes [OF enc, of "[]"] obtain c where "build_chunks enc = [c]" "pushed c = Some (int_octets num)" by auto
  with enc False int_octets_value [OF False] show ?thesis by (auto simp: encode_int_octets)
qed

text \<open>
  A script is in canonical form when it is a sequence of single opcodes and of pushes as
  \<open>encode_pushdata\<close> writes them; a length opcode that ends the script counts as a single opcode.
\<close>

definition is_push_op :: "byte \<Rightarrow> bool" where
  "is_push_op op \<longleftrightarrow> is_direct_push op \<or> op = 0x4C \<or> op = 0x4D \<or> op = 0x4E"

inductive canonical :: "bytes \<Rightarrow> bool" where
  canonical_Nil: "canonical []"
| canonical_cut: "op \<in> {0x4C, 0x4D, 0x4E} \<Longrightarrow> canonical [op]"
| canonical_op: "\<not> is_push_op op \<Longrightarrow> canonical s \<Longrightarrow> canonical (op # s)"
| canonical_push: "get_pushdata_code (length d) = Ok code \<Longrightarrow> d \<noteq> [] \<Longrightarrow> encode_pushdata d True = Ok (code @ d) \<Longrightarrow>
    canonical s \<Longrightarrow> canonical (code @ d @ s)"

lemma build_chunks_op: "\<not> is_push_op op \<Longrightarrow> build_chunks (op # s) = \<lparr>ch_op = op, ch_data = None\<rparr> # build_chunks s"
  by (simp add: is_push_op_def)

lemma from_chunks_Cons:
  "from_chunks (c # cs) = bind_r (chunk_bytes c) (\<lambda>b. bind_r (from_chunks cs) (\<lambda>bs. Ok (b @ bs)))"
  by (cases "chunk_bytes c"; cases "map_r chunk_bytes cs") (simp_all add: from_chunks_def)

lemma from_chunks_canonical: "canonical s \<Longrightarrow> from_chunks (build_chunks s) = Ok s"
proof (induction rule: canonical.induct)
  case (canonical_op op s)
  then show ?case by (simp add: build_chunks_op from_chunks_Cons chunk_bytes_def del: build_chunks.simps)
next
  case (canonical_push d code s)
  then show ?case by (simp add: push_code_parses from_chunks_Cons chunk_bytes_def)
next
  case (canonical_cut op)
  then show ?case by (auto simp: from_chunks_def chunk_bytes_def is_direct_push_def)
qed (simp add: from_chunks_def)

text \<open>A push whose bytes come back unchanged is a push as the encoder writes it.\<close>

lemma push_canonical:
  assumes "encode_pushdata d True = Ok enc" "enc @ t = op # rest" "is_push_op op"
  shows "\<exists>code. get_pushdata_code (length d) = Ok code \<and> d \<noteq> [] \<and> encode_pushdata d True = Ok (code @ d) \<and> enc = code @ d"
  using assms(1)
proof (cases rule: encode_pushdata_cases)
  case (2 b)
  then have "unat (0x50 + b) = 0x50 + unat b" by (simp add: unat_word_ariths)
  with 2 assms(2,3) show ?thesis by (auto simp: is_push_op_def is_direct_push_def)
next
  case (4 code)
  with assms(1) show ?thesis by auto
qed (use assms in \<open>auto simp: is_push_op_def is_direct_push_def\<close>)

lemma canonical_from_chunks: "from_chunks (build_chunks s) = Ok s \<Longrightarrow> canonical s"
proof (induction "length s" arbitrary: s rule: less_induct)
  case less
  show ?case
  proof (cases s)
    case Nil
    then show ?thesis by (simp add: canonical_Nil)
  next
    case (Cons op rest)
    show ?thesis
    proof (cases "is_push_op op")
      case False
      with less.prems Cons have "from_chunks (build_chunks rest) = Ok rest"
        by (auto simp: build_chunks_op from_chunks_Cons chunk_bytes_def bind_r_Ok_iff simp del: build_chunks.simps)
      with less.hyps [of rest] Cons have "canonical rest" by simp
      with False Cons show ?thesis by (simp add: canonical_op)
    next
      case True
      obtain c cs where cs: "build_chunks s = c # cs"
        using Cons by (cases "build_chunks s") (auto split: if_splits)
      with less.prems obtain enc t where enc: "chunk_bytes c = Ok enc" and t: "from_chunks cs = Ok t" "s = enc @ t"
        by (auto simp: from_chunks_Cons bind_r_Ok_iff)
      show ?thesis
      proof (cases "ch_data c")
        case None
        with cs Cons True have "op \<in> {0x4C, 0x4D, 0x4E}" "rest = []"
          by (auto simp: is_push_op_def split: if_splits)
        with Cons show ?thesis by (simp add: canonical_cut)
      next
        case (Some d)
        with enc have e: "encode_pushdata d True = Ok enc" by (simp add: chunk_bytes_def)
        from push_canonical [OF e _ True] t Cons obtain code
          where code: "get_pushdata_code (length d) = Ok code" "d \<noteq> []" "enc = code @ d" by metis
        from push_code_parses [OF code(1,2), of t] code t cs have "cs = build_chunks t" by simp
        with t less.hyps [of t] code have "canonical t" by simp
        with canonical_push [OF code(1,2) _ this] e code t show ?thesis by simp
      qed
    qed
  qed
qed

text \<open>Reading a script into chunks and writing the chunks back returns the script exactly when it is in
  canonical form. A push that is longer than it needs to be, or cut off, is silently rewritten, also
  by \<open>find_and_delete\<close> with a pattern that does not occur.\<close>

theorem chunks_roundtrip:
  "(from_chunks (build_chunks s) = Ok s \<longleftrightarrow> canonical s)
   \<and> find_and_delete [0x01, 0x05] [0xFF] = Ok [0x55]"
proof -
  have "find_and_delete [0x01, 0x05] [0xFF] = Ok [0x55]" by code_simp
  with from_chunks_canonical canonical_from_chunks show ?thesis by blast
qed

theorem encode_int_correct_witness:
  "\<exists>enc c d. encode_int (-255) = Ok enc \<and> build_chunks enc = [c] \<and> pushed c = Some d \<and> script_num d = - 255 \<and> minimal_num d"
  by (rule encode_int_correct) simp

end
