(* ===== verification/Transaction.thy ===== *)
theory Transaction
  imports Script
begin

text \<open>
  Transactions of the wallet: \<open>pyrxd/transaction/transaction.py\<close>, \<open>transaction_input.py\<close>,
  \<open>transaction_output.py\<close> and the size computation of \<open>pyrxd/fee_models/satoshis_per_kilobyte.py\<close>.
  A transaction that an input comes from is represented by its outputs. The unlocking-script
  template of an input, which signs with a key, is represented by the length it announces. The BEEF
  and EF containers and the floating-point product of the fee model are not modelled.
\<close>

section \<open>Inputs and outputs\<close>

record tx_out =
  to_satoshis :: "int option"
  to_script :: bytes
  to_change :: bool

record tx_in =
  ti_txid :: "string option"
  ti_vout :: int
  ti_satoshis :: "int option"
  ti_locking :: "bytes option"
  ti_source :: "tx_out list option"
  ti_unlocking :: "bytes option"
  ti_template :: "nat option"
  ti_sequence :: int
  ti_sighash :: int

definition TRANSACTION_SEQUENCE :: int where "TRANSACTION_SEQUENCE = 0xFFFFFFFF"

definition SIGHASH_ALL_FORKID :: int where "SIGHASH_ALL_FORKID = 0x41"

text \<open>A Python list indexed by an int: from the end if negative.\<close>

definition py_index :: "'a list \<Rightarrow> int \<Rightarrow> 'a result" where
  "py_index xs i =
     (if 0 \<le> i \<and> i < int (length xs) then Ok (xs ! nat i)
      else if - int (length xs) \<le> i \<and> i < 0 then Ok (xs ! nat (int (length xs) + i))
      else Err IndexError)"

text \<open>The constructor; \<open>source\<close> is the source transaction, as its id and its outputs.\<close>

definition TransactionInput ::
  "(string \<times> tx_out list) option \<Rightarrow> string option \<Rightarrow> int \<Rightarrow> bytes option \<Rightarrow> nat option \<Rightarrow> int \<Rightarrow> int \<Rightarrow> tx_in result"
where
  "TransactionInput source txid vout unlocking tmpl sq sighash =
     bind_r (case source of None \<Rightarrow> Ok None | Some (_, outs) \<Rightarrow> bind_r (py_index outs vout) (\<lambda>u. Ok (Some u))) (\<lambda>utxo.
       Ok \<lparr>ti_txid = (case source of
              Some (sid, _) \<Rightarrow> (if txid = None \<or> txid = Some [] then Some sid else txid)
            | None \<Rightarrow> txid),
          ti_vout = vout,
          ti_satoshis = (case utxo of None \<Rightarrow> None | Some u \<Rightarrow> to_satoshis u),
          ti_locking = map_option to_script utxo,
          ti_source = map_option snd source, ti_unlocking = unlocking, ti_template = tmpl,
          ti_sequence = sq, ti_sighash = sighash\<rparr>)"

definition unlocking_bytes :: "tx_in \<Rightarrow> bytes result" where
  "unlocking_bytes i =
     (case ti_unlocking i of
        None \<Rightarrow> Ok [0x00]
      | Some s \<Rightarrow> bind_r (unsigned_to_varint (int (length s))) (\<lambda>v. Ok (v @ s)))"

definition txid_bytes :: "tx_in \<Rightarrow> bytes result" where
  "txid_bytes i = (case ti_txid i of None \<Rightarrow> Err TypeError | Some t \<Rightarrow> bind_r (fromhex t) (\<lambda>b. Ok (rev b)))"

definition in_serialize :: "tx_in \<Rightarrow> bytes result" where
  "in_serialize i =
     bind_r (txid_bytes i) (\<lambda>t.
     bind_r (to_bytes_le (ti_vout i) 4) (\<lambda>v.
     bind_r (unlocking_bytes i) (\<lambda>u.
     bind_r (to_bytes_le (ti_sequence i) 4) (\<lambda>s. Ok (t @ v @ u @ s)))))"

definition out_serialize :: "tx_out \<Rightarrow> bytes result" where
  "out_serialize out =
     (case to_satoshis out of
        None \<Rightarrow> Err OtherError
      | Some n \<Rightarrow>
          bind_r (to_bytes_le n 8) (\<lambda>v.
          bind_r (unsigned_to_varint (int (length (to_script out)))) (\<lambda>l. Ok (v @ l @ to_script out))))"

text \<open>
  \<open>with suppress(Exception)\<close>: whatever is raised, the answer is \<open>None\<close>, and the reader stays where it
  got to.
\<close>

definition in_from_hex :: "reader \<Rightarrow> tx_in option \<times> reader" where
  "in_from_hex r =
     (case read_bytes (Some 32) r of (t, r1) \<Rightarrow>
        if length t \<noteq> 32 then (None, r1)
        else case read_int 4 r1 of
          (None, r2) \<Rightarrow> (None, r2)
        | (Some vout, r2) \<Rightarrow>
            (case read_var_int_num r2 of
               (None, r3) \<Rightarrow> (None, r3)
             | (Some n, r3) \<Rightarrow>
                 (case read_bytes (Some n) r3 of (script, r4) \<Rightarrow>
                    (case read_int 4 r4 of
                       (None, r5) \<Rightarrow> (None, r5)
                     | (Some sq, r5) \<Rightarrow>
                         (Some \<lparr>ti_txid = Some (hex (rev t)), ti_vout = int vout, ti_satoshis = None, ti_locking = None,
                             ti_source = None, ti_unlocking = Some script, ti_template = None, ti_sequence = int sq,
                             ti_sighash = SIGHASH_ALL_FORKID\<rparr>, r5)))))"

definition out_from_hex :: "reader \<Rightarrow> tx_out option \<times> reader" where
  "out_from_hex r =
     (case read_int 8 r of
        (None, r1) \<Rightarrow> (None, r1)
      | (Some n, r1) \<Rightarrow>
          (case read_var_int_num r1 of
             (None, r2) \<Rightarrow> (None, r2)
           | (Some l, r2) \<Rightarrow>
               (case read_bytes (Some l) r2 of (script, r3) \<Rightarrow>
                  if length script \<noteq> l then (None, r3)
                  else (Some \<lparr>to_satoshis = Some (int n), to_script = script, to_change = False\<rparr>, r3))))"

section \<open>Transactions\<close>

record transaction =
  tx_inputs :: "tx_in list"
  tx_outputs :: "tx_out list"
  tx_ver :: int
  tx_lock :: int

definition serialize :: "transaction \<Rightarrow> bytes result" where
  "serialize tx =
     bind_r (to_bytes_le (tx_ver tx) 4) (\<lambda>v.
     bind_r (unsigned_to_varint (int (length (tx_inputs tx)))) (\<lambda>ni.
     bind_r (map_r in_serialize (tx_inputs tx)) (\<lambda>ins.
     bind_r (unsigned_to_varint (int (length (tx_outputs tx)))) (\<lambda>no.
     bind_r (map_r out_serialize (tx_outputs tx)) (\<lambda>outs.
     bind_r (to_bytes_le (tx_lock tx) 4) (\<lambda>l.
       Ok (v @ ni @ concat ins @ no @ concat outs @ l)))))))"

definition txid :: "transaction \<Rightarrow> string result" where
  "txid tx = bind_r (serialize tx) (\<lambda>raw. Ok (hex (rev (hash256 raw))))"

definition is_coinbase :: "transaction \<Rightarrow> bool" where
  "is_coinbase tx \<longleftrightarrow> length (tx_inputs tx) = 1 \<and> ti_txid (hd (tx_inputs tx)) = Some (replicate 64 CHR ''0'')"

text \<open>\<open>for _ in range(n)\<close>, with a reader that may answer \<open>None\<close>.\<close>

fun read_times :: "nat \<Rightarrow> (reader \<Rightarrow> 'a option \<times> reader) \<Rightarrow> reader \<Rightarrow> 'a list result \<times> reader" where
  "read_times 0 f r = (Ok [], r)"
| "read_times (Suc n) f r =
     (case f r of
        (None, r') \<Rightarrow> (Err ValueError, r')
      | (Some x, r') \<Rightarrow> (case read_times n f r' of (xs, r'') \<Rightarrow> (bind_r xs (\<lambda>ys. Ok (x # ys)), r'')))"

definition from_reader :: "reader \<Rightarrow> transaction result \<times> reader" where
  "from_reader r =
     (case read_uint32_le r of
        (None, r1) \<Rightarrow> (Err ValueError, r1)
      | (Some v, r1) \<Rightarrow>
          (case read_var_int_num r1 of
             (None, r2) \<Rightarrow> (Err ValueError, r2)
           | (Some ni, r2) \<Rightarrow>
               (case read_times ni in_from_hex r2 of
                  (Inl e, r3) \<Rightarrow> (Err e, r3)
                | (Inr ins, r3) \<Rightarrow>
                    (case read_var_int_num r3 of
                       (None, r4) \<Rightarrow> (Err ValueError, r4)
                     | (Some no, r4) \<Rightarrow>
                         (case read_times no out_from_hex r4 of
                            (Inl e, r5) \<Rightarrow> (Err e, r5)
                          | (Inr outs, r5) \<Rightarrow>
                              (case read_uint32_le r5 of
                                 (None, r6) \<Rightarrow> (Err ValueError, r6)
                               | (Some l, r6) \<Rightarrow>
                                   (Ok \<lparr>tx_inputs = ins, tx_outputs = outs, tx_ver = int v, tx_lock = int l\<rparr>, r6)))))))"

definition from_hex :: "bytes \<Rightarrow> transaction option" where
  "from_hex data = (case fst (from_reader (mk_reader data)) of Inl e \<Rightarrow> None | Inr tx \<Rightarrow> Some tx)"

section \<open>Sizes and fees\<close>

definition get_varint_size :: "nat \<Rightarrow> nat" where
  "get_varint_size i = (if i \<ge> 2 ^ 32 then 9 else if i \<ge> 2 ^ 16 then 5 else if i \<ge> 253 then 3 else 1)"

definition script_length :: "tx_in \<Rightarrow> nat result" where
  "script_length i =
     (case ti_unlocking i of
        Some s \<Rightarrow> Ok (length s)
      | None \<Rightarrow> (case ti_template i of Some n \<Rightarrow> Ok n | None \<Rightarrow> Err ValueError))"

definition fee_model_size :: "transaction \<Rightarrow> nat result" where
  "fee_model_size tx =
     bind_r (map_r script_length (tx_inputs tx)) (\<lambda>ls.
       Ok (4 + get_varint_size (length (tx_inputs tx)) + sum_list (map (\<lambda>n. 40 + get_varint_size n + n) ls)
           + get_varint_size (length (tx_outputs tx))
           + sum_list (map (\<lambda>out. 8 + get_varint_size (length (to_script out)) + length (to_script out)) (tx_outputs tx)) + 4))"

definition varint_len :: "nat \<Rightarrow> nat result" where
  "varint_len n = bind_r (unsigned_to_varint (int n)) (\<lambda>v. Ok (length v))"

definition estimated_in :: "tx_in \<Rightarrow> nat result" where
  "estimated_in i =
     (case ti_unlocking i of
        Some _ \<Rightarrow> bind_r (in_serialize i) (\<lambda>b. Ok (length b))
      | None \<Rightarrow> (case ti_template i of None \<Rightarrow> Err OtherError | Some n \<Rightarrow> Ok (41 + n)))"

definition estimated_out :: "tx_out \<Rightarrow> nat result" where
  "estimated_out out = bind_r (varint_len (length (to_script out))) (\<lambda>v. Ok (8 + v + length (to_script out)))"

definition estimated_byte_length :: "transaction \<Rightarrow> nat result" where
  "estimated_byte_length tx =
     bind_r (varint_len (length (tx_inputs tx))) (\<lambda>ni.
     bind_r (varint_len (length (tx_outputs tx))) (\<lambda>no.
     bind_r (map_r estimated_in (tx_inputs tx)) (\<lambda>is.
     bind_r (map_r estimated_out (tx_outputs tx)) (\<lambda>os.
       Ok (4 + ni + no + 4 + sum_list is + sum_list os)))))"

definition satoshis_of :: "int option \<Rightarrow> int result" where
  "satoshis_of v = (case v of None \<Rightarrow> Err TypeError | Some n \<Rightarrow> Ok n)"

definition total_value_in :: "transaction \<Rightarrow> int result" where
  "total_value_in tx = bind_r (map_r (\<lambda>i. satoshis_of (ti_satoshis i)) (tx_inputs tx)) (\<lambda>vs. Ok (sum_list vs))"

definition total_value_out :: "transaction \<Rightarrow> int result" where
  "total_value_out tx = bind_r (map_r (\<lambda>out. satoshis_of (to_satoshis out)) (tx_outputs tx)) (\<lambda>vs. Ok (sum_list vs))"

definition get_fee :: "transaction \<Rightarrow> int result" where
  "get_fee tx = bind_r (total_value_in tx) (\<lambda>i. bind_r (total_value_out tx) (\<lambda>out. Ok (i - out)))"

text \<open>The value of the output an input spends, as the fee computation looks it up.\<close>

definition source_value :: "tx_in \<Rightarrow> int result" where
  "source_value i =
     (case ti_source i of
        None \<Rightarrow> Err ValueError
      | Some outs \<Rightarrow> bind_r (py_index outs (ti_vout i)) (\<lambda>u. satoshis_of (to_satoshis u)))"

fun distribute :: "int \<Rightarrow> int \<Rightarrow> bool \<Rightarrow> tx_out list \<Rightarrow> tx_out list" where
  "distribute per_output remainder assigned [] = []"
| "distribute per_output remainder assigned (out # outs) =
     (if to_change out then
        out\<lparr>to_satoshis := Some (if assigned then per_output else per_output + remainder)\<rparr> # distribute per_output remainder True outs
      else out # distribute per_output remainder assigned outs)"

text \<open>\<open>fee\<close> with the fee as a number and the default, equal distribution of the change.\<close>

definition fee_equal :: "int \<Rightarrow> transaction \<Rightarrow> transaction result" where
  "fee_equal fee tx =
     bind_r (map_r source_value (tx_inputs tx)) (\<lambda>vs.
     bind_r (map_r (\<lambda>out. satoshis_of (to_satoshis out)) (filter (\<lambda>out. \<not> to_change out) (tx_outputs tx))) (\<lambda>paid.
       let change = sum_list vs - fee - sum_list paid;
           change_count = int (length (filter to_change (tx_outputs tx)))
       in if change \<le> change_count then Ok (tx\<lparr>tx_outputs := filter (\<lambda>out. \<not> to_change out) (tx_outputs tx)\<rparr>)
          else if change_count = 0 then Err ZeroDivisionError
          else
            let per_output = change div change_count;
                remainder = change - per_output * change_count
            in Ok (tx\<lparr>tx_outputs := distribute per_output remainder False (tx_outputs tx)\<rparr>)))"

section \<open>Script offsets\<close>

text \<open>
  \<open>parse_script_offsets\<close>: the position and the length of every script. A varint that cannot be read
  raises, since the code then computes with \<open>None\<close>; the other reads skip what is there.
\<close>

definition skip_read :: "nat \<Rightarrow> reader \<Rightarrow> reader" where
  "skip_read n r = snd (read (Some n) r)"

definition varint_or_raise :: "reader \<Rightarrow> (nat \<times> reader) result" where
  "varint_or_raise r = (case read_var_int_num r of (None, _) \<Rightarrow> Err TypeError | (Some n, r') \<Rightarrow> Ok (n, r'))"

fun offsets_loop :: "nat \<Rightarrow> nat \<Rightarrow> nat \<Rightarrow> reader \<Rightarrow> ((nat \<times> nat) list \<times> reader) result" where
  "offsets_loop 0 skip tail r = Ok ([], r)"
| "offsets_loop (Suc n) skip tail r =
     bind_r (varint_or_raise (skip_read skip r)) (\<lambda>(l, r1).
     bind_r (offsets_loop n skip tail (skip_read (l + tail) r1)) (\<lambda>(os, r2). Ok ((rpos r1, l) # os, r2)))"

definition parse_script_offsets :: "bytes \<Rightarrow> ((nat \<times> nat) list \<times> (nat \<times> nat) list) result" where
  "parse_script_offsets octets =
     bind_r (varint_or_raise (skip_read 4 (mk_reader octets))) (\<lambda>(ni, r1).
     bind_r (offsets_loop ni 36 4 r1) (\<lambda>(ins, r2).
     bind_r (varint_or_raise r2) (\<lambda>(no, r3).
     bind_r (offsets_loop no 8 0 r3) (\<lambda>(outs, r4). Ok (ins, outs)))))"

section \<open>Reading back what was written\<close>

text \<open>A reader that has read \<open>pre\<close> and has \<open>post\<close> before it.\<close>

definition at_pos :: "bytes \<Rightarrow> bytes \<Rightarrow> reader" where
  "at_pos pre post = \<lparr>rdata = pre @ post, rpos = length pre\<rparr>"

lemma read_bytes_pos: "length xs = k \<Longrightarrow> read_bytes (Some k) (at_pos pre (xs @ post)) = (xs, at_pos (pre @ xs) post)"
  using read_bytes_at [of xs k pre post] by (simp add: at_pos_def)

lemma read_int_pos: "length xs = k \<Longrightarrow> 0 < k \<Longrightarrow> read_int k (at_pos pre (xs @ post)) = (Some (le_val xs), at_pos (pre @ xs) post)"
  using read_int_at [of xs k pre post] by (simp add: at_pos_def)

lemma read_uint32_pos: "length xs = 4 \<Longrightarrow> read_uint32_le (at_pos pre (xs @ post)) = (Some (le_val xs), at_pos (pre @ xs) post)"
  using read_le_at [of xs 4 pre post] by (simp add: at_pos_def read_uint32_le_def)

lemma read_uint32_short:
  "xs \<noteq> [] \<Longrightarrow> length xs \<le> 4 \<Longrightarrow> read_uint32_le (at_pos pre xs) = (Some (le_val xs), at_pos (pre @ xs) [])"
  by (simp add: read_uint32_le_def read_le_def read_def bio_read_def at_pos_def Let_def)

lemma read_varint_pos:
  "n < 2 ^ 64 \<Longrightarrow> read_var_int_num (at_pos pre (varint_enc n @ post)) = (Some n, at_pos (pre @ varint_enc n) post)"
  using read_var_int_num_at [of n pre post] by (simp add: at_pos_def)

lemma skip_read_pos: "length xs = k \<Longrightarrow> skip_read k (at_pos pre (xs @ post)) = at_pos (pre @ xs) post"
  using bio_read_at [of xs pre post] by (auto simp: at_pos_def skip_read_def read_def split: prod.splits)

lemmas read_pos = read_bytes_pos read_int_pos read_uint32_pos read_varint_pos skip_read_pos

lemma varint_or_raise_pos: "n < 2 ^ 64 \<Longrightarrow> varint_or_raise (at_pos pre (varint_enc n @ post)) = Ok (n, at_pos (pre @ varint_enc n) post)"
  by (simp add: varint_or_raise_def read_pos)

text \<open>The part of an input, an output and a transaction that is on the wire.\<close>

definition strip_in :: "tx_in \<Rightarrow> tx_in" where
  "strip_in i =
     \<lparr>ti_txid = (case txid_bytes i of Inl e \<Rightarrow> None | Inr t \<Rightarrow> Some (hex (rev t))), ti_vout = ti_vout i,
      ti_satoshis = None, ti_locking = None, ti_source = None,
      ti_unlocking = Some (case ti_unlocking i of None \<Rightarrow> [] | Some s \<Rightarrow> s), ti_template = None,
      ti_sequence = ti_sequence i, ti_sighash = SIGHASH_ALL_FORKID\<rparr>"

definition strip_out :: "tx_out \<Rightarrow> tx_out" where
  "strip_out out = out\<lparr>to_change := False\<rparr>"

definition strip_tx :: "transaction \<Rightarrow> transaction" where
  "strip_tx tx = tx\<lparr>tx_inputs := map strip_in (tx_inputs tx), tx_outputs := map strip_out (tx_outputs tx)\<rparr>"

definition full_txid :: "tx_in \<Rightarrow> bool" where
  "full_txid i \<longleftrightarrow> (\<exists>t. txid_bytes i = Ok t \<and> length t = 32)"

lemma varint_Ok: "unsigned_to_varint (int n) = Ok v \<longleftrightarrow> n < 2 ^ 64 \<and> v = varint_enc n"
  by (auto simp: unsigned_to_varint_Ok_iff nat_less_iff)

lemma in_serialize_shape:
  assumes "in_serialize i = Ok b" "full_txid i"
  obtains t v u s where "txid_bytes i = Ok t" "length t = 32" "length v = 4" "int (le_val v) = ti_vout i" "length s = 4"
    "int (le_val s) = ti_sequence i" "u = (case ti_unlocking i of None \<Rightarrow> [] | Some s \<Rightarrow> s)" "length u < 2 ^ 64"
    "b = t @ v @ (varint_enc (length u) @ u) @ s"
proof -
  from assms obtain t v u s where p: "txid_bytes i = Ok t" "length t = 32" "to_bytes_le (ti_vout i) 4 = Ok v"
    "unlocking_bytes i = Ok u" "to_bytes_le (ti_sequence i) 4 = Ok s" "b = t @ v @ u @ s"
    by (auto simp: in_serialize_def full_txid_def bind_r_Ok_iff)
  let ?u = "case ti_unlocking i of None \<Rightarrow> [] | Some s \<Rightarrow> s"
  have "u = varint_enc (length ?u) @ ?u \<and> length ?u < 2 ^ 64"
    using p(4) by (cases "ti_unlocking i") (auto simp: unlocking_bytes_def bind_r_Ok_iff varint_Ok varint_enc_def)
  with that [OF p(1,2), of v s ?u] to_bytes_le_val [OF p(3)] to_bytes_le_val [OF p(5)] p(6) show ?thesis by simp
qed

lemma in_from_hex_pos:
  assumes "in_serialize i = Ok b" "full_txid i"
  shows "in_from_hex (at_pos pre (b @ post)) = (Some (strip_in i), at_pos (pre @ b) post)"
  using assms
proof (rule in_serialize_shape)
  fix t v u s
  assume "txid_bytes i = Ok t" "length t = 32" "length v = 4" "int (le_val v) = ti_vout i" "length s = 4"
    "int (le_val s) = ti_sequence i" "u = (case ti_unlocking i of None \<Rightarrow> [] | Some s \<Rightarrow> s)" "length u < 2 ^ 64"
    "b = t @ v @ (varint_enc (length u) @ u) @ s"
  then show ?thesis by (simp add: in_from_hex_def read_pos strip_in_def)
qed

lemma out_serialize_shape:
  assumes "out_serialize out = Ok b"
  obtains v n where "to_satoshis out = Some n" "length v = 8" "int (le_val v) = n" "length (to_script out) < 2 ^ 64"
    "b = v @ varint_enc (length (to_script out)) @ to_script out"
proof -
  from assms obtain n v where p: "to_satoshis out = Some n" "to_bytes_le n 8 = Ok v" "length (to_script out) < 2 ^ 64"
    "b = v @ varint_enc (length (to_script out)) @ to_script out"
    by (auto simp: out_serialize_def bind_r_Ok_iff varint_Ok split: option.splits)
  from that [OF p(1) _ _ p(3,4)] to_bytes_le_val [OF p(2)] show ?thesis by simp
qed

lemma out_from_hex_pos:
  assumes "out_serialize out = Ok b"
  shows "out_from_hex (at_pos pre (b @ post)) = (Some (strip_out out), at_pos (pre @ b) post)"
  using assms
proof (rule out_serialize_shape)
  fix v n
  assume "to_satoshis out = Some n" "length v = 8" "int (le_val v) = n" "length (to_script out) < 2 ^ 64"
    "b = v @ varint_enc (length (to_script out)) @ to_script out"
  then show ?thesis by (simp add: out_from_hex_def read_pos strip_out_def)
qed

lemma read_times_pos:
  assumes "list_all2 (\<lambda>x b. \<forall>pre post. f (at_pos pre (b @ post)) = (Some (g x), at_pos (pre @ b) post)) xs bs"
  shows "read_times (length xs) f (at_pos pre (concat bs @ post)) = (Ok (map g xs), at_pos (pre @ concat bs) post)"
  using assms
proof (induction xs bs arbitrary: pre rule: list_all2_induct)
  case (Cons x xs b bs)
  from Cons.IH [of "pre @ b"] Cons.hyps show ?case by simp
qed simp

lemma serialize_shape:
  assumes "serialize tx = Ok raw" "\<forall>i\<in>set (tx_inputs tx). full_txid i"
  obtains v ins outs l where "length v = 4" "int (le_val v) = tx_ver tx" "length (tx_inputs tx) < 2 ^ 64" "length (tx_outputs tx) < 2 ^ 64"
    "list_all2 (\<lambda>i b. in_serialize i = Ok b \<and> full_txid i) (tx_inputs tx) ins" "list_all2 (\<lambda>out b. out_serialize out = Ok b) (tx_outputs tx) outs"
    "length l = 4" "int (le_val l) = tx_lock tx"
    "raw = v @ varint_enc (length (tx_inputs tx)) @ concat ins @ varint_enc (length (tx_outputs tx)) @ concat outs @ l"
proof -
  from assms(1) obtain v ins outs l where p: "to_bytes_le (tx_ver tx) 4 = Ok v" "length (tx_inputs tx) < 2 ^ 64" "length (tx_outputs tx) < 2 ^ 64"
    "list_all2 (\<lambda>i b. in_serialize i = Ok b) (tx_inputs tx) ins" "list_all2 (\<lambda>out b. out_serialize out = Ok b) (tx_outputs tx) outs"
    "to_bytes_le (tx_lock tx) 4 = Ok l"
    "raw = v @ varint_enc (length (tx_inputs tx)) @ concat ins @ varint_enc (length (tx_outputs tx)) @ concat outs @ l"
    by (auto simp: serialize_def bind_r_Ok_iff varint_Ok map_r_Ok_iff)
  from p(4) assms(2) have "list_all2 (\<lambda>i b. in_serialize i = Ok b \<and> full_txid i) (tx_inputs tx) ins"
    by (auto simp: list_all2_conv_all_nth)
  with that [of v ins outs l] p to_bytes_le_val [OF p(1)] to_bytes_le_val [OF p(6)] show ?thesis by auto
qed

lemma from_reader_pos:
  assumes "length v = 4" "int (le_val v) = tx_ver tx" "length (tx_inputs tx) < 2 ^ 64" "length (tx_outputs tx) < 2 ^ 64"
    "list_all2 (\<lambda>i b. in_serialize i = Ok b \<and> full_txid i) (tx_inputs tx) ins" "list_all2 (\<lambda>out b. out_serialize out = Ok b) (tx_outputs tx) outs"
    "read_uint32_le (at_pos (pre @ v @ varint_enc (length (tx_inputs tx)) @ concat ins @ varint_enc (length (tx_outputs tx)) @ concat outs) rest)
      = (Some l, r)"
  shows "from_reader (at_pos pre (v @ varint_enc (length (tx_inputs tx)) @ concat ins @ varint_enc (length (tx_outputs tx)) @ concat outs @ rest))
    = (Ok ((strip_tx tx)\<lparr>tx_lock := int l\<rparr>), r)"
proof -
  have i: "read_times (length (tx_inputs tx)) in_from_hex (at_pos pre' (concat ins @ post))
      = (Ok (map strip_in (tx_inputs tx)), at_pos (pre' @ concat ins) post)" for pre' post
    by (rule read_times_pos) (use assms(5) in_from_hex_pos in \<open>auto elim!: list_all2_mono\<close>)
  have out: "read_times (length (tx_outputs tx)) out_from_hex (at_pos pre' (concat outs @ post))
      = (Ok (map strip_out (tx_outputs tx)), at_pos (pre' @ concat outs) post)" for pre' post
    by (rule read_times_pos) (use assms(6) out_from_hex_pos in \<open>auto elim!: list_all2_mono\<close>)
  from assms show ?thesis by (simp add: from_reader_def read_pos i out strip_tx_def)
qed

text \<open>C39: A transaction survives the wire: whatever serialises, with transaction ids of 32 bytes, is read
  back from any position of any buffer as the same transaction less what is not on the wire, and
  the reader stops right behind it.\<close>

theorem tx_roundtrip:
  assumes "serialize tx = Ok raw" and "\<forall>i\<in>set (tx_inputs tx). full_txid i"
  shows "from_reader (at_pos pre (raw @ post)) = (Ok (strip_tx tx), at_pos (pre @ raw) post)"
  using assms
proof (rule serialize_shape)
  fix v ins outs l
  assume p: "length v = 4" "int (le_val v) = tx_ver tx" "length (tx_inputs tx) < 2 ^ 64" "length (tx_outputs tx) < 2 ^ 64"
    "list_all2 (\<lambda>i b. in_serialize i = Ok b \<and> full_txid i) (tx_inputs tx) ins" "list_all2 (\<lambda>out b. out_serialize out = Ok b) (tx_outputs tx) outs"
    and l: "length l = 4" "int (le_val l) = tx_lock tx"
    and raw: "raw = v @ varint_enc (length (tx_inputs tx)) @ concat ins @ varint_enc (length (tx_outputs tx)) @ concat outs @ l"
  have "from_reader (at_pos pre (v @ varint_enc (length (tx_inputs tx)) @ concat ins @ varint_enc (length (tx_outputs tx)) @ concat outs @ l @ post))
      = (Ok ((strip_tx tx)\<lparr>tx_lock := int (le_val l)\<rparr>), at_pos (pre @ raw) post)"
    by (rule from_reader_pos [OF p]) (simp add: read_pos l raw)
  with l raw show ?thesis by (simp add: strip_tx_def)
qed

text \<open>A transaction that is cut short is accepted: without its last byte, or the last two or three,
  \<open>from_hex\<close> still returns a transaction, with another lock time than was written.\<close>

theorem truncated_tx_accepted:
  assumes "serialize tx = Ok raw" and "\<forall>i\<in>set (tx_inputs tx). full_txid i" and "0 < k" and "k < 4"
  shows "from_hex (take (length raw - k) raw) = Some ((strip_tx tx)\<lparr>tx_lock := tx_lock tx mod 256 ^ (4 - k)\<rparr>)"
  using assms(1,2)
proof (rule serialize_shape)
  fix v ins outs l
  assume p: "length v = 4" "int (le_val v) = tx_ver tx" "length (tx_inputs tx) < 2 ^ 64" "length (tx_outputs tx) < 2 ^ 64"
    "list_all2 (\<lambda>i b. in_serialize i = Ok b \<and> full_txid i) (tx_inputs tx) ins" "list_all2 (\<lambda>out b. out_serialize out = Ok b) (tx_outputs tx) outs"
    and l: "length l = 4" "int (le_val l) = tx_lock tx"
    and raw: "raw = v @ varint_enc (length (tx_inputs tx)) @ concat ins @ varint_enc (length (tx_outputs tx)) @ concat outs @ l"
  let ?l = "take (4 - k) l"
  let ?body = "v @ varint_enc (length (tx_inputs tx)) @ concat ins @ varint_enc (length (tx_outputs tx)) @ concat outs"
  have "length raw - k = length ?body + (4 - k)" using assms(3,4) l by (simp add: raw)
  then have cut: "take (length raw - k) raw = ?body @ ?l" using raw by (simp only: append_assoc) simp
  have ne: "?l \<noteq> []" using assms(3,4) l by auto
  have "read_uint32_le (at_pos ([] @ ?body) ?l) = (Some (le_val ?l), at_pos (?body @ ?l) [])"
    using read_uint32_short [OF ne, of ?body] by simp
  from from_reader_pos [OF p this] have "fst (from_reader (at_pos [] (?body @ ?l))) = Ok ((strip_tx tx)\<lparr>tx_lock := int (le_val ?l)\<rparr>)"
    by simp
  moreover have "int (le_val ?l) = tx_lock tx mod 256 ^ (4 - k)"
  proof -
    have "le_val l = le_val ?l + 256 ^ length ?l * le_val (drop (4 - k) l)" using le_val_append [of ?l "drop (4 - k) l"] by simp
    moreover have "length ?l = 4 - k" using l by simp
    moreover have "le_val ?l < 256 ^ length ?l" by (rule le_val_less)
    ultimately have "le_val l mod 256 ^ (4 - k) = le_val ?l" by simp
    then show ?thesis unfolding l(2) [symmetric] by (metis of_nat_mod of_nat_numeral of_nat_power)
  qed
  ultimately show ?thesis unfolding cut from_hex_def by (simp add: mk_reader_def at_pos_def)
qed

section \<open>Fees\<close>

lemma distribute_sum:
  assumes "map_r (\<lambda>out. satoshis_of (to_satoshis out)) (filter (\<lambda>out. \<not> to_change out) outs) = Ok paid"
  shows "map_r (\<lambda>out. satoshis_of (to_satoshis out)) (distribute p r a outs) = Ok vs \<Longrightarrow>
    sum_list vs = sum_list paid + p * int (length (filter to_change outs)) + (if a \<or> filter to_change outs = [] then 0 else r)"
  using assms
proof (induction outs arbitrary: a paid vs)
  case (Cons out outs)
  show ?case
  proof (cases "to_change out")
    case True
    from Cons.prems(1) True obtain ws where ws: "map_r (\<lambda>out. satoshis_of (to_satoshis out)) (distribute p r True outs) = Ok ws"
      "vs = (if a then p else p + r) # ws"
      by (auto simp: bind_r_Ok_iff satoshis_of_def split: if_splits)
    from Cons.IH [OF ws(1)] Cons.prems(2) True have "sum_list ws = sum_list paid + p * int (length (filter to_change outs))" by simp
    with ws True show ?thesis by (simp add: algebra_simps)
  next
    case False
    from Cons.prems False obtain x ws pd where "satoshis_of (to_satoshis out) = Ok x" and ws: "map_r (\<lambda>out. satoshis_of (to_satoshis out)) (distribute p r a outs) = Ok ws"
      "vs = x # ws" "map_r (\<lambda>out. satoshis_of (to_satoshis out)) (filter (\<lambda>out. \<not> to_change out) outs) = Ok pd" "paid = x # pd"
      by (auto simp: bind_r_Ok_iff)
    from Cons.IH [OF ws(1,3)] ws False show ?thesis by simp
  qed
qed simp

lemma distribute_total:
  "map_r (\<lambda>out. satoshis_of (to_satoshis out)) (filter (\<lambda>out. \<not> to_change out) outs) = Ok paid \<Longrightarrow>
    \<exists>vs. map_r (\<lambda>out. satoshis_of (to_satoshis out)) (distribute p r a outs) = Ok vs"
  by (induction outs arbitrary: a paid) (auto simp: satoshis_of_def bind_r_Ok_iff)

lemma distribute_keeps: "filter (\<lambda>out. \<not> to_change out) (distribute p r a outs) = filter (\<lambda>out. \<not> to_change out) outs"
  by (induction outs arbitrary: a) auto

lemma distribute_count: "length (filter to_change (distribute p r a outs)) = length (filter to_change outs)"
  by (induction outs arbitrary: a) auto

lemma distribute_change:
  "out \<in> set (distribute p r a outs) \<Longrightarrow> to_change out \<Longrightarrow> to_satoshis out = Some p \<or> to_satoshis out = Some (p + r)"
  by (induction outs arbitrary: a) (auto split: if_splits)

text \<open>The fee computation conserves value. The outputs that are no change are not touched. If change
  outputs remain, inputs equal outputs plus the fee exactly, and each change output gets at least one
  satoshi; otherwise all of them are gone and the miners get at most one satoshi per removed output
  more than the fee, which does not mean that the inputs cover it.\<close>

theorem fee_conserves:
  assumes "fee_equal fee tx = Ok tx'" and "map_r source_value (tx_inputs tx) = Ok vs"
  shows "filter (\<lambda>out. \<not> to_change out) (tx_outputs tx') = filter (\<lambda>out. \<not> to_change out) (tx_outputs tx)
    \<and> tx_inputs tx' = tx_inputs tx
    \<and> (\<exists>outs. total_value_out tx' = Ok outs
        \<and> (if filter to_change (tx_outputs tx') = [] then sum_list vs - outs \<le> fee + int (length (filter to_change (tx_outputs tx)))
           else sum_list vs = outs + fee \<and> (\<forall>out\<in>set (tx_outputs tx'). to_change out \<longrightarrow> (\<exists>n. to_satoshis out = Some n \<and> 1 \<le> n))))"
proof -
  let ?sat = "\<lambda>out. satoshis_of (to_satoshis out)"
  let ?cc = "int (length (filter to_change (tx_outputs tx)))"
  obtain paid where paid: "map_r ?sat (filter (\<lambda>out. \<not> to_change out) (tx_outputs tx)) = Ok paid"
    using assms by (auto simp: fee_equal_def bind_r_Ok_iff)
  let ?c = "sum_list vs - fee - sum_list paid"
  show ?thesis
  proof (cases "?c \<le> ?cc")
    case True
    with assms paid have "tx' = tx\<lparr>tx_outputs := filter (\<lambda>out. \<not> to_change out) (tx_outputs tx)\<rparr>"
      by (simp add: fee_equal_def Let_def)
    with True paid show ?thesis by (auto simp: total_value_out_def)
  next
    case False
    with assms paid have cc: "?cc \<noteq> 0" by (auto simp: fee_equal_def Let_def split: if_splits)
    then have cpos: "0 < ?cc" by linarith
    let ?p = "?c div ?cc" and ?r = "?c - ?c div ?cc * ?cc"
    from False assms paid cc have tx': "tx' = tx\<lparr>tx_outputs := distribute ?p ?r False (tx_outputs tx)\<rparr>"
      by (simp add: fee_equal_def Let_def)
    obtain ws where ws: "map_r ?sat (distribute ?p ?r False (tx_outputs tx)) = Ok ws"
      using distribute_total [OF paid] by blast
    have ne: "filter to_change (tx_outputs tx) \<noteq> []" using cc by auto
    from distribute_sum [OF paid ws] ne have sum: "sum_list ws = sum_list paid + ?p * ?cc + ?r" by simp
    have p1: "1 \<le> ?p" using False cpos by (simp add: pos_imp_zdiv_pos_iff int_one_le_iff_zero_less)
    have r0: "0 \<le> ?r" using cpos pos_mod_sign [of ?cc ?c] by (simp add: minus_div_mult_eq_mod)
    have "\<exists>n. to_satoshis out = Some n \<and> 1 \<le> n" if "out \<in> set (tx_outputs tx')" "to_change out" for out
      using distribute_change [of out ?p ?r False "tx_outputs tx"] that p1 r0 by (auto simp: tx')
    moreover have "sum_list vs = sum_list ws + fee" using sum by simp
    moreover have "length (filter to_change (tx_outputs tx')) \<noteq> 0" using ne by (simp add: tx' distribute_count)
    then have "filter to_change (tx_outputs tx') \<noteq> []" by fastforce
    ultimately show ?thesis using ws by (auto simp: tx' distribute_keeps total_value_out_def)
  qed
qed

section \<open>Sizes and offsets\<close>

lemma in_serialize_field:
  assumes "in_serialize i = Ok b" "full_txid i"
  shows "\<exists>a c. wf_field 36 4 (a, case ti_unlocking i of None \<Rightarrow> [] | Some s \<Rightarrow> s, c)
    \<and> b = enc_field (a, case ti_unlocking i of None \<Rightarrow> [] | Some s \<Rightarrow> s, c)"
  using assms
proof (rule in_serialize_shape)
  fix t v u s
  assume "length t = 32" "length v = 4" "length s = 4" "u = (case ti_unlocking i of None \<Rightarrow> [] | Some s \<Rightarrow> s)"
    "length u < 2 ^ 64" "b = t @ v @ (varint_enc (length u) @ u) @ s"
  then show ?thesis by (intro exI [of _ "t @ v"] exI [of _ s]) (simp add: wf_field_def enc_field_def)
qed

lemma out_serialize_field:
  assumes "out_serialize out = Ok b"
  shows "\<exists>a. wf_field 8 0 (a, to_script out, []) \<and> b = enc_field (a, to_script out, [])"
  using assms by (rule out_serialize_shape) (auto simp: wf_field_def enc_field_def)

lemma offsets_loop_pos:
  assumes "list_all (wf_field k m) fs"
  shows "\<exists>os. offsets_loop (length fs) k m (at_pos pre (concat (map enc_field fs) @ post)) = Ok (os, at_pos (pre @ concat (map enc_field fs)) post)
    \<and> map (\<lambda>(p, l). pyslice p (p + l) (pre @ concat (map enc_field fs) @ post)) os = map (\<lambda>(a, s, b). s) fs"
  using assms
proof (induction fs arbitrary: pre)
  case (Cons f fs)
  obtain a s b where f: "f = (a, s, b)" by (cases f)
  with Cons.prems have w: "length a = k" "length s < 2 ^ 64" "length b = m" "list_all (wf_field k m) fs"
    by (simp_all add: wf_field_def)
  let ?pre = "pre @ a @ varint_enc (length s)"
  from Cons.IH [OF w(4), of "?pre @ s @ b"] obtain os where os:
    "offsets_loop (length fs) k m (at_pos (?pre @ s @ b) (concat (map enc_field fs) @ post))
      = Ok (os, at_pos ((?pre @ s @ b) @ concat (map enc_field fs)) post)"
    "map (\<lambda>(p, l). pyslice p (p + l) ((?pre @ s @ b) @ concat (map enc_field fs) @ post)) os = map (\<lambda>(a, s, b). s) fs" by blast
  have skip: "skip_read (length s + m) (at_pos ?pre ((s @ b) @ rest)) = at_pos (?pre @ s @ b) rest" for rest
    using w skip_read_pos [of "s @ b" "length s + m" ?pre rest] by simp
  have "pyslice (length ?pre) (length ?pre + length s) (?pre @ s @ b @ concat (map enc_field fs) @ post) = s"
    by (rule pyslice_at)
  with os w skip show ?case
    by (auto simp: f enc_field_def skip_read_pos varint_or_raise_pos at_pos_def [of ?pre])
qed simp

text \<open>The offsets are right: in the serialisation of a transaction \<open>parse_script_offsets\<close> finds, for each
  input and each output in order, exactly the bytes of its script.\<close>

theorem script_offsets_correct:
  assumes "serialize tx = Ok raw" and "\<forall>i\<in>set (tx_inputs tx). full_txid i"
  shows "\<exists>ins outs. parse_script_offsets raw = Ok (ins, outs)
    \<and> map (\<lambda>(p, l). pyslice p (p + l) raw) ins = map (\<lambda>i. case ti_unlocking i of None \<Rightarrow> [] | Some s \<Rightarrow> s) (tx_inputs tx)
    \<and> map (\<lambda>(p, l). pyslice p (p + l) raw) outs = map to_script (tx_outputs tx)"
  using assms
proof (rule serialize_shape)
  let ?u = "\<lambda>i. case ti_unlocking i of None \<Rightarrow> [] | Some s \<Rightarrow> s"
  fix v ins outs l
  assume v: "length v = 4" and n: "length (tx_inputs tx) < 2 ^ 64" "length (tx_outputs tx) < 2 ^ 64"
    and i: "list_all2 (\<lambda>i b. in_serialize i = Ok b \<and> full_txid i) (tx_inputs tx) ins"
    and o': "list_all2 (\<lambda>out b. out_serialize out = Ok b) (tx_outputs tx) outs"
    and raw: "raw = v @ varint_enc (length (tx_inputs tx)) @ concat ins @ varint_enc (length (tx_outputs tx)) @ concat outs @ l"
  have "\<exists>fs. ins = map enc_field fs \<and> list_all (wf_field 36 4) fs \<and> map (\<lambda>(a, s, b). s) fs = map ?u (tx_inputs tx)"
    using i
  proof (induction rule: list_all2_induct)
    case (Cons x xs b bs)
    then obtain fs a c where "bs = map enc_field fs" "list_all (wf_field 36 4) fs" "map (\<lambda>(a, s, b). s) fs = map ?u xs"
      "wf_field 36 4 (a, ?u x, c)" "b = enc_field (a, ?u x, c)" using in_serialize_field by blast
    then show ?case by (intro exI [of _ "(a, ?u x, c) # fs"]) simp
  qed simp
  then obtain fs where fs: "ins = map enc_field fs" "list_all (wf_field 36 4) fs" "map (\<lambda>(a, s, b). s) fs = map ?u (tx_inputs tx)" by blast
  have "\<exists>gs. outs = map enc_field gs \<and> list_all (wf_field 8 0) gs \<and> map (\<lambda>(a, s, b). s) gs = map to_script (tx_outputs tx)"
    using o'
  proof (induction rule: list_all2_induct)
    case (Cons x xs b bs)
    then obtain gs a where "bs = map enc_field gs" "list_all (wf_field 8 0) gs" "map (\<lambda>(a, s, b). s) gs = map to_script xs"
      "wf_field 8 0 (a, to_script x, [])" "b = enc_field (a, to_script x, [])" using out_serialize_field by blast
    then show ?case by (intro exI [of _ "(a, to_script x, []) # gs"]) simp
  qed simp
  then obtain gs where gs: "outs = map enc_field gs" "list_all (wf_field 8 0) gs" "map (\<lambda>(a, s, b). s) gs = map to_script (tx_outputs tx)" by blast
  let ?p1 = "v @ varint_enc (length (tx_inputs tx))"
  let ?p2 = "?p1 @ concat ins @ varint_enc (length (tx_outputs tx))"
  have len: "length fs = length (tx_inputs tx)" "length gs = length (tx_outputs tx)"
    using fs(3) gs(3) by (metis length_map)+
  from offsets_loop_pos [OF fs(2), of ?p1 "varint_enc (length (tx_outputs tx)) @ concat outs @ l"] len fs(1,3) obtain io where io:
    "offsets_loop (length (tx_inputs tx)) 36 4 (at_pos ?p1 (concat ins @ varint_enc (length (tx_outputs tx)) @ concat outs @ l))
      = Ok (io, at_pos (?p1 @ concat ins) (varint_enc (length (tx_outputs tx)) @ concat outs @ l))"
    "map (\<lambda>(p, l). pyslice p (p + l) raw) io = map ?u (tx_inputs tx)"
    by (auto simp: raw)
  from offsets_loop_pos [OF gs(2), of ?p2 l] len gs(1,3) obtain oo where oo:
    "offsets_loop (length (tx_outputs tx)) 8 0 (at_pos ?p2 (concat outs @ l)) = Ok (oo, at_pos (?p2 @ concat outs) l)"
    "map (\<lambda>(p, l). pyslice p (p + l) raw) oo = map to_script (tx_outputs tx)"
    by (auto simp: raw)
  have start: "skip_read 4 (mk_reader raw) = at_pos v (varint_enc (length (tx_inputs tx)) @ concat ins @ varint_enc (length (tx_outputs tx)) @ concat outs @ l)"
    using skip_read_pos [OF v, of "[]"] by (simp add: mk_reader_def at_pos_def raw)
  have "parse_script_offsets raw = Ok (io, oo)"
    using io(1) oo(1) n by (simp add: parse_script_offsets_def start varint_or_raise_pos)
  with io(2) oo(2) show ?thesis by blast
qed

lemma varint_size: "n < 2 ^ 64 \<Longrightarrow> length (varint_enc n) = get_varint_size n"
  by (simp add: varint_enc_def get_varint_size_def)

text \<open>The sizes are exact: for a signed transaction the size of the fee model and the estimated size are
  both the length of the serialisation.\<close>

theorem sizes_exact:
  assumes "serialize tx = Ok raw" and "\<forall>i\<in>set (tx_inputs tx). full_txid i \<and> ti_unlocking i \<noteq> None"
  shows "fee_model_size tx = Ok (length raw) \<and> estimated_byte_length tx = Ok (length raw)"
proof -
  have t: "\<forall>i\<in>set (tx_inputs tx). full_txid i" using assms(2) by simp
  from assms(1) t show ?thesis
  proof (rule serialize_shape)
    fix v ins outs l
    assume v: "length v = 4" "length l = 4" and n: "length (tx_inputs tx) < 2 ^ 64" "length (tx_outputs tx) < 2 ^ 64"
      and i: "list_all2 (\<lambda>i b. in_serialize i = Ok b \<and> full_txid i) (tx_inputs tx) ins"
      and o': "list_all2 (\<lambda>out b. out_serialize out = Ok b) (tx_outputs tx) outs"
      and raw: "raw = v @ varint_enc (length (tx_inputs tx)) @ concat ins @ varint_enc (length (tx_outputs tx)) @ concat outs @ l"
    have one: "script_length i = Ok (length (the (ti_unlocking i))) \<and> estimated_in i = Ok (length b)
        \<and> length b = 40 + get_varint_size (length (the (ti_unlocking i))) + length (the (ti_unlocking i))"
      if "in_serialize i = Ok b" "full_txid i" "ti_unlocking i \<noteq> None" for i b
      using in_serialize_field [OF that(1,2)] that(1,3)
      by (auto simp: script_length_def estimated_in_def wf_field_def enc_field_def varint_size)
    have ins: "map_r script_length (tx_inputs tx) = Ok (map (\<lambda>i. length (the (ti_unlocking i))) (tx_inputs tx))
        \<and> map_r estimated_in (tx_inputs tx) = Ok (map length ins)
        \<and> length (concat ins) = sum_list (map (\<lambda>n. 40 + get_varint_size n + n) (map (\<lambda>i. length (the (ti_unlocking i))) (tx_inputs tx)))"
      using i assms(2)
    proof (induction rule: list_all2_induct)
      case (Cons x xs b bs)
      with one [of x b] show ?case by simp
    qed simp
    have out: "estimated_out out = Ok (length b) \<and> length b = 8 + get_varint_size (length (to_script out)) + length (to_script out)"
      if "out_serialize out = Ok b" for out b
      using out_serialize_field [OF that]
      by (auto simp: estimated_out_def varint_len_def wf_field_def enc_field_def varint_size varint_Ok [THEN iffD2])
    have outs: "map_r estimated_out (tx_outputs tx) = Ok (map length outs)
        \<and> length (concat outs) = sum_list (map (\<lambda>out. 8 + get_varint_size (length (to_script out)) + length (to_script out)) (tx_outputs tx))"
      using o'
    proof (induction rule: list_all2_induct)
      case (Cons x xs b bs)
      with out [of x b] show ?case by simp
    qed simp
    have vl: "varint_len (length (tx_inputs tx)) = Ok (length (varint_enc (length (tx_inputs tx))))"
      "varint_len (length (tx_outputs tx)) = Ok (length (varint_enc (length (tx_outputs tx))))"
      using n by (simp_all add: varint_len_def varint_Ok [THEN iffD2])
    from ins outs vl n v raw show ?thesis
      by (simp add: fee_model_size_def estimated_byte_length_def varint_size length_concat)
  qed
qed

section \<open>An example\<close>

definition example_in :: tx_in where
  "example_in =
     \<lparr>ti_txid = Some (hex (replicate 32 7)), ti_vout = 1, ti_satoshis = Some 1000, ti_locking = Some [0x51],
      ti_source = Some [\<lparr>to_satoshis = None, to_script = [], to_change = False\<rparr>, \<lparr>to_satoshis = Some 1000, to_script = [0x51], to_change = False\<rparr>],
      ti_unlocking = Some [0x51], ti_template = None, ti_sequence = 0xFFFFFFFF, ti_sighash = 0x41\<rparr>"

definition example_transaction :: transaction where
  "example_transaction =
     \<lparr>tx_inputs = [example_in],
      tx_outputs = [\<lparr>to_satoshis = Some 700, to_script = [0x52], to_change = False\<rparr>, \<lparr>to_satoshis = Some 1, to_script = [0x53], to_change = True\<rparr>],
      tx_ver = 1, tx_lock = 0x01020304\<rparr>"

lemma example_full: "\<forall>i\<in>set (tx_inputs example_transaction). full_txid i \<and> ti_unlocking i \<noteq> None"
  by (simp add: example_transaction_def example_in_def full_txid_def txid_bytes_def)

lemma example_serializes: "\<exists>raw. serialize example_transaction = Ok raw"
proof -
  have "txid_bytes example_in = Ok (replicate 32 7)" by (simp add: txid_bytes_def example_in_def)
  then have "\<exists>b. in_serialize example_in = Ok b"
    by (simp add: in_serialize_def unlocking_bytes_def example_in_def to_bytes_le_def unsigned_to_varint_def)
  then show ?thesis
    by (auto simp: serialize_def example_transaction_def out_serialize_def to_bytes_le_def unsigned_to_varint_def)
qed

theorem tx_roundtrip_witness:
  "\<exists>raw. serialize example_transaction = Ok raw
    \<and> from_reader (at_pos [1] (raw @ [2])) = (Ok (strip_tx example_transaction), at_pos ([1] @ raw) [2])"
  using example_serializes tx_roundtrip [of example_transaction _ "[1]" "[2]"] example_full by blast

theorem truncated_tx_accepted_witness:
  "\<exists>raw. serialize example_transaction = Ok raw
    \<and> from_hex (take (length raw - 3) raw) = Some ((strip_tx example_transaction)\<lparr>tx_lock := 4\<rparr>)"
proof -
  obtain raw where r: "serialize example_transaction = Ok raw" using example_serializes by blast
  have "tx_lock example_transaction mod 256 ^ (4 - 3) = 4" by (simp add: example_transaction_def)
  with truncated_tx_accepted [OF r, of 3] example_full r show ?thesis by auto
qed

theorem script_offsets_correct_witness:
  "\<exists>raw ins outs. serialize example_transaction = Ok raw \<and> parse_script_offsets raw = Ok (ins, outs)
    \<and> map (\<lambda>(p, l). pyslice p (p + l) raw) outs = [[0x52], [0x53]]"
proof -
  obtain raw where r: "serialize example_transaction = Ok raw" using example_serializes by blast
  from script_offsets_correct [OF r] example_full r show ?thesis by (auto simp: example_transaction_def)
qed

theorem sizes_exact_witness:
  "\<exists>raw. serialize example_transaction = Ok raw \<and> fee_model_size example_transaction = Ok (length raw)
    \<and> estimated_byte_length example_transaction = Ok (length raw)"
  using example_serializes sizes_exact [of example_transaction] example_full by blast

theorem fee_conserves_witness:
  "\<exists>tx'. fee_equal 200 example_transaction = Ok tx' \<and> total_value_out tx' = Ok 800"
proof -
  have f: "fee_equal 200 example_transaction = Ok (example_transaction\<lparr>tx_outputs :=
      [\<lparr>to_satoshis = Some 700, to_script = [0x52], to_change = False\<rparr>, \<lparr>to_satoshis = Some 100, to_script = [0x53], to_change = True\<rparr>]\<rparr>)"
    by (simp add: fee_equal_def example_transaction_def example_in_def source_value_def py_index_def satoshis_of_def)
  have v: "map_r source_value (tx_inputs example_transaction) = Ok [1000]"
    by (simp add: example_transaction_def example_in_def source_value_def py_index_def satoshis_of_def)
  from fee_conserves [OF f v] f show ?thesis by auto
qed

end
