(* ===== verification/Sighash.thy ===== *)
theory Sighash
  imports Transaction "HOL-Library.List_Lexorder"
begin

text \<open>
  What a signature of the wallet commits to: \<open>pyrxd/transaction/transaction_preimage.py\<close>, the signature
  preimage of Bitcoin Cash with Radiant's \<open>hashOutputHashes\<close> field, which also hashes the references an
  output pushes.
\<close>

unbundle bit_operations_syntax

section \<open>The references of a script\<close>

definition is_pushref :: "byte \<Rightarrow> bool" where
  "is_pushref op \<longleftrightarrow> op = 0xD0 \<or> op = 0xD8"

fun push_ref_walk :: "bytes \<Rightarrow> bytes list result" where
  "push_ref_walk [] = Ok []"
| "push_ref_walk (op # rest) =
     (if is_pushref op then
        (if length rest < 36 then Err ValidationError
         else bind_r (push_ref_walk (drop 36 rest)) (\<lambda>rs. Ok (take 36 rest # rs)))
      else if is_direct_push op then push_ref_walk (drop (unat op) rest)
      else if op = 0x4C then
        (if rest = [] then Err IndexError else push_ref_walk (drop (1 + unat (rest ! 0)) rest))
      else if op = 0x4D then push_ref_walk (drop (2 + le_val (take 2 rest)) rest)
      else if op = 0x4E then push_ref_walk (drop (4 + le_val (take 4 rest)) rest)
      else push_ref_walk rest)"

text \<open>
  \<open>sorted(refs.values(), key=lambda r: r[::-1])\<close> over a dict keyed by the reference: without
  duplicates, in the order of the reversed bytes.
\<close>

definition get_push_refs :: "bytes \<Rightarrow> bytes list result" where
  "get_push_refs script = bind_r (push_ref_walk script) (\<lambda>rs. Ok (sort_key rev (remdups rs)))"

section \<open>The preimage\<close>

definition output_summary :: "tx_out \<Rightarrow> bytes result" where
  "output_summary out =
     (case to_satoshis out of
        None \<Rightarrow> Err OtherError
      | Some n \<Rightarrow>
          bind_r (to_bytes_le n 8) (\<lambda>v.
          bind_r (get_push_refs (to_script out)) (\<lambda>refs.
          bind_r (pack_u 4 (int (length refs))) (\<lambda>c.
            Ok (v @ hash256 (to_script out) @ c @ (if refs = [] then replicate 32 0 else hash256 (concat refs)))))))"

definition compute_hash_output_hashes :: "tx_out list \<Rightarrow> nat option \<Rightarrow> bytes result" where
  "compute_hash_output_hashes outs index =
     bind_r (case index of
               None \<Rightarrow> map_r output_summary outs
             | Some i \<Rightarrow> if i < length outs then map_r output_summary [outs ! i] else Err IndexError)
       (\<lambda>bs. Ok (hash256 (concat bs)))"

definition outpoint_bytes :: "tx_in \<Rightarrow> bytes result" where
  "outpoint_bytes i = bind_r (txid_bytes i) (\<lambda>t. bind_r (to_bytes_le (ti_vout i) 4) (\<lambda>v. Ok (t @ v)))"

definition locking_bytes :: "tx_in \<Rightarrow> bytes result" where
  "locking_bytes i =
     (case ti_locking i of
        None \<Rightarrow> Err OtherError
      | Some s \<Rightarrow> bind_r (unsigned_to_varint (int (length s))) (\<lambda>v. Ok (v @ s)))"

definition value_bytes :: "tx_in \<Rightarrow> bytes result" where
  "value_bytes i = (case ti_satoshis i of None \<Rightarrow> Err OtherError | Some n \<Rightarrow> to_bytes_le n 8)"

definition preimage :: "tx_in \<Rightarrow> int \<Rightarrow> int \<Rightarrow> bytes \<Rightarrow> bytes \<Rightarrow> bytes \<Rightarrow> bytes \<Rightarrow> bytes result" where
  "preimage i ver lock hash_prevouts hash_sequence hash_output_hashes hash_outputs =
     bind_r (to_bytes_le ver 4) (\<lambda>v.
     bind_r (outpoint_bytes i) (\<lambda>op.
     bind_r (locking_bytes i) (\<lambda>sc.
     bind_r (value_bytes i) (\<lambda>val.
     bind_r (to_bytes_le (ti_sequence i) 4) (\<lambda>sq.
     bind_r (to_bytes_le lock 4) (\<lambda>l.
     bind_r (to_bytes_le (ti_sighash i) 4) (\<lambda>sh.
       Ok (v @ hash_prevouts @ hash_sequence @ op @ sc @ val @ sq @ hash_output_hashes @ hash_outputs @ l @ sh))))))))"

definition hash_all :: "('a \<Rightarrow> bytes result) \<Rightarrow> 'a list \<Rightarrow> bytes result" where
  "hash_all f xs = bind_r (map_r f xs) (\<lambda>bs. Ok (hash256 (concat bs)))"

definition seq_bytes :: "tx_in \<Rightarrow> bytes result" where
  "seq_bytes i = to_bytes_le (ti_sequence i) 4"

definition zero32 :: bytes where "zero32 = replicate 32 0"

definition anyonecanpay :: "int \<Rightarrow> bool" where "anyonecanpay sh \<longleftrightarrow> sh AND 0x80 \<noteq> 0"
definition is_single :: "int \<Rightarrow> bool" where "is_single sh \<longleftrightarrow> sh AND 0x1F = 3"
definition is_none :: "int \<Rightarrow> bool" where "is_none sh \<longleftrightarrow> sh AND 0x1F = 2"

definition tx_preimages :: "tx_in list \<Rightarrow> tx_out list \<Rightarrow> int \<Rightarrow> int \<Rightarrow> bytes list result" where
  "tx_preimages ins outs ver lock =
     bind_r (hash_all outpoint_bytes ins) (\<lambda>prevouts.
     bind_r (hash_all seq_bytes ins) (\<lambda>seqs.
     bind_r (hash_all out_serialize outs) (\<lambda>all_outs.
     bind_r (compute_hash_output_hashes outs None) (\<lambda>all_hashes.
       map_r (\<lambda>k.
         let i = ins ! k; sh = ti_sighash i;
             hash_prevouts = (if \<not> anyonecanpay sh then prevouts else zero32);
             hash_sequence = (if \<not> anyonecanpay sh \<and> \<not> is_single sh \<and> \<not> is_none sh then seqs else zero32)
         in bind_r
              (if \<not> is_single sh \<and> \<not> is_none sh then Ok (all_outs, all_hashes)
               else if is_single sh \<and> k < length outs then
                 bind_r (out_serialize (outs ! k)) (\<lambda>b.
                 bind_r (compute_hash_output_hashes outs (Some k)) (\<lambda>h. Ok (hash256 b, h)))
               else Ok (zero32, zero32))
              (\<lambda>(hash_outputs, hash_output_hashes).
                 preimage i ver lock hash_prevouts hash_sequence hash_output_hashes hash_outputs)) [0..<length ins]))))"

definition tx_preimage :: "nat \<Rightarrow> tx_in list \<Rightarrow> tx_out list \<Rightarrow> int \<Rightarrow> int \<Rightarrow> bytes result" where
  "tx_preimage k ins outs ver lock =
     (if k < length ins then
        let i = ins ! k; sh = ti_sighash i in
        bind_r (if \<not> anyonecanpay sh then hash_all outpoint_bytes ins else Ok zero32) (\<lambda>hash_prevouts.
        bind_r (if \<not> anyonecanpay sh \<and> \<not> is_single sh \<and> \<not> is_none sh then hash_all seq_bytes ins else Ok zero32) (\<lambda>hash_sequence.
        bind_r
          (if \<not> is_single sh \<and> \<not> is_none sh then
             bind_r (hash_all out_serialize outs) (\<lambda>h. bind_r (compute_hash_output_hashes outs None) (\<lambda>hh. Ok (h, hh)))
           else if is_single sh \<and> k < length outs then
             bind_r (out_serialize (outs ! k)) (\<lambda>b.
             bind_r (compute_hash_output_hashes outs (Some k)) (\<lambda>h. Ok (hash256 b, h)))
           else Ok (zero32, zero32))
          (\<lambda>(hash_outputs, hash_output_hashes).
             preimage i ver lock hash_prevouts hash_sequence hash_output_hashes hash_outputs)))
      else Err IndexError)"

text \<open>\<open>Transaction.preimage\<close> checks the index.\<close>

definition tx_preimage_of :: "transaction \<Rightarrow> int \<Rightarrow> bytes result" where
  "tx_preimage_of tx index =
     (if \<not> (0 \<le> index \<and> index < int (length (tx_inputs tx))) then Err ValueError
      else tx_preimage (nat index) (tx_inputs tx) (tx_outputs tx) (tx_ver tx) (tx_lock tx))"

section \<open>Properties\<close>


subsection \<open>References in the order of the consensus rules\<close>

lemma pushref_is_ref: "is_pushref op \<Longrightarrow> is_ref_op op"
  by (auto simp: is_pushref_def is_ref_op_def)

lemma push_ref_walk_tok:
  assumes "wf_tok t" "\<forall>(op, r)\<in>set (refs_of t). is_pushref op"
  shows "push_ref_walk (enc_tok t @ s) = bind_r (push_ref_walk s) (\<lambda>rs. Ok (map snd (refs_of t) @ rs))"
  using assms
proof (cases rule: wf_tok_cases)
  case (direct b d)
  then show ?thesis using pushref_is_ref [of b] by auto
next
  case (plain b)
  then show ?thesis using pushref_is_ref [of b] by auto
qed (simp_all add: is_pushref_def is_direct_push_def)

lemma push_ref_walk_enc:
  "list_all wf_tok ts \<Longrightarrow> \<forall>(op, r)\<in>set (concat (map refs_of ts)). is_pushref op \<Longrightarrow>
    push_ref_walk (enc_script ts) = Ok (map snd (concat (map refs_of ts)))"
  by (induction ts) (auto simp: push_ref_walk_tok)

lemma refs_of_length: "wf_tok t \<Longrightarrow> (op, r) \<in> set (refs_of t) \<Longrightarrow> length r = 36"
  by (cases t) auto

lemma snoc_less: "length u = length v \<Longrightarrow> u @ [x] < v @ [y] \<longleftrightarrow> u < v \<or> u = v \<and> x < (y :: 'a :: linorder)"
  by (induction u v rule: list_induct2) auto

lemma rev_less_iff_le_val: "length a = length b \<Longrightarrow> rev a < rev b \<longleftrightarrow> le_val a < le_val b"
proof (induction a b rule: list_induct2)
  case (Cons x xs y ys)
  have "unat x < 256" "unat y < 256" using unsigned_less [of x] unsigned_less [of y] by simp_all
  moreover have "xs = ys \<longleftrightarrow> le_val xs = le_val ys" using Cons.hyps le_val_inj by blast
  ultimately have "unat x + 256 * le_val xs < unat y + 256 * le_val ys \<longleftrightarrow> le_val xs < le_val ys \<or> xs = ys \<and> unat x < unat y"
    by linarith
  with Cons show ?case by (simp add: snoc_less word_less_nat_alt)
qed simp


lemma sort_key_rev_strict:
  assumes "\<forall>r\<in>set rs. length r = n" "distinct rs"
  shows "sorted_wrt (\<lambda>a b. le_val a < le_val b) (sort_key rev rs)"
proof -
  have "sorted_wrt (\<lambda>a b. rev a \<le> rev b) (sort_key rev rs)" using sorted_sort_key [of rev rs] by (simp add: sorted_map)
  moreover have "distinct (sort_key rev rs)" using assms(2) by simp
  ultimately have "sorted_wrt (\<lambda>a b. rev a \<le> rev b \<and> a \<noteq> b) (sort_key rev rs)"
    by (simp add: sorted_wrt_iff_nth_less distinct_conv_nth)
  then have "sorted_wrt (\<lambda>a b. rev a < rev b) (sort_key rev rs)"
    by (rule sorted_wrt_mono_rel [rotated]) (auto simp: order_less_le)
  then show ?thesis
    by (rule sorted_wrt_mono_rel [rotated]) (use assms(1) rev_less_iff_le_val in \<open>simp\<close>)
qed

text \<open>The references of an output are the ones the consensus rules hash. For every script that
  \<open>iter_input_refs\<close> of the covenant code reads and that pushes references only with the two push
  opcodes, \<open>_get_push_refs\<close> returns exactly the references found there, each once, in strictly
  ascending order of their value as little-endian numbers.\<close>

theorem push_refs_correct:
  assumes "iter_input_refs script = Ok found" and "\<forall>(op, r)\<in>set found. is_pushref op"
  shows "\<exists>refs. get_push_refs script = Ok refs \<and> set refs = snd ` set found \<and> sorted_wrt (\<lambda>a b. le_val a < le_val b) refs"
proof -
  from iter_input_refs_parse [OF assms(1)] obtain ts where ts: "list_all wf_tok ts" "script = enc_script ts" by blast
  with assms(1) have found: "found = concat (map refs_of ts)" by (simp add: iter_input_refs_enc)
  let ?rs = "map snd found"
  have walk: "push_ref_walk script = Ok ?rs" using push_ref_walk_enc ts assms(2) by (simp add: found)
  have "\<forall>r\<in>set ?rs. length r = 36" using ts(1) refs_of_length by (fastforce simp: found list_all_iff)
  then have "sorted_wrt (\<lambda>a b. le_val a < le_val b) (sort_key rev (remdups ?rs))"
    by (intro sort_key_rev_strict) auto
  then show ?thesis by (simp add: get_push_refs_def walk)
qed

theorem push_refs_correct_witness:
  "\<exists>refs. get_push_refs (0xD8 # replicate 35 0 @ [1] @ [0x75, 0xD0] @ [2] @ replicate 35 0) = Ok refs
    \<and> set refs = {[2] @ replicate 35 0, replicate 35 0 @ [1]} \<and> sorted_wrt (\<lambda>a b. le_val a < le_val b) refs"
  using push_refs_correct [of "0xD8 # replicate 35 0 @ [1] @ [0x75, 0xD0] @ [2] @ replicate 35 0"
    "[(0xD8, replicate 35 0 @ [1]), (0xD0, [2] @ replicate 35 0)]"]
  by (simp add: is_ref_op_def is_pushref_def is_direct_push_def insert_commute)

text \<open>A reference that is only required or disallowed is misread. The operand of \<open>OP_REQUIREINPUTREF\<close> is
  36 bytes as well, which \<open>iter_input_refs\<close> skips; \<open>_get_push_refs\<close> reads them as instructions. So there
  are outputs that cannot be signed at all, and outputs for which a reference is hashed that they do
  not push.\<close>

theorem required_ref_misread:
  "iter_input_refs (0xD1 # replicate 36 0xD0) = Ok [(0xD1, replicate 36 0xD0)]
   \<and> get_push_refs (0xD1 # replicate 35 0 @ [0xD0]) = Err ValidationError
   \<and> iter_input_refs (0xD1 # replicate 35 0 @ [0xD0] @ 0x24 # replicate 36 5) = Ok [(0xD1, replicate 35 0 @ [0xD0])]
   \<and> get_push_refs (0xD1 # replicate 35 0 @ [0xD0] @ 0x24 # replicate 36 5) = Ok [0x24 # replicate 35 5]"
  by code_simp

subsection \<open>One preimage or all\<close>

definition preimage_with :: "bytes \<Rightarrow> bytes \<Rightarrow> bytes \<Rightarrow> bytes \<Rightarrow> tx_in list \<Rightarrow> tx_out list \<Rightarrow> int \<Rightarrow> int \<Rightarrow> nat \<Rightarrow> bytes result" where
  "preimage_with prevouts seqs all_outs all_hashes ins outs ver lock k =
     (let i = ins ! k; sh = ti_sighash i;
          hash_prevouts = (if \<not> anyonecanpay sh then prevouts else zero32);
          hash_sequence = (if \<not> anyonecanpay sh \<and> \<not> is_single sh \<and> \<not> is_none sh then seqs else zero32)
      in bind_r
           (if \<not> is_single sh \<and> \<not> is_none sh then Ok (all_outs, all_hashes)
            else if is_single sh \<and> k < length outs then
              bind_r (out_serialize (outs ! k)) (\<lambda>b.
              bind_r (compute_hash_output_hashes outs (Some k)) (\<lambda>h. Ok (hash256 b, h)))
            else Ok (zero32, zero32))
           (\<lambda>(hash_outputs, hash_output_hashes).
              preimage i ver lock hash_prevouts hash_sequence hash_output_hashes hash_outputs))"

lemma tx_preimages_cases:
  assumes "tx_preimages ins outs ver lock = Ok ds"
  obtains prevouts seqs all_outs all_hashes where
    "hash_all outpoint_bytes ins = Ok prevouts" "hash_all seq_bytes ins = Ok seqs" "hash_all out_serialize outs = Ok all_outs"
    "compute_hash_output_hashes outs None = Ok all_hashes"
    "list_all2 (\<lambda>k d. preimage_with prevouts seqs all_outs all_hashes ins outs ver lock k = Ok d) [0..<length ins] ds"
  using assms unfolding tx_preimages_def preimage_with_def [symmetric] by (auto simp: bind_r_Ok_iff map_r_Ok_iff)

lemma tx_preimage_with:
  assumes "hash_all outpoint_bytes ins = Ok prevouts" "hash_all seq_bytes ins = Ok seqs" "hash_all out_serialize outs = Ok all_outs"
    "compute_hash_output_hashes outs None = Ok all_hashes" "k < length ins"
  shows "tx_preimage k ins outs ver lock = preimage_with prevouts seqs all_outs all_hashes ins outs ver lock k"
  using assms by (simp add: tx_preimage_def preimage_with_def Let_def)

text \<open>The two ways to compute preimages agree: whenever \<open>tx_preimages\<close>, which hashes the shared parts
  once, returns, it returns one preimage per input, and each is what \<open>tx_preimage\<close> returns for it,
  whatever mixture of signature types the inputs carry.\<close>

theorem preimages_agree:
  assumes "tx_preimages ins outs ver lock = Ok ds"
  shows "length ds = length ins \<and> (\<forall>k<length ins. tx_preimage k ins outs ver lock = Ok (ds ! k))"
  using assms
proof (rule tx_preimages_cases)
  fix prevouts seqs all_outs all_hashes
  assume p: "hash_all outpoint_bytes ins = Ok prevouts" "hash_all seq_bytes ins = Ok seqs" "hash_all out_serialize outs = Ok all_outs"
    "compute_hash_output_hashes outs None = Ok all_hashes"
    and ds: "list_all2 (\<lambda>k d. preimage_with prevouts seqs all_outs all_hashes ins outs ver lock k = Ok d) [0..<length ins] ds"
  from ds have "length ds = length ins" by (simp add: list_all2_conv_all_nth)
  moreover from ds have "preimage_with prevouts seqs all_outs all_hashes ins outs ver lock k = Ok (ds ! k)" if "k < length ins" for k
    using that by (simp add: list_all2_conv_all_nth)
  ultimately show ?thesis using tx_preimage_with [OF p] by simp
qed

subsection \<open>What a signature commits to\<close>

lemma concat_blocks_inj:
  assumes "concat xs = concat ys" "\<forall>b\<in>set xs \<union> set ys. length b = n" "0 < n"
  shows "xs = ys"
  using assms(1,2)
proof (induction xs arbitrary: ys)
  case Nil
  then show ?case using assms(3) by (cases ys) auto
next
  case (Cons x xs)
  then obtain y ys' where ys: "ys = y # ys'" using assms(3) by (cases ys) auto
  with Cons.prems have "x = y" "concat xs = concat ys'" by (auto simp: append_eq_append_conv)
  with Cons.IH [of ys'] Cons.prems(2) ys show ?case by auto
qed

lemma varint_prefix_inj:
  assumes "varint_enc (length s) @ s @ x = varint_enc (length t) @ t @ y" "length s < 2 ^ 64" "length t < 2 ^ 64"
  shows "s = t \<and> x = y"
proof -
  have "length s = length t"
    using read_varint_pos [OF assms(2), of "[]" "s @ x"] read_varint_pos [OF assms(3), of "[]" "t @ y"] assms(1) by simp
  with assms(1) show ?thesis by (auto simp: append_eq_append_conv)
qed

lemma out_serialize_prefix_inj:
  assumes "out_serialize a = Ok x" "out_serialize b = Ok y" "x @ p = y @ q"
  shows "strip_out a = strip_out b \<and> p = q"
proof -
  have "(Some (strip_out a), at_pos x p) = (Some (strip_out b), at_pos y q)"
    using out_from_hex_pos [OF assms(1), of "[]" p] out_from_hex_pos [OF assms(2), of "[]" q] assms(3) by simp
  then have "strip_out a = strip_out b" "length x = length y" by (auto simp: at_pos_def)
  with assms(3) show ?thesis by (auto simp: append_eq_append_conv)
qed

lemma out_serialize_nonempty: "out_serialize a = Ok x \<Longrightarrow> x \<noteq> []"
  by (erule out_serialize_shape) auto

lemma outs_serialize_inj:
  assumes "map_r out_serialize outs = Ok xs" "map_r out_serialize outs' = Ok ys" "concat xs = concat ys"
  shows "map strip_out outs = map strip_out outs'"
  using assms
proof (induction outs arbitrary: outs' xs ys)
  case Nil
  then show ?case by (cases outs') (auto simp: bind_r_Ok_iff dest: out_serialize_nonempty)
next
  case (Cons a outs)
  from Cons.prems(1) obtain x xs' where xs: "out_serialize a = Ok x" "map_r out_serialize outs = Ok xs'" "xs = x # xs'"
    by (auto simp: bind_r_Ok_iff)
  with Cons.prems obtain b outs'' y ys' where ys: "outs' = b # outs''" "out_serialize b = Ok y" "map_r out_serialize outs'' = Ok ys'" "ys = y # ys'"
    by (cases outs') (auto simp: bind_r_Ok_iff dest: out_serialize_nonempty)
  from out_serialize_prefix_inj [OF xs(1) ys(2), of "concat xs'" "concat ys'"] Cons.prems(3) xs ys
  have "strip_out a = strip_out b" "concat xs' = concat ys'" by auto
  with Cons.IH [OF xs(2) ys(3)] ys(1) show ?case by simp
qed

lemma outpoint_bytes_shape:
  assumes "outpoint_bytes i = Ok b" "full_txid i"
  shows "length b = 36 \<and> txid_bytes i = Ok (take 32 b) \<and> ti_vout i = int (le_val (drop 32 b))"
  using assms by (auto simp: outpoint_bytes_def full_txid_def bind_r_Ok_iff dest!: to_bytes_le_val)

lemma map_r_same_bytes:
  assumes "map_r f xs = Ok bs" "map_r f ys = Ok bs" "\<And>x y b. x \<in> set xs \<Longrightarrow> y \<in> set ys \<Longrightarrow> f x = Ok b \<Longrightarrow> f y = Ok b \<Longrightarrow> g x = g y"
  shows "map g xs = map g ys"
  using assms by (auto simp: map_r_Ok_iff list_all2_conv_all_nth intro!: nth_equalityI)

lemma map_r_length: "map_r f xs = Ok bs \<Longrightarrow> (\<And>x b. x \<in> set xs \<Longrightarrow> f x = Ok b \<Longrightarrow> length b = n) \<Longrightarrow> \<forall>b\<in>set bs. length b = n"
  by (induction xs arbitrary: bs) (fastforce simp: bind_r_Ok_iff)+

lemma preimage_shape:
  assumes "preimage i ver lock hp hs hoh ho = Ok p" "full_txid i"
  obtains v op s vb sq l sh where
    "p = v @ hp @ hs @ op @ varint_enc (length s) @ s @ vb @ sq @ hoh @ ho @ l @ sh"
    "length v = 4" "int (le_val v) = ver" "outpoint_bytes i = Ok op" "length op = 36" "ti_locking i = Some s" "length s < 2 ^ 64"
    "length vb = 8" "ti_satoshis i = Some (int (le_val vb))" "length sq = 4" "int (le_val sq) = ti_sequence i"
    "length l = 4" "int (le_val l) = lock" "length sh = 4" "int (le_val sh) = ti_sighash i"
proof -
  from assms(1) obtain v op sc vb sq l sh where p:
    "to_bytes_le ver 4 = Ok v" "outpoint_bytes i = Ok op" "locking_bytes i = Ok sc" "value_bytes i = Ok vb"
    "to_bytes_le (ti_sequence i) 4 = Ok sq" "to_bytes_le lock 4 = Ok l" "to_bytes_le (ti_sighash i) 4 = Ok sh"
    "p = v @ hp @ hs @ op @ sc @ vb @ sq @ hoh @ ho @ l @ sh"
    by (auto simp: preimage_def bind_r_Ok_iff)
  from p(3) obtain s where s: "ti_locking i = Some s" "length s < 2 ^ 64" "sc = varint_enc (length s) @ s"
    by (auto simp: locking_bytes_def bind_r_Ok_iff varint_Ok split: option.splits)
  from p(4) obtain n where n: "ti_satoshis i = Some n" "to_bytes_le n 8 = Ok vb" by (auto simp: value_bytes_def split: option.splits)
  from p(1,5,6,7) n(2) have c: "int (le_val v) = ver \<and> length v = 4" "int (le_val sq) = ti_sequence i \<and> length sq = 4"
    "int (le_val l) = lock \<and> length l = 4" "int (le_val sh) = ti_sighash i \<and> length sh = 4" "int (le_val vb) = n \<and> length vb = 8"
    by (simp_all only: to_bytes_le_val)
  show ?thesis
    by (rule that [of v op s vb sq l sh]) (use p(8) p(2) s n(1) c outpoint_bytes_shape [OF p(2) assms(2)] in simp_all)
qed

text \<open>Two preimages with equal bytes agree field by field.\<close>

lemma preimage_inj:
  assumes "preimage i ver lock hp hs hoh ho = Ok p" "full_txid i" "preimage i' ver' lock' hp' hs' hoh' ho' = Ok p" "full_txid i'"
    and len: "length hp = 32" "length hp' = 32" "length hs = 32" "length hs' = 32" "length hoh = 32" "length hoh' = 32"
      "length ho = 32" "length ho' = 32"
  shows "hp = hp' \<and> hs = hs' \<and> hoh = hoh' \<and> ho = ho' \<and> ver = ver' \<and> lock = lock' \<and> outpoint_bytes i = outpoint_bytes i'
    \<and> ti_locking i = ti_locking i' \<and> ti_satoshis i = ti_satoshis i' \<and> ti_sequence i = ti_sequence i' \<and> ti_sighash i = ti_sighash i'"
  using assms(1,2)
proof (rule preimage_shape)
  fix v op s vb sq l sh
  assume p: "p = v @ hp @ hs @ op @ varint_enc (length s) @ s @ vb @ sq @ hoh @ ho @ l @ sh"
    "length v = 4" "int (le_val v) = ver" "outpoint_bytes i = Ok op" "length op = 36" "ti_locking i = Some s" "length s < 2 ^ 64"
    "length vb = 8" "ti_satoshis i = Some (int (le_val vb))" "length sq = 4" "int (le_val sq) = ti_sequence i"
    "length l = 4" "int (le_val l) = lock" "length sh = 4" "int (le_val sh) = ti_sighash i"
  from assms(3,4) show ?thesis
  proof (rule preimage_shape)
    fix v' op' s' vb' sq' l' sh'
    assume q: "p = v' @ hp' @ hs' @ op' @ varint_enc (length s') @ s' @ vb' @ sq' @ hoh' @ ho' @ l' @ sh'"
      "length v' = 4" "int (le_val v') = ver'" "outpoint_bytes i' = Ok op'" "length op' = 36" "ti_locking i' = Some s'" "length s' < 2 ^ 64"
      "length vb' = 8" "ti_satoshis i' = Some (int (le_val vb'))" "length sq' = 4" "int (le_val sq') = ti_sequence i'"
      "length l' = 4" "int (le_val l') = lock'" "length sh' = 4" "int (le_val sh') = ti_sighash i'"
    have front: "v = v' \<and> hp = hp' \<and> hs = hs' \<and> op = op' \<and>
        varint_enc (length s) @ s @ vb @ sq @ hoh @ ho @ l @ sh = varint_enc (length s') @ s' @ vb' @ sq' @ hoh' @ ho' @ l' @ sh'"
      using p(1,2,5) q(1,2,5) len by (simp add: append_eq_append_conv)
    from varint_prefix_inj [OF front [THEN conjunct2, THEN conjunct2, THEN conjunct2, THEN conjunct2] p(7) q(7)]
    have "s = s' \<and> vb = vb' \<and> sq = sq' \<and> hoh = hoh' \<and> ho = ho' \<and> l = l' \<and> sh = sh'"
      using p(8,10,12) q(8,10,12) len by (simp add: append_eq_append_conv)
    with front p q show ?thesis by auto
  qed
qed

text \<open>
  The hash of the serialised list has no collision between these two lists.
\<close>

definition no_collision :: "('a \<Rightarrow> bytes result) \<Rightarrow> 'a list \<Rightarrow> 'a list \<Rightarrow> bool" where
  "no_collision f xs ys \<longleftrightarrow>
     (\<forall>a b. map_r f xs = Ok a \<longrightarrow> map_r f ys = Ok b \<longrightarrow> hash256 (concat a) = hash256 (concat b) \<longrightarrow> concat a = concat b)"

lemma hash_all_inj:
  assumes "hash_all f xs = Ok h" "hash_all f ys = Ok h" "no_collision f xs ys"
  obtains a b where "map_r f xs = Ok a" "map_r f ys = Ok b" "concat a = concat b"
proof -
  from assms(1,2) obtain a b where ab: "map_r f xs = Ok a" "map_r f ys = Ok b" "hash256 (concat a) = hash256 (concat b)"
    by (auto simp: hash_all_def bind_r_Ok_iff)
  with assms(3) have "concat a = concat b" unfolding no_collision_def by blast
  with ab that show ?thesis by blast
qed

lemma hash_all_length: "hash_all f xs = Ok h \<Longrightarrow> length h = 32"
  by (auto simp: hash_all_def bind_r_Ok_iff)

lemma compute_length: "compute_hash_output_hashes outs k = Ok h \<Longrightarrow> length h = 32"
  by (auto simp: compute_hash_output_hashes_def bind_r_Ok_iff)

definition plain_all :: "int \<Rightarrow> bool" where
  "plain_all sh \<longleftrightarrow> \<not> anyonecanpay sh \<and> \<not> is_single sh \<and> \<not> is_none sh"

lemma tx_preimage_all:
  assumes "tx_preimage k ins outs ver lock = Ok p" "plain_all (ti_sighash (ins ! k))"
  obtains hp hs ho hoh where "k < length ins" "hash_all outpoint_bytes ins = Ok hp" "hash_all seq_bytes ins = Ok hs"
    "hash_all out_serialize outs = Ok ho" "compute_hash_output_hashes outs None = Ok hoh"
    "preimage (ins ! k) ver lock hp hs hoh ho = Ok p"
  using assms by (auto simp: tx_preimage_def plain_all_def Let_def bind_r_Ok_iff split: if_splits)

lemma tx_preimage_sighash:
  assumes "tx_preimage k ins outs ver lock = Ok p" "full_txid (ins ! k)"
  shows "\<exists>q sh. p = q @ sh \<and> length sh = 4 \<and> int (le_val sh) = ti_sighash (ins ! k)"
proof -
  have "k < length ins" by (rule ccontr) (use assms(1) in \<open>simp add: tx_preimage_def\<close>)
  with assms(1) have "\<exists>hp hs hoh ho. preimage (ins ! k) ver lock hp hs hoh ho = Ok p"
    by (simp only: tx_preimage_def Let_def if_True bind_r_Ok_iff case_prod_beta) blast
  then obtain hp hs hoh ho where "preimage (ins ! k) ver lock hp hs hoh ho = Ok p" by blast
  from this assms(2) show ?thesis
  proof (rule preimage_shape)
    fix v op s vb sq l sh
    assume "p = v @ hp @ hs @ op @ varint_enc (length s) @ s @ vb @ sq @ hoh @ ho @ l @ sh" "length sh = 4" "int (le_val sh) = ti_sighash (ins ! k)"
    then show ?thesis
      by (intro exI [of _ "v @ hp @ hs @ op @ varint_enc (length s) @ s @ vb @ sq @ hoh @ ho @ l"] exI [of _ sh]) simp
  qed
qed

text \<open>C40: A signature over everything commits to everything. If the preimages of two inputs are the same bytes,
  the first with a signature type that covers all inputs and outputs, and the hash has no collision
  between the two transactions, then the transactions agree in version, lock time, all outpoints, all
  sequence numbers and all outputs, and the inputs in the script code, the value and the signature
  type.\<close>

theorem sighash_all_commits:
  assumes "tx_preimage k ins outs ver lock = Ok p" and "tx_preimage k' ins' outs' ver' lock' = Ok p"
    and "plain_all (ti_sighash (ins ! k))" and "\<forall>i\<in>set ins \<union> set ins'. full_txid i" and "k < length ins" and "k' < length ins'"
    and "no_collision outpoint_bytes ins ins'" and "no_collision seq_bytes ins ins'" and "no_collision out_serialize outs outs'"
  shows "ver = ver' \<and> lock = lock' \<and> map txid_bytes ins = map txid_bytes ins' \<and> map ti_vout ins = map ti_vout ins'
    \<and> map ti_sequence ins = map ti_sequence ins' \<and> map strip_out outs = map strip_out outs'
    \<and> outpoint_bytes (ins ! k) = outpoint_bytes (ins' ! k') \<and> ti_locking (ins ! k) = ti_locking (ins' ! k')
    \<and> ti_satoshis (ins ! k) = ti_satoshis (ins' ! k') \<and> ti_sighash (ins ! k) = ti_sighash (ins' ! k')"
proof -
  have f: "full_txid (ins ! k)" "full_txid (ins' ! k')" using assms(4,5,6) by simp_all
  have "ti_sighash (ins ! k) = ti_sighash (ins' ! k')"
    using tx_preimage_sighash [OF assms(1) f(1)] tx_preimage_sighash [OF assms(2) f(2)] by (auto simp: append_eq_append_conv)
  then have all': "plain_all (ti_sighash (ins' ! k'))" using assms(3) by simp
  from assms(1,3) obtain hp hs ho hoh where a: "hash_all outpoint_bytes ins = Ok hp" "hash_all seq_bytes ins = Ok hs"
    "hash_all out_serialize outs = Ok ho" "compute_hash_output_hashes outs None = Ok hoh" "preimage (ins ! k) ver lock hp hs hoh ho = Ok p"
    by (rule tx_preimage_all)
  from assms(2) all' obtain hp' hs' ho' hoh' where b: "hash_all outpoint_bytes ins' = Ok hp'" "hash_all seq_bytes ins' = Ok hs'"
    "hash_all out_serialize outs' = Ok ho'" "compute_hash_output_hashes outs' None = Ok hoh'" "preimage (ins' ! k') ver' lock' hp' hs' hoh' ho' = Ok p"
    by (rule tx_preimage_all)
  note len = hash_all_length [OF a(1)] hash_all_length [OF b(1)] hash_all_length [OF a(2)] hash_all_length [OF b(2)]
    compute_length [OF a(4)] compute_length [OF b(4)] hash_all_length [OF a(3)] hash_all_length [OF b(3)]
  note same = preimage_inj [OF a(5) f(1) b(5) f(2) len]
  from same a b have b': "hash_all outpoint_bytes ins' = Ok hp" "hash_all seq_bytes ins' = Ok hs" "hash_all out_serialize outs' = Ok ho" by simp_all
  from a(1) b'(1) assms(7) obtain x y where op: "map_r outpoint_bytes ins = Ok x" "map_r outpoint_bytes ins' = Ok y" "concat x = concat y"
    by (rule hash_all_inj)
  have "\<forall>z\<in>set x \<union> set y. length z = 36"
    using map_r_length [OF op(1), of 36] map_r_length [OF op(2), of 36] outpoint_bytes_shape assms(4) by blast
  with op(3) have "x = y" by (rule concat_blocks_inj) simp
  with op(2) have op': "map_r outpoint_bytes ins' = Ok x" by simp
  have t: "map txid_bytes ins = map txid_bytes ins'" "map ti_vout ins = map ti_vout ins'"
    by (rule map_r_same_bytes [OF op(1) op'], use assms(4) outpoint_bytes_shape in fastforce)+
  from a(2) b'(2) assms(8) obtain u w where sq: "map_r seq_bytes ins = Ok u" "map_r seq_bytes ins' = Ok w" "concat u = concat w"
    by (rule hash_all_inj)
  have sv: "seq_bytes i = Ok z \<Longrightarrow> length z = 4 \<and> ti_sequence i = int (le_val z)" for i z
    by (simp add: seq_bytes_def to_bytes_le_val)
  have "\<forall>z\<in>set u \<union> set w. length z = 4" using map_r_length [OF sq(1), of 4] map_r_length [OF sq(2), of 4] sv by blast
  with sq(3) have "u = w" by (rule concat_blocks_inj) simp
  with sq(2) have sq': "map_r seq_bytes ins' = Ok u" by simp
  have s: "map ti_sequence ins = map ti_sequence ins'" by (rule map_r_same_bytes [OF sq(1) sq']) (simp add: sv)
  from a(3) b'(3) assms(9) obtain m n where "map_r out_serialize outs = Ok m" "map_r out_serialize outs' = Ok n" "concat m = concat n"
    by (rule hash_all_inj)
  then have "map strip_out outs = map strip_out outs'" by (rule outs_serialize_inj)
  with same t s show ?thesis by simp
qed

section \<open>An example\<close>

text \<open>The example transaction before and after it is signed.\<close>

definition unsigned_in :: tx_in where
  "unsigned_in = example_in\<lparr>ti_unlocking := None, ti_template := Some 107\<rparr>"

lemma example_outpoint: "outpoint_bytes example_in = Ok (replicate 32 7 @ le_bytes 4 1)"
  by (simp add: outpoint_bytes_def txid_bytes_def example_in_def to_bytes_le_def)

lemma unsigned_same:
  "outpoint_bytes unsigned_in = outpoint_bytes example_in" "seq_bytes unsigned_in = seq_bytes example_in"
  "preimage unsigned_in = preimage example_in" "hash_all outpoint_bytes [unsigned_in] = hash_all outpoint_bytes [example_in]"
  "hash_all seq_bytes [unsigned_in] = hash_all seq_bytes [example_in]" "ti_sighash unsigned_in = ti_sighash example_in"
  by (auto simp: unsigned_in_def outpoint_bytes_def txid_bytes_def seq_bytes_def preimage_def locking_bytes_def value_bytes_def hash_all_def fun_eq_iff)

lemma example_preimage: "\<exists>p. tx_preimage 0 [example_in] (tx_outputs example_transaction) 1 0 = Ok p"
proof -
  have "\<exists>p. preimage example_in 1 0 hp hs hoh ho = Ok p" for hp hs hoh ho
    by (simp add: preimage_def example_outpoint) (simp add: example_in_def locking_bytes_def value_bytes_def to_bytes_le_def unsigned_to_varint_def)
  moreover have "\<not> anyonecanpay (ti_sighash example_in)" "\<not> is_single (ti_sighash example_in)" "\<not> is_none (ti_sighash example_in)"
    by (simp_all add: example_in_def anyonecanpay_def is_single_def is_none_def)
  moreover have "seq_bytes example_in = Ok (le_bytes 4 0xFFFFFFFF)" by (simp add: seq_bytes_def example_in_def to_bytes_le_def)
  moreover have "\<exists>h. hash_all out_serialize (tx_outputs example_transaction) = Ok h"
    by (simp add: hash_all_def example_transaction_def out_serialize_def to_bytes_le_def unsigned_to_varint_def)
  moreover have "\<exists>h. compute_hash_output_hashes (tx_outputs example_transaction) None = Ok h"
    by (simp add: compute_hash_output_hashes_def output_summary_def get_push_refs_def is_pushref_def is_direct_push_def example_transaction_def
        to_bytes_le_def pack_u_def)
  ultimately show ?thesis by (auto simp: tx_preimage_def Let_def hash_all_def example_outpoint)
qed

theorem sighash_all_commits_witness:
  "\<exists>p. tx_preimage 0 [example_in] (tx_outputs example_transaction) 1 0 = Ok p
    \<and> tx_preimage 0 [unsigned_in] (tx_outputs example_transaction) 1 0 = Ok p
    \<and> ti_locking example_in = ti_locking unsigned_in \<and> ti_satoshis example_in = ti_satoshis unsigned_in"
proof -
  obtain p where p: "tx_preimage 0 [example_in] (tx_outputs example_transaction) 1 0 = Ok p" using example_preimage by blast
  then have q: "tx_preimage 0 [unsigned_in] (tx_outputs example_transaction) 1 0 = Ok p"
    by (simp only: tx_preimage_def unsigned_same Let_def nth_Cons_0 list.size)
  have "full_txid example_in" "full_txid unsigned_in" "plain_all (ti_sighash example_in)"
    by (simp_all add: unsigned_in_def full_txid_def txid_bytes_def example_in_def plain_all_def anyonecanpay_def is_single_def is_none_def)
  with sighash_all_commits [OF p q] p q show ?thesis by (simp add: no_collision_def unsigned_same)
qed

theorem preimages_agree_witness:
  "\<exists>ds. tx_preimages [example_in] (tx_outputs example_transaction) 1 0 = Ok ds
    \<and> tx_preimage 0 [example_in] (tx_outputs example_transaction) 1 0 = Ok (ds ! 0)"
proof -
  obtain p where p: "tx_preimage 0 [example_in] (tx_outputs example_transaction) 1 0 = Ok p" using example_preimage by blast
  have pl: "plain_all (ti_sighash ([example_in] ! 0))"
    by (simp add: example_in_def plain_all_def anyonecanpay_def is_single_def is_none_def)
  from p pl have "tx_preimages [example_in] (tx_outputs example_transaction) 1 0 = Ok [p]"
    by (rule tx_preimage_all) (use pl in \<open>simp add: tx_preimages_def plain_all_def\<close>)
  with preimages_agree [OF this] show ?thesis by simp
qed

end
