(* ===== verification/Radix.thy ===== *)
theory Radix
  imports Prelude
begin

text \<open>
  Positional numerals, most significant digit first: what \<open>divmod\<close> loops of the encoders compute. The
  locale states what holds in every base; it is interpreted in the bases the sources use, two, 58 and
  256.
\<close>

function digits :: "nat \<Rightarrow> nat \<Rightarrow> nat list" where
  "digits b n = (if n = 0 \<or> b < 2 then [] else digits b (n div b) @ [n mod b])"
  by auto

termination digits
  by (relation "measure snd") auto

declare digits.simps [simp del]

definition digits_val :: "nat \<Rightarrow> nat list \<Rightarrow> nat" where
  "digits_val b ds = foldl (\<lambda>acc d. acc * b + d) 0 ds"

lemma digits_0 [simp]: "digits b 0 = []"
  by (simp add: digits.simps)

lemma digits_val_simps [simp]:
  "digits_val b [] = 0" "digits_val b (ds @ [d]) = digits_val b ds * b + d"
  by (simp_all add: digits_val_def)

lemma digits_val_zeros [simp]: "digits_val b (replicate k 0 @ ds) = digits_val b ds"
proof (induction ds rule: rev_induct)
  case Nil
  show ?case by (induction k) (simp_all add: digits_val_def)
next
  case (snoc d ds)
  then show ?case by (simp flip: append_assoc)
qed

locale radix =
  fixes b :: nat
  assumes two_le: "2 \<le> b"
begin

lemma digits_rec: "0 < n \<Longrightarrow> digits b n = digits b (n div b) @ [n mod b]"
  using two_le by (simp add: digits.simps [of b n])

lemma digits_Nil_iff [simp]: "digits b n = [] \<longleftrightarrow> n = 0"
  by (cases "n = 0") (simp_all add: digits_rec)

lemma val_digits [simp]: "digits_val b (digits b n) = n"
proof (induction n rule: less_induct)
  case (less n)
  show ?case
  proof (cases "n = 0")
    case False
    then have "n div b < n" using two_le by simp
    with less False show ?thesis by (simp add: digits_rec)
  qed simp
qed

lemma digits_less: "d \<in> set (digits b n) \<Longrightarrow> d < b"
proof (induction n rule: less_induct)
  case (less n)
  show ?case
  proof (cases "n = 0")
    case False
    then have "n div b < n" using two_le by simp
    with less False two_le show ?thesis by (auto simp: digits_rec)
  qed (use less.prems in simp)
qed

text \<open>A list of digits without leading zeros is the representation of its value.\<close>

lemma digits_of_val: "\<forall>d\<in>set ds. d < b \<Longrightarrow> ds = [] \<or> hd ds \<noteq> 0 \<Longrightarrow> digits b (digits_val b ds) = ds"
proof (induction ds rule: rev_induct)
  case (snoc d ds)
  let ?n = "digits_val b ds * b + d"
  have "ds = [] \<or> hd ds \<noteq> 0" using snoc.prems(2) by (cases ds) auto
  with snoc have ih: "digits b (digits_val b ds) = ds" by simp
  have "?n \<noteq> 0"
  proof (cases "ds = []")
    case False
    with ih have "digits_val b ds \<noteq> 0" using digits_Nil_iff by metis
    then show ?thesis using two_le by simp
  qed (use snoc.prems in simp)
  moreover have "?n div b = digits_val b ds" "?n mod b = d" using snoc.prems(1) by (simp_all add: div_eq_0_iff)
  ultimately show ?case using ih by (simp add: digits_rec)
qed simp

lemma hd_digits: "0 < n \<Longrightarrow> hd (digits b n) \<noteq> 0"
proof (induction n rule: less_induct)
  case (less n)
  show ?case
  proof (cases "n div b = 0")
    case True
    then have "n mod b = n" by (metis div_mult_mod_eq mult_0 add_0)
    with True less.prems show ?thesis by (simp add: digits_rec)
  next
    case False
    then have "n div b < n" using two_le less.prems by simp
    with less.IH [of "n div b"] False have "hd (digits b (n div b)) \<noteq> 0" by simp
    moreover have "digits b (n div b) \<noteq> []" using False by simp
    ultimately show ?thesis using less.prems digits_rec hd_append2 by metis
  qed
qed

lemma length_digits_le: "length (digits b n) \<le> k \<longleftrightarrow> n < b ^ k"
proof (induction k arbitrary: n)
  case (Suc k)
  show ?case
  proof (cases "n = 0")
    case False
    have "n div b < b ^ k \<longleftrightarrow> n < b ^ Suc k" using two_le by (simp add: div_less_iff_less_mult mult.commute)
    with Suc [of "n div b"] False show ?thesis by (simp add: digits_rec)
  qed (use two_le in simp)
qed simp

lemma length_digits_eq: "length (digits b n) = Suc k \<longleftrightarrow> b ^ k \<le> n \<and> n < b ^ Suc k"
  using length_digits_le [of n k] length_digits_le [of n "Suc k"] by linarith

lemma top_digit: "length (digits b n) = Suc k \<Longrightarrow> hd (digits b n) = n div b ^ k"
proof (induction k arbitrary: n)
  case 0
  then have "0 < n" by (cases "n = 0") auto
  moreover from 0 this have "n div b = 0" by (simp add: digits_rec)
  ultimately show ?case by (metis digits_0 digits_rec append_Nil list.sel(1) div_mult_mod_eq mult_0 add_0 power_0 div_by_1)
next
  case (Suc k)
  then have "0 < n" by (cases "n = 0") auto
  with Suc.prems have l: "length (digits b (n div b)) = Suc k" by (simp add: digits_rec)
  then have "digits b (n div b) \<noteq> []" by (metis length_0_conv nat.distinct(1))
  with \<open>0 < n\<close> have "hd (digits b n) = hd (digits b (n div b))" using digits_rec hd_append2 by metis
  with Suc.IH [OF l] show ?case by (simp add: div_mult2_eq)
qed

end

interpretation r2: radix 2
  by unfold_locales simp

interpretation r58: radix 58
  by unfold_locales simp

interpretation r256: radix 256
  by unfold_locales simp

section \<open>Bytes as digits\<close>

text \<open>\<open>num.bit_length()\<close>, and \<open>num.to_bytes((num.bit_length() + 7) // 8, "big")\<close>.\<close>

definition bit_length :: "nat \<Rightarrow> nat" where
  "bit_length n = length (digits 2 n)"

definition min_bytes_be :: "nat \<Rightarrow> bytes" where
  "min_bytes_be n = be_bytes ((bit_length n + 7) div 8) n"

lemma bit_length_bytes: "(bit_length n + 7) div 8 = length (digits 256 n)"
proof -
  have "(bit_length n + 7) div 8 \<le> k \<longleftrightarrow> length (digits 256 n) \<le> k" for k
  proof -
    have "(bit_length n + 7) div 8 \<le> k \<longleftrightarrow> bit_length n \<le> 8 * k" by linarith
    also have "\<dots> \<longleftrightarrow> n < 2 ^ (8 * k)" unfolding bit_length_def by (rule r2.length_digits_le)
    also have "\<dots> \<longleftrightarrow> length (digits 256 n) \<le> k" by (simp add: r256.length_digits_le power_mult)
    finally show ?thesis .
  qed
  then show ?thesis by (metis le_antisym le_refl)
qed

lemma be_val_digits: "be_val bs = digits_val 256 (map unat bs)"
  by (induction bs rule: rev_induct) (simp_all add: be_val_append be_val_Cons)

lemma unat_digits: "map unat (map word_of_nat (digits 256 n) :: bytes) = digits 256 n"
proof -
  have "unat (word_of_nat d :: byte) = d" if "d \<in> set (digits 256 n)" for d
    using r256.digits_less [OF that] by (simp add: unat_word_of_nat_byte)
  then show ?thesis by (simp add: map_idI)
qed

lemma min_bytes_be_digits: "min_bytes_be n = map word_of_nat (digits 256 n)"
proof -
  let ?bs = "map word_of_nat (digits 256 n) :: bytes"
  have "be_val ?bs = n" by (simp only: be_val_digits unat_digits r256.val_digits)
  then show ?thesis using be_bytes_be_val [of ?bs] by (simp add: min_bytes_be_def bit_length_bytes)
qed

lemma min_bytes_be_val:
  assumes "bs = [] \<or> hd bs \<noteq> 0"
  shows "min_bytes_be (be_val bs) = bs"
proof -
  have "map unat bs = [] \<or> hd (map unat bs) \<noteq> 0" using assms by (cases bs) (auto simp: unat_eq_0)
  then have "digits 256 (digits_val 256 (map unat bs)) = map unat bs" by (intro r256.digits_of_val) auto
  then show ?thesis by (simp add: min_bytes_be_digits be_val_digits map_idI)
qed

lemma be_val_min_bytes_be [simp]: "be_val (min_bytes_be n) = n"
  by (simp only: min_bytes_be_digits be_val_digits unat_digits r256.val_digits)

lemma hd_min_bytes_be: "0 < n \<Longrightarrow> hd (min_bytes_be n) \<noteq> 0"
  using r256.hd_digits [of n] r256.digits_less [of "hd (digits 256 n)" n]
  by (cases "digits 256 n") (auto simp: min_bytes_be_digits word_of_nat_eq_0_iff dest: nat_dvd_not_less)

end
