(* ===== verification/Base58.thy ===== *)
theory Base58
  imports Radix Sha256
begin

text \<open>
  Addresses and keys as text: \<open>pyrxd/base58.py\<close>, the second base-58 codec and the address and WIF
  helpers of \<open>pyrxd/utils.py\<close>, and \<open>address\<close> and \<open>wif\<close> of \<open>pyrxd/keys.py\<close>.
\<close>

section \<open>Base 58\<close>

definition BASE58_ALPHABET :: string where
  "BASE58_ALPHABET = ''123456789ABCDEFGHJKLMNPQRSTUVWXYZabcdefghijkmnopqrstuvwxyz''"

text \<open>\<open>BASE58_ALPHABET.index(char)\<close>, which raises if the character is not found.\<close>

fun str_index :: "string \<Rightarrow> char \<Rightarrow> nat result" where
  "str_index [] c = Err ValueError"
| "str_index (a # as) c = (if a = c then Ok 0 else bind_r (str_index as c) (\<lambda>i. Ok (Suc i)))"

definition checksum :: "bytes \<Rightarrow> bytes" where
  "checksum payload = take 4 (hash256 payload)"

text \<open>The count of leading elements equal to \<open>x\<close>, as the loops with \<open>break\<close> count them.\<close>

fun leading :: "'a \<Rightarrow> 'a list \<Rightarrow> nat" where
  "leading x [] = 0"
| "leading x (y # ys) = (if y = x then Suc (leading x ys) else 0)"

fun b58_loop :: "nat \<Rightarrow> string \<Rightarrow> string" where
  "b58_loop num res = (if num > 0 then b58_loop (num div 58) (BASE58_ALPHABET ! (num mod 58) # res) else res)"

declare b58_loop.simps [simp del]

definition b58_encode :: "bytes \<Rightarrow> string" where
  "b58_encode payload = replicate (leading 0 payload) (CHR ''1'') @ b58_loop (be_val payload) []"

definition base58check_encode :: "bytes \<Rightarrow> string" where
  "base58check_encode payload = b58_encode (payload @ checksum payload)"

definition to_base58check :: "bytes \<Rightarrow> bytes \<Rightarrow> string" where
  "to_base58check payload prefix = base58check_encode (prefix @ payload)"

fun b58_num :: "nat \<Rightarrow> string \<Rightarrow> nat result" where
  "b58_num num [] = Ok num"
| "b58_num num (c # cs) = bind_r (str_index BASE58_ALPHABET c) (\<lambda>i. b58_num (num * 58 + i) cs)"

definition b58_decode :: "string \<Rightarrow> bytes result" where
  "b58_decode encoded =
     bind_r (b58_num 0 encoded) (\<lambda>num. Ok (replicate (leading (CHR ''1'') encoded) 0 @ min_bytes_be num))"

text \<open>\<open>decoded[:-4]\<close> and \<open>decoded[-4:]\<close>.\<close>

definition but_last4 :: "'a list \<Rightarrow> 'a list" where
  "but_last4 xs = take (length xs - 4) xs"

definition last4 :: "'a list \<Rightarrow> 'a list" where
  "last4 xs = drop (length xs - 4) xs"

definition base58check_decode :: "string \<Rightarrow> bytes result" where
  "base58check_decode encoded =
     bind_r (b58_decode encoded) (\<lambda>decoded.
       if last4 decoded \<noteq> checksum (but_last4 decoded) then Err ValueError else Ok (but_last4 decoded))"

definition from_base58check :: "string \<Rightarrow> nat \<Rightarrow> (bytes \<times> bytes) result" where
  "from_base58check encoded prefix_len =
     bind_r (base58check_decode encoded) (\<lambda>payload. Ok (take prefix_len payload, drop prefix_len payload))"

section \<open>The second codec\<close>

text \<open>\<open>utils.py\<close> has a base-58 codec of its own, on lists of integers.\<close>

fun digit_loop :: "nat \<Rightarrow> bytes \<Rightarrow> bytes" where
  "digit_loop acc res = (if acc > 0 then digit_loop (acc div 256) (res @ [word_of_nat (acc mod 256)]) else res)"

declare digit_loop.simps [simp del]

definition from_base58 :: "string \<Rightarrow> bytes result" where
  "from_base58 str =
     (if str = [] then Err ValueError
      else if CHR ''0'' \<in> set str \<or> CHR ''I'' \<in> set str \<or> CHR ''O'' \<in> set str \<or> CHR ''l'' \<in> set str then Err ValueError
      else bind_r (b58_num 0 str) (\<lambda>acc. Ok (replicate (length str - length (dropWhile ((=) (CHR ''1'')) str)) 0 @ rev (digit_loop acc []))))"

fun ones :: "bytes \<Rightarrow> string \<Rightarrow> string" where
  "ones [] res = res"
| "ones (b # bs) res = (if b = 0 then ones bs (CHR ''1'' # res) else res)"

definition to_base58 :: "bytes \<Rightarrow> string" where
  "to_base58 bin = ones bin (b58_loop (foldl (\<lambda>acc b. acc * 256 + unat b) 0 bin) [])"

definition to_base58_check :: "bytes \<Rightarrow> bytes option \<Rightarrow> string" where
  "to_base58_check bin prefix =
     (let prefix = (case prefix of None \<Rightarrow> [0] | Some p \<Rightarrow> p)
      in to_base58 (prefix @ bin @ take 4 (sha256 (sha256 (prefix @ bin)))))"

definition from_base58_check :: "string \<Rightarrow> nat \<Rightarrow> (bytes \<times> bytes) result" where
  "from_base58_check str prefix_length =
     bind_r (from_base58 str) (\<lambda>bin.
       let prefix = take prefix_length bin;
           data = drop prefix_length (but_last4 bin)
       in if take 4 (sha256 (sha256 (prefix @ data))) \<noteq> last4 bin then Err ValueError else Ok (prefix, data))"

section \<open>Addresses and keys\<close>

datatype radiant_net = MAINNET | TESTNET

definition address_prefix :: "radiant_net \<Rightarrow> byte" where
  "address_prefix n = (case n of MAINNET \<Rightarrow> 0x00 | TESTNET \<Rightarrow> 0x6F)"

definition wif_prefix :: "radiant_net \<Rightarrow> byte" where
  "wif_prefix n = (case n of MAINNET \<Rightarrow> 0x80 | TESTNET \<Rightarrow> 0xEF)"

definition prefix_network :: "(radiant_net \<Rightarrow> byte) \<Rightarrow> bytes \<Rightarrow> radiant_net option" where
  "prefix_network f p = (if p = [f MAINNET] then Some MAINNET else if p = [f TESTNET] then Some TESTNET else None)"

text \<open>The pattern \<open>^[1mn][a-km-zA-HJ-NP-Z1-9]{24,33}$\<close>, whose \<open>$\<close> also matches before a final newline.\<close>

definition address_char :: "char \<Rightarrow> bool" where
  "address_char c = (let n = (of_char c :: nat) in
     97 \<le> n \<and> n \<le> 107 \<or> 109 \<le> n \<and> n \<le> 122 \<or> 65 \<le> n \<and> n \<le> 72 \<or> 74 \<le> n \<and> n \<le> 78 \<or> 80 \<le> n \<and> n \<le> 90 \<or> 49 \<le> n \<and> n \<le> 57)"

definition address_match :: "string \<Rightarrow> bool" where
  "address_match s =
     (let body = (if s \<noteq> [] \<and> last s = char_of (10 :: nat) then butlast s else s)
      in body \<noteq> [] \<and> hd body \<in> {CHR ''1'', CHR ''m'', CHR ''n''} \<and> list_all address_char (tl body)
         \<and> 24 \<le> length (tl body) \<and> length (tl body) \<le> 33)"

definition decode_address :: "string \<Rightarrow> (bytes \<times> radiant_net option) result" where
  "decode_address addr =
     (if \<not> address_match addr then Err ValueError
      else bind_r (base58check_decode addr) (\<lambda>decoded.
        Ok (drop 1 decoded, prefix_network address_prefix (take 1 decoded))))"

definition validate_address :: "string \<Rightarrow> radiant_net option \<Rightarrow> bool" where
  "validate_address addr net =
     (case decode_address addr of
        Inl e \<Rightarrow> False
      | Inr (_, n) \<Rightarrow> (case net of None \<Rightarrow> True | Some m \<Rightarrow> n = Some m))"

definition address_to_public_key_hash :: "string \<Rightarrow> bytes result" where
  "address_to_public_key_hash addr = bind_r (decode_address addr) (\<lambda>(pkh, _). Ok pkh)"

definition decode_wif :: "string \<Rightarrow> (bytes \<times> bool \<times> radiant_net) result" where
  "decode_wif wif =
     bind_r (base58check_decode wif) (\<lambda>decoded.
       case prefix_network wif_prefix (take 1 decoded) of
         None \<Rightarrow> Err ValueError
       | Some net \<Rightarrow>
           if length wif = 52 \<and> last decoded = 1 then Ok (butlast (drop 1 decoded), True, net)
           else Ok (drop 1 decoded, False, net))"

text \<open>\<open>PublicKey.address\<close> of a public key hash, and \<open>PrivateKey.wif\<close> of the 32 bytes of a key.\<close>

definition address_of :: "radiant_net \<Rightarrow> bytes \<Rightarrow> string" where
  "address_of net pkh = base58check_encode (address_prefix net # pkh)"

definition wif_of :: "radiant_net \<Rightarrow> bool \<Rightarrow> bytes \<Rightarrow> string" where
  "wif_of net compressed key = base58check_encode (wif_prefix net # key @ (if compressed then [0x01] else []))"

section \<open>The codecs invert each other\<close>

lemma leading_split: "xs = replicate (leading x xs) x @ drop (leading x xs) xs"
  by (induction xs) auto

lemma leading_drop: "drop (leading x xs) xs = [] \<or> hd (drop (leading x xs) xs) \<noteq> x"
  by (induction xs) auto

lemma leading_append: "ys = [] \<or> hd ys \<noteq> x \<Longrightarrow> leading x (replicate k x @ ys) = k"
proof (induction k)
  case 0
  then show ?case by (cases ys) auto
qed simp

definition alpha :: "nat \<Rightarrow> char" where
  "alpha i = BASE58_ALPHABET ! i"

lemma alphabet_length: "length BASE58_ALPHABET = 58"
  by (simp add: BASE58_ALPHABET_def)

lemma alphabet_distinct: "distinct BASE58_ALPHABET"
  by (simp add: BASE58_ALPHABET_def)

lemma str_index_Ok_iff: "distinct as \<Longrightarrow> str_index as c = Ok i \<longleftrightarrow> i < length as \<and> as ! i = c"
proof (induction as arbitrary: i)
  case (Cons a as)
  then have ih: "str_index as c = Ok j \<longleftrightarrow> j < length as \<and> as ! j = c" for j by simp
  show ?case
  proof (cases "a = c")
    case True
    with Cons.prems have "j < length as \<Longrightarrow> as ! j \<noteq> c" for j using nth_mem by force
    with True show ?thesis by (cases i) auto
  next
    case False
    with ih show ?thesis by (cases i) (simp_all add: bind_r_Ok_iff)
  qed
qed simp

lemma index_alpha [simp]: "i < 58 \<Longrightarrow> str_index BASE58_ALPHABET (alpha i) = Ok i"
  by (simp add: str_index_Ok_iff alphabet_distinct alphabet_length alpha_def)

lemma index_Ok: "str_index BASE58_ALPHABET c = Ok i \<Longrightarrow> i < 58 \<and> alpha i = c"
  by (simp add: str_index_Ok_iff alphabet_distinct alphabet_length alpha_def)

lemma alpha_one: "i < 58 \<Longrightarrow> alpha i = CHR ''1'' \<longleftrightarrow> i = 0"
  using nth_eq_iff_index_eq [OF alphabet_distinct, of i 0] by (simp add: alphabet_length alpha_def BASE58_ALPHABET_def)

lemma b58_loop_digits: "b58_loop n res = map alpha (digits 58 n) @ res"
proof (induction n arbitrary: res rule: less_induct)
  case (less n)
  show ?case
  proof (cases "n = 0")
    case False
    then have "n div 58 < n" by simp
    with less False show ?thesis by (simp add: b58_loop.simps [of n] r58.digits_rec alpha_def)
  qed (simp add: b58_loop.simps)
qed

lemma b58_encode_digits: "b58_encode p = replicate (leading 0 p) (CHR ''1'') @ map alpha (digits 58 (be_val p))"
  by (simp add: b58_encode_def b58_loop_digits)

lemma b58_num_Ok_iff:
  "b58_num acc s = Ok n \<longleftrightarrow> (\<exists>ds. list_all2 (\<lambda>c d. str_index BASE58_ALPHABET c = Ok d) s ds \<and> n = foldl (\<lambda>a d. a * 58 + d) acc ds)"
proof (induction s arbitrary: acc)
  case (Cons c s)
  have "b58_num acc (c # s) = Ok n \<longleftrightarrow> (\<exists>i ds. str_index BASE58_ALPHABET c = Ok i
      \<and> list_all2 (\<lambda>c d. str_index BASE58_ALPHABET c = Ok d) s ds \<and> n = foldl (\<lambda>a d. a * 58 + d) (acc * 58 + i) ds)"
    by (simp add: bind_r_Ok_iff Cons.IH)
  also have "\<dots> \<longleftrightarrow> (\<exists>ds. list_all2 (\<lambda>c d. str_index BASE58_ALPHABET c = Ok d) (c # s) ds \<and> n = foldl (\<lambda>a d. a * 58 + d) acc ds)"
    by (fastforce simp: list_all2_Cons1)
  finally show ?case .
qed auto

lemma b58_num_alpha: "\<forall>d\<in>set ds. d < 58 \<Longrightarrow> b58_num acc (map alpha ds) = Ok (foldl (\<lambda>a d. a * 58 + d) acc ds)"
  by (induction ds arbitrary: acc) simp_all

lemma index_digits:
  assumes "list_all2 (\<lambda>c d. str_index BASE58_ALPHABET c = Ok d) s ds"
  shows "s = map alpha ds \<and> (\<forall>d\<in>set ds. d < 58)"
  using assms by (induction rule: list_all2_induct) (auto dest: index_Ok)

lemma digits_index: "\<forall>d\<in>set ds. d < 58 \<Longrightarrow> list_all2 (\<lambda>c d. str_index BASE58_ALPHABET c = Ok d) (map alpha ds) ds"
  by (induction ds) auto

lemma b58_decode_Ok_iff:
  "b58_decode s = Ok p \<longleftrightarrow>
    (\<exists>ds. s = map alpha ds \<and> (\<forall>d\<in>set ds. d < 58) \<and> p = replicate (leading 0 ds) 0 @ min_bytes_be (digits_val 58 ds))"
proof -
  have l: "leading (CHR ''1'') (map alpha ds) = leading 0 ds" if "\<forall>d\<in>set ds. d < 58" for ds
    using that by (induction ds) (auto simp: alpha_one)
  have "b58_num 0 s = Ok n \<longleftrightarrow> (\<exists>ds. s = map alpha ds \<and> (\<forall>d\<in>set ds. d < 58) \<and> n = digits_val 58 ds)" for n
    unfolding b58_num_Ok_iff digits_val_def using index_digits digits_index by metis
  then show ?thesis using l by (auto simp: b58_decode_def bind_r_Ok_iff)
qed

lemma leading_unat: "leading 0 (map unat bs) = leading (0 :: byte) bs"
  by (induction bs) (auto simp: unat_eq_0)

lemma b58_decode_encode: "b58_decode (b58_encode p) = Ok p"
proof -
  let ?z = "leading 0 p" and ?d = "digits 58 (be_val p)"
  let ?ds = "replicate ?z 0 @ ?d"
  have "?d = [] \<or> hd ?d \<noteq> 0" using r58.hd_digits [of "be_val p"] by (cases "be_val p = 0") auto
  then have z: "leading 0 ?ds = ?z" by (rule leading_append)
  have "min_bytes_be (digits_val 58 ?ds) = drop ?z p"
  proof -
    have "be_val p = be_val (drop ?z p)"
      by (subst leading_split [of p 0]) (simp add: be_val_digits map_replicate_const)
    then show ?thesis using min_bytes_be_val [OF leading_drop [of 0 p]] by simp
  qed
  moreover have "b58_encode p = map alpha ?ds" by (simp add: b58_encode_digits alpha_def BASE58_ALPHABET_def)
  moreover have "\<forall>d\<in>set ?ds. d < 58" using r58.digits_less by auto
  ultimately show ?thesis using leading_split [of p 0] by (metis b58_decode_Ok_iff z)
qed

lemma b58_encode_decode: "b58_decode s = Ok p \<Longrightarrow> b58_encode p = s"
proof -
  assume "b58_decode s = Ok p"
  then obtain ds where ds: "s = map alpha ds" "\<forall>d\<in>set ds. d < 58" "p = replicate (leading 0 ds) 0 @ min_bytes_be (digits_val 58 ds)"
    by (auto simp: b58_decode_Ok_iff)
  let ?z = "leading 0 ds" and ?n = "digits_val 58 ds"
  have "min_bytes_be ?n = [] \<or> hd (min_bytes_be ?n) \<noteq> 0"
    using hd_min_bytes_be [of ?n] by (cases "?n = 0") (auto simp: min_bytes_be_digits)
  then have z: "leading 0 p = ?z" unfolding ds(3) by (rule leading_append)
  have "be_val p = ?n" using be_val_min_bytes_be [of ?n] by (simp add: ds(3) be_val_digits map_replicate_const)
  moreover have "?n = digits_val 58 (drop ?z ds)" by (subst leading_split [of ds 0]) simp
  moreover have "digits 58 (digits_val 58 (drop ?z ds)) = drop ?z ds"
    using ds(2) leading_drop [of 0 ds] by (intro r58.digits_of_val) (auto dest: in_set_dropD)
  ultimately have "b58_encode p = map alpha (replicate ?z 0 @ drop ?z ds)"
    by (simp add: b58_encode_digits z alpha_def BASE58_ALPHABET_def)
  then show ?thesis using leading_split [of ds 0] ds(1) by metis
qed

text \<open>C24: Base 58 with a checksum is exact: \<open>base58check_decode\<close> accepts a string if and only if it is what
  \<open>base58check_encode\<close> prints for some payload, and then returns that payload.\<close>

theorem base58check_exact: "base58check_decode s = Ok p \<longleftrightarrow> s = base58check_encode p"
proof
  assume "base58check_decode s = Ok p"
  then obtain d where d: "b58_decode s = Ok d" "last4 d = checksum p" "but_last4 d = p"
    unfolding base58check_decode_def by (simp only: py_simps sum.inject not_not) (elim exE conjE, simp only:)
  have "but_last4 d @ last4 d = d" by (simp add: last4_def but_last4_def)
  with d(2,3) have "d = p @ checksum p" by metis
  with b58_encode_decode [OF d(1)] show "s = base58check_encode p" by (simp add: base58check_encode_def)
next
  have l: "length (checksum p) = 4" by (simp add: checksum_def)
  assume "s = base58check_encode p"
  then have "b58_decode s = Ok (p @ checksum p)" by (simp add: base58check_encode_def b58_decode_encode)
  with l show "base58check_decode s = Ok p" by (simp add: base58check_decode_def last4_def but_last4_def)
qed

lemma base58check_decode_encode: "base58check_decode (base58check_encode p) = Ok p"
proof -
  have l: "length (checksum p) = 4" by (simp add: checksum_def)
  have "b58_decode (base58check_encode p) = Ok (p @ checksum p)" by (simp add: base58check_encode_def b58_decode_encode)
  with l show ?thesis by (simp add: base58check_decode_def last4_def but_last4_def)
qed

section \<open>The two codecs agree\<close>

lemma digit_loop_digits: "digit_loop n res = res @ rev (map word_of_nat (digits 256 n))"
proof (induction n arbitrary: res rule: less_induct)
  case (less n)
  show ?case
  proof (cases "n = 0")
    case False
    then have "n div 256 < n" by simp
    with less False show ?thesis by (simp add: digit_loop.simps [of n] r256.digits_rec)
  qed (simp add: digit_loop.simps)
qed

lemma ones_leading: "ones bs res = replicate (leading 0 bs) (CHR ''1'') @ res"
  by (induction bs arbitrary: res) (auto simp: replicate_app_Cons_same)

lemma leading_dropWhile: "length s - length (dropWhile ((=) x) s) = leading x s"
  by (induction s) (auto simp: Suc_diff_le length_dropWhile_le)

lemma not_in_alphabet:
  "str_index BASE58_ALPHABET (CHR ''0'') = Err ValueError" "str_index BASE58_ALPHABET (CHR ''I'') = Err ValueError"
  "str_index BASE58_ALPHABET (CHR ''O'') = Err ValueError" "str_index BASE58_ALPHABET (CHR ''l'') = Err ValueError"
  by code_simp+

lemma str_index_Err: "str_index as c = Err e \<Longrightarrow> e = ValueError"
  by (induction as) (auto simp: bind_r_Err_iff split: if_splits)

lemma b58_num_Err: "b58_num acc s = Err e \<Longrightarrow> e = ValueError"
  by (induction s arbitrary: acc) (auto simp: bind_r_Err_iff dest: str_index_Err)

lemma b58_num_bad: "c \<in> set s \<Longrightarrow> str_index BASE58_ALPHABET c = Err ValueError \<Longrightarrow> b58_num acc s = Err ValueError"
proof (induction s arbitrary: acc)
  case (Cons a s)
  then show ?case by (cases "str_index BASE58_ALPHABET a") (auto dest: str_index_Err)
qed simp

text \<open>The two base-58 codecs of the package are the same function: \<open>to_base58\<close> prints what \<open>b58_encode\<close>
  prints, and \<open>from_base58\<close> reads what \<open>b58_decode\<close> reads, except that it refuses the empty string;
  with a checksum, \<open>to_base58_check\<close> is \<open>base58check_encode\<close>.\<close>

theorem codecs_agree:
  "to_base58 p = b58_encode p \<and> from_base58 s = (if s = [] then Err ValueError else b58_decode s)
    \<and> to_base58_check p prefix = base58check_encode ((case prefix of None \<Rightarrow> [0] | Some q \<Rightarrow> q) @ p)"
proof -
  have "foldl (\<lambda>acc b. acc * 256 + unat b) 0 q = be_val q" for q :: bytes
    by (simp add: be_val_digits digits_val_def foldl_map)
  then have to: "to_base58 q = b58_encode q" for q by (simp add: to_base58_def b58_encode_def ones_leading)
  have "from_base58 s = b58_decode s" if "s \<noteq> []"
  proof (cases "CHR ''0'' \<in> set s \<or> CHR ''I'' \<in> set s \<or> CHR ''O'' \<in> set s \<or> CHR ''l'' \<in> set s")
    case True
    then have "b58_num 0 s = Err ValueError" using b58_num_bad not_in_alphabet by blast
    with True that show ?thesis by (simp add: from_base58_def b58_decode_def)
  next
    case False
    with that show ?thesis
      by (simp add: from_base58_def b58_decode_def leading_dropWhile digit_loop_digits min_bytes_be_digits)
  qed
  moreover have "from_base58 [] = Err ValueError" by (simp add: from_base58_def)
  ultimately show ?thesis using to
    by (simp add: to_base58_check_def base58check_encode_def checksum_def hash256_def Let_def)
qed

section \<open>Addresses\<close>

lemma alpha_address_char: "i < 58 \<Longrightarrow> address_char (alpha i)"
proof -
  have "list_all address_char BASE58_ALPHABET" by code_simp
  then show "i < 58 \<Longrightarrow> address_char (alpha i)" by (simp add: list_all_length alphabet_length alpha_def)
qed

lemma b58_encode_alpha: "c \<in> set (b58_encode p) \<Longrightarrow> address_char c"
proof -
  have "CHR ''1'' = alpha 0" by (simp add: alpha_def BASE58_ALPHABET_def)
  then show "c \<in> set (b58_encode p) \<Longrightarrow> address_char c"
    using alpha_address_char r58.digits_less by (auto simp: b58_encode_digits)
qed

lemma address_char_no_newline: "\<not> address_char (char_of (10 :: nat))"
  by (simp add: address_char_def)

lemma address_match_b58:
  assumes "25 \<le> length (b58_encode p)" "length (b58_encode p) \<le> 34" "hd (b58_encode p) \<in> {CHR ''1'', CHR ''m'', CHR ''n''}"
  shows "address_match (b58_encode p)"
proof -
  have ne: "b58_encode p \<noteq> []" using assms(1) by auto
  then have "last (b58_encode p) \<noteq> char_of (10 :: nat)"
    using b58_encode_alpha [of "last (b58_encode p)" p] address_char_no_newline by auto
  moreover have "list_all address_char (tl (b58_encode p))" using b58_encode_alpha by (auto simp: list_all_iff dest: list.set_sel(2) [OF ne])
  ultimately show ?thesis using assms ne by (auto simp: address_match_def Let_def)
qed

lemma b58_length: "length (b58_encode p) = leading 0 p + length (digits 58 (be_val p))"
  by (simp add: b58_encode_digits)

lemma be_val_leading:
  "be_val p < 256 ^ (length p - leading 0 p)" "leading 0 p < length p \<Longrightarrow> 256 ^ (length p - leading 0 p - 1) \<le> be_val p"
proof -
  let ?z = "leading 0 p"
  have v: "be_val p = be_val (drop ?z p)"
    by (subst leading_split [of p 0]) (simp add: be_val_digits map_replicate_const)
  then show "be_val p < 256 ^ (length p - ?z)" using be_val_less [of "drop ?z p"] by simp
  assume "?z < length p"
  then obtain b bs where d: "drop ?z p = b # bs" by (metis Cons_nth_drop_Suc)
  then have "b \<noteq> 0" using leading_drop [of 0 p] by auto
  then have "1 \<le> unat b" by (simp add: Suc_leI unat_gt_0)
  then have "256 ^ length bs \<le> unat b * 256 ^ length bs" by (cases "unat b") auto
  moreover have "length bs = length p - ?z - 1" using arg_cong [OF d, of length] by simp
  ultimately show "256 ^ (length p - ?z - 1) \<le> be_val p" unfolding v d be_val_Cons by (metis trans_le_add1)
qed

lemma b58_length_ge: "length p \<le> length (b58_encode p)"
proof (cases "leading 0 p < length p")
  case True
  have "(58 :: nat) ^ (length p - leading 0 p - 1) \<le> 256 ^ (length p - leading 0 p - 1)" by (rule power_mono) simp_all
  with be_val_leading(2) [OF True] have "\<not> be_val p < 58 ^ (length p - leading 0 p - 1)" by linarith
  then have "\<not> length (digits 58 (be_val p)) \<le> length p - leading 0 p - 1" by (simp add: r58.length_digits_le)
  then show ?thesis by (simp add: b58_length)
qed (simp add: b58_length)

lemma b58_length_le: "length p - leading 0 p \<le> 24 \<Longrightarrow> length (b58_encode p) \<le> leading 0 p + (length p - leading 0 p) + 9"
proof -
  have pow: "256 ^ m \<le> (58 :: nat) ^ (m + 9)" if "m \<le> 24" for m :: nat
  proof (rule ccontr)
    assume "\<not> 256 ^ m \<le> (58 :: nat) ^ (m + 9)"
    then have "(58 :: nat) ^ (m + 9) * 58 ^ (24 - m) < 256 ^ m * 58 ^ (24 - m)" by simp
    also have "\<dots> \<le> 256 ^ m * 256 ^ (24 - m)" by (intro mult_left_mono power_mono) simp_all
    finally have "(58 :: nat) ^ (m + 9 + (24 - m)) < 256 ^ (m + (24 - m))" by (simp only: power_add)
    with that have "(58 :: nat) ^ 33 < 256 ^ 24" by simp
    then show False by simp
  qed
  assume "length p - leading 0 p \<le> 24"
  from pow [OF this] be_val_leading(1) [of p] have "be_val p < 58 ^ (length p - leading 0 p + 9)" by linarith
  then have "length (digits 58 (be_val p)) \<le> length p - leading 0 p + 9" by (simp only: r58.length_digits_le)
  then show ?thesis by (simp add: b58_length)
qed

lemma leading_le: "leading x xs \<le> length xs"
  by (induction xs) auto

lemma mainnet_match:
  assumes "length q = 24"
  shows "address_match (b58_encode (0 # q))"
proof (rule address_match_b58)
  show "25 \<le> length (b58_encode (0 # q))" using b58_length_ge [of "0 # q"] assms by simp
  show "length (b58_encode (0 # q)) \<le> 34" using b58_length_le [of "0 # q"] leading_le [of 0 q] assms by simp
  show "hd (b58_encode (0 # q)) \<in> {CHR ''1'', CHR ''m'', CHR ''n''}" by (simp add: b58_encode_def)
qed

lemma testnet_match:
  assumes "length q = 24"
  shows "address_match (b58_encode (0x6F # q))"
proof (rule address_match_b58)
  let ?n = "be_val (0x6F # q)"
  have z: "leading 0 (0x6F # q) = 0" by simp
  have n: "111 * 256 ^ 24 \<le> ?n" "?n < 112 * 256 ^ 24"
    using be_val_less [of q] assms by (simp_all add: be_val_Cons)
  have "(58 :: nat) ^ 33 \<le> 111 * 256 ^ 24" "112 * 256 ^ 24 < (58 :: nat) ^ Suc 33"
    "44 * 58 ^ 33 \<le> (111 :: nat) * 256 ^ 24" "112 * 256 ^ 24 \<le> (46 :: nat) * 58 ^ 33" by simp_all
  with n have l: "length (digits 58 ?n) = Suc 33" and t: "44 * 58 ^ 33 \<le> ?n" "?n < 46 * 58 ^ 33"
    unfolding r58.length_digits_eq by linarith+
  then show "25 \<le> length (b58_encode (0x6F # q))" "length (b58_encode (0x6F # q)) \<le> 34" by (simp_all add: b58_length z)
  have "?n div 58 ^ 33 \<in> {44, 45}" using t by (auto simp: div_nat_eqI less_mult_imp_div_less)
  moreover have "hd (digits 58 ?n) = ?n div 58 ^ 33" by (rule r58.top_digit [OF l])
  moreover have "alpha 44 = CHR ''m''" "alpha 45 = CHR ''n''" by code_simp+
  moreover have "digits 58 ?n \<noteq> []" using l by (metis length_0_conv nat.distinct(1))
  ultimately show "hd (b58_encode (0x6F # q)) \<in> {CHR ''1'', CHR ''m'', CHR ''n''}"
    by (auto simp: b58_encode_digits z hd_map)
qed

lemma decode_address_of:
  assumes "length pkh = 20"
  shows "decode_address (address_of net pkh) = Ok (pkh, Some net)"
proof -
  let ?q = "pkh @ checksum (address_prefix net # pkh)"
  have "length ?q = 24" using assms by (simp add: checksum_def)
  then have "address_match (address_of net pkh)"
    using mainnet_match [of ?q] testnet_match [of ?q]
    by (cases net) (simp_all add: address_of_def base58check_encode_def address_prefix_def)
  then show ?thesis
    by (cases net) (simp_all add: decode_address_def address_of_def base58check_decode_encode prefix_network_def address_prefix_def)
qed

text \<open>Addresses survive: the address of a public key hash of 20 bytes matches the pattern, on both
  networks, and decodes to that hash and that network.\<close>

theorem address_roundtrip:
  assumes "length pkh = 20"
  shows "decode_address (address_of net pkh) = Ok (pkh, Some net) \<and> validate_address (address_of net pkh) (Some net)"
  using decode_address_of [OF assms] by (simp add: validate_address_def)

theorem address_roundtrip_witness:
  "decode_address (address_of TESTNET (replicate 20 7)) = Ok (replicate 20 7, Some TESTNET)"
  using address_roundtrip [of "replicate 20 7" TESTNET] by simp

text \<open>The address check is about text only: a payload of 14 to 20 bytes that does not begin with a zero byte,
  with the prefix of the main network and a checksum, passes \<open>validate_address\<close>, and
  \<open>address_to_public_key_hash\<close> returns it as if it were a public key hash.\<close>

theorem short_address_accepted:
  assumes "14 \<le> length p" and "length p \<le> 20" and "hd p \<noteq> 0"
  shows "validate_address (address_of MAINNET p) (Some MAINNET) \<and> address_to_public_key_hash (address_of MAINNET p) = Ok p"
proof -
  let ?q = "0 # p @ checksum (0 # p)"
  have len: "length ?q = length p + 5" by (simp add: checksum_def)
  have z: "leading 0 ?q = 1" using assms by (cases p) auto
  have "address_match (b58_encode ?q)"
  proof (rule address_match_b58)
    have "(58 :: nat) ^ 23 \<le> 256 ^ 17" by simp
    also have "(256 :: nat) ^ 17 \<le> 256 ^ (length ?q - leading 0 ?q - 1)" using assms len z by (intro power_increasing) simp_all
    also have "\<dots> \<le> be_val ?q" by (rule be_val_leading(2)) (simp only: len z)
    finally have "\<not> length (digits 58 (be_val ?q)) \<le> 23" by (simp add: r58.length_digits_le)
    then show "25 \<le> length (b58_encode ?q)" by (simp add: b58_length z)
    show "length (b58_encode ?q) \<le> 34" using b58_length_le [of ?q] len z assms(2) by simp
    show "hd (b58_encode ?q) \<in> {CHR ''1'', CHR ''m'', CHR ''n''}" by (simp add: b58_encode_def)
  qed
  then have "address_match (address_of MAINNET p)" by (simp add: address_of_def base58check_encode_def address_prefix_def)
  then have "decode_address (address_of MAINNET p) = Ok (p, Some MAINNET)"
    by (simp add: decode_address_def address_of_def base58check_decode_encode prefix_network_def address_prefix_def)
  then show ?thesis by (simp add: validate_address_def address_to_public_key_hash_def)
qed

theorem short_address_accepted_witness:
  "validate_address (address_of MAINNET (replicate 14 7)) (Some MAINNET)
    \<and> address_to_public_key_hash (address_of MAINNET (replicate 14 7)) = Ok (replicate 14 7)"
  using short_address_accepted [of "replicate 14 7"] by simp

section \<open>Keys\<close>

lemma wif_length:
  assumes "b = 0x80 \<or> b = 0xEF"
  shows "length q = 36 \<Longrightarrow> length (b58_encode (b # q)) = 51" "length q = 37 \<Longrightarrow> length (b58_encode (b # q)) = 52"
proof -
  have z: "b \<noteq> 0" using assms by auto
  have u: "128 \<le> unat b" "unat b < 240" using assms by auto
  have n: "128 * 256 ^ length q \<le> be_val (b # q)" "be_val (b # q) < 240 * 256 ^ length q"
  proof -
    have "128 * 256 ^ length q \<le> unat b * 256 ^ length q" using u by (intro mult_right_mono) simp_all
    then show "128 * 256 ^ length q \<le> be_val (b # q)" unfolding be_val_Cons by linarith
    have "(unat b + 1) * 256 ^ length q \<le> 240 * 256 ^ length q" using u by (intro mult_right_mono) simp_all
    then show "be_val (b # q) < 240 * 256 ^ length q" 
      using be_val_less [of q] unfolding be_val_Cons add_mult_distrib by linarith
  qed
  show "length q = 36 \<Longrightarrow> length (b58_encode (b # q)) = 51"
  proof -
    assume "length q = 36"
    moreover have "(58 :: nat) ^ 50 \<le> 128 * 256 ^ 36" "240 * 256 ^ 36 < (58 :: nat) ^ Suc 50" by simp_all
    ultimately have "length (digits 58 (be_val (b # q))) = Suc 50" using n unfolding r58.length_digits_eq by simp
    then show ?thesis by (simp add: b58_length z)
  qed
  show "length q = 37 \<Longrightarrow> length (b58_encode (b # q)) = 52"
  proof -
    assume "length q = 37"
    moreover have "(58 :: nat) ^ 51 \<le> 128 * 256 ^ 37" "240 * 256 ^ 37 < (58 :: nat) ^ Suc 51" by simp_all
    ultimately have "length (digits 58 (be_val (b # q))) = Suc 51" using n unfolding r58.length_digits_eq by simp
    then show ?thesis by (simp add: b58_length z)
  qed
qed

text \<open>Exported keys survive: the WIF text of a key of 32 bytes, compressed or not, on both networks, decodes
  to the key, the flag and the network; in particular the length of the text tells the two forms
  apart.\<close>

theorem wif_roundtrip:
  assumes "length key = 32"
  shows "decode_wif (wif_of net compressed key) = Ok (key, compressed, net)"
proof -
  let ?q = "key @ (if compressed then [0x01] else [])"
  let ?p = "wif_prefix net # ?q"
  have pre: "wif_prefix net = 0x80 \<or> wif_prefix net = 0xEF" by (cases net) (simp_all add: wif_prefix_def)
  have l: "length (?q @ checksum ?p) = (if compressed then 37 else 36)" using assms by (simp add: checksum_def)
  have "length (wif_of net compressed key) = (if compressed then 52 else 51)"
    using wif_length [OF pre, of "?q @ checksum ?p"] l by (simp add: wif_of_def base58check_encode_def split: if_splits)
  moreover have "base58check_decode (wif_of net compressed key) = Ok ?p" by (simp add: wif_of_def base58check_decode_encode)
  moreover have "prefix_network wif_prefix (take 1 ?p) = Some net" by (cases net) (simp_all add: prefix_network_def wif_prefix_def)
  ultimately show ?thesis by (cases compressed) (simp_all add: decode_wif_def)
qed

theorem wif_roundtrip_witness: "decode_wif (wif_of MAINNET True (replicate 32 7)) = Ok (replicate 32 7, True, MAINNET)"
  using wif_roundtrip [of "replicate 32 7"] by simp

end
