(* ===== verification/Ecdsa.thy ===== *)
theory Ecdsa
  imports Radix
begin

text \<open>
  ECDSA signatures as bytes: the DER and the compact form of \<open>pyrxd/utils.py\<close>, the constants, point test,
  negation and square root of \<open>pyrxd/curve.py\<close>, and signing with a given nonce of \<open>pyrxd/keys.py\<close>, whose
  point multiplication is the library's and a parameter here.
\<close>

section \<open>The curve\<close>

definition curve_p :: int where
  "curve_p = 0xFFFFFFFFFFFFFFFFFFFFFFFFFFFFFFFFFFFFFFFFFFFFFFFFFFFFFFFEFFFFFC2F"

definition curve_n :: int where
  "curve_n = 0xFFFFFFFFFFFFFFFFFFFFFFFFFFFFFFFEBAAEDCE6AF48A03BBFD25E8CD0364141"

definition curve_g :: "int \<times> int" where
  "curve_g = (0x79BE667EF9DCBBAC55A06295CE870B07029BFCDB2DCE28D959F2815B16F81798,
     0x483ADA7726A3C4655DA4FBFC0E1108A8FD17B448A68554199C47D08FFB10D4B8)"

text \<open>\<open>None\<close> is the point at infinity.\<close>

fun on_curve :: "(int \<times> int) option \<Rightarrow> bool" where
  "on_curve None \<longleftrightarrow> True"
| "on_curve (Some (x, y)) \<longleftrightarrow> (y * y - x * x * x - 0 * x - 7) mod curve_p = 0"

fun curve_negative :: "(int \<times> int) option \<Rightarrow> (int \<times> int) option result" where
  "curve_negative None = Ok None"
| "curve_negative (Some (x, y)) =
     (if \<not> on_curve (Some (x, y)) then Err ValidationError
      else if \<not> on_curve (Some (x, (- y) mod curve_p)) then Err ValidationError
      else Ok (Some (x, (- y) mod curve_p)))"

text \<open>The library's addition \<open>combine\<close> and multiplication \<open>mult\<close> answer a point.\<close>

definition curve_add ::
  "(int \<times> int \<Rightarrow> int \<times> int \<Rightarrow> int \<times> int) \<Rightarrow> (int \<times> int) option \<Rightarrow> (int \<times> int) option \<Rightarrow> (int \<times> int) option result"
where
  "curve_add combine p q =
     (if \<not> on_curve p then Err ValidationError
      else if \<not> on_curve q then Err ValidationError
      else case (p, q) of
        (None, _) \<Rightarrow> Ok q
      | (_, None) \<Rightarrow> Ok p
      | (Some a, Some b) \<Rightarrow>
          bind_r (curve_negative q) (\<lambda>nq.
            if p = nq then Ok None
            else let r = combine a b in if \<not> on_curve (Some r) then Err ValidationError else Ok (Some r)))"

definition curve_multiply_pos ::
  "(int \<Rightarrow> int \<times> int \<Rightarrow> int \<times> int) \<Rightarrow> int \<Rightarrow> int \<times> int \<Rightarrow> (int \<times> int) option result"
where
  "curve_multiply_pos mult scalar pt =
     (let r = mult (scalar mod curve_n) pt in if \<not> on_curve (Some r) then Err ValidationError else Ok (Some r))"

text \<open>A negative scalar is negated once, together with the point.\<close>

definition curve_multiply ::
  "(int \<Rightarrow> int \<times> int \<Rightarrow> int \<times> int) \<Rightarrow> int \<Rightarrow> (int \<times> int) option \<Rightarrow> (int \<times> int) option result"
where
  "curve_multiply mult scalar point =
     (if \<not> on_curve point then Err ValidationError
      else if scalar mod curve_n = 0 then Ok None
      else case point of
        None \<Rightarrow> Ok None
      | Some pt \<Rightarrow>
          if scalar < 0 then
            bind_r (curve_negative (Some pt)) (\<lambda>np.
              case np of None \<Rightarrow> Ok None | Some npt \<Rightarrow> curve_multiply_pos mult (- scalar) npt)
          else curve_multiply_pos mult scalar pt)"

text \<open>\<open>pow(b, e, m)\<close>, by squaring.\<close>

function pow_mod :: "int \<Rightarrow> nat \<Rightarrow> int \<Rightarrow> int" where
  "pow_mod b e m =
     (if e = 0 then 1 mod m
      else if even e then pow_mod (b * b mod m) (e div 2) m
      else b * pow_mod (b * b mod m) (e div 2) m mod m)"
  by auto

termination pow_mod
  by (relation "measure (\<lambda>(b, e, m). e)") auto

declare pow_mod.simps [simp del]

definition curve_get_y :: "int \<Rightarrow> bool \<Rightarrow> int" where
  "curve_get_y x even_y =
     (let y_square = (x * x * x + 0 * x + 7) mod curve_p;
          y = pow_mod y_square (nat ((curve_p + 1) div 4)) curve_p
      in if (y + (if even_y then 0 else 1)) mod 2 = 0 then y else (- y) mod curve_p)"

section \<open>Signatures\<close>

definition NUMBER_BYTE_LENGTH :: nat where "NUMBER_BYTE_LENGTH = 32"

definition deserialize_ecdsa_der :: "bytes \<Rightarrow> (nat \<times> nat) result" where
  "deserialize_ecdsa_der sig =
     (if length sig < 8 then Err ValueError
      else if sig ! 0 \<noteq> 0x30 then Err ValueError
      else if unat (sig ! 1) \<noteq> length sig - 2 then Err ValueError
      else if sig ! 2 \<noteq> 0x02 then Err ValueError
      else
        let r_len = unat (sig ! 3) in
        if r_len = 0 then Err ValueError
        else
          let r_end = 4 + r_len in
          if r_end + 2 > length sig then Err ValueError
          else
            let r = be_val (pyslice 4 r_end sig) in
            if sig ! r_end \<noteq> 0x02 then Err ValueError
            else
              let s_len = unat (sig ! (r_end + 1)) in
              if s_len = 0 then Err ValueError
              else
                let s_off = r_end + 2; s_end = s_off + s_len in
                if s_end \<noteq> length sig then Err ValueError
                else Ok (r, be_val (pyslice s_off s_end sig)))"

text \<open>\<open>x.to_bytes(32, "big").lstrip(b"\x00")\<close>, with a zero byte in front if the first bit is set.\<close>

definition der_number :: "int \<Rightarrow> bytes result" where
  "der_number x =
     bind_r (to_bytes_be x NUMBER_BYTE_LENGTH) (\<lambda>b.
       let stripped = dropWhile (\<lambda>c. c = 0) b in
       if stripped = [] then Err IndexError
       else Ok (if unat (hd stripped) \<ge> 0x80 then 0 # stripped else stripped))"

definition serialize_ecdsa_der :: "int \<times> int \<Rightarrow> bytes result" where
  "serialize_ecdsa_der sig =
     (case sig of (r, s) \<Rightarrow>
        let s = (if s > curve_n div 2 then curve_n - s else s) in
        bind_r (der_number r) (\<lambda>rb.
        bind_r (der_number s) (\<lambda>sb.
          let ser = [2, word_of_nat (length rb)] @ rb @ [2, word_of_nat (length sb)] @ sb
          in Ok ([0x30, word_of_nat (length ser)] @ ser))))"

definition deserialize_ecdsa_recoverable :: "bytes \<Rightarrow> (nat \<times> nat \<times> nat) result" where
  "deserialize_ecdsa_recoverable sig =
     (if length sig \<noteq> 65 then Err ValidationError
      else if \<not> unat (last sig) \<le> 3 then Err ValidationError
      else Ok (be_val (take NUMBER_BYTE_LENGTH sig), be_val (butlast (drop NUMBER_BYTE_LENGTH sig)), unat (last sig)))"

definition serialize_ecdsa_recoverable :: "int \<times> int \<times> int \<Rightarrow> bytes result" where
  "serialize_ecdsa_recoverable sig =
     (case sig of (r, s, rec_id) \<Rightarrow>
        if \<not> (0 \<le> rec_id \<and> rec_id < 4) then Err ValidationError
        else
          bind_r (to_bytes_be r NUMBER_BYTE_LENGTH) (\<lambda>rb.
          bind_r (to_bytes_be s NUMBER_BYTE_LENGTH) (\<lambda>sb.
          bind_r (to_bytes_be rec_id 1) (\<lambda>ib. Ok (rb @ sb @ ib)))))"

section \<open>Signing with a given nonce\<close>

text \<open>\<open>pow(k, -1, n)\<close> by the extended Euclidean algorithm; \<open>None\<close> if there is no inverse.\<close>

function egcd :: "int \<Rightarrow> int \<Rightarrow> int \<times> int" where
  "egcd a b = (if b \<le> 0 then (1, 0) else case egcd b (a mod b) of (x, y) \<Rightarrow> (y, x - (a div b) * y))"
  by auto

termination egcd
  by (relation "measure (\<lambda>(a, b). nat b)") (auto simp: zless_nat_conj)

declare egcd.simps [simp del]

definition mod_inverse :: "int \<Rightarrow> int \<Rightarrow> int result" where
  "mod_inverse k n = (let x = fst (egcd (k mod n) n) mod n in if k * x mod n = 1 then Ok x else Err ValueError)"

text \<open>The bytes of a signature in \<open>_sign_custom_k\<close>: numbers of 32 bytes, not stripped.\<close>

definition der_fixed :: "int \<Rightarrow> bytes result" where
  "der_fixed x = bind_r (to_bytes_be x 32) (\<lambda>b. Ok (if unat (hd b) \<ge> 0x80 then 0 # b else b))"

definition sign_custom_k :: "(int \<Rightarrow> int \<times> int \<Rightarrow> int \<times> int) \<Rightarrow> (bytes \<Rightarrow> bytes) \<Rightarrow> bytes \<Rightarrow> bytes \<Rightarrow> int \<Rightarrow> bytes result" where
  "sign_custom_k mult hasher key message k =
     (let z = int (be_val (hasher message)); k = k mod curve_n in
      if k = 0 then Err ValueError
      else
        bind_r (curve_multiply mult k (Some curve_g)) (\<lambda>R.
          case R of
            None \<Rightarrow> Err ValueError
          | Some (r, _) \<Rightarrow>
              bind_r (mod_inverse k curve_n) (\<lambda>ki.
                let s = ki * (z + r * int (be_val key)) mod curve_n in
                if s = 0 then Err ValueError
                else
                  let s = (if s > curve_n div 2 then curve_n - s else s) in
                  bind_r (der_fixed r) (\<lambda>rb.
                  bind_r (der_fixed s) (\<lambda>sb.
                    Ok ([0x30, word_of_nat (4 + length rb + length sb), 0x02, word_of_nat (length rb)] @ rb
                        @ [0x02, word_of_nat (length sb)] @ sb))))))"

section \<open>The layout\<close>

definition der_layout :: "bytes \<Rightarrow> bytes \<Rightarrow> bytes" where
  "der_layout rb sb =
     [0x30, word_of_nat (4 + length rb + length sb), 0x02, word_of_nat (length rb)] @ rb @ [0x02, word_of_nat (length sb)] @ sb"

text \<open>A number in strict DER: not empty, not negative, no superfluous zero byte.\<close>

definition minimal_number :: "bytes \<Rightarrow> bool" where
  "minimal_number b \<longleftrightarrow> b \<noteq> [] \<and> unat (hd b) < 0x80 \<and> (length b > 1 \<and> hd b = 0 \<longrightarrow> unat (b ! 1) \<ge> 0x80)"

definition low_s :: "int \<Rightarrow> int" where
  "low_s s = (if s > curve_n div 2 then curve_n - s else s)"

lemma length_der_layout: "length (der_layout rb sb) = 6 + length rb + length sb"
  by (simp add: der_layout_def)

lemma deserialize_layout:
  assumes "rb \<noteq> []" "sb \<noteq> []" "length rb + length sb \<le> 251"
  shows "deserialize_ecdsa_der (der_layout rb sb) = Ok (be_val rb, be_val sb)"
proof -
  let ?sig = "der_layout rb sb"
  have l: "length ?sig = 6 + length rb + length sb" by (rule length_der_layout)
  have pos: "0 < length rb" "0 < length sb" using assms by simp_all
  have u: "unat (word_of_nat (4 + length rb + length sb) :: byte) = 4 + length rb + length sb"
    "unat (word_of_nat (length rb) :: byte) = length rb" "unat (word_of_nat (length sb) :: byte) = length sb"
    using assms(3) unfolding unat_word_of_nat_byte by simp_all
  have n: "?sig ! 0 = 0x30" "?sig ! 1 = word_of_nat (4 + length rb + length sb)" "?sig ! 2 = 0x02" "?sig ! 3 = word_of_nat (length rb)"
    by (simp_all add: der_layout_def)
  have m: "?sig ! (4 + length rb) = 0x02" "?sig ! (4 + length rb + 1) = word_of_nat (length sb)"
    by (simp_all add: der_layout_def nth_append)
  have p: "pyslice 4 (4 + length rb) ?sig = rb"
    "pyslice (4 + length rb + 2) (4 + length rb + 2 + length sb) ?sig = sb"
    by (simp_all add: der_layout_def pyslice_def numeral_eq_Suc)
  have "8 \<le> 6 + length rb + length sb" using pos by linarith
  then have "\<not> 6 + length rb + length sb < 8" by (simp only: not_less)
  then show ?thesis unfolding deserialize_ecdsa_der_def Let_def n u l m p using pos by (simp only: if_False) simp
qed

lemma deserialize_shape:
  assumes "deserialize_ecdsa_der sig = Ok (r, s)"
  shows "\<exists>rb sb. sig = der_layout rb sb \<and> rb \<noteq> [] \<and> sb \<noteq> [] \<and> length rb + length sb \<le> 251 \<and> r = be_val rb \<and> s = be_val sb"
proof -
  let ?rl = "unat (sig ! 3)" and ?sl = "unat (sig ! (4 + unat (sig ! 3) + 1))"
  from assms have c: "8 \<le> length sig" "sig ! 0 = 0x30" "unat (sig ! 1) = length sig - 2" "sig ! 2 = 0x02" "?rl \<noteq> 0"
    "4 + ?rl + 2 \<le> length sig" "sig ! (4 + ?rl) = 0x02" "?sl \<noteq> 0" "4 + ?rl + 2 + ?sl = length sig"
    "r = be_val (pyslice 4 (4 + ?rl) sig)" "s = be_val (pyslice (4 + ?rl + 2) (4 + ?rl + 2 + ?sl) sig)"
    unfolding deserialize_ecdsa_der_def Let_def by (simp_all only: if_Err_Ok_iff sum.inject prod.inject not_not not_less not_False_eq_True) auto
  let ?rb = "pyslice 4 (4 + ?rl) sig" and ?sb = "pyslice (4 + ?rl + 2) (4 + ?rl + 2 + ?sl) sig"
  have len: "length ?rb = ?rl" "length ?sb = ?sl" using c(6,9) by simp_all
  have tot: "4 + ?rl + ?sl = unat (sig ! 1)" using c(3,9) by simp
  have "sig = take 4 sig @ ?rb @ [sig ! (4 + ?rl), sig ! (4 + ?rl + 1)] @ ?sb"
  proof -
    have a: "drop 4 sig = ?rb @ drop (4 + ?rl) sig"
      using append_take_drop_id [of ?rl "drop 4 sig"] by (simp add: pyslice_def add.commute)
    have b: "drop (4 + ?rl) sig = sig ! (4 + ?rl) # sig ! (4 + ?rl + 1) # drop (4 + ?rl + 2) sig"
      using Cons_nth_drop_Suc [of "4 + ?rl" sig] Cons_nth_drop_Suc [of "4 + ?rl + 1" sig] c(6) by simp
    have e: "drop (4 + ?rl + 2) sig = ?sb" using c(9) by (simp add: pyslice_def)
    have "sig = take 4 sig @ drop 4 sig" by simp
    then show ?thesis unfolding a b e by (simp only: append_Cons append_Nil)
  qed
  moreover have "take 4 sig = [sig ! 0, sig ! 1, sig ! 2, sig ! 3]"
    using c(1) by (intro nth_equalityI) (auto simp: less_Suc_eq numeral_eq_Suc)
  ultimately have "sig = der_layout ?rb ?sb"
    using c(2,4,7) unfolding der_layout_def len tot by simp
  moreover have "?rb \<noteq> []" "?sb \<noteq> []" using len c(5,8) by (metis length_0_conv)+
  moreover have "length ?rb + length ?sb \<le> 251" using tot len unat_byte_less [of "sig ! 1"] by linarith
  ultimately show ?thesis using c(10,11) by blast
qed

text \<open>The DER reader accepts exactly one layout: it returns numbers if and only if the bytes are the tags and
  lengths of two non-empty numbers and nothing else, and then returns these numbers. Whether the
  numbers are encoded minimally is not looked at.\<close>

theorem der_reader_exact:
  "deserialize_ecdsa_der sig = Ok (r, s) \<longleftrightarrow>
    (\<exists>rb sb. sig = der_layout rb sb \<and> rb \<noteq> [] \<and> sb \<noteq> [] \<and> length rb + length sb \<le> 251 \<and> r = be_val rb \<and> s = be_val sb)"
  using deserialize_shape deserialize_layout by blast

section \<open>Round trips\<close>

lemma dropWhile_zero_val: "be_val (dropWhile (\<lambda>c. c = 0) b) = be_val b"
  by (induction b) (simp_all add: be_val_Cons)

lemma der_number_minimal:
  assumes "der_number x = Ok b"
  shows "minimal_number b \<and> int (be_val b) = x \<and> length b \<le> 33 \<and> (x < 2 ^ 255 \<longrightarrow> length b \<le> 32)"
proof -
  let ?w = "be_bytes 32 (nat x)"
  let ?s = "dropWhile (\<lambda>c. c = 0) ?w"
  from assms have x: "0 \<le> x" "x < 256 ^ 32" and ne: "?s \<noteq> []" and b: "b = (if unat (hd ?s) \<ge> 0x80 then 0 # ?s else ?s)"
    by (auto simp: der_number_def NUMBER_BYTE_LENGTH_def bind_r_Ok_iff to_bytes_be_def Let_def split: if_splits)
  have val: "int (be_val ?s) = x" using x by (simp add: dropWhile_zero_val be_val_be_bytes nat_less_iff)
  have len: "length ?s \<le> 32" using length_dropWhile_le [of "\<lambda>c. c = 0" ?w] by simp
  have hd: "hd ?s \<noteq> 0" using ne hd_dropWhile by blast
  have small: "unat (hd ?s) < 0x80" if "x < 2 ^ 255" "length ?s = 32"
  proof (rule ccontr)
    assume "\<not> unat (hd ?s) < 0x80"
    obtain c cs where s: "?s = c # cs" using ne by (cases ?s) auto
    then have "128 * 256 ^ 31 \<le> be_val ?s" using that(2) \<open>\<not> unat (hd ?s) < 0x80\<close> by (simp add: be_val_Cons trans_le_add1)
    moreover have "int (be_val ?s) < int (2 ^ 255)" using that(1) val by simp
    then have "be_val ?s < 2 ^ 255" by (simp only: of_nat_less_iff)
    ultimately show False by simp
  qed
  show ?thesis
  proof (cases "unat (hd ?s) \<ge> 0x80")
    case True
    with b ne len val small show ?thesis
      by (cases ?s) (auto simp: minimal_number_def be_val_Cons le_less)
  next
    case False
    with b ne hd len val show ?thesis by (auto simp: minimal_number_def)
  qed
qed

lemma der_number_total: "0 < x \<Longrightarrow> x < 2 ^ 256 \<Longrightarrow> \<exists>b. der_number x = Ok b"
proof -
  assume x: "0 < x" "x < 2 ^ 256"
  have "dropWhile (\<lambda>c. c = 0) (be_bytes 32 (nat x)) \<noteq> []"
  proof
    assume "dropWhile (\<lambda>c. c = 0) (be_bytes 32 (nat x)) = []"
    then have "be_val (be_bytes 32 (nat x)) = 0" using dropWhile_zero_val [of "be_bytes 32 (nat x)"] by (metis be_val_Nil)
    then show False using x by (simp add: be_val_be_bytes nat_less_iff)
  qed
  then show ?thesis using x by (simp add: der_number_def NUMBER_BYTE_LENGTH_def to_bytes_be_def Let_def)
qed

text \<open>Signatures survive DER, and are canonical: for numbers in range \<open>serialize_ecdsa_der\<close> writes both
  minimally, in at most 71 bytes, with the second in the lower half of the group order, and
  \<open>deserialize_ecdsa_der\<close> reads them back.\<close>

theorem der_roundtrip:
  assumes "0 < r" and "r < 2 ^ 256" and "0 < s" and "s < curve_n"
  shows "\<exists>rb sb. serialize_ecdsa_der (r, s) = Ok (der_layout rb sb) \<and> minimal_number rb \<and> minimal_number sb
    \<and> length (der_layout rb sb) \<le> 71 \<and> deserialize_ecdsa_der (der_layout rb sb) = Ok (nat r, nat (low_s s)) \<and> low_s s \<le> curve_n div 2"
proof -
  have low: "0 < low_s s" "low_s s < 2 ^ 255" "low_s s \<le> curve_n div 2" using assms(3,4) by (auto simp: low_s_def curve_n_def)
  obtain rb where rb: "der_number r = Ok rb" using der_number_total assms(1,2) by blast
  have "low_s s < 2 ^ 256" using low(2) by simp
  then obtain sb where sb: "der_number (low_s s) = Ok sb" using der_number_total low(1) by blast
  note r = der_number_minimal [OF rb] and s = der_number_minimal [OF sb]
  have "serialize_ecdsa_der (r, s) = Ok (der_layout rb sb)"
    using rb sb by (simp add: serialize_ecdsa_der_def der_layout_def low_s_def Let_def ac_simps)
  moreover have "deserialize_ecdsa_der (der_layout rb sb) = Ok (nat r, nat (low_s s))"
    using deserialize_layout [of rb sb] r s low(2) by (auto simp: minimal_number_def)
  moreover have "length (der_layout rb sb) \<le> 71" using r s low(2) by (auto simp: length_der_layout)
  ultimately show ?thesis using r s low(3) by blast
qed


theorem der_roundtrip_witness:
  "\<exists>rb sb. serialize_ecdsa_der (1, curve_n - 1) = Ok (der_layout rb sb) \<and> deserialize_ecdsa_der (der_layout rb sb) = Ok (1, 1)"
proof -
  have "low_s (curve_n - 1) = 1" by (simp add: low_s_def curve_n_def)
  with der_roundtrip [of 1 "curve_n - 1"] show ?thesis by (force simp: curve_n_def)
qed

text \<open>Compact signatures survive: what \<open>serialize_ecdsa_recoverable\<close> writes is 65 bytes long and
  \<open>deserialize_ecdsa_recoverable\<close> reads it back; other recovery ids are refused.\<close>

theorem recoverable_roundtrip:
  "serialize_ecdsa_recoverable (r, s, i) = Ok sig \<Longrightarrow>
    length sig = 65 \<and> deserialize_ecdsa_recoverable sig = Ok (nat r, nat s, nat i) \<and> 0 \<le> i \<and> i \<le> 3"
proof -
  assume "serialize_ecdsa_recoverable (r, s, i) = Ok sig"
  then have i: "0 \<le> i" "i < 4" and r: "0 \<le> r" "r < 256 ^ 32" and s: "0 \<le> s" "s < 256 ^ 32"
    and sig: "sig = be_bytes 32 (nat r) @ be_bytes 32 (nat s) @ be_bytes 1 (nat i)"
    by (auto simp: serialize_ecdsa_recoverable_def NUMBER_BYTE_LENGTH_def bind_r_Ok_iff to_bytes_be_Ok_iff split: if_splits)
  have "nat i mod 256 = nat i" using i by simp
  then have "unat (word_of_nat (nat i) :: byte) = nat i" by (simp only: unat_word_of_nat_byte)
  then obtain w where w: "be_bytes 1 (nat i) = [w]" "unat w = nat i" by (simp add: be_bytes_def)
  have n: "nat r < 256 ^ 32" "nat s < 256 ^ 32" using r s by (simp_all add: nat_less_iff)
  have "nat i \<le> 3" using i by simp
  then show ?thesis
    using i n by (simp add: deserialize_ecdsa_recoverable_def NUMBER_BYTE_LENGTH_def sig w butlast_append be_val_be_bytes del: One_nat_def)
qed

theorem recoverable_roundtrip_witness:
  "\<exists>sig. serialize_ecdsa_recoverable (1, 2, 3) = Ok sig \<and> deserialize_ecdsa_recoverable sig = Ok (1, 2, 3)"
proof -
  have "\<exists>sig. serialize_ecdsa_recoverable (1, 2, 3) = Ok sig"
    by (simp add: serialize_ecdsa_recoverable_def NUMBER_BYTE_LENGTH_def to_bytes_be_def)
  with recoverable_roundtrip [of 1 2 3] show ?thesis by auto
qed

section \<open>Signing with a given nonce\<close>

lemma egcd_gcd: "0 \<le> a \<Longrightarrow> 0 \<le> b \<Longrightarrow> egcd a b = (x, y) \<Longrightarrow> a * x + b * y = gcd a b"
proof (induction a b arbitrary: x y rule: egcd.induct)
  case (1 a b)
  show ?case
  proof (cases "b \<le> 0")
    case True
    have "egcd a b = (1, 0)" using True by (subst egcd.simps) simp
    with True 1(2,3,4) show ?thesis by simp
  next
    case False
    obtain u v where e: "egcd b (a mod b) = (u, v)" by (cases "egcd b (a mod b)")
    with 1(1) [OF False] False 1(2) have ih: "b * u + a mod b * v = gcd b (a mod b)" by simp
    from 1(4) False e have xy: "x = v" "y = u - a div b * v" by (auto simp: egcd.simps [of a b])
    have "a * v + b * (u - a div b * v) = b * u + (a - a div b * b) * v" by (simp add: algebra_simps)
    also have "a - a div b * b = a mod b" by (simp add: minus_div_mult_eq_mod)
    finally show ?thesis using ih False by (simp add: xy gcd_red_int [of a b])
  qed
qed

lemma mod_inverse_total: "coprime k n \<Longrightarrow> 1 < n \<Longrightarrow> \<exists>x. mod_inverse k n = Ok x"
proof -
  assume k: "coprime k n" "1 < n"
  obtain x y where e: "egcd (k mod n) n = (x, y)" by (cases "egcd (k mod n) n")
  have "gcd (k mod n) n = 1" using k(1) by (metis coprime_iff_gcd_eq_1 gcd.commute gcd_red_int)
  with egcd_gcd [OF _ _ e] k(2) have "k mod n * x + n * y = 1" by simp
  then have "(k mod n * x) mod n = 1 mod n" by (metis mod_mult_self2)
  then have "k * (x mod n) mod n = 1" using k(2) by (simp add: mod_mult_left_eq mod_mult_right_eq)
  then show ?thesis by (simp add: mod_inverse_def e)
qed

lemma der_fixed_shape:
  assumes "der_fixed x = Ok b"
  shows "b \<noteq> [] \<and> length b \<le> 33 \<and> int (be_val b) = x \<and> (x < 2 ^ 247 \<longrightarrow> \<not> minimal_number b)"
proof -
  let ?w = "be_bytes 32 (nat x)"
  from assms have x: "0 \<le> x" "x < 256 ^ 32" and b: "b = (if unat (hd ?w) \<ge> 0x80 then 0 # ?w else ?w)"
    by (auto simp: der_fixed_def bind_r_Ok_iff to_bytes_be_Ok_iff)
  have val: "int (be_val ?w) = x" using x by (simp add: be_val_be_bytes nat_less_iff)
  have len: "length ?w = 32" by simp
  then obtain c d ds where w: "?w = c # d # ds" "length ds = 30"
    by (metis (no_types, lifting) length_Suc_conv numeral_eq_Suc pred_numeral_simps(2,3) BitM.simps)
  have "\<not> minimal_number b" if "x < 2 ^ 247"
  proof -
    have "int (unat c * 256 ^ 31 + unat d * 256 ^ 30 + be_val ds) < int (2 ^ 247)"
      using val that w by (simp add: be_val_Cons)
    then have lt: "unat c * 256 ^ 31 + unat d * 256 ^ 30 + be_val ds < 2 ^ 247" by (simp only: of_nat_less_iff)
    have "unat c = 0"
    proof (rule ccontr)
      assume "unat c \<noteq> 0"
      then have "256 ^ 31 \<le> unat c * 256 ^ 31" by simp
      with lt have "(256 :: nat) ^ 31 < 2 ^ 247" by linarith
      then show False by simp
    qed
    moreover have "unat d < 128"
    proof (rule ccontr)
      assume "\<not> unat d < 128"
      then have "128 * 256 ^ 30 \<le> unat d * 256 ^ 30" by simp
      with lt have "(128 :: nat) * 256 ^ 30 < 2 ^ 247" by linarith
      then show False by simp
    qed
    ultimately show ?thesis using b w by (auto simp: minimal_number_def unat_eq_0)
  qed
  with b val len w show ?thesis by (auto simp: be_val_Cons)
qed

lemma der_fixed_total: "0 \<le> x \<Longrightarrow> x < 256 ^ 32 \<Longrightarrow> \<exists>b. der_fixed x = Ok b"
  by (simp add: der_fixed_def to_bytes_be_def)

text \<open>Signing with a given nonce produces a signature of the right numbers but not always in strict DER:
  the bytes read back to the abscissa of the nonce's point and to a number in the lower half that
  satisfies the signature equation up to sign; whenever that number is below \<open>2\<^sup>2\<^sup>4\<^sup>7\<close>, its encoding
  has a superfluous zero byte.\<close>

theorem custom_k_signature:
  assumes "sign_custom_k mult hasher key message k = Ok sig"
  shows "\<exists>r y s rb sb. curve_multiply mult (k mod curve_n) (Some curve_g) = Ok (Some (r, y)) \<and> sig = der_layout rb sb
    \<and> deserialize_ecdsa_der sig = Ok (nat r, nat s) \<and> 0 < s \<and> s \<le> curve_n div 2
    \<and> (s * k mod curve_n = (int (be_val (hasher message)) + r * int (be_val key)) mod curve_n
       \<or> (- s) * k mod curve_n = (int (be_val (hasher message)) + r * int (be_val key)) mod curve_n)
    \<and> (s < 2 ^ 247 \<longrightarrow> \<not> minimal_number sb)"
proof -
  let ?e = "int (be_val (hasher message))" and ?d = "int (be_val key)" and ?k = "k mod curve_n"
  have n: "0 < curve_n" by (simp add: curve_n_def)
  from assms obtain r y ki rb sb where p: "curve_multiply mult ?k (Some curve_g) = Ok (Some (r, y))" "mod_inverse ?k curve_n = Ok ki"
    "ki * (?e + r * ?d) mod curve_n \<noteq> 0" "der_fixed r = Ok rb" "der_fixed (low_s (ki * (?e + r * ?d) mod curve_n)) = Ok sb"
    "sig = der_layout rb sb"
    unfolding sign_custom_k_def Let_def
    by (simp only: py_simps case_option_Ok_iff case_prod_beta split: if_split_asm) (auto simp: low_s_def der_layout_def)
  let ?s = "ki * (?e + r * ?d) mod curve_n"
  have s: "0 < ?s" "?s < curve_n" using p(3) n by (simp_all add: order_le_neq_trans)
  then have low: "0 < low_s ?s" "low_s ?s \<le> curve_n div 2" by (auto simp: low_s_def curve_n_def)
  have inv: "?k * ki mod curve_n = 1" using p(2) by (auto simp: mod_inverse_def Let_def split: if_splits)
  have "?s * k mod curve_n = (k * ki) * (?e + r * ?d) mod curve_n"
    by (simp only: mod_mult_left_eq) (simp only: ac_simps)
  also have "\<dots> = (k * ki mod curve_n) * (?e + r * ?d) mod curve_n" by (simp add: mod_mult_left_eq)
  also have "k * ki mod curve_n = 1" using inv by (simp add: mod_mult_left_eq)
  finally have eq: "?s * k mod curve_n = (?e + r * ?d) mod curve_n" by simp
  have "low_s ?s * k mod curve_n = (?e + r * ?d) mod curve_n \<or> (- low_s ?s) * k mod curve_n = (?e + r * ?d) mod curve_n"
  proof (cases "?s > curve_n div 2")
    case True
    then have "(- low_s ?s) * k = ?s * k - curve_n * k" by (simp add: low_s_def algebra_simps)
    then have "(- low_s ?s) * k mod curve_n = ?s * k mod curve_n" by (metis mod_mult_self2_is_0 mod_diff_right_eq diff_zero mult.commute)
    with eq show ?thesis by simp
  qed (use eq in \<open>simp add: low_s_def\<close>)
  moreover have "deserialize_ecdsa_der sig = Ok (nat r, nat (low_s ?s))"
    using deserialize_layout [of rb sb] der_fixed_shape [OF p(4)] der_fixed_shape [OF p(5)] p(6) by auto
  ultimately show ?thesis using p(1,6) low der_fixed_shape [OF p(5)] by blast
qed

text \<open>With the nonce one, whose point is the generator.\<close>

theorem custom_k_signature_witness:
  "\<exists>sig sb. sign_custom_k (\<lambda>_ _. curve_g) (\<lambda>_. be_bytes 32 (nat (5 + curve_n - fst curve_g))) (be_bytes 32 1) [] 1 = Ok sig
    \<and> (\<exists>r s rb. sig = der_layout rb sb \<and> deserialize_ecdsa_der sig = Ok (nat r, nat s))"
proof -
  have "on_curve (Some curve_g)" unfolding curve_g_def curve_p_def by code_simp
  then have m: "curve_multiply (\<lambda>_ _. curve_g) 1 (Some curve_g) = Ok (Some curve_g)"
    by (simp add: curve_multiply_def curve_multiply_pos_def curve_n_def)
  have inv: "mod_inverse 1 curve_n = Ok 1" by (simp add: mod_inverse_def egcd.simps curve_n_def)
  let ?z = "5 + curve_n - fst curve_g"
  have range: "0 \<le> ?z" "?z < 256 ^ 32" "0 \<le> fst curve_g" "fst curve_g < 256 ^ 32" by (simp_all add: curve_n_def curve_g_def)
  have z: "int (be_val (be_bytes 32 (nat ?z))) = ?z" "int (be_val (be_bytes 32 1)) = 1"
    using range by (simp_all add: be_val_be_bytes nat_less_iff)
  have s: "1 * (?z + fst curve_g * 1) mod curve_n = 5" by (simp add: curve_n_def)
  have low: "\<not> (5 :: int) > curve_n div 2" "1 mod curve_n = 1" by (simp_all add: curve_n_def)
  obtain rb where rb: "der_fixed (fst curve_g) = Ok rb" using der_fixed_total [OF range(3,4)] by blast
  obtain sb where sb: "der_fixed 5 = Ok sb" using der_fixed_total [of 5] by auto
  have "\<exists>sig. sign_custom_k (\<lambda>_ _. curve_g) (\<lambda>_. be_bytes 32 (nat ?z)) (be_bytes 32 1) [] 1 = Ok sig"
    unfolding sign_custom_k_def Let_def z low(2) using m inv s low(1) rb sb by (simp add: case_prod_beta)
  then show ?thesis using custom_k_signature by metis
qed

section \<open>Points\<close>

lemma curve_p_pos: "0 < curve_p" "odd curve_p"
  by (simp_all add: curve_p_def)

lemma pow_mod_range: "0 < m \<Longrightarrow> 0 \<le> pow_mod b e m \<and> pow_mod b e m < m"
proof (induction b e m rule: pow_mod.induct)
  case (1 b e m)
  then show ?case by (subst (1 2) pow_mod.simps) auto
qed

lemma pow_mod_power: "0 < m \<Longrightarrow> pow_mod b e m = b ^ e mod m"
proof (induction b e m rule: pow_mod.induct)
  case (1 b e m)
  show ?case
  proof (cases "e = 0")
    case False
    have half: "(b * b mod m) ^ (e div 2) mod m = b ^ (2 * (e div 2)) mod m"
      by (simp add: power_mod power_mult power2_eq_square)
    show ?thesis
    proof (cases "even e")
      case True
      with 1 False half show ?thesis by (simp add: pow_mod.simps [of b e m])
    next
      case odd: False
      then have e: "e = Suc (2 * (e div 2))" by presburger
      have "pow_mod b e m = b * (b ^ (2 * (e div 2)) mod m) mod m"
        using 1 False odd half by (simp add: pow_mod.simps [of b e m])
      also have "\<dots> = b ^ e mod m" by (subst (2) e) (simp add: mod_mult_right_eq)
      finally show ?thesis .
    qed
  qed (simp add: pow_mod.simps)
qed

lemma on_curve_negated: "on_curve (Some (a, (- b) mod curve_p)) = on_curve (Some (a, b))"
proof -
  have "((- b) mod curve_p * ((- b) mod curve_p)) mod curve_p = (b * b) mod curve_p"
    by (metis minus_mult_minus mod_mult_eq)
  then have "((- b) mod curve_p * ((- b) mod curve_p) - c) mod curve_p = (b * b - c) mod curve_p" for c
    by (rule mod_diff_cong) simp
  from this [of "a * a * a + 7"] show ?thesis by (simp add: diff_diff_eq)
qed

text \<open>Negation stays on the curve and the chosen square root has the chosen parity: \<open>curve_negative\<close> never
  raises for a point on the curve and maps it to a point on the curve; \<open>curve_get_y\<close> returns a residue
  of the parity asked for, unless it is zero; and it returns a point of the curve if the power it
  computes is a square root at all.\<close>

theorem points_correct:
  "(on_curve p \<longrightarrow> (\<exists>q. curve_negative p = Ok q \<and> on_curve q))
    \<and> 0 \<le> curve_get_y x even_y \<and> curve_get_y x even_y < curve_p
    \<and> (curve_get_y x even_y = 0 \<or> even (curve_get_y x even_y) = even_y)
    \<and> on_curve (Some (x, curve_get_y x even_y)) = on_curve (Some (x, (x ^ 3 + 7) ^ nat ((curve_p + 1) div 4) mod curve_p))"
proof -
  have "on_curve p \<longrightarrow> (\<exists>q. curve_negative p = Ok q \<and> on_curve q)"
  proof (cases p)
    case (Some ab)
    then show ?thesis using on_curve_negated by (cases ab) (auto simp del: on_curve.simps)
  qed simp
  moreover define y where "y = pow_mod ((x * x * x + 0 * x + 7) mod curve_p) (nat ((curve_p + 1) div 4)) curve_p"
  then have g: "curve_get_y x even_y = (if (y + (if even_y then 0 else 1)) mod 2 = 0 then y else (- y) mod curve_p)"
    by (simp add: curve_get_y_def)
  have y: "0 \<le> y" "y < curve_p" using pow_mod_range [OF curve_p_pos(1)] by (simp_all add: y_def)
  have m: "(- y) mod curve_p = (if y = 0 then 0 else curve_p - y)" using y by (simp add: zmod_zminus1_eq_if)
  have "0 \<le> curve_get_y x even_y" "curve_get_y x even_y < curve_p" using g m y by auto
  moreover have "curve_get_y x even_y = 0 \<or> even (curve_get_y x even_y) = even_y"
    unfolding g m using curve_p_pos(2) by (auto simp: even_iff_mod_2_eq_zero [symmetric])
  moreover have "on_curve (Some (x, curve_get_y x even_y)) = on_curve (Some (x, y))" using g on_curve_negated by simp
  moreover have "y = (x ^ 3 + 7) ^ nat ((curve_p + 1) div 4) mod curve_p"
    by (simp add: y_def pow_mod_power [OF curve_p_pos(1)] power_mod power3_eq_cube)
  ultimately show ?thesis by simp
qed

end
