(* ===== verification/Merkle_Path.thy ===== *)
theory Merkle_Path
  imports Transaction
begin

text \<open>
  Merkle paths in the BUMP format: \<open>pyrxd/merkle_path.py\<close> and the hexadecimal helper it uses of
  \<open>pyrxd/utils.py\<close>. The optional keys of a leaf are present and true, or absent. \<open>verify\<close>, which asks a
  remote chain tracker about the computed root, is not modelled.
\<close>

section \<open>Hashing hexadecimal text\<close>

text \<open>\<open>to_bytes(msg, "hex")\<close>: drops what is not alphanumeric and completes an odd number of digits.\<close>

definition isalnum :: "char \<Rightarrow> bool" where
  "isalnum c = (let n = (of_char c :: nat) in 48 \<le> n \<and> n \<le> 57 \<or> 65 \<le> n \<and> n \<le> 90 \<or> 97 \<le> n \<and> n \<le> 122)"

fun hex_pairs :: "string \<Rightarrow> bytes result" where
  "hex_pairs (a # b # s) =
     (case (hex_val a, hex_val b) of
        (Some x, Some y) \<Rightarrow> bind_r (hex_pairs s) (\<lambda>bs. Ok (word_of_nat (16 * x + y) # bs))
      | _ \<Rightarrow> Err ValueError)"
| "hex_pairs s = Ok []"

definition hex_to_bytes :: "string \<Rightarrow> bytes result" where
  "hex_to_bytes msg =
     (let m = filter isalnum msg in hex_pairs (if length m mod 2 \<noteq> 0 then CHR ''0'' # m else m))"

definition hash_fn :: "string \<Rightarrow> string result" where
  "hash_fn m = bind_r (hex_to_bytes m) (\<lambda>b. Ok (hex (rev (hash256 (rev b)))))"

section \<open>Paths\<close>

record leaf =
  lf_offset :: nat
  lf_hash :: "string option"
  lf_txid :: bool
  lf_dup :: bool

type_synonym path = "leaf list list"

definition leaf_at :: "leaf list \<Rightarrow> nat \<Rightarrow> leaf option" where
  "leaf_at lv off = List.find (\<lambda>e. lf_offset e = off) lv"

text \<open>A hash that is \<open>None\<close> cannot be concatenated.\<close>

definition hash_str :: "leaf \<Rightarrow> string result" where
  "hash_str l = (case lf_hash l of None \<Rightarrow> Err KeyError | Some h \<Rightarrow> Ok h)"

fun find_or_compute_leaf :: "path \<Rightarrow> nat \<Rightarrow> nat \<Rightarrow> leaf option result" where
  "find_or_compute_leaf path height off =
     (case leaf_at (path ! height) off of
        Some l \<Rightarrow> Ok (Some l)
      | None \<Rightarrow>
          (case height of
             0 \<Rightarrow> Ok None
           | Suc h \<Rightarrow>
               bind_r (find_or_compute_leaf path h (2 * off)) (\<lambda>leaf0.
                 case leaf0 of
                   None \<Rightarrow> Ok None
                 | Some l0 \<Rightarrow>
                     (case lf_hash l0 of
                        None \<Rightarrow> Ok None
                      | Some [] \<Rightarrow> Ok None
                      | Some h0 \<Rightarrow>
                          bind_r (find_or_compute_leaf path h (2 * off + 1)) (\<lambda>leaf1.
                            case leaf1 of
                              None \<Rightarrow> Ok None
                            | Some l1 \<Rightarrow>
                                bind_r (if lf_dup l1 then hash_fn (h0 @ h0)
                                        else bind_r (hash_str l1) (\<lambda>h1. hash_fn (h1 @ h0))) (\<lambda>w.
                                  Ok (Some \<lparr>lf_offset = off, lf_hash = Some w, lf_txid = False, lf_dup = False\<rparr>)))))))"

declare find_or_compute_leaf.simps [simp del]

text \<open>\<open>(index >> height) ^ 1\<close>: the sibling.\<close>

definition sibling :: "nat \<Rightarrow> nat" where
  "sibling n = (if even n then n + 1 else n - 1)"

fun root_loop :: "path \<Rightarrow> nat \<Rightarrow> nat \<Rightarrow> nat \<Rightarrow> string \<Rightarrow> string result" where
  "root_loop path index 0 height working = Ok working"
| "root_loop path index (Suc n) height working =
     (let off = sibling (index div 2 ^ height) in
      bind_r (find_or_compute_leaf path height off) (\<lambda>found.
        case found of
          None \<Rightarrow> Err ValueError
        | Some l \<Rightarrow>
            bind_r (if lf_dup l then hash_fn (working @ working)
                    else bind_r (hash_str l) (\<lambda>h. if odd off then hash_fn (h @ working) else hash_fn (working @ h)))
              (root_loop path index n (Suc height))))"

definition compute_root :: "path \<Rightarrow> string option \<Rightarrow> string result" where
  "compute_root path tid =
     (if path = [] then Err IndexError
      else
        bind_r (case tid of
                  Some t \<Rightarrow> Ok t
                | None \<Rightarrow> (case List.find (\<lambda>l. lf_hash l \<noteq> None) (path ! 0) of
                             None \<Rightarrow> Err OtherError | Some l \<Rightarrow> hash_str l)) (\<lambda>t.
          case List.find (\<lambda>l. lf_hash l = Some t) (path ! 0) of
            None \<Rightarrow> Err ValueError
          | Some l \<Rightarrow> root_loop path (lf_offset l) (length path) 0 t))"

text \<open>The checks of the constructor: offsets once per level and legal, and one root for all leaves.\<close>

definition legal_offsets :: "path \<Rightarrow> nat \<Rightarrow> nat set" where
  "legal_offsets path h = set (map (\<lambda>l. sibling (lf_offset l div 2 ^ h)) (filter (\<lambda>l. \<not> lf_dup l) (path ! 0)))"

definition level_ok :: "path \<Rightarrow> nat \<Rightarrow> bool" where
  "level_ok path h \<longleftrightarrow>
     distinct (map lf_offset (path ! h)) \<and> (if h = 0 then path ! 0 \<noteq> [] else lf_offset ` set (path ! h) \<subseteq> legal_offsets path h)"

definition MerklePath :: "nat \<Rightarrow> path \<Rightarrow> (nat \<times> path) result" where
  "MerklePath block_height path =
     (if \<not> (\<forall>h<length path. level_ok path h) then Err ValueError
      else if path = [] then Err IndexError
      else
        bind_r (map_r (\<lambda>l. compute_root path (lf_hash l)) (path ! 0)) (\<lambda>roots.
          if \<exists>r\<in>set roots. r \<noteq> hd roots then Err ValueError else Ok (block_height, path)))"

section \<open>The binary form\<close>

definition read_leaf :: "reader \<Rightarrow> leaf result \<times> reader" where
  "read_leaf r =
     (case read_var_int_num r of
        (off, r1) \<Rightarrow>
          (case read_uint8 r1 of
             (None, r2) \<Rightarrow> (Err TypeError, r2)
           | (Some flags, r2) \<Rightarrow>
               (case off of
                  None \<Rightarrow> (Err TypeError, r2)
                | Some n \<Rightarrow>
                    if odd flags then (Ok \<lparr>lf_offset = n, lf_hash = None, lf_txid = False, lf_dup = True\<rparr>, r2)
                    else
                      (case read (Some 32) r2 of
                         (None, r3) \<Rightarrow> (Err TypeError, r3)
                       | (Some b, r3) \<Rightarrow>
                           (Ok \<lparr>lf_offset = n, lf_hash = Some (hex (rev b)), lf_txid = odd (flags div 2), lf_dup = False\<rparr>, r3)))))"

fun read_leaves :: "nat \<Rightarrow> reader \<Rightarrow> leaf list result \<times> reader" where
  "read_leaves 0 r = (Ok [], r)"
| "read_leaves (Suc n) r =
     (case read_leaf r of
        (Inl e, r') \<Rightarrow> (Err e, r')
      | (Inr l, r') \<Rightarrow> (case read_leaves n r' of (ls, r'') \<Rightarrow> (bind_r ls (\<lambda>xs. Ok (l # xs)), r'')))"

text \<open>A number of leaves that cannot be read counts as none.\<close>

fun read_levels :: "nat \<Rightarrow> reader \<Rightarrow> path result \<times> reader" where
  "read_levels 0 r = (Ok [], r)"
| "read_levels (Suc n) r =
     (case read_var_int_num r of
        (k, r1) \<Rightarrow>
          (case read_leaves (case k of None \<Rightarrow> 0 | Some m \<Rightarrow> m) r1 of
             (Inl e, r2) \<Rightarrow> (Err e, r2)
           | (Inr ls, r2) \<Rightarrow>
               (case read_levels n r2 of (ps, r3) \<Rightarrow> (bind_r ps (\<lambda>p. Ok (sort_key lf_offset ls # p)), r3))))"

text \<open>
  Without a height the number of levels is missing as well, since the reader is at its end.
\<close>

definition path_from_reader :: "reader \<Rightarrow> (nat \<times> path) result \<times> reader" where
  "path_from_reader r =
     (case read_var_int_num r of
        (height, r1) \<Rightarrow>
          (case read_uint8 r1 of
             (None, r2) \<Rightarrow> (Err TypeError, r2)
           | (Some levels, r2) \<Rightarrow>
               (case height of
                  None \<Rightarrow> (Err TypeError, r2)
                | Some b \<Rightarrow> (case read_levels levels r2 of (p, r3) \<Rightarrow> (bind_r p (MerklePath b), r3)))))"

definition from_binary :: "bytes \<Rightarrow> (nat \<times> path) result" where
  "from_binary bump = fst (path_from_reader (mk_reader bump))"

definition leaf_bytes :: "leaf \<Rightarrow> bytes result" where
  "leaf_bytes l =
     bind_r (unsigned_to_varint (int (lf_offset l))) (\<lambda>off.
       let flags = (if lf_dup l then 1 else 0) + (if lf_txid l then 2 else 0)
       in if lf_dup l then Ok (off @ [flags])
          else bind_r (hash_str l) (\<lambda>h. bind_r (hex_to_bytes h) (\<lambda>b. Ok (off @ [flags] @ rev b))))"

definition level_bytes :: "leaf list \<Rightarrow> bytes result" where
  "level_bytes ls =
     bind_r (unsigned_to_varint (int (length ls))) (\<lambda>n. bind_r (map_r leaf_bytes ls) (\<lambda>bs. Ok (n @ concat bs)))"

definition to_binary :: "nat \<times> path \<Rightarrow> bytes result" where
  "to_binary mp =
     (case mp of (block_height, path) \<Rightarrow>
        bind_r (unsigned_to_varint (int block_height)) (\<lambda>h.
        bind_r (pack_u 1 (int (length path))) (\<lambda>n.
        bind_r (map_r level_bytes path) (\<lambda>ls. Ok (h @ n @ concat ls)))))"

section \<open>Combining and trimming\<close>

definition push_if_new :: "nat \<Rightarrow> nat list \<Rightarrow> nat list" where
  "push_if_new v a = (if a = [] \<or> last a \<noteq> v then a @ [v] else a)"

fun drop_offset :: "nat \<Rightarrow> leaf list \<Rightarrow> leaf list" where
  "drop_offset i [] = []"
| "drop_offset i (l # ls) = (if lf_offset l = i then ls else l # drop_offset i ls)"

definition drop_offsets_from_level :: "nat list \<Rightarrow> leaf list \<Rightarrow> leaf list" where
  "drop_offsets_from_level drops ls = foldl (\<lambda>acc i. drop_offset i acc) ls (rev drops)"

definition next_computed_offsets :: "nat list \<Rightarrow> nat list" where
  "next_computed_offsets cos = foldl (\<lambda>ncos off. push_if_new (off div 2) ncos) [] cos"

definition peer_of :: "leaf list \<Rightarrow> leaf \<Rightarrow> leaf option" where
  "peer_of ls e =
     (if odd (lf_offset e) then leaf_at ls (lf_offset e + 1)
      else if lf_offset e = 0 then None
      else leaf_at ls (lf_offset e - 1))"

definition trim_step :: "leaf list \<Rightarrow> nat list \<times> nat list \<Rightarrow> leaf \<Rightarrow> nat list \<times> nat list" where
  "trim_step ls acc e =
     (case acc of (computed, drops) \<Rightarrow>
        if lf_txid e then (push_if_new (lf_offset e div 2) computed, drops)
        else (case peer_of ls e of
                None \<Rightarrow> (computed, drops)
              | Some peer \<Rightarrow> (computed, if \<not> lf_txid peer then push_if_new (lf_offset peer) drops else drops)))"

fun trim_levels :: "nat list \<Rightarrow> path \<Rightarrow> path" where
  "trim_levels computed [] = []"
| "trim_levels computed (ls # rest) = drop_offsets_from_level computed ls # trim_levels (next_computed_offsets computed) rest"

definition trim :: "path \<Rightarrow> path" where
  "trim path =
     (case map (sort_key lf_offset) path of
        [] \<Rightarrow> []
      | ls # rest \<Rightarrow>
          (case foldl (trim_step ls) ([], []) ls of
             (computed, drops) \<Rightarrow> drop_offsets_from_level drops ls # trim_levels computed rest))"

definition mark_txid :: "leaf list \<Rightarrow> leaf list \<Rightarrow> leaf list" where
  "mark_txid others ls =
     map (\<lambda>e. if \<exists>l\<in>set others. lf_txid l \<and> lf_offset l = lf_offset e then e\<lparr>lf_txid := True\<rparr> else e) ls"

definition combine_level :: "leaf list \<Rightarrow> leaf list \<Rightarrow> leaf list" where
  "combine_level ls others =
     mark_txid others (ls @ filter (\<lambda>l. lf_offset l \<notin> lf_offset ` set ls) others)"

definition combine :: "nat \<times> path \<Rightarrow> nat \<times> path \<Rightarrow> (nat \<times> path) result" where
  "combine self other =
     (if fst self \<noteq> fst other then Err ValueError
      else
        bind_r (compute_root (snd self) None) (\<lambda>root1.
        bind_r (compute_root (snd other) None) (\<lambda>root2.
          if root1 \<noteq> root2 then Err ValueError
          else if length (snd other) < length (snd self) then Err IndexError
          else Ok (fst self, trim (map2 combine_level (snd self) (snd other))))))"

section \<open>The root\<close>

text \<open>The nodes of the tree over the given transaction ids, in the byte order of the text.\<close>

primrec tree_node :: "(nat \<Rightarrow> bytes) \<Rightarrow> nat \<Rightarrow> nat \<Rightarrow> bytes" where
  "tree_node ids 0 off = ids off"
| "tree_node ids (Suc h) off = rev (hash256 (rev (tree_node ids h (2 * off)) @ rev (tree_node ids h (2 * off + 1))))"

text \<open>
  A path agrees with a tree if every leaf carries the node of its place; a duplicate stands where the
  tree repeats the node to its left.
\<close>

definition leaf_agrees :: "(nat \<Rightarrow> bytes) \<Rightarrow> nat \<Rightarrow> leaf \<Rightarrow> bool" where
  "leaf_agrees ids h l \<longleftrightarrow>
     (if lf_dup l then odd (lf_offset l) \<and> lf_hash l = None \<and> tree_node ids h (lf_offset l) = tree_node ids h (lf_offset l - 1)
      else lf_hash l = Some (hex (tree_node ids h (lf_offset l))))"

definition path_agrees :: "(nat \<Rightarrow> bytes) \<Rightarrow> path \<Rightarrow> bool" where
  "path_agrees ids path \<longleftrightarrow> (\<forall>h<length path. \<forall>l\<in>set (path ! h). leaf_agrees ids h l)"

lemma isalnum_hex: "c \<in> set (hex bs) \<Longrightarrow> isalnum c"
proof -
  have "isalnum (hex_digit n)" if "n < 16" for n using that by (simp add: isalnum_def Let_def of_char_hex_digit)
  moreover have "unat (b :: byte) div 16 < 16" for b using unat_byte_less [of b] by linarith
  ultimately show "c \<in> set (hex bs) \<Longrightarrow> isalnum c" by (induction bs) auto
qed

lemma hex_pairs_hex: "hex_pairs (hex bs) = Ok bs"
proof (induction bs)
  case (Cons b bs)
  have "unat b div 16 < 16" using unat_byte_less [of b] by linarith
  with Cons.IH show ?case using unat_nibbles [of b] by (simp del: of_nat_add of_nat_mult)
qed simp

lemma hex_to_bytes_hex [simp]: "hex_to_bytes (hex bs) = Ok bs"
proof -
  have "filter isalnum (hex bs) = hex bs" using isalnum_hex by (auto simp: filter_id_conv)
  then show ?thesis by (simp add: hex_to_bytes_def hex_pairs_hex)
qed

lemma hash_fn_hex [simp]: "hash_fn (hex as @ hex bs) = Ok (hex (rev (hash256 (rev bs @ rev as))))"
  using hex_to_bytes_hex [of "as @ bs"] by (simp add: hash_fn_def hex_append)


lemma leaf_at_Some: "leaf_at lv off = Some l \<Longrightarrow> l \<in> set lv \<and> lf_offset l = off"
  by (auto simp: leaf_at_def find_Some_iff)

lemma tree_node_nonempty: "\<forall>i. ids i \<noteq> [] \<Longrightarrow> tree_node ids h off \<noteq> []"
proof (cases h)
  case (Suc k)
  have "length (tree_node ids (Suc k) off) = 32" by simp
  with Suc show ?thesis by (metis length_0_conv zero_neq_numeral)
qed simp

lemma hex_nonempty: "bs \<noteq> [] \<Longrightarrow> hex bs \<noteq> []"
  by (cases bs) auto

lemma find_or_compute_agrees:
  assumes "path_agrees ids path" "\<forall>i. ids i \<noteq> []" "height < length path"
  shows "find_or_compute_leaf path height off = Ok None
    \<or> (\<exists>l. find_or_compute_leaf path height off = Ok (Some l) \<and> lf_offset l = off \<and> leaf_agrees ids height l)"
  using assms(3)
proof (induction height arbitrary: off)
  case 0
  then show ?case using assms(1) leaf_at_Some [of "path ! 0" off]
    by (auto simp: find_or_compute_leaf.simps [of path 0] path_agrees_def split: option.splits)
next
  case (Suc h)
  show ?case
  proof (cases "leaf_at (path ! Suc h) off")
    case (Some l)
    with leaf_at_Some [OF Some] Suc.prems assms(1) show ?thesis
      by (auto simp: find_or_compute_leaf.simps [of path "Suc h"] path_agrees_def)
  next
    case None
    note unfold = find_or_compute_leaf.simps [of path "Suc h" off]
    from Suc.IH [of "2 * off"] Suc.prems consider "find_or_compute_leaf path h (2 * off) = Ok None"
      | l0 where "find_or_compute_leaf path h (2 * off) = Ok (Some l0)" "lf_offset l0 = 2 * off" "leaf_agrees ids h l0" by auto
    then show ?thesis
    proof cases
      case 1
      with None show ?thesis by (simp add: unfold)
    next
      case (2 l0)
      then have nd: "lf_hash l0 = Some (hex (tree_node ids h (2 * off)))" by (auto simp: leaf_agrees_def split: if_splits)
      obtain a as where ne: "hex (tree_node ids h (2 * off)) = a # as"
        using hex_nonempty [OF tree_node_nonempty [OF assms(2)]] by (metis list.exhaust)
      from Suc.IH [of "2 * off + 1"] Suc.prems consider "find_or_compute_leaf path h (2 * off + 1) = Ok None"
        | l1 where "find_or_compute_leaf path h (2 * off + 1) = Ok (Some l1)" "lf_offset l1 = 2 * off + 1" "leaf_agrees ids h l1" by auto
      then show ?thesis
      proof cases
        case 1
        with None 2 nd ne show ?thesis by (simp add: unfold)
      next
        case (2 l1)
        have "(if lf_dup l1 then hash_fn ((a # as) @ (a # as)) else bind_r (hash_str l1) (\<lambda>h1. hash_fn (h1 @ a # as)))
            = Ok (hex (tree_node ids (Suc h) off))"
          using 2 by (auto simp: leaf_agrees_def hash_str_def simp flip: ne split: if_splits)
        with None 2 \<open>find_or_compute_leaf path h (2 * off) = Ok (Some l0)\<close> nd ne show ?thesis
          by (simp add: unfold leaf_agrees_def)
      qed
    qed
  qed
qed

lemma sibling_cases:
  obtains (even) k where "n = 2 * k" "sibling n = 2 * k + 1" | (odd) k where "n = 2 * k + 1" "sibling n = 2 * k"
  by (cases "even n") (auto simp: sibling_def elim: evenE oddE)

text \<open>One step of the loop climbs one level.\<close>

lemma climb:
  assumes "leaf_agrees ids h l" "lf_offset l = sibling n"
  shows "(if lf_dup l then hash_fn (hex (tree_node ids h n) @ hex (tree_node ids h n))
          else bind_r (hash_str l) (\<lambda>x. if odd (sibling n) then hash_fn (x @ hex (tree_node ids h n)) else hash_fn (hex (tree_node ids h n) @ x)))
    = Ok (hex (tree_node ids (Suc h) (n div 2)))"
  using assms by (cases n rule: sibling_cases) (auto simp: leaf_agrees_def hash_str_def split: if_splits)

lemma root_loop_missing:
  "find_or_compute_leaf path height (sibling (index div 2 ^ height)) = Ok None \<Longrightarrow> root_loop path index (Suc n) height w = Err ValueError"
  by (simp add: Let_def)

lemma root_loop_climb:
  assumes "find_or_compute_leaf path height (sibling (index div 2 ^ height)) = Ok (Some l)"
    "lf_offset l = sibling (index div 2 ^ height)" "leaf_agrees ids height l"
  shows "root_loop path index (Suc n) height (hex (tree_node ids height (index div 2 ^ height)))
    = root_loop path index n (Suc height) (hex (tree_node ids (Suc height) (index div 2 ^ Suc height)))"
proof -
  have up: "index div 2 ^ height div 2 = index div 2 ^ Suc height" by (simp add: power_Suc2 div_mult2_eq del: power_Suc)
  show ?thesis using climb [OF assms(3,2)] assms(1) by (simp add: up Let_def del: tree_node.simps power_Suc)
qed

lemma root_loop_agrees:
  assumes "path_agrees ids path" "\<forall>i. ids i \<noteq> []" "height + n = length path"
  shows "root_loop path index n height (hex (tree_node ids height (index div 2 ^ height)))
      \<in> {Ok (hex (tree_node ids (length path) (index div 2 ^ length path))), Err ValueError}"
  using assms(3)
proof (induction n arbitrary: height)
  case (Suc n)
  then have h: "height < length path" "Suc height + n = length path" by simp_all
  from find_or_compute_agrees [OF assms(1,2) h(1), of "sibling (index div 2 ^ height)"] show ?case
    using root_loop_missing [of path height index n] root_loop_climb [of path height index _ ids n] Suc.IH [OF h(2)] by (metis insertCI)
qed simp

lemma root_loop_total:
  assumes "path_agrees ids path" "height + n = length path"
    "\<forall>h<length path. leaf_at (path ! h) (sibling (index div 2 ^ h)) \<noteq> None"
  shows "root_loop path index n height (hex (tree_node ids height (index div 2 ^ height)))
    = Ok (hex (tree_node ids (length path) (index div 2 ^ length path)))"
  using assms(2)
proof (induction n arbitrary: height)
  case (Suc n)
  then have h: "height < length path" "Suc height + n = length path" by simp_all
  with assms(3) obtain l where l: "leaf_at (path ! height) (sibling (index div 2 ^ height)) = Some l" by blast
  then have "find_or_compute_leaf path height (sibling (index div 2 ^ height)) = Ok (Some l)"
    by (simp add: find_or_compute_leaf.simps [of path height])
  moreover have "lf_offset l = sibling (index div 2 ^ height)" "leaf_agrees ids height l"
    using leaf_at_Some [OF l] assms(1) h(1) by (auto simp: path_agrees_def)
  ultimately show ?case using root_loop_climb Suc.IH [OF h(2)] by metis
qed simp

text \<open>The computed root is the root: for a path whose leaves agree with a tree over the block's transaction
  ids, and a transaction id it contains, \<open>compute_root\<close> returns the node of that tree above the
  transaction or raises \<open>ValueError\<close>; if the path has the sibling on every level, it returns.\<close>

theorem computed_root_correct:
  assumes "path_agrees ids path" and "\<forall>i. ids i \<noteq> []" and "path \<noteq> []" and "List.find (\<lambda>l. lf_hash l = Some t) (path ! 0) = Some l"
  shows "compute_root path (Some t) \<in> {Ok (hex (tree_node ids (length path) (lf_offset l div 2 ^ length path))), Err ValueError}
    \<and> ((\<forall>h<length path. leaf_at (path ! h) (sibling (lf_offset l div 2 ^ h)) \<noteq> None) \<longrightarrow>
        compute_root path (Some t) = Ok (hex (tree_node ids (length path) (lf_offset l div 2 ^ length path))))"
proof -
  from assms(4) have l: "l \<in> set (path ! 0)" "lf_hash l = Some t" by (auto simp: find_Some_iff)
  with assms(1,3) have "leaf_agrees ids 0 l" by (simp add: path_agrees_def)
  with l(2) have t: "t = hex (tree_node ids 0 (lf_offset l div 2 ^ 0))" by (auto simp: leaf_agrees_def split: if_splits)
  have "compute_root path (Some t) = root_loop path (lf_offset l) (length path) 0 t" using assms(3,4) by (simp add: compute_root_def)
  with root_loop_agrees [OF assms(1,2), of 0 "length path" "lf_offset l"] root_loop_total [OF assms(1), of 0 "length path" "lf_offset l"] t
  show ?thesis by simp
qed

section \<open>The binary form is read back\<close>

definition canonical_leaf :: "leaf \<Rightarrow> bool" where
  "canonical_leaf l \<longleftrightarrow>
     (if lf_dup l then lf_hash l = None \<and> \<not> lf_txid l else \<exists>b. length b = 32 \<and> lf_hash l = Some (hex b))"

definition canonical_path :: "path \<Rightarrow> bool" where
  "canonical_path path \<longleftrightarrow> (\<forall>ls\<in>set path. sorted (map lf_offset ls) \<and> (\<forall>l\<in>set ls. canonical_leaf l))"

lemma read_uint8_pos: "read_uint8 (at_pos pre (b # post)) = (Some (unat b), at_pos (pre @ [b]) post)"
  using read_at [of "[b]" 1 pre post] by (simp add: read_uint8_def at_pos_def)

lemma read_pos32: "length xs = 32 \<Longrightarrow> read (Some 32) (at_pos pre (xs @ post)) = (Some xs, at_pos (pre @ xs) post)"
  using read_at [of xs 32 pre post] by (simp add: at_pos_def)

lemma read_leaf_pos:
  assumes "leaf_bytes l = Ok b" "canonical_leaf l"
  shows "read_leaf (at_pos pre (b @ post)) = (Ok l, at_pos (pre @ b) post)"
proof -
  from assms(1) obtain n where off: "lf_offset l < 2 ^ 64" "n = varint_enc (lf_offset l)"
    by (auto simp: leaf_bytes_def bind_r_Ok_iff varint_Ok)
  show ?thesis
  proof (cases "lf_dup l")
    case True
    with assms off have "b = n @ [1]" and l: "l = \<lparr>lf_offset = lf_offset l, lf_hash = None, lf_txid = False, lf_dup = True\<rparr>"
      by (auto simp: leaf_bytes_def bind_r_Ok_iff varint_Ok canonical_leaf_def)
    then show ?thesis using off by (subst l) (simp add: read_leaf_def read_varint_pos read_uint8_pos)
  next
    case False
    with assms(2) obtain x where x: "length x = 32" "lf_hash l = Some (hex x)" by (auto simp: canonical_leaf_def)
    let ?f = "if lf_txid l then 2 else 0 :: byte"
    from assms(1) False x off have b: "b = n @ [?f] @ rev x" by (auto simp: leaf_bytes_def hash_str_def bind_r_Ok_iff varint_Ok)
    have l: "l = \<lparr>lf_offset = lf_offset l, lf_hash = Some (hex x), lf_txid = lf_txid l, lf_dup = False\<rparr>" using x False by simp
    have "read_leaf (at_pos pre (b @ post)) = (Ok \<lparr>lf_offset = lf_offset l, lf_hash = Some (hex x), lf_txid = lf_txid l, lf_dup = False\<rparr>, at_pos (pre @ b) post)"
      using off x by (simp add: b read_leaf_def read_varint_pos read_uint8_pos read_pos32)
    then show ?thesis by (simp flip: l)
  qed
qed

lemma read_leaves_pos:
  assumes "map_r leaf_bytes ls = Ok bs" "\<forall>l\<in>set ls. canonical_leaf l"
  shows "read_leaves (length ls) (at_pos pre (concat bs @ post)) = (Ok ls, at_pos (pre @ concat bs) post)"
  using assms
proof (induction ls arbitrary: bs pre)
  case (Cons l ls)
  then obtain b bs' where b: "leaf_bytes l = Ok b" "map_r leaf_bytes ls = Ok bs'" "bs = b # bs'" by (auto simp: bind_r_Ok_iff)
  with Cons.IH [OF b(2), of "pre @ b"] Cons.prems show ?case by (simp add: read_leaf_pos)
qed simp

lemma read_levels_pos:
  assumes "map_r level_bytes path = Ok bs" "canonical_path path"
  shows "read_levels (length path) (at_pos pre (concat bs @ post)) = (Ok path, at_pos (pre @ concat bs) post)"
  using assms
proof (induction path arbitrary: bs pre)
  case (Cons ls path)
  then obtain cs bs' where b: "length ls < 2 ^ 64" "map_r leaf_bytes ls = Ok cs" "map_r level_bytes path = Ok bs'"
    "bs = (varint_enc (length ls) @ concat cs) # bs'"
    by (auto simp: bind_r_Ok_iff level_bytes_def [of ls] varint_Ok)
  from Cons.prems(2) have c: "canonical_path path" "\<forall>l\<in>set ls. canonical_leaf l" and "sorted (map lf_offset ls)"
    by (auto simp: canonical_path_def)
  then have srt: "sort_key lf_offset ls = ls" by (simp add: sorted_sort_id sort_key_id_if_sorted)
  show ?case
    using Cons.IH [OF b(3) c(1), of "pre @ varint_enc (length ls) @ concat cs"] b(1)
      read_leaves_pos [OF b(2) c(2), of "pre @ varint_enc (length ls)" "concat bs' @ post"]
    by (simp add: b(4) read_varint_pos srt)
qed simp

text \<open>Merkle paths survive the binary form: what \<open>to_binary\<close> writes for a valid path with sorted levels is read
  back by \<open>from_binary\<close> as the same path at the same height.\<close>

theorem path_roundtrip:
  assumes "to_binary (height, path) = Ok raw" and "canonical_path path" and "MerklePath height path = Ok (height, path)"
  shows "from_binary raw = Ok (height, path)"
proof -
  from assms(1) obtain bs where b: "height < 2 ^ 64" "length path < 256" "map_r level_bytes path = Ok bs"
    "raw = varint_enc height @ le_bytes 1 (length path) @ concat bs"
    by (auto simp: to_binary_def bind_r_Ok_iff varint_Ok pack_u_def split: if_splits)
  have "fst (path_from_reader (at_pos [] raw)) = MerklePath height path"
    using b(1,2) read_levels_pos [OF b(3) assms(2), of "varint_enc height @ le_bytes 1 (length path)" "[]"]
    by (simp add: b(4) path_from_reader_def read_varint_pos [of height "[]"] read_uint8_pos unat_word_of_nat_byte)
  with assms(3) show ?thesis by (simp add: from_binary_def mk_reader_def at_pos_def)
qed

section \<open>Combining can break a proof\<close>

definition mk_leaf :: "nat \<Rightarrow> bytes \<Rightarrow> bool \<Rightarrow> leaf" where
  "mk_leaf off b tx = \<lparr>lf_offset = off, lf_hash = Some (hex b), lf_txid = tx, lf_dup = False\<rparr>"

definition join :: "bytes \<Rightarrow> bytes \<Rightarrow> bytes" where
  "join x y = rev (hash256 (rev x @ rev y))"

text \<open>In a block of four transactions, the path of the first and the path of the last.\<close>

definition first_path :: "bytes \<Rightarrow> bytes \<Rightarrow> bytes \<Rightarrow> bytes \<Rightarrow> path" where
  "first_path a b c d = [[mk_leaf 0 a True, mk_leaf 1 b False], [mk_leaf 1 (join c d) False]]"

definition last_path :: "bytes \<Rightarrow> bytes \<Rightarrow> bytes \<Rightarrow> bytes \<Rightarrow> path" where
  "last_path a b c d = [[mk_leaf 2 c False, mk_leaf 3 d True], [mk_leaf 0 (join a b) False]]"

lemma hash_fn_join: "hash_fn (hex x @ hex y) = Ok (hex (join y x))"
  by (simp add: join_def)

lemma leaf_at_simps [simp]:
  "leaf_at [] off = None" "leaf_at (l # ls) off = (if lf_offset l = off then Some l else leaf_at ls off)"
  by (simp_all add: leaf_at_def)

lemma hex_inj: "hex x = hex y \<Longrightarrow> x = y"
  by (metis fromhex_hex sum.inject(2))

lemmas path_eval = compute_root_def first_path_def last_path_def mk_leaf_def find_or_compute_leaf.simps sibling_def hash_str_def hash_fn_join Let_def

lemma first_path_root:
  "compute_root (first_path a b c d) (Some (hex a)) = Ok (hex (join (join a b) (join c d)))"
  "compute_root (first_path a b c d) (Some (hex b)) = Ok (hex (join (join a b) (join c d)))"
  "compute_root (first_path a b c d) None = Ok (hex (join (join a b) (join c d)))"
  by (auto simp: path_eval simp del: hash_fn_hex dest: hex_inj)

lemma last_path_root:
  "compute_root (last_path a b c d) (Some (hex c)) = Ok (hex (join (join a b) (join c d)))"
  "compute_root (last_path a b c d) (Some (hex d)) = Ok (hex (join (join a b) (join c d)))"
  "compute_root (last_path a b c d) None = Ok (hex (join (join a b) (join c d)))"
  by (auto simp: path_eval simp del: hash_fn_hex dest: hex_inj)

lemma paths_valid:
  "MerklePath height (first_path a b c d) = Ok (height, first_path a b c d)"
  "MerklePath height (last_path a b c d) = Ok (height, last_path a b c d)"
proof -
  have ok: "level_ok (first_path a b c d) h \<and> level_ok (last_path a b c d) h" if "h < 2" for h
  proof -
    from that consider "h = 0" | "h = 1" by linarith
    then show ?thesis
      by cases (auto simp: level_ok_def first_path_def last_path_def mk_leaf_def legal_offsets_def sibling_def)
  qed
  have len: "length (first_path a b c d) = 2" "length (last_path a b c d) = 2" by (simp_all add: first_path_def last_path_def)
  let ?root = "hex (join (join a b) (join c d))"
  have lv: "first_path a b c d ! 0 = [mk_leaf 0 a True, mk_leaf 1 b False]" "last_path a b c d ! 0 = [mk_leaf 2 c False, mk_leaf 3 d True]"
    by (simp_all add: first_path_def last_path_def)
  have roots: "map_r (\<lambda>l. compute_root (first_path a b c d) (lf_hash l)) (first_path a b c d ! 0) = Ok [?root, ?root]"
    "map_r (\<lambda>l. compute_root (last_path a b c d) (lf_hash l)) (last_path a b c d ! 0) = Ok [?root, ?root]"
    using first_path_root [of a b c d] last_path_root [of a b c d] by (simp_all add: lv) (simp_all add: mk_leaf_def)
  show "MerklePath height (first_path a b c d) = Ok (height, first_path a b c d)"
    "MerklePath height (last_path a b c d) = Ok (height, last_path a b c d)"
    using ok len roots by (auto simp: MerklePath_def)
qed

text \<open>Combining two valid proofs can destroy both. For the first and the last transaction of any block of
  four, the two paths are valid and have the same root, \<open>combine\<close> accepts them, and afterwards
  neither transaction can be proved: \<open>trim\<close> has dropped the siblings both of them need, because it
  looks for the sibling of a leaf on the wrong side.\<close>

theorem combine_breaks_proofs:
  "MerklePath height (first_path a b c d) = Ok (height, first_path a b c d)
   \<and> MerklePath height (last_path a b c d) = Ok (height, last_path a b c d)
   \<and> (\<exists>merged. combine (height, first_path a b c d) (height, last_path a b c d) = Ok (height, merged)
        \<and> compute_root merged (Some (hex a)) = Err ValueError \<and> compute_root merged (Some (hex d)) = Err ValueError)"
proof -
  let ?m = "[[mk_leaf 0 a True, mk_leaf 3 d True], []]"
  have "combine (height, first_path a b c d) (height, last_path a b c d) = Ok (height, ?m)"
    using first_path_root(3) [of a b c d] last_path_root(3) [of a b c d]
    by (simp add: combine_def)
      (simp add: first_path_def last_path_def combine_level_def mark_txid_def mk_leaf_def trim_def trim_step_def peer_of_def
        push_if_new_def drop_offsets_from_level_def next_computed_offsets_def)
  moreover have "compute_root ?m (Some (hex a)) = Err ValueError" "compute_root ?m (Some (hex d)) = Err ValueError"
    by (simp_all add: path_eval)
  ultimately show ?thesis using paths_valid by blast
qed

section \<open>Examples\<close>

theorem computed_root_correct_witness:
  "compute_root (first_path (replicate 32 1) (replicate 32 2) (replicate 32 3) (replicate 32 4)) (Some (hex (replicate 32 1)))
    = Ok (hex (tree_node (\<lambda>i. replicate 32 (word_of_nat (i + 1))) 2 0))"
proof -
  let ?ids = "\<lambda>i. replicate 32 (word_of_nat (i + 1)) :: bytes"
  let ?p = "first_path (replicate 32 1) (replicate 32 2) (replicate 32 3) (replicate 32 4)"
  have "path_agrees ?ids ?p"
    by (simp add: path_agrees_def first_path_def mk_leaf_def leaf_agrees_def join_def All_less_Suc numeral_2_eq_2)
  moreover have "List.find (\<lambda>l. lf_hash l = Some (hex (replicate 32 1))) (?p ! 0) = Some (mk_leaf 0 (replicate 32 1) True)"
    by (simp add: first_path_def mk_leaf_def)
  ultimately show ?thesis
    using computed_root_correct [of ?ids ?p "hex (replicate 32 1)" "mk_leaf 0 (replicate 32 1) True"]
    by (simp add: first_path_def mk_leaf_def sibling_def All_less_Suc numeral_2_eq_2)
qed

theorem path_roundtrip_witness:
  "\<exists>raw. to_binary (7, first_path (replicate 32 1) (replicate 32 2) (replicate 32 3) (replicate 32 4)) = Ok raw
    \<and> from_binary raw = Ok (7, first_path (replicate 32 1) (replicate 32 2) (replicate 32 3) (replicate 32 4))"
proof -
  let ?p = "first_path (replicate 32 1) (replicate 32 2) (replicate 32 3) (replicate 32 4)"
  have "\<exists>raw. to_binary (7, ?p) = Ok raw"
    by (simp add: to_binary_def level_bytes_def leaf_bytes_def first_path_def mk_leaf_def hash_str_def unsigned_to_varint_def pack_u_def to_bytes_le_def)
  moreover have "canonical_path ?p"
    by (auto simp: canonical_path_def canonical_leaf_def first_path_def mk_leaf_def join_def intro: exI [of "\<lambda>b. length b = 32 \<and> hex x = hex b" x for x])
  ultimately show ?thesis using path_roundtrip [of 7 ?p] paths_valid(1) by blast
qed

end
