(* ===== verification/Templates.thy ===== *)
theory Templates
  imports Sighash Base58 Ecdsa Boundary
begin

text \<open>
  Script templates and signing: \<open>pyrxd/script/type.py\<close> and \<open>Transaction.sign\<close> of
  \<open>pyrxd/transaction/transaction.py\<close>. A private key is its 32 bytes, its serialised public key and the
  signature that \<open>libsecp256k1\<close> makes with it, a function of the message. The template of an input
  stands beside the transaction, in a list with one entry per input; the length it announces is
  the \<open>ti_template\<close> of the input. A Python string is a list of code points below 256.
\<close>

section \<open>Locking scripts\<close>

definition P2PKH_lock :: "pyval \<Rightarrow> bytes result" where
  "P2PKH_lock addr =
     bind_r (case addr of
               PyStr s \<Rightarrow> address_to_public_key_hash s
             | PyBytes b \<Rightarrow> Ok b
             | _ \<Rightarrow> Err TypeError) (\<lambda>pkh.
       if length pkh \<noteq> 20 then Err ValidationError
       else bind_r (encode_pushdata pkh True) (\<lambda>p. Ok ([0x76, 0xA9] @ p @ [0x88, 0xAC])))"

definition utf8 :: "string \<Rightarrow> bytes" where
  "utf8 s = concat (map (\<lambda>c. let n = (of_char c :: nat) in
     if n < 128 then [word_of_nat n] else [word_of_nat (0xC0 + n div 64), word_of_nat (0x80 + n mod 64)]) s)"

fun op_return_pushes :: "pyval list \<Rightarrow> bytes result" where
  "op_return_pushes [] = Ok []"
| "op_return_pushes (d # ds) =
     bind_r (case d of PyStr s \<Rightarrow> Ok (utf8 s) | PyBytes b \<Rightarrow> Ok b | _ \<Rightarrow> Err TypeError) (\<lambda>b.
     bind_r (encode_pushdata b False) (\<lambda>p.
     bind_r (op_return_pushes ds) (\<lambda>ps. Ok (p @ ps))))"

definition OpReturn_lock :: "pyval list \<Rightarrow> bytes result" where
  "OpReturn_lock pushdatas = bind_r (op_return_pushes pushdatas) (\<lambda>ps. Ok ([0x00, 0x6A] @ ps))"

definition public_key_bytes :: "pyval \<Rightarrow> bytes result" where
  "public_key_bytes pk =
     bind_r (case pk of PyStr s \<Rightarrow> fromhex s | PyBytes b \<Rightarrow> Ok b | _ \<Rightarrow> Err TypeError) (\<lambda>b.
       if length b \<notin> {33, 65} then Err ValidationError else Ok b)"

definition P2PK_lock :: "pyval \<Rightarrow> bytes result" where
  "P2PK_lock pk = bind_r (public_key_bytes pk) (\<lambda>b. bind_r (encode_pushdata b True) (\<lambda>p. Ok (p @ [0xAC])))"

definition BareMultisig_lock :: "pyval list \<Rightarrow> int \<Rightarrow> bytes result" where
  "BareMultisig_lock participants threshold =
     (if \<not> (1 \<le> threshold \<and> threshold \<le> int (length participants)) then Err ValidationError
      else
        bind_r (map_r public_key_bytes participants) (\<lambda>parsed.
        bind_r (encode_int threshold) (\<lambda>m.
        bind_r (map_r (\<lambda>p. encode_pushdata p True) parsed) (\<lambda>ps.
        bind_r (encode_int (int (length participants))) (\<lambda>n. Ok (m @ concat ps @ n @ [0xAE]))))))"

datatype puzzle_type = RAW | SHA1 | SHA256 | HASH256 | RIPEMD160 | HASH160

fun puzzle_op :: "puzzle_type \<Rightarrow> bytes" where
  "puzzle_op RAW = []"
| "puzzle_op RIPEMD160 = [0xA6]"
| "puzzle_op SHA1 = [0xA7]"
| "puzzle_op SHA256 = [0xA8]"
| "puzzle_op HASH160 = [0xA9]"
| "puzzle_op HASH256 = [0xAA]"

definition RPuzzle_lock :: "puzzle_type \<Rightarrow> bytes \<Rightarrow> bytes result" where
  "RPuzzle_lock t v =
     bind_r (encode_pushdata v True) (\<lambda>p.
       Ok ([0x78, 0x53, 0x7F, 0x77, 0x51, 0x7F, 0x7C, 0x7F, 0x75] @ puzzle_op t @ p @ [0x88, 0xAC]))"

section \<open>Unlocking templates\<close>

record priv_key =
  key_bytes :: bytes
  key_public :: bytes
  key_compressed :: bool
  key_sign :: "bytes \<Rightarrow> bytes"

datatype template =
    Unlock_P2PKH priv_key
  | Unlock_P2PK priv_key
  | Unlock_Multisig "priv_key list"
  | Unlock_RPuzzle int priv_key string bool

text \<open>The lengths the templates announce.\<close>

definition p2pkh_length :: "priv_key \<Rightarrow> nat" where
  "p2pkh_length key = (if key_compressed key then 107 else 139)"

definition p2pk_length :: nat where "p2pk_length = 73"

definition multisig_length :: "priv_key list \<Rightarrow> nat" where
  "multisig_length keys = 1 + 73 * length keys + 1"

definition rpuzzle_length :: nat where "rpuzzle_length = 108"

fun announced :: "template \<Rightarrow> nat" where
  "announced (Unlock_P2PKH key) = p2pkh_length key"
| "announced (Unlock_P2PK key) = p2pk_length"
| "announced (Unlock_Multisig keys) = multisig_length keys"
| "announced (Unlock_RPuzzle k key scope acp) = rpuzzle_length"

declare p2pkh_length_def [simp] p2pk_length_def [simp] multisig_length_def [simp] rpuzzle_length_def [simp]

definition rpuzzle_sighash :: "string \<Rightarrow> bool \<Rightarrow> int" where
  "rpuzzle_sighash scope acp =
     0x40 OR (if scope = ''all'' then 1 else if scope = ''none'' then 2 else if scope = ''single'' then 3 else 0)
          OR (if acp then 0x80 else 0)"

definition set_input :: "nat \<Rightarrow> (tx_in \<Rightarrow> tx_in) \<Rightarrow> transaction \<Rightarrow> transaction" where
  "set_input i f tx = tx\<lparr>tx_inputs := (tx_inputs tx)[i := f (tx_inputs tx ! i)]\<rparr>"

definition push_sig :: "bytes \<Rightarrow> int \<Rightarrow> bytes result" where
  "push_sig sig sighash = bind_r (to_bytes_le sighash 1) (\<lambda>h. encode_pushdata (sig @ h) True)"

text \<open>
  The \<open>sign\<close> function of each template, with the transaction it leaves: the R-puzzle template sets the
  signature type of its input first. \<open>mult\<close> is the curve multiplication of \<open>coincurve\<close>.
\<close>

definition p2pkh_sign :: "priv_key \<Rightarrow> transaction \<Rightarrow> nat \<Rightarrow> (bytes \<times> transaction) result" where
  "p2pkh_sign key tx i =
     bind_r (tx_preimage_of tx (int i)) (\<lambda>pre.
     bind_r (push_sig (key_sign key pre) (ti_sighash (tx_inputs tx ! i))) (\<lambda>s.
     bind_r (encode_pushdata (key_public key) True) (\<lambda>p. Ok (s @ p, tx))))"

definition p2pk_sign :: "priv_key \<Rightarrow> transaction \<Rightarrow> nat \<Rightarrow> (bytes \<times> transaction) result" where
  "p2pk_sign key tx i =
     bind_r (tx_preimage_of tx (int i)) (\<lambda>pre.
     bind_r (push_sig (key_sign key pre) (ti_sighash (tx_inputs tx ! i))) (\<lambda>s. Ok (s, tx)))"

definition multisig_sign :: "priv_key list \<Rightarrow> transaction \<Rightarrow> nat \<Rightarrow> (bytes \<times> transaction) result" where
  "multisig_sign keys tx i =
     bind_r (map_r (\<lambda>key. bind_r (tx_preimage_of tx (int i)) (\<lambda>pre.
        push_sig (key_sign key pre) (ti_sighash (tx_inputs tx ! i)))) keys) (\<lambda>ss. Ok (0x00 # concat ss, tx))"

definition rpuzzle_sign ::
  "(int \<Rightarrow> int \<times> int \<Rightarrow> int \<times> int) \<Rightarrow> int \<Rightarrow> priv_key \<Rightarrow> string \<Rightarrow> bool \<Rightarrow> transaction \<Rightarrow> nat \<Rightarrow> (bytes \<times> transaction) result" where
  "rpuzzle_sign mult k key scope acp tx i =
     (let sighash = rpuzzle_sighash scope acp; tx' = set_input i (\<lambda>inp. inp\<lparr>ti_sighash := sighash\<rparr>) tx in
      bind_r (tx_preimage_of tx' (int i)) (\<lambda>pre.
      bind_r (sign_custom_k mult hash256 (key_bytes key) pre k) (\<lambda>sig.
      bind_r (push_sig sig sighash) (\<lambda>s.
      bind_r (encode_pushdata (key_public key) True) (\<lambda>p. Ok (s @ p, tx'))))))"

fun template_sign :: "(int \<Rightarrow> int \<times> int \<Rightarrow> int \<times> int) \<Rightarrow> template \<Rightarrow> transaction \<Rightarrow> nat \<Rightarrow> (bytes \<times> transaction) result" where
  "template_sign mult (Unlock_P2PKH key) tx i = p2pkh_sign key tx i"
| "template_sign mult (Unlock_P2PK key) tx i = p2pk_sign key tx i"
| "template_sign mult (Unlock_Multisig keys) tx i = multisig_sign keys tx i"
| "template_sign mult (Unlock_RPuzzle k key scope acp) tx i = rpuzzle_sign mult k key scope acp tx i"

declare p2pkh_sign_def [simp] p2pk_sign_def [simp] multisig_sign_def [simp] rpuzzle_sign_def [simp]

section \<open>Signing a transaction\<close>

fun sign_inputs :: "(int \<Rightarrow> int \<times> int \<Rightarrow> int \<times> int) \<Rightarrow> bool \<Rightarrow> template option list \<Rightarrow> nat list \<Rightarrow> transaction \<Rightarrow> transaction result" where
  "sign_inputs mult bypass ts [] tx = Ok tx"
| "sign_inputs mult bypass ts (i # is) tx =
     (if ti_unlocking (tx_inputs tx ! i) = None \<or> \<not> bypass then
        (case ts ! i of
           None \<Rightarrow> Err OtherError
         | Some t \<Rightarrow>
             bind_r (template_sign mult t tx i) (\<lambda>(s, tx').
               sign_inputs mult bypass ts is (set_input i (\<lambda>inp. inp\<lparr>ti_unlocking := Some s\<rparr>) tx')))
      else sign_inputs mult bypass ts is tx)"

definition tx_sign :: "(int \<Rightarrow> int \<times> int \<Rightarrow> int \<times> int) \<Rightarrow> bool \<Rightarrow> template option list \<Rightarrow> transaction \<Rightarrow> transaction result" where
  "tx_sign mult bypass ts tx =
     (if \<exists>out\<in>set (tx_outputs tx). to_satoshis out = None then Err ValueError
      else sign_inputs mult bypass ts [0..<length (tx_inputs tx)] tx)"

section \<open>Signatures commit to the final transaction\<close>

lemma map_r_map: "map_r f xs = map_r (\<lambda>r. r) (map f xs)"
  by (induction xs) auto

lemma hash_all_cong: "map f xs = map f ys \<Longrightarrow> hash_all f xs = hash_all f ys"
  using map_r_map [of f xs] map_r_map [of f ys] by (simp add: hash_all_def)

text \<open>What no signature step changes, and what the signature of an input reads of it.\<close>

definition in_core :: "tx_in \<Rightarrow> tx_in" where
  "in_core i = i\<lparr>ti_unlocking := None, ti_sighash := 0\<rparr>"

definition in_unsigned :: "tx_in \<Rightarrow> tx_in" where
  "in_unsigned i = i\<lparr>ti_unlocking := None\<rparr>"

definition same_core :: "transaction \<Rightarrow> transaction \<Rightarrow> bool" where
  "same_core tx tx' \<longleftrightarrow> tx_outputs tx' = tx_outputs tx \<and> tx_ver tx' = tx_ver tx \<and> tx_lock tx' = tx_lock tx
     \<and> map in_core (tx_inputs tx') = map in_core (tx_inputs tx)"

lemma outpoint_core: "outpoint_bytes (in_core i) = outpoint_bytes i" "seq_bytes (in_core i) = seq_bytes i"
  by (simp_all add: in_core_def outpoint_bytes_def txid_bytes_def seq_bytes_def)

lemma core_maps:
  assumes "map in_core ins' = map in_core ins"
  shows "map outpoint_bytes ins' = map outpoint_bytes ins" "map seq_bytes ins' = map seq_bytes ins"
proof -
  have "map f ins' = map f ins" if "\<And>i. f (in_core i) = f i" for f :: "tx_in \<Rightarrow> 'b"
  proof -
    have "map f xs = map f (map in_core xs)" for xs using that by simp
    with assms show ?thesis by metis
  qed
  then show "map outpoint_bytes ins' = map outpoint_bytes ins" "map seq_bytes ins' = map seq_bytes ins"
    using outpoint_core by blast+
qed

lemma preimage_unsigned: "preimage (in_unsigned i) = preimage i" "ti_sighash (in_unsigned i) = ti_sighash i"
  by (auto simp: fun_eq_iff preimage_def in_unsigned_def outpoint_bytes_def txid_bytes_def locking_bytes_def value_bytes_def)

lemma tx_preimage_cong:
  assumes "same_core tx tx'" and u: "in_unsigned (tx_inputs tx' ! i) = in_unsigned (tx_inputs tx ! i)"
  shows "tx_preimage_of tx' (int i) = tx_preimage_of tx (int i)"
proof -
  from assms(1) have c: "map in_core (tx_inputs tx') = map in_core (tx_inputs tx)" and o: "tx_outputs tx' = tx_outputs tx"
    "tx_ver tx' = tx_ver tx" "tx_lock tx' = tx_lock tx" by (simp_all add: same_core_def)
  note h = hash_all_cong [OF core_maps(1) [OF c]] hash_all_cong [OF core_maps(2) [OF c]]
  have l: "length (tx_inputs tx') = length (tx_inputs tx)" using c map_eq_imp_length_eq by blast
  have p: "preimage (tx_inputs tx' ! i) = preimage (tx_inputs tx ! i)" "ti_sighash (tx_inputs tx' ! i) = ti_sighash (tx_inputs tx ! i)"
    using u preimage_unsigned by metis+
  show ?thesis by (simp add: tx_preimage_of_def tx_preimage_def o l h p Let_def)
qed

fun template_sighash :: "template \<Rightarrow> int \<Rightarrow> int" where
  "template_sighash (Unlock_RPuzzle k key scope acp) sh = rpuzzle_sighash scope acp"
| "template_sighash t sh = sh"

definition prepare :: "template \<Rightarrow> nat \<Rightarrow> transaction \<Rightarrow> transaction" where
  "prepare t i tx = set_input i (\<lambda>inp. inp\<lparr>ti_sighash := template_sighash t (ti_sighash inp)\<rparr>) tx"

fun unlock_with :: "(int \<Rightarrow> int \<times> int \<Rightarrow> int \<times> int) \<Rightarrow> template \<Rightarrow> bytes result \<Rightarrow> int \<Rightarrow> bytes result" where
  "unlock_with mult (Unlock_P2PKH key) r sh =
     bind_r r (\<lambda>pre. bind_r (push_sig (key_sign key pre) sh) (\<lambda>s. bind_r (encode_pushdata (key_public key) True) (\<lambda>p. Ok (s @ p))))"
| "unlock_with mult (Unlock_P2PK key) r sh = bind_r r (\<lambda>pre. push_sig (key_sign key pre) sh)"
| "unlock_with mult (Unlock_Multisig keys) r sh =
     bind_r (map_r (\<lambda>key. bind_r r (\<lambda>pre. push_sig (key_sign key pre) sh)) keys) (\<lambda>ss. Ok (0x00 # concat ss))"
| "unlock_with mult (Unlock_RPuzzle k key scope acp) r sh =
     bind_r r (\<lambda>pre. bind_r (sign_custom_k mult hash256 (key_bytes key) pre k) (\<lambda>sig.
       bind_r (push_sig sig sh) (\<lambda>s. bind_r (encode_pushdata (key_public key) True) (\<lambda>p. Ok (s @ p)))))"

lemma bind_r_assoc: "bind_r (bind_r m f) g = bind_r m (\<lambda>x. bind_r (f x) g)"
  by (cases m) auto

lemma set_input_id: "(\<And>x. f x = x) \<Longrightarrow> set_input i f tx = tx"
  by (simp add: set_input_def)

lemma template_sign_alt:
  "i < length (tx_inputs tx) \<Longrightarrow> template_sign mult t tx i =
     bind_r (unlock_with mult t (tx_preimage_of (prepare t i tx) (int i)) (template_sighash t (ti_sighash (tx_inputs tx ! i))))
       (\<lambda>s. Ok (s, prepare t i tx))"
proof (cases t)
  case (Unlock_RPuzzle k key scope acp)
  then show ?thesis by (simp add: prepare_def bind_r_assoc Let_def)
qed (simp_all add: prepare_def set_input_id bind_r_assoc)

lemma template_sighash_idem: "template_sighash t (template_sighash t x) = template_sighash t x"
  by (cases t) auto

lemma same_core_trans: "same_core a b \<Longrightarrow> same_core b c \<Longrightarrow> same_core a c"
  by (simp add: same_core_def)

lemma same_core_set:
  assumes "\<And>x. in_core (f x) = in_core x"
  shows "same_core tx (set_input i f tx)"
proof (cases "i < length (tx_inputs tx)")
  case True
  have "map in_core ((tx_inputs tx)[i := f (tx_inputs tx ! i)]) = (map in_core (tx_inputs tx))[i := map in_core (tx_inputs tx) ! i]"
    using True assms by (simp add: map_update)
  then show ?thesis by (simp add: same_core_def set_input_def)
qed (simp add: same_core_def set_input_def list_update_beyond)

lemma same_core_prepare: "same_core tx (prepare t i tx)"
  unfolding prepare_def by (rule same_core_set) (simp add: in_core_def)

lemma same_core_length: "same_core tx tx' \<Longrightarrow> length (tx_inputs tx') = length (tx_inputs tx)"
  unfolding same_core_def using map_eq_imp_length_eq by blast

lemma template_sign_stable:
  assumes i: "i < length (tx_inputs tx)" and s: "template_sign mult t tx i = Ok (s, txp)" and c: "same_core tx tx'"
    and u: "in_unsigned (tx_inputs tx' ! i) = in_unsigned (tx_inputs txp ! i)"
  shows "template_sign mult t tx' i = Ok (s, tx')"
proof -
  from s [unfolded template_sign_alt [OF i]] have p: "txp = prepare t i tx"
    and un: "unlock_with mult t (tx_preimage_of (prepare t i tx) (int i)) (template_sighash t (ti_sighash (tx_inputs tx ! i))) = Ok s"
    by (auto simp: bind_r_Ok_iff)
  have sh: "ti_sighash (tx_inputs tx' ! i) = template_sighash t (ti_sighash (tx_inputs tx ! i))"
    using arg_cong [OF u, of ti_sighash] i by (simp add: preimage_unsigned p prepare_def set_input_def)
  then have "(tx_inputs tx' ! i)\<lparr>ti_sighash := template_sighash t (ti_sighash (tx_inputs tx' ! i))\<rparr> = tx_inputs tx' ! i"
    using template_sighash_idem by simp
  then have id: "prepare t i tx' = tx'" by (simp add: prepare_def set_input_def)
  have "same_core (prepare t i tx) tx'" using same_core_prepare c by (simp add: same_core_def)
  then have "tx_preimage_of tx' (int i) = tx_preimage_of (prepare t i tx) (int i)"
    using u unfolding p by (rule tx_preimage_cong)
  then show ?thesis using i un same_core_length [OF c] by (simp add: template_sign_alt id sh template_sighash_idem)
qed

definition input_signed ::
  "(int \<Rightarrow> int \<times> int \<Rightarrow> int \<times> int) \<Rightarrow> bool \<Rightarrow> template option list \<Rightarrow> transaction \<Rightarrow> transaction \<Rightarrow> nat \<Rightarrow> bool" where
  "input_signed mult bypass ts tx tx' j \<longleftrightarrow>
     (if bypass \<and> ti_unlocking (tx_inputs tx ! j) \<noteq> None then tx_inputs tx' ! j = tx_inputs tx ! j
      else \<exists>t s. ts ! j = Some t \<and> ti_unlocking (tx_inputs tx' ! j) = Some s \<and> template_sign mult t tx' j = Ok (s, tx'))"

lemma sign_inputs_inv:
  assumes "sign_inputs mult bypass ts is tx = Ok tx'" "distinct is" "\<forall>i\<in>set is. i < length (tx_inputs tx)"
  shows "same_core tx tx' \<and> (\<forall>j. j \<notin> set is \<longrightarrow> tx_inputs tx' ! j = tx_inputs tx ! j) \<and> (\<forall>j\<in>set is. input_signed mult bypass ts tx tx' j)"
  using assms
proof (induction "is" arbitrary: tx)
  case Nil
  then show ?case by (simp add: same_core_def)
next
  case (Cons i "is")
  show ?case
  proof (cases "ti_unlocking (tx_inputs tx ! i) = None \<or> \<not> bypass")
    case False
    with Cons.prems have "sign_inputs mult bypass ts is tx = Ok tx'" by simp
    with Cons.IH [of tx] Cons.prems False show ?thesis by (auto simp: input_signed_def)
  next
    case True
    with Cons.prems(1) obtain t s txp where t: "ts ! i = Some t" and s: "template_sign mult t tx i = Ok (s, txp)"
      and rest: "sign_inputs mult bypass ts is (set_input i (\<lambda>inp. inp\<lparr>ti_unlocking := Some s\<rparr>) txp) = Ok tx'"
      by (auto simp: bind_r_Ok_iff case_option_Ok_iff)
    let ?tx1 = "set_input i (\<lambda>inp. inp\<lparr>ti_unlocking := Some s\<rparr>) txp"
    have i: "i < length (tx_inputs tx)" using Cons.prems(3) by simp
    have p: "txp = prepare t i tx" using s i by (auto simp: template_sign_alt bind_r_Ok_iff)
    have c1: "same_core tx ?tx1" unfolding p
      by (rule same_core_trans [OF same_core_prepare same_core_set]) (simp add: in_core_def)
    have others: "tx_inputs ?tx1 ! j = tx_inputs tx ! j" if "j \<noteq> i" for j
      using that by (simp add: set_input_def p prepare_def)
    have IH: "same_core ?tx1 tx' \<and> (\<forall>j. j \<notin> set is \<longrightarrow> tx_inputs tx' ! j = tx_inputs ?tx1 ! j)
        \<and> (\<forall>j\<in>set is. input_signed mult bypass ts ?tx1 tx' j)"
      using Cons.prems same_core_length [OF c1] by (intro Cons.IH [OF rest]) auto
    then have c: "same_core tx tx'" using c1 same_core_trans by blast
    have at: "tx_inputs tx' ! i = (tx_inputs txp ! i)\<lparr>ti_unlocking := Some s\<rparr>"
      using IH Cons.prems(2) i by (simp add: set_input_def p prepare_def)
    then have "template_sign mult t tx' i = Ok (s, tx')"
      by (intro template_sign_stable [OF i s c]) (simp add: in_unsigned_def)
    with True t at have "input_signed mult bypass ts tx tx' i" by (auto simp: input_signed_def)
    moreover have "input_signed mult bypass ts tx tx' j" if "j \<in> set is" for j
    proof -
      from that Cons.prems(2) have "j \<noteq> i" by auto
      with IH that others [of j] show ?thesis unfolding input_signed_def by auto
    qed
    ultimately show ?thesis using c IH others by auto
  qed
qed


section \<open>Announced lengths\<close>

text \<open>
  What \<open>libsecp256k1\<close> guarantees of its signatures and keys: DER with a low \<open>s\<close> takes at most 71 bytes, a
  public key 33 or 65.
\<close>

definition good_key :: "priv_key \<Rightarrow> bool" where
  "good_key key \<longleftrightarrow> (\<forall>m. key_sign key m \<noteq> [] \<and> length (key_sign key m) \<le> 71) \<and> length (key_public key) = (if key_compressed key then 33 else 65)"

fun template_ok :: "template \<Rightarrow> bool" where
  "template_ok (Unlock_P2PKH key) \<longleftrightarrow> good_key key"
| "template_ok (Unlock_P2PK key) \<longleftrightarrow> good_key key"
| "template_ok (Unlock_Multisig keys) \<longleftrightarrow> list_all good_key keys"
| "template_ok (Unlock_RPuzzle k key scope acp) \<longleftrightarrow> good_key key \<and> key_compressed key"

lemma encode_pushdata_length:
  assumes "encode_pushdata b True = Ok p" "2 \<le> length b" "length b \<le> 75"
  shows "length p = 1 + length b"
proof -
  from assms(2) have "b \<noteq> []" by auto
  with assms show ?thesis by (auto simp: encode_pushdata_def get_pushdata_code_def Let_def)
qed

lemma push_sig_length: "push_sig sig sh = Ok p \<Longrightarrow> sig \<noteq> [] \<Longrightarrow> length sig \<le> 74 \<Longrightarrow> length p = 2 + length sig"
proof -
  assume a: "push_sig sig sh = Ok p" "sig \<noteq> []" "length sig \<le> 74"
  then obtain h where "to_bytes_le sh 1 = Ok h" "encode_pushdata (sig @ h) True = Ok p" by (auto simp: push_sig_def bind_r_Ok_iff)
  moreover from this(1) have "length h = 1" by (auto simp: to_bytes_le_def split: if_splits)
  moreover have "1 \<le> length sig" using a(2) by (cases sig) auto
  ultimately show ?thesis using encode_pushdata_length [of "sig @ h" p] a(3) by simp
qed

lemma sign_custom_k_length: "sign_custom_k mult hasher key message k = Ok sig \<Longrightarrow> sig \<noteq> [] \<and> length sig \<le> 72"
proof -
  have f: "length b \<le> 33" if "der_fixed x = Ok b" for x b
    using that by (auto simp: der_fixed_def bind_r_Ok_iff to_bytes_be_def split: if_splits)
  assume "sign_custom_k mult hasher key message k = Ok sig"
  then show ?thesis by (auto simp: sign_custom_k_def Let_def bind_r_Ok_iff case_option_Ok_iff dest!: f split: if_splits)
qed

lemma unlock_with_length: "template_ok t \<Longrightarrow> unlock_with mult t r sh = Ok s \<Longrightarrow> length s \<le> announced t"
proof (induction t)
  case (Unlock_P2PKH key)
  then obtain pre p q where p: "push_sig (key_sign key pre) sh = Ok p" "encode_pushdata (key_public key) True = Ok q" "s = p @ q"
    by (auto simp: bind_r_Ok_iff)
  from Unlock_P2PKH have "key_sign key pre \<noteq> []" "length (key_sign key pre) \<le> 71" by (simp_all add: good_key_def)
  with push_sig_length [OF p(1)] have "length p \<le> 73" by simp
  with Unlock_P2PKH(1) p(3) encode_pushdata_length [OF p(2)] show ?case by (auto simp: good_key_def)
next
  case (Unlock_P2PK key)
  then obtain pre where p: "push_sig (key_sign key pre) sh = Ok s" by (auto simp: bind_r_Ok_iff)
  from Unlock_P2PK have k: "key_sign key pre \<noteq> []" "length (key_sign key pre) \<le> 71" by (simp_all add: good_key_def)
  with push_sig_length [OF p] show ?case by simp
next
  case (Unlock_Multisig keys)
  then obtain ss where ss: "list_all2 (\<lambda>key x. bind_r r (\<lambda>pre. push_sig (key_sign key pre) sh) = Ok x) keys ss" "s = 0 # concat ss"
    by (auto simp: bind_r_Ok_iff map_r_Ok_iff)
  from ss(1) Unlock_Multisig(1) have "length (concat ss) \<le> 73 * length keys"
  proof (induction rule: list_all2_induct)
    case (Cons key keys x xs)
    then obtain pre where p: "push_sig (key_sign key pre) sh = Ok x" by (auto simp: bind_r_Ok_iff)
    from Cons have "key_sign key pre \<noteq> []" "length (key_sign key pre) \<le> 71" by (simp_all add: good_key_def)
    with push_sig_length [OF p] Cons show ?case by simp
  qed simp
  with ss(2) show ?case by simp
next
  case (Unlock_RPuzzle k key scope acp)
  then obtain pre sig p q where p: "sign_custom_k mult hash256 (key_bytes key) pre k = Ok sig" "push_sig sig sh = Ok p"
    "encode_pushdata (key_public key) True = Ok q" "s = p @ q" by (auto simp: bind_r_Ok_iff)
  with Unlock_RPuzzle(1) push_sig_length [OF p(2)] sign_custom_k_length [OF p(1)] encode_pushdata_length [OF p(3)] show ?case
    by (auto simp: good_key_def)
qed

lemma get_varint_size_mono: "m \<le> n \<Longrightarrow> get_varint_size m \<le> get_varint_size n"
  by (auto simp: get_varint_size_def)

lemma fee_model_size_mono:
  assumes "fee_model_size tx = Ok m" "fee_model_size tx' = Ok n" "tx_outputs tx' = tx_outputs tx"
    "length (tx_inputs tx') = length (tx_inputs tx)"
    and le: "\<And>i a b. i < length (tx_inputs tx) \<Longrightarrow> script_length (tx_inputs tx' ! i) = Ok a \<Longrightarrow> script_length (tx_inputs tx ! i) = Ok b \<Longrightarrow> a \<le> b"
  shows "n \<le> m"
proof -
  from assms(1) obtain bs where bs: "map_r script_length (tx_inputs tx) = Ok bs"
    and m: "m = 4 + get_varint_size (length (tx_inputs tx)) + sum_list (map (\<lambda>n. 40 + get_varint_size n + n) bs)
           + get_varint_size (length (tx_outputs tx))
           + sum_list (map (\<lambda>out. 8 + get_varint_size (length (to_script out)) + length (to_script out)) (tx_outputs tx)) + 4"
    by (auto simp: fee_model_size_def bind_r_Ok_iff)
  from assms(2) obtain as where as: "map_r script_length (tx_inputs tx') = Ok as"
    and n: "n = 4 + get_varint_size (length (tx_inputs tx')) + sum_list (map (\<lambda>n. 40 + get_varint_size n + n) as)
           + get_varint_size (length (tx_outputs tx'))
           + sum_list (map (\<lambda>out. 8 + get_varint_size (length (to_script out)) + length (to_script out)) (tx_outputs tx')) + 4"
    by (auto simp: fee_model_size_def bind_r_Ok_iff)
  have "list_all2 (\<le>) as bs" using as bs le assms(4) by (auto simp: map_r_Ok_iff list_all2_conv_all_nth)
  then have "sum_list (map (\<lambda>n. 40 + get_varint_size n + n) as) \<le> sum_list (map (\<lambda>n. 40 + get_varint_size n + n) bs)"
  proof (induction rule: list_all2_induct)
    case (Cons x xs y ys)
    then show ?case using get_varint_size_mono [of x y] by simp
  qed simp
  then show ?thesis by (simp add: m n assms(3,4))
qed

lemma signed_size_bound:
  assumes "tx_sign mult True ts tx = Ok tx'" and "serialize tx' = Ok raw" and "fee_model_size tx = Ok n"
    and "\<forall>i\<in>set (tx_inputs tx). full_txid i"
    and tm: "\<forall>i<length (tx_inputs tx). \<forall>t. ts ! i = Some t \<longrightarrow> template_ok t \<and> ti_template (tx_inputs tx ! i) = Some (announced t)"
  shows "length raw \<le> n"
proof -
  from assms(1) have s: "sign_inputs mult True ts [0..<length (tx_inputs tx)] tx = Ok tx'" by (auto simp: tx_sign_def split: if_splits)
  from sign_inputs_inv [OF s] have c: "same_core tx tx'" and sg: "\<forall>j<length (tx_inputs tx). input_signed mult True ts tx tx' j" by auto
  note l = same_core_length [OF c]
  have ut: "ti_unlocking (tx_inputs tx' ! j) \<noteq> None" if "j < length (tx_inputs tx)" for j
    using sg that by (auto simp: input_signed_def split: if_splits)
  have full: "full_txid i \<longleftrightarrow> full_txid (in_core i)" for i by (simp add: full_txid_def txid_bytes_def in_core_def)
  have "\<forall>i\<in>set (tx_inputs tx'). full_txid i"
  proof -
    have "list_all full_txid (map in_core (tx_inputs tx'))"
      using assms(4) full c unfolding same_core_def by (metis Ball_set list.pred_map comp_apply)
    then show ?thesis by (simp add: list_all_iff full [symmetric])
  qed
  moreover have "\<forall>i\<in>set (tx_inputs tx'). ti_unlocking i \<noteq> None" using ut l by (auto simp: in_set_conv_nth)
  ultimately have n': "fee_model_size tx' = Ok (length raw)" using sizes_exact [OF assms(2)] by blast
  show ?thesis
  proof (rule fee_model_size_mono [OF assms(3) n' _ l])
    show "tx_outputs tx' = tx_outputs tx" using c by (simp add: same_core_def)
    fix i a b
    assume i: "i < length (tx_inputs tx)" and a: "script_length (tx_inputs tx' ! i) = Ok a" and b: "script_length (tx_inputs tx ! i) = Ok b"
    show "a \<le> b"
    proof (cases "ti_unlocking (tx_inputs tx ! i)")
      case (Some u)
      then have "tx_inputs tx' ! i = tx_inputs tx ! i" using sg i by (auto simp: input_signed_def)
      with a b show ?thesis by simp
    next
      case None
      have "input_signed mult True ts tx tx' i" using sg i by blast
      with None obtain t s where t: "ts ! i = Some t" "ti_unlocking (tx_inputs tx' ! i) = Some s" "template_sign mult t tx' i = Ok (s, tx')"
        by (auto simp: input_signed_def)
      from t(3) i l obtain r sh where "unlock_with mult t r sh = Ok s" by (auto simp: template_sign_alt bind_r_Ok_iff)
      with tm t i have "length s \<le> announced t" using unlock_with_length by blast
      with a b t tm i None show ?thesis by (auto simp: script_length_def)
    qed
  qed
qed


text \<open>The R-puzzle template announces the length for a compressed key whatever its key is.\<close>

lemma rpuzzle_underestimates:
  assumes "unlock_with mult (Unlock_RPuzzle k key scope acp) r sh = Ok s" and "length (key_public key) = 65"
  shows "announced (Unlock_RPuzzle k key scope acp) < length s"
proof -
  from assms(1) obtain pre sig p q where p: "sign_custom_k mult hash256 (key_bytes key) pre k = Ok sig" "push_sig sig sh = Ok p"
    "encode_pushdata (key_public key) True = Ok q" "s = p @ q" by (auto simp: bind_r_Ok_iff)
  have f: "32 \<le> length b" if "der_fixed x = Ok b" for x b
    using that by (auto simp: der_fixed_def bind_r_Ok_iff to_bytes_be_def split: if_splits)
  have "70 \<le> length sig" using p(1) by (auto simp: sign_custom_k_def Let_def bind_r_Ok_iff case_option_Ok_iff dest!: f split: if_splits)
  with p(4) push_sig_length [OF p(2)] sign_custom_k_length [OF p(1)] encode_pushdata_length [OF p(3)] assms(2) show ?thesis by simp
qed

section \<open>Paying to an address\<close>

lemma pushdata_plain: "2 \<le> length b \<Longrightarrow> length b \<le> 75 \<Longrightarrow> encode_pushdata b True = Ok (word_of_nat (length b) # b)"
proof -
  assume "2 \<le> length b" "length b \<le> 75"
  moreover from this(1) have "b \<noteq> []" by auto
  moreover have "le_bytes 1 n = [word_of_nat n]" for n by simp
  ultimately show ?thesis by (simp add: encode_pushdata_def get_pushdata_code_def Let_def del: One_nat_def)
qed

text \<open>Paying to an address locks to the key it names: for a public key hash of 20 bytes, the address of either
  network and the hash itself give the same script of 25 bytes, which holds the hash; any other
  length of the hash is refused.\<close>

theorem p2pkh_lock_pays:
  "(length pkh = 20 \<longrightarrow> P2PKH_lock (PyStr (address_of net pkh)) = Ok ([0x76, 0xA9, 0x14] @ pkh @ [0x88, 0xAC])
      \<and> P2PKH_lock (PyBytes pkh) = Ok ([0x76, 0xA9, 0x14] @ pkh @ [0x88, 0xAC]))
   \<and> (length pkh \<noteq> 20 \<longrightarrow> P2PKH_lock (PyBytes pkh) = Err ValidationError)"
  using decode_address_of [of pkh net] pushdata_plain [of pkh] by (simp add: P2PKH_lock_def address_to_public_key_hash_def)

theorem p2pkh_lock_pays_witness:
  "P2PKH_lock (PyStr (address_of MAINNET (replicate 20 7))) = Ok ([0x76, 0xA9, 0x14] @ replicate 20 7 @ [0x88, 0xAC])"
  using p2pkh_lock_pays [of "replicate 20 7" MAINNET] by simp

section \<open>An example\<close>

definition sample_key :: priv_key where
  "sample_key = \<lparr>key_bytes = replicate 32 1, key_public = replicate 33 2, key_compressed = True, key_sign = (\<lambda>_. replicate 71 0x30)\<rparr>"

definition unsigned_transaction :: transaction where
  "unsigned_transaction = example_transaction\<lparr>tx_inputs := [unsigned_in], tx_lock := 0\<rparr>"

definition signed_transaction :: transaction where
  "signed_transaction = unsigned_transaction\<lparr>tx_inputs := [unsigned_in\<lparr>ti_unlocking :=
     Some (72 # replicate 71 0x30 @ [0x41] @ 33 # replicate 33 2)\<rparr>]\<rparr>"

lemma sample_signs: "tx_sign mult True [Some (Unlock_P2PKH sample_key)] unsigned_transaction = Ok signed_transaction"
proof -
  obtain p where "tx_preimage 0 [example_in] (tx_outputs example_transaction) 1 0 = Ok p" using example_preimage by blast
  then have "tx_preimage 0 [unsigned_in] (tx_outputs example_transaction) 1 0 = Ok p"
    by (simp only: tx_preimage_def unsigned_same Let_def nth_Cons_0 list.size)
  then have p: "tx_preimage_of unsigned_transaction 0 = Ok p"
    by (simp add: tx_preimage_of_def unsigned_transaction_def example_transaction_def)
  have s: "push_sig (key_sign sample_key p) (ti_sighash unsigned_in) = Ok (72 # replicate 71 0x30 @ [0x41])"
    using pushdata_plain [of "replicate 71 0x30 @ [0x41]"]
    by (simp add: push_sig_def sample_key_def unsigned_in_def example_in_def to_bytes_le_def)
  have q: "encode_pushdata (key_public sample_key) True = Ok (33 # replicate 33 2)"
    using pushdata_plain [of "replicate 33 2"] by (simp add: sample_key_def)
  have u: "tx_inputs unsigned_transaction = [unsigned_in]" "ti_unlocking unsigned_in = None"
    by (simp_all add: unsigned_transaction_def unsigned_in_def)
  have o: "\<forall>out\<in>set (tx_outputs unsigned_transaction). to_satoshis out \<noteq> None" by (simp add: unsigned_transaction_def example_transaction_def)
  then show ?thesis using p s q u by (simp add: tx_sign_def set_input_def signed_transaction_def)
qed


lemma sample_serializes: "\<exists>raw. serialize signed_transaction = Ok raw"
proof -
  let ?i = "unsigned_in\<lparr>ti_unlocking := Some (72 # replicate 71 0x30 @ [0x41] @ 33 # replicate 33 2)\<rparr>"
  have "txid_bytes ?i = Ok (replicate 32 7)" by (simp add: txid_bytes_def unsigned_in_def example_in_def)
  then have "\<exists>b. in_serialize ?i = Ok b"
    by (simp add: in_serialize_def unlocking_bytes_def unsigned_in_def example_in_def to_bytes_le_def unsigned_to_varint_def)
  then show ?thesis
    by (auto simp: serialize_def signed_transaction_def unsigned_transaction_def example_transaction_def out_serialize_def to_bytes_le_def unsigned_to_varint_def)
qed


end
