(* ===== verification/Glyph_Script.thy ===== *)
theory Glyph_Script
  imports Sighash Boundary
begin

text \<open>
  Token scripts: \<open>GlyphRef\<close> of \<open>pyrxd/glyph/types.py\<close> and the builders, classifiers and extractors of
  \<open>pyrxd/glyph/script.py\<close>. A regular expression of the source is a list of literals and counted runs of
  lower-case hexadecimal digits.
\<close>

section \<open>References\<close>

record glyph_ref =
  gr_txid :: string
  gr_vout :: int

text \<open>The dataclass with its check; the transaction id has passed \<open>Txid\<close>.\<close>

definition GlyphRef :: "string \<Rightarrow> int \<Rightarrow> glyph_ref result" where
  "GlyphRef tid vout = (if vout < 0 \<or> vout > 0xFFFFFFFF then Err ValidationError else Ok \<lparr>gr_txid = tid, gr_vout = vout\<rparr>)"

definition ref_to_bytes :: "glyph_ref \<Rightarrow> bytes result" where
  "ref_to_bytes r = bind_r (fromhex (gr_txid r)) (\<lambda>t. bind_r (pack_u 4 (gr_vout r)) (\<lambda>v. Ok (rev t @ v)))"

definition ref_from_bytes :: "bytes \<Rightarrow> glyph_ref result" where
  "ref_from_bytes data =
     (if length data \<noteq> 36 then Err ValidationError
      else bind_r (Txid (PyStr (hex (rev (take 32 data))))) (\<lambda>t. GlyphRef t (int (le_val (drop 32 data)))))"

definition from_contract_hex :: "string \<Rightarrow> glyph_ref result" where
  "from_contract_hex s =
     (if length s \<noteq> 72 then Err ValidationError
      else case fromhex (drop 64 s) of
        Inl e \<Rightarrow> Err ValidationError
      | Inr v \<Rightarrow> bind_r (Txid (PyStr (take 64 s))) (\<lambda>t. GlyphRef t (int (be_val v))))"

section \<open>Patterns\<close>

datatype seg = Lit string | Digits nat

fun fullmatch :: "seg list \<Rightarrow> string \<Rightarrow> bool" where
  "fullmatch [] s \<longleftrightarrow> s = []"
| "fullmatch (Lit l # p) s \<longleftrightarrow> take (length l) s = l \<and> fullmatch p (drop (length l) s)"
| "fullmatch (Digits n # p) s \<longleftrightarrow> n \<le> length s \<and> list_all lower_hex (take n s) \<and> fullmatch p (drop n s)"

text \<open>\<open>str.lower\<close> on ASCII.\<close>

definition char_lower :: "char \<Rightarrow> char" where
  "char_lower c = (let n = (of_char c :: nat) in if 65 \<le> n \<and> n \<le> 90 then char_of (n + 32) else c)"

definition str_lower :: "string \<Rightarrow> string" where
  "str_lower = map char_lower"

definition NFT_SCRIPT_RE :: "seg list" where
  "NFT_SCRIPT_RE = [Lit ''d8'', Digits 72, Lit ''7576a914'', Digits 40, Lit ''88ac'']"

definition FT_SCRIPT_RE :: "seg list" where
  "FT_SCRIPT_RE = [Lit ''76a914'', Digits 40, Lit ''88acbdd0'', Digits 72, Lit ''dec0e9aa76e378e4a269e69d'']"

definition COMMIT_SCRIPT_NFT_RE :: "seg list" where
  "COMMIT_SCRIPT_NFT_RE = [Lit ''aa20'', Digits 64, Lit ''8803676c7988c0c8c0c954807eda529d76a914'', Digits 40, Lit ''88ac'']"

definition COMMIT_SCRIPT_FT_RE :: "seg list" where
  "COMMIT_SCRIPT_FT_RE = [Lit ''aa20'', Digits 64, Lit ''8803676c7988c0c8c0c954807eda519d76a914'', Digits 40, Lit ''88ac'']"

definition COMMIT_SCRIPT_RE :: "seg list" where
  "COMMIT_SCRIPT_RE =
     [Lit ''aa20'', Digits 64, Lit ''8803676c7988c0c8c0c954807eda'', Digits 2, Lit ''9d76a914'', Digits 40, Lit ''88ac'']"

definition is_nft_script :: "string \<Rightarrow> bool" where "is_nft_script s = fullmatch NFT_SCRIPT_RE (str_lower s)"
definition is_ft_script :: "string \<Rightarrow> bool" where "is_ft_script s = fullmatch FT_SCRIPT_RE (str_lower s)"
definition is_commit_script :: "string \<Rightarrow> bool" where "is_commit_script s = fullmatch COMMIT_SCRIPT_RE (str_lower s)"
definition is_commit_nft_script :: "string \<Rightarrow> bool" where "is_commit_nft_script s = fullmatch COMMIT_SCRIPT_NFT_RE (str_lower s)"
definition is_commit_ft_script :: "string \<Rightarrow> bool" where "is_commit_ft_script s = fullmatch COMMIT_SCRIPT_FT_RE (str_lower s)"

section \<open>Builders\<close>

text \<open>The owner is a \<open>Hex20\<close>, twenty bytes.\<close>

definition build_nft_locking_script :: "bytes \<Rightarrow> glyph_ref \<Rightarrow> bytes result" where
  "build_nft_locking_script owner_pkh ref =
     bind_r (ref_to_bytes ref) (\<lambda>r.
       let script = [0xD8] @ r @ [0x75, 0x76, 0xA9, 0x14] @ owner_pkh @ [0x88, 0xAC]
       in if length script \<noteq> 63 then Err RuntimeError else Ok script)"

definition ft_epilogue :: bytes where
  "ft_epilogue = [0xDE, 0xC0, 0xE9, 0xAA, 0x76, 0xE3, 0x78, 0xE4, 0xA2, 0x69, 0xE6, 0x9D]"

definition build_ft_locking_script :: "bytes \<Rightarrow> glyph_ref \<Rightarrow> bytes result" where
  "build_ft_locking_script owner_pkh ref =
     bind_r (ref_to_bytes ref) (\<lambda>r.
       let script = ([0x76, 0xA9, 0x14] @ owner_pkh @ [0x88, 0xAC]) @ [0xBD, 0xD0] @ r @ ft_epilogue
       in if length script \<noteq> 75 then Err RuntimeError else Ok script)"

definition build_commit_locking_script :: "bytes \<Rightarrow> bytes \<Rightarrow> bool \<Rightarrow> bytes result" where
  "build_commit_locking_script phash owner_pkh is_nft =
     (if length phash \<noteq> 32 then Err ValidationError
      else Ok ([0xAA, 0x20] @ phash @ [0x88, 0x03, 0x67, 0x6C, 0x79, 0x88, 0xC0, 0xC8, 0xC0, 0xC9, 0x54, 0x80, 0x7E, 0xDA]
               @ [if is_nft then 0x52 else 0x51] @ [0x9D, 0x76, 0xA9, 0x14] @ owner_pkh @ [0x88, 0xAC]))"

definition hash_payload :: "bytes \<Rightarrow> bytes" where
  "hash_payload cbor = sha256 (sha256 cbor)"

section \<open>Extractors\<close>

definition extract_ref_from_nft_script :: "bytes \<Rightarrow> glyph_ref result" where
  "extract_ref_from_nft_script script =
     (if length script \<noteq> 63 \<or> script ! 0 \<noteq> 0xD8 then Err ValidationError else ref_from_bytes (pyslice 1 37 script))"

definition extract_ref_from_ft_script :: "bytes \<Rightarrow> glyph_ref result" where
  "extract_ref_from_ft_script script =
     (if length script \<noteq> 75 \<or> script ! 25 \<noteq> 0xBD \<or> script ! 26 \<noteq> 0xD0 then Err ValidationError
      else ref_from_bytes (pyslice 27 63 script))"

definition extract_owner_pkh_from_nft_script :: "bytes \<Rightarrow> bytes result" where
  "extract_owner_pkh_from_nft_script script =
     (if length script \<noteq> 63 \<or> script ! 0 \<noteq> 0xD8 then Err ValidationError else Hex20 (PyBytes (pyslice 41 61 script)))"

definition extract_owner_pkh_from_ft_script :: "bytes \<Rightarrow> bytes result" where
  "extract_owner_pkh_from_ft_script script =
     (if length script \<noteq> 75 \<or> \<not> fullmatch FT_SCRIPT_RE (hex script) then Err ValidationError
      else Hex20 (PyBytes (pyslice 3 23 script)))"

definition extract_payload_hash_from_commit_script :: "bytes \<Rightarrow> bytes result" where
  "extract_payload_hash_from_commit_script script =
     (if length script \<noteq> 75 \<or> \<not> fullmatch COMMIT_SCRIPT_RE (hex script) then Err ValidationError else Ok (pyslice 2 34 script))"

definition extract_owner_pkh_from_commit_script :: "bytes \<Rightarrow> bytes result" where
  "extract_owner_pkh_from_commit_script script =
     (if length script \<noteq> 75 \<or> \<not> fullmatch COMMIT_SCRIPT_RE (hex script) then Err ValidationError
      else Hex20 (PyBytes (pyslice 53 73 script)))"

section \<open>Mutable tokens\<close>

definition MUTABLE_NFT_BODY :: bytes where
  "MUTABLE_NFT_BODY =
     [0x76, 0x01, 0x20, 0x7F, 0x81, 0x8C, 0x54, 0x80, 0x7E, 0x52, 0x79, 0xE2, 0x54, 0x7A, 0x01, 0x24, 0x95, 0x7F, 0x77, 0x01, 0x24,
      0x7F, 0x75, 0x88, 0x7C, 0xEC, 0x7B, 0x7F, 0x77, 0x01, 0x45, 0x7F, 0x75, 0x78, 0x01, 0x20, 0x7E, 0xC0, 0xCA, 0xA8, 0x7E, 0x88,
      0x52, 0x79, 0x03, 0x6D, 0x6F, 0x64, 0x87, 0x63, 0x78, 0xEA, 0xC0, 0xE9, 0x88, 0x78, 0xEC, 0x01, 0x20, 0x55, 0x79, 0xAA, 0x7E,
      0x01, 0x75, 0x7E, 0x88, 0x67, 0x52, 0x79, 0x02, 0x73, 0x6C, 0x88, 0x78, 0xCD, 0x01, 0xD8, 0x52, 0x79, 0x7E, 0x01, 0x6A, 0x7E,
      0x87, 0x78, 0xDA, 0x00, 0x9C, 0x9B, 0x69, 0x68, 0x54, 0x7A, 0x03, 0x67, 0x6C, 0x79, 0x88, 0x6D, 0x6D, 0x51]"

definition MUTABLE_NFT_SCRIPT_SIZE :: nat where "MUTABLE_NFT_SCRIPT_SIZE = 174"

definition build_mutable_nft_script :: "glyph_ref \<Rightarrow> bytes \<Rightarrow> bytes result" where
  "build_mutable_nft_script mutable_ref phash =
     (if length phash \<noteq> 32 then Err ValidationError
      else bind_r (ref_to_bytes mutable_ref) (\<lambda>r.
        let script = [0x20] @ phash @ [0x75, 0xBD, 0xD8] @ r @ MUTABLE_NFT_BODY
        in if length script \<noteq> MUTABLE_NFT_SCRIPT_SIZE then Err RuntimeError else Ok script))"

definition parse_mutable_nft_script :: "bytes \<Rightarrow> (glyph_ref \<times> bytes) option result" where
  "parse_mutable_nft_script script =
     (if length script \<noteq> MUTABLE_NFT_SCRIPT_SIZE then Ok None
      else if script ! 0 \<noteq> 0x20 \<or> script ! 33 \<noteq> 0x75 \<or> script ! 34 \<noteq> 0xBD \<or> script ! 35 \<noteq> 0xD8 then Ok None
      else if drop 72 script \<noteq> MUTABLE_NFT_BODY then Ok None
      else bind_r (ref_from_bytes (pyslice 36 72 script)) (\<lambda>r. Ok (Some (r, pyslice 1 33 script))))"

section \<open>References survive\<close>

definition wf_ref :: "glyph_ref \<Rightarrow> bool" where
  "wf_ref r \<longleftrightarrow> (\<exists>t. length t = 32 \<and> gr_txid r = hex t) \<and> 0 \<le> gr_vout r \<and> gr_vout r < 2 ^ 32"

lemma lower_hex_hex: "list_all lower_hex (hex bs)"
proof -
  have "lower_hex (hex_digit n)" if "n < 16" for n using that by (simp add: lower_hex_def Let_def of_char_hex_digit)
  moreover have "unat (b :: byte) div 16 < 16" for b using unat_byte_less [of b] by linarith
  ultimately show ?thesis by (induction bs) auto
qed

lemma Txid_hex: "length t = 32 \<Longrightarrow> Txid (PyStr (hex t)) = Ok (hex t)"
  using lower_hex_hex [of t] by (simp add: Txid_def txid_re_match_def)

lemma ref_to_bytes_wf: "wf_ref r \<Longrightarrow> \<exists>b. ref_to_bytes r = Ok b \<and> length b = 36"
  by (auto simp: wf_ref_def ref_to_bytes_def pack_u_def)

lemma ref_roundtrip: "wf_ref r \<Longrightarrow> ref_to_bytes r = Ok b \<Longrightarrow> ref_from_bytes b = Ok r"
proof -
  assume "wf_ref r" and b: "ref_to_bytes r = Ok b"
  then obtain t where t: "length t = 32" "gr_txid r = hex t" "0 \<le> gr_vout r" "gr_vout r < 2 ^ 32" by (auto simp: wf_ref_def)
  from b t have e: "b = rev t @ le_bytes 4 (nat (gr_vout r))" by (auto simp: ref_to_bytes_def bind_r_Ok_iff pack_u_def split: if_splits)
  have "le_val (le_bytes 4 (nat (gr_vout r))) = nat (gr_vout r)" using t by (intro le_val_le_bytes) (simp add: nat_less_iff)
  with t show ?thesis by (simp add: e ref_from_bytes_def Txid_hex GlyphRef_def)
qed

lemma ref_from_bytes_Ok: "ref_from_bytes b = Ok r \<Longrightarrow> length b = 36 \<and> wf_ref r \<and> ref_to_bytes r = Ok b"
proof -
  assume a: "ref_from_bytes b = Ok r"
  then have l: "length b = 36" by (auto simp: ref_from_bytes_def split: if_splits)
  have lt: "le_val (drop 32 b) < 2 ^ 32" using le_val_less [of "drop 32 b"] l by simp
  from a l have r: "r = \<lparr>gr_txid = hex (rev (take 32 b)), gr_vout = int (le_val (drop 32 b))\<rparr>"
    by (auto simp: ref_from_bytes_def Txid_hex GlyphRef_def split: if_splits)
  have "le_bytes 4 (le_val (drop 32 b)) = drop 32 b" using le_bytes_le_val [of "drop 32 b"] l by simp
  with l lt show ?thesis by (auto simp: r wf_ref_def ref_to_bytes_def pack_u_def intro: exI [of _ "rev (take 32 b)"])
qed

lemma ref_from_bytes_total: "length b = 36 \<Longrightarrow> \<exists>r. ref_from_bytes b = Ok r"
  using le_val_less [of "drop 32 b"] by (simp add: ref_from_bytes_def Txid_hex GlyphRef_def)

section \<open>Patterns on bytes\<close>

datatype bseg = BLit bytes | BAny nat

fun bmatch :: "bseg list \<Rightarrow> bytes \<Rightarrow> bool" where
  "bmatch [] s \<longleftrightarrow> s = []"
| "bmatch (BLit l # p) s \<longleftrightarrow> take (length l) s = l \<and> bmatch p (drop (length l) s)"
| "bmatch (BAny n # p) s \<longleftrightarrow> n \<le> length s \<and> bmatch p (drop n s)"

fun to_seg :: "bseg \<Rightarrow> seg" where
  "to_seg (BLit l) = Lit (hex l)"
| "to_seg (BAny n) = Digits (2 * n)"

lemma take_hex: "take (2 * n) (hex s) = hex (take n s)"
proof (induction n arbitrary: s)
  case (Suc n)
  then show ?case by (cases s) simp_all
qed simp

lemma drop_hex: "drop (2 * n) (hex s) = hex (drop n s)"
proof (induction n arbitrary: s)
  case (Suc n)
  then show ?case by (cases s) simp_all
qed simp

lemma hex_eq_iff [simp]: "hex x = hex y \<longleftrightarrow> x = y"
  by (metis fromhex_hex sum.inject(2))

lemma hex_eq_Nil [simp]: "hex x = [] \<longleftrightarrow> x = []"
  by (cases x) auto

lemma fullmatch_hex: "fullmatch (map to_seg p) (hex s) = bmatch p s"
proof (induction p arbitrary: s)
  case (Cons g p)
  then show ?case using lower_hex_hex by (cases g) (simp_all add: take_hex drop_hex)
qed simp

lemma str_lower_hex: "str_lower (hex s) = hex s"
proof -
  have "char_lower c = c" if "lower_hex c" for c using that by (auto simp: char_lower_def lower_hex_def Let_def)
  then show ?thesis using lower_hex_hex [of s] by (auto simp: str_lower_def list_all_iff map_idI)
qed

lemma bmatch_lit: "bmatch (BLit l # p) s \<longleftrightarrow> (\<exists>t. s = l @ t \<and> bmatch p t)"
  by (metis append_eq_conv_conj append_take_drop_id bmatch.simps(2))

lemma bmatch_any: "bmatch (BAny n # p) s \<longleftrightarrow> (\<exists>x t. s = x @ t \<and> length x = n \<and> bmatch p t)"
  by (metis append_eq_conv_conj append_take_drop_id bmatch.simps(3) length_append length_take le_add1 min.absorb2)

lemma pats:
  "NFT_SCRIPT_RE = map to_seg [BLit [0xD8], BAny 36, BLit [0x75, 0x76, 0xA9, 0x14], BAny 20, BLit [0x88, 0xAC]]"
  "FT_SCRIPT_RE = map to_seg [BLit [0x76, 0xA9, 0x14], BAny 20, BLit [0x88, 0xAC, 0xBD, 0xD0], BAny 36, BLit ft_epilogue]"
  "COMMIT_SCRIPT_NFT_RE = map to_seg [BLit [0xAA, 0x20], BAny 32,
     BLit [0x88, 0x03, 0x67, 0x6C, 0x79, 0x88, 0xC0, 0xC8, 0xC0, 0xC9, 0x54, 0x80, 0x7E, 0xDA, 0x52, 0x9D, 0x76, 0xA9, 0x14], BAny 20, BLit [0x88, 0xAC]]"
  "COMMIT_SCRIPT_FT_RE = map to_seg [BLit [0xAA, 0x20], BAny 32,
     BLit [0x88, 0x03, 0x67, 0x6C, 0x79, 0x88, 0xC0, 0xC8, 0xC0, 0xC9, 0x54, 0x80, 0x7E, 0xDA, 0x51, 0x9D, 0x76, 0xA9, 0x14], BAny 20, BLit [0x88, 0xAC]]"
  "COMMIT_SCRIPT_RE = map to_seg [BLit [0xAA, 0x20], BAny 32, BLit [0x88, 0x03, 0x67, 0x6C, 0x79, 0x88, 0xC0, 0xC8, 0xC0, 0xC9, 0x54, 0x80, 0x7E, 0xDA],
     BAny 1, BLit [0x9D, 0x76, 0xA9, 0x14], BAny 20, BLit [0x88, 0xAC]]"
  by code_simp+

lemmas layout = fullmatch_hex pats bmatch_lit bmatch_any bmatch.simps(1)

lemma ft_script_layout:
  "fullmatch FT_SCRIPT_RE (hex s) \<longleftrightarrow> (\<exists>pkh r. length pkh = 20 \<and> length r = 36 \<and> s = [0x76, 0xA9, 0x14] @ pkh @ [0x88, 0xAC, 0xBD, 0xD0] @ r @ ft_epilogue)"
  unfolding layout by (rule iffI) (blast, force)

lemma nft_script_layout:
  "fullmatch NFT_SCRIPT_RE (hex s) \<longleftrightarrow> (\<exists>r pkh. length pkh = 20 \<and> length r = 36 \<and> s = [0xD8] @ r @ [0x75, 0x76, 0xA9, 0x14] @ pkh @ [0x88, 0xAC])"
  unfolding layout by (rule iffI) (blast, force)

lemma commit_nft_layout:
  "fullmatch COMMIT_SCRIPT_NFT_RE (hex s) \<longleftrightarrow> (\<exists>h pkh. length pkh = 20 \<and> length h = 32 \<and>
     s = [0xAA, 0x20] @ h @ [0x88, 0x03, 0x67, 0x6C, 0x79, 0x88, 0xC0, 0xC8, 0xC0, 0xC9, 0x54, 0x80, 0x7E, 0xDA, 0x52, 0x9D, 0x76, 0xA9, 0x14] @ pkh @ [0x88, 0xAC])"
  unfolding layout by (rule iffI) (blast, force)

lemma commit_ft_layout:
  "fullmatch COMMIT_SCRIPT_FT_RE (hex s) \<longleftrightarrow> (\<exists>h pkh. length pkh = 20 \<and> length h = 32 \<and>
     s = [0xAA, 0x20] @ h @ [0x88, 0x03, 0x67, 0x6C, 0x79, 0x88, 0xC0, 0xC8, 0xC0, 0xC9, 0x54, 0x80, 0x7E, 0xDA, 0x51, 0x9D, 0x76, 0xA9, 0x14] @ pkh @ [0x88, 0xAC])"
  unfolding layout by (rule iffI) (blast, force)

lemma build_ft_Ok: "build_ft_locking_script pkh r = Ok s \<longleftrightarrow>
    (\<exists>b. ref_to_bytes r = Ok b \<and> length pkh + length b = 56 \<and> s = [0x76, 0xA9, 0x14] @ pkh @ [0x88, 0xAC, 0xBD, 0xD0] @ b @ ft_epilogue)"
  by (cases "ref_to_bytes r") (auto simp: build_ft_locking_script_def Let_def ft_epilogue_def)

lemma build_nft_Ok: "build_nft_locking_script pkh r = Ok s \<longleftrightarrow>
    (\<exists>b. ref_to_bytes r = Ok b \<and> length pkh + length b = 56 \<and> s = [0xD8] @ b @ [0x75, 0x76, 0xA9, 0x14] @ pkh @ [0x88, 0xAC])"
  by (cases "ref_to_bytes r") (auto simp: build_nft_locking_script_def Let_def)

lemma ref_bytes: "length b = 36 \<longleftrightarrow> (\<exists>r. wf_ref r \<and> ref_to_bytes r = Ok b)"
  using ref_from_bytes_total ref_from_bytes_Ok ref_to_bytes_wf by (metis sum.inject(2))

text \<open>C22: The classifiers recognise exactly what the builders build: a script is classified as a fungible token,
  a singleton or one of the two kinds of commit output if and only if it is what the builder returns
  for some owner of 20 bytes and some reference or payload hash.\<close>

theorem classifiers_exact:
  "(is_ft_script (hex s) \<longleftrightarrow> (\<exists>pkh r. length pkh = 20 \<and> wf_ref r \<and> build_ft_locking_script pkh r = Ok s))
   \<and> (is_nft_script (hex s) \<longleftrightarrow> (\<exists>pkh r. length pkh = 20 \<and> wf_ref r \<and> build_nft_locking_script pkh r = Ok s))
   \<and> (is_commit_nft_script (hex s) \<longleftrightarrow> (\<exists>h pkh. length pkh = 20 \<and> build_commit_locking_script h pkh True = Ok s))
   \<and> (is_commit_ft_script (hex s) \<longleftrightarrow> (\<exists>h pkh. length pkh = 20 \<and> build_commit_locking_script h pkh False = Ok s))"
proof -
  have "is_ft_script (hex s) \<longleftrightarrow> (\<exists>pkh r. length pkh = 20 \<and> wf_ref r \<and> build_ft_locking_script pkh r = Ok s)"
    unfolding is_ft_script_def str_lower_hex ft_script_layout build_ft_Ok using ref_bytes ref_to_bytes_wf
    by fastforce
  moreover have "is_nft_script (hex s) \<longleftrightarrow> (\<exists>pkh r. length pkh = 20 \<and> wf_ref r \<and> build_nft_locking_script pkh r = Ok s)"
    unfolding is_nft_script_def str_lower_hex nft_script_layout build_nft_Ok using ref_bytes by fastforce
  moreover have "(is_commit_nft_script (hex s) \<longleftrightarrow> (\<exists>h pkh. length pkh = 20 \<and> build_commit_locking_script h pkh True = Ok s))
      \<and> (is_commit_ft_script (hex s) \<longleftrightarrow> (\<exists>h pkh. length pkh = 20 \<and> build_commit_locking_script h pkh False = Ok s))"
    unfolding is_commit_nft_script_def is_commit_ft_script_def str_lower_hex commit_nft_layout commit_ft_layout build_commit_locking_script_def
    by auto
  ultimately show ?thesis by blast
qed

section \<open>What the scripts carry\<close>

lemma Hex20_Ok [simp]: "length b = 20 \<Longrightarrow> Hex20 (PyBytes b) = Ok b"
  by (simp add: Hex20_def fixed_bytes_def)

lemma walk_body: "iter_input_refs MUTABLE_NFT_BODY = Ok []"
  by code_simp

lemma walk_ref: "op \<in> {0xD0, 0xD8} \<Longrightarrow> length b = 36 \<Longrightarrow>
    iter_input_refs (op # b @ rest) = bind_r (iter_input_refs rest) (\<lambda>rs. Ok ((op, b) # rs))"
proof -
  assume "op \<in> {0xD0, 0xD8}" and l: "length b = 36"
  then have "is_ref_op op" by (auto simp: is_ref_op_def)
  with l show ?thesis by (simp only: iter_input_refs.simps if_True) simp
qed

lemma walk_skip: "\<not> is_ref_op op \<Longrightarrow> \<not> is_direct_push op \<Longrightarrow> op \<notin> {0x4C, 0x4D, 0x4E} \<Longrightarrow> iter_input_refs (op # rest) = iter_input_refs rest"
  by (simp only: iter_input_refs.simps) simp

lemma walk_push: "is_direct_push op \<Longrightarrow> length b = unat op \<Longrightarrow> iter_input_refs (op # b @ rest) = iter_input_refs rest"
proof -
  assume d: "is_direct_push op" and l: "length b = unat op"
  from d have "\<not> is_ref_op op" by (simp add: is_ref_op_def is_direct_push_def)
  with d l show ?thesis by (simp only: iter_input_refs.simps) simp
qed

lemmas walk = walk_ref walk_skip walk_push is_ref_op_def is_direct_push_def

lemma walk_ft_epilogue: "iter_input_refs ft_epilogue = Ok []"
  by code_simp

lemma ft_refs: "length pkh = 20 \<Longrightarrow> length b = 36 \<Longrightarrow>
    iter_input_refs ([0x76, 0xA9, 0x14] @ pkh @ [0x88, 0xAC, 0xBD, 0xD0] @ b @ ft_epilogue) = Ok [(0xD0, b)]"
  by (simp add: walk walk_ft_epilogue del: iter_input_refs.simps)

lemma nft_refs: "length pkh = 20 \<Longrightarrow> length b = 36 \<Longrightarrow>
    iter_input_refs ([0xD8] @ b @ [0x75, 0x76, 0xA9, 0x14] @ pkh @ [0x88, 0xAC]) = Ok [(0xD8, b)]"
  by (simp add: walk del: iter_input_refs.simps(2))

lemma mutable_refs: "length h = 32 \<Longrightarrow> length b = 36 \<Longrightarrow>
    iter_input_refs ([0x20] @ h @ [0x75, 0xBD, 0xD8] @ b @ MUTABLE_NFT_BODY) = Ok [(0xD8, b)]"
  by (simp add: walk walk_body del: iter_input_refs.simps(2))

lemma wf_ref_bytes: "wf_ref r \<Longrightarrow> ref_to_bytes r = Ok b \<Longrightarrow> length b = 36"
  using ref_to_bytes_wf by fastforce

lemma ft_extract:
  assumes "length pkh = 20" "length b = 36" and s: "s = [0x76, 0xA9, 0x14] @ pkh @ [0x88, 0xAC, 0xBD, 0xD0] @ b @ ft_epilogue"
  shows "length s = 75" "extract_ref_from_ft_script s = ref_from_bytes b" "extract_owner_pkh_from_ft_script s = Ok pkh"
proof -
  have l: "length ft_epilogue = 12" by (simp add: ft_epilogue_def)
  show ls: "length s = 75" using assms l by simp
  show "extract_ref_from_ft_script s = ref_from_bytes b"
    using assms ls by (simp add: extract_ref_from_ft_script_def nth_append pyslice_def)
  have "fullmatch FT_SCRIPT_RE (hex s)" unfolding ft_script_layout using assms by blast
  then show "extract_owner_pkh_from_ft_script s = Ok pkh"
    using assms ls by (simp add: extract_owner_pkh_from_ft_script_def pyslice_def)
qed

lemma nft_extract:
  assumes "length pkh = 20" "length b = 36" and s: "s = [0xD8] @ b @ [0x75, 0x76, 0xA9, 0x14] @ pkh @ [0x88, 0xAC]"
  shows "length s = 63" "extract_ref_from_nft_script s = ref_from_bytes b" "extract_owner_pkh_from_nft_script s = Ok pkh"
  using assms by (simp_all add: extract_ref_from_nft_script_def extract_owner_pkh_from_nft_script_def pyslice_def)

text \<open>A token script gives back what it was built from. For an owner of 20 bytes and a well-formed reference
  the fungible-token builder returns a script of 75 bytes and the singleton builder one of 63; the extractors return
  that owner and that reference, and the walk of the script that consensus makes
  finds exactly that one reference, pushed by the opcode of its kind.\<close>

theorem token_script_roundtrip:
  assumes "length pkh = 20" and "wf_ref r"
  shows "\<exists>b ft nft. ref_to_bytes r = Ok b
     \<and> build_ft_locking_script pkh r = Ok ft \<and> length ft = 75
     \<and> extract_ref_from_ft_script ft = Ok r \<and> extract_owner_pkh_from_ft_script ft = Ok pkh
     \<and> iter_input_refs ft = Ok [(0xD0, b)]
     \<and> build_nft_locking_script pkh r = Ok nft \<and> length nft = 63
     \<and> extract_ref_from_nft_script nft = Ok r \<and> extract_owner_pkh_from_nft_script nft = Ok pkh
     \<and> iter_input_refs nft = Ok [(0xD8, b)]"
proof -
  obtain b where b: "ref_to_bytes r = Ok b" "length b = 36" using ref_to_bytes_wf [OF assms(2)] by blast
  note rt = ref_roundtrip [OF assms(2) b(1)]
  let ?ft = "[0x76, 0xA9, 0x14] @ pkh @ [0x88, 0xAC, 0xBD, 0xD0] @ b @ ft_epilogue"
  let ?nft = "[0xD8] @ b @ [0x75, 0x76, 0xA9, 0x14] @ pkh @ [0x88, 0xAC]"
  have "build_ft_locking_script pkh r = Ok ?ft" unfolding build_ft_Ok using assms b by auto
  moreover have "build_nft_locking_script pkh r = Ok ?nft" unfolding build_nft_Ok using assms b by auto
  ultimately show ?thesis
    using b rt ft_extract [OF assms(1) b(2) refl] nft_extract [OF assms(1) b(2) refl] ft_refs [OF assms(1) b(2)] nft_refs [OF assms(1) b(2)]
    by metis
qed

definition sample_ref :: glyph_ref where
  "sample_ref = \<lparr>gr_txid = hex (replicate 32 0xAB), gr_vout = 7\<rparr>"

lemma wf_sample_ref: "wf_ref sample_ref"
  by (auto simp: wf_ref_def sample_ref_def intro: exI [of _ "replicate 32 0xAB"])

theorem token_script_roundtrip_witness:
  "\<exists>ft. build_ft_locking_script (replicate 20 0xD0) sample_ref = Ok ft \<and> extract_ref_from_ft_script ft = Ok sample_ref"
  using token_script_roundtrip [of "replicate 20 0xD0", OF _ wf_sample_ref] by auto

text \<open>Parsing inverts building for mutable tokens, on every script: the parser returns a reference and a payload
  hash exactly for the script of 174 bytes that the builder returns for them; every other script is answered with nothing, never with an error.\<close>

theorem mutable_script_exact:
  "(parse_mutable_nft_script s = Ok (Some (r, h)) \<longleftrightarrow> wf_ref r \<and> build_mutable_nft_script r h = Ok s)
   \<and> (\<exists>res. parse_mutable_nft_script s = Ok res)"
proof -
  have body: "length MUTABLE_NFT_BODY = 102" by (simp add: MUTABLE_NFT_BODY_def)
  have build: "build_mutable_nft_script r h = Ok s \<longleftrightarrow> length h = 32 \<and>
      (\<exists>b. ref_to_bytes r = Ok b \<and> length b = 36 \<and> s = [0x20] @ h @ [0x75, 0xBD, 0xD8] @ b @ MUTABLE_NFT_BODY)"
    by (cases "ref_to_bytes r") (auto simp: build_mutable_nft_script_def Let_def MUTABLE_NFT_SCRIPT_SIZE_def body)
  have cut: "s = [s ! 0] @ pyslice 1 33 s @ [s ! 33, s ! 34, s ! 35] @ pyslice 36 72 s @ drop 72 s" if l: "length s = 174"
  proof -
    have c: "drop a s = s ! a # drop (Suc a) s" if "a < 174" for a using Cons_nth_drop_Suc [of a s] that l by simp
    have d: "drop a s = pyslice a b s @ drop b s" if "a \<le> b" for a b
      using that append_take_drop_id [of "b - a" "drop a s"] by (simp add: pyslice_def)
    show ?thesis using c [of 0] d [of 1 33] c [of 33] c [of 34] c [of 35] d [of 36 72] by simp
  qed
  have "parse_mutable_nft_script s = Ok (Some (r, h)) \<Longrightarrow> wf_ref r \<and> build_mutable_nft_script r h = Ok s"
  proof -
    assume p: "parse_mutable_nft_script s = Ok (Some (r, h))"
    then have l: "length s = 174" and hd: "s ! 0 = 0x20" "s ! 33 = 0x75" "s ! 34 = 0xBD" "s ! 35 = 0xD8" "drop 72 s = MUTABLE_NFT_BODY"
      and r: "ref_from_bytes (pyslice 36 72 s) = Ok r" and h: "h = pyslice 1 33 s"
      by (auto simp: parse_mutable_nft_script_def MUTABLE_NFT_SCRIPT_SIZE_def bind_r_Ok_iff split: if_splits)
    from ref_from_bytes_Ok [OF r] have "wf_ref r" "ref_to_bytes r = Ok (pyslice 36 72 s)" "length (pyslice 36 72 s) = 36" by auto
    moreover have "length h = 32" using l by (simp add: h)
    moreover have "s = [0x20] @ h @ [0x75, 0xBD, 0xD8] @ pyslice 36 72 s @ MUTABLE_NFT_BODY" using cut [OF l] unfolding hd h by simp
    ultimately show ?thesis unfolding build by blast
  qed
  moreover have "parse_mutable_nft_script s = Ok (Some (r, h))" if w: "wf_ref r" and bd: "build_mutable_nft_script r h = Ok s"
  proof -
    from bd [unfolded build] obtain b where "length h = 32" "length b = 36" and b: "ref_to_bytes r = Ok b"
      and "s = [0x20] @ h @ [0x75, 0xBD, 0xD8] @ b @ MUTABLE_NFT_BODY" by blast
    then show ?thesis using ref_roundtrip [OF w b]
      by (simp add: parse_mutable_nft_script_def MUTABLE_NFT_SCRIPT_SIZE_def body nth_append pyslice_def)
  qed
  moreover have "\<exists>res. parse_mutable_nft_script s = Ok res"
    using ref_from_bytes_total [of "pyslice 36 72 s"] by (auto simp: parse_mutable_nft_script_def MUTABLE_NFT_SCRIPT_SIZE_def)
  ultimately show ?thesis by blast
qed

end
