(* ===== verification/Glyph_Ft.thy ===== *)
theory Glyph_Ft
  imports Templates Glyph_Script "HOL-Library.Product_Lexorder" "HOL-Library.Multiset"
begin

text \<open>
  Transfers of fungible tokens: \<open>pyrxd/glyph/ft.py\<close>. The UTXOs of one token, the greedy selection and the
  construction of a signed transfer in two passes, the first to measure, the second to sign.
  The fields have their declared types; \<open>hash160\<close> of the sender's public key is a
  parameter, as RIPEMD-160 is not part of the sources.
\<close>

section \<open>The UTXO set\<close>

record ft_utxo =
  fu_txid :: string
  fu_vout :: int
  fu_value :: int
  fu_amount :: int
  fu_script :: bytes

record ft_set =
  fs_ref :: glyph_ref
  fs_utxos :: "ft_utxo list"

definition utxo_check :: "glyph_ref \<Rightarrow> ft_utxo \<Rightarrow> unit result" where
  "utxo_check ref u =
     (if fu_amount u < 0 then Err ValidationError
      else if fu_value u < 0 then Err ValidationError
      else if \<not> is_ft_script (hex (fu_script u)) then Err ValidationError
      else bind_r (extract_ref_from_ft_script (fu_script u)) (\<lambda>r. if r \<noteq> ref then Err ValidationError else Ok ()))"

definition FtUtxoSet :: "glyph_ref \<Rightarrow> ft_utxo list \<Rightarrow> ft_set result" where
  "FtUtxoSet ref utxos = bind_r (map_r (utxo_check ref) utxos) (\<lambda>_. Ok \<lparr>fs_ref = ref, fs_utxos = utxos\<rparr>)"

definition ft_sum :: "ft_utxo list \<Rightarrow> int" where
  "ft_sum us = sum_list (map fu_amount us)"

definition ft_total :: "ft_set \<Rightarrow> int" where
  "ft_total st = ft_sum (fs_utxos st)"

fun take_until :: "int \<Rightarrow> int \<Rightarrow> ft_utxo list \<Rightarrow> ft_utxo list" where
  "take_until amount running [] = []"
| "take_until amount running (u # us) =
     u # (if running + fu_amount u \<ge> amount then [] else take_until amount (running + fu_amount u) us)"

definition ft_select :: "ft_set \<Rightarrow> int \<Rightarrow> ft_utxo list result" where
  "ft_select st amount =
     (if amount \<le> 0 then Err ValueError
      else if ft_total st < amount then Err ValueError
      else Ok (take_until amount 0 (sort_key (\<lambda>u. (- fu_amount u, - fu_value u)) (fs_utxos st))))"

section \<open>Building a transfer\<close>

record ft_transfer =
  ft_tx :: transaction
  ft_new_script :: bytes
  ft_change_script :: "bytes option"
  ft_fee :: int

text \<open>An input spends the output \<open>vout\<close> of a stand-in for its source: empty outputs before it, the real one there.\<close>

definition ft_input :: "priv_key \<Rightarrow> ft_utxo \<Rightarrow> tx_in result" where
  "ft_input key u =
     (let pad = \<lparr>to_satoshis = Some 0, to_script = [], to_change = False\<rparr>;
          shim = replicate (nat (fu_vout u)) pad @ [\<lparr>to_satoshis = Some (fu_value u), to_script = fu_script u, to_change = False\<rparr>] in
      bind_r (TransactionInput (Some (fu_txid u, shim)) (Some (fu_txid u)) (fu_vout u) None (Some (announced (Unlock_P2PKH key)))
                TRANSACTION_SEQUENCE SIGHASH_ALL_FORKID) (\<lambda>i.
        Ok (i\<lparr>ti_satoshis := Some (fu_value u), ti_locking := Some (fu_script u)\<rparr>)))"

definition ft_outputs :: "bytes \<Rightarrow> bytes option \<Rightarrow> int \<Rightarrow> int \<Rightarrow> tx_out list" where
  "ft_outputs new_script change_script transfer_value change_value =
     \<lparr>to_satoshis = Some transfer_value, to_script = new_script, to_change = False\<rparr> #
     (case change_script of None \<Rightarrow> [] | Some s \<Rightarrow> [\<lparr>to_satoshis = Some change_value, to_script = s, to_change = False\<rparr>])"

definition ft_signed :: "(int \<Rightarrow> int \<times> int \<Rightarrow> int \<times> int) \<Rightarrow> priv_key \<Rightarrow> ft_utxo list \<Rightarrow> tx_out list \<Rightarrow> transaction result" where
  "ft_signed ecm key selected outs =
     bind_r (map_r (ft_input key) selected) (\<lambda>ins.
       tx_sign ecm True (map (\<lambda>_. Some (Unlock_P2PKH key)) selected) \<lparr>tx_inputs = ins, tx_outputs = outs, tx_ver = 1, tx_lock = 0\<rparr>)"

definition build_transfer_tx ::
  "(int \<Rightarrow> int \<times> int \<Rightarrow> int \<times> int) \<Rightarrow> (bytes \<Rightarrow> bytes) \<Rightarrow> ft_set \<Rightarrow> int \<Rightarrow> bytes \<Rightarrow> priv_key \<Rightarrow> int \<Rightarrow> bytes option \<Rightarrow> int \<Rightarrow> ft_transfer result" where
  "build_transfer_tx ecm hash160 st amount new_owner_pkh key fee_rate change_pkh dust_limit =
     (if amount \<le> 0 then Err ValueError
      else if fee_rate \<le> 0 then Err ValueError
      else if dust_limit < 1 then Err ValueError
      else
        bind_r (ft_select st amount) (\<lambda>selected.
        let ft_change = ft_sum selected - amount in
        if ft_change < 0 then Err ValidationError
        else
        bind_r (Hex20 (PyBytes (case change_pkh of None \<Rightarrow> hash160 (key_public key) | Some p \<Rightarrow> p))) (\<lambda>sender_pkh.
        bind_r (build_ft_locking_script new_owner_pkh (fs_ref st)) (\<lambda>new_script.
        bind_r (if ft_change > 0 then bind_r (build_ft_locking_script sender_pkh (fs_ref st)) (\<lambda>s. Ok (Some s)) else Ok None) (\<lambda>change_script.
        let rxd_in = sum_list (map fu_value selected) in
        bind_r (ft_signed ecm key selected (ft_outputs new_script change_script dust_limit dust_limit)) (\<lambda>trial.
        bind_r (serialize trial) (\<lambda>raw.
        let fee = int (length raw) * fee_rate;
            change_alloc = (if change_script \<noteq> None then dust_limit else 0);
            transfer_value = rxd_in - fee - change_alloc in
        if transfer_value < dust_limit then Err ValueError
        else
        bind_r (ft_signed ecm key selected (ft_outputs new_script change_script transfer_value dust_limit)) (\<lambda>final.
          Ok \<lparr>ft_tx = final, ft_new_script = new_script, ft_change_script = change_script, ft_fee = fee\<rparr>))))))))"

section \<open>Selection\<close>

lemma take_until_prefix: "\<exists>k \<le> length us. take_until amount running us = take k us"
proof (induction us arbitrary: running)
  case (Cons u us)
  from Cons.IH [of "running + fu_amount u"] obtain k where "k \<le> length us" "take_until amount (running + fu_amount u) us = take k us" by blast
  then show ?case by (auto intro: exI [of _ 1] exI [of _ "Suc k"])
qed simp

lemma take_until_covers: "running + ft_sum us \<ge> amount \<Longrightarrow> us \<noteq> [] \<Longrightarrow> running + ft_sum (take_until amount running us) \<ge> amount"
proof (induction us arbitrary: running)
  case (Cons u us)
  show ?case
  proof (cases "amount \<le> running + fu_amount u \<or> us = []")
    case False
    then have "amount \<le> (running + fu_amount u) + ft_sum (take_until amount (running + fu_amount u) us)"
      using Cons.prems by (intro Cons.IH) (simp_all add: ft_sum_def)
    with False show ?thesis by (simp add: ft_sum_def)
  qed (use Cons.prems in \<open>auto simp: ft_sum_def\<close>)
qed simp

lemma take_until_short:
  assumes "k < length (take_until amount running us)" "running < amount"
  shows "running + ft_sum (take k us) < amount"
  using assms
proof (induction us arbitrary: running k)
  case (Cons u us)
  show ?case
  proof (cases k)
    case (Suc j)
    with Cons.prems have "running + fu_amount u < amount" "j < length (take_until amount (running + fu_amount u) us)"
      by (auto split: if_splits)
    with Cons.IH [of j "running + fu_amount u"] Suc show ?thesis by (simp add: ft_sum_def)
  qed (use Cons.prems in \<open>simp add: ft_sum_def\<close>)
qed simp

text \<open>The largest amounts come first, so no choice of as many UTXOs holds more.\<close>

lemma greedy_best:
  fixes xs :: "int list"
  assumes "sorted_wrt (\<ge>) xs" "\<forall>x\<in>set xs. 0 \<le> x" "T \<subseteq># mset xs"
  shows "sum_mset T \<le> sum_list (take (size T) xs)"
  using assms
proof (induction xs arbitrary: T)
  case (Cons x xs)
  show ?case
  proof (cases "x \<in># T")
    case True
    then obtain T' where T: "T = add_mset x T'" by (metis mset_add)
    with Cons.prems have "T' \<subseteq># mset xs" by simp
    with Cons.IH [of T'] Cons.prems T show ?thesis by simp
  next
    case False
    with Cons.prems(3) have sub: "T \<subseteq># mset xs" using subset_eq_diff_conv [of T "{#x#}" "mset xs"] by (simp add: diff_single_trivial)
    with Cons have IH: "sum_mset T \<le> sum_list (take (size T) xs)" by simp
    have "sum_list (take k xs) \<le> sum_list (take k (x # xs))" for k
    proof (cases k)
      case (Suc j)
      show ?thesis
      proof (cases "j < length xs")
        case True
        then have "xs ! j \<le> x" using Cons.prems(1) nth_mem by simp
        with True Suc show ?thesis by (simp add: take_Suc_conv_app_nth)
      qed (use Suc Cons.prems in simp)
    qed simp
    with IH show ?thesis by (rule order_trans)
  qed
qed simp

lemma ft_select_sorted: "sorted_wrt (\<ge>) (map fu_amount (sort_key (\<lambda>u. (- fu_amount u, - fu_value u)) us))"
proof -
  have "sorted (map (\<lambda>u. (- fu_amount u, - fu_value u)) (sort_key (\<lambda>u. (- fu_amount u, - fu_value u)) us))" by simp
  then show ?thesis by (auto simp: sorted_map sorted_wrt_map less_eq_prod_def elim!: sorted_wrt_mono_rel [rotated])
qed

lemma ft_set_amounts: "FtUtxoSet ref utxos = Ok st \<Longrightarrow> fs_utxos st = utxos \<and> fs_ref st = ref \<and> (\<forall>u\<in>set utxos. utxo_check ref u = Ok ())"
  by (auto simp: FtUtxoSet_def bind_r_Ok_iff map_r_Ok_iff list_all2_conv_all_nth in_set_conv_nth)

lemma utxo_check_amount: "utxo_check ref u = Ok () \<Longrightarrow> 0 \<le> fu_amount u"
  by (auto simp: utxo_check_def split: if_splits)

text \<open>C13: The selection is right and cannot be beaten. On a set that the constructor accepted, \<open>select\<close> answers exactly
  when the amount is positive and the set holds it; what it returns is part of the set and covers the
  amount, and no part of the set that covers the amount has fewer UTXOs.\<close>

theorem select_minimal:
  assumes "FtUtxoSet ref utxos = Ok st"
  shows "if 0 < amount \<and> amount \<le> ft_total st
    then \<exists>sel. ft_select st amount = Ok sel \<and> mset sel \<subseteq># mset utxos \<and> amount \<le> ft_sum sel
      \<and> (\<forall>T. T \<subseteq># mset utxos \<and> amount \<le> sum_mset (image_mset fu_amount T) \<longrightarrow> length sel \<le> size T)
    else ft_select st amount = Err ValueError"
proof (cases "0 < amount \<and> amount \<le> ft_total st")
  case True
  let ?xs = "sort_key (\<lambda>u. (- fu_amount u, - fu_value u)) utxos" and ?sel = "take_until amount 0 (sort_key (\<lambda>u. (- fu_amount u, - fu_value u)) utxos)"
  note st = ft_set_amounts [OF assms]
  have sel: "ft_select st amount = Ok ?sel" using True st by (simp add: ft_select_def)
  have total: "ft_sum ?xs = ft_total st" using st by (simp add: ft_total_def ft_sum_def flip: sum_mset_sum_list)
  obtain k where k: "k \<le> length ?xs" "?sel = take k ?xs" using take_until_prefix by blast
  have "mset ?sel \<subseteq># mset ?xs" unfolding k(2) by (metis append_take_drop_id mset_append mset_subset_eq_add_left)
  moreover have "amount \<le> ft_sum ?sel"
    using take_until_covers [of amount 0 ?xs] True total by (cases "?xs = []") (auto simp: ft_sum_def)
  moreover have "length ?sel \<le> size T" if T: "T \<subseteq># mset utxos" "amount \<le> sum_mset (image_mset fu_amount T)" for T
  proof (rule ccontr)
    assume "\<not> ?thesis"
    then have lt: "ft_sum (take (size T) ?xs) < amount" using take_until_short [of "size T" amount 0 ?xs] True by simp
    have nn: "\<forall>x\<in>set (map fu_amount ?xs). 0 \<le> x" using st utxo_check_amount by auto
    have "image_mset fu_amount T \<subseteq># mset (map fu_amount ?xs)" using T(1) by (simp add: image_mset_subseteq_mono)
    from greedy_best [OF ft_select_sorted nn this] have "sum_mset (image_mset fu_amount T) \<le> ft_sum (take (size T) ?xs)"
      by (simp add: ft_sum_def take_map)
    with lt T(2) show False by simp
  qed
  ultimately show ?thesis using sel True by auto
qed (auto simp: ft_select_def)

section \<open>What a transfer does\<close>

lemma ft_input_Ok: "ft_input key u = Ok i \<Longrightarrow> ti_satoshis i = Some (fu_value u) \<and> ti_locking i = Some (fu_script u)
    \<and> ti_unlocking i = None \<and> ti_txid i = Some (fu_txid u) \<and> ti_vout i = fu_vout u \<and> ti_sequence i = TRANSACTION_SEQUENCE
    \<and> ti_sighash i = SIGHASH_ALL_FORKID \<and> ti_template i = Some (announced (Unlock_P2PKH key))"
  by (auto simp: ft_input_def TransactionInput_def Let_def bind_r_Ok_iff)

lemma total_in_core:
  assumes "same_core tx tx'"
  shows "total_value_in tx' = total_value_in tx"
proof -
  have e: "map_r (\<lambda>i. satoshis_of (ti_satoshis i)) ins = map_r (\<lambda>i. satoshis_of (ti_satoshis i)) (map in_core ins)" for ins
    by (induction ins) (simp_all add: in_core_def)
  have "map in_core (tx_inputs tx') = map in_core (tx_inputs tx)" using assms by (simp add: same_core_def)
  then show ?thesis by (simp only: total_value_in_def e [of "tx_inputs tx'"] e [of "tx_inputs tx"])
qed

lemma ft_signed_shape:
  assumes "ft_signed ecm key sel outs = Ok tx"
  obtains ins where "list_all2 (\<lambda>u i. ft_input key u = Ok i) sel ins" "same_core \<lparr>tx_inputs = ins, tx_outputs = outs, tx_ver = 1, tx_lock = 0\<rparr> tx"
    "\<forall>j<length sel. \<exists>s. ti_unlocking (tx_inputs tx ! j) = Some s \<and> template_sign ecm (Unlock_P2PKH key) tx j = Ok (s, tx)"
proof -
  from assms obtain ins where ins: "list_all2 (\<lambda>u i. ft_input key u = Ok i) sel ins"
    and sg: "tx_sign ecm True (map (\<lambda>_. Some (Unlock_P2PKH key)) sel) \<lparr>tx_inputs = ins, tx_outputs = outs, tx_ver = 1, tx_lock = 0\<rparr> = Ok tx"
    by (auto simp: ft_signed_def bind_r_Ok_iff map_r_Ok_iff)
  let ?t0 = "\<lparr>tx_inputs = ins, tx_outputs = outs, tx_ver = 1, tx_lock = 0\<rparr>"
  from ins have l: "length ins = length sel" using list_all2_lengthD by fastforce
  from sg have "sign_inputs ecm True (map (\<lambda>_. Some (Unlock_P2PKH key)) sel) [0..<length ins] ?t0 = Ok tx"
    by (auto simp: tx_sign_def split: if_splits)
  from sign_inputs_inv [OF this] have c: "same_core ?t0 tx"
    and j: "\<forall>j<length ins. input_signed ecm True (map (\<lambda>_. Some (Unlock_P2PKH key)) sel) ?t0 tx j" by auto
  have "\<exists>s. ti_unlocking (tx_inputs tx ! k) = Some s \<and> template_sign ecm (Unlock_P2PKH key) tx k = Ok (s, tx)" if "k < length sel" for k
  proof -
    have "ft_input key (sel ! k) = Ok (ins ! k)" using ins that by (simp add: list_all2_conv_all_nth)
    then have "ti_unlocking (ins ! k) = None" using ft_input_Ok by blast
    moreover have "input_signed ecm True (map (\<lambda>_. Some (Unlock_P2PKH key)) sel) ?t0 tx k" using j that l by simp
    ultimately show ?thesis using that by (auto simp: input_signed_def simp del: template_sign.simps)
  qed
  with ins c show thesis using that by blast
qed

lemma ft_signed_values:
  assumes "ft_signed ecm key sel outs = Ok tx"
  shows "total_value_in tx = Ok (sum_list (map fu_value sel))" "tx_outputs tx = outs"
    "map (\<lambda>i. (ti_txid i, ti_vout i, ti_locking i)) (tx_inputs tx) = map (\<lambda>u. (Some (fu_txid u), fu_vout u, Some (fu_script u))) sel"
proof -
  obtain ins where ins: "list_all2 (\<lambda>u i. ft_input key u = Ok i) sel ins"
    and c: "same_core \<lparr>tx_inputs = ins, tx_outputs = outs, tx_ver = 1, tx_lock = 0\<rparr> tx" using assms by (rule ft_signed_shape)
  show "tx_outputs tx = outs" using c by (simp add: same_core_def)
  have "map_r (\<lambda>i. satoshis_of (ti_satoshis i)) ins = Ok (map fu_value sel)"
    using ins by (induction rule: list_all2_induct) (auto simp: satoshis_of_def dest!: ft_input_Ok)
  then show "total_value_in tx = Ok (sum_list (map fu_value sel))"
    unfolding total_in_core [OF c] by (simp add: total_value_in_def)
  have f: "map (\<lambda>i. (ti_txid i, ti_vout i, ti_locking i)) xs = map (\<lambda>i. (ti_txid i, ti_vout i, ti_locking i)) (map in_core xs)" for xs
    by (simp add: in_core_def)
  have "map (\<lambda>i. (ti_txid i, ti_vout i, ti_locking i)) ins = map (\<lambda>u. (Some (fu_txid u), fu_vout u, Some (fu_script u))) sel"
    using ins by (induction rule: list_all2_induct) (auto dest!: ft_input_Ok)
  then show "map (\<lambda>i. (ti_txid i, ti_vout i, ti_locking i)) (tx_inputs tx) = map (\<lambda>u. (Some (fu_txid u), fu_vout u, Some (fu_script u))) sel"
    unfolding f [of "tx_inputs tx"] using f [of ins] c by (simp only: same_core_def transaction.select_convs)
qed

lemma build_transfer_shape:
  assumes "build_transfer_tx ecm h st amount new key rate cp dust = Ok res"
  obtains sel pkh trial raw where "ft_select st amount = Ok sel" "amount \<le> ft_sum sel" "0 < amount" "1 \<le> dust" "length pkh = 20"
    "build_ft_locking_script new (fs_ref st) = Ok (ft_new_script res)"
    "ft_change_script res = None \<longleftrightarrow> ft_sum sel = amount"
    "\<And>s. ft_change_script res = Some s \<Longrightarrow> build_ft_locking_script pkh (fs_ref st) = Ok s"
    "ft_signed ecm key sel (ft_outputs (ft_new_script res) (ft_change_script res) dust dust) = Ok trial" "serialize trial = Ok raw"
    "ft_fee res = int (length raw) * rate"
    "dust \<le> sum_list (map fu_value sel) - ft_fee res - (if ft_change_script res \<noteq> None then dust else 0)"
    "ft_signed ecm key sel (ft_outputs (ft_new_script res) (ft_change_script res)
       (sum_list (map fu_value sel) - ft_fee res - (if ft_change_script res \<noteq> None then dust else 0)) dust) = Ok (ft_tx res)"
proof -
  show thesis
    using assms that
    by (auto simp: build_transfer_tx_def Let_def bind_r_Ok_iff Hex20_def fixed_bytes_def split: if_splits option.splits)
qed

lemma build_ft_extract:
  assumes "build_ft_locking_script pkh r = Ok s" "wf_ref r"
  shows "length pkh = 20" "extract_ref_from_ft_script s = Ok r" "length s = 75"
proof -
  from assms(1) obtain b where b: "ref_to_bytes r = Ok b" "length pkh + length b = 56"
    "s = [0x76, 0xA9, 0x14] @ pkh @ [0x88, 0xAC, 0xBD, 0xD0] @ b @ ft_epilogue" unfolding build_ft_Ok by blast
  have l: "length b = 36" using wf_ref_bytes [OF assms(2) b(1)] .
  with b(2) show p: "length pkh = 20" by simp
  show "extract_ref_from_ft_script s = Ok r" "length s = 75"
    using ft_extract [OF p l b(3)] ref_roundtrip [OF assms(2) b(1)] by simp_all
qed

lemma utxo_check_ref: "utxo_check ref u = Ok () \<Longrightarrow> extract_ref_from_ft_script (fu_script u) = Ok ref \<and> wf_ref ref"
proof -
  assume "utxo_check ref u = Ok ()"
  then have e: "extract_ref_from_ft_script (fu_script u) = Ok ref" by (auto simp: utxo_check_def bind_r_Ok_iff split: if_splits)
  then have "ref_from_bytes (pyslice 27 63 (fu_script u)) = Ok ref" by (auto simp: extract_ref_from_ft_script_def split: if_splits)
  with e show ?thesis using ref_from_bytes_Ok by blast
qed

lemma select_part:
  assumes "ft_select st amount = Ok sel"
  shows "set sel \<subseteq> set (fs_utxos st)" "sel \<noteq> []"
proof -
  let ?xs = "sort_key (\<lambda>u. (- fu_amount u, - fu_value u)) (fs_utxos st)"
  from assms have sel: "sel = take_until amount 0 ?xs" "0 < amount" "amount \<le> ft_total st" by (auto simp: ft_select_def split: if_splits)
  then show "set sel \<subseteq> set (fs_utxos st)" using take_until_prefix [of ?xs amount 0] set_take_subset [of _ ?xs] by force
  from sel(2,3) have "fs_utxos st \<noteq> []" by (auto simp: ft_total_def ft_sum_def)
  then have "?xs \<noteq> []" by (metis length_0_conv length_sort)
  then show "sel \<noteq> []" unfolding sel(1) by (cases ?xs) auto
qed

text \<open>C12: A transfer conserves value and keeps the token. Whatever \<open>build_transfer_tx\<close> returns spends exactly
  the selected UTXOs; the photons of the outputs and the fee add up to those of the inputs, and
  no output is below the dust limit; every input and every output is a script of the token's own
  reference; there is a change output exactly when the selected units exceed the amount; and
  every input is signed for this very transaction.\<close>

theorem transfer_conserves:
  assumes "FtUtxoSet ref utxos = Ok st" and "build_transfer_tx ecm h st amount new key rate cp dust = Ok res"
  shows "\<exists>sel. ft_select st amount = Ok sel
    \<and> map (\<lambda>i. (ti_txid i, ti_vout i)) (tx_inputs (ft_tx res)) = map (\<lambda>u. (Some (fu_txid u), fu_vout u)) sel
    \<and> total_value_in (ft_tx res) = Ok (sum_list (map fu_value sel))
    \<and> total_value_out (ft_tx res) = Ok (sum_list (map fu_value sel) - ft_fee res)
    \<and> (\<forall>out\<in>set (tx_outputs (ft_tx res)). \<exists>v. to_satoshis out = Some v \<and> dust \<le> v)
    \<and> (\<forall>out\<in>set (tx_outputs (ft_tx res)). extract_ref_from_ft_script (to_script out) = Ok ref)
    \<and> (\<forall>i\<in>set (tx_inputs (ft_tx res)). \<exists>s. ti_locking i = Some s \<and> extract_ref_from_ft_script s = Ok ref)
    \<and> length (tx_outputs (ft_tx res)) = (if ft_sum sel = amount then 1 else 2)
    \<and> (\<forall>j<length sel. \<exists>s. ti_unlocking (tx_inputs (ft_tx res) ! j) = Some s
         \<and> template_sign ecm (Unlock_P2PKH key) (ft_tx res) j = Ok (s, ft_tx res))"
  using assms(2)
proof (rule build_transfer_shape)
  fix sel :: "ft_utxo list" and pkh trial raw
  let ?tv = "sum_list (map fu_value sel) - ft_fee res - (if ft_change_script res \<noteq> None then dust else 0)"
  assume sel: "ft_select st amount = Ok sel" and new: "build_ft_locking_script new (fs_ref st) = Ok (ft_new_script res)"
    and ch: "ft_change_script res = None \<longleftrightarrow> ft_sum sel = amount"
    and cs: "\<And>s. ft_change_script res = Some s \<Longrightarrow> build_ft_locking_script pkh (fs_ref st) = Ok s"
    and dust: "dust \<le> ?tv" and fin: "ft_signed ecm key sel (ft_outputs (ft_new_script res) (ft_change_script res) ?tv dust) = Ok (ft_tx res)"
  note st = ft_set_amounts [OF assms(1)]
  note part = select_part [OF sel]
  from part st have wf: "wf_ref ref" using utxo_check_ref by (metis list.set_intros(1) neq_Nil_conv subsetD)
  note v = ft_signed_values [OF fin]
  have outs: "\<forall>out\<in>set (tx_outputs (ft_tx res)). extract_ref_from_ft_script (to_script out) = Ok ref"
    using st build_ft_extract(2) [OF new] build_ft_extract(2) [OF cs] wf by (auto simp: v(2) ft_outputs_def split: option.splits)
  have "\<exists>s. ti_locking i = Some s \<and> extract_ref_from_ft_script s = Ok ref" if i: "i \<in> set (tx_inputs (ft_tx res))" for i
  proof -
    from i have "(ti_txid i, ti_vout i, ti_locking i) \<in> set (map (\<lambda>u. (Some (fu_txid u), fu_vout u, Some (fu_script u))) sel)"
      unfolding v(3) [symmetric] by simp
    then obtain u where "u \<in> set sel" "ti_locking i = Some (fu_script u)" by auto
    with part(1) st utxo_check_ref show ?thesis by blast
  qed
  moreover have "map (\<lambda>i. (ti_txid i, ti_vout i)) (tx_inputs (ft_tx res)) = map (\<lambda>u. (Some (fu_txid u), fu_vout u)) sel"
    using arg_cong [OF v(3), of "map (\<lambda>(a, b, c). (a, b))"] by (simp add: comp_def)
  moreover have "total_value_out (ft_tx res) = Ok (sum_list (map fu_value sel) - ft_fee res)"
    by (cases "ft_change_script res") (simp_all add: v(2) total_value_out_def ft_outputs_def satoshis_of_def)
  moreover have "\<forall>out\<in>set (tx_outputs (ft_tx res)). \<exists>v. to_satoshis out = Some v \<and> dust \<le> v"
    using dust by (auto simp: v(2) ft_outputs_def split: option.splits)
  moreover have "length (tx_outputs (ft_tx res)) = (if ft_sum sel = amount then 1 else 2)"
    using ch by (cases "ft_change_script res") (simp_all add: v(2) ft_outputs_def)
  moreover have "\<forall>j<length sel. \<exists>s. ti_unlocking (tx_inputs (ft_tx res) ! j) = Some s
      \<and> template_sign ecm (Unlock_P2PKH key) (ft_tx res) j = Ok (s, ft_tx res)"
    using fin by (rule ft_signed_shape)
  ultimately show ?thesis using sel v(1) outs by blast
qed

text \<open>The amount does not reach the transaction. For two amounts that select the same UTXOs and both leave
  change, \<open>build_transfer_tx\<close> returns the same transfer: the recipient's output gets all photons but the fee
  and one dust limit, whatever amount was asked for.\<close>

theorem transfer_ignores_amount:
  assumes "build_transfer_tx ecm h st a new key rate cp dust = Ok res" and "ft_select st a = Ok sel" and "a < ft_sum sel"
    and "ft_select st b = Ok sel" and "0 < b" and "b < ft_sum sel"
  shows "build_transfer_tx ecm h st b new key rate cp dust = Ok res
    \<and> to_satoshis (hd (tx_outputs (ft_tx res))) = Some (sum_list (map fu_value sel) - ft_fee res - dust)
    \<and> map to_satoshis (tl (tx_outputs (ft_tx res))) = [Some dust]"
proof
  from assms(1) have "\<not> a \<le> 0" "\<not> rate \<le> 0" "\<not> dust < 1" by (auto simp: build_transfer_tx_def split: if_splits)
  then have "build_transfer_tx ecm h st b new key rate cp dust = build_transfer_tx ecm h st a new key rate cp dust"
    using assms(2-) by (simp add: build_transfer_tx_def)
  with assms(1) show "build_transfer_tx ecm h st b new key rate cp dust = Ok res" by simp
  from assms(1) show "to_satoshis (hd (tx_outputs (ft_tx res))) = Some (sum_list (map fu_value sel) - ft_fee res - dust)
    \<and> map to_satoshis (tl (tx_outputs (ft_tx res))) = [Some dust]"
  proof (rule build_transfer_shape)
    fix sel' :: "ft_utxo list" and pkh trial raw
    let ?tv = "sum_list (map fu_value sel') - ft_fee res - (if ft_change_script res \<noteq> None then dust else 0)"
    assume s: "ft_select st a = Ok sel'" and ch: "ft_change_script res = None \<longleftrightarrow> ft_sum sel' = a"
      and fin: "ft_signed ecm key sel' (ft_outputs (ft_new_script res) (ft_change_script res) ?tv dust) = Ok (ft_tx res)"
    from s assms(2) have "sel' = sel" by simp
    with ch assms(3) obtain c where "ft_change_script res = Some c" by auto
    with \<open>sel' = sel\<close> ft_signed_values(2) [OF fin] show ?thesis by (simp add: ft_outputs_def)
  qed
qed

section \<open>Transfers that can be built are built\<close>

lemma map_r_ex: "\<forall>x\<in>set xs. \<exists>y. f x = Ok y \<Longrightarrow> \<exists>ys. map_r f xs = Ok ys"
  by (induction xs) auto

definition in_ready :: "tx_in \<Rightarrow> bool" where
  "in_ready i \<longleftrightarrow> is_ok (outpoint_bytes i) \<and> is_ok (seq_bytes i) \<and> is_ok (locking_bytes i) \<and> is_ok (value_bytes i) \<and> ti_sighash i = 0x41
     \<and> is_ok (in_serialize i)"

definition out_ready :: "tx_out \<Rightarrow> bool" where
  "out_ready out \<longleftrightarrow> is_ok (out_serialize out) \<and> is_ok (output_summary out)"

lemma preimage_ready:
  assumes "\<forall>i\<in>set ins. in_ready i" "\<forall>out\<in>set outs. out_ready out" "k < length ins"
  shows "\<exists>p. tx_preimage k ins outs 1 0 = Ok p"
proof -
  have i: "in_ready (ins ! k)" using assms by simp
  have ex: "\<exists>h. hash_all f xs = Ok h" if "\<forall>x\<in>set xs. is_ok (f x)" for f :: "'a \<Rightarrow> bytes result" and xs
    using map_r_ex [of xs f] that by (auto simp: hash_all_def is_ok_iff)
  have "\<exists>h. hash_all outpoint_bytes ins = Ok h" "\<exists>h. hash_all seq_bytes ins = Ok h" "\<exists>h. hash_all out_serialize outs = Ok h"
    using assms by (intro ex, simp add: in_ready_def out_ready_def)+
  moreover have "\<exists>h. compute_hash_output_hashes outs None = Ok h"
    using map_r_ex [of outs output_summary] assms(2) by (auto simp: compute_hash_output_hashes_def out_ready_def is_ok_iff)
  moreover have "\<exists>p. preimage (ins ! k) 1 0 a b c d = Ok p" for a b c d
    using i by (auto simp: preimage_def in_ready_def is_ok_iff seq_bytes_def to_bytes_le_def)
  moreover have "\<not> anyonecanpay (ti_sighash (ins ! k))" "\<not> is_single (ti_sighash (ins ! k))" "\<not> is_none (ti_sighash (ins ! k))"
    using i by (simp_all add: in_ready_def anyonecanpay_def is_single_def is_none_def)
  ultimately show ?thesis using assms(3) by (auto simp: tx_preimage_def Let_def)
qed

lemma in_ready_unlocking: "in_ready i \<Longrightarrow> length s < 2 ^ 64 \<Longrightarrow> in_ready (i\<lparr>ti_unlocking := Some s\<rparr>)"
  by (auto simp: in_ready_def outpoint_bytes_def txid_bytes_def seq_bytes_def locking_bytes_def value_bytes_def is_ok_iff
      in_serialize_def unlocking_bytes_def varint_Ok [THEN iffD2] bind_r_Ok_iff)

lemma sign_inputs_ready:
  assumes "good_key key" "\<forall>i\<in>set is. i < n"
  shows "length (tx_inputs tx) = n \<Longrightarrow> \<forall>i\<in>set (tx_inputs tx). in_ready i \<Longrightarrow> \<forall>out\<in>set (tx_outputs tx). out_ready out \<Longrightarrow>
    tx_ver tx = 1 \<Longrightarrow> tx_lock tx = 0 \<Longrightarrow> \<exists>tx'. sign_inputs ecm True (replicate n (Some (Unlock_P2PKH key))) is tx = Ok tx'
      \<and> (\<forall>i\<in>set (tx_inputs tx'). in_ready i)"
  using assms(2)
proof (induction "is" arbitrary: tx)
  case (Cons i "is")
  show ?case
  proof (cases "ti_unlocking (tx_inputs tx ! i)")
    case (Some u)
    with Cons show ?thesis by simp
  next
    case None
    have i: "i < n" "in_ready (tx_inputs tx ! i)" using Cons.prems by simp_all
    obtain p where "tx_preimage_of tx (int i) = Ok p"
      using preimage_ready [of "tx_inputs tx" "tx_outputs tx" i] Cons.prems by (auto simp: tx_preimage_of_def)
    moreover have k: "2 \<le> length (key_sign key p) + 1" "length (key_sign key p) + 1 \<le> 75" "2 \<le> length (key_public key)" "length (key_public key) \<le> 75"
    proof -
      have "key_sign key p \<noteq> []" "length (key_sign key p) \<le> 71" using assms(1) by (simp_all add: good_key_def)
      then show "2 \<le> length (key_sign key p) + 1" "length (key_sign key p) + 1 \<le> 75" by (simp_all add: Suc_le_eq)
      show "2 \<le> length (key_public key)" "length (key_public key) \<le> 75" using assms(1) by (simp_all add: good_key_def)
    qed
    moreover have "\<exists>s. push_sig (key_sign key p) (ti_sighash (tx_inputs tx ! i)) = Ok s \<and> length s \<le> 76"
      using i(2) k pushdata_plain [of "key_sign key p @ [0x41]"] by (simp add: in_ready_def push_sig_def to_bytes_le_def)
    ultimately obtain s where s: "template_sign ecm (Unlock_P2PKH key) tx i = Ok (s, tx)" and sl: "length s < 2 ^ 64"
      using pushdata_plain [of "key_public key"] by auto
    let ?tx1 = "set_input i (\<lambda>inp. inp\<lparr>ti_unlocking := Some s\<rparr>) tx"
    have "\<forall>j\<in>set (tx_inputs ?tx1). in_ready j"
      using Cons.prems(2) in_ready_unlocking [OF i(2) sl] by (auto simp: set_input_def dest!: set_update_subset_insert [THEN subsetD])
    then obtain tx' where "sign_inputs ecm True (replicate n (Some (Unlock_P2PKH key))) is ?tx1 = Ok tx'" "\<forall>i\<in>set (tx_inputs tx'). in_ready i"
      using Cons.IH [of ?tx1] Cons.prems by (auto simp: set_input_def)
    with s None i(1) show ?thesis by (auto simp del: template_sign.simps)
  qed
qed simp

text \<open>An unspent output as the network reports it.\<close>

definition utxo_ok :: "ft_utxo \<Rightarrow> bool" where
  "utxo_ok u \<longleftrightarrow> (\<exists>t. fu_txid u = hex t \<and> length t = 32) \<and> 0 \<le> fu_vout u \<and> fu_vout u < 2 ^ 32 \<and> fu_value u < 2 ^ 64"

lemma ft_input_ready:
  assumes "utxo_ok u" "utxo_check ref u = Ok ()"
  shows "\<exists>i. ft_input key u = Ok i \<and> in_ready i \<and> full_txid i \<and> is_ok (to_bytes_le (ti_vout i) 4)"
proof -
  have "\<exists>i. ft_input key u = Ok i" using assms(1)
    by (auto simp: ft_input_def utxo_ok_def TransactionInput_def py_index_def Let_def nth_append)
  then obtain i where i: "ft_input key u = Ok i" by blast
  note f = ft_input_Ok [OF i]
  have v: "0 \<le> fu_value u" "length (fu_script u) = 75"
    using assms(2) by (auto simp: utxo_check_def extract_ref_from_ft_script_def split: if_splits)
  from assms(1) obtain t where t: "fu_txid u = hex t" "length t = 32" by (auto simp: utxo_ok_def)
  have b: "txid_bytes i = Ok (rev t)" using f t by (simp add: txid_bytes_def)
  have w: "is_ok (to_bytes_le (ti_vout i) 4)" using f assms(1) by (simp add: to_bytes_le_def utxo_ok_def)
  have "in_ready i"
    using f v b w assms(1) by (auto simp: in_ready_def outpoint_bytes_def seq_bytes_def locking_bytes_def value_bytes_def
        TRANSACTION_SEQUENCE_def SIGHASH_ALL_FORKID_def to_bytes_le_def unsigned_to_varint_def utxo_ok_def is_ok_iff
        in_serialize_def unlocking_bytes_def)
  moreover have "full_txid i" using b t(2) by (simp add: full_txid_def)
  ultimately show ?thesis using i w by blast
qed

lemma ft_push_refs:
  assumes "build_ft_locking_script pkh r = Ok s" "wf_ref r"
  shows "\<exists>refs. get_push_refs s = Ok refs \<and> length refs < 2"
proof -
  from assms(1) obtain b where b: "ref_to_bytes r = Ok b" and "length pkh + length b = 56"
    and s: "s = [0x76, 0xA9, 0x14] @ pkh @ [0x88, 0xAC, 0xBD, 0xD0] @ b @ ft_epilogue" unfolding build_ft_Ok by blast
  then have "iter_input_refs s = Ok [(0xD0, b)]" using ft_refs [of pkh b] wf_ref_bytes [OF assms(2) b] by simp
  moreover from iter_input_refs_parse [OF this] obtain ts where ts: "list_all wf_tok ts" "s = enc_script ts" by blast
  ultimately have c: "concat (map refs_of ts) = [(0xD0, b)]" by (simp add: iter_input_refs_enc)
  then have "push_ref_walk s = Ok [b]" using push_ref_walk_enc [OF ts(1)] by (simp add: ts(2) is_pushref_def)
  then show ?thesis by (simp add: get_push_refs_def)
qed

lemma ft_out_ready:
  assumes "build_ft_locking_script pkh r = Ok s" "wf_ref r" "0 \<le> v" "v < 2 ^ 64"
  shows "out_ready \<lparr>to_satoshis = Some v, to_script = s, to_change = c\<rparr>"
  using assms ft_push_refs [OF assms(1,2)] build_ft_extract(3) [OF assms(1,2)]
  by (auto simp: out_ready_def out_serialize_def output_summary_def to_bytes_le_def unsigned_to_varint_def pack_u_def)

text \<open>The size of a transfer with \<open>n\<close> inputs and \<open>m\<close> outputs, from the lengths the templates announce.\<close>

definition transfer_size :: "priv_key \<Rightarrow> nat \<Rightarrow> nat \<Rightarrow> nat" where
  "transfer_size key n m = 9 + get_varint_size n + n * (41 + announced (Unlock_P2PKH key)) + 84 * m"

lemma ft_fee_size:
  assumes "list_all2 (\<lambda>u i. ft_input key u = Ok i) sel ins" "\<forall>out\<in>set outs. length (to_script out) = 75" "length outs < 253"
  shows "fee_model_size \<lparr>tx_inputs = ins, tx_outputs = outs, tx_ver = 1, tx_lock = 0\<rparr> = Ok (transfer_size key (length sel) (length outs))"
proof -
  let ?A = "announced (Unlock_P2PKH key)"
  have "map_r script_length ins = Ok (replicate (length sel) ?A)"
    using assms(1) by (induction rule: list_all2_induct) (auto simp: script_length_def dest!: ft_input_Ok)
  moreover have "get_varint_size ?A = 1" by (simp add: get_varint_size_def)
  moreover have "get_varint_size 75 = 1" "get_varint_size (length outs) = 1" using assms(3) by (simp_all add: get_varint_size_def)
  moreover have "sum_list (map (\<lambda>out. 8 + get_varint_size (length (to_script out)) + length (to_script out)) outs) = 84 * length outs"
    using assms(2) \<open>get_varint_size 75 = 1\<close> by (induction outs) simp_all
  moreover have "length ins = length sel" using list_all2_lengthD [OF assms(1)] by simp
  ultimately show ?thesis
    by (simp add: fee_model_size_def transfer_size_def sum_list_replicate del: announced.simps)
qed

lemma ft_signed_ready:
  assumes key: "good_key key" and us: "\<forall>u\<in>set sel. utxo_ok u \<and> utxo_check ref u = Ok ()" and n: "length sel < 2 ^ 64"
    and outs: "\<forall>out\<in>set outs. out_ready out \<and> length (to_script out) = 75" "length outs < 253"
  shows "\<exists>tx raw. ft_signed ecm key sel outs = Ok tx \<and> serialize tx = Ok raw \<and> length raw \<le> transfer_size key (length sel) (length outs)"
proof -
  have "\<exists>ins. map_r (ft_input key) sel = Ok ins" using us ft_input_ready [of _ ref key] by (intro map_r_ex) blast
  then obtain ins where ins: "map_r (ft_input key) sel = Ok ins" by blast
  let ?t0 = "\<lparr>tx_inputs = ins, tx_outputs = outs, tx_ver = 1, tx_lock = 0\<rparr>"
  have l2: "list_all2 (\<lambda>u i. ft_input key u = Ok i) sel ins" using ins by (simp add: map_r_Ok_iff)
  then have l: "length ins = length sel" using list_all2_lengthD by fastforce
  have rd: "in_ready i \<and> full_txid i \<and> is_ok (to_bytes_le (ti_vout i) 4)" if "i \<in> set ins" for i
  proof -
    from that obtain k where k: "k < length sel" "ins ! k = i" by (auto simp: in_set_conv_nth l)
    then have "ft_input key (sel ! k) = Ok i" using l2 by (auto simp: list_all2_conv_all_nth)
    moreover have "\<exists>i. ft_input key (sel ! k) = Ok i \<and> in_ready i \<and> full_txid i \<and> is_ok (to_bytes_le (ti_vout i) 4)"
      using us k(1) by (intro ft_input_ready [of _ ref]) simp_all
    ultimately show ?thesis by simp
  qed
  have ts: "map (\<lambda>_. Some (Unlock_P2PKH key)) sel = replicate (length ins) (Some (Unlock_P2PKH key))" by (simp add: l map_replicate_const)
  have "out_ready out \<Longrightarrow> to_satoshis out \<noteq> None" for out by (cases "to_satoshis out") (simp_all add: out_ready_def out_serialize_def)
  then have "\<forall>out\<in>set outs. to_satoshis out \<noteq> None" using outs(1) by blast
  moreover obtain tx where tx: "sign_inputs ecm True (replicate (length ins) (Some (Unlock_P2PKH key))) [0..<length ins] ?t0 = Ok tx"
    and ready: "\<forall>i\<in>set (tx_inputs tx). in_ready i"
    using sign_inputs_ready [where ecm = ecm, OF key, of "[0..<length ins]" "length ins" ?t0] rd outs(1) by auto
  ultimately have sg: "tx_sign ecm True (replicate (length ins) (Some (Unlock_P2PKH key))) ?t0 = Ok tx" by (simp add: tx_sign_def)
  then have ft: "ft_signed ecm key sel outs = Ok tx" by (simp add: ft_signed_def ins ts)
  have tl: "length (tx_inputs tx) = length sel" "tx_outputs tx = outs" "tx_ver tx = 1" "tx_lock tx = 0"
    using sign_inputs_inv [OF tx] same_core_length [of ?t0 tx] l by (auto simp: same_core_def)
  obtain ib where ib: "map_r in_serialize (tx_inputs tx) = Ok ib" using map_r_ex [of "tx_inputs tx" in_serialize] ready by (auto simp: in_ready_def is_ok_iff)
  obtain os where os: "map_r out_serialize outs = Ok os" using map_r_ex [of outs out_serialize] outs(1) by (auto simp: out_ready_def is_ok_iff)
  from ib os tl n outs(2) obtain raw where raw: "serialize tx = Ok raw"
    by (auto simp: serialize_def to_bytes_le_def varint_Ok [THEN iffD2])
  have "length raw \<le> transfer_size key (length sel) (length outs)"
  proof (rule signed_size_bound [OF sg raw])
    show "fee_model_size ?t0 = Ok (transfer_size key (length sel) (length outs))" using l2 outs by (intro ft_fee_size) auto
    show "\<forall>i\<in>set (tx_inputs ?t0). full_txid i" using rd by simp
    show "\<forall>i<length (tx_inputs ?t0). \<forall>t. replicate (length ins) (Some (Unlock_P2PKH key)) ! i = Some t \<longrightarrow>
        template_ok t \<and> ti_template (tx_inputs ?t0 ! i) = Some (announced t)"
      using key l2 l by (auto simp: list_all2_conv_all_nth dest!: ft_input_Ok simp del: announced.simps)
  qed
  with ft raw show ?thesis by blast
qed

lemma build_ft_total: "length pkh = 20 \<Longrightarrow> wf_ref r \<Longrightarrow> \<exists>s. build_ft_locking_script pkh r = Ok s"
  using ref_to_bytes_wf [of r] by (fastforce simp: build_ft_Ok)

lemma ft_outputs_ready:
  assumes "build_ft_locking_script p r = Ok s" "\<And>c. cs = Some c \<Longrightarrow> build_ft_locking_script q r = Ok c" "wf_ref r"
    "0 \<le> v" "v < 2 ^ 64" "0 \<le> w" "w < 2 ^ 64"
  shows "\<forall>out\<in>set (ft_outputs s cs v w). out_ready out \<and> length (to_script out) = 75"
    "length (ft_outputs s cs v w) \<le> 2"
  using assms ft_out_ready [OF assms(1,3-5)] ft_out_ready [OF assms(2) assms(3,6,7)] build_ft_extract(3)
  by (cases cs; simp add: ft_outputs_def)+

lemma transfer_total:
  assumes "FtUtxoSet ref utxos = Ok st" and "\<forall>u\<in>set utxos. utxo_ok u" and "ft_select st amount = Ok sel" and "length sel < 2 ^ 64"
    and "0 < rate" and "1 \<le> dust" and "good_key key" and "length new = 20"
    and "length (case cp of None \<Rightarrow> h (key_public key) | Some p \<Rightarrow> p) = 20"
    and "rate * int (transfer_size key (length sel) 2) + 2 * dust \<le> sum_list (map fu_value sel)" and "sum_list (map fu_value sel) < 2 ^ 64"
  shows "\<exists>res. build_transfer_tx ecm h st amount new key rate cp dust = Ok res \<and> ft_fee res \<le> rate * int (transfer_size key (length sel) 2)"
proof -
  let ?S = "sum_list (map fu_value sel)" and ?pkh = "case cp of None \<Rightarrow> h (key_public key) | Some p \<Rightarrow> p"
  note st = ft_set_amounts [OF assms(1)] and part = select_part [OF assms(3)]
  have us: "\<forall>u\<in>set sel. utxo_ok u \<and> utxo_check ref u = Ok ()" using part st assms(2) by blast
  have wf: "wf_ref (fs_ref st)" using us part(2) st utxo_check_ref by (cases sel) auto
  have am: "0 < amount" "amount \<le> ft_sum sel"
  proof -
    show "0 < amount" using assms(3) by (auto simp: ft_select_def split: if_splits)
    let ?xs = "sort_key (\<lambda>u. (- fu_amount u, - fu_value u)) (fs_utxos st)"
    have sel: "sel = take_until amount 0 ?xs" "amount \<le> ft_total st" using assms(3) by (auto simp: ft_select_def split: if_splits)
    have "ft_sum ?xs = ft_total st" by (simp add: ft_total_def ft_sum_def flip: sum_mset_sum_list)
    moreover have "?xs \<noteq> []" using part(2) unfolding sel(1) by (cases ?xs) auto
    ultimately show "amount \<le> ft_sum sel" using take_until_covers [of amount 0 ?xs] sel by simp
  qed
  obtain ns where ns: "build_ft_locking_script new (fs_ref st) = Ok ns" using build_ft_total [OF assms(8) wf] by blast
  obtain c where c: "build_ft_locking_script ?pkh (fs_ref st) = Ok c" using build_ft_total [OF assms(9) wf] by blast
  define cs where "cs = (if ft_sum sel - amount > 0 then Some c else None)"
  have cs: "build_ft_locking_script ?pkh (fs_ref st) = Ok x" if "cs = Some x" for x using that c by (simp add: cs_def split: if_splits)
  have big: "0 \<le> rate * int (transfer_size key (length sel) 2)" using assms(5) by simp
  have dust: "0 \<le> dust" "dust < 2 ^ 64" using assms(6,10,11) big by linarith+
  have signed: "\<exists>tx raw. ft_signed ecm key sel (ft_outputs ns cs v dust) = Ok tx \<and> serialize tx = Ok raw \<and> length raw \<le> transfer_size key (length sel) 2"
    if "0 \<le> v" "v < 2 ^ 64" for v
  proof -
    note o = ft_outputs_ready [where cs = cs, OF ns cs wf that dust]
    have "\<exists>tx raw. ft_signed ecm key sel (ft_outputs ns cs v dust) = Ok tx \<and> serialize tx = Ok raw
        \<and> length raw \<le> transfer_size key (length sel) (length (ft_outputs ns cs v dust))"
      using o by (intro ft_signed_ready [OF assms(7) us assms(4)]) auto
    moreover have "transfer_size key (length sel) (length (ft_outputs ns cs v dust)) \<le> transfer_size key (length sel) 2"
      using o(2) by (simp add: transfer_size_def)
    ultimately show ?thesis by (meson le_trans)
  qed
  obtain trial raw where t: "ft_signed ecm key sel (ft_outputs ns cs dust dust) = Ok trial" "serialize trial = Ok raw"
    "length raw \<le> transfer_size key (length sel) 2" using signed [OF dust] by blast
  let ?fee = "int (length raw) * rate" and ?ca = "if cs \<noteq> None then dust else 0"
  have fee: "0 \<le> ?fee" "?fee \<le> rate * int (transfer_size key (length sel) 2)"
    using t(3) assms(5) by (simp_all add: mult.commute mult_left_mono)
  have tv: "dust \<le> ?S - ?fee - ?ca" "?S - ?fee - ?ca < 2 ^ 64" using fee assms(10,11) dust by (simp_all split: if_splits)
  then obtain fin where f: "ft_signed ecm key sel (ft_outputs ns cs (?S - ?fee - ?ca) dust) = Ok fin" using signed [of "?S - ?fee - ?ca"] dust by force
  have hx: "Hex20 (PyBytes ?pkh) = Ok ?pkh" using assms(9) by simp
  have br: "(if ft_sum sel - amount > 0 then bind_r (build_ft_locking_script ?pkh (fs_ref st)) (\<lambda>s. Ok (Some s)) else Ok None) = Ok cs"
    by (simp add: cs_def c)
  have "build_transfer_tx ecm h st amount new key rate cp dust
      = Ok \<lparr>ft_tx = fin, ft_new_script = ns, ft_change_script = cs, ft_fee = ?fee\<rparr>"
    unfolding build_transfer_tx_def Let_def
    using am assms(3,5,6) hx ns br t f tv(1) by (simp only: bind_r.simps not_le not_less if_False simp_thms) simp
  with fee(2) show ?thesis by simp
qed

text \<open>C14: A transfer that is affordable is built. For UTXOs as the network reports them, positive parameters, owners
  of 20 bytes and keys that sign as \<open>libsecp256k1\<close> does, \<open>build_transfer_tx\<close> returns as soon as the photons of the
  selected UTXOs cover two dust limits and the fee for the largest transaction the
  templates announce; and the fee is never above that.\<close>

theorem transfer_succeeds:
  assumes "FtUtxoSet ref utxos = Ok st" and "\<forall>u\<in>set utxos. utxo_ok u" and "ft_select st amount = Ok sel" and "length sel < 2 ^ 64"
    and "0 < rate" and "1 \<le> dust" and "good_key key" and "length new = 20"
    and "length (case cp of None \<Rightarrow> h (key_public key) | Some p \<Rightarrow> p) = 20"
    and "rate * int (transfer_size key (length sel) 2) + 2 * dust \<le> sum_list (map fu_value sel)" and "sum_list (map fu_value sel) < 2 ^ 64"
  shows "\<exists>res. build_transfer_tx ecm h st amount new key rate cp dust = Ok res \<and> ft_fee res \<le> rate * int (transfer_size key (length sel) 2)"
  using assms by (rule transfer_total)

section \<open>An example\<close>

text \<open>One UTXO with a thousand million photons, which is as many units.\<close>

definition sample_ref_bytes :: bytes where
  "sample_ref_bytes = replicate 32 0xAB @ le_bytes 4 7"

definition sample_utxo :: ft_utxo where
  "sample_utxo = \<lparr>fu_txid = hex (replicate 32 3), fu_vout = 2, fu_value = 1000000000, fu_amount = 1000000000,
     fu_script = [0x76, 0xA9, 0x14] @ replicate 20 1 @ [0x88, 0xAC, 0xBD, 0xD0] @ sample_ref_bytes @ ft_epilogue\<rparr>"

definition sample_set :: ft_set where
  "sample_set = \<lparr>fs_ref = sample_ref, fs_utxos = [sample_utxo]\<rparr>"

lemma sample_set_Ok: "FtUtxoSet sample_ref [sample_utxo] = Ok sample_set"
proof -
  have r: "ref_to_bytes sample_ref = Ok sample_ref_bytes"
    by (simp add: ref_to_bytes_def sample_ref_def sample_ref_bytes_def pack_u_def del: replicate.simps)
  have l: "length sample_ref_bytes = 36" by (simp add: sample_ref_bytes_def)
  note e = ft_extract [of "replicate 20 1" sample_ref_bytes "fu_script sample_utxo"]
  have "fullmatch FT_SCRIPT_RE (hex (fu_script sample_utxo))"
    unfolding ft_script_layout by (rule exI [of _ "replicate 20 1"], rule exI [of _ sample_ref_bytes]) (simp add: sample_utxo_def l)
  then have "is_ft_script (hex (fu_script sample_utxo))" by (simp add: is_ft_script_def str_lower_hex)
  moreover have "extract_ref_from_ft_script (fu_script sample_utxo) = Ok sample_ref"
    using e ref_roundtrip [OF wf_sample_ref r] by (simp add: l sample_utxo_def)
  moreover have "fu_amount sample_utxo = 1000000000" "fu_value sample_utxo = 1000000000" by (simp_all add: sample_utxo_def)
  ultimately have "utxo_check sample_ref sample_utxo = Ok ()" unfolding utxo_check_def by simp
  then show ?thesis by (simp add: FtUtxoSet_def sample_set_def)
qed

lemma sample_select: "0 < a \<Longrightarrow> a \<le> 1000000000 \<Longrightarrow> ft_select sample_set a = Ok [sample_utxo]"
  by (simp add: ft_select_def sample_set_def ft_total_def ft_sum_def sample_utxo_def)

lemma sample_key_good: "good_key sample_key"
  by (simp add: good_key_def sample_key_def)

lemma sample_affordable:
  "10000 * int (transfer_size sample_key (length [sample_utxo]) 2) + 2 * 546 \<le> sum_list (map fu_value [sample_utxo])"
  "sum_list (map fu_value [sample_utxo]) < 2 ^ 64" "utxo_ok sample_utxo"
  by (auto simp: transfer_size_def get_varint_size_def sample_key_def sample_utxo_def utxo_ok_def intro: exI [of _ "replicate 32 3"])

abbreviation sample_transfer :: "int \<Rightarrow> ft_transfer result" where
  "sample_transfer a \<equiv> build_transfer_tx (\<lambda>_ P. P) (\<lambda>_. replicate 20 9) sample_set a (replicate 20 5) sample_key 10000 None 546"

theorem transfer_succeeds_witness: "\<exists>res. sample_transfer 1000 = Ok res \<and> ft_fee res \<le> 3260000"
proof -
  have "10000 * int (transfer_size sample_key (length [sample_utxo]) 2) = 3260000" by (simp add: transfer_size_def get_varint_size_def sample_key_def)
  with transfer_succeeds [OF sample_set_Ok _ sample_select [of 1000], of 10000 546 sample_key "replicate 20 5" "\<lambda>_. replicate 20 9" None "\<lambda>_ P. P"]
    sample_affordable sample_key_good show ?thesis by simp
qed

lemma sample_transfer_Ok: "0 < a \<Longrightarrow> a \<le> 1000000000 \<Longrightarrow> \<exists>res. sample_transfer a = Ok res \<and> ft_fee res \<le> 10000 * int (transfer_size sample_key 1 2)"
  using transfer_total [OF sample_set_Ok _ sample_select [of a], of 10000 546 sample_key "replicate 20 5" "\<lambda>_. replicate 20 9" None "\<lambda>_ P. P"]
    sample_affordable sample_key_good by simp

theorem transfer_conserves_witness:
  "\<exists>res. sample_transfer 1000 = Ok res \<and> total_value_out (ft_tx res) = Ok (1000000000 - ft_fee res)"
proof -
  obtain res where r: "sample_transfer 1000 = Ok res" using sample_transfer_Ok [of 1000] by auto
  from transfer_conserves [OF sample_set_Ok r] r sample_select [of 1000] show ?thesis by (auto simp: sample_utxo_def)
qed

text \<open>One unit is asked for, and more than 990 million are sent.\<close>

theorem transfer_ignores_amount_witness:
  "\<exists>res v. sample_transfer 1 = Ok res \<and> sample_transfer 999999999 = Ok res
     \<and> to_satoshis (hd (tx_outputs (ft_tx res))) = Some v \<and> 990000000 < v"
proof -
  obtain res where r: "sample_transfer 1 = Ok res" "ft_fee res \<le> 10000 * int (transfer_size sample_key 1 2)" using sample_transfer_Ok [of 1] by auto
  have s: "ft_sum [sample_utxo] = 1000000000" "sum_list (map fu_value [sample_utxo]) = 1000000000" by (simp_all add: ft_sum_def sample_utxo_def)
  have "int (transfer_size sample_key 1 2) = 326" by (simp add: transfer_size_def get_varint_size_def sample_key_def)
  with transfer_ignores_amount [OF r(1) sample_select [of 1], of 999999999] sample_select [of 999999999] r s show ?thesis by simp
qed

theorem select_minimal_witness:
  "\<exists>sel. ft_select sample_set 1000 = Ok sel \<and> 1000 \<le> ft_sum sel"
  using select_minimal [OF sample_set_Ok, of 1000] sample_select [of 1000] by (auto simp: sample_set_def ft_total_def ft_sum_def sample_utxo_def)

end
