(* ===== verification/Dmint_Script.thy ===== *)
theory Dmint_Script
  imports Glyph_Script
begin

text \<open>
  Contracts of decentralised mints: the types of \<open>pyrxd/glyph/dmint/types.py\<close>, the script builders of
  \<open>builders.py\<close> and the state parser of \<open>chain.py\<close>. Both generations of contracts, all five ways of adjusting the
  difficulty. The bytecode is what the builders emit; its execution by the network is not part of the sources.
\<close>

section \<open>Types\<close>

datatype dmint_algo = SHA256D | BLAKE3 | K12

datatype daa_mode = FIXED | EPOCH | ASERT | LWMA | SCHEDULE

fun algo_id :: "dmint_algo \<Rightarrow> int" where
  "algo_id SHA256D = 0"
| "algo_id BLAKE3 = 1"
| "algo_id K12 = 2"

fun daa_id :: "daa_mode \<Rightarrow> int" where
  "daa_id FIXED = 0"
| "daa_id EPOCH = 1"
| "daa_id ASERT = 2"
| "daa_id LWMA = 3"
| "daa_id SCHEDULE = 4"

definition DmintAlgo :: "int \<Rightarrow> dmint_algo result" where
  "DmintAlgo n = (if n = 0 then Ok SHA256D else if n = 1 then Ok BLAKE3 else if n = 2 then Ok K12 else Err ValueError)"

definition DaaMode :: "int \<Rightarrow> daa_mode result" where
  "DaaMode n =
     (if n = 0 then Ok FIXED else if n = 1 then Ok EPOCH else if n = 2 then Ok ASERT else if n = 3 then Ok LWMA
      else if n = 4 then Ok SCHEDULE else Err ValueError)"

definition MAX_SHA256D_TARGET :: int where "MAX_SHA256D_TARGET = 0x7FFFFFFFFFFFFFFF"
definition MAX_V2_TARGET_256 :: int where "MAX_V2_TARGET_256 = 2 ^ 256 - 1"
definition EPOCH_MAX_SAFE_TARGET :: int where "EPOCH_MAX_SAFE_TARGET = 2 ^ 48"
definition SCHEDULE_MAX_ENTRIES :: nat where "SCHEDULE_MAX_ENTRIES = 10"
definition ASERT_V2_RADIX :: int where "ASERT_V2_RADIX = 2 ^ 16"
definition ASERT_V2_DRIFT_CLAMP :: int where "ASERT_V2_DRIFT_CLAMP = ASERT_V2_RADIX div 4"
definition ASERT_V2_MAX_TARGET_DIV4 :: int where "ASERT_V2_MAX_TARGET_DIV4 = MAX_SHA256D_TARGET div 4"

record deploy_params =
  dp_contract_ref :: glyph_ref
  dp_token_ref :: glyph_ref
  dp_max_height :: int
  dp_reward :: int
  dp_difficulty :: int
  dp_algo :: dmint_algo
  dp_daa :: daa_mode
  dp_target_time :: int
  dp_half_life :: int
  dp_height :: int
  dp_last_time :: int
  dp_epoch_length :: int
  dp_max_adjustment_log2 :: int
  dp_schedule :: "(int \<times> int) list"

definition initial_target :: "deploy_params \<Rightarrow> int" where
  "initial_target p = (if dp_algo p = SHA256D then MAX_SHA256D_TARGET div dp_difficulty p else MAX_V2_TARGET_256 div dp_difficulty p)"

fun schedule_ok :: "int \<Rightarrow> (int \<times> int) list \<Rightarrow> bool" where
  "schedule_ok prev [] \<longleftrightarrow> True"
| "schedule_ok prev ((h, t) # es) \<longleftrightarrow> \<not> h < 0 \<and> \<not> h \<le> prev \<and> 1 \<le> t \<and> t \<le> MAX_SHA256D_TARGET \<and> schedule_ok h es"

definition DmintDeployParams :: "deploy_params \<Rightarrow> deploy_params result" where
  "DmintDeployParams p =
     (if dp_max_height p < 1 then Err ValidationError
      else if dp_reward p < 1 then Err ValidationError
      else if dp_difficulty p < 1 then Err ValidationError
      else if dp_target_time p < 1 then Err ValidationError
      else if dp_half_life p < 1 then Err ValidationError
      else if dp_height p < 0 then Err ValidationError
      else if dp_last_time p < 0 then Err ValidationError
      else if dp_daa p = EPOCH \<and> dp_epoch_length p < 1 then Err ValidationError
      else if dp_daa p = EPOCH \<and> dp_max_adjustment_log2 p \<notin> {1, 2, 3, 4} then Err ValidationError
      else if dp_daa p = EPOCH \<and> initial_target p > EPOCH_MAX_SAFE_TARGET then Err ValidationError
      else if dp_daa p = SCHEDULE \<and> dp_schedule p = [] then Err ValidationError
      else if dp_daa p = SCHEDULE \<and> length (dp_schedule p) > SCHEDULE_MAX_ENTRIES then Err ValidationError
      else if dp_daa p = SCHEDULE \<and> \<not> schedule_ok (- 1) (dp_schedule p) then Err ValidationError
      else Ok p)"

section \<open>Pushes\<close>

fun le_loop :: "nat \<Rightarrow> bytes" where
  "le_loop n = (if n = 0 then [] else word_of_nat (n mod 256) # le_loop (n div 256))"

declare le_loop.simps [simp del]

definition signed_le :: "int \<Rightarrow> bytes" where
  "signed_le n =
     (let res = le_loop (nat \<bar>n\<bar>) in
      if last res AND 0x80 \<noteq> 0 then res @ [if n < 0 then 0x80 else 0x00]
      else if n < 0 then butlast res @ [last res OR 0x80]
      else res)"

definition push_minimal :: "int \<Rightarrow> bytes result" where
  "push_minimal n =
     (if n = 0 then Ok [0x00]
      else if n = - 1 then Ok [0x4F]
      else if 1 \<le> n \<and> n \<le> 16 then Ok [word_of_int (0x50 + n)]
      else
        let payload = signed_le n; l = length payload in
        if l < 0x4C then Ok (word_of_nat l # payload)
        else if l \<le> 0xFF then Ok (0x4C # word_of_nat l # payload)
        else Err ValidationError)"

definition push_4bytes_le :: "int \<Rightarrow> bytes result" where
  "push_4bytes_le n = bind_r (pack_u 4 n) (\<lambda>b. Ok (0x04 # b))"

definition encode_data_push :: "bytes \<Rightarrow> bytes result" where
  "encode_data_push data =
     (let n = length data in
      if n < 0x4C then Ok (word_of_nat n # data)
      else if n \<le> 0xFF then Ok (0x4C # word_of_nat n # data)
      else if n \<le> 0xFFFF then bind_r (pack_u 2 (int n)) (\<lambda>l. Ok (0x4D # l @ data))
      else bind_r (pack_u 4 (int n)) (\<lambda>l. Ok (0x4E # l @ data)))"

section \<open>Bytecode\<close>

definition PART_A :: bytes where
  "PART_A =
     [0xC0, 0xC8, 0x59, 0x79, 0x7E, 0xA8, 0x5D, 0x79, 0x5D, 0x79, 0x7E, 0xA8, 0x7E, 0x5E, 0x7A, 0x7E]"

definition PART_B1 :: bytes where
  "PART_B1 =
     [0xBC, 0x01, 0x14, 0x7F, 0x77, 0x58, 0x7F, 0x04, 0x00, 0x00, 0x00, 0x00, 0x88, 0x81, 0x76, 0x00, 0xA2, 0x69]"

definition PART_B2 :: bytes where
  "PART_B2 =
     [0x51, 0x79, 0x7C, 0xA2, 0x69]"

definition PART_B4 :: bytes where
  "PART_B4 =
     [0x6B, 0x75, 0x75, 0x75, 0x75]"

definition PUSH_MAX_TARGET :: bytes where
  "PUSH_MAX_TARGET =
     [0x08, 0xFF, 0xFF, 0xFF, 0xFF, 0xFF, 0xFF, 0xFF, 0x7F]"

definition PUSH_HALF_MAX_TARGET :: bytes where
  "PUSH_HALF_MAX_TARGET =
     [0x08, 0xFF, 0xFF, 0xFF, 0xFF, 0xFF, 0xFF, 0xFF, 0x3F]"

definition PUSH_QUARTER_MAX_TARGET :: bytes where
  "PUSH_QUARTER_MAX_TARGET =
     [0x08, 0xFF, 0xFF, 0xFF, 0xFF, 0xFF, 0xFF, 0xFF, 0x1F]"

definition PUSH_EPOCH_MAX_SAFE_TARGET :: bytes where
  "PUSH_EPOCH_MAX_SAFE_TARGET =
     [0x07, 0x00, 0x00, 0x00, 0x00, 0x00, 0x00, 0x01]"

fun POW_HASH_OP :: "dmint_algo \<Rightarrow> byte" where
  "POW_HASH_OP SHA256D = 0xAA"
| "POW_HASH_OP BLAKE3 = 0xEE"
| "POW_HASH_OP K12 = 0xEF"

definition ASERT_2MUL_STEP :: bytes where
  "ASERT_2MUL_STEP =
     [0x76, 0x00, 0xA0, 0x63, 0x8C, 0x7C, 0x76] @ PUSH_HALF_MAX_TARGET @ [0xA0, 0x63, 0x75] @ PUSH_MAX_TARGET
     @ [0x67, 0x8D, 0x68, 0x7C, 0x68]"

definition ASERT_2DIV_STEP :: bytes where
  "ASERT_2DIV_STEP =
     [0x76, 0x00, 0xA0, 0x63, 0x8C, 0x7C, 0x8E, 0x7C, 0x68]"

definition build_asert_daa_legacy :: "int \<Rightarrow> bytes result" where
  "build_asert_daa_legacy half_life =
     bind_r (push_minimal half_life) (\<lambda>hl.
       Ok ([0xC5, 0x52, 0x79, 0x94, 0x53, 0x79, 0x94] @ hl @ [0x96]
           @ [0x76, 0x54, 0xA0, 0x63, 0x75, 0x54, 0x68, 0x76, 0x54, 0x8F, 0x9F, 0x63, 0x75, 0x54, 0x8F, 0x68]
           @ [0x76, 0x00, 0xA0, 0x63] @ concat (replicate 4 ASERT_2MUL_STEP) @ [0x75, 0x67, 0x76, 0x00, 0x9F, 0x63, 0x8F]
           @ concat (replicate 4 ASERT_2DIV_STEP) @ [0x75, 0x67, 0x75, 0x68, 0x68]
           @ [0x76, 0x51, 0x9F, 0x63, 0x75, 0x51, 0x68]))"

definition ASERT_V2_SIGNATURE :: bytes where
  "ASERT_V2_SIGNATURE = [0x03, 0x00, 0x00, 0x01, 0x95]"

definition build_asert_daa_v2 :: "int \<Rightarrow> bytes result" where
  "build_asert_daa_v2 half_life =
     (if half_life < 1 then Err ValidationError
      else
        bind_r (push_minimal half_life) (\<lambda>hl.
        bind_r (push_minimal ASERT_V2_RADIX) (\<lambda>radix.
        bind_r (push_minimal ASERT_V2_DRIFT_CLAMP) (\<lambda>clamp.
        bind_r (push_minimal (- ASERT_V2_DRIFT_CLAMP)) (\<lambda>neg_clamp.
          Ok ([0xC5, 0x52, 0x79, 0x94, 0x53, 0x79, 0x94] @ radix @ [0x95] @ hl @ [0x96] @ clamp @ [0xA3] @ neg_clamp @ [0xA4, 0x7C]
              @ PUSH_QUARTER_MAX_TARGET @ [0xA3, 0x76] @ radix @ [0x96, 0x7B, 0x95, 0x93] @ PUSH_QUARTER_MAX_TARGET @ [0xA3]
              @ [0x76, 0x51, 0x9F, 0x63, 0x75, 0x51, 0x68]))))))"

text \<open>\<open>bytes.find\<close>: the first position at which the marker stands.\<close>

fun bytes_find :: "bytes \<Rightarrow> bytes \<Rightarrow> nat option" where
  "bytes_find marker [] = (if marker = [] then Some 0 else None)"
| "bytes_find marker (b # bs) =
     (if take (length marker) (b # bs) = marker then Some 0 else map_option Suc (bytes_find marker bs))"

definition asert_version_of_code :: "bytes \<Rightarrow> nat" where
  "asert_version_of_code code =
     (let marker = PART_B1 @ PART_B2 in
      case bytes_find marker code of
        None \<Rightarrow> 2
      | Some i \<Rightarrow> (let daa = i + length marker in if pyslice (daa + 7) (daa + 12) code = ASERT_V2_SIGNATURE then 2 else 1))"

definition build_linear_daa :: bytes where
  "build_linear_daa =
     [0xC5, 0x52, 0x79, 0x94, 0x53, 0x79, 0x54, 0x95, 0xA3, 0x00, 0xA4, 0x7C] @ PUSH_QUARTER_MAX_TARGET
     @ [0xA3, 0x53, 0x79, 0x96, 0x95] @ PUSH_MAX_TARGET @ [0xA3] @ [0x76, 0x51, 0x9F, 0x63, 0x75, 0x51, 0x68]"

definition build_epoch_daa :: "int \<Rightarrow> int \<Rightarrow> bytes result" where
  "build_epoch_daa epoch_length max_adjustment_log2 =
     (let lshift_n = replicate (nat max_adjustment_log2) 0x8D; rshift_n = replicate (nat max_adjustment_log2) 0x8E in
      bind_r (push_minimal epoch_length) (\<lambda>el.
        Ok ([0x59, 0x79, 0x76, 0x00, 0xA0, 0x7C] @ el @ [0x97, 0x00, 0x9C, 0x9A, 0x63, 0xC5, 0x52, 0x79, 0x94, 0x53, 0x79] @ lshift_n
            @ [0xA3, 0x53, 0x79] @ rshift_n @ [0xA4, 0x7C] @ PUSH_EPOCH_MAX_SAFE_TARGET @ [0xA3, 0x53, 0x79, 0x96, 0x95]
            @ PUSH_EPOCH_MAX_SAFE_TARGET @ [0xA3, 0x76, 0x51, 0x9F, 0x63, 0x75, 0x51, 0x68, 0x68])))"

fun schedule_loop :: "(int \<times> int) list \<Rightarrow> bytes \<Rightarrow> bytes result" where
  "schedule_loop [] body = Ok body"
| "schedule_loop ((h, t) # es) body =
     bind_r (push_minimal h) (\<lambda>ph.
     bind_r (push_minimal t) (\<lambda>pt.
       schedule_loop es ([0x59, 0x79] @ ph @ [0xA2, 0x63, 0x75] @ pt @ (if body \<noteq> [] then [0x67] else []) @ body @ [0x68])))"

definition build_schedule_daa :: "(int \<times> int) list \<Rightarrow> bytes result" where
  "build_schedule_daa schedule = schedule_loop schedule []"

definition build_part_b :: "daa_mode \<Rightarrow> int \<Rightarrow> int \<Rightarrow> int \<Rightarrow> (int \<times> int) list \<Rightarrow> nat \<Rightarrow> bytes result" where
  "build_part_b mode half_life epoch_length max_adjustment_log2 schedule asert_version =
     bind_r (case mode of
               FIXED \<Rightarrow> Ok []
             | ASERT \<Rightarrow> if asert_version \<ge> 2 then build_asert_daa_v2 half_life else build_asert_daa_legacy half_life
             | LWMA \<Rightarrow> Ok build_linear_daa
             | EPOCH \<Rightarrow> build_epoch_daa epoch_length max_adjustment_log2
             | SCHEDULE \<Rightarrow> build_schedule_daa schedule)
       (\<lambda>daa_bytes. Ok (PART_B1 @ PART_B2 @ daa_bytes @ PART_B4))"

definition MINIMAL_PUSH_BYTECODE :: bytes where
  "MINIMAL_PUSH_BYTECODE =
     [0x76, 0x00, 0x9C, 0x63, 0x75, 0x01, 0x00, 0x67, 0x76, 0x60, 0xA1, 0x63, 0x01, 0x50, 0x93, 0x51, 0x80, 0x67, 0x82, 0x7C,
      0x7E, 0x68, 0x68]"

definition build_part_c :: "bytes \<Rightarrow> bytes result" where
  "build_part_c middle_literal =
     bind_r (encode_data_push middle_literal) (\<lambda>mid_push.
       let prologue =
             [0x57, 0x7A, 0xE5, 0x00, 0xA0, 0x69, 0x56, 0x7A, 0xE6, 0x00, 0xA0, 0x69, 0x01, 0xD0, 0x53, 0x79, 0x7E, 0x0C, 0xDE, 0xC0,
              0xE9, 0xAA, 0x76, 0xE3, 0x78, 0xE4, 0xA2, 0x69, 0xE6, 0x9D, 0x7E, 0xAA, 0x76, 0xE4, 0x7B, 0x9D, 0x54,
              0x7A, 0x81, 0x8B, 0x76, 0x53, 0x7A, 0x9C, 0x53, 0x7A, 0xDE, 0x78, 0x91, 0x81, 0x54, 0x7A, 0xE6, 0x93,
              0x9D, 0x63];
           if_branch = [0x6C, 0x75, 0x52, 0x79, 0xCD, 0x01, 0xD8, 0x53, 0x79, 0x7E, 0x01, 0x6A, 0x7E, 0x88];
           else_branch = [0x78, 0xDE, 0x51, 0x9D, 0x76] @ MINIMAL_PUSH_BYTECODE @ mid_push @ [0x7E]
             @ [0xC5, 0x54, 0x80, 0x54, 0x7C, 0x7E, 0x7E, 0x6C] @ MINIMAL_PUSH_BYTECODE @ [0x7E]
             @ [0x53, 0x79, 0xEC, 0x78, 0x88, 0x53, 0x79, 0xEA, 0xC0, 0xE9, 0x88, 0x53, 0x79, 0xCC, 0x51, 0x9D, 0x75];
           epilogue = [0x68, 0x6D, 0x75, 0x51]
       in Ok (prologue @ if_branch @ [0x67] @ else_branch @ epilogue))"

section \<open>Contracts of the second generation\<close>

definition middle_literal :: "glyph_ref \<Rightarrow> glyph_ref \<Rightarrow> int \<Rightarrow> int \<Rightarrow> dmint_algo \<Rightarrow> daa_mode \<Rightarrow> int \<Rightarrow> bytes result" where
  "middle_literal contract_ref token_ref max_height reward algo mode target_time =
     bind_r (ref_to_bytes contract_ref) (\<lambda>c.
     bind_r (ref_to_bytes token_ref) (\<lambda>t.
     bind_r (push_minimal max_height) (\<lambda>m.
     bind_r (push_minimal reward) (\<lambda>r.
     bind_r (push_minimal (algo_id algo)) (\<lambda>a.
     bind_r (push_minimal (daa_id mode)) (\<lambda>d.
     bind_r (push_minimal target_time) (\<lambda>tt. Ok (0xD8 # c @ 0xD0 # t @ m @ r @ a @ d @ tt))))))))"

definition params_literal :: "deploy_params \<Rightarrow> bytes result" where
  "params_literal p =
     middle_literal (dp_contract_ref p) (dp_token_ref p) (dp_max_height p) (dp_reward p) (dp_algo p) (dp_daa p) (dp_target_time p)"

definition build_dmint_state_script :: "deploy_params \<Rightarrow> bytes result" where
  "build_dmint_state_script p =
     bind_r (push_minimal (dp_height p)) (\<lambda>h.
     bind_r (params_literal p) (\<lambda>m.
     bind_r (push_4bytes_le (dp_last_time p)) (\<lambda>l.
     bind_r (push_minimal (initial_target p)) (\<lambda>t. Ok (h @ m @ l @ t)))))"

definition build_dmint_code_script :: "deploy_params \<Rightarrow> bytes result" where
  "build_dmint_code_script p =
     bind_r (build_part_b (dp_daa p) (dp_half_life p) (dp_epoch_length p) (dp_max_adjustment_log2 p) (dp_schedule p) 2) (\<lambda>part_b.
     bind_r (params_literal p) (\<lambda>m.
     bind_r (build_part_c m) (\<lambda>part_c. Ok (PART_A @ [POW_HASH_OP (dp_algo p)] @ part_b @ part_c))))"

definition build_dmint_contract_script :: "deploy_params \<Rightarrow> bytes result" where
  "build_dmint_contract_script p =
     bind_r (build_dmint_state_script p) (\<lambda>state. bind_r (build_dmint_code_script p) (\<lambda>code. Ok (state @ [0xBD] @ code)))"

section \<open>Contracts of the first generation\<close>

definition V1_EPILOGUE_PREFIX :: bytes where
  "V1_EPILOGUE_PREFIX =
     [0xBD, 0x51, 0x75, 0xC0, 0xC8, 0x55, 0x79, 0x7E, 0xA8, 0x59, 0x79, 0x59, 0x79, 0x7E, 0xA8, 0x7E, 0x5A, 0x7A, 0x7E]"

definition V1_EPILOGUE_SUFFIX :: bytes where
  "V1_EPILOGUE_SUFFIX =
     [0xBC, 0x01, 0x14, 0x7F, 0x77, 0x58, 0x7F, 0x04, 0x00, 0x00, 0x00, 0x00, 0x88, 0x81, 0x76, 0x00, 0xA2, 0x69, 0xA2, 0x69,
      0x57, 0x7A, 0xE5, 0x00, 0xA0, 0x69, 0x56, 0x7A, 0xE6, 0x00, 0xA0, 0x69, 0x01, 0xD0, 0x53, 0x79, 0x7E, 0x0C, 0xDE, 0xC0,
      0xE9, 0xAA, 0x76, 0xE3, 0x78, 0xE4, 0xA2, 0x69, 0xE6, 0x9D, 0x7E, 0xAA, 0x76, 0xE4, 0x7B, 0x9D, 0x54, 0x7A, 0x81, 0x8B,
      0x76, 0x53, 0x7A, 0x9C, 0x53, 0x7A, 0xDE, 0x78, 0x91, 0x81, 0x54, 0x7A, 0xE6, 0x93, 0x9D, 0x63, 0x52, 0x79, 0xCD, 0x01,
      0xD8, 0x53, 0x79, 0x7E, 0x01, 0x6A, 0x7E, 0x88, 0x67, 0x78, 0xDE, 0x51, 0x9D, 0x54, 0x78, 0x54, 0x80, 0x7E, 0xC0, 0xEB,
      0x55, 0x7F, 0x77, 0x7E, 0x53, 0x79, 0xEC, 0x78, 0x88, 0x53, 0x79, 0xEA, 0xC0, 0xE9, 0x88, 0x53, 0x79, 0xCC, 0x51, 0x9D,
      0x75, 0x68, 0x6D, 0x75, 0x51]"

definition V1_EPILOGUE_LEN :: nat where
  "V1_EPILOGUE_LEN = length V1_EPILOGUE_PREFIX + 1 + length V1_EPILOGUE_SUFFIX"

definition V1_ALGO_BYTE_TO_ENUM :: "byte \<Rightarrow> dmint_algo option" where
  "V1_ALGO_BYTE_TO_ENUM b = (if b = 0xAA then Some SHA256D else if b = 0xEE then Some BLAKE3 else if b = 0xEF then Some K12 else None)"

definition build_dmint_v1_state_script :: "int \<Rightarrow> glyph_ref \<Rightarrow> glyph_ref \<Rightarrow> int \<Rightarrow> int \<Rightarrow> int \<Rightarrow> bytes result" where
  "build_dmint_v1_state_script height contract_ref token_ref max_height reward target =
     (if height < 0 then Err ValidationError
      else if max_height < 1 then Err ValidationError
      else if height \<ge> max_height then Err ValidationError
      else if reward < 1 then Err ValidationError
      else if \<not> (1 \<le> target \<and> target \<le> MAX_SHA256D_TARGET) then Err ValidationError
      else
        bind_r (push_4bytes_le height) (\<lambda>h.
        bind_r (ref_to_bytes contract_ref) (\<lambda>c.
        bind_r (ref_to_bytes token_ref) (\<lambda>t.
        bind_r (push_minimal max_height) (\<lambda>m.
        bind_r (push_minimal reward) (\<lambda>r.
        bind_r (pack_u 8 target) (\<lambda>g. Ok (h @ 0xD8 # c @ 0xD0 # t @ m @ r @ 0x08 # g))))))))"

definition build_dmint_v1_code_script :: "dmint_algo \<Rightarrow> bytes" where
  "build_dmint_v1_code_script algo = V1_EPILOGUE_PREFIX @ [POW_HASH_OP algo] @ V1_EPILOGUE_SUFFIX"

definition build_dmint_v1_ft_output_script :: "bytes \<Rightarrow> glyph_ref \<Rightarrow> bytes result" where
  "build_dmint_v1_ft_output_script miner_pkh token_ref =
     (if length miner_pkh \<noteq> 20 then Err ValidationError
      else bind_r (ref_to_bytes token_ref) (\<lambda>t.
        Ok (([0x76, 0xA9, 0x14] @ miner_pkh @ [0x88, 0xAC]) @ [0xBD] @ [0xD0] @ t
            @ [0xDE, 0xC0, 0xE9, 0xAA, 0x76, 0xE3, 0x78, 0xE4, 0xA2, 0x69, 0xE6, 0x9D])))"

definition build_dmint_v1_contract_script :: "int \<Rightarrow> glyph_ref \<Rightarrow> glyph_ref \<Rightarrow> int \<Rightarrow> int \<Rightarrow> int \<Rightarrow> dmint_algo \<Rightarrow> bytes result" where
  "build_dmint_v1_contract_script height contract_ref token_ref max_height reward target algo =
     bind_r (build_dmint_v1_state_script height contract_ref token_ref max_height reward target) (\<lambda>state.
       Ok (state @ build_dmint_v1_code_script algo))"

section \<open>Parsing\<close>

definition decode_script_le_int :: "bytes \<Rightarrow> int" where
  "decode_script_le_int raw =
     (if raw = [] then 0
      else
        let res = int (le_val raw) in
        if last raw AND 0x80 \<noteq> 0 then - (res XOR (0x80 * 2 ^ (8 * (length raw - 1)))) else res)"

definition parse_script_int :: "bytes \<Rightarrow> nat \<Rightarrow> (int \<times> nat) result" where
  "parse_script_int data pos =
     (if pos \<ge> length data then Err ValidationError
      else
        let op = data ! pos in
        if op = 0x00 then Ok (0, pos + 1)
        else if op = 0x4F then Ok (- 1, pos + 1)
        else if 0x51 \<le> unat op \<and> unat op \<le> 0x60 then Ok (int (unat op) - 0x50, pos + 1)
        else if op = 0x4C then
          (if pos + 1 \<ge> length data then Err ValidationError
           else
             let n = unat (data ! (pos + 1)); start = pos + 2; raw = pyslice start (start + n) data in
             if length raw \<noteq> n then Err ValidationError else Ok (decode_script_le_int raw, start + n))
        else if 1 \<le> unat op \<and> unat op \<le> 75 then
          (let n = unat op; start = pos + 1; raw = pyslice start (start + n) data in
           if length raw \<noteq> n then Err ValidationError else Ok (decode_script_le_int raw, start + n))
        else Err ValidationError)"

definition match_v1_epilogue :: "bytes \<Rightarrow> nat \<Rightarrow> dmint_algo option" where
  "match_v1_epilogue script start =
     (if start + V1_EPILOGUE_LEN > length script then None
      else if pyslice start (start + length V1_EPILOGUE_PREFIX) script \<noteq> V1_EPILOGUE_PREFIX then None
      else case V1_ALGO_BYTE_TO_ENUM (script ! (start + 19)) of
        None \<Rightarrow> None
      | Some algo \<Rightarrow>
          if pyslice (start + 20) (start + 20 + length V1_EPILOGUE_SUFFIX) script \<noteq> V1_EPILOGUE_SUFFIX then None else Some algo)"

record dmint_state =
  ds_height :: int
  ds_contract_ref :: glyph_ref
  ds_token_ref :: glyph_ref
  ds_max_height :: int
  ds_reward :: int
  ds_algo :: dmint_algo
  ds_daa :: daa_mode
  ds_target_time :: int
  ds_last_time :: int
  ds_target :: int
  ds_is_v1 :: bool

definition is_exhausted :: "dmint_state \<Rightarrow> bool" where
  "is_exhausted st \<longleftrightarrow> ds_height st \<ge> ds_max_height st"

text \<open>A reference behind its opcode.\<close>

definition parse_ref :: "byte \<Rightarrow> bytes \<Rightarrow> nat \<Rightarrow> (glyph_ref \<times> nat) result" where
  "parse_ref op script pos =
     (if pos \<ge> length script \<or> script ! pos \<noteq> op then Err ValidationError
      else if pos + 1 + 36 > length script then Err ValidationError
      else bind_r (ref_from_bytes (pyslice (pos + 1) (pos + 37) script)) (\<lambda>r. Ok (r, pos + 37)))"

text \<open>A push of 4 bytes, read as an unsigned number.\<close>

definition parse_push4 :: "bytes \<Rightarrow> nat \<Rightarrow> (int \<times> nat) result" where
  "parse_push4 script pos =
     (if pos \<ge> length script \<or> script ! pos \<noteq> 0x04 then Err ValidationError
      else if pos + 5 > length script then Err ValidationError
      else Ok (int (le_val (pyslice (pos + 1) (pos + 5) script)), pos + 5))"

definition as_validation :: "'a result \<Rightarrow> 'a result" where
  "as_validation r = (case r of Inl ValueError \<Rightarrow> Err ValidationError | _ \<Rightarrow> r)"

definition from_v2_script :: "bytes \<Rightarrow> dmint_state result" where
  "from_v2_script script =
     bind_r (parse_script_int script 0) (\<lambda>(height, p0).
     bind_r (parse_ref 0xD8 script p0) (\<lambda>(contract_ref, p1).
     bind_r (parse_ref 0xD0 script p1) (\<lambda>(token_ref, p2).
     bind_r (parse_script_int script p2) (\<lambda>(max_height, p3).
     bind_r (parse_script_int script p3) (\<lambda>(reward, p4).
     bind_r (parse_script_int script p4) (\<lambda>(algo_n, p5).
     bind_r (parse_script_int script p5) (\<lambda>(daa_n, p6).
     bind_r (parse_script_int script p6) (\<lambda>(target_time, p7).
     bind_r (parse_push4 script p7) (\<lambda>(last_time, p8).
     bind_r (parse_script_int script p8) (\<lambda>(target, p9).
       if p9 \<ge> length script then Err ValidationError
       else if script ! p9 \<noteq> 0xBD then Err ValidationError
       else
         bind_r (as_validation (DmintAlgo algo_n)) (\<lambda>algo.
         bind_r (as_validation (DaaMode daa_n)) (\<lambda>mode.
           Ok \<lparr>ds_height = height, ds_contract_ref = contract_ref, ds_token_ref = token_ref, ds_max_height = max_height,
               ds_reward = reward, ds_algo = algo, ds_daa = mode, ds_target_time = target_time, ds_last_time = last_time,
               ds_target = target, ds_is_v1 = False\<rparr>))))))))))))"

definition from_v1_script :: "bytes \<Rightarrow> dmint_state result" where
  "from_v1_script script =
     bind_r (parse_push4 script 0) (\<lambda>(height, p0).
     bind_r (parse_ref 0xD8 script p0) (\<lambda>(contract_ref, p1).
     bind_r (parse_ref 0xD0 script p1) (\<lambda>(token_ref, p2).
     bind_r (parse_script_int script p2) (\<lambda>(max_height, p3).
     bind_r (parse_script_int script p3) (\<lambda>(reward, p4).
       if p4 \<ge> length script \<or> script ! p4 \<noteq> 0x08 then Err ValidationError
       else if p4 + 9 > length script then Err ValidationError
       else
         case match_v1_epilogue script (p4 + 9) of
           None \<Rightarrow> Err ValidationError
         | Some algo \<Rightarrow>
             Ok \<lparr>ds_height = height, ds_contract_ref = contract_ref, ds_token_ref = token_ref, ds_max_height = max_height,
                 ds_reward = reward, ds_algo = algo, ds_daa = FIXED, ds_target_time = 0, ds_last_time = 0,
                 ds_target = int (le_val (pyslice (p4 + 1) (p4 + 9) script)), ds_is_v1 = True\<rparr>)))))"

definition from_script :: "bytes \<Rightarrow> dmint_state result" where
  "from_script script =
     (case from_v2_script script of
        Inl ValidationError \<Rightarrow> (case from_v1_script script of Inl ValidationError \<Rightarrow> Err ValidationError | r \<Rightarrow> r)
      | r \<Rightarrow> r)"

text \<open>\<open>is_dmint_contract_script\<close> of \<open>glyph/script.py\<close>.\<close>

definition is_dmint_contract_script :: "bytes \<Rightarrow> bool" where
  "is_dmint_contract_script script =
     (case from_script script of Inl _ \<Rightarrow> False | Inr _ \<Rightarrow> True)"

text \<open>The state script of a parsed state, \<open>_v2_state_script_bytes\<close> of \<open>miner.py\<close>.\<close>

definition v2_state_script_bytes :: "dmint_state \<Rightarrow> bytes result" where
  "v2_state_script_bytes st =
     bind_r (push_minimal (ds_height st)) (\<lambda>h.
     bind_r (middle_literal (ds_contract_ref st) (ds_token_ref st) (ds_max_height st) (ds_reward st) (ds_algo st) (ds_daa st)
               (ds_target_time st)) (\<lambda>m.
     bind_r (push_4bytes_le (ds_last_time st)) (\<lambda>l.
     bind_r (push_minimal (ds_target st)) (\<lambda>t. Ok (h @ m @ l @ t)))))"

definition is_token_bearing_script :: "bytes \<Rightarrow> bool" where
  "is_token_bearing_script script = (case iter_input_refs script of Inl _ \<Rightarrow> True | Inr rs \<Rightarrow> rs \<noteq> [])"

end
