(* ===== verification/Dmint_State.thy ===== *)
theory Dmint_State
  imports Dmint_Script
begin

text \<open>
  The contracts of \<open>Dmint_Script\<close> survive their own encoding: numbers, references and whole states that the builders
  write are what the parser of \<open>chain.py\<close> reads, for both generations.
\<close>

section \<open>Numbers\<close>

lemma le_loop_le_bytes: "n \<noteq> 0 \<Longrightarrow> le_loop n = le_bytes (byte_digits n) n"
proof (induction n rule: le_loop.induct)
  case (1 n)
  show ?case
  proof (cases "n < 256")
    case True
    with 1 show ?thesis by (simp add: le_loop.simps [of n] le_loop.simps [of 0] byte_digits.simps [of n])
  next
    case False
    then have "n div 256 \<noteq> 0" by simp
    with 1 have "le_loop (n div 256) = le_bytes (byte_digits (n div 256)) (n div 256)" by simp
    moreover have "(word_of_nat (n mod 256) :: byte) = word_of_nat n" by (simp add: word_unat_eq_iff unat_word_of_nat_byte)
    ultimately show ?thesis using False 1 by (simp add: le_loop.simps [of n] byte_digits.simps [of n])
  qed
qed

lemma byte_top_bit: "(b :: byte) AND 0x80 \<noteq> 0 \<longleftrightarrow> 128 \<le> unat b"
proof -
  have "b AND 0x80 \<noteq> 0 \<longleftrightarrow> bit b 7"
    using and_exp_eq_0_iff_not_bit [of b 7] by simp
  also have "\<dots> \<longleftrightarrow> bit (unat b) 7" by (simp add: bit_unsigned_iff)
  also have "\<dots> \<longleftrightarrow> odd (unat b div 128)" by (simp add: bit_iff_odd)
  also have "\<dots> \<longleftrightarrow> 128 \<le> unat b"
  proof (cases "unat b < 128")
    case False
    then have "unat b div 128 = 1" using unat_byte_less [of b] by (intro div_nat_eqI) auto
    with False show ?thesis by simp
  qed simp
  finally show ?thesis .
qed

lemma byte_or_top: "unat (b :: byte) < 128 \<Longrightarrow> b OR 0x80 = word_of_nat (unat b + 128)"
proof -
  assume "unat b < 128"
  then have "b AND 0x80 = 0" using byte_top_bit [of b] by auto
  then have "b OR 0x80 = b + 0x80" by (simp add: disjunctive_add_eq_or)
  then show ?thesis by simp
qed

lemma signed_le_octets: "n \<noteq> 0 \<Longrightarrow> signed_le n = int_octets n"
  using byte_or_top
  by (simp add: signed_le_def int_octets_def le_loop_le_bytes byte_top_bit Let_def butlast_append not_le)

lemma xor_top:
  assumes "0 \<le> x" "x < 2 ^ k"
  shows "(x + 2 ^ k) XOR 2 ^ k = (x :: int)"
proof -
  from assms have "\<not> bit x k" by (simp add: bit_iff_odd)
  then have "x AND 2 ^ k = 0" by (simp add: and_exp_eq_0_iff_not_bit)
  then have "x + 2 ^ k = x XOR 2 ^ k" by (rule disjunctive_add_eq_xor)
  then show ?thesis by (simp add: xor.assoc)
qed

lemma decode_script_num: "decode_script_le_int raw = script_num raw"
proof (cases raw rule: rev_cases)
  case Nil
  then show ?thesis by (simp add: decode_script_le_int_def script_num_def)
next
  case (snoc bs b)
  define k where "k = 8 * length bs + 7"
  have two: "(0x80 * 2 ^ (8 * length bs) :: int) = 2 ^ k" by (simp add: k_def power_add)
  have p: "(256 :: nat) ^ length bs = 2 ^ (8 * length bs)" by (simp add: power_mult)
  show ?thesis
  proof (cases "128 \<le> unat b")
    case True
    define x where "x = le_val bs + 256 ^ length bs * (unat b - 128)"
    have "256 ^ length bs * (unat b - 128) \<le> 256 ^ length bs * 127"
      using unat_byte_less [of b] by (intro mult_left_mono) linarith+
    with le_val_less [of bs] have "x < 128 * 256 ^ length bs" unfolding x_def by linarith
    then have "x < 2 ^ k" by (simp add: k_def p power_add mult.commute)
    then have "int x < int (2 ^ k)" by (rule less_imp_of_nat_less)
    then have lt: "int x < 2 ^ k" by simp
    have "256 ^ length bs * unat b = 256 ^ length bs * (unat b - 128) + 2 ^ k"
      using True by (simp add: k_def p power_add algebra_simps flip: distrib_left)
    then have "int (le_val raw) = int x + 2 ^ k" by (simp add: snoc x_def le_val_append)
    moreover have "script_num raw = - int x" using True script_num_snoc [of bs b] by (simp add: snoc x_def)
    moreover have "last raw AND 0x80 \<noteq> 0" "raw \<noteq> []" "length raw - 1 = length bs" using True by (simp_all add: snoc byte_top_bit)
    ultimately show ?thesis using lt two by (simp add: decode_script_le_int_def xor_top Let_def)
  next
    case False
    then show ?thesis using script_num_snoc [of bs b] by (simp add: snoc decode_script_le_int_def byte_top_bit Let_def)
  qed
qed

text \<open>What the parser reads where the builder wrote a number.\<close>

lemma parse_direct:
  assumes "1 \<le> length d" "length d \<le> 75"
  shows "parse_script_int (pre @ word_of_nat (length d) # d @ s) (length pre) = Ok (script_num d, length pre + Suc (length d))"
proof -
  have u: "unat (word_of_nat (length d) :: byte) = length d" using assms by (simp add: unat_word_of_nat_byte)
  have n: "(word_of_nat (length d) :: byte) \<noteq> 0" "(word_of_nat (length d) :: byte) \<noteq> 0x4F" "(word_of_nat (length d) :: byte) \<noteq> 0x4C"
    using assms u by (auto simp: word_unat_eq_iff)
  have "pyslice (Suc (length pre)) (Suc (length pre + length d)) (pre @ word_of_nat (length d) # d @ s) = d"
    using pyslice_at [of "pre @ [word_of_nat (length d)]" d s] by simp
  with n assms show ?thesis
    by (simp add: parse_script_int_def nth_append u Let_def decode_script_num)
qed

lemma parse_pushdata1:
  assumes "length d \<le> 255"
  shows "parse_script_int (pre @ 0x4C # word_of_nat (length d) # d @ s) (length pre) = Ok (script_num d, length pre + (2 + length d))"
proof -
  have u: "unat (word_of_nat (length d) :: byte) = length d" using assms by (simp add: unat_word_of_nat_byte)
  have "pyslice (Suc (Suc (length pre))) (Suc (Suc (length pre + length d))) (pre @ 0x4C # word_of_nat (length d) # d @ s) = d"
    using pyslice_at [of "pre @ [0x4C, word_of_nat (length d)]" d s] by simp
  then show ?thesis by (simp add: parse_script_int_def nth_append u Let_def decode_script_num)
qed

lemma int_octets_nonempty: "int_octets n \<noteq> []"
proof -
  have "le_bytes (byte_digits (nat \<bar>n\<bar>)) (nat \<bar>n\<bar>) \<noteq> []"
    using byte_digits_pos [of "nat \<bar>n\<bar>"] length_le_bytes [of "byte_digits (nat \<bar>n\<bar>)" "nat \<bar>n\<bar>"] by (metis length_0_conv less_numeral_extra(3))
  then show ?thesis by (cases "n < 0") (simp_all add: int_octets_def Let_def)
qed

lemma parse_push_minimal:
  assumes "push_minimal n = Ok p"
  shows "parse_script_int (pre @ p @ s) (length pre) = Ok (n, length pre + length p)"
proof -
  consider "n = 0" "p = [0]" | "n = - 1" "p = [0x4F]" | "1 \<le> n" "n \<le> 16" "p = [word_of_int (0x50 + n)]"
    | "n \<noteq> 0" "length (int_octets n) < 0x4C" "p = word_of_nat (length (int_octets n)) # int_octets n"
    | "n \<noteq> 0" "length (int_octets n) \<le> 0xFF" "p = 0x4C # word_of_nat (length (int_octets n)) # int_octets n"
    using assms by (auto simp: push_minimal_def signed_le_octets Let_def split: if_splits)
  then show ?thesis
  proof cases
    case 3
    have "uint (word_of_int (0x50 + n) :: byte) = (0x50 + n) mod 256" by (simp only: uint_word_of_int) simp
    with 3 have "uint (word_of_int (0x50 + n) :: byte) = 0x50 + n" by (simp del: of_int_add)
    then have u: "unat (word_of_int (0x50 + n) :: byte) = nat (0x50 + n)" by (metis nat_uint_eq)
    then have "(word_of_int (0x50 + n) :: byte) \<noteq> 0" "(word_of_int (0x50 + n) :: byte) \<noteq> 0x4F" using 3 by (auto simp: word_unat_eq_iff)
    moreover have "0x51 \<le> unat (word_of_int (0x50 + n) :: byte)" "unat (word_of_int (0x50 + n) :: byte) \<le> 0x60"
      "int (unat (word_of_int (0x50 + n) :: byte)) - 0x50 = n" using 3 unfolding u by auto
    ultimately show ?thesis using 3 by (simp add: parse_script_int_def nth_append Let_def)
  next
    case 4
    have "1 \<le> length (int_octets n)" using int_octets_nonempty [of n] by (simp add: Suc_le_eq)
    with 4 show ?thesis using parse_direct [of "int_octets n" pre s] int_octets_value [of n] by simp
  next
    case 5
    then show ?thesis using parse_pushdata1 [of "int_octets n" pre s] int_octets_value [of n] by simp
  qed (simp_all add: parse_script_int_def nth_append Let_def)
qed

section \<open>Items of a state\<close>

lemma parse_int_at:
  "push_minimal n = Ok p \<Longrightarrow> script = pre @ p @ s \<Longrightarrow> parse_script_int script (length pre) = Ok (n, length (pre @ p))"
  by (simp add: parse_push_minimal)

lemma parse_ref_at:
  assumes "wf_ref r" "ref_to_bytes r = Ok b" "script = pre @ (op # b) @ s"
  shows "parse_ref op script (length pre) = Ok (r, length (pre @ op # b))"
proof -
  have l: "length b = 36" using assms by (simp add: wf_ref_bytes)
  have "pyslice (Suc (length pre)) (length pre + 37) script = b"
    using pyslice_at [of "pre @ [op]" b s] assms l by (simp add: add.commute)
  with assms l show ?thesis by (simp add: parse_ref_def nth_append ref_roundtrip)
qed

lemma parse_push4_at:
  assumes "push_4bytes_le n = Ok p" "script = pre @ p @ s"
  shows "parse_push4 script (length pre) = Ok (n, length (pre @ p))"
proof -
  from assms have p: "p = 0x04 # le_bytes 4 (nat n)" and n: "0 \<le> n" "n < 256 ^ 4"
    by (auto simp: push_4bytes_le_def pack_u_def split: if_splits)
  have "pyslice (Suc (length pre)) (length pre + 5) script = le_bytes 4 (nat n)"
    using pyslice_at [of "pre @ [0x04]" "le_bytes 4 (nat n)" s] assms p by (simp add: add.commute del: le_bytes.simps)
  moreover have "le_val (le_bytes 4 (nat n)) = nat n" using n by (intro le_val_le_bytes) (simp add: nat_less_iff)
  ultimately show ?thesis using assms(2) n p by (simp add: parse_push4_def nth_append del: le_bytes.simps)
qed

lemma DmintAlgo_id [simp]: "DmintAlgo (algo_id a) = Ok a"
  by (cases a) (simp_all add: DmintAlgo_def)

lemma DaaMode_id [simp]: "DaaMode (daa_id m) = Ok m"
  by (cases m) (simp_all add: DaaMode_def)

section \<open>Second generation\<close>

definition v2_state :: "int \<Rightarrow> glyph_ref \<Rightarrow> glyph_ref \<Rightarrow> int \<Rightarrow> int \<Rightarrow> dmint_algo \<Rightarrow> daa_mode \<Rightarrow> int \<Rightarrow> int \<Rightarrow> int \<Rightarrow> dmint_state" where
  "v2_state height contract_ref token_ref max_height reward algo mode target_time last_time target =
     \<lparr>ds_height = height, ds_contract_ref = contract_ref, ds_token_ref = token_ref, ds_max_height = max_height, ds_reward = reward,
      ds_algo = algo, ds_daa = mode, ds_target_time = target_time, ds_last_time = last_time, ds_target = target, ds_is_v1 = False\<rparr>"

lemma middle_literal_Ok:
  assumes "middle_literal cr tr mh rw al md tt = Ok m"
  obtains c t pm pr pa pd pt where
    "ref_to_bytes cr = Ok c" "ref_to_bytes tr = Ok t" "push_minimal mh = Ok pm" "push_minimal rw = Ok pr"
    "push_minimal (algo_id al) = Ok pa" "push_minimal (daa_id md) = Ok pd" "push_minimal tt = Ok pt"
    "m = (0xD8 # c) @ (0xD0 # t) @ pm @ pr @ pa @ pd @ pt"
  using assms by (auto simp: middle_literal_def bind_r_Ok_iff)

lemma from_v2_script_layout:
  assumes wf: "wf_ref cr" "wf_ref tr"
    and h: "push_minimal ht = Ok h" and m: "middle_literal cr tr mh rw al md tt = Ok m"
    and l: "push_4bytes_le lt = Ok l" and g: "push_minimal tg = Ok g"
  shows "from_v2_script (h @ m @ l @ g @ 0xBD # code) = Ok (v2_state ht cr tr mh rw al md tt lt tg)"
proof -
  from m obtain c t pm pr pa pd pt where
    c: "ref_to_bytes cr = Ok c" and t: "ref_to_bytes tr = Ok t" and pm: "push_minimal mh = Ok pm" and pr: "push_minimal rw = Ok pr"
    and pa: "push_minimal (algo_id al) = Ok pa" and pd: "push_minimal (daa_id md) = Ok pd" and pt: "push_minimal tt = Ok pt"
    and m: "m = (0xD8 # c) @ (0xD0 # t) @ pm @ pr @ pa @ pd @ pt"
    by (rule middle_literal_Ok)
  define q0 where "q0 = h"
  define q1 where "q1 = q0 @ 0xD8 # c"
  define q2 where "q2 = q1 @ 0xD0 # t"
  define q3 where "q3 = q2 @ pm"
  define q4 where "q4 = q3 @ pr"
  define q5 where "q5 = q4 @ pa"
  define q6 where "q6 = q5 @ pd"
  define q7 where "q7 = q6 @ pt"
  define q8 where "q8 = q7 @ l"
  define q9 where "q9 = q8 @ g"
  note q = q0_def q1_def q2_def q3_def q4_def q5_def q6_def q7_def q8_def q9_def
  define script where "script = q9 @ 0xBD # code"
  have s: "h @ m @ l @ g @ 0xBD # code = script" by (simp add: script_def q m)
  have "parse_script_int script 0 = Ok (ht, length q0)" using parse_int_at [OF h, of script "[]"] by (simp add: script_def q)
  moreover have "parse_ref 0xD8 script (length q0) = Ok (cr, length q1)"
    unfolding q1_def by (rule parse_ref_at [OF wf(1) c]) (simp add: script_def q)
  moreover have "parse_ref 0xD0 script (length q1) = Ok (tr, length q2)"
    unfolding q2_def by (rule parse_ref_at [OF wf(2) t]) (simp add: script_def q)
  moreover have "parse_script_int script (length q2) = Ok (mh, length q3)"
    unfolding q3_def by (rule parse_int_at [OF pm]) (simp add: script_def q)
  moreover have "parse_script_int script (length q3) = Ok (rw, length q4)"
    unfolding q4_def by (rule parse_int_at [OF pr]) (simp add: script_def q)
  moreover have "parse_script_int script (length q4) = Ok (algo_id al, length q5)"
    unfolding q5_def by (rule parse_int_at [OF pa]) (simp add: script_def q)
  moreover have "parse_script_int script (length q5) = Ok (daa_id md, length q6)"
    unfolding q6_def by (rule parse_int_at [OF pd]) (simp add: script_def q)
  moreover have "parse_script_int script (length q6) = Ok (tt, length q7)"
    unfolding q7_def by (rule parse_int_at [OF pt]) (simp add: script_def q)
  moreover have "parse_push4 script (length q7) = Ok (lt, length q8)"
    unfolding q8_def by (rule parse_push4_at [OF l]) (simp add: script_def q)
  moreover have "parse_script_int script (length q8) = Ok (tg, length q9)"
    unfolding q9_def by (rule parse_int_at [OF g]) (simp add: script_def q)
  moreover have "length q9 < length script" "script ! length q9 = 0xBD" by (simp_all add: script_def nth_append)
  ultimately show ?thesis unfolding s by (simp add: from_v2_script_def as_validation_def v2_state_def)
qed

lemma from_script_v2: "from_v2_script s = Ok st \<Longrightarrow> from_script s = Ok st"
  by (simp add: from_script_def)

lemma v2_state_script_bytes_parses:
  assumes "wf_ref (ds_contract_ref st)" "wf_ref (ds_token_ref st)" "\<not> ds_is_v1 st" "v2_state_script_bytes st = Ok s"
  shows "from_script (s @ 0xBD # code) = Ok st"
proof -
  from assms(4) obtain h m l g where
    "push_minimal (ds_height st) = Ok h"
    "middle_literal (ds_contract_ref st) (ds_token_ref st) (ds_max_height st) (ds_reward st) (ds_algo st) (ds_daa st) (ds_target_time st) = Ok m"
    "push_4bytes_le (ds_last_time st) = Ok l" "push_minimal (ds_target st) = Ok g" and s: "s = h @ m @ l @ g"
    by (auto simp: v2_state_script_bytes_def bind_r_Ok_iff)
  from from_v2_script_layout [OF assms(1,2) this(1-4), of code]
  have "from_script (s @ 0xBD # code) =
      Ok (v2_state (ds_height st) (ds_contract_ref st) (ds_token_ref st) (ds_max_height st) (ds_reward st) (ds_algo st) (ds_daa st)
            (ds_target_time st) (ds_last_time st) (ds_target st))"
    by (simp add: s from_script_v2)
  with assms(3) show ?thesis by (cases st) (simp add: v2_state_def)
qed

text \<open>The state a deployment starts in.\<close>

definition deployed_state :: "deploy_params \<Rightarrow> dmint_state" where
  "deployed_state p =
     v2_state (dp_height p) (dp_contract_ref p) (dp_token_ref p) (dp_max_height p) (dp_reward p) (dp_algo p) (dp_daa p)
       (dp_target_time p) (dp_last_time p) (initial_target p)"

lemma build_dmint_state_script_state: "build_dmint_state_script p = v2_state_script_bytes (deployed_state p)"
  by (simp add: build_dmint_state_script_def v2_state_script_bytes_def deployed_state_def v2_state_def params_literal_def)

lemma deployed_state_simps [simp]:
  "ds_contract_ref (deployed_state p) = dp_contract_ref p" "ds_token_ref (deployed_state p) = dp_token_ref p"
  "ds_is_v1 (deployed_state p) = False" "ds_daa (deployed_state p) = dp_daa p" "ds_height (deployed_state p) = dp_height p"
  by (simp_all add: deployed_state_def v2_state_def)

text \<open>Small numbers always have an encoding.\<close>

lemma push_minimal_total:
  assumes "\<bar>n\<bar> < 256 ^ 40"
  shows "\<exists>p. push_minimal n = Ok p"
proof (cases "n = 0")
  case False
  from assms have "nat \<bar>n\<bar> < 256 ^ 40" by (simp add: nat_less_iff)
  then have "byte_digits (nat \<bar>n\<bar>) \<le> 40" by (rule byte_digits_le) simp
  with length_int_octets [of n] have "length (signed_le n) \<le> 41" using False by (simp add: signed_le_octets)
  then show ?thesis by (simp add: push_minimal_def Let_def)
qed (simp add: push_minimal_def)

section \<open>First generation\<close>

definition v1_state :: "int \<Rightarrow> glyph_ref \<Rightarrow> glyph_ref \<Rightarrow> int \<Rightarrow> int \<Rightarrow> dmint_algo \<Rightarrow> int \<Rightarrow> dmint_state" where
  "v1_state height contract_ref token_ref max_height reward algo target =
     \<lparr>ds_height = height, ds_contract_ref = contract_ref, ds_token_ref = token_ref, ds_max_height = max_height, ds_reward = reward,
      ds_algo = algo, ds_daa = FIXED, ds_target_time = 0, ds_last_time = 0, ds_target = target, ds_is_v1 = True\<rparr>"

lemma V1_lengths [simp]: "length V1_EPILOGUE_PREFIX = 19" "length V1_EPILOGUE_SUFFIX = 125" "V1_EPILOGUE_LEN = 145"
  by (simp_all add: V1_EPILOGUE_PREFIX_def V1_EPILOGUE_SUFFIX_def V1_EPILOGUE_LEN_def)

lemma V1_algo_byte [simp]: "V1_ALGO_BYTE_TO_ENUM (POW_HASH_OP a) = Some a"
  by (cases a) (simp_all add: V1_ALGO_BYTE_TO_ENUM_def)

lemma match_v1_code: "match_v1_epilogue (pre @ build_dmint_v1_code_script a @ s) (length pre) = Some a"
proof -
  have p: "pyslice (length pre) (length pre + 19) (pre @ V1_EPILOGUE_PREFIX @ POW_HASH_OP a # V1_EPILOGUE_SUFFIX @ s) = V1_EPILOGUE_PREFIX"
    using pyslice_at [of pre V1_EPILOGUE_PREFIX "POW_HASH_OP a # V1_EPILOGUE_SUFFIX @ s"] by simp
  have q: "pyslice (length pre + 20) (length pre + 20 + 125) (pre @ V1_EPILOGUE_PREFIX @ POW_HASH_OP a # V1_EPILOGUE_SUFFIX @ s) = V1_EPILOGUE_SUFFIX"
    using pyslice_at [of "pre @ V1_EPILOGUE_PREFIX @ [POW_HASH_OP a]" V1_EPILOGUE_SUFFIX s] by (simp add: add.commute add.left_commute)
  have "(pre @ V1_EPILOGUE_PREFIX @ POW_HASH_OP a # V1_EPILOGUE_SUFFIX @ s) ! (length pre + 19) = POW_HASH_OP a"
    by (simp add: nth_append)
  with p q show ?thesis by (simp add: match_v1_epilogue_def build_dmint_v1_code_script_def)
qed

lemma build_v1_state_Ok:
  assumes "build_dmint_v1_state_script ht cr tr mh rw tg = Ok s"
  obtains h c t pm pr where
    "push_4bytes_le ht = Ok h" "ref_to_bytes cr = Ok c" "ref_to_bytes tr = Ok t" "push_minimal mh = Ok pm" "push_minimal rw = Ok pr"
    "s = h @ (0xD8 # c) @ (0xD0 # t) @ pm @ pr @ (0x08 # le_bytes 8 (nat tg))" "0 \<le> ht" "ht < mh" "1 \<le> rw" "1 \<le> tg" "tg \<le> MAX_SHA256D_TARGET"
  using assms by (auto simp: build_dmint_v1_state_script_def bind_r_Ok_iff pack_u_def split: if_splits)

lemma v1_layout:
  assumes wf: "wf_ref cr" "wf_ref tr" and b: "build_dmint_v1_state_script ht cr tr mh rw tg = Ok st"
  shows "from_v1_script (st @ build_dmint_v1_code_script a) = Ok (v1_state ht cr tr mh rw a tg)"
    and "from_v2_script (st @ build_dmint_v1_code_script a) = Err ValidationError"
proof -
  from b obtain h c t pm pr where
    h: "push_4bytes_le ht = Ok h" and c: "ref_to_bytes cr = Ok c" and t: "ref_to_bytes tr = Ok t"
    and pm: "push_minimal mh = Ok pm" and pr: "push_minimal rw = Ok pr"
    and st: "st = h @ (0xD8 # c) @ (0xD0 # t) @ pm @ pr @ (0x08 # le_bytes 8 (nat tg))" and tg: "1 \<le> tg" "tg \<le> MAX_SHA256D_TARGET"
    by (rule build_v1_state_Ok)
  define q1 where "q1 = h @ 0xD8 # c"
  define q2 where "q2 = q1 @ 0xD0 # t"
  define q3 where "q3 = q2 @ pm"
  define q4 where "q4 = q3 @ pr"
  define q5 where "q5 = q4 @ 0x08 # le_bytes 8 (nat tg)"
  note q = q1_def q2_def q3_def q4_def q5_def
  define script where "script = q5 @ build_dmint_v1_code_script a"
  have s: "st @ build_dmint_v1_code_script a = script" by (simp add: script_def q st)
  have p0: "parse_push4 script 0 = Ok (ht, length h)" using parse_push4_at [OF h, of script "[]"] by (simp add: script_def q)
  have p1: "parse_ref 0xD8 script (length h) = Ok (cr, length q1)"
    unfolding q1_def by (rule parse_ref_at [OF wf(1) c]) (simp add: script_def q)
  have p2: "parse_ref 0xD0 script (length q1) = Ok (tr, length q2)"
    unfolding q2_def by (rule parse_ref_at [OF wf(2) t]) (simp add: script_def q)
  have p3: "parse_script_int script (length q2) = Ok (mh, length q3)"
    unfolding q3_def by (rule parse_int_at [OF pm]) (simp add: script_def q)
  have p4: "parse_script_int script (length q3) = Ok (rw, length q4)"
    unfolding q4_def by (rule parse_int_at [OF pr]) (simp add: script_def q)
  have p5: "length q4 + 9 = length q5" by (simp add: q5_def)
  have at4: "script ! length q4 = 0x08" "length q4 < length script" "length q4 + 9 \<le> length script"
    by (simp_all add: script_def q5_def nth_append)
  have val: "le_val (le_bytes 8 (nat tg)) = nat tg"
    using tg by (intro le_val_le_bytes) (simp add: MAX_SHA256D_TARGET_def nat_less_iff)
  have sl: "pyslice (Suc (length q4)) (length q5) script = le_bytes 8 (nat tg)"
    using pyslice_at [of "q4 @ [0x08]" "le_bytes 8 (nat tg)" "build_dmint_v1_code_script a"]
    by (simp add: script_def q5_def add.commute del: le_bytes.simps)
  have "match_v1_epilogue script (length q5) = Some a" using match_v1_code [of q5 a "[]"] by (simp add: script_def)
  with p0 p1 p2 p3 p4 p5 at4 sl val tg show "from_v1_script (st @ build_dmint_v1_code_script a) = Ok (v1_state ht cr tr mh rw a tg)"
    unfolding s by (simp add: from_v1_script_def v1_state_def)
  from h have h': "h = word_of_nat 4 # le_bytes 4 (nat ht)" by (auto simp: push_4bytes_le_def pack_u_def split: if_splits)
  have "parse_script_int script 0 = Ok (script_num (le_bytes 4 (nat ht)), length h)"
    using parse_direct [of "le_bytes 4 (nat ht)" "[]"] by (simp add: script_def q h' del: le_bytes.simps)
  moreover have "parse_script_int script (length q4) = Ok (script_num (le_bytes 8 (nat tg)), length q5)"
    using parse_direct [of "le_bytes 8 (nat tg)" q4] by (simp add: script_def q5_def del: le_bytes.simps)
  moreover have "parse_script_int script (length q5) = Err ValidationError"
    by (simp add: script_def parse_script_int_def nth_append build_dmint_v1_code_script_def V1_EPILOGUE_PREFIX_def)
  ultimately show "from_v2_script (st @ build_dmint_v1_code_script a) = Err ValidationError"
    unfolding s using p1 p2 p3 p4 by (simp add: from_v2_script_def)
qed

lemma v1_contract_parses:
  assumes "wf_ref cr" "wf_ref tr" "build_dmint_v1_contract_script ht cr tr mh rw tg a = Ok s"
  shows "from_script s = Ok (v1_state ht cr tr mh rw a tg)"
  using assms v1_layout [OF assms(1,2)] by (auto simp: build_dmint_v1_contract_script_def bind_r_Ok_iff from_script_def)

text \<open>The reward output of a mint is an ordinary token output.\<close>

lemma v1_ft_output_is_ft:
  "length pkh = 20 \<Longrightarrow> wf_ref r \<Longrightarrow> build_dmint_v1_ft_output_script pkh r = build_ft_locking_script pkh r"
  using ref_to_bytes_wf [of r]
  by (auto simp: build_dmint_v1_ft_output_script_def build_ft_locking_script_def ft_epilogue_def Let_def)

section \<open>Round trips\<close>

lemma push_minimal_length: "push_minimal n = Ok p \<Longrightarrow> length p \<le> 257"
  by (auto simp: push_minimal_def Let_def split: if_splits)

lemma encode_data_push_total: "length d < 2 ^ 32 \<Longrightarrow> \<exists>p. encode_data_push d = Ok p"
  by (simp add: encode_data_push_def pack_u_def Let_def)

lemma middle_literal_total:
  assumes "wf_ref cr" "wf_ref tr" "\<bar>mh\<bar> < 256 ^ 40" "\<bar>rw\<bar> < 256 ^ 40" "\<bar>tt\<bar> < 256 ^ 40"
  shows "\<exists>m. middle_literal cr tr mh rw al md tt = Ok m \<and> length m < 2 ^ 32"
proof -
  obtain c t where ct: "ref_to_bytes cr = Ok c" "length c = 36" "ref_to_bytes tr = Ok t" "length t = 36"
    using ref_to_bytes_wf [OF assms(1)] ref_to_bytes_wf [OF assms(2)] by blast
  obtain pm pr pt where p: "push_minimal mh = Ok pm" "push_minimal rw = Ok pr" "push_minimal tt = Ok pt"
    using push_minimal_total assms(3-5) by metis
  have "\<bar>algo_id al\<bar> < 256 ^ 40" by (cases al) simp_all
  moreover have "\<bar>daa_id md\<bar> < 256 ^ 40" by (cases md) simp_all
  ultimately obtain pa pd where q: "push_minimal (algo_id al) = Ok pa" "push_minimal (daa_id md) = Ok pd" using push_minimal_total by metis
  have "length pm \<le> 257" "length pr \<le> 257" "length pt \<le> 257" "length pa \<le> 257" "length pd \<le> 257"
    using p q push_minimal_length by blast+
  with ct p q show ?thesis by (simp add: middle_literal_def)
qed

lemma schedule_loop_total:
  assumes "\<forall>(h, t)\<in>set es. \<bar>h\<bar> < 256 ^ 40 \<and> \<bar>t\<bar> < 256 ^ 40"
  shows "\<exists>d. schedule_loop es body = Ok d"
  using assms
proof (induction es arbitrary: body)
  case (Cons e es)
  obtain h t where e: "e = (h, t)" by fastforce
  with Cons.prems have "\<exists>ph. push_minimal h = Ok ph" "\<exists>pt. push_minimal t = Ok pt" by (auto intro!: push_minimal_total)
  then show ?case using Cons by (auto simp: e)
qed simp

lemma schedule_ok_targets: "schedule_ok prev es \<Longrightarrow> (h, t) \<in> set es \<Longrightarrow> 0 \<le> h \<and> 1 \<le> t \<and> t \<le> MAX_SHA256D_TARGET"
  by (induction prev es rule: schedule_ok.induct) auto

text \<open>Numbers of a deployment that fit a script number with room to spare; the validation of the parameters bounds them from below only.\<close>

definition sized :: "deploy_params \<Rightarrow> bool" where
  "sized p \<longleftrightarrow> dp_max_height p < 2 ^ 64 \<and> dp_reward p < 2 ^ 64 \<and> dp_target_time p < 2 ^ 64 \<and> dp_half_life p < 2 ^ 64
     \<and> dp_epoch_length p < 2 ^ 64 \<and> dp_height p < 2 ^ 64 \<and> dp_last_time p < 2 ^ 32 \<and> (\<forall>(h, t)\<in>set (dp_schedule p). h < 2 ^ 64)"

lemma small_num: "0 \<le> (n :: int) \<Longrightarrow> n < 2 ^ 64 \<Longrightarrow> \<bar>n\<bar> < 256 ^ 40"
  by simp

lemma DmintDeployParams_Ok:
  "DmintDeployParams p = Ok q \<Longrightarrow> q = p \<and> 1 \<le> dp_max_height p \<and> 1 \<le> dp_reward p \<and> 1 \<le> dp_difficulty p \<and> 1 \<le> dp_target_time p
     \<and> 1 \<le> dp_half_life p \<and> 0 \<le> dp_height p \<and> 0 \<le> dp_last_time p \<and> (dp_daa p = EPOCH \<longrightarrow> 1 \<le> dp_epoch_length p)
     \<and> (dp_daa p = EPOCH \<longrightarrow> dp_max_adjustment_log2 p \<in> {1, 2, 3, 4}) \<and> (dp_daa p = SCHEDULE \<longrightarrow> schedule_ok (- 1) (dp_schedule p))"
  unfolding DmintDeployParams_def if_Err_Ok_iff by (auto simp: not_less)

lemma part_b_total:
  assumes v: "DmintDeployParams p = Ok p" and z: "sized p"
  shows "\<exists>b. build_part_b (dp_daa p) (dp_half_life p) (dp_epoch_length p) (dp_max_adjustment_log2 p) (dp_schedule p) 2 = Ok b"
proof -
  note d = DmintDeployParams_Ok [OF v]
  have "\<exists>x. push_minimal ASERT_V2_RADIX = Ok x" "\<exists>x. push_minimal ASERT_V2_DRIFT_CLAMP = Ok x" "\<exists>x. push_minimal (- ASERT_V2_DRIFT_CLAMP) = Ok x"
    by (rule push_minimal_total; simp add: ASERT_V2_RADIX_def ASERT_V2_DRIFT_CLAMP_def)+
  moreover have "\<exists>x. push_minimal (dp_half_life p) = Ok x" "1 \<le> dp_half_life p"
    using d z by (auto intro!: push_minimal_total small_num simp: sized_def)
  moreover have "\<exists>x. push_minimal (dp_epoch_length p) = Ok x" if "dp_daa p = EPOCH"
    using d z that by (auto intro!: push_minimal_total small_num simp: sized_def)
  moreover have "\<exists>d. schedule_loop (dp_schedule p) [] = Ok d" if "dp_daa p = SCHEDULE"
  proof (rule schedule_loop_total, clarify)
    fix h t assume e: "(h, t) \<in> set (dp_schedule p)"
    with d that have "0 \<le> h" "1 \<le> t" "t \<le> MAX_SHA256D_TARGET" using schedule_ok_targets by blast+
    moreover have "h < 2 ^ 64" using z e by (auto simp: sized_def)
    ultimately show "\<bar>h\<bar> < 256 ^ 40 \<and> \<bar>t\<bar> < 256 ^ 40" by (simp add: MAX_SHA256D_TARGET_def)
  qed
  ultimately show ?thesis
    by (cases "dp_daa p") (auto simp: build_part_b_def build_asert_daa_v2_def build_epoch_daa_def build_schedule_daa_def Let_def)
qed

lemma initial_target_range:
  assumes "1 \<le> dp_difficulty p"
  shows "0 \<le> initial_target p \<and> initial_target p < 2 ^ 256"
proof -
  have "MAX_SHA256D_TARGET div dp_difficulty p \<le> MAX_SHA256D_TARGET div 1" "MAX_V2_TARGET_256 div dp_difficulty p \<le> MAX_V2_TARGET_256 div 1"
    using assms by (intro zdiv_mono2; simp add: MAX_SHA256D_TARGET_def MAX_V2_TARGET_256_def)+
  with assms show ?thesis
    by (simp add: initial_target_def MAX_SHA256D_TARGET_def MAX_V2_TARGET_256_def pos_imp_zdiv_nonneg_iff)
qed

lemma state_script_total:
  assumes v: "DmintDeployParams p = Ok p" and z: "sized p" and wf: "wf_ref (dp_contract_ref p)" "wf_ref (dp_token_ref p)"
  shows "\<exists>s. build_dmint_state_script p = Ok s" "\<exists>m. params_literal p = Ok m \<and> length m < 2 ^ 32"
proof -
  have r: "1 \<le> dp_max_height p" "1 \<le> dp_reward p" "1 \<le> dp_difficulty p" "1 \<le> dp_target_time p" "0 \<le> dp_height p" "0 \<le> dp_last_time p"
    using DmintDeployParams_Ok [OF v] by blast+
  show m: "\<exists>m. params_literal p = Ok m \<and> length m < 2 ^ 32"
    unfolding params_literal_def using r z by (intro middle_literal_total wf) (auto simp: sized_def)
  have "\<exists>x. push_minimal (initial_target p) = Ok x" using initial_target_range [OF r(3)] by (intro push_minimal_total) simp
  moreover have "\<exists>x. push_minimal (dp_height p) = Ok x" using r z by (intro push_minimal_total) (simp add: sized_def)
  moreover have "\<exists>x. push_4bytes_le (dp_last_time p) = Ok x" using r z by (simp add: push_4bytes_le_def pack_u_def sized_def)
  ultimately show "\<exists>s. build_dmint_state_script p = Ok s" using m by (auto simp: build_dmint_state_script_def)
qed

lemma deployed_contract:
  assumes v: "DmintDeployParams p = Ok p" and z: "sized p" and wf: "wf_ref (dp_contract_ref p)" "wf_ref (dp_token_ref p)"
  shows "\<exists>s st b c. build_dmint_contract_script p = Ok s \<and> v2_state_script_bytes (deployed_state p) = Ok st
    \<and> build_part_b (dp_daa p) (dp_half_life p) (dp_epoch_length p) (dp_max_adjustment_log2 p) (dp_schedule p) 2 = Ok b
    \<and> s = st @ 0xBD # PART_A @ POW_HASH_OP (dp_algo p) # b @ c \<and> from_script s = Ok (deployed_state p)"
proof -
  obtain m where m: "params_literal p = Ok m" "length m < 2 ^ 32" using state_script_total(2) [OF assms] by blast
  obtain st where st: "build_dmint_state_script p = Ok st" using state_script_total(1) [OF assms] by blast
  obtain b where b: "build_part_b (dp_daa p) (dp_half_life p) (dp_epoch_length p) (dp_max_adjustment_log2 p) (dp_schedule p) 2 = Ok b"
    using part_b_total [OF v z] by blast
  obtain c where c: "build_part_c m = Ok c" using encode_data_push_total [OF m(2)] by (auto simp: build_part_c_def Let_def)
  have s: "build_dmint_contract_script p = Ok (st @ 0xBD # PART_A @ POW_HASH_OP (dp_algo p) # b @ c)"
    using st b c m by (simp add: build_dmint_contract_script_def build_dmint_code_script_def)
  moreover have "from_script (st @ 0xBD # PART_A @ POW_HASH_OP (dp_algo p) # b @ c) = Ok (deployed_state p)"
    using st wf by (intro v2_state_script_bytes_parses) (simp_all add: build_dmint_state_script_state)
  ultimately show ?thesis using st b by (auto simp: build_dmint_state_script_state)
qed

text \<open>C21: Contracts survive their encoding. Deployment parameters that pass validation, with well-formed
  references and numbers below 64 bits, give a second-generation contract script, and the parser reads exactly the
  deployed state from it; a script that the first-generation builder returns for the same references, whatever
  its numbers, is parsed as first generation with exactly the arguments of the builder. Both are recognised as contracts.\<close>

theorem contract_roundtrip:
  assumes "DmintDeployParams p = Ok p" "sized p" "wf_ref (dp_contract_ref p)" "wf_ref (dp_token_ref p)"
  shows "(\<exists>s. build_dmint_contract_script p = Ok s \<and> from_script s = Ok (deployed_state p) \<and> is_dmint_contract_script s)
    \<and> (\<forall>ht mh rw tg a s. build_dmint_v1_contract_script ht (dp_contract_ref p) (dp_token_ref p) mh rw tg a = Ok s \<longrightarrow>
         from_script s = Ok (v1_state ht (dp_contract_ref p) (dp_token_ref p) mh rw a tg) \<and> is_dmint_contract_script s)"
proof (intro conjI allI impI)
  show "\<exists>s. build_dmint_contract_script p = Ok s \<and> from_script s = Ok (deployed_state p) \<and> is_dmint_contract_script s"
    using deployed_contract [OF assms] by (metis is_dmint_contract_script_def sum.simps(6))
qed (simp_all add: v1_contract_parses [OF assms(3,4)] is_dmint_contract_script_def)

definition sample_params :: deploy_params where
  "sample_params =
     \<lparr>dp_contract_ref = sample_ref, dp_token_ref = sample_ref, dp_max_height = 21000, dp_reward = 50, dp_difficulty = 1000,
      dp_algo = SHA256D, dp_daa = SCHEDULE, dp_target_time = 60, dp_half_life = 240, dp_height = 0, dp_last_time = 1700000000,
      dp_epoch_length = 2016, dp_max_adjustment_log2 = 2, dp_schedule = [(100, 5000), (200, 2500)]\<rparr>"

lemma sample_params_valid: "DmintDeployParams sample_params = Ok sample_params" "sized sample_params"
  by (simp_all add: sample_params_def DmintDeployParams_def sized_def SCHEDULE_MAX_ENTRIES_def MAX_SHA256D_TARGET_def)

theorem contract_roundtrip_witness:
  "is_ok (build_dmint_v1_contract_script 7 sample_ref sample_ref 100 50 1000 K12) \<and>
   (\<exists>s. build_dmint_contract_script sample_params = Ok s \<and> from_script s = Ok (deployed_state sample_params))"
proof -
  have r: "dp_contract_ref sample_params = sample_ref" "dp_token_ref sample_params = sample_ref" by (simp_all add: sample_params_def)
  have "\<exists>s. build_dmint_contract_script sample_params = Ok s \<and> from_script s = Ok (deployed_state sample_params)"
    using contract_roundtrip [of sample_params] sample_params_valid wf_sample_ref unfolding r by blast
  moreover have "\<exists>b. ref_to_bytes sample_ref = Ok b" using ref_to_bytes_wf wf_sample_ref by blast
  moreover have "\<exists>p. push_minimal 100 = Ok p" "\<exists>p. push_minimal 50 = Ok p" by (rule push_minimal_total; simp)+
  ultimately show ?thesis
    by (auto simp: is_ok_def build_dmint_v1_contract_script_def build_dmint_v1_state_script_def push_4bytes_le_def pack_u_def MAX_SHA256D_TARGET_def)
qed

end
