(* ===== verification/Dmint_Daa.thy ===== *)
theory Dmint_Daa
  imports Dmint_State
begin

text \<open>
  Difficulty and mining: the target computations and the two miners of \<open>pyrxd/glyph/dmint/miner.py\<close>. An external miner is
  any process: a function from the request to what comes back of it. Measured seconds are left out of the results.
\<close>

section \<open>The next target\<close>

definition trunc_div :: "int \<Rightarrow> int \<Rightarrow> int result" where
  "trunc_div a b =
     (if b = 0 then Err ZeroDivisionError
      else let q = \<bar>a\<bar> div \<bar>b\<bar> in Ok (if (a < 0) \<noteq> (b < 0) then - q else q))"

fun double_steps :: "nat \<Rightarrow> int \<Rightarrow> int" where
  "double_steps 0 t = t"
| "double_steps (Suc n) t = double_steps n (if t > MAX_SHA256D_TARGET div 2 then MAX_SHA256D_TARGET else t * 2)"

fun halve_steps :: "nat \<Rightarrow> int \<Rightarrow> int" where
  "halve_steps 0 t = t"
| "halve_steps (Suc n) t = halve_steps n (t div 2)"

definition compute_next_target_asert :: "int \<Rightarrow> int \<Rightarrow> int \<Rightarrow> int \<Rightarrow> int \<Rightarrow> int result" where
  "compute_next_target_asert current_target last_time current_time target_time half_life =
     bind_r (trunc_div ((current_time - last_time) - target_time) half_life) (\<lambda>drift.
       let drift = max (- 4) (min 4 drift);
           new_target = (if drift > 0 then double_steps (nat drift) current_target
                         else if drift < 0 then halve_steps (nat (- drift)) current_target
                         else current_target)
       in Ok (max 1 new_target))"

definition compute_next_target_asert_v2 :: "int \<Rightarrow> int \<Rightarrow> int \<Rightarrow> int \<Rightarrow> int \<Rightarrow> int result" where
  "compute_next_target_asert_v2 current_target last_time current_time target_time half_life =
     (let half_life = (if half_life < 1 then 1 else half_life);
          excess = (current_time - last_time) - target_time in
      bind_r (trunc_div (excess * ASERT_V2_RADIX) half_life) (\<lambda>drift_fp.
        let drift_fp = max (- ASERT_V2_DRIFT_CLAMP) (min ASERT_V2_DRIFT_CLAMP drift_fp);
            t = min current_target ASERT_V2_MAX_TARGET_DIV4;
            delta = (t div ASERT_V2_RADIX) * drift_fp;
            new_target = min (t + delta) ASERT_V2_MAX_TARGET_DIV4
        in Ok (max 1 new_target)))"

definition compute_next_target_linear :: "int \<Rightarrow> int \<Rightarrow> int \<Rightarrow> int \<Rightarrow> int result" where
  "compute_next_target_linear current_target last_time current_time target_time =
     (let time_delta_capped = max 0 (min (current_time - last_time) (4 * target_time));
          target_capped = min current_target (MAX_SHA256D_TARGET div 4) in
      if target_time = 0 then Err ZeroDivisionError
      else Ok (max 1 (min ((target_capped div target_time) * time_delta_capped) MAX_SHA256D_TARGET)))"

definition compute_next_target_epoch :: "int \<Rightarrow> int \<Rightarrow> int \<Rightarrow> int \<Rightarrow> int \<Rightarrow> int \<Rightarrow> int \<Rightarrow> int result" where
  "compute_next_target_epoch current_target last_time current_time target_time height epoch_length max_adjustment_log2 =
     (if height > 0 \<and> epoch_length = 0 then Err ZeroDivisionError
      else if height > 0 \<and> height mod epoch_length = 0 then
        (if max_adjustment_log2 < 0 then Err ValueError
         else
           let delta = current_time - last_time;
               upper = target_time * 2 ^ nat max_adjustment_log2;
               lower = target_time div 2 ^ nat max_adjustment_log2;
               clamped = max lower (min upper delta);
               target_capped = min current_target EPOCH_MAX_SAFE_TARGET in
           if target_time = 0 then Err ZeroDivisionError
           else Ok (max 1 (min ((target_capped div target_time) * clamped) EPOCH_MAX_SAFE_TARGET)))
      else Ok current_target)"

definition compute_next_target_schedule :: "int \<Rightarrow> int \<Rightarrow> (int \<times> int) list \<Rightarrow> int" where
  "compute_next_target_schedule current_target height schedule =
     foldl (\<lambda>new_target (boundary_height, boundary_target). if height \<ge> boundary_height then boundary_target else new_target)
       current_target schedule"

definition difficulty_to_target :: "int \<Rightarrow> dmint_algo \<Rightarrow> int result" where
  "difficulty_to_target difficulty algo =
     (if difficulty < 1 then Err ValidationError
      else if algo = SHA256D then Ok (MAX_SHA256D_TARGET div difficulty) else Ok (MAX_V2_TARGET_256 div difficulty))"

definition target_to_difficulty :: "int \<Rightarrow> dmint_algo \<Rightarrow> int result" where
  "target_to_difficulty target algo =
     (if target < 1 then Err ValidationError
      else if algo = SHA256D then Ok (MAX_SHA256D_TARGET div target) else Ok (MAX_V2_TARGET_256 div target))"

section \<open>Mining\<close>

definition verify_sha256d_solution :: "bytes \<Rightarrow> bytes \<Rightarrow> int \<Rightarrow> nat \<Rightarrow> bool result" where
  "verify_sha256d_solution preimg nonce target nonce_width =
     (if nonce_width \<noteq> 4 \<and> nonce_width \<noteq> 8 then Err ValidationError
      else if length nonce \<noteq> nonce_width then Err ValidationError
      else if target \<le> 0 then Ok False
      else
        let effective_target = min target MAX_SHA256D_TARGET;
            full = sha256 (sha256 (preimg @ nonce)) in
        if take 4 full \<noteq> [0, 0, 0, 0] then Ok False
        else Ok (int (be_val (pyslice 4 12 full)) < effective_target))"

record mine_result =
  mr_nonce :: bytes
  mr_attempts :: int

function mine_loop :: "bytes \<Rightarrow> int \<Rightarrow> nat \<Rightarrow> nat \<Rightarrow> nat \<Rightarrow> mine_result result" where
  "mine_loop preimg target nonce_width max_attempts n =
     (if n < max_attempts then
        bind_r (to_bytes_le (int n) nonce_width) (\<lambda>nonce.
        bind_r (verify_sha256d_solution preimg nonce target nonce_width) (\<lambda>ok.
          if ok then Ok \<lparr>mr_nonce = nonce, mr_attempts = int n + 1\<rparr>
          else mine_loop preimg target nonce_width max_attempts (Suc n)))
      else Err MaxAttemptsError)"
  by pat_completeness auto
termination by (relation "measure (\<lambda>(_, _, _, m, n). m - n)") auto

declare mine_loop.simps [simp del]

definition mine_solution :: "bytes \<Rightarrow> int \<Rightarrow> dmint_algo \<Rightarrow> nat \<Rightarrow> int \<Rightarrow> mine_result result" where
  "mine_solution preimg target algo nonce_width max_attempts =
     (if length preimg \<noteq> 64 then Err ValidationError
      else if target \<le> 0 then Err ValidationError
      else if nonce_width \<noteq> 4 \<and> nonce_width \<noteq> 8 then Err ValidationError
      else if max_attempts < 1 then Err ValidationError
      else if algo \<noteq> SHA256D then Err NotImplementedError
      else mine_loop preimg target nonce_width (nat max_attempts) 0)"

text \<open>
  What the standard library gives back: an exception of \<open>subprocess.run\<close>, or an exit code and the standard
  output, \<open>None\<close> if that is not UTF-8; and what \<open>json.loads\<close> can return, with the fields of an object in any order.
\<close>

datatype json = JNull | JBool bool | JInt int | JFloat | JStr string | JList | JObject "(string \<times> json) list"

datatype process_end = TimeoutExpired | FileNotFound | Completed int "string option"

definition jget :: "string \<Rightarrow> (string \<times> json) list \<Rightarrow> json" where
  "jget k fs = (case map_of fs k of None \<Rightarrow> JNull | Some v \<Rightarrow> v)"

definition says_exhausted :: "json option \<Rightarrow> bool" where
  "says_exhausted v = (case v of Some (JObject fs) \<Rightarrow> jget ''exhausted'' fs = JBool True | _ \<Rightarrow> False)"

definition reported_attempts :: "(string \<times> json) list \<Rightarrow> int" where
  "reported_attempts fs =
     (case map_of fs ''attempts'' of
        Some (JInt n) \<Rightarrow> if n < 0 \<or> n > 2 ^ 40 then 0 else n
      | Some (JBool b) \<Rightarrow> if b then 1 else 0
      | _ \<Rightarrow> 0)"

definition mine_solution_external ::
  "(string \<Rightarrow> json option) \<Rightarrow> (string list \<Rightarrow> string \<Rightarrow> int \<Rightarrow> nat \<Rightarrow> process_end) \<Rightarrow> bytes \<Rightarrow> int \<Rightarrow> string list \<Rightarrow> nat \<Rightarrow> mine_result result" where
  "mine_solution_external json_loads run_process preimg target miner_argv nonce_width =
     (if length preimg \<noteq> 64 then Err ValidationError
      else if target \<le> 0 then Err ValidationError
      else if nonce_width \<noteq> 4 \<and> nonce_width \<noteq> 8 then Err ValidationError
      else if miner_argv = [] then Err ValidationError
      else case run_process miner_argv (hex preimg) target nonce_width of
        TimeoutExpired \<Rightarrow> Err MaxAttemptsError
      | FileNotFound \<Rightarrow> Err OtherError
      | Completed returncode None \<Rightarrow> Err ValidationError
      | Completed returncode (Some stdout) \<Rightarrow>
          if length stdout > 4096 then Err ValidationError
          else if returncode = 2 \<and> (\<exists>c\<in>set stdout. \<not> ascii_space c) \<and> says_exhausted (json_loads stdout) then Err MaxAttemptsError
          else if returncode \<noteq> 0 then Err ValidationError
          else case json_loads stdout of
            Some (JObject fs) \<Rightarrow>
              (case jget ''nonce_hex'' fs of
                 JStr nonce_hex \<Rightarrow>
                   (case fromhex nonce_hex of
                      Inl _ \<Rightarrow> Err ValidationError
                    | Inr nonce \<Rightarrow>
                        if length nonce \<noteq> nonce_width then Err ValidationError
                        else bind_r (verify_sha256d_solution preimg nonce target nonce_width) (\<lambda>ok.
                          if \<not> ok then Err ValidationError
                          else Ok \<lparr>mr_nonce = nonce, mr_attempts = reported_attempts fs\<rparr>))
               | _ \<Rightarrow> Err ValidationError)
          | _ \<Rightarrow> Err ValidationError)"

definition mine_solution_dispatch ::
  "(string \<Rightarrow> json option) \<Rightarrow> (string list \<Rightarrow> string \<Rightarrow> int \<Rightarrow> nat \<Rightarrow> process_end) \<Rightarrow> bytes \<Rightarrow> int \<Rightarrow> nat \<Rightarrow> dmint_algo
     \<Rightarrow> string list option \<Rightarrow> int \<Rightarrow> mine_result result" where
  "mine_solution_dispatch json_loads run_process preimg target nonce_width algo miner_argv max_attempts =
     (case miner_argv of
        None \<Rightarrow> mine_solution preimg target algo nonce_width max_attempts
      | Some argv \<Rightarrow> mine_solution_external json_loads run_process preimg target argv nonce_width)"

section \<open>Bounds of the targets\<close>

lemma trunc_div_pos: "0 < b \<Longrightarrow> trunc_div a b = Ok (if a < 0 then - ((- a) div b) else a div b)"
  by (simp add: trunc_div_def Let_def)

text \<open>One step of the fractional formula: the drift enters as a 16-bit fraction between a quarter down and a quarter up.\<close>

lemma scaled_step:
  assumes "0 \<le> t" "\<bar>d\<bar> \<le> ASERT_V2_DRIFT_CLAMP"
  shows "4 * \<bar>(t div ASERT_V2_RADIX) * d\<bar> \<le> t"
proof -
  have "4 * \<bar>(t div ASERT_V2_RADIX) * d\<bar> = (t div ASERT_V2_RADIX) * (4 * \<bar>d\<bar>)"
    using assms(1) by (simp add: abs_mult ASERT_V2_RADIX_def pos_imp_zdiv_nonneg_iff)
  also have "\<dots> \<le> (t div ASERT_V2_RADIX) * ASERT_V2_RADIX"
    using assms by (intro mult_left_mono) (simp_all add: ASERT_V2_RADIX_def ASERT_V2_DRIFT_CLAMP_def pos_imp_zdiv_nonneg_iff)
  also have "\<dots> \<le> t" by (metis div_mult_mod_eq assms(1) ASERT_V2_RADIX_def le_add_same_cancel1 pos_mod_sign zero_less_numeral zero_less_power)
  finally show ?thesis .
qed

lemma asert_v2_step:
  assumes "1 \<le> t" "1 \<le> half_life"
  obtains d where "\<bar>d\<bar> \<le> ASERT_V2_DRIFT_CLAMP"
    "compute_next_target_asert_v2 t last_time now target_time half_life =
       Ok (max 1 (min (min t ASERT_V2_MAX_TARGET_DIV4 + (min t ASERT_V2_MAX_TARGET_DIV4 div ASERT_V2_RADIX) * d) ASERT_V2_MAX_TARGET_DIV4))"
    "0 \<le> now - last_time - target_time \<Longrightarrow> 0 \<le> d" "now - last_time - target_time \<le> 0 \<Longrightarrow> d \<le> 0"
proof -
  let ?e = "now - last_time - target_time"
  define q where "q = (if ?e * ASERT_V2_RADIX < 0 then - ((- (?e * ASERT_V2_RADIX)) div half_life) else (?e * ASERT_V2_RADIX) div half_life)"
  define d where "d = max (- ASERT_V2_DRIFT_CLAMP) (min ASERT_V2_DRIFT_CLAMP q)"
  have c: "0 \<le> ASERT_V2_DRIFT_CLAMP" by (simp add: ASERT_V2_DRIFT_CLAMP_def ASERT_V2_RADIX_def)
  have "trunc_div (?e * ASERT_V2_RADIX) half_life = Ok q" using assms(2) by (simp add: trunc_div_pos q_def)
  then have "compute_next_target_asert_v2 t last_time now target_time half_life =
       Ok (max 1 (min (min t ASERT_V2_MAX_TARGET_DIV4 + (min t ASERT_V2_MAX_TARGET_DIV4 div ASERT_V2_RADIX) * d) ASERT_V2_MAX_TARGET_DIV4))"
    using assms(2) by (simp add: compute_next_target_asert_v2_def d_def Let_def)
  moreover have "\<bar>d\<bar> \<le> ASERT_V2_DRIFT_CLAMP" using c by (auto simp: d_def)
  moreover have "0 \<le> ?e \<Longrightarrow> 0 \<le> q" using assms(2) by (auto simp: q_def ASERT_V2_RADIX_def pos_imp_zdiv_nonneg_iff)
  moreover have "?e \<le> 0 \<Longrightarrow> q \<le> 0" using assms(2) by (auto simp: q_def ASERT_V2_RADIX_def pos_imp_zdiv_nonneg_iff zero_less_mult_iff)
  ultimately show thesis using that c unfolding d_def by (metis max.coboundedI2 max.bounded_iff min.coboundedI2 min.bounded_iff neg_le_0_iff_le)
qed

lemma asert_v2_bounds:
  assumes "1 \<le> t" "1 \<le> half_life"
  shows "\<exists>n. compute_next_target_asert_v2 t last_time now target_time half_life = Ok n
    \<and> 1 \<le> n \<and> n \<le> ASERT_V2_MAX_TARGET_DIV4
    \<and> 4 * \<bar>n - min t ASERT_V2_MAX_TARGET_DIV4\<bar> \<le> min t ASERT_V2_MAX_TARGET_DIV4
    \<and> (now - last_time \<le> target_time \<longrightarrow> n \<le> min t ASERT_V2_MAX_TARGET_DIV4)
    \<and> (target_time \<le> now - last_time \<longrightarrow> min t ASERT_V2_MAX_TARGET_DIV4 \<le> n)"
proof -
  define u where "u = min t ASERT_V2_MAX_TARGET_DIV4"
  have u: "1 \<le> u" "u \<le> ASERT_V2_MAX_TARGET_DIV4"
    using assms(1) by (auto simp: u_def ASERT_V2_MAX_TARGET_DIV4_def MAX_SHA256D_TARGET_def)
  obtain d where d: "\<bar>d\<bar> \<le> ASERT_V2_DRIFT_CLAMP"
    and e: "compute_next_target_asert_v2 t last_time now target_time half_life =
      Ok (max 1 (min (u + (u div ASERT_V2_RADIX) * d) ASERT_V2_MAX_TARGET_DIV4))"
    and s: "0 \<le> now - last_time - target_time \<Longrightarrow> 0 \<le> d" "now - last_time - target_time \<le> 0 \<Longrightarrow> d \<le> 0"
    using asert_v2_step [OF assms, of last_time now target_time] unfolding u_def by metis
  define x where "x = (u div ASERT_V2_RADIX) * d"
  have x: "4 * \<bar>x\<bar> \<le> u" using scaled_step [OF _ d, of u] u by (simp add: x_def)
  have nn: "0 \<le> u div ASERT_V2_RADIX" using u by (simp add: ASERT_V2_RADIX_def pos_imp_zdiv_nonneg_iff)
  have sx: "0 \<le> now - last_time - target_time \<longrightarrow> 0 \<le> x" "now - last_time - target_time \<le> 0 \<longrightarrow> x \<le> 0"
    using s nn by (simp_all add: x_def mult_nonneg_nonpos)
  show ?thesis unfolding e x_def [symmetric] u_def [symmetric] using x sx u by (auto simp: max_def min_def)
qed

text \<open>The fractional difficulty adjustment is damped and goes the right way. From any positive target and half-life the new
  target is at least 1 and at most a quarter of the maximum; it differs by at most a quarter from the old one (capped
  at that maximum), does not rise after a block that came early and does not fall after a late one.\<close>

theorem asert_v2_damped:
  assumes "1 \<le> t" "1 \<le> half_life"
  shows "\<exists>n. compute_next_target_asert_v2 t last_time now target_time half_life = Ok n
    \<and> 1 \<le> n \<and> n \<le> ASERT_V2_MAX_TARGET_DIV4
    \<and> 4 * \<bar>n - min t ASERT_V2_MAX_TARGET_DIV4\<bar> \<le> min t ASERT_V2_MAX_TARGET_DIV4
    \<and> (now - last_time \<le> target_time \<longrightarrow> n \<le> min t ASERT_V2_MAX_TARGET_DIV4)
    \<and> (target_time \<le> now - last_time \<longrightarrow> min t ASERT_V2_MAX_TARGET_DIV4 \<le> n)"
  using assms by (rule asert_v2_bounds)

theorem asert_v2_damped_witness:
  "\<exists>n. compute_next_target_asert_v2 1000000 1000 1010 60 240 = Ok n \<and> n \<le> 1000000 \<and> 750000 \<le> n"
  using asert_v2_damped [of 1000000 240 1000 1010 60] by (auto simp: ASERT_V2_MAX_TARGET_DIV4_def MAX_SHA256D_TARGET_def)

section \<open>Where difficulty stays for ever\<close>

lemma asert_v2_frozen:
  assumes "1 \<le> t" "t < ASERT_V2_RADIX" "1 \<le> half_life"
  shows "compute_next_target_asert_v2 t last_time now target_time half_life = Ok t"
proof -
  have m: "min t ASERT_V2_MAX_TARGET_DIV4 = t" using assms by (simp add: ASERT_V2_RADIX_def ASERT_V2_MAX_TARGET_DIV4_def MAX_SHA256D_TARGET_def)
  then have "t \<le> ASERT_V2_MAX_TARGET_DIV4" by linarith
  moreover have "t div ASERT_V2_RADIX = 0" using assms by simp
  ultimately show ?thesis using assms asert_v2_step [OF assms(1,3), of last_time now target_time] m by (metis add_0_right max.absorb2 min.absorb1 mult_zero_left)
qed

lemma linear_stuck:
  assumes "1 \<le> t" "t < target_time"
  shows "compute_next_target_linear t last_time now target_time = Ok 1"
proof -
  have "min t (MAX_SHA256D_TARGET div 4) div target_time = 0"
    using assms by (intro div_pos_pos_trivial) (auto simp: MAX_SHA256D_TARGET_def)
  with assms show ?thesis by (simp add: compute_next_target_linear_def MAX_SHA256D_TARGET_def)
qed

lemma linear_same_time:
  assumes "0 < target_time" "now \<le> last_time"
  shows "compute_next_target_linear t last_time now target_time = Ok 1"
  using assms by (simp add: compute_next_target_linear_def MAX_SHA256D_TARGET_def max_def min_def)

text \<open>Three of the adjustments have a floor they cannot leave. The fractional formula never changes a target below 65536 again,
  whatever the block times, and one early block takes it from 65536 there. The linear
  formula answers 1 for a block that carries the time of its predecessor, which the mint builder admits, and then for
  ever, since a target below the target time always gives 1. The epoch formula does the same at every boundary.\<close>

theorem targets_get_stuck:
  assumes "2 \<le> target_time" "1 \<le> half_life" "1 \<le> epoch_length" "0 \<le> n"
  shows "(\<forall>t last_time now. 1 \<le> t \<and> t < 65536 \<longrightarrow> compute_next_target_asert_v2 t last_time now target_time half_life = Ok t)
    \<and> compute_next_target_asert_v2 65536 0 1 60 10 = Ok 49152
    \<and> (\<forall>t last_time. compute_next_target_linear t last_time last_time target_time = Ok 1)
    \<and> (\<forall>last_time now. compute_next_target_linear 1 last_time now target_time = Ok 1)
    \<and> (\<forall>last_time now height. compute_next_target_epoch 1 last_time now target_time height epoch_length n = Ok 1)"
proof (intro conjI allI impI)
  show "compute_next_target_asert_v2 65536 0 1 60 10 = Ok 49152" by code_simp
next
  fix last_time now height
  have "min 1 EPOCH_MAX_SAFE_TARGET div target_time = 0" using assms(1) by (simp add: EPOCH_MAX_SAFE_TARGET_def)
  then show "compute_next_target_epoch 1 last_time now target_time height epoch_length n = Ok 1"
    using assms by (simp add: compute_next_target_epoch_def EPOCH_MAX_SAFE_TARGET_def Let_def)
qed (use assms in \<open>auto simp: linear_stuck linear_same_time ASERT_V2_RADIX_def intro!: asert_v2_frozen\<close>)

theorem targets_get_stuck_witness:
  "compute_next_target_linear 1000000 77 77 60 = Ok 1 \<and> compute_next_target_linear 1 77 100000 60 = Ok 1
   \<and> compute_next_target_asert_v2 49152 0 1000000 60 10 = Ok 49152"
  using targets_get_stuck [of 60 10 1 0] by simp

section \<open>Miners\<close>

definition solves :: "bytes \<Rightarrow> int \<Rightarrow> nat \<Rightarrow> nat \<Rightarrow> bool" where
  "solves preimg target nonce_width n \<longleftrightarrow> verify_sha256d_solution preimg (le_bytes nonce_width n) target nonce_width = Ok True"

lemma verify_total: "w = 4 \<or> w = 8 \<Longrightarrow> length nonce = w \<Longrightarrow> \<exists>b. verify_sha256d_solution preimg nonce target w = Ok b"
  by (auto simp: verify_sha256d_solution_def Let_def)

lemma mine_loop_step:
  assumes "w = 4 \<or> w = 8"
  shows "mine_loop preimg target w m n =
    (if m \<le> n then Err MaxAttemptsError
     else if 256 ^ w \<le> n then Err OverflowError
     else if solves preimg target w n then Ok \<lparr>mr_nonce = le_bytes w n, mr_attempts = int n + 1\<rparr>
     else mine_loop preimg target w m (Suc n))"
proof -
  have lt: "int n < 256 ^ w \<longleftrightarrow> n < 256 ^ w" by (metis of_nat_less_iff of_nat_numeral of_nat_power)
  obtain b where b: "verify_sha256d_solution preimg (le_bytes w n) target w = Ok b" using verify_total [OF assms length_le_bytes] by blast
  show ?thesis using b lt assms by (subst mine_loop.simps) (auto simp: to_bytes_le_def solves_def not_less)
qed

lemma mine_loop_finds:
  assumes w: "w = 4 \<or> w = 8" and "n \<le> k" "k < m" "k < 256 ^ w" "solves preimg target w k" "\<forall>j. n \<le> j \<and> j < k \<longrightarrow> \<not> solves preimg target w j"
  shows "mine_loop preimg target w m n = Ok \<lparr>mr_nonce = le_bytes w k, mr_attempts = int k + 1\<rparr>"
  using assms(2-)
proof (induction "k - n" arbitrary: n)
  case 0
  then show ?case by (subst mine_loop_step [OF w]) simp
next
  case (Suc d)
  then have "\<not> solves preimg target w n" "mine_loop preimg target w m (Suc n) = Ok \<lparr>mr_nonce = le_bytes w k, mr_attempts = int k + 1\<rparr>" by simp_all
  with Suc.prems Suc.hyps(2) show ?case by (subst mine_loop_step [OF w]) auto
qed

lemma mine_loop_fails:
  assumes w: "w = 4 \<or> w = 8" and "n \<le> min m (256 ^ w)" "\<forall>j. n \<le> j \<and> j < m \<and> j < 256 ^ w \<longrightarrow> \<not> solves preimg target w j"
  shows "mine_loop preimg target w m n = Err (if m \<le> 256 ^ w then MaxAttemptsError else OverflowError)"
  using assms(2-)
proof (induction "min m (256 ^ w) - n" arbitrary: n)
  case 0
  then show ?case by (subst mine_loop_step [OF w]) auto
next
  case (Suc d)
  then have "n < m" "n < 256 ^ w" by linarith+
  moreover from this Suc.prems have "\<not> solves preimg target w n" by simp
  moreover have "mine_loop preimg target w m (Suc n) = Err (if m \<le> 256 ^ w then MaxAttemptsError else OverflowError)"
    using Suc \<open>n < m\<close> \<open>n < 256 ^ w\<close> by (intro Suc.hyps(1)) auto
  ultimately show ?case by (subst mine_loop_step [OF w]) simp
qed

text \<open>The reference miner is a complete search. With arguments in range it returns the least nonce that the verifier accepts among the
  first \<open>max_attempts\<close> ones that fit the width, with the number of nonces tried; if there is none, it raises
  \<open>MaxAttemptsError\<close>, or \<open>OverflowError\<close> when more attempts were allowed than there are nonces.\<close>

theorem mine_solution_least:
  assumes "length preimg = 64" "0 < target" "w = 4 \<or> w = 8" "1 \<le> max_attempts"
  shows "(\<exists>k. int k < max_attempts \<and> k < 256 ^ w \<and> solves preimg target w k \<and> (\<forall>j<k. \<not> solves preimg target w j)
       \<and> mine_solution preimg target SHA256D w max_attempts = Ok \<lparr>mr_nonce = le_bytes w k, mr_attempts = int k + 1\<rparr>)
    \<or> ((\<forall>k. int k < max_attempts \<and> k < 256 ^ w \<longrightarrow> \<not> solves preimg target w k)
       \<and> mine_solution preimg target SHA256D w max_attempts = Err (if max_attempts \<le> 256 ^ w then MaxAttemptsError else OverflowError))"
proof -
  have s: "mine_solution preimg target SHA256D w max_attempts = mine_loop preimg target w (nat max_attempts) 0"
    using assms by (auto simp: mine_solution_def)
  have le: "nat max_attempts \<le> 256 ^ w \<longleftrightarrow> max_attempts \<le> 256 ^ w"
    using assms(4) by (metis nat_le_iff of_nat_numeral of_nat_power)
  show ?thesis
  proof (cases "\<exists>k. k < nat max_attempts \<and> k < 256 ^ w \<and> solves preimg target w k")
    case True
    define k where "k = (LEAST k. k < nat max_attempts \<and> k < 256 ^ w \<and> solves preimg target w k)"
    have k: "k < nat max_attempts \<and> k < 256 ^ w \<and> solves preimg target w k" unfolding k_def by (rule LeastI_ex [OF True])
    have "\<not> solves preimg target w j" if "j < k" for j
      using not_less_Least [OF that [unfolded k_def]] k that by auto
    with k show ?thesis using mine_loop_finds [OF assms(3), of 0 k "nat max_attempts"] s by auto
  next
    case False
    then have f: "\<not> solves preimg target w k" if "int k < max_attempts" "k < 256 ^ w" for k using that by auto
    have "mine_loop preimg target w (nat max_attempts) 0 = Err (if max_attempts \<le> 256 ^ w then MaxAttemptsError else OverflowError)"
      unfolding le [symmetric] using f by (intro mine_loop_fails assms(3)) auto
    with f s show ?thesis by auto
  qed
qed

theorem mine_solution_least_witness:
  "(\<exists>k. int k < 5 \<and> solves (replicate 64 0) 1000 4 k
       \<and> mine_solution (replicate 64 0) 1000 SHA256D 4 5 = Ok \<lparr>mr_nonce = le_bytes 4 k, mr_attempts = int k + 1\<rparr>)
   \<or> mine_solution (replicate 64 0) 1000 SHA256D 4 5 = Err MaxAttemptsError"
  using mine_solution_least [of "replicate 64 0" 1000 4 5] by auto

lemma external_verified:
  "mine_solution_external json_loads run_process preimg target argv w = Ok r \<Longrightarrow>
     length (mr_nonce r) = w \<and> verify_sha256d_solution preimg (mr_nonce r) target w = Ok True"
  by (auto simp: mine_solution_external_def bind_r_Ok_iff split: if_splits process_end.splits option.splits json.splits sum.splits)

lemma mine_loop_verified:
  "mine_loop preimg target w m n = Ok r \<Longrightarrow> length (mr_nonce r) = w \<and> verify_sha256d_solution preimg (mr_nonce r) target w = Ok True"
proof (induction preimg target w m n rule: mine_loop.induct)
  case (1 preimg target w m n)
  from 1(2) show ?case
    by (subst (asm) mine_loop.simps) (auto simp: bind_r_Ok_iff to_bytes_le_def split: if_splits dest: 1(1))
qed

text \<open>A nonce from either miner has the width asked for, and its double hash begins with four zero bytes followed by a number below the
  target.\<close>

lemma mined_nonce_solves:
  assumes "mine_solution_dispatch json_loads run_process preimg target w algo argv max_attempts = Ok r"
  shows "length (mr_nonce r) = w \<and> take 4 (hash256 (preimg @ mr_nonce r)) = [0, 0, 0, 0]
    \<and> int (be_val (pyslice 4 12 (hash256 (preimg @ mr_nonce r)))) < target"
proof -
  have "length (mr_nonce r) = w \<and> verify_sha256d_solution preimg (mr_nonce r) target w = Ok True"
    using assms external_verified mine_loop_verified
    by (fastforce simp: mine_solution_dispatch_def mine_solution_def split: option.splits if_splits)
  then show ?thesis by (auto simp: verify_sha256d_solution_def hash256_def Let_def split: if_splits)
qed


end
