(* ===== verification/Dmint_Vm.thy ===== *)
theory Dmint_Vm
  imports Dmint_Daa
begin

text \<open>
  The evaluator with which \<open>tests/test_dmint_daa_offchain_onchain_differential.py\<close> runs the difficulty bytecode, and what that
  test samples, proved for all inputs: the bytecode that \<open>builders.py\<close> emits computes the targets of \<open>miner.py\<close>.
  The stack is a list with its top first; integers out of the range of 64 bits abort.
\<close>

section \<open>The evaluator\<close>

definition INT64_MAX :: int where "INT64_MAX = 2 ^ 63 - 1"
definition INT64_MIN :: int where "INT64_MIN = - (2 ^ 63)"

definition cs_encode :: "int \<Rightarrow> bytes" where
  "cs_encode n = (if n = 0 then [] else signed_le n)"

definition cs_decode :: "bytes \<Rightarrow> int" where
  "cs_decode b =
     (if b = [] then 0
      else
        let a = int (le_val b) in
        if last b AND 0x80 \<noteq> 0 then - (a AND NOT (0x80 * 2 ^ (8 * (length b - 1)))) else a)"

definition int64 :: "int \<Rightarrow> bool" where
  "int64 n \<longleftrightarrow> \<not> (n > INT64_MAX \<or> n < INT64_MIN)"

definition vm_push :: "int \<Rightarrow> bytes list \<Rightarrow> bytes list result" where
  "vm_push n stack = (if int64 n then Ok (cs_encode n # stack) else Err OtherError)"

text \<open>The binary operations; \<open>None\<close> for any other opcode.\<close>

definition vm_binary :: "byte \<Rightarrow> int \<Rightarrow> int \<Rightarrow> int result option" where
  "vm_binary op a b =
     (if op = 0x93 then Some (Ok (a + b))
      else if op = 0x94 then Some (Ok (a - b))
      else if op = 0x95 then Some (if int64 (a * b) then Ok (a * b) else Err OtherError)
      else if op = 0x96 then Some (if b = 0 then Err OtherError else trunc_div a b)
      else if op = 0x97 then Some (if b = 0 then Err OtherError else bind_r (trunc_div a b) (\<lambda>q. Ok (a - q * b)))
      else if op = 0x9A then Some (Ok (if a \<noteq> 0 \<and> b \<noteq> 0 then 1 else 0))
      else if op = 0x9C then Some (Ok (if a = b then 1 else 0))
      else if op = 0x9F then Some (Ok (if a < b then 1 else 0))
      else if op = 0xA0 then Some (Ok (if a > b then 1 else 0))
      else if op = 0xA2 then Some (Ok (if a \<ge> b then 1 else 0))
      else if op = 0xA3 then Some (Ok (min a b))
      else if op = 0xA4 then Some (Ok (max a b))
      else None)"

text \<open>One opcode that is executed and is neither a push of data nor a conditional.\<close>

definition vm_op :: "int \<Rightarrow> byte \<Rightarrow> bytes list \<Rightarrow> bytes list result" where
  "vm_op locktime op stack =
     (if op = 0x00 then Ok ([] # stack)
      else if op = 0x51 then vm_push 1 stack
      else if 0x52 \<le> unat op \<and> unat op \<le> 0x60 then vm_push (int (unat op) - 0x50) stack
      else if op = 0x76 then (case stack of x # _ \<Rightarrow> Ok (x # stack) | [] \<Rightarrow> Err IndexError)
      else if op = 0x75 then (case stack of _ # s \<Rightarrow> Ok s | [] \<Rightarrow> Err IndexError)
      else if op = 0x7C then (case stack of x # y # s \<Rightarrow> Ok (y # x # s) | _ \<Rightarrow> Err IndexError)
      else if op = 0x7B then (case stack of x # y # z # s \<Rightarrow> Ok (z # x # y # s) | _ \<Rightarrow> Err IndexError)
      else if op = 0x79 then
        (case stack of
           [] \<Rightarrow> Err IndexError
         | n # s \<Rightarrow> bind_r (py_index (rev s) (- 1 - cs_decode n)) (\<lambda>x. Ok (x # s)))
      else if op = 0xC5 then vm_push locktime stack
      else if op \<in> {0x8C, 0x8D, 0x8E, 0x8F} then
        (case stack of
           [] \<Rightarrow> Err IndexError
         | x # s \<Rightarrow>
             let n = cs_decode x in
             if op = 0x8C then vm_push (n - 1) s
             else if op = 0x8D then vm_push (n * 2) s
             else if op = 0x8E then bind_r (trunc_div n 2) (\<lambda>q. vm_push q s)
             else vm_push (- n) s)
      else case stack of
        b # a # s \<Rightarrow> (case vm_binary op (cs_decode a) (cs_decode b) of Some r \<Rightarrow> bind_r r (\<lambda>n. vm_push n s) | None \<Rightarrow> Err OtherError)
      | _ \<Rightarrow> (if vm_binary op 0 0 = None then Err OtherError else Err IndexError))"

function vm_run :: "int \<Rightarrow> bytes \<Rightarrow> bytes list \<Rightarrow> bool list \<Rightarrow> bytes list result" where
  "vm_run locktime [] stack exec_stack = Ok stack"
| "vm_run locktime (op # code) stack exec_stack =
     (if op = 0x63 then
        (if list_all (\<lambda>b. b) exec_stack then
           (case stack of [] \<Rightarrow> Err IndexError | x # s \<Rightarrow> vm_run locktime code s ((cs_decode x \<noteq> 0) # exec_stack))
         else vm_run locktime code stack (False # exec_stack))
      else if op = 0x67 then (case exec_stack of [] \<Rightarrow> Err IndexError | b # bs \<Rightarrow> vm_run locktime code stack ((\<not> b) # bs))
      else if op = 0x68 then (case exec_stack of [] \<Rightarrow> Err IndexError | b # bs \<Rightarrow> vm_run locktime code stack bs)
      else if \<not> list_all (\<lambda>b. b) exec_stack then
        vm_run locktime (if 0x01 \<le> unat op \<and> unat op \<le> 0x4B then drop (unat op) code else code) stack exec_stack
      else if 0x01 \<le> unat op \<and> unat op \<le> 0x4B then
        vm_run locktime (drop (unat op) code) (take (unat op) code # stack) exec_stack
      else bind_r (vm_op locktime op stack) (\<lambda>s. vm_run locktime code s exec_stack))"
  by pat_completeness auto
termination by (relation "measure (\<lambda>(_, code, _, _). length code)") auto

declare vm_run.simps(2) [simp del]

text \<open>The stack the test starts from: the ten items of a state, of which the fragments read four.\<close>

definition daa_stack :: "int \<Rightarrow> int \<Rightarrow> int \<Rightarrow> int \<Rightarrow> int \<Rightarrow> bytes list" where
  "daa_stack height mode target_time last_time target =
     map cs_encode [target, last_time, target_time, mode, 0, 0, 0, 0, 0, height]"

definition onchain :: "bytes \<Rightarrow> int \<Rightarrow> bytes list \<Rightarrow> int result" where
  "onchain code locktime stack =
     bind_r (vm_run locktime code stack []) (\<lambda>s. case s of [] \<Rightarrow> Err IndexError | x # _ \<Rightarrow> Ok (cs_decode x))"

section \<open>Numbers on the stack\<close>

lemma and_not_top:
  assumes "0 \<le> x" "x < 2 ^ k"
  shows "(x + 2 ^ k) AND NOT (2 ^ k) = (x :: int)"
proof -
  from assms have "\<not> bit x k" by (simp add: bit_iff_odd)
  then have z: "x AND 2 ^ k = 0" by (simp add: and_exp_eq_0_iff_not_bit)
  then have "x + 2 ^ k = x OR 2 ^ k" by (rule disjunctive_add_eq_or)
  then have "(x + 2 ^ k) AND NOT (2 ^ k) = x AND NOT (2 ^ k)" by (simp add: bit.conj_disj_distrib2)
  also have "\<dots> = x" using \<open>\<not> bit x k\<close> by (auto intro!: bit_eqI simp: bit_simps)
  finally show ?thesis .
qed

lemma cs_decode_script_num: "cs_decode b = script_num b"
proof (cases b rule: rev_cases)
  case Nil
  then show ?thesis by (simp add: cs_decode_def script_num_def)
next
  case (snoc bs c)
  show ?thesis
  proof (cases "last b AND 0x80 \<noteq> 0")
    case False
    then show ?thesis using snoc by (simp add: cs_decode_def decode_script_num [symmetric] decode_script_le_int_def)
  next
    case True
    define k where "k = 8 * length bs + 7"
    define x where "x = int (le_val b) - 2 ^ k"
    have two: "(0x80 * 2 ^ (8 * length bs) :: int) = 2 ^ k" by (simp add: k_def power_add)
    have c: "128 \<le> unat c" using True snoc by (simp add: byte_top_bit)
    have p: "(256 :: int) ^ length bs = 2 ^ (8 * length bs)" by (simp add: power_mult)
    have v: "int (le_val b) = int (le_val bs) + 256 ^ length bs * int (unat c)" by (simp add: snoc le_val_append)
    have "(128 :: int) \<le> int (unat c)" using c by linarith
    then have "256 ^ length bs * 128 \<le> 256 ^ length bs * int (unat c)" by (rule mult_left_mono) simp
    moreover have "(2 :: int) ^ k = 256 ^ length bs * 128" by (simp add: k_def power_add p)
    ultimately have x0: "0 \<le> x" unfolding x_def v by linarith
    have "int (le_val b) < 2 * 2 ^ k"
    proof -
      have "int (le_val b) < int (256 ^ length b)" using le_val_less [of b] by (rule less_imp_of_nat_less)
      then show ?thesis by (simp add: snoc k_def power_add power_mult)
    qed
    then have x1: "x < 2 ^ k" unfolding x_def by linarith
    have "int (le_val b) = x + 2 ^ k" by (simp add: x_def)
    moreover have "length b - 1 = length bs" "b \<noteq> []" using snoc by simp_all
    ultimately show ?thesis
      using True two and_not_top [OF x0 x1] xor_top [OF x0 x1]
      by (simp add: cs_decode_def decode_script_num [symmetric] decode_script_le_int_def Let_def)
  qed
qed

lemma cs_decode_encode [simp]: "cs_decode (cs_encode n) = n"
  using int_octets_value [of n] by (simp add: cs_decode_script_num cs_encode_def signed_le_octets script_num_def [of "[]"])

lemma cs_decode_Nil [simp]: "cs_decode [] = 0"
  by (simp add: cs_decode_def)

section \<open>Symbolic execution\<close>

text \<open>One rule for each kind of opcode, in a part of the code that is executed.\<close>

abbreviation live :: "bool list \<Rightarrow> bool" where
  "live ex \<equiv> list_all (\<lambda>b. b) ex"

lemma vm_if: "live ex \<Longrightarrow> vm_run lt (0x63 # c) (x # s) ex = vm_run lt c s ((cs_decode x \<noteq> 0) # ex)"
  by (simp add: vm_run.simps(2))

lemma vm_else: "vm_run lt (0x67 # c) s (b # ex) = vm_run lt c s ((\<not> b) # ex)"
  by (simp add: vm_run.simps(2))

lemma vm_endif: "vm_run lt (0x68 # c) s (b # ex) = vm_run lt c s ex"
  by (simp add: vm_run.simps(2))

lemma vm_data:
  assumes "live ex" "length d \<le> 75" "d \<noteq> []"
  shows "vm_run lt (word_of_nat (length d) # d @ c) s ex = vm_run lt c (d # s) ex"
proof -
  have u: "unat (word_of_nat (length d) :: byte) = length d" using assms by (simp add: unat_word_of_nat_byte)
  then have "(word_of_nat (length d) :: byte) \<notin> {0x63, 0x67, 0x68}" using assms by (auto simp: word_unat_eq_iff)
  with u assms show ?thesis by (simp add: vm_run.simps(2) Suc_le_eq)
qed

lemma vm_plain:
  assumes "live ex" "0x4B < unat op \<or> op = 0" "op \<notin> {0x63, 0x67, 0x68}" "vm_op lt op s = Ok s'"
  shows "vm_run lt (op # c) s ex = vm_run lt c s' ex"
  using assms by (auto simp: vm_run.simps(2))

text \<open>Numbers below 64 bits are pushed as they are.\<close>

lemma vm_push_num:
  assumes "push_minimal n = Ok p" "int64 n" "n \<noteq> - 1" "live ex"
  shows "vm_run lt (p @ c) s ex = vm_run lt c (cs_encode n # s) ex"
proof -
  consider "n = 0" | "n = 1" | "2 \<le> n" "n \<le> 16" | "n < 0 \<or> 16 < n" by linarith
  then show ?thesis
  proof cases
    case 1
    then show ?thesis using vm_plain [of ex 0 lt s "[] # s" c] assms by (auto simp: vm_op_def push_minimal_def cs_encode_def)
  next
    case 2
    then show ?thesis using vm_plain [of ex "0x51" lt s "cs_encode 1 # s" c] assms
      by (auto simp: vm_op_def vm_push_def push_minimal_def)
  next
    case 3
    define op :: byte where "op = word_of_int (0x50 + n)"
    have "uint op = (0x50 + n) mod 256" unfolding op_def by (simp only: uint_word_of_int) simp
    with 3 have "uint op = 0x50 + n" by simp
    then have u: "unat op = nat (0x50 + n)" by (metis nat_uint_eq)
    with 3 have "op \<notin> {0, 0x51, 0x63, 0x67, 0x68}" by (auto simp: word_unat_eq_iff)
    moreover have "0x52 \<le> unat op" "unat op \<le> 0x60" "int (unat op) - 0x50 = n" using 3 u by auto
    ultimately have "vm_run lt (op # c) s ex = vm_run lt c (cs_encode n # s) ex"
      using assms by (intro vm_plain) (auto simp: vm_op_def vm_push_def)
    with 3 assms(1) show ?thesis by (auto simp: op_def push_minimal_def)
  next
    case 4
    have "nat \<bar>n\<bar> < 256 ^ 8" using assms(2) by (auto simp: int64_def INT64_MAX_def INT64_MIN_def nat_less_iff)
    then have "byte_digits (nat \<bar>n\<bar>) \<le> 8" by (rule byte_digits_le) simp
    with length_int_octets [of n] have l: "length (int_octets n) \<le> 9" by simp
    with 4 assms have "p = word_of_nat (length (int_octets n)) # int_octets n"
      by (auto simp: push_minimal_def signed_le_octets Let_def split: if_splits)
    then show ?thesis using vm_data [of ex "int_octets n" lt c s] assms(4) int_octets_nonempty l 4
      by (auto simp: cs_encode_def signed_le_octets)
  qed
qed

named_theorems vm_steps \<open>execution of single opcodes\<close>

lemma vm_arith [vm_steps]:
  assumes "live ex"
  shows "int64 (cs_decode a + cs_decode b) \<Longrightarrow> vm_run lt (0x93 # c) (b # a # s) ex = vm_run lt c (cs_encode (cs_decode a + cs_decode b) # s) ex"
    "int64 (cs_decode a - cs_decode b) \<Longrightarrow> vm_run lt (0x94 # c) (b # a # s) ex = vm_run lt c (cs_encode (cs_decode a - cs_decode b) # s) ex"
    "int64 (cs_decode a * cs_decode b) \<Longrightarrow> vm_run lt (0x95 # c) (b # a # s) ex = vm_run lt c (cs_encode (cs_decode a * cs_decode b) # s) ex"
    "int64 (min (cs_decode a) (cs_decode b)) \<Longrightarrow> vm_run lt (0xA3 # c) (b # a # s) ex = vm_run lt c (cs_encode (min (cs_decode a) (cs_decode b)) # s) ex"
    "int64 (max (cs_decode a) (cs_decode b)) \<Longrightarrow> vm_run lt (0xA4 # c) (b # a # s) ex = vm_run lt c (cs_encode (max (cs_decode a) (cs_decode b)) # s) ex"
    "trunc_div (cs_decode a) (cs_decode b) = Ok q \<Longrightarrow> int64 q \<Longrightarrow> vm_run lt (0x96 # c) (b # a # s) ex = vm_run lt c (cs_encode q # s) ex"
  using assms by (auto intro!: vm_plain simp: vm_op_def vm_binary_def vm_push_def trunc_div_def split: if_splits)

definition flag :: "bool \<Rightarrow> int" where
  "flag b = (if b then 1 else 0)"

lemma int64_flag [simp]: "int64 (flag b)" and flag_eq_0 [simp]: "flag b = 0 \<longleftrightarrow> \<not> b"
  by (simp_all add: flag_def int64_def INT64_MAX_def INT64_MIN_def)

lemma vm_compare [vm_steps]:
  assumes "live ex"
  shows "vm_run lt (0x9A # c) (b # a # s) ex = vm_run lt c (cs_encode (flag (cs_decode a \<noteq> 0 \<and> cs_decode b \<noteq> 0)) # s) ex"
    "vm_run lt (0x9C # c) (b # a # s) ex = vm_run lt c (cs_encode (flag (cs_decode a = cs_decode b)) # s) ex"
    "vm_run lt (0x9F # c) (b # a # s) ex = vm_run lt c (cs_encode (flag (cs_decode a < cs_decode b)) # s) ex"
    "vm_run lt (0xA0 # c) (b # a # s) ex = vm_run lt c (cs_encode (flag (cs_decode a > cs_decode b)) # s) ex"
    "vm_run lt (0xA2 # c) (b # a # s) ex = vm_run lt c (cs_encode (flag (cs_decode a \<ge> cs_decode b)) # s) ex"
  using assms by (auto intro!: vm_plain simp: vm_op_def vm_binary_def vm_push_def flag_def int64_def INT64_MAX_def INT64_MIN_def)

lemma vm_stack [vm_steps]:
  assumes "live ex"
  shows "vm_run lt (0x76 # c) (x # s) ex = vm_run lt c (x # x # s) ex"
    "vm_run lt (0x75 # c) (x # s) ex = vm_run lt c s ex"
    "vm_run lt (0x7C # c) (x # y # s) ex = vm_run lt c (y # x # s) ex"
    "vm_run lt (0x7B # c) (x # y # z # s) ex = vm_run lt c (z # x # y # s) ex"
    "int64 lt \<Longrightarrow> vm_run lt (0xC5 # c) s ex = vm_run lt c (cs_encode lt # s) ex"
    "int64 (cs_decode x - 1) \<Longrightarrow> vm_run lt (0x8C # c) (x # s) ex = vm_run lt c (cs_encode (cs_decode x - 1) # s) ex"
    "int64 (cs_decode x * 2) \<Longrightarrow> vm_run lt (0x8D # c) (x # s) ex = vm_run lt c (cs_encode (cs_decode x * 2) # s) ex"
    "int64 (- cs_decode x) \<Longrightarrow> vm_run lt (0x8F # c) (x # s) ex = vm_run lt c (cs_encode (- cs_decode x) # s) ex"
  using assms by (auto intro!: vm_plain simp: vm_op_def vm_push_def)

lemma vm_2div [vm_steps]:
  "live ex \<Longrightarrow> 0 \<le> cs_decode x \<Longrightarrow> int64 (cs_decode x) \<Longrightarrow> vm_run lt (0x8E # c) (x # s) ex = vm_run lt c (cs_encode (cs_decode x div 2) # s) ex"
  by (rule vm_plain) (auto simp: vm_op_def vm_push_def trunc_div_pos int64_def INT64_MAX_def INT64_MIN_def Let_def)

lemma vm_small [vm_steps]:
  assumes "live ex"
  shows "vm_run lt (0x00 # c) s ex = vm_run lt c (cs_encode 0 # s) ex"
    "vm_run lt (0x51 # c) s ex = vm_run lt c (cs_encode 1 # s) ex"
    "vm_run lt (0x52 # c) s ex = vm_run lt c (cs_encode 2 # s) ex"
    "vm_run lt (0x53 # c) s ex = vm_run lt c (cs_encode 3 # s) ex"
    "vm_run lt (0x54 # c) s ex = vm_run lt c (cs_encode 4 # s) ex"
    "vm_run lt (0x59 # c) s ex = vm_run lt c (cs_encode 9 # s) ex"
  using assms by (auto intro!: vm_plain simp: vm_op_def vm_push_def int64_def INT64_MAX_def INT64_MIN_def cs_encode_def [of 0])

lemma vm_pick [vm_steps]:
  assumes "live ex" "cs_decode n = int k" "k < length s"
  shows "vm_run lt (0x79 # c) (n # s) ex = vm_run lt c (s ! k # s) ex"
proof -
  have "nat (int (length s) + (- 1 - int k)) = length s - Suc k" using assms(3) by simp
  then have "py_index (rev s) (- 1 - int k) = Ok (s ! k)"
    using assms(3) by (simp add: py_index_def rev_nth)
  then show ?thesis using assms by (intro vm_plain) (auto simp: vm_op_def)
qed

lemmas vm_flow [vm_steps] = vm_if vm_else vm_endif

lemma int64_min [simp]: "int64 a \<Longrightarrow> int64 b \<Longrightarrow> int64 (min a b)" and int64_max [simp]: "int64 a \<Longrightarrow> int64 b \<Longrightarrow> int64 (max a b)"
  by (simp_all add: min_def max_def)

lemma vm_dead: "\<not> live ex \<Longrightarrow> 0x4B < unat op \<or> op = 0 \<Longrightarrow> op \<notin> {0x63, 0x67, 0x68} \<Longrightarrow> vm_run lt (op # c) s ex = vm_run lt c s ex"
  by (auto simp: vm_run.simps(2))

lemma vm_clamp:
  assumes "live ex"
  shows "vm_run lt (0x76 # 0x51 # 0x9F # 0x63 # 0x75 # 0x51 # 0x68 # c) (x # s) ex = vm_run lt c ((if cs_decode x < 1 then cs_encode 1 else x) # s) ex"
  using assms by (cases "cs_decode x < 1") (simp_all add: vm_steps vm_dead)

lemma clamp_decode: "cs_decode (if cs_decode x < 1 then cs_encode 1 else x) = max 1 (cs_decode x)"
  by simp

lemma int64_between: "0 \<le> a \<Longrightarrow> a \<le> b \<Longrightarrow> int64 b \<Longrightarrow> int64 a"
  by (auto simp: int64_def INT64_MIN_def)

lemma int64_div: "0 \<le> a \<Longrightarrow> 0 < b \<Longrightarrow> int64 a \<Longrightarrow> int64 (a div b)"
  by (rule int64_between [of _ a]) (use zdiv_mono2 [of a 1 b] in \<open>simp_all add: pos_imp_zdiv_nonneg_iff\<close>)

lemma trunc_div_nn: "0 \<le> a \<Longrightarrow> 0 < b \<Longrightarrow> trunc_div a b = Ok (a div b)"
  by (simp add: trunc_div_pos)

section \<open>Linear adjustment\<close>

text \<open>The data pushes that stand in the code.\<close>

lemma vm_data8 [vm_steps]: "live ex \<Longrightarrow> vm_run lt (0x08 # a # b # c # d # e # f # g # h # r) s ex = vm_run lt r ([a, b, c, d, e, f, g, h] # s) ex"
  using vm_data [of ex "[a, b, c, d, e, f, g, h]" lt r s] by simp

lemma max_target_bytes [simp]: "cs_decode [0xFF, 0xFF, 0xFF, 0xFF, 0xFF, 0xFF, 0xFF, 0x7F] = MAX_SHA256D_TARGET"
  by (simp add: cs_decode_def MAX_SHA256D_TARGET_def)

lemma half_target_bytes [simp]: "cs_decode [0xFF, 0xFF, 0xFF, 0xFF, 0xFF, 0xFF, 0xFF, 0x3F] = MAX_SHA256D_TARGET div 2"
  by (simp add: cs_decode_def MAX_SHA256D_TARGET_def)

lemma quarter_target_bytes [simp]: "cs_decode [0xFF, 0xFF, 0xFF, 0xFF, 0xFF, 0xFF, 0xFF, 0x1F] = MAX_SHA256D_TARGET div 4"
  by (simp add: cs_decode_def MAX_SHA256D_TARGET_def)

lemma int64_targets [simp]: "int64 MAX_SHA256D_TARGET" "int64 (MAX_SHA256D_TARGET div 2)" "int64 (MAX_SHA256D_TARGET div 4)" "int64 0" "int64 1"
  by (simp_all add: int64_def INT64_MAX_def INT64_MIN_def MAX_SHA256D_TARGET_def)

lemma linear_product:
  assumes "0 \<le> t" "0 < tt" "0 \<le> d" "d \<le> tt * 4" "t \<le> MAX_SHA256D_TARGET div 4"
  shows "int64 (d * (t div tt))"
proof -
  have q: "0 \<le> t div tt" using assms by (simp add: pos_imp_zdiv_nonneg_iff)
  have "d * (t div tt) \<le> (tt * 4) * (t div tt)" using assms(4) q by (rule mult_right_mono)
  also have "\<dots> = 4 * (tt * (t div tt))" by simp
  also have "\<dots> \<le> 4 * t" using assms(2) by (simp add: mult.commute [of tt] minus_mod_eq_div_mult [symmetric])
  finally have "d * (t div tt) \<le> MAX_SHA256D_TARGET" using assms(5) by (simp add: MAX_SHA256D_TARGET_def)
  moreover have "0 \<le> d * (t div tt)" using assms(3) q by simp
  ultimately show ?thesis by (simp add: int64_def INT64_MAX_def INT64_MIN_def MAX_SHA256D_TARGET_def)
qed

lemma linear_runs:
  assumes "0 \<le> t" "int64 t" "1 \<le> tt" "int64 (tt * 4)" "int64 now" "int64 (now - lst)" "live ex"
  shows "\<exists>x. vm_run now (build_linear_daa @ c) (cs_encode t # cs_encode lst # cs_encode tt # r) ex = vm_run now c (x # cs_encode lst # cs_encode tt # r) ex
    \<and> compute_next_target_linear t lst now tt = Ok (cs_decode x)"
proof -
  define d where "d = max (min (now - lst) (tt * 4)) 0"
  define u where "u = min t (MAX_SHA256D_TARGET div 4)"
  have u: "0 \<le> u" "int64 u" "u \<le> MAX_SHA256D_TARGET div 4"
    using assms(1,2) by (simp_all add: u_def) (simp add: MAX_SHA256D_TARGET_def)
  have d: "0 \<le> d" "d \<le> tt * 4" "int64 d" using assms(3,4,6) by (simp_all add: d_def)
  have q: "trunc_div u tt = Ok (u div tt)" using u assms(3) by (simp add: trunc_div_nn)
  have iq: "int64 (u div tt)" using u(1,2) assms(3) by (simp add: int64_div)
  have ip: "int64 (d * (u div tt))" using linear_product u d assms(3) by simp
  let ?x = "cs_encode (min (d * (u div tt)) MAX_SHA256D_TARGET)"
  have "vm_run now (build_linear_daa @ c) (cs_encode t # cs_encode lst # cs_encode tt # r) ex =
      vm_run now c ((if cs_decode ?x < 1 then cs_encode 1 else ?x) # cs_encode lst # cs_encode tt # r) ex"
    using assms q iq ip u(2) d(3)
    by (simp add: build_linear_daa_def PUSH_QUARTER_MAX_TARGET_def PUSH_MAX_TARGET_def vm_steps vm_dead d_def [symmetric] u_def [symmetric])
  moreover have "compute_next_target_linear t lst now tt = Ok (cs_decode (if cs_decode ?x < 1 then cs_encode 1 else ?x))"
    unfolding clamp_decode using assms(3)
    by (simp add: compute_next_target_linear_def d_def u_def max.commute mult.commute Let_def)
  ultimately show ?thesis by blast
qed

section \<open>Code that is passed over\<close>

lemma vm_dead_if: "\<not> live ex \<Longrightarrow> vm_run lt (0x63 # c) s ex = vm_run lt c s (False # ex)"
  by (simp add: vm_run.simps(2))

lemma vm_dead_data:
  assumes "\<not> live ex" "length d \<le> 75" "d \<noteq> []"
  shows "vm_run lt (word_of_nat (length d) # d @ c) s ex = vm_run lt c s ex"
proof -
  have u: "unat (word_of_nat (length d) :: byte) = length d" using assms by (simp add: unat_word_of_nat_byte)
  then have "(word_of_nat (length d) :: byte) \<notin> {0x63, 0x67, 0x68}" using assms by (auto simp: word_unat_eq_iff)
  with u assms show ?thesis by (simp add: vm_run.simps(2) Suc_le_eq)
qed

lemma vm_dead_push:
  assumes "push_minimal n = Ok p" "int64 n" "n \<noteq> - 1" "\<not> live ex"
  shows "vm_run lt (p @ c) s ex = vm_run lt c s ex"
proof -
  consider "n = 0" | "1 \<le> n" "n \<le> 16" | "n < 0 \<or> 16 < n" by linarith
  then show ?thesis
  proof cases
    case 1
    with assms have "p = [0]" by (simp add: push_minimal_def)
    with assms(4) show ?thesis by (simp add: vm_dead)
  next
    case 2
    define op :: byte where "op = word_of_int (0x50 + n)"
    have "uint op = (0x50 + n) mod 256" unfolding op_def by (simp only: uint_word_of_int) simp
    with 2 have "uint op = 0x50 + n" by simp
    then have u: "unat op = nat (0x50 + n)" by (metis nat_uint_eq)
    with 2 have "op \<notin> {0x63, 0x67, 0x68}" "0x4B < unat op" by (auto simp: word_unat_eq_iff)
    then have "vm_run lt (op # c) s ex = vm_run lt c s ex" using assms(4) by (intro vm_dead) auto
    with 2 assms(1) show ?thesis by (auto simp: push_minimal_def op_def)
  next
    case 3
    have "nat \<bar>n\<bar> < 256 ^ 8" using assms(2) by (auto simp: int64_def INT64_MAX_def INT64_MIN_def nat_less_iff)
    then have "byte_digits (nat \<bar>n\<bar>) \<le> 8" by (rule byte_digits_le) simp
    with length_int_octets [of n] have l: "length (int_octets n) \<le> 9" by simp
    with 3 assms have "p = word_of_nat (length (int_octets n)) # int_octets n"
      by (auto simp: push_minimal_def signed_le_octets Let_def split: if_splits)
    then show ?thesis using vm_dead_data [of ex "int_octets n" lt c s] assms(4) int_octets_nonempty l by simp
  qed
qed

lemma vm_dead_data8: "\<not> live ex \<Longrightarrow> vm_run lt (0x08 # a # b # c # d # e # f # g # h # r) s ex = vm_run lt r s ex"
  using vm_dead_data [of ex "[a, b, c, d, e, f, g, h]" lt r s] by simp

lemma vm_dead_data7: "\<not> live ex \<Longrightarrow> vm_run lt (0x07 # a # b # c # d # e # f # g # r) s ex = vm_run lt r s ex"
  using vm_dead_data [of ex "[a, b, c, d, e, f, g]" lt r s] by simp

lemma vm_dead_replicate: "\<not> live ex \<Longrightarrow> 0x4B < unat op \<Longrightarrow> op \<notin> {0x63, 0x67, 0x68} \<Longrightarrow> vm_run lt (replicate n op @ c) s ex = vm_run lt c s ex"
  by (induction n) (simp_all add: vm_dead)

lemmas vm_skips = vm_dead vm_dead_if vm_else vm_endif vm_dead_data8 vm_dead_data7 vm_dead_replicate

section \<open>Epochs\<close>

lemma vm_data7 [vm_steps]: "live ex \<Longrightarrow> vm_run lt (0x07 # a # b # c # d # e # f # g # r) s ex = vm_run lt r ([a, b, c, d, e, f, g] # s) ex"
  using vm_data [of ex "[a, b, c, d, e, f, g]" lt r s] by simp

lemma epoch_target_bytes [simp]: "cs_decode [0, 0, 0, 0, 0, 0, 1] = EPOCH_MAX_SAFE_TARGET"
  by (simp add: cs_decode_def EPOCH_MAX_SAFE_TARGET_def)

lemma vm_mod [vm_steps]:
  assumes "live ex" "0 \<le> cs_decode a" "0 < cs_decode b" "int64 (cs_decode b)"
  shows "vm_run lt (0x97 # c) (b # a # s) ex = vm_run lt c (cs_encode (cs_decode a mod cs_decode b) # s) ex"
proof -
  have "int64 (cs_decode a mod cs_decode b)" using assms(3,4) by (auto intro: int64_between [of _ "cs_decode b"] simp: order_less_imp_le)
  then show ?thesis
    using assms by (intro vm_plain) (auto simp: vm_op_def vm_binary_def vm_push_def trunc_div_nn minus_div_mult_eq_mod)
qed

lemma vm_doublings:
  assumes "live ex"
  shows "0 \<le> v \<Longrightarrow> int64 (v * 2 ^ n) \<Longrightarrow> vm_run lt (replicate n 0x8D @ c) (cs_encode v # s) ex = vm_run lt c (cs_encode (v * 2 ^ n) # s) ex"
proof (induction n arbitrary: v)
  case (Suc n)
  have e: "v * 2 ^ Suc n = v * 2 * 2 ^ n" by simp
  have "v * 2 * 1 \<le> v * 2 * 2 ^ n" using Suc.prems(1) by (intro mult_left_mono) auto
  then have "int64 (v * 2)" using Suc.prems int64_between [of "v * 2" "v * 2 * 2 ^ n"] unfolding e by simp
  then have "vm_run lt (0x8D # replicate n 0x8D @ c) (cs_encode v # s) ex = vm_run lt (replicate n 0x8D @ c) (cs_encode (v * 2) # s) ex"
    using vm_stack(7) [OF assms, of "cs_encode v"] by simp
  also have "\<dots> = vm_run lt c (cs_encode (v * 2 * 2 ^ n) # s) ex" using Suc.prems unfolding e by (intro Suc.IH) auto
  finally show ?case by (simp add: mult.assoc)
qed simp

lemma vm_halvings:
  assumes "live ex"
  shows "0 \<le> v \<Longrightarrow> int64 v \<Longrightarrow> vm_run lt (replicate n 0x8E @ c) (cs_encode v # s) ex = vm_run lt c (cs_encode (v div 2 ^ n) # s) ex"
proof (induction n arbitrary: v)
  case (Suc n)
  have "vm_run lt (0x8E # replicate n 0x8E @ c) (cs_encode v # s) ex = vm_run lt (replicate n 0x8E @ c) (cs_encode (v div 2) # s) ex"
    using vm_2div [OF assms, of "cs_encode v"] Suc.prems by simp
  also have "\<dots> = vm_run lt c (cs_encode (v div 2 div 2 ^ n) # s) ex" using Suc.prems by (intro Suc.IH) (simp_all add: int64_div)
  finally show ?case by (simp add: zdiv_zmult2_eq)
qed simp

lemma epoch_product:
  assumes "0 \<le> t" "0 < tt" "0 \<le> d" "d \<le> tt * 2 ^ n" "t \<le> EPOCH_MAX_SAFE_TARGET" "n \<le> 14"
  shows "int64 (d * (t div tt))"
proof -
  have q: "0 \<le> t div tt" using assms by (simp add: pos_imp_zdiv_nonneg_iff)
  have "d * (t div tt) \<le> (tt * 2 ^ n) * (t div tt)" using assms(4) q by (rule mult_right_mono)
  also have "\<dots> = 2 ^ n * (tt * (t div tt))" by simp
  also have "\<dots> \<le> 2 ^ n * t" using assms(2) by (simp add: mult.commute [of tt] minus_mod_eq_div_mult [symmetric])
  also have "\<dots> \<le> 2 ^ 14 * EPOCH_MAX_SAFE_TARGET" using assms by (intro mult_mono power_increasing) auto
  finally have "d * (t div tt) \<le> 2 ^ 62" by (simp add: EPOCH_MAX_SAFE_TARGET_def)
  moreover have "0 \<le> d * (t div tt)" using assms(3) q by simp
  ultimately show ?thesis by (simp add: int64_def INT64_MAX_def INT64_MIN_def)
qed

definition EPOCH_BODY :: "nat \<Rightarrow> bytes" where
  "EPOCH_BODY n =
     [0xC5, 0x52, 0x79, 0x94, 0x53, 0x79] @ replicate n 0x8D @ [0xA3, 0x53, 0x79] @ replicate n 0x8E
     @ [0xA4, 0x7C] @ PUSH_EPOCH_MAX_SAFE_TARGET @ [0xA3, 0x53, 0x79, 0x96, 0x95]
     @ PUSH_EPOCH_MAX_SAFE_TARGET @ [0xA3, 0x76, 0x51, 0x9F, 0x63, 0x75, 0x51, 0x68]"

lemma epoch_body_dead: "\<not> live ex \<Longrightarrow> vm_run lt (EPOCH_BODY n @ c) s ex = vm_run lt c s ex"
  by (simp add: EPOCH_BODY_def PUSH_EPOCH_MAX_SAFE_TARGET_def vm_skips)

lemma int64_epoch [simp]: "int64 EPOCH_MAX_SAFE_TARGET"
  by (simp add: int64_def INT64_MAX_def INT64_MIN_def EPOCH_MAX_SAFE_TARGET_def)

lemma epoch_body_runs:
  assumes "0 \<le> t" "int64 t" "1 \<le> tt" "int64 (tt * 2 ^ n)" "n \<le> 14" "int64 now" "int64 (now - lst)" "live ex"
  shows "\<exists>x. vm_run now (EPOCH_BODY n @ c) (cs_encode t # cs_encode lst # cs_encode tt # r) ex = vm_run now c (x # cs_encode lst # cs_encode tt # r) ex
    \<and> cs_decode x = max 1 (min ((min t EPOCH_MAX_SAFE_TARGET div tt) * max (tt div 2 ^ n) (min (tt * 2 ^ n) (now - lst))) EPOCH_MAX_SAFE_TARGET)"
proof -
  define m where "m = min (now - lst) (tt * 2 ^ n)"
  define d where "d = max m (tt div 2 ^ n)"
  define u where "u = min t EPOCH_MAX_SAFE_TARGET"
  have "tt * 1 \<le> tt * 2 ^ n" using assms(3) by (intro mult_left_mono) auto
  then have le: "tt \<le> tt * 2 ^ n" by simp
  have "int64 tt" by (rule int64_between [OF _ le]) (use assms(3,4) in simp_all)
  moreover have "tt div 2 ^ n \<le> tt" using assms(3) zdiv_mono2 [of tt 1 "2 ^ n"] by simp
  moreover from this le have "tt div 2 ^ n \<le> tt * 2 ^ n" by (rule order_trans)
  ultimately have tt: "int64 tt" "0 \<le> tt div 2 ^ n" "int64 (tt div 2 ^ n)" "tt div 2 ^ n \<le> tt * 2 ^ n"
    using assms(3) by (simp_all add: pos_imp_zdiv_nonneg_iff int64_div)
  have u: "0 \<le> u" "int64 u" "u \<le> EPOCH_MAX_SAFE_TARGET" using assms(1,2) by (simp_all add: u_def) (simp add: EPOCH_MAX_SAFE_TARGET_def)
  have m: "int64 m" using assms by (simp add: m_def)
  have d: "0 \<le> d" "d \<le> tt * 2 ^ n" "int64 d" using tt m by (auto simp: d_def m_def)
  have q: "trunc_div u tt = Ok (u div tt)" using u assms(3) by (simp add: trunc_div_nn)
  have iq: "int64 (u div tt)" using u(1,2) assms(3) by (simp add: int64_div)
  have ip: "int64 (d * (u div tt))" using epoch_product u d assms(3,5) by simp
  let ?x = "cs_encode (min (d * (u div tt)) EPOCH_MAX_SAFE_TARGET)"
  have "vm_run now (EPOCH_BODY n @ c) (cs_encode t # cs_encode lst # cs_encode tt # r) ex =
      vm_run now c ((if cs_decode ?x < 1 then cs_encode 1 else ?x) # cs_encode lst # cs_encode tt # r) ex"
    using assms q iq ip u(2) d(3) m tt(1,3)
    by (simp add: EPOCH_BODY_def PUSH_EPOCH_MAX_SAFE_TARGET_def vm_steps vm_dead vm_doublings vm_halvings
      m_def [symmetric] d_def [symmetric] u_def [symmetric])
  moreover have "cs_decode (if cs_decode ?x < 1 then cs_encode 1 else ?x) = max 1 (min ((u div tt) * max (tt div 2 ^ n) (min (tt * 2 ^ n) (now - lst))) EPOCH_MAX_SAFE_TARGET)"
    unfolding clamp_decode by (simp add: d_def m_def ac_simps)
  ultimately show ?thesis unfolding u_def by blast
qed

lemma epoch_runs:
  assumes "0 \<le> t" "int64 t" "1 \<le> tt" "int64 (tt * 2 ^ n)" "n \<le> 14" "int64 now" "int64 (now - lst)" "0 \<le> h" "int64 h"
    and "1 \<le> el" "int64 el" "build_epoch_daa el (int n) = Ok code" "live ex"
  shows "\<exists>x. vm_run now (code @ c) (cs_encode t # cs_encode lst # cs_encode tt # a0 # a1 # a2 # a3 # a4 # a5 # cs_encode h # r) ex =
      vm_run now c (x # cs_encode lst # cs_encode tt # a0 # a1 # a2 # a3 # a4 # a5 # cs_encode h # r) ex
    \<and> compute_next_target_epoch t lst now tt h el (int n) = Ok (cs_decode x)"
proof -
  let ?s = "cs_encode lst # cs_encode tt # a0 # a1 # a2 # a3 # a4 # a5 # cs_encode h # r"
  from assms(12) obtain pe where pe: "push_minimal el = Ok pe"
    and code: "code = [0x59, 0x79, 0x76, 0x00, 0xA0, 0x7C] @ pe @ [0x97, 0x00, 0x9C, 0x9A, 0x63] @ EPOCH_BODY n @ [0x68]"
    by (auto simp: build_epoch_daa_def EPOCH_BODY_def Let_def bind_r_Ok_iff)
  have A: "vm_run now (code @ c) (cs_encode t # ?s) ex = vm_run now (EPOCH_BODY n @ 0x68 # c) (cs_encode t # ?s) ((h \<noteq> 0 \<and> h mod el = 0) # ex)"
    using assms by (simp add: code vm_steps vm_push_num [OF pe])
  have B: "\<exists>x. vm_run now (EPOCH_BODY n @ 0x68 # c) (cs_encode t # ?s) (True # ex) = vm_run now c (x # ?s) ex
    \<and> cs_decode x = max 1 (min ((min t EPOCH_MAX_SAFE_TARGET div tt) * max (tt div 2 ^ n) (min (tt * 2 ^ n) (now - lst))) EPOCH_MAX_SAFE_TARGET)"
    using epoch_body_runs [OF assms(1-7), of "True # ex" "0x68 # c"] assms(13) by (simp add: vm_endif)
  have C: "vm_run now (EPOCH_BODY n @ 0x68 # c) (cs_encode t # ?s) (False # ex) = vm_run now c (cs_encode t # ?s) ex"
    by (simp add: epoch_body_dead vm_endif)
  have D: "compute_next_target_epoch t lst now tt h el (int n) =
      (if h \<noteq> 0 \<and> h mod el = 0
       then Ok (max 1 (min ((min t EPOCH_MAX_SAFE_TARGET div tt) * max (tt div 2 ^ n) (min (tt * 2 ^ n) (now - lst))) EPOCH_MAX_SAFE_TARGET))
       else Ok t)"
    using assms(3,8,10) by (simp add: compute_next_target_epoch_def Let_def)
  show ?thesis
  proof (cases "h \<noteq> 0 \<and> h mod el = 0")
    case True
    from B obtain x where x: "vm_run now (EPOCH_BODY n @ 0x68 # c) (cs_encode t # ?s) (True # ex) = vm_run now c (x # ?s) ex"
      and v: "cs_decode x = max 1 (min ((min t EPOCH_MAX_SAFE_TARGET div tt) * max (tt div 2 ^ n) (min (tt * 2 ^ n) (now - lst))) EPOCH_MAX_SAFE_TARGET)" by blast
    from A x True have "vm_run now (code @ c) (cs_encode t # ?s) ex = vm_run now c (x # ?s) ex" by simp
    moreover from D v True have "compute_next_target_epoch t lst now tt h el (int n) = Ok (cs_decode x)" by simp
    ultimately show ?thesis by blast
  next
    case False
    with A C D show ?thesis by (intro exI [of _ "cs_encode t"]) simp
  qed
qed

section \<open>Fractional adjustment\<close>

lemma asert_v2_pushes:
  "push_minimal ASERT_V2_RADIX = Ok [0x03, 0x00, 0x00, 0x01]" "push_minimal ASERT_V2_DRIFT_CLAMP = Ok [0x02, 0x00, 0x40]"
  "push_minimal (- ASERT_V2_DRIFT_CLAMP) = Ok [0x02, 0x00, 0xC0]"
  by (simp_all add: push_minimal_def signed_le_def le_loop.simps ASERT_V2_RADIX_def ASERT_V2_DRIFT_CLAMP_def Let_def)

lemma asert_v2_numbers: "int64 ASERT_V2_RADIX" "int64 ASERT_V2_DRIFT_CLAMP" "int64 (- ASERT_V2_DRIFT_CLAMP)" "ASERT_V2_RADIX \<noteq> - 1"
    "ASERT_V2_DRIFT_CLAMP \<noteq> - 1" "- ASERT_V2_DRIFT_CLAMP \<noteq> - 1" "0 < ASERT_V2_RADIX" "0 < ASERT_V2_DRIFT_CLAMP"
  by (simp_all add: int64_def INT64_MAX_def INT64_MIN_def ASERT_V2_RADIX_def ASERT_V2_DRIFT_CLAMP_def)

lemma vm_radix [vm_steps]:
  "live ex \<Longrightarrow> vm_run lt (0x03 # 0x00 # 0x00 # 0x01 # c) s ex = vm_run lt c (cs_encode ASERT_V2_RADIX # s) ex"
  "live ex \<Longrightarrow> vm_run lt (0x02 # 0x00 # 0x40 # c) s ex = vm_run lt c (cs_encode ASERT_V2_DRIFT_CLAMP # s) ex"
  "live ex \<Longrightarrow> vm_run lt (0x02 # 0x00 # 0xC0 # c) s ex = vm_run lt c (cs_encode (- ASERT_V2_DRIFT_CLAMP) # s) ex"
  using vm_push_num [OF asert_v2_pushes(1)] vm_push_num [OF asert_v2_pushes(2)] vm_push_num [OF asert_v2_pushes(3)] asert_v2_numbers by simp_all

lemma trunc_div_int64:
  assumes "int64 a" "0 < b"
  shows "\<exists>q. trunc_div a b = Ok q \<and> int64 q"
proof -
  have "\<bar>a\<bar> div b \<le> \<bar>a\<bar>" using assms(2) zdiv_mono2 [of "\<bar>a\<bar>" 1 b] by simp
  moreover have "0 \<le> \<bar>a\<bar> div b" using assms(2) by (simp add: pos_imp_zdiv_nonneg_iff)
  ultimately show ?thesis using assms by (auto simp: trunc_div_pos int64_def INT64_MAX_def INT64_MIN_def abs_if split: if_splits)
qed

lemma asert_v2_runs:
  assumes "0 \<le> t" "int64 t" "int64 now" "int64 (now - lst)" "int64 (now - lst - tt)" "int64 ((now - lst - tt) * ASERT_V2_RADIX)"
    and "1 \<le> hl" "int64 hl" "build_asert_daa_v2 hl = Ok code" "live ex"
  shows "\<exists>x. vm_run now (code @ c) (cs_encode t # cs_encode lst # cs_encode tt # r) ex = vm_run now c (x # cs_encode lst # cs_encode tt # r) ex
    \<and> compute_next_target_asert_v2 t lst now tt hl = Ok (cs_decode x)"
proof -
  from assms(9) obtain ph where ph: "push_minimal hl = Ok ph"
    and code: "code = [0xC5, 0x52, 0x79, 0x94, 0x53, 0x79, 0x94, 0x03, 0x00, 0x00, 0x01, 0x95] @ ph @ [0x96, 0x02, 0x00, 0x40, 0xA3, 0x02, 0x00, 0xC0, 0xA4, 0x7C]
      @ PUSH_QUARTER_MAX_TARGET @ [0xA3, 0x76, 0x03, 0x00, 0x00, 0x01, 0x96, 0x7B, 0x95, 0x93] @ PUSH_QUARTER_MAX_TARGET @ [0xA3]
      @ [0x76, 0x51, 0x9F, 0x63, 0x75, 0x51, 0x68]"
    by (auto simp: build_asert_daa_v2_def asert_v2_pushes bind_r_Ok_iff split: if_splits)
  obtain q where q: "trunc_div ((now - lst - tt) * ASERT_V2_RADIX) hl = Ok q" "int64 q" using trunc_div_int64 [OF assms(6), of hl] assms(7) by auto
  define d where "d = max (min q ASERT_V2_DRIFT_CLAMP) (- ASERT_V2_DRIFT_CLAMP)"
  define u where "u = min t (MAX_SHA256D_TARGET div 4)"
  have u: "0 \<le> u" "int64 u" "u \<le> MAX_SHA256D_TARGET div 4" using assms(1,2) by (simp_all add: u_def) (simp add: MAX_SHA256D_TARGET_def)
  have d: "\<bar>d\<bar> \<le> ASERT_V2_DRIFT_CLAMP" "int64 d" using asert_v2_numbers q(2) by (auto simp: d_def)
  have b: "4 * \<bar>(u div ASERT_V2_RADIX) * d\<bar> \<le> u" using scaled_step [OF u(1) d(1)] .
  then have p: "int64 ((u div ASERT_V2_RADIX) * d)" "int64 (u + (u div ASERT_V2_RADIX) * d)"
    using u by (auto simp: int64_def INT64_MAX_def INT64_MIN_def MAX_SHA256D_TARGET_def)
  have tq: "trunc_div u ASERT_V2_RADIX = Ok (u div ASERT_V2_RADIX)" "int64 (u div ASERT_V2_RADIX)"
    using u asert_v2_numbers by (simp_all add: trunc_div_nn int64_div)
  let ?x = "cs_encode (min (u + (u div ASERT_V2_RADIX) * d) (MAX_SHA256D_TARGET div 4))"
  have "vm_run now (code @ c) (cs_encode t # cs_encode lst # cs_encode tt # r) ex =
      vm_run now c ((if cs_decode ?x < 1 then cs_encode 1 else ?x) # cs_encode lst # cs_encode tt # r) ex"
    using assms q u(2) d(2) p tq asert_v2_numbers
    by (simp add: code PUSH_QUARTER_MAX_TARGET_def vm_steps vm_dead vm_push_num [OF ph] d_def [symmetric] u_def [symmetric])
  moreover have "compute_next_target_asert_v2 t lst now tt hl = Ok (cs_decode (if cs_decode ?x < 1 then cs_encode 1 else ?x))"
    unfolding clamp_decode using assms(7) q(1)
    by (simp add: compute_next_target_asert_v2_def d_def u_def ASERT_V2_MAX_TARGET_DIV4_def ac_simps Let_def)
  ultimately show ?thesis by blast
qed

section \<open>Integer adjustment\<close>

lemma encode_targets [simp]: "cs_encode MAX_SHA256D_TARGET = [0xFF, 0xFF, 0xFF, 0xFF, 0xFF, 0xFF, 0xFF, 0x7F]"
  by (simp add: cs_encode_def signed_le_def le_loop.simps MAX_SHA256D_TARGET_def Let_def)

lemma up_step:
  assumes "live ex" "0 \<le> t" "t \<le> MAX_SHA256D_TARGET" "0 \<le> d" "d \<le> 4"
  shows "vm_run lt (ASERT_2MUL_STEP @ c) (cs_encode d # cs_encode t # s) ex =
    vm_run lt c (cs_encode (if 0 < d then d - 1 else d) # cs_encode (if 0 < d then if t > MAX_SHA256D_TARGET div 2 then MAX_SHA256D_TARGET else t * 2 else t) # s) ex"
proof (cases "0 < d")
  case True
  have i: "int64 (d - 1)" "\<not> t > MAX_SHA256D_TARGET div 2 \<Longrightarrow> int64 (t * 2)"
    using assms by (auto simp: int64_def INT64_MAX_def INT64_MIN_def MAX_SHA256D_TARGET_def)
  show ?thesis
  proof (cases "t > MAX_SHA256D_TARGET div 2")
    case False
    with True i assms(1) show ?thesis
      by (simp add: ASERT_2MUL_STEP_def PUSH_HALF_MAX_TARGET_def PUSH_MAX_TARGET_def vm_steps vm_skips del: encode_targets)
  next
    case gt: True
    with True i assms(1) show ?thesis
      by (simp add: ASERT_2MUL_STEP_def PUSH_HALF_MAX_TARGET_def PUSH_MAX_TARGET_def vm_steps vm_skips)
  qed
next
  case False
  then show ?thesis using assms(1)
    by (simp add: ASERT_2MUL_STEP_def PUSH_HALF_MAX_TARGET_def PUSH_MAX_TARGET_def vm_steps vm_skips)
qed

lemma down_step:
  assumes "live ex" "0 \<le> t" "int64 t" "0 \<le> d" "d \<le> 4"
  shows "vm_run lt (ASERT_2DIV_STEP @ c) (cs_encode d # cs_encode t # s) ex =
    vm_run lt c (cs_encode (if 0 < d then d - 1 else d) # cs_encode (if 0 < d then t div 2 else t) # s) ex"
proof (cases "0 < d")
  case True
  have "int64 (d - 1)" using assms by (auto simp: int64_def INT64_MAX_def INT64_MIN_def)
  with True assms show ?thesis by (simp add: ASERT_2DIV_STEP_def vm_steps vm_skips)
next
  case False
  then show ?thesis using assms(1) by (simp add: ASERT_2DIV_STEP_def vm_steps vm_skips)
qed

text \<open>Four unrolled steps do as many as the drift says.\<close>

lemma up_steps:
  assumes "live ex"
  shows "0 \<le> t \<Longrightarrow> t \<le> MAX_SHA256D_TARGET \<Longrightarrow> d \<le> k \<Longrightarrow> k \<le> 4 \<Longrightarrow>
    vm_run lt (concat (replicate k ASERT_2MUL_STEP) @ c) (cs_encode (int d) # cs_encode t # s) ex = vm_run lt c (cs_encode 0 # cs_encode (double_steps d t) # s) ex"
proof (induction k arbitrary: d t)
  case (Suc k)
  show ?case
  proof (cases d)
    case 0
    then show ?thesis using Suc.IH [of t 0] Suc.prems up_step [OF assms, of t 0] by simp
  next
    case (Suc e)
    let ?t = "if t > MAX_SHA256D_TARGET div 2 then MAX_SHA256D_TARGET else t * 2"
    have "0 \<le> ?t" "?t \<le> MAX_SHA256D_TARGET" using Suc.prems by (auto simp: MAX_SHA256D_TARGET_def)
    then have "vm_run lt (concat (replicate k ASERT_2MUL_STEP) @ c) (cs_encode (int e) # cs_encode ?t # s) ex = vm_run lt c (cs_encode 0 # cs_encode (double_steps e ?t) # s) ex"
      using Suc Suc.prems by (intro Suc.IH) auto
    then show ?thesis using up_step [OF assms, of t "int d"] Suc Suc.prems by simp
  qed
qed simp

lemma down_steps:
  assumes "live ex"
  shows "0 \<le> t \<Longrightarrow> int64 t \<Longrightarrow> d \<le> k \<Longrightarrow> k \<le> 4 \<Longrightarrow>
    vm_run lt (concat (replicate k ASERT_2DIV_STEP) @ c) (cs_encode (int d) # cs_encode t # s) ex = vm_run lt c (cs_encode 0 # cs_encode (halve_steps d t) # s) ex"
proof (induction k arbitrary: d t)
  case (Suc k)
  show ?case
  proof (cases d)
    case 0
    then show ?thesis using Suc.IH [of t 0] Suc.prems down_step [OF assms, of t 0] by simp
  next
    case (Suc e)
    have "vm_run lt (concat (replicate k ASERT_2DIV_STEP) @ c) (cs_encode (int e) # cs_encode (t div 2) # s) ex = vm_run lt c (cs_encode 0 # cs_encode (halve_steps e (t div 2)) # s) ex"
      using Suc Suc.prems by (intro Suc.IH) (auto simp: int64_div)
    then show ?thesis using down_step [OF assms, of t "int d"] Suc Suc.prems by simp
  qed
qed simp

end
