(* ===== verification/Dmint_Mint.thy ===== *)
theory Dmint_Mint
  imports Dmint_Daa Templates
begin

text \<open>
  Mint transactions: the preimages, the script of the contract input and the transaction builders of
  \<open>pyrxd/glyph/dmint/miner.py\<close>, for both generations of contracts. The builders return an unsigned transaction with
  placeholders of full length where the nonce and the signature will stand.
\<close>

section \<open>Preimage and contract input\<close>

record contract_utxo =
  cu_txid :: string
  cu_vout :: int
  cu_value :: int
  cu_script :: bytes
  cu_state :: dmint_state

record funding_utxo =
  mu_txid :: string
  mu_vout :: int
  mu_value :: int
  mu_script :: bytes

record pow_preimage =
  pw_preimage :: bytes
  pw_input_hash :: bytes
  pw_output_hash :: bytes

definition build_pow_preimage :: "bytes \<Rightarrow> bytes \<Rightarrow> bytes \<Rightarrow> bytes \<Rightarrow> pow_preimage result" where
  "build_pow_preimage txid_le contract_ref_bytes input_script output_script =
     (if length txid_le \<noteq> 32 then Err ValidationError
      else if length contract_ref_bytes \<noteq> 36 then Err ValidationError
      else
        let half1 = sha256 (txid_le @ contract_ref_bytes);
            input_csh = sha256 (sha256 input_script);
            output_csh = sha256 (sha256 output_script);
            half2 = sha256 (input_csh @ output_csh)
        in Ok \<lparr>pw_preimage = half1 @ half2, pw_input_hash = input_csh, pw_output_hash = output_csh\<rparr>)"

definition build_mint_scriptsig :: "bytes \<Rightarrow> bytes \<Rightarrow> bytes \<Rightarrow> nat \<Rightarrow> bytes result" where
  "build_mint_scriptsig nonce input_hash output_hash nonce_width =
     (if nonce_width \<noteq> 4 \<and> nonce_width \<noteq> 8 then Err ValidationError
      else if length nonce \<noteq> nonce_width then Err ValidationError
      else if length input_hash \<noteq> 32 then Err ValidationError
      else if length output_hash \<noteq> 32 then Err ValidationError
      else Ok ([word_of_nat nonce_width] @ nonce @ [0x20] @ input_hash @ [0x20] @ output_hash @ [0x00]))"

definition build_dmint_v1_mint_preimage :: "contract_utxo \<Rightarrow> funding_utxo \<Rightarrow> transaction \<Rightarrow> pow_preimage result" where
  "build_dmint_v1_mint_preimage cu fu unsigned_tx =
     (if length (tx_outputs unsigned_tx) < 4 then Err ValidationError
      else
        let output_script = to_script (tx_outputs unsigned_tx ! 2) in
        if output_script = [] \<or> hd output_script \<noteq> 0x6A then Err ValidationError
        else
          bind_r (fromhex (cu_txid cu)) (\<lambda>t.
          bind_r (ref_to_bytes (ds_contract_ref (cu_state cu))) (\<lambda>r. build_pow_preimage (rev t) r (mu_script fu) output_script)))"

definition build_dmint_v2_mint_preimage :: "contract_utxo \<Rightarrow> funding_utxo \<Rightarrow> bytes \<Rightarrow> pow_preimage result" where
  "build_dmint_v2_mint_preimage cu fu output_script =
     (if ds_is_v1 (cu_state cu) then Err ValidationError
      else if output_script = [] then Err ValidationError
      else
        bind_r (fromhex (cu_txid cu)) (\<lambda>t.
        bind_r (ref_to_bytes (ds_contract_ref (cu_state cu))) (\<lambda>r. build_pow_preimage (rev t) r (mu_script fu) output_script)))"

section \<open>The transaction\<close>

record mint_result =
  mt_tx :: transaction
  mt_state :: dmint_state
  mt_contract_script :: bytes
  mt_reward_script :: bytes
  mt_fee :: int

abbreviation plain_out :: "int \<Rightarrow> bytes \<Rightarrow> tx_out" where
  "plain_out value script \<equiv> \<lparr>to_satoshis = Some value, to_script = script, to_change = False\<rparr>"

text \<open>An input that spends a stand-in for its source transaction: empty outputs up to the one that is spent.\<close>

definition mint_input :: "string \<Rightarrow> int \<Rightarrow> int \<Rightarrow> bytes \<Rightarrow> bytes \<Rightarrow> tx_in result" where
  "mint_input tid vout value script unlocking =
     bind_r (TransactionInput (Some (tid, replicate (nat vout) (plain_out 0 []) @ [plain_out value script])) (Some tid) vout None None
               TRANSACTION_SEQUENCE SIGHASH_ALL_FORKID) (\<lambda>i.
       Ok (i\<lparr>ti_satoshis := Some value, ti_locking := Some script, ti_unlocking := Some unlocking\<rparr>))"

definition op_return_script :: "bytes \<Rightarrow> bytes" where
  "op_return_script msg =
     [0x6A] @ [0x03, 0x6D, 0x73, 0x67]
     @ (if length msg \<le> 0x4B then [word_of_nat (length msg)] @ msg else [0x4C] @ [word_of_nat (length msg)] @ msg)"

definition mint_outputs :: "bytes \<Rightarrow> int \<Rightarrow> bytes \<Rightarrow> int \<Rightarrow> bytes option \<Rightarrow> bytes \<Rightarrow> int \<Rightarrow> tx_out list" where
  "mint_outputs contract_script contract_value reward_script reward msg change_script change_value =
     [plain_out contract_value contract_script, plain_out reward reward_script]
     @ (case msg of None \<Rightarrow> [] | Some m \<Rightarrow> [plain_out 0 (op_return_script m)])
     @ [plain_out change_value change_script]"

text \<open>The common end of both builders: placeholders, measure, fee, change.\<close>

definition finish_mint ::
  "contract_utxo \<Rightarrow> funding_utxo \<Rightarrow> bytes \<Rightarrow> nat \<Rightarrow> bytes \<Rightarrow> int \<Rightarrow> bytes option \<Rightarrow> int \<Rightarrow> dmint_state \<Rightarrow> bytes \<Rightarrow> mint_result result" where
  "finish_mint cu fu nonce nonce_width miner_pkh fee_rate msg locktime updated contract_script =
     bind_r (build_dmint_v1_ft_output_script miner_pkh (ds_token_ref (cu_state cu))) (\<lambda>reward_script.
     bind_r (build_mint_scriptsig nonce (replicate 32 0xFF) (replicate 32 0xFF) nonce_width) (\<lambda>placeholder.
     bind_r (mint_input (cu_txid cu) (cu_vout cu) (cu_value cu) (cu_script cu) placeholder) (\<lambda>contract_input.
     bind_r (mint_input (mu_txid fu) (mu_vout fu) (mu_value fu) (mu_script fu) (replicate 108 0x00)) (\<lambda>funding_input.
     let change_script = [0x76, 0xA9, 0x14] @ miner_pkh @ [0x88, 0xAC];
         reward = ds_reward (cu_state cu);
         tx = \<lparr>tx_inputs = [contract_input, funding_input],
               tx_outputs = mint_outputs contract_script (cu_value cu) reward_script reward msg change_script 0,
               tx_ver = 1, tx_lock = locktime\<rparr> in
     bind_r (serialize tx) (\<lambda>raw.
     let fee = int (length raw) * fee_rate;
         change_value = mu_value fu - reward - fee in
     if change_value < 546 then Err PoolTooSmallError
     else Ok \<lparr>mt_tx = tx\<lparr>tx_outputs := mint_outputs contract_script (cu_value cu) reward_script reward msg change_script change_value\<rparr>,
              mt_state = updated, mt_contract_script = contract_script, mt_reward_script = reward_script, mt_fee = fee\<rparr>)))))"

definition build_dmint_v1_mint_tx :: "contract_utxo \<Rightarrow> bytes \<Rightarrow> bytes \<Rightarrow> int \<Rightarrow> funding_utxo \<Rightarrow> bytes option \<Rightarrow> mint_result result" where
  "build_dmint_v1_mint_tx cu nonce miner_pkh fee_rate fu msg =
     (let st = cu_state cu in
      if is_exhausted st then Err ContractExhaustedError
      else if length nonce \<noteq> 4 then Err ValidationError
      else if length miner_pkh \<noteq> 20 then Err ValidationError
      else if fee_rate < 1 then Err ValidationError
      else if cu_value cu \<noteq> 1 then Err ValidationError
      else if is_token_bearing_script (mu_script fu) then Err InvalidFundingUtxoError
      else if (case msg of None \<Rightarrow> False | Some m \<Rightarrow> length m > 80) then Err ValidationError
      else
        let updated = v1_state (ds_height st + 1) (ds_contract_ref st) (ds_token_ref st) (ds_max_height st) (ds_reward st) (ds_algo st) (ds_target st) in
        bind_r (build_dmint_v1_contract_script (ds_height st + 1) (ds_contract_ref st) (ds_token_ref st) (ds_max_height st)
                  (ds_reward st) (ds_target st) (ds_algo st)) (\<lambda>contract_script.
          finish_mint cu fu nonce 4 miner_pkh fee_rate msg 0 updated contract_script))"

record daa_args =
  da_half_life :: int
  da_epoch_length :: "int option"
  da_max_adjustment_log2 :: "int option"
  da_schedule :: "(int \<times> int) list option"

text \<open>The target of the next state, by the adjustment of the contract.\<close>

definition next_target :: "dmint_state \<Rightarrow> int \<Rightarrow> nat \<Rightarrow> daa_args \<Rightarrow> int result" where
  "next_target st current_time asert_version args =
     (case ds_daa st of
        ASERT \<Rightarrow>
          (if asert_version \<ge> 2 then compute_next_target_asert_v2 else compute_next_target_asert)
            (ds_target st) (ds_last_time st) current_time (ds_target_time st) (da_half_life args)
      | LWMA \<Rightarrow> compute_next_target_linear (ds_target st) (ds_last_time st) current_time (ds_target_time st)
      | EPOCH \<Rightarrow>
          (case (da_epoch_length args, da_max_adjustment_log2 args) of
             (Some el, Some n) \<Rightarrow> compute_next_target_epoch (ds_target st) (ds_last_time st) current_time (ds_target_time st) (ds_height st) el n
           | _ \<Rightarrow> Err TypeError)
      | SCHEDULE \<Rightarrow>
          (case da_schedule args of
             Some es \<Rightarrow> Ok (compute_next_target_schedule (ds_target st) (ds_height st) es)
           | None \<Rightarrow> Err TypeError)
      | FIXED \<Rightarrow> Ok (ds_target st))"

definition expected_part_b :: "dmint_state \<Rightarrow> nat \<Rightarrow> daa_args \<Rightarrow> bytes result" where
  "expected_part_b st asert_version args =
     build_part_b (ds_daa st) (da_half_life args) (case da_epoch_length args of Some el \<Rightarrow> el | None \<Rightarrow> 2016)
       (case da_max_adjustment_log2 args of Some n \<Rightarrow> n | None \<Rightarrow> 2) (case da_schedule args of Some es \<Rightarrow> es | None \<Rightarrow> []) asert_version"

definition build_dmint_mint_tx ::
  "contract_utxo \<Rightarrow> bytes \<Rightarrow> bytes \<Rightarrow> int \<Rightarrow> int \<Rightarrow> funding_utxo option \<Rightarrow> bytes option \<Rightarrow> daa_args \<Rightarrow> mint_result result" where
  "build_dmint_mint_tx cu nonce miner_pkh current_time fee_rate funding msg args =
     (let st = cu_state cu in
      if fee_rate < 1 then Err ValidationError
      else if ds_is_v1 st then
        (case funding of
           None \<Rightarrow> Err ValidationError
         | Some fu \<Rightarrow> if current_time \<noteq> 0 then Err ValidationError else build_dmint_v1_mint_tx cu nonce miner_pkh fee_rate fu msg)
      else case funding of
        None \<Rightarrow> Err ValidationError
      | Some fu \<Rightarrow>
          if ds_daa st = EPOCH \<and> (da_epoch_length args = None \<or> da_max_adjustment_log2 args = None) then Err ValidationError
          else if ds_daa st = SCHEDULE \<and> (da_schedule args = None \<or> da_schedule args = Some []) then Err ValidationError
          else if current_time < 0 then Err ValidationError
          else if current_time > 0x7FFFFFFF then Err ValidationError
          else if ds_daa st \<noteq> FIXED \<and> current_time < ds_last_time st then Err ValidationError
          else if is_exhausted st then Err ContractExhaustedError
          else if length nonce \<noteq> 8 then Err ValidationError
          else if length miner_pkh \<noteq> 20 then Err ValidationError
          else if cu_value cu \<noteq> 1 then Err ValidationError
          else if is_token_bearing_script (mu_script fu) then Err InvalidFundingUtxoError
          else if (case msg of None \<Rightarrow> False | Some m \<Rightarrow> length m > 80) then Err ValidationError
          else
            let asert_version = (if ds_daa st = ASERT then asert_version_of_code (cu_script cu) else 2) in
            bind_r (next_target st current_time asert_version args) (\<lambda>new_target.
            let updated = st\<lparr>ds_height := ds_height st + 1, ds_last_time := current_time, ds_target := new_target, ds_is_v1 := False\<rparr> in
            bind_r (v2_state_script_bytes st) (\<lambda>old_state_bytes.
            if take (length old_state_bytes) (cu_script cu) \<noteq> old_state_bytes
               \<or> pyslice (length old_state_bytes) (length old_state_bytes + 1) (cu_script cu) \<noteq> [0xBD] then Err ValidationError
            else
              let code_with_separator = drop (length old_state_bytes) (cu_script cu) in
              bind_r (v2_state_script_bytes updated) (\<lambda>new_state_bytes.
              let contract_script = new_state_bytes @ code_with_separator in
              bind_r (if ds_daa st \<noteq> FIXED then
                        bind_r (expected_part_b st asert_version args) (\<lambda>part_b.
                          if pyslice 18 (18 + length part_b) code_with_separator \<noteq> part_b then Err ValidationError else Ok ())
                      else Ok ()) (\<lambda>_.
                finish_mint cu fu nonce 8 miner_pkh fee_rate msg current_time updated contract_script)))))"

end
