(* ===== verification/Dmint_Onchain.thy ===== *)
theory Dmint_Onchain
  imports Dmint_Vm Dmint_Mint
begin

text \<open>
  The remaining two adjustments, the unrolled integer one and the schedule, and the theorem that sums the evaluator up: in all
  five modes the bytecode in a contract and the mirror in the miner compute the same target.
\<close>

section \<open>Integer adjustment\<close>

lemma clamp4_runs:
  assumes "live ex"
  shows "vm_run lt (0x76 # 0x54 # 0xA0 # 0x63 # 0x75 # 0x54 # 0x68 # 0x76 # 0x54 # 0x8F # 0x9F # 0x63 # 0x75 # 0x54 # 0x8F # 0x68 # c) (cs_encode q # s) ex =
    vm_run lt c (cs_encode (max (- 4) (min 4 q)) # s) ex"
proof -
  have i: "int64 (- 4)" by (simp add: int64_def INT64_MAX_def INT64_MIN_def)
  consider "4 < q" | "q < - 4" | "- 4 \<le> q" "q \<le> 4" by linarith
  then show ?thesis using assms i by cases (simp_all add: vm_steps vm_skips)
qed

lemma legacy_tail_dead:
  "\<not> live ex \<Longrightarrow> vm_run lt (ASERT_2MUL_STEP @ c) s ex = vm_run lt c s ex" "\<not> live ex \<Longrightarrow> vm_run lt (ASERT_2DIV_STEP @ c) s ex = vm_run lt c s ex"
  by (simp_all add: ASERT_2MUL_STEP_def ASERT_2DIV_STEP_def PUSH_HALF_MAX_TARGET_def PUSH_MAX_TARGET_def vm_skips)

lemma legacy_dead:
  "\<not> live ex \<Longrightarrow> vm_run lt (concat (replicate k ASERT_2MUL_STEP) @ c) s ex = vm_run lt c s ex"
  "\<not> live ex \<Longrightarrow> vm_run lt (concat (replicate k ASERT_2DIV_STEP) @ c) s ex = vm_run lt c s ex"
  by (induction k) (simp_all add: legacy_tail_dead)

lemma legacy_shift:
  assumes "live ex" "0 \<le> t" "t \<le> MAX_SHA256D_TARGET" "- 4 \<le> d" "d \<le> 4"
  shows "vm_run lt ([0x76, 0x00, 0xA0, 0x63] @ concat (replicate 4 ASERT_2MUL_STEP) @ [0x75, 0x67, 0x76, 0x00, 0x9F, 0x63, 0x8F]
      @ concat (replicate 4 ASERT_2DIV_STEP) @ [0x75, 0x67, 0x75, 0x68, 0x68] @ c) (cs_encode d # cs_encode t # s) ex =
    vm_run lt c (cs_encode (if d > 0 then double_steps (nat d) t else if d < 0 then halve_steps (nat (- d)) t else t) # s) ex"
proof -
  have it: "int64 t" using assms(2,3) by (simp add: int64_def INT64_MAX_def INT64_MIN_def MAX_SHA256D_TARGET_def)
  consider "d > 0" | "d < 0" | "d = 0" by linarith
  then show ?thesis
  proof cases
    case 1
    have "vm_run lt (concat (replicate 4 ASERT_2MUL_STEP) @ r) (cs_encode d # cs_encode t # s) (True # ex) =
        vm_run lt r (cs_encode 0 # cs_encode (double_steps (nat d) t) # s) (True # ex)" for r
      using up_steps [of "True # ex" t "nat d" 4] assms 1 by simp
    with 1 assms(1) show ?thesis by (simp add: vm_steps vm_skips legacy_dead)
  next
    case 2
    have i: "int64 (- d)" using assms 2 by (simp add: int64_def INT64_MAX_def INT64_MIN_def)
    have "vm_run lt (concat (replicate 4 ASERT_2DIV_STEP) @ r) (cs_encode (- d) # cs_encode t # s) (True # True # ex) =
        vm_run lt r (cs_encode 0 # cs_encode (halve_steps (nat (- d)) t) # s) (True # True # ex)" for r
      using down_steps [of "True # True # ex" t "nat (- d)" 4] assms 2 it by simp
    with 2 i assms(1) show ?thesis by (simp add: vm_steps vm_skips legacy_dead)
  next
    case 3
    with assms(1) show ?thesis by (simp add: vm_steps vm_skips legacy_dead)
  qed
qed

lemma legacy_runs:
  assumes "0 \<le> t" "t \<le> MAX_SHA256D_TARGET" "int64 now" "int64 (now - lst)" "int64 (now - lst - tt)"
    and "1 \<le> hl" "int64 hl" "build_asert_daa_legacy hl = Ok code" "live ex"
  shows "\<exists>x. vm_run now (code @ c) (cs_encode t # cs_encode lst # cs_encode tt # r) ex = vm_run now c (x # cs_encode lst # cs_encode tt # r) ex
    \<and> compute_next_target_asert t lst now tt hl = Ok (cs_decode x)"
proof -
  from assms(8) obtain ph where ph: "push_minimal hl = Ok ph"
    and code: "code = [0xC5, 0x52, 0x79, 0x94, 0x53, 0x79, 0x94] @ ph @ [0x96]
       @ [0x76, 0x54, 0xA0, 0x63, 0x75, 0x54, 0x68, 0x76, 0x54, 0x8F, 0x9F, 0x63, 0x75, 0x54, 0x8F, 0x68]
       @ ([0x76, 0x00, 0xA0, 0x63] @ concat (replicate 4 ASERT_2MUL_STEP) @ [0x75, 0x67, 0x76, 0x00, 0x9F, 0x63, 0x8F]
       @ concat (replicate 4 ASERT_2DIV_STEP) @ [0x75, 0x67, 0x75, 0x68, 0x68] @ [0x76, 0x51, 0x9F, 0x63, 0x75, 0x51, 0x68])"
    by (auto simp: build_asert_daa_legacy_def bind_r_Ok_iff)
  obtain q where q: "trunc_div (now - lst - tt) hl = Ok q" "int64 q" using trunc_div_int64 [OF assms(5), of hl] assms(6) by auto
  define d where "d = max (- 4) (min 4 q)"
  define x where "x = cs_encode (if d > 0 then double_steps (nat d) t else if d < 0 then halve_steps (nat (- d)) t else t)"
  let ?rest = "[0x76, 0x00, 0xA0, 0x63] @ concat (replicate 4 ASERT_2MUL_STEP) @ [0x75, 0x67, 0x76, 0x00, 0x9F, 0x63, 0x8F]
       @ concat (replicate 4 ASERT_2DIV_STEP) @ [0x75, 0x67, 0x75, 0x68, 0x68] @ [0x76, 0x51, 0x9F, 0x63, 0x75, 0x51, 0x68] @ c"
  have d: "- 4 \<le> d" "d \<le> 4" by (auto simp: d_def)
  have "vm_run now (code @ c) (cs_encode t # cs_encode lst # cs_encode tt # r) ex =
      vm_run now (0x76 # 0x54 # 0xA0 # 0x63 # 0x75 # 0x54 # 0x68 # 0x76 # 0x54 # 0x8F # 0x9F # 0x63 # 0x75 # 0x54 # 0x8F # 0x68 # ?rest)
        (cs_encode q # cs_encode t # cs_encode lst # cs_encode tt # r) ex"
    using assms q by (simp add: code vm_steps(1-6,12-) vm_push_num [OF ph])
  also have "\<dots> = vm_run now ?rest (cs_encode d # cs_encode t # cs_encode lst # cs_encode tt # r) ex"
    unfolding d_def by (rule clamp4_runs [OF assms(9)])
  also have "\<dots> = vm_run now ([0x76, 0x51, 0x9F, 0x63, 0x75, 0x51, 0x68] @ c) (x # cs_encode lst # cs_encode tt # r) ex"
    unfolding x_def by (rule legacy_shift [OF assms(9,1,2) d])
  also have "\<dots> = vm_run now c ((if cs_decode x < 1 then cs_encode 1 else x) # cs_encode lst # cs_encode tt # r) ex"
    using vm_clamp [OF assms(9)] by simp
  finally have "vm_run now (code @ c) (cs_encode t # cs_encode lst # cs_encode tt # r) ex =
      vm_run now c ((if cs_decode x < 1 then cs_encode 1 else x) # cs_encode lst # cs_encode tt # r) ex" .
  moreover have "compute_next_target_asert t lst now tt hl = Ok (cs_decode (if cs_decode x < 1 then cs_encode 1 else x))"
    unfolding clamp_decode using q(1) by (simp add: compute_next_target_asert_def d_def x_def Let_def)
  ultimately show ?thesis by blast
qed

section \<open>Schedules\<close>

text \<open>A piece of code that replaces the target on top of the stack by a function of it, where it is executed, and is passed over elsewhere.\<close>

definition retargets :: "int \<Rightarrow> int \<Rightarrow> bytes \<Rightarrow> (int \<Rightarrow> int) \<Rightarrow> bool" where
  "retargets lt h body f \<longleftrightarrow>
     (\<forall>c t s ex. live ex \<longrightarrow> 8 < length s \<longrightarrow> s ! 8 = cs_encode h \<longrightarrow>
        (\<exists>x. vm_run lt (body @ c) (t # s) ex = vm_run lt c (x # s) ex \<and> cs_decode x = f (cs_decode t)))
     \<and> (\<forall>c s ex. \<not> live ex \<longrightarrow> vm_run lt (body @ c) s ex = vm_run lt c s ex)"

lemma retargets_live: "retargets lt h body f \<Longrightarrow> live ex \<Longrightarrow> 8 < length s \<Longrightarrow> s ! 8 = cs_encode h \<Longrightarrow>
    \<exists>x. vm_run lt (body @ c) (t # s) ex = vm_run lt c (x # s) ex \<and> cs_decode x = f (cs_decode t)"
  by (simp add: retargets_def)

lemma retargets_nil: "retargets lt h [] (\<lambda>t. t)"
  by (auto simp: retargets_def)

lemma retargets_entry:
  assumes body: "retargets lt h body f" "body = [] \<longrightarrow> f = (\<lambda>t. t)" and pb: "push_minimal b = Ok pb" "int64 b" "b \<noteq> - 1" and pt: "push_minimal g = Ok pt" "int64 g" "g \<noteq> - 1"
  shows "retargets lt h ([0x59, 0x79] @ pb @ [0xA2, 0x63, 0x75] @ pt @ (if body \<noteq> [] then [0x67] else []) @ body @ [0x68]) (\<lambda>t. if h \<ge> b then g else f t)"
proof -
  have run: "\<exists>x. vm_run lt (([0x59, 0x79] @ pb @ [0xA2, 0x63, 0x75] @ pt @ (if body \<noteq> [] then [0x67] else []) @ body @ [0x68]) @ c) (t # s) ex = vm_run lt c (x # s) ex
      \<and> cs_decode x = (if h \<ge> b then g else f (cs_decode t))" if l: "live ex" and s: "8 < length s" "s ! 8 = cs_encode h" for c t s ex
  proof -
    let ?tail = "pt @ (if body \<noteq> [] then [0x67] else []) @ body @ 0x68 # c"
    have start: "vm_run lt (([0x59, 0x79] @ pb @ [0xA2, 0x63, 0x75] @ pt @ (if body \<noteq> [] then [0x67] else []) @ body @ [0x68]) @ c) (t # s) ex =
        vm_run lt (0x75 # ?tail) (t # s) ((b \<le> h) # ex)"
      using l s vm_pick [OF l, of "cs_encode 9" 9 "t # s" lt] by (simp add: vm_small vm_compare vm_if vm_push_num [OF pb])
    show ?thesis
    proof (cases "b \<le> h")
      case True
      have "vm_run lt (0x75 # ?tail) (t # s) (True # ex) = vm_run lt c (cs_encode g # s) ex"
        using l body(1) by (cases "body = []") (simp_all add: vm_stack vm_push_num [OF pt] vm_else vm_endif retargets_def)
      with start True show ?thesis by (intro exI [of _ "cs_encode g"]) simp
    next
      case False
      have dead: "vm_run lt (0x75 # ?tail) (t # s) (False # ex) = vm_run lt ((if body \<noteq> [] then [0x67] else []) @ body @ 0x68 # c) (t # s) (False # ex)"
        by (simp add: vm_dead vm_dead_push [OF pt])
      show ?thesis
      proof (cases "body = []")
        case True
        with start dead \<open>\<not> b \<le> h\<close> body(2) show ?thesis by (intro exI [of _ t]) (simp add: vm_endif)
      next
        case ne: False
        obtain x where "vm_run lt (body @ 0x68 # c) (t # s) (True # ex) = vm_run lt (0x68 # c) (x # s) (True # ex)" "cs_decode x = f (cs_decode t)"
          using retargets_live [OF body(1), of "True # ex" s "0x68 # c" t] l s by auto
        with start dead ne False show ?thesis by (intro exI [of _ x]) (simp add: vm_else vm_endif)
      qed
    qed
  qed
  have "vm_run lt (([0x59, 0x79] @ pb @ [0xA2, 0x63, 0x75] @ pt @ (if body \<noteq> [] then [0x67] else []) @ body @ [0x68]) @ c) s ex = vm_run lt c s ex"
    if "\<not> live ex" for c s ex
    using that body(1) by (cases "body = []") (simp_all add: vm_dead vm_dead_if vm_dead_push [OF pb] vm_dead_push [OF pt] vm_else vm_endif retargets_def)
  with run show ?thesis by (auto simp: retargets_def)
qed

lemma schedule_retargets:
  assumes "retargets lt h body f" "body = [] \<longrightarrow> f = (\<lambda>t. t)" "schedule_loop es body = Ok code"
    and "\<forall>(b, g)\<in>set es. 0 \<le> b \<and> int64 b \<and> 0 \<le> g \<and> int64 g"
  shows "retargets lt h code (\<lambda>t. foldl (\<lambda>n (b, g). if h \<ge> b then g else n) (f t) es)"
  using assms
proof (induction es arbitrary: body f)
  case (Cons e es)
  obtain b g where e: "e = (b, g)" by fastforce
  from Cons.prems(3) obtain pb pt where p: "push_minimal b = Ok pb" "push_minimal g = Ok pt"
    and l: "schedule_loop es ([0x59, 0x79] @ pb @ [0xA2, 0x63, 0x75] @ pt @ (if body \<noteq> [] then [0x67] else []) @ body @ [0x68]) = Ok code"
    by (auto simp: e bind_r_Ok_iff)
  have "retargets lt h ([0x59, 0x79] @ pb @ [0xA2, 0x63, 0x75] @ pt @ (if body \<noteq> [] then [0x67] else []) @ body @ [0x68]) (\<lambda>t. if h \<ge> b then g else f t)"
    using Cons.prems by (intro retargets_entry p) (auto simp: e)
  from Cons.IH [OF this _ l] Cons.prems(4) show ?case by (simp add: e)
qed simp

lemma schedule_runs:
  assumes "build_schedule_daa es = Ok code" "\<forall>(b, g)\<in>set es. 0 \<le> b \<and> int64 b \<and> 0 \<le> g \<and> int64 g" "live ex" "8 < length s" "s ! 8 = cs_encode h"
  shows "\<exists>x. vm_run lt (code @ c) (cs_encode t # s) ex = vm_run lt c (x # s) ex \<and> compute_next_target_schedule t h es = cs_decode x"
proof -
  have "retargets lt h code (\<lambda>t. foldl (\<lambda>n (b, g). if h \<ge> b then g else n) t es)"
    using schedule_retargets [OF retargets_nil _ _ assms(2)] assms(1) by (simp add: build_schedule_daa_def)
  then obtain x where "vm_run lt (code @ c) (cs_encode t # s) ex = vm_run lt c (x # s) ex"
    "cs_decode x = foldl (\<lambda>n (b, g). if h \<ge> b then g else n) (cs_decode (cs_encode t)) es"
    using retargets_live assms(3-5) by blast
  then show ?thesis by (auto simp: compute_next_target_schedule_def)
qed

section \<open>All modes\<close>

text \<open>States and arguments as deployment produces them: a SHA256d target, times below 2038 and 2106, and numbers of 40 bits.\<close>

definition daa_sized :: "dmint_state \<Rightarrow> int \<Rightarrow> daa_args \<Rightarrow> bool" where
  "daa_sized st now args \<longleftrightarrow>
     1 \<le> ds_target st \<and> ds_target st \<le> MAX_SHA256D_TARGET \<and> 0 \<le> ds_last_time st \<and> ds_last_time st < 2 ^ 32 \<and> 0 \<le> now \<and> now < 2 ^ 32
     \<and> 1 \<le> ds_target_time st \<and> ds_target_time st < 2 ^ 40 \<and> 0 \<le> ds_height st \<and> ds_height st < 2 ^ 40
     \<and> 1 \<le> da_half_life args \<and> da_half_life args < 2 ^ 40
     \<and> (ds_daa st = EPOCH \<longrightarrow> (\<exists>el n. da_epoch_length args = Some el \<and> 1 \<le> el \<and> el < 2 ^ 40 \<and> da_max_adjustment_log2 args = Some n \<and> 1 \<le> n \<and> n \<le> 4))
     \<and> (ds_daa st = SCHEDULE \<longrightarrow>
          (\<exists>es. da_schedule args = Some es \<and> schedule_ok (- 1) es \<and> (\<forall>(h, t)\<in>set es. h < 2 ^ 40)))"

definition state_stack :: "dmint_state \<Rightarrow> bytes list" where
  "state_stack st = daa_stack (ds_height st) (daa_id (ds_daa st)) (ds_target_time st) (ds_last_time st) (ds_target st)"

lemma state_stack_eq:
  "state_stack st = cs_encode (ds_target st) # cs_encode (ds_last_time st) # cs_encode (ds_target_time st) # cs_encode (daa_id (ds_daa st))
     # cs_encode 0 # cs_encode 0 # cs_encode 0 # cs_encode 0 # cs_encode 0 # cs_encode (ds_height st) # []"
  by (simp add: state_stack_def daa_stack_def)

lemma onchain_step: "vm_run lt (code @ []) (t # s) [] = vm_run lt [] (x # s') [] \<Longrightarrow> onchain code lt (t # s) = Ok (cs_decode x)"
  by (simp add: onchain_def)

lemma int64_small: "- (2 ^ 62) \<le> n \<Longrightarrow> n \<le> 2 ^ 62 \<Longrightarrow> int64 n"
  by (simp add: int64_def INT64_MAX_def INT64_MIN_def)

lemma push_total40: "0 \<le> n \<Longrightarrow> n < 2 ^ 40 \<Longrightarrow> \<exists>p. push_minimal n = Ok p"
  by (rule push_minimal_total) simp

lemma mode_agrees:
  assumes z: "daa_sized st now args" and v: "v = 1 \<or> v = 2"
  shows "\<exists>daa. expected_part_b st v args = Ok (PART_B1 @ PART_B2 @ daa @ PART_B4) \<and> (\<exists>n. onchain daa now (state_stack st) = Ok n \<and> next_target st now v args = Ok n)"
proof -
  let ?t = "ds_target st" and ?l = "ds_last_time st" and ?tt = "ds_target_time st" and ?h = "ds_height st" and ?hl = "da_half_life args"
  have r: "0 \<le> ?t" "?t \<le> MAX_SHA256D_TARGET" "1 \<le> ?tt" "0 \<le> ?h" "1 \<le> ?hl" using z by (auto simp: daa_sized_def)
  have i: "int64 ?t" using r by (simp add: int64_def INT64_MAX_def INT64_MIN_def MAX_SHA256D_TARGET_def)
  have j: "int64 now" "int64 (now - ?l)" "int64 (now - ?l - ?tt)" "int64 ((now - ?l - ?tt) * ASERT_V2_RADIX)" "int64 (?tt * 4)" "int64 ?hl" "int64 ?h"
    using z by (auto intro!: int64_small simp: daa_sized_def ASERT_V2_RADIX_def)
  obtain ph where ph: "push_minimal ?hl = Ok ph" using push_total40 [of ?hl] z by (auto simp: daa_sized_def)
  show ?thesis
  proof (cases "ds_daa st")
    case FIXED
    then show ?thesis by (simp add: expected_part_b_def build_part_b_def onchain_def state_stack_eq next_target_def)
  next
    case EPOCH
    with z obtain el n where e: "da_epoch_length args = Some el" "1 \<le> el" "el < 2 ^ 40" "da_max_adjustment_log2 args = Some n" "1 \<le> n" "n \<le> 4"
      by (auto simp: daa_sized_def)
    then obtain code where code: "build_epoch_daa el (int (nat n)) = Ok code" using push_total40 [of el] by (auto simp: build_epoch_daa_def Let_def)
    have "?tt * 2 ^ nat n \<le> 2 ^ 40 * 2 ^ 4" using z e by (intro mult_mono power_increasing) (auto simp: daa_sized_def)
    moreover have "0 \<le> ?tt * 2 ^ nat n" using r by simp
    ultimately have "int64 (?tt * 2 ^ nat n)" by (intro int64_small) simp_all
    moreover have "nat n \<le> 14" "int64 el" using e by (auto intro!: int64_small)
    ultimately have "\<exists>x. vm_run now (code @ []) (state_stack st) [] = vm_run now [] (x # tl (state_stack st)) []
        \<and> compute_next_target_epoch ?t ?l now ?tt ?h el (int (nat n)) = Ok (cs_decode x)"
      unfolding state_stack_eq list.sel using r i j e code by (intro epoch_runs) simp_all
    then
    have "\<exists>n. onchain code now (state_stack st) = Ok n \<and> next_target st now v args = Ok n"
      using EPOCH e by (auto simp: next_target_def onchain_def)
    with EPOCH e code show ?thesis by (simp add: expected_part_b_def build_part_b_def)
  next
    case ASERT
    show ?thesis
    proof (cases "v = 2")
      case True
      obtain code where code: "build_asert_daa_v2 ?hl = Ok code" using ph r by (auto simp: build_asert_daa_v2_def asert_v2_pushes)
      from asert_v2_runs [OF r(1) i j(1-4) r(5) j(6) code, of "[]" "[]" "drop 3 (state_stack st)"]
      have "\<exists>n. onchain code now (state_stack st) = Ok n \<and> next_target st now v args = Ok n"
        using ASERT True by (auto simp: state_stack_eq next_target_def onchain_def)
      with ASERT True code show ?thesis by (simp add: expected_part_b_def build_part_b_def)
    next
      case False
      obtain code where code: "build_asert_daa_legacy ?hl = Ok code" using ph by (auto simp: build_asert_daa_legacy_def)
      from legacy_runs [OF r(1,2) j(1-3) r(5) j(6) code, of "[]" "[]" "drop 3 (state_stack st)"]
      have "\<exists>n. onchain code now (state_stack st) = Ok n \<and> next_target st now v args = Ok n"
        using ASERT False v by (auto simp: state_stack_eq next_target_def onchain_def)
      with ASERT False v code show ?thesis by (simp add: expected_part_b_def build_part_b_def)
    qed
  next
    case LWMA
    from linear_runs [OF r(1) i r(3) j(5,1,2), of "[]" "[]" "drop 3 (state_stack st)"]
    have "\<exists>n. onchain build_linear_daa now (state_stack st) = Ok n \<and> next_target st now v args = Ok n"
      using LWMA by (auto simp: state_stack_eq next_target_def onchain_def)
    with LWMA show ?thesis by (simp add: expected_part_b_def build_part_b_def)
  next
    case SCHEDULE
    with z obtain es where e: "da_schedule args = Some es" "schedule_ok (- 1) es" "\<forall>(h, t)\<in>set es. h < 2 ^ 40" by (auto simp: daa_sized_def)
    have ok: "\<forall>(b, g)\<in>set es. 0 \<le> b \<and> int64 b \<and> 0 \<le> g \<and> int64 g"
      using e(3) schedule_ok_targets [OF e(2)] by (fastforce simp: int64_def INT64_MAX_def INT64_MIN_def MAX_SHA256D_TARGET_def)
    have "\<forall>(h, t)\<in>set es. \<bar>h\<bar> < 256 ^ 40 \<and> \<bar>t\<bar> < 256 ^ 40"
      using e(3) schedule_ok_targets [OF e(2)] by (fastforce simp: MAX_SHA256D_TARGET_def)
    from schedule_loop_total [OF this, of "[]"] obtain code where code: "build_schedule_daa es = Ok code" unfolding build_schedule_daa_def by blast
    from schedule_runs [OF code ok, of "[]" "tl (state_stack st)" ?h now "[]" ?t]
    have "\<exists>n. onchain code now (state_stack st) = Ok n \<and> next_target st now v args = Ok n"
      using SCHEDULE e(1) by (auto simp: state_stack_eq next_target_def onchain_def)
    with SCHEDULE e code show ?thesis by (simp add: expected_part_b_def build_part_b_def)
  qed
qed

text \<open>C15: The miner's mirror computes what the covenant computes. For every state and time in range, in each of the five modes
  and both formats of the exponential one, the bytecode that the builder puts into the contract, executed by the
  evaluator on the items of the state, does not abort on an overflow and leaves on the stack the target that
  the mint builder writes into the next state.\<close>

theorem onchain_offchain_agree:
  assumes "daa_sized st now args" "v = 1 \<or> v = 2"
  shows "\<exists>daa n. expected_part_b st v args = Ok (PART_B1 @ PART_B2 @ daa @ PART_B4)
    \<and> onchain daa now (state_stack st) = Ok n \<and> next_target st now v args = Ok n"
  using mode_agrees [OF assms] by blast

definition sample_daa_state :: dmint_state where
  "sample_daa_state = v2_state 300 sample_ref sample_ref 21000 50 SHA256D EPOCH 60 1700000000 1000000"

definition sample_daa_args :: daa_args where
  "sample_daa_args = \<lparr>da_half_life = 240, da_epoch_length = Some 100, da_max_adjustment_log2 = Some 2, da_schedule = None\<rparr>"

theorem onchain_offchain_agree_witness:
  "\<exists>daa. expected_part_b sample_daa_state 2 sample_daa_args = Ok (PART_B1 @ PART_B2 @ daa @ PART_B4)
     \<and> onchain daa 1700000090 (state_stack sample_daa_state) = Ok 1499940"
proof -
  have "daa_sized sample_daa_state 1700000090 sample_daa_args"
    by (simp add: daa_sized_def sample_daa_state_def sample_daa_args_def v2_state_def MAX_SHA256D_TARGET_def)
  from onchain_offchain_agree [OF this, of 2] obtain daa n where
    d: "expected_part_b sample_daa_state 2 sample_daa_args = Ok (PART_B1 @ PART_B2 @ daa @ PART_B4)"
      "onchain daa 1700000090 (state_stack sample_daa_state) = Ok n" "next_target sample_daa_state 1700000090 2 sample_daa_args = Ok n" by auto
  moreover have "next_target sample_daa_state 1700000090 2 sample_daa_args = Ok 1499940"
    by (simp add: next_target_def sample_daa_state_def sample_daa_args_def v2_state_def compute_next_target_epoch_def EPOCH_MAX_SAFE_TARGET_def)
  ultimately show ?thesis by auto
qed

end
