(* ===== verification/Dmint_Mint_Props.thy ===== *)
theory Dmint_Mint_Props
  imports Dmint_Onchain
begin

text \<open>
  What a mint transaction of \<open>Dmint_Mint\<close> does: it advances the contract by one, pays the reward, conserves value and pays its
  fee; and where the last mint of a contract fails.
\<close>

section \<open>Parsed states\<close>

lemma parse_ref_wf: "parse_ref op s p = Ok (r, q) \<Longrightarrow> wf_ref r"
  using ref_from_bytes_Ok by (auto simp: parse_ref_def bind_r_Ok_iff split: if_splits)

lemma from_v2_script_fields:
  "from_v2_script s = Ok st \<Longrightarrow> wf_ref (ds_contract_ref st) \<and> wf_ref (ds_token_ref st) \<and> \<not> ds_is_v1 st"
  by (auto simp: from_v2_script_def bind_r_Ok_iff split: if_splits dest!: parse_ref_wf)

lemma from_v1_script_fields:
  "from_v1_script s = Ok st \<Longrightarrow> wf_ref (ds_contract_ref st) \<and> wf_ref (ds_token_ref st) \<and> ds_is_v1 st
     \<and> ds_daa st = FIXED \<and> ds_target_time st = 0 \<and> ds_last_time st = 0"
  by (auto simp: from_v1_script_def bind_r_Ok_iff split: if_splits option.splits dest!: parse_ref_wf)

lemma from_script_cases:
  assumes "from_script s = Ok st"
  shows "(\<not> ds_is_v1 st \<and> from_v2_script s = Ok st) \<or> (ds_is_v1 st \<and> from_v1_script s = Ok st)"
proof -
  have "from_v2_script s = Ok st \<or> from_v1_script s = Ok st"
    using assms by (auto simp: from_script_def split: sum.splits exn.splits)
  then show ?thesis using from_v2_script_fields from_v1_script_fields by blast
qed

lemma burn_not_contract: "from_script (0xD8 # s) = Err ValidationError"
  by (simp add: from_script_def from_v2_script_def from_v1_script_def parse_script_int_def parse_push4_def Let_def)

section \<open>The common end\<close>

lemma mint_input_Ok:
  "mint_input tid vout value script u = Ok i \<Longrightarrow> ti_txid i = Some tid \<and> ti_vout i = vout \<and> ti_satoshis i = Some value \<and> ti_locking i = Some script
     \<and> ti_unlocking i = Some u \<and> ti_sequence i = TRANSACTION_SEQUENCE"
  by (auto simp: mint_input_def TransactionInput_def bind_r_Ok_iff)

lemma finish_mint_Ok:
  assumes "finish_mint cu fu nonce w pkh rate msg locktime updated cs = Ok res"
  obtains sig ci fi raw where
    "build_dmint_v1_ft_output_script pkh (ds_token_ref (cu_state cu)) = Ok (mt_reward_script res)"
    "build_mint_scriptsig nonce (replicate 32 0xFF) (replicate 32 0xFF) w = Ok sig"
    "mint_input (cu_txid cu) (cu_vout cu) (cu_value cu) (cu_script cu) sig = Ok ci"
    "mint_input (mu_txid fu) (mu_vout fu) (mu_value fu) (mu_script fu) (replicate 108 0x00) = Ok fi"
    "serialize \<lparr>tx_inputs = [ci, fi], tx_outputs = mint_outputs cs (cu_value cu) (mt_reward_script res) (ds_reward (cu_state cu)) msg
       ([0x76, 0xA9, 0x14] @ pkh @ [0x88, 0xAC]) 0, tx_ver = 1, tx_lock = locktime\<rparr> = Ok raw"
    "mt_fee res = int (length raw) * rate" "546 \<le> mu_value fu - ds_reward (cu_state cu) - mt_fee res"
    "mt_tx res = \<lparr>tx_inputs = [ci, fi], tx_outputs = mint_outputs cs (cu_value cu) (mt_reward_script res) (ds_reward (cu_state cu)) msg
       ([0x76, 0xA9, 0x14] @ pkh @ [0x88, 0xAC]) (mu_value fu - ds_reward (cu_state cu) - mt_fee res), tx_ver = 1, tx_lock = locktime\<rparr>"
    "mt_state res = updated" "mt_contract_script res = cs"
  using assms by (auto simp: finish_mint_def bind_r_Ok_iff Let_def split: if_splits)

text \<open>What both builders promise, whatever the contract.\<close>

definition mint_ok :: "contract_utxo \<Rightarrow> funding_utxo \<Rightarrow> bytes \<Rightarrow> int \<Rightarrow> mint_result \<Rightarrow> bool" where
  "mint_ok cu fu pkh locktime res \<longleftrightarrow>
     (\<exists>change rest. tx_outputs (mt_tx res) = [plain_out 1 (mt_contract_script res), plain_out (ds_reward (cu_state cu)) (mt_reward_script res)]
        @ rest @ [plain_out change ([0x76, 0xA9, 0x14] @ pkh @ [0x88, 0xAC])] \<and> 546 \<le> change \<and> (\<forall>out\<in>set rest. to_satoshis out = Some 0))
     \<and> build_ft_locking_script pkh (ds_token_ref (cu_state cu)) = Ok (mt_reward_script res)
     \<and> total_value_in (mt_tx res) = Ok (1 + mu_value fu) \<and> total_value_out (mt_tx res) = Ok (1 + mu_value fu - mt_fee res)
     \<and> iter_input_refs (mu_script fu) = Ok [] \<and> tx_lock (mt_tx res) = locktime"

lemma finish_mint_ok:
  assumes f: "finish_mint cu fu nonce w pkh rate msg locktime updated cs = Ok res" and v: "cu_value cu = 1" and p: "length pkh = 20"
    and wf: "wf_ref (ds_token_ref (cu_state cu))" and nt: "\<not> is_token_bearing_script (mu_script fu)"
  shows "mint_ok cu fu pkh locktime res"
proof -
  obtain sig ci fi raw where
    r: "build_dmint_v1_ft_output_script pkh (ds_token_ref (cu_state cu)) = Ok (mt_reward_script res)" and
    ci: "mint_input (cu_txid cu) (cu_vout cu) (cu_value cu) (cu_script cu) sig = Ok ci" and
    fi: "mint_input (mu_txid fu) (mu_vout fu) (mu_value fu) (mu_script fu) (replicate 108 0x00) = Ok fi" and
    c: "546 \<le> mu_value fu - ds_reward (cu_state cu) - mt_fee res" and
    tx: "mt_tx res = \<lparr>tx_inputs = [ci, fi], tx_outputs = mint_outputs cs (cu_value cu) (mt_reward_script res) (ds_reward (cu_state cu)) msg
       ([0x76, 0xA9, 0x14] @ pkh @ [0x88, 0xAC]) (mu_value fu - ds_reward (cu_state cu) - mt_fee res), tx_ver = 1, tx_lock = locktime\<rparr>"
    and cs: "mt_contract_script res = cs"
    using f by (rule finish_mint_Ok)
  have i: "iter_input_refs (mu_script fu) = Ok []" using nt by (auto simp: is_token_bearing_script_def split: sum.splits)
  have ti: "total_value_in (mt_tx res) = Ok (1 + mu_value fu)"
    using mint_input_Ok [OF ci] mint_input_Ok [OF fi] v by (simp add: tx total_value_in_def satoshis_of_def)
  have t: "total_value_out (mt_tx res) = Ok (1 + mu_value fu - mt_fee res)"
    using v by (cases msg) (simp_all add: tx total_value_out_def mint_outputs_def satoshis_of_def)
  have o: "tx_outputs (mt_tx res) = [plain_out 1 (mt_contract_script res), plain_out (ds_reward (cu_state cu)) (mt_reward_script res)]
      @ (case msg of None \<Rightarrow> [] | Some m \<Rightarrow> [plain_out 0 (op_return_script m)])
      @ [plain_out (mu_value fu - ds_reward (cu_state cu) - mt_fee res) ([0x76, 0xA9, 0x14] @ pkh @ [0x88, 0xAC])]"
    using v by (simp add: tx cs mint_outputs_def)
  have b: "build_ft_locking_script pkh (ds_token_ref (cu_state cu)) = Ok (mt_reward_script res)" using v1_ft_output_is_ft [OF p wf] r by simp
  have "\<forall>out\<in>set (case msg of None \<Rightarrow> [] | Some m \<Rightarrow> [plain_out 0 (op_return_script m)]). to_satoshis out = Some 0" by (auto split: option.splits)
  with o b c i ti t show ?thesis unfolding mint_ok_def by (auto simp: tx)
qed

section \<open>Both builders\<close>

lemma mint_v1_Ok:
  assumes "build_dmint_mint_tx cu nonce pkh now rate (Some fu) msg args = Ok res" "ds_is_v1 (cu_state cu)"
  obtains cs st where "st = cu_state cu" "now = 0" "ds_height st < ds_max_height st" "length pkh = 20" "cu_value cu = 1"
    "\<not> is_token_bearing_script (mu_script fu)"
    "build_dmint_v1_contract_script (ds_height st + 1) (ds_contract_ref st) (ds_token_ref st) (ds_max_height st) (ds_reward st) (ds_target st) (ds_algo st) = Ok cs"
    "finish_mint cu fu nonce 4 pkh rate msg 0
       (v1_state (ds_height st + 1) (ds_contract_ref st) (ds_token_ref st) (ds_max_height st) (ds_reward st) (ds_algo st) (ds_target st)) cs = Ok res"
  using assms by (auto simp: build_dmint_mint_tx_def build_dmint_v1_mint_tx_def is_exhausted_def Let_def bind_r_Ok_iff split: if_splits)

abbreviation advance :: "dmint_state \<Rightarrow> int \<Rightarrow> int \<Rightarrow> dmint_state" where
  "advance st now target \<equiv> st\<lparr>ds_height := ds_height st + 1, ds_last_time := now, ds_target := target\<rparr>"

lemma mint_v2_Ok:
  assumes b: "build_dmint_mint_tx cu nonce pkh now rate (Some fu) msg args = Ok res" and v: "\<not> ds_is_v1 (cu_state cu)"
  obtains tg old code new st where "st = cu_state cu" "0 \<le> now" "now \<le> 0x7FFFFFFF" "ds_height st < ds_max_height st" "length pkh = 20" "cu_value cu = 1"
    "\<not> is_token_bearing_script (mu_script fu)"
    "next_target st now (if ds_daa st = ASERT then asert_version_of_code (cu_script cu) else 2) args = Ok tg"
    "v2_state_script_bytes st = Ok old" "cu_script cu = old @ 0xBD # code" "v2_state_script_bytes (advance st now tg) = Ok new"
    "finish_mint cu fu nonce 8 pkh rate msg now (advance st now tg) (new @ 0xBD # code) = Ok res"
proof -
  define st where "st = cu_state cu"
  from v have u: "st\<lparr>ds_height := h, ds_last_time := l, ds_target := t, ds_is_v1 := False\<rparr> = st\<lparr>ds_height := h, ds_last_time := l, ds_target := t\<rparr>"
    for h l t by (cases st) (simp add: st_def [symmetric])
  from b v obtain tg old new where
    f: "0 \<le> now" "now \<le> 0x7FFFFFFF" "ds_height st < ds_max_height st" "length pkh = 20" "cu_value cu = 1" "\<not> is_token_bearing_script (mu_script fu)"
    "next_target st now (if ds_daa st = ASERT then asert_version_of_code (cu_script cu) else 2) args = Ok tg" "v2_state_script_bytes st = Ok old" and
    p: "take (length old) (cu_script cu) = old" "pyslice (length old) (length old + 1) (cu_script cu) = [0xBD]" and
    n: "v2_state_script_bytes (advance st now tg) = Ok new"
    "finish_mint cu fu nonce 8 pkh rate msg now (advance st now tg) (new @ drop (length old) (cu_script cu)) = Ok res"
    unfolding st_def [symmetric]
    by (auto simp: build_dmint_mint_tx_def is_exhausted_def Let_def bind_r_Ok_iff u st_def [symmetric] split: if_splits)
  from p(2) have "take 1 (drop (length old) (cu_script cu)) = [0xBD]" by (simp add: pyslice_def drop_take)
  then obtain code where c: "drop (length old) (cu_script cu) = 0xBD # code" by (cases "drop (length old) (cu_script cu)") auto
  with p(1) have "cu_script cu = old @ 0xBD # code" by (metis append_take_drop_id)
  with f n c that [OF st_def] show ?thesis by simp
qed

lemma next_target_fixed: "ds_daa st = FIXED \<Longrightarrow> next_target st now v args = Ok tg \<Longrightarrow> tg = ds_target st"
  by (simp add: next_target_def)

text \<open>What a mint does to the contract: the script of output 0 parses to the advanced state.\<close>

definition contract_advances :: "contract_utxo \<Rightarrow> int \<Rightarrow> mint_result \<Rightarrow> bool" where
  "contract_advances cu now res \<longleftrightarrow>
     ds_height (cu_state cu) < ds_max_height (cu_state cu)
     \<and> from_script (mt_contract_script res) = Ok (mt_state res)
     \<and> (\<exists>target. mt_state res = advance (cu_state cu) now target \<and> (ds_daa (cu_state cu) = FIXED \<longrightarrow> target = ds_target (cu_state cu)))
     \<and> (\<not> ds_is_v1 (cu_state cu) \<longrightarrow>
          (\<exists>old new code. v2_state_script_bytes (cu_state cu) = Ok old \<and> v2_state_script_bytes (mt_state res) = Ok new
             \<and> cu_script cu = old @ 0xBD # code \<and> mt_contract_script res = new @ 0xBD # code))"

lemma mint_advances_v1:
  assumes b: "build_dmint_mint_tx cu nonce pkh now rate (Some fu) msg args = Ok res" and p: "from_v1_script (cu_script cu) = Ok (cu_state cu)"
  shows "mint_ok cu fu pkh now res \<and> contract_advances cu now res"
proof -
  from from_v1_script_fields [OF p]
  have st: "wf_ref (ds_contract_ref (cu_state cu))" "wf_ref (ds_token_ref (cu_state cu))" "ds_is_v1 (cu_state cu)"
    and d: "ds_daa (cu_state cu) = FIXED" "ds_target_time (cu_state cu) = 0" "ds_last_time (cu_state cu) = 0" by simp_all
  obtain cs st0 where st0: "st0 = cu_state cu" and now: "now = 0" and h: "ds_height st0 < ds_max_height st0"
    and g: "length pkh = 20" "cu_value cu = 1" "\<not> is_token_bearing_script (mu_script fu)" and
    c: "build_dmint_v1_contract_script (ds_height st0 + 1) (ds_contract_ref st0) (ds_token_ref st0) (ds_max_height st0) (ds_reward st0) (ds_target st0) (ds_algo st0) = Ok cs" and
    f: "finish_mint cu fu nonce 4 pkh rate msg 0
       (v1_state (ds_height st0 + 1) (ds_contract_ref st0) (ds_token_ref st0) (ds_max_height st0) (ds_reward st0) (ds_algo st0) (ds_target st0)) cs = Ok res"
    by (rule mint_v1_Ok [OF b st(3)]) (rule that)
  have r: "mt_contract_script res = cs"
    "mt_state res = v1_state (ds_height st0 + 1) (ds_contract_ref st0) (ds_token_ref st0) (ds_max_height st0) (ds_reward st0) (ds_algo st0) (ds_target st0)"
    using f by (auto elim: finish_mint_Ok)
  have "from_script cs = Ok (mt_state res)" using v1_contract_parses [OF _ _ c] st r st0 by simp
  moreover have "mt_state res = advance (cu_state cu) now (ds_target (cu_state cu))"
    using r(2) d st(3) now st0 by (cases st0) (simp add: v1_state_def)
  moreover have "mint_ok cu fu pkh now res" using finish_mint_ok [OF f g(2,1) st(2) g(3)] now by simp
  ultimately show ?thesis using h r(1) st(3) st0 unfolding contract_advances_def by (metis d(1))
qed

lemma mint_advances_v2:
  assumes b: "build_dmint_mint_tx cu nonce pkh now rate (Some fu) msg args = Ok res" and p: "from_v2_script (cu_script cu) = Ok (cu_state cu)"
  shows "mint_ok cu fu pkh now res \<and> contract_advances cu now res"
proof -
  from from_v2_script_fields [OF p]
  have st: "wf_ref (ds_contract_ref (cu_state cu))" "wf_ref (ds_token_ref (cu_state cu))" "\<not> ds_is_v1 (cu_state cu)" by simp_all
  obtain tg old code new st0 where st0: "st0 = cu_state cu" and h: "ds_height st0 < ds_max_height st0"
    and g: "length pkh = 20" "cu_value cu = 1" "\<not> is_token_bearing_script (mu_script fu)"
    and tg: "next_target st0 now (if ds_daa st0 = ASERT then asert_version_of_code (cu_script cu) else 2) args = Ok tg"
    and old: "v2_state_script_bytes st0 = Ok old" "cu_script cu = old @ 0xBD # code"
    and new: "v2_state_script_bytes (advance st0 now tg) = Ok new"
    and f: "finish_mint cu fu nonce 8 pkh rate msg now (advance st0 now tg) (new @ 0xBD # code) = Ok res"
    by (rule mint_v2_Ok [OF b st(3)]) (rule that)
  have r: "mt_contract_script res = new @ 0xBD # code" "mt_state res = advance st0 now tg"
    using f by (auto elim: finish_mint_Ok)
  have "from_script (new @ 0xBD # code) = Ok (mt_state res)"
    using v2_state_script_bytes_parses [OF _ _ _ new] st st0 r(2) by simp
  moreover have "mint_ok cu fu pkh now res" using finish_mint_ok [OF f g(2,1) st(2) g(3)] .
  moreover have "contract_advances cu now res"
    unfolding contract_advances_def using h r old new next_target_fixed [OF _ tg] calculation(1) unfolding st0 by metis
  ultimately show ?thesis by simp
qed

lemma mint_steps:
  "build_dmint_mint_tx cu nonce pkh now rate (Some fu) msg args = Ok res \<Longrightarrow> from_script (cu_script cu) = Ok (cu_state cu) \<Longrightarrow>
     mint_ok cu fu pkh now res \<and> contract_advances cu now res"
  using from_script_cases mint_advances_v1 mint_advances_v2 by blast

section \<open>The last mint\<close>

lemma last_v1_fails:
  assumes "ds_is_v1 (cu_state cu)" "ds_height (cu_state cu) + 1 = ds_max_height (cu_state cu)"
  shows "\<exists>e. build_dmint_mint_tx cu nonce pkh now rate (Some fu) msg args = Err e"
proof (cases "build_dmint_mint_tx cu nonce pkh now rate (Some fu) msg args")
  case (Inr res)
  with assms show ?thesis
    by (auto elim!: mint_v1_Ok simp: build_dmint_v1_contract_script_def build_dmint_v1_state_script_def bind_r_Ok_iff split: if_splits)
qed simp

lemma last_v2_wrong_shape:
  assumes b: "build_dmint_mint_tx cu nonce pkh now rate (Some fu) msg args = Ok res" and p: "from_script (cu_script cu) = Ok (cu_state cu)"
    and h: "ds_height (cu_state cu) + 1 = ds_max_height (cu_state cu)"
  shows "is_exhausted (mt_state res) \<and> mt_contract_script res \<noteq> 0xD8 # tail"
proof -
  from mint_steps [OF b p] obtain tg where "mt_state res = advance (cu_state cu) now tg" and f: "from_script (mt_contract_script res) = Ok (mt_state res)"
    unfolding contract_advances_def by blast
  with h have "is_exhausted (mt_state res)" by (simp add: is_exhausted_def)
  with f show ?thesis using burn_not_contract [of tail] by auto
qed

section \<open>Chains of mints\<close>

text \<open>The contract output of a mint is the contract the next mint spends, under whatever transaction id the signed transaction gets.\<close>

inductive minted :: "contract_utxo \<Rightarrow> nat \<Rightarrow> contract_utxo \<Rightarrow> bool" where
  minted_none: "minted cu 0 cu"
| minted_more: "minted cu n cu' \<Longrightarrow> build_dmint_mint_tx cu' nonce pkh now rate (Some fu) msg args = Ok res \<Longrightarrow>
    minted cu (Suc n) \<lparr>cu_txid = tid, cu_vout = 0, cu_value = 1, cu_script = mt_contract_script res, cu_state = mt_state res\<rparr>"

definition same_contract :: "dmint_state \<Rightarrow> dmint_state \<Rightarrow> bool" where
  "same_contract st st' \<longleftrightarrow>
     st' = st\<lparr>ds_height := ds_height st', ds_last_time := ds_last_time st', ds_target := ds_target st'\<rparr>"

lemma same_contract_advance: "same_contract st st' \<Longrightarrow> same_contract st (advance st' now tg)"
  by (cases st; cases st') (simp add: same_contract_def)

lemma same_contract_max: "same_contract st st' \<Longrightarrow> ds_max_height st' = ds_max_height st"
  by (cases st; cases st') (simp add: same_contract_def)

lemma minted_invariant:
  assumes "minted cu n cu'" "from_script (cu_script cu) = Ok (cu_state cu)"
  shows "from_script (cu_script cu') = Ok (cu_state cu') \<and> same_contract (cu_state cu) (cu_state cu')
    \<and> ds_height (cu_state cu') = ds_height (cu_state cu) + int n
    \<and> (n = 0 \<or> ds_height (cu_state cu) + int n \<le> ds_max_height (cu_state cu))"
  using assms
proof (induction rule: minted.induct)
  case (minted_none cu)
  then show ?case by (simp add: same_contract_def)
next
  case (minted_more cu n cu' nonce pkh now rate fu msg args res tid)
  then have ih: "from_script (cu_script cu') = Ok (cu_state cu')" "same_contract (cu_state cu) (cu_state cu')"
    "ds_height (cu_state cu') = ds_height (cu_state cu) + int n" by simp_all
  from mint_steps [OF minted_more.hyps(2) ih(1)] obtain tg where
    a: "mt_state res = advance (cu_state cu') now tg" "from_script (mt_contract_script res) = Ok (mt_state res)"
    and h: "ds_height (cu_state cu') < ds_max_height (cu_state cu')"
    unfolding contract_advances_def by blast
  with ih same_contract_advance [OF ih(2)] same_contract_max [OF ih(2)] show ?case by simp
qed

section \<open>Building succeeds\<close>

lemma varint_len: "n < 2 ^ 64 \<Longrightarrow> \<exists>v. unsigned_to_varint (int n) = Ok v \<and> length v \<le> 9"
  by (auto simp: varint_Ok varint_size get_varint_size_def)

lemma mint_input_total:
  assumes "fromhex tid = Ok t" "length t = 32" "0 \<le> vout" "vout < 2 ^ 32" "length u < 2 ^ 64"
  shows "\<exists>i b. mint_input tid vout value script u = Ok i \<and> in_serialize i = Ok b \<and> length b \<le> 49 + length u"
proof -
  obtain v where v: "unsigned_to_varint (int (length u)) = Ok v" "length v \<le> 9" using varint_len [OF assms(5)] by blast
  have "\<exists>i. mint_input tid vout value script u = Ok i"
    using assms by (simp add: mint_input_def TransactionInput_def py_index_def)
  then obtain i where i: "mint_input tid vout value script u = Ok i" by blast
  from mint_input_Ok [OF i] assms v show ?thesis
    by (auto simp: i in_serialize_def txid_bytes_def unlocking_bytes_def to_bytes_le_def TRANSACTION_SEQUENCE_def nat_less_iff)
qed

lemma plain_out_total:
  assumes "0 \<le> value" "value < 2 ^ 64" "length script < 2 ^ 64"
  shows "\<exists>b. out_serialize (plain_out value script) = Ok b \<and> length b \<le> 17 + length script"
  using varint_len [OF assms(3)] assms by (auto simp: out_serialize_def to_bytes_le_def)

lemma mint_tx_total:
  assumes i: "in_serialize ci = Ok b1" "length b1 \<le> 125" "in_serialize fi = Ok b2" "length b2 \<le> 157" and l: "0 \<le> lock" "lock < 2 ^ 32"
    and o: "length cs < 2 ^ 63" "0 \<le> reward" "reward < 2 ^ 64" "length rs = 75" "\<And>m. msg = Some m \<Longrightarrow> length m \<le> 80" "length ch = 25"
  shows "\<exists>raw. serialize \<lparr>tx_inputs = [ci, fi], tx_outputs = mint_outputs cs 1 rs reward msg ch 0, tx_ver = 1, tx_lock = lock\<rparr> = Ok raw
    \<and> length raw \<le> length cs + 560"
proof -
  obtain o1 where o1: "out_serialize (plain_out 1 cs) = Ok o1" "length o1 \<le> 17 + length cs" using plain_out_total [of 1 cs] o(1) by auto
  obtain o2 where o2: "out_serialize (plain_out reward rs) = Ok o2" "length o2 \<le> 92" using plain_out_total [of reward rs] o by auto
  obtain o3 where o3: "out_serialize (plain_out 0 ch) = Ok o3" "length o3 \<le> 42" using plain_out_total [of 0 ch] o by auto
  have c: "\<exists>v. unsigned_to_varint (int 2) = Ok v \<and> length v = 1" "\<exists>v. unsigned_to_varint (int 3) = Ok v \<and> length v = 1"
    "\<exists>v. unsigned_to_varint (int 4) = Ok v \<and> length v = 1"
    by (simp_all add: unsigned_to_varint_def to_bytes_le_def)
  have t: "to_bytes_le 1 4 = Ok (le_bytes 4 1)" "to_bytes_le lock 4 = Ok (le_bytes 4 (nat lock))" using l by (simp_all add: to_bytes_le_def)
  show ?thesis
  proof (cases msg)
    case None
    with c t o1 o2 o3 i show ?thesis by (auto simp: serialize_def mint_outputs_def)
  next
    case (Some m)
    then have "length (op_return_script m) \<le> 87" using o(5) by (simp add: op_return_script_def)
    then obtain o4 where "out_serialize (plain_out 0 (op_return_script m)) = Ok o4" "length o4 \<le> 104"
      using plain_out_total [of 0 "op_return_script m"] by fastforce
    with Some c t o1 o2 o3 i show ?thesis by (auto simp: serialize_def mint_outputs_def)
  qed
qed

text \<open>What a caller brings to a mint: transaction ids of 32 bytes, indices of 32 bits, a nonce and a key hash of the right
  length, a plain funding output and funds for the reward, the fee of a transaction of \<open>len\<close> bytes and a change above the dust limit.\<close>

definition mint_inputs_ok :: "contract_utxo \<Rightarrow> funding_utxo \<Rightarrow> bytes \<Rightarrow> nat \<Rightarrow> bytes \<Rightarrow> int \<Rightarrow> bytes option \<Rightarrow> nat \<Rightarrow> bool" where
  "mint_inputs_ok cu fu nonce w pkh rate msg len \<longleftrightarrow>
     (case fromhex (cu_txid cu) of Inr t \<Rightarrow> length t = 32 | Inl _ \<Rightarrow> False) \<and> 0 \<le> cu_vout cu \<and> cu_vout cu < 2 ^ 32 \<and> cu_value cu = 1
     \<and> (case fromhex (mu_txid fu) of Inr t \<Rightarrow> length t = 32 | Inl _ \<Rightarrow> False) \<and> 0 \<le> mu_vout fu \<and> mu_vout fu < 2 ^ 32
     \<and> \<not> is_token_bearing_script (mu_script fu) \<and> length nonce = w \<and> length pkh = 20 \<and> 1 \<le> rate
     \<and> (case msg of None \<Rightarrow> True | Some m \<Rightarrow> length m \<le> 80)
     \<and> 0 \<le> ds_reward (cu_state cu) \<and> ds_reward (cu_state cu) < 2 ^ 64
     \<and> len < 2 ^ 62 \<and> ds_reward (cu_state cu) + rate * int len + 546 \<le> mu_value fu"

lemma finish_mint_total:
  assumes m: "mint_inputs_ok cu fu nonce w pkh rate msg len" and w: "w = 4 \<or> w = 8" and l: "0 \<le> lock" "lock < 2 ^ 32"
    and cs: "length cs + 560 \<le> len" and wf: "wf_ref (ds_token_ref (cu_state cu))"
  shows "\<exists>res. finish_mint cu fu nonce w pkh rate msg lock upd cs = Ok res"
proof -
  from m obtain t1 t2 where t: "fromhex (cu_txid cu) = Ok t1" "length t1 = 32" "fromhex (mu_txid fu) = Ok t2" "length t2 = 32"
    unfolding mint_inputs_ok_def by (auto split: sum.splits)
  obtain rs where rs: "build_dmint_v1_ft_output_script pkh (ds_token_ref (cu_state cu)) = Ok rs" "length rs = 75"
    using v1_ft_output_is_ft [OF _ wf] ref_to_bytes_wf [OF wf] m
    by (auto simp: mint_inputs_ok_def build_ft_locking_script_def ft_epilogue_def Let_def)
  obtain sig where sig: "build_mint_scriptsig nonce (replicate 32 0xFF) (replicate 32 0xFF) w = Ok sig" "length sig \<le> 76"
    using m w by (auto simp: mint_inputs_ok_def build_mint_scriptsig_def)
  have u: "length sig < 2 ^ 64" using sig(2) by simp
  obtain ci b1 where ci: "mint_input (cu_txid cu) (cu_vout cu) (cu_value cu) (cu_script cu) sig = Ok ci" "in_serialize ci = Ok b1" "length b1 \<le> 125"
    using mint_input_total [OF t(1,2) _ _ u, of "cu_vout cu" "cu_value cu" "cu_script cu"] m sig(2) by (force simp: mint_inputs_ok_def)
  obtain fi b2 where fi: "mint_input (mu_txid fu) (mu_vout fu) (mu_value fu) (mu_script fu) (replicate 108 0) = Ok fi" "in_serialize fi = Ok b2" "length b2 \<le> 157"
    using mint_input_total [OF t(3,4), of "mu_vout fu" "replicate 108 0" "mu_value fu" "mu_script fu"] m by (force simp: mint_inputs_ok_def)
  have "\<exists>raw. serialize \<lparr>tx_inputs = [ci, fi], tx_outputs = mint_outputs cs 1 rs (ds_reward (cu_state cu)) msg ([0x76, 0xA9, 0x14] @ pkh @ [0x88, 0xAC]) 0,
      tx_ver = 1, tx_lock = lock\<rparr> = Ok raw \<and> length raw \<le> length cs + 560"
    using m cs l rs(2) by (intro mint_tx_total [OF ci(2,3) fi(2,3)]) (auto simp: mint_inputs_ok_def)
  then obtain raw where raw: "serialize \<lparr>tx_inputs = [ci, fi], tx_outputs = mint_outputs cs 1 rs (ds_reward (cu_state cu)) msg ([0x76, 0xA9, 0x14] @ pkh @ [0x88, 0xAC]) 0,
      tx_ver = 1, tx_lock = lock\<rparr> = Ok raw" "length raw \<le> len" using cs by fastforce
  have "int (length raw) * rate \<le> rate * int len" using raw(2) m by (simp add: mint_inputs_ok_def mult.commute mult_left_mono)
  moreover have "ds_reward (cu_state cu) + rate * int len + 546 \<le> mu_value fu" using m by (simp add: mint_inputs_ok_def)
  ultimately have c: "\<not> mu_value fu - ds_reward (cu_state cu) - int (length raw) * rate < 546" by linarith
  have v: "cu_value cu = 1" using m by (simp add: mint_inputs_ok_def)
  show ?thesis
    unfolding finish_mint_def using rs(1) sig(1) ci(1) fi(1) raw(1) c by (simp add: v Let_def)
qed

lemma mint_inputs_guards:
  assumes "mint_inputs_ok cu fu nonce w pkh rate msg len"
  shows "\<not> rate < 1" "length nonce = w" "length pkh = 20" "cu_value cu = 1" "\<not> is_token_bearing_script (mu_script fu)"
    "\<not> (case msg of None \<Rightarrow> False | Some m \<Rightarrow> length m > 80)"
  using assms by (auto simp: mint_inputs_ok_def split: option.splits)

lemma push_4bytes_length: "push_4bytes_le n = Ok p \<Longrightarrow> length p = 5"
  by (auto simp: push_4bytes_le_def pack_u_def bind_r_Ok_iff split: if_splits)

lemma push_short:
  assumes "\<bar>n\<bar> < 2 ^ 64" "push_minimal n = Ok p"
  shows "length p \<le> 11"
proof (cases "n = 0")
  case False
  from assms(1) have "nat \<bar>n\<bar> < 256 ^ 8" by (simp add: nat_less_iff)
  then have "byte_digits (nat \<bar>n\<bar>) \<le> 8" by (rule byte_digits_le) simp
  with length_int_octets [of n] have "length (signed_le n) \<le> 9" using False by (simp add: signed_le_octets)
  with assms(2) show ?thesis by (auto simp: push_minimal_def Let_def split: if_splits)
qed (use assms(2) in \<open>auto simp: push_minimal_def\<close>)

lemma mint_inputs_less:
  assumes "mint_inputs_ok cu fu nonce w pkh rate msg (n + 600)"
  shows "mint_inputs_ok cu fu nonce w pkh rate msg (n + 560)"
proof -
  have "rate * int (n + 560) \<le> rate * int (n + 600)" using assms by (intro mult_left_mono) (simp_all add: mint_inputs_ok_def)
  moreover have "ds_reward (cu_state cu) + rate * int (n + 600) + 546 \<le> mu_value fu" using assms by (simp only: mint_inputs_ok_def)
  ultimately have "ds_reward (cu_state cu) + rate * int (n + 560) + 546 \<le> mu_value fu" by linarith
  with assms show ?thesis by (simp add: mint_inputs_ok_def)
qed

text \<open>First generation: any contract that the builder made, short of its last mint.\<close>

lemma v1_mint_builds:
  assumes b: "build_dmint_v1_contract_script h cr tr mh rw tg a = Ok (cu_script cu)" and st: "cu_state cu = v1_state h cr tr mh rw a tg"
    and wf: "wf_ref cr" "wf_ref tr" and h: "h + 1 < mh" "h + 1 < 2 ^ 32"
    and m: "mint_inputs_ok cu fu nonce 4 pkh rate msg (length (cu_script cu) + 560)"
  shows "\<exists>res. build_dmint_mint_tx cu nonce pkh 0 rate (Some fu) msg args = Ok res"
proof -
  from b obtain s where s: "build_dmint_v1_state_script h cr tr mh rw tg = Ok s" "cu_script cu = s @ build_dmint_v1_code_script a"
    by (auto simp: build_dmint_v1_contract_script_def bind_r_Ok_iff)
  from s(1) obtain ph c t pm pr where
    p: "push_4bytes_le h = Ok ph" "ref_to_bytes cr = Ok c" "ref_to_bytes tr = Ok t" "push_minimal mh = Ok pm" "push_minimal rw = Ok pr"
    "s = ph @ (0xD8 # c) @ (0xD0 # t) @ pm @ pr @ (0x08 # le_bytes 8 (nat tg))" "0 \<le> h" "1 \<le> rw" "1 \<le> tg" "tg \<le> MAX_SHA256D_TARGET"
    by (rule build_v1_state_Ok)
  obtain ph' where ph': "push_4bytes_le (h + 1) = Ok ph'" using p(7) h(2) by (auto simp: push_4bytes_le_def pack_u_def)
  have l: "length ph' = length ph" using push_4bytes_length p(1) ph' by simp
  have "pack_u 8 tg = Ok (le_bytes 8 (nat tg))" using p(9,10) by (simp add: pack_u_def MAX_SHA256D_TARGET_def)
  then have n: "build_dmint_v1_contract_script (h + 1) cr tr mh rw tg a
      = Ok (ph' @ (0xD8 # c) @ (0xD0 # t) @ pm @ pr @ (0x08 # le_bytes 8 (nat tg)) @ build_dmint_v1_code_script a)" (is "_ = Ok ?cs")
    using p h ph' by (simp add: build_dmint_v1_contract_script_def build_dmint_v1_state_script_def del: le_bytes.simps)
  have "length ?cs = length (cu_script cu)" using s(2) p(6) l by simp
  with finish_mint_total [OF m, of 0 ?cs "v1_state (h + 1) cr tr mh rw a tg"] wf st
  have "\<exists>res. finish_mint cu fu nonce 4 pkh rate msg 0 (v1_state (h + 1) cr tr mh rw a tg) ?cs = Ok res" by (simp add: v1_state_def)
  with n st h mint_inputs_guards [OF m] show ?thesis
    by (simp add: build_dmint_mint_tx_def build_dmint_v1_mint_tx_def v1_state_def is_exhausted_def Let_def del: le_bytes.simps)
qed

text \<open>Second generation, in the modes whose format the builder need not detect: the code begins as deployment built it for the arguments.\<close>

definition v2_contract :: "contract_utxo \<Rightarrow> daa_args \<Rightarrow> bool" where
  "v2_contract cu args \<longleftrightarrow>
     (case (v2_state_script_bytes (cu_state cu), expected_part_b (cu_state cu) 2 args) of
        (Inr s, Inr b) \<Rightarrow>
          (\<exists>c. cu_script cu = s @ 0xBD # PART_A @ POW_HASH_OP (ds_algo (cu_state cu)) # b @ c)
      | _ \<Rightarrow> False)
     \<and> \<not> ds_is_v1 (cu_state cu) \<and> wf_ref (ds_contract_ref (cu_state cu)) \<and> wf_ref (ds_token_ref (cu_state cu))"

lemma schedule_range:
  "schedule_ok prev es \<Longrightarrow> 1 \<le> t \<Longrightarrow> t \<le> MAX_SHA256D_TARGET \<Longrightarrow>
     1 \<le> compute_next_target_schedule t h es \<and> compute_next_target_schedule t h es \<le> MAX_SHA256D_TARGET"
  by (induction prev es arbitrary: t rule: schedule_ok.induct) (auto simp: compute_next_target_schedule_def)

lemma PART_A_length: "length PART_A = 16"
  by (simp add: PART_A_def)

lemma clamp_range: "1 \<le> m \<Longrightarrow> 1 \<le> max 1 (min x m) \<and> max 1 (min x m) \<le> (m :: int)"
  by simp

lemma linear_range:
  assumes "compute_next_target_linear t l now tt = Ok tg"
  shows "1 \<le> tg \<and> tg \<le> MAX_SHA256D_TARGET"
proof -
  from assms obtain x where "tg = max 1 (min x MAX_SHA256D_TARGET)"
    unfolding compute_next_target_linear_def Let_def by (metis Inr_inject sum.distinct(1))
  then show ?thesis using clamp_range [of MAX_SHA256D_TARGET x] by (simp add: MAX_SHA256D_TARGET_def)
qed

lemma epoch_range:
  assumes "compute_next_target_epoch t l now tt h el n = Ok tg" "1 \<le> t" "t \<le> MAX_SHA256D_TARGET"
  shows "1 \<le> tg \<and> tg \<le> MAX_SHA256D_TARGET"
proof -
  from assms(1) have "tg = t \<or> (\<exists>x. tg = max 1 (min x EPOCH_MAX_SAFE_TARGET))"
    unfolding compute_next_target_epoch_def Let_def by (metis Inr_inject sum.distinct(1))
  then show ?thesis
    using assms(2,3) clamp_range [of EPOCH_MAX_SAFE_TARGET] by (auto simp: EPOCH_MAX_SAFE_TARGET_def MAX_SHA256D_TARGET_def)
qed

lemma next_target_range:
  assumes z: "daa_sized st now args" and m: "ds_daa st \<noteq> ASERT" and n: "next_target st now 2 args = Ok tg"
  shows "1 \<le> tg \<and> tg \<le> MAX_SHA256D_TARGET"
proof -
  have t: "1 \<le> ds_target st" "ds_target st \<le> MAX_SHA256D_TARGET" using z by (simp_all add: daa_sized_def)
  show ?thesis
  proof (cases "ds_daa st")
    case SCHEDULE
    with z obtain es where es: "da_schedule args = Some es" "schedule_ok (- 1) es" by (auto simp: daa_sized_def)
    with SCHEDULE n schedule_range [OF es(2) t, of "ds_height st"] show ?thesis by (simp add: next_target_def)
  next
    case EPOCH
    with z obtain el k where "da_epoch_length args = Some el" "da_max_adjustment_log2 args = Some k" by (auto simp: daa_sized_def)
    with EPOCH n epoch_range [OF _ t] show ?thesis by (simp add: next_target_def)
  next
    case LWMA
    with n linear_range show ?thesis by (simp add: next_target_def)
  qed (use m n t in \<open>simp_all add: next_target_def\<close>)
qed

lemma v2_mint_builds:
  assumes k: "v2_contract cu args" and z: "daa_sized (cu_state cu) now args" and m: "ds_daa (cu_state cu) \<noteq> ASERT"
    and h: "ds_height (cu_state cu) < ds_max_height (cu_state cu)" and now: "ds_last_time (cu_state cu) \<le> now" "now \<le> 0x7FFFFFFF"
    and i: "mint_inputs_ok cu fu nonce 8 pkh rate msg (length (cu_script cu) + 600)"
    and s: "ds_daa (cu_state cu) = SCHEDULE \<longrightarrow> da_schedule args \<noteq> Some []"
  shows "\<exists>res. build_dmint_mint_tx cu nonce pkh now rate (Some fu) msg args = Ok res"
proof -
  define st where "st = cu_state cu"
  from k obtain s0 b c where s0: "v2_state_script_bytes st = Ok s0" and b: "expected_part_b st 2 args = Ok b"
    and cu: "cu_script cu = s0 @ 0xBD # PART_A @ POW_HASH_OP (ds_algo st) # b @ c" and v2: "\<not> ds_is_v1 st" and wf: "wf_ref (ds_token_ref st)"
    unfolding v2_contract_def st_def by (auto split: sum.splits)
  from mode_agrees [OF z, of 2] obtain tg where tg: "next_target st now 2 args = Ok tg" by (auto simp: st_def)
  have r: "1 \<le> tg" "tg \<le> MAX_SHA256D_TARGET" using next_target_range [OF z m] tg by (simp_all add: st_def)
  from s0 obtain ph ml pl pt where o: "push_minimal (ds_height st) = Ok ph" "push_4bytes_le (ds_last_time st) = Ok pl" "s0 = ph @ ml @ pl @ pt"
    "middle_literal (ds_contract_ref st) (ds_token_ref st) (ds_max_height st) (ds_reward st) (ds_algo st) (ds_daa st) (ds_target_time st) = Ok ml"
    by (auto simp: v2_state_script_bytes_def bind_r_Ok_iff)
  have hr: "\<bar>ds_height st + 1\<bar> < 2 ^ 64" "\<bar>tg\<bar> < 2 ^ 64" "0 \<le> now" using z r by (auto simp: daa_sized_def st_def MAX_SHA256D_TARGET_def)
  then obtain ph' pt' where n: "push_minimal (ds_height st + 1) = Ok ph'" "push_minimal tg = Ok pt'"
    using push_minimal_total [of "ds_height st + 1"] push_minimal_total [of tg] by force
  obtain pl' where pl': "push_4bytes_le now = Ok pl'" using hr(3) now(2) by (auto simp: push_4bytes_le_def pack_u_def)
  define new where "new = ph' @ ml @ pl' @ pt'"
  have new: "v2_state_script_bytes (advance st now tg) = Ok new" using n pl' o(4) by (simp add: v2_state_script_bytes_def new_def)
  have l: "length new \<le> length s0 + 22"
    using push_short [OF hr(1) n(1)] push_short [OF hr(2) n(2)] push_4bytes_length [OF pl'] push_4bytes_length [OF o(2)] o(3) by (simp add: new_def)
  have u: "st\<lparr>ds_height := h, ds_last_time := t, ds_target := g, ds_is_v1 := False\<rparr> = st\<lparr>ds_height := h, ds_last_time := t, ds_target := g\<rparr>"
    for h t g using v2 by (cases st) simp
  let ?code = "0xBD # PART_A @ POW_HASH_OP (ds_algo st) # b @ c"
  have "pyslice 18 (18 + length b) ?code = b"
    using pyslice_at [of "0xBD # PART_A @ [POW_HASH_OP (ds_algo st)]" b c] PART_A_length by simp
  moreover have "take (length s0) (cu_script cu) = s0" "drop (length s0) (cu_script cu) = ?code" using cu by simp_all
  moreover have "pyslice (length s0) (length s0 + 1) (cu_script cu) = [0xBD]" using cu pyslice_at [of s0 "[0xBD]"] by simp
  moreover have "\<exists>res. finish_mint cu fu nonce 8 pkh rate msg now (advance st now tg) (new @ ?code) = Ok res"
    using l cu wf hr now by (intro finish_mint_total [OF i]) (simp_all add: st_def)
  moreover have "\<not> (ds_daa st = EPOCH \<and> (da_epoch_length args = None \<or> da_max_adjustment_log2 args = None))"
    "\<not> (ds_daa st = SCHEDULE \<and> (da_schedule args = None \<or> da_schedule args = Some []))" using z s by (auto simp: daa_sized_def st_def)
  ultimately show ?thesis
    unfolding build_dmint_mint_tx_def Let_def is_exhausted_def st_def [symmetric] u
    using mint_inputs_guards [OF i] m h now hr(3) by (simp add: st_def [symmetric] s0 b v2 tg new)
qed

section \<open>Properties\<close>

text \<open>C16: A mint of a contract of either generation, built against the state that its script encodes, advances
  the contract by exactly one: output 0 carries one photon under a script that parses to the old state with the height plus one, the
  new timestamp and the recomputed target (the same target without an adjustment), and for the second generation the code behind the
  state separator is unchanged. Output 1 is an ordinary token output for the miner of exactly the reward, other outputs than the change
  carry nothing, the change is no dust, no reference enters through the funding input, and inputs equal outputs plus the fee.\<close>

theorem mint_advances:
  assumes "build_dmint_mint_tx cu nonce pkh now rate (Some fu) msg args = Ok res" "from_script (cu_script cu) = Ok (cu_state cu)"
  shows "mint_ok cu fu pkh now res \<and> contract_advances cu now res"
  using assms by (rule mint_steps)

definition sample_contract :: "int \<Rightarrow> contract_utxo" where
  "sample_contract mh =
     \<lparr>cu_txid = hex (replicate 32 0), cu_vout = 0, cu_value = 1,
      cu_script = (case build_dmint_v1_contract_script 7 sample_ref sample_ref mh 50 1000 SHA256D of Inr s \<Rightarrow> s | Inl _ \<Rightarrow> []),
      cu_state = v1_state 7 sample_ref sample_ref mh 50 SHA256D 1000\<rparr>"

definition sample_funding :: funding_utxo where
  "sample_funding = \<lparr>mu_txid = hex (replicate 32 0x11), mu_vout = 1, mu_value = 100000000, mu_script = [0x51]\<rparr>"

definition sample_args :: daa_args where
  "sample_args = \<lparr>da_half_life = 0, da_epoch_length = None, da_max_adjustment_log2 = None, da_schedule = None\<rparr>"

lemma sample_script:
  assumes "8 \<le> mh" "mh < 2 ^ 32"
  shows "build_dmint_v1_contract_script 7 sample_ref sample_ref mh 50 1000 SHA256D = Ok (cu_script (sample_contract mh))"
    "length (cu_script (sample_contract mh)) \<le> 255"
proof -
  obtain c where c: "ref_to_bytes sample_ref = Ok c" "length c = 36" using wf_ref_bytes wf_sample_ref ref_to_bytes_wf by metis
  obtain m where m: "push_minimal mh = Ok m" "length m \<le> 11" using push_minimal_total [of mh] push_short [of mh] assms by fastforce
  obtain r where r: "push_minimal 50 = Ok r" "length r \<le> 11" using push_minimal_total [of 50] push_short [of 50] by fastforce
  have "\<exists>s. build_dmint_v1_contract_script 7 sample_ref sample_ref mh 50 1000 SHA256D = Ok s \<and> length s \<le> 255"
    using c m r assms
    by (simp add: build_dmint_v1_contract_script_def build_dmint_v1_state_script_def push_4bytes_le_def pack_u_def MAX_SHA256D_TARGET_def
        build_dmint_v1_code_script_def)
  then show "build_dmint_v1_contract_script 7 sample_ref sample_ref mh 50 1000 SHA256D = Ok (cu_script (sample_contract mh))"
    "length (cu_script (sample_contract mh)) \<le> 255" by (auto simp: sample_contract_def)
qed

lemma sample_inputs:
  "len \<le> 1000 \<Longrightarrow> mint_inputs_ok (sample_contract mh) sample_funding [1, 2, 3, 4] 4 (replicate 20 7) 10000 (Some [0x68, 0x69]) len"
  by (auto simp: fromhex_hex mint_inputs_ok_def sample_contract_def sample_funding_def v1_state_def is_token_bearing_script_def is_ref_op_def is_direct_push_def)

lemma sample_mint:
  assumes "9 \<le> mh" "mh < 2 ^ 32"
  obtains res where "build_dmint_mint_tx (sample_contract mh) [1, 2, 3, 4] (replicate 20 7) 0 10000 (Some sample_funding) (Some [0x68, 0x69]) sample_args = Ok res"
    "from_script (cu_script (sample_contract mh)) = Ok (cu_state (sample_contract mh))"
proof -
  note s = sample_script [of mh]
  have "\<exists>res. build_dmint_mint_tx (sample_contract mh) [1, 2, 3, 4] (replicate 20 7) 0 10000 (Some sample_funding) (Some [0x68, 0x69]) sample_args = Ok res"
    using s assms by (intro v1_mint_builds [OF _ _ wf_sample_ref wf_sample_ref _ _ sample_inputs]) (auto simp: sample_contract_def)
  moreover have "from_script (cu_script (sample_contract mh)) = Ok (cu_state (sample_contract mh))"
    using v1_contract_parses [OF wf_sample_ref wf_sample_ref s(1)] assms by (simp add: sample_contract_def)
  ultimately show ?thesis using that by blast
qed

theorem mint_advances_witness:
  "\<exists>res. build_dmint_mint_tx (sample_contract 9) [1, 2, 3, 4] (replicate 20 7) 0 10000 (Some sample_funding) (Some [0x68, 0x69]) sample_args = Ok res
     \<and> mint_ok (sample_contract 9) sample_funding (replicate 20 7) 0 res \<and> contract_advances (sample_contract 9) 0 res"
proof -
  obtain res where "build_dmint_mint_tx (sample_contract 9) [1, 2, 3, 4] (replicate 20 7) 0 10000 (Some sample_funding) (Some [0x68, 0x69]) sample_args = Ok res"
    "from_script (cu_script (sample_contract 9)) = Ok (cu_state (sample_contract 9))" using sample_mint [of 9] by auto
  with mint_advances [OF this] show ?thesis by blast
qed

text \<open>C17: The supply is capped. However many mints follow one another, each spending the contract output of the one
  before, the contract stays parseable and keeps its references, reward, limit, algorithm and mode; its height counts the
  mints, and never passes the limit of the deployment.\<close>

theorem minted_bounded:
  assumes "minted cu n cu'" "from_script (cu_script cu) = Ok (cu_state cu)"
  shows "from_script (cu_script cu') = Ok (cu_state cu') \<and> same_contract (cu_state cu) (cu_state cu')
    \<and> ds_height (cu_state cu') = ds_height (cu_state cu) + int n
    \<and> (n = 0 \<or> ds_height (cu_state cu) + int n \<le> ds_max_height (cu_state cu))"
  using assms by (rule minted_invariant)

theorem minted_bounded_witness:
  "\<exists>cu'. minted (sample_contract 9) 1 cu' \<and> from_script (cu_script cu') = Ok (cu_state cu') \<and> ds_height (cu_state cu') = 8"
proof -
  obtain res where b: "build_dmint_mint_tx (sample_contract 9) [1, 2, 3, 4] (replicate 20 7) 0 10000 (Some sample_funding) (Some [0x68, 0x69]) sample_args = Ok res"
    and p: "from_script (cu_script (sample_contract 9)) = Ok (cu_state (sample_contract 9))" using sample_mint [of 9] by auto
  from minted_more [OF minted_none b] obtain cu' where m: "minted (sample_contract 9) 1 cu'" by (metis One_nat_def)
  with minted_bounded [OF m p] show ?thesis by (auto simp: sample_contract_def v1_state_def)
qed





end
