(* ===== verification/Htlc_Covenant.thy ===== *)
theory Htlc_Covenant
  imports Credential Templates Dmint_State
begin

text \<open>
  The hash-locked covenants a maker locks an asset into, \<open>pyrxd/gravity/htlc_covenant.py\<close>, with the three compiled
  templates of \<open>pyrxd/gravity/artifacts/\<close>. The holder scripts are in \<open>Credential\<close>. The arguments have their declared types; a
  script is walked as the list of its remaining bytes, with the position beside it where the code reports positions.
\<close>

section \<open>Encoders\<close>

definition scriptnum :: "int \<Rightarrow> bytes" where
  "scriptnum n = (if n = 0 then [] else signed_le n)"

definition htlc_push :: "bytes \<Rightarrow> bytes result" where
  "htlc_push b =
     (if length b = 0 then Ok [0x00]
      else if length b \<le> 75 then Ok (word_of_nat (length b) # b)
      else if length b \<le> 255 then Ok (0x4C # word_of_nat (length b) # b)
      else if length b \<le> 0xFFFF then Ok (0x4D # le_bytes 2 (length b) @ b)
      else Err ValidationError)"

definition minimal_num_push :: "int \<Rightarrow> bytes result" where
  "minimal_num_push n =
     (if n < 0 then Err ValidationError
      else if n = 0 then Ok [0x00]
      else if 1 \<le> n \<and> n \<le> 16 then Ok [word_of_int (0x50 + n)]
      else htlc_push (scriptnum n))"

section \<open>Guards\<close>

definition htlc_ref_op :: "byte \<Rightarrow> bool" where
  "htlc_ref_op op \<longleftrightarrow> op \<in> {0xD0, 0xD1, 0xD2, 0xD3, 0xD8}"

fun bd_walk :: "nat \<Rightarrow> bytes \<Rightarrow> nat list" where
  "bd_walk i [] = []"
| "bd_walk i (op # rest) =
     (if op = 0xBD then [i] else [])
     @ (if htlc_ref_op op then bd_walk (i + 37) (drop 36 rest)
        else if is_direct_push op then bd_walk (i + 1 + unat op) (drop (unat op) rest)
        else if op = 0x4C then
          (if length rest < 1 then [] else bd_walk (i + 2 + unat (rest ! 0)) (drop (1 + unat (rest ! 0)) rest))
        else if op = 0x4D then
          (if length rest < 2 then [] else bd_walk (i + 3 + le_val (take 2 rest)) (drop (2 + le_val (take 2 rest)) rest))
        else if op = 0x4E then
          (if length rest < 4 then [] else bd_walk (i + 5 + le_val (take 4 rest)) (drop (4 + le_val (take 4 rest)) rest))
        else bd_walk (i + 1) rest)"

definition opcode_bd_positions :: "bytes \<Rightarrow> nat list" where
  "opcode_bd_positions spk = bd_walk 0 spk"

definition guard_bd :: "bytes \<Rightarrow> nat list \<Rightarrow> unit result" where
  "guard_bd funded_spk expected = (if opcode_bd_positions funded_spk \<noteq> expected then Err ValidationError else Ok ())"

definition guard_refs :: "bytes \<Rightarrow> bytes option \<Rightarrow> unit result" where
  "guard_refs funded_spk expected_ref =
     bind_r (count_input_refs funded_spk) (\<lambda>counts.
       if fst ` set counts \<noteq> (case expected_ref of Some r \<Rightarrow> {r} | None \<Rightarrow> {}) then Err ValidationError else Ok ())"

fun assert_minimal_pushes :: "bytes \<Rightarrow> unit result" where
  "assert_minimal_pushes [] = Ok ()"
| "assert_minimal_pushes (op # rest) =
     (if htlc_ref_op op then assert_minimal_pushes (drop 36 rest)
      else if is_direct_push op then
        (if unat op > length rest then Err ValidationError
         else if op = 1 \<and> (1 \<le> unat (rest ! 0) \<and> unat (rest ! 0) \<le> 16 \<or> rest ! 0 = 0x81) then Err ValidationError
         else assert_minimal_pushes (drop (unat op) rest))
      else if op = 0x4C then
        (if length rest < 1 then Err ValidationError
         else if unat (rest ! 0) \<le> 75 then Err ValidationError
         else assert_minimal_pushes (drop (1 + unat (rest ! 0)) rest))
      else if op = 0x4D then
        (if length rest < 2 then Err ValidationError
         else if le_val (take 2 rest) \<le> 255 then Err ValidationError
         else assert_minimal_pushes (drop (2 + le_val (take 2 rest)) rest))
      else if op = 0x4E then
        (if length rest < 4 then Err ValidationError
         else if le_val (take 4 rest) \<le> 0xFFFF then Err ValidationError
         else assert_minimal_pushes (drop (4 + le_val (take 4 rest)) rest))
      else assert_minimal_pushes rest)"

section \<open>Templates\<close>

text \<open>The \<open>hex\<close> fields of the bundled artifacts.\<close>

definition GravityHtlcCovenantFt :: string where
  "GravityHtlcCovenantFt =
     ''d0<REF>c4519d76de519ddc<amount>9d76009c637c82012088a8<hashlock>8800cdaa<expectedTakerFtHash>877767519d<refundCsv>b27500cdaa<expectedMakerFtHash>8768''"

definition GravityHtlcCovenantNft :: string where
  "GravityHtlcCovenantNft =
     ''d8<REF>c4519dde519d00cc<nftCarrierValue>9d76009c637c82012088a8<hashlock>8800cdaa<expectedTakerNftHash>877767519d<refundCsv>b27500cdaa<expectedMakerNftHash>8768''"

definition GravityHtlcCovenantRxd :: string where
  "GravityHtlcCovenantRxd =
     ''c4519d76009c637c82012088a8<hashlock>8800cc<amount>a26900cdaa<expectedTakerHash>877767519d<refundCsv>b27500cc<amount>a26900cdaa<expectedMakerHash>8768''"

text \<open>\<open>str.replace\<close> for a pattern that is not empty.\<close>

function str_replace :: "string \<Rightarrow> string \<Rightarrow> string \<Rightarrow> string" where
  "str_replace old new [] = []"
| "str_replace old new (c # s) =
     (if old \<noteq> [] \<and> take (length old) (c # s) = old then new @ str_replace old new (drop (length old) (c # s))
      else c # str_replace old new s)"
  by pat_completeness auto
termination by (relation "measure (\<lambda>(_, _, s). length s)") (auto simp: length_Cons)

fun substitute_all :: "(string \<times> bytes) list \<Rightarrow> string \<Rightarrow> string" where
  "substitute_all [] s = s"
| "substitute_all ((name, value) # subs) s = substitute_all subs (str_replace (''<'' @ name @ ''>'') (hex value) s)"

definition substitute :: "string \<Rightarrow> (string \<times> bytes) list \<Rightarrow> bytes result" where
  "substitute template_hex subs =
     (let spk_hex = substitute_all subs template_hex in
      if CHR ''<'' \<in> set spk_hex then Err ValidationError else fromhex spk_hex)"

section \<open>Builders\<close>

record htlc_covenant =
  hc_variant :: string
  hc_funded_spk :: bytes
  hc_prologue_len :: nat
  hc_taker_holder_script :: bytes
  hc_maker_holder_script :: bytes
  hc_expected_taker_hash :: bytes
  hc_expected_maker_hash :: bytes
  hc_genesis_ref :: bytes
  hc_hashlock :: bytes
  hc_refund_csv :: int

definition validate_common :: "bytes \<Rightarrow> int \<Rightarrow> bytes \<Rightarrow> bytes \<Rightarrow> (bytes \<times> bytes) result" where
  "validate_common hlock refund_csv taker_pkh maker_pkh =
     (if length hlock \<noteq> 32 then Err ValidationError
      else if refund_csv < 1 then Err ValidationError
      else if refund_csv > 0xFFFF then Err ValidationError
      else bind_r (Hex20 (PyBytes taker_pkh)) (\<lambda>tp. bind_r (Hex20 (PyBytes maker_pkh)) (\<lambda>mp. Ok (tp, mp))))"

definition ref_wire :: "string \<Rightarrow> int \<Rightarrow> bytes result" where
  "ref_wire genesis_txid genesis_vout = bind_r (GlyphRef genesis_txid genesis_vout) ref_to_bytes"

definition build_htlc_covenant_ft :: "string \<Rightarrow> int \<Rightarrow> int \<Rightarrow> bytes \<Rightarrow> bytes \<Rightarrow> bytes \<Rightarrow> int \<Rightarrow> htlc_covenant result" where
  "build_htlc_covenant_ft genesis_txid genesis_vout amount taker_pkh maker_pkh hlock refund_csv =
     bind_r (validate_common hlock refund_csv taker_pkh maker_pkh) (\<lambda>(tp, mp).
     if amount \<le> 0 then Err ValidationError
     else
       bind_r (ref_wire genesis_txid genesis_vout) (\<lambda>ref.
       let taker_holder = ft_holder_script tp ref; maker_holder = ft_holder_script mp ref;
           et = hash256 taker_holder; em = hash256 maker_holder in
       bind_r (htlc_push hlock) (\<lambda>ph.
       bind_r (minimal_num_push refund_csv) (\<lambda>pc.
       bind_r (minimal_num_push amount) (\<lambda>pa.
       bind_r (htlc_push et) (\<lambda>pt.
       bind_r (htlc_push em) (\<lambda>pm.
       bind_r (substitute GravityHtlcCovenantFt
                 [(''REF'', ref), (''hashlock'', ph), (''refundCsv'', pc), (''amount'', pa), (''expectedTakerFtHash'', pt), (''expectedMakerFtHash'', pm)]) (\<lambda>prologue.
       let funded = prologue @ [0xBD, 0xD0] @ ref @ FT_EPILOGUE in
       bind_r (guard_bd funded [length prologue]) (\<lambda>_.
       bind_r (guard_refs funded (Some ref)) (\<lambda>_.
       bind_r (assert_minimal_pushes funded) (\<lambda>_.
         Ok \<lparr>hc_variant = ''ft'', hc_funded_spk = funded, hc_prologue_len = length prologue,
             hc_taker_holder_script = taker_holder, hc_maker_holder_script = maker_holder,
             hc_expected_taker_hash = et, hc_expected_maker_hash = em, hc_genesis_ref = ref, hc_hashlock = hlock,
             hc_refund_csv = refund_csv\<rparr>)))))))))))"

definition build_htlc_covenant_nft :: "string \<Rightarrow> int \<Rightarrow> int \<Rightarrow> bytes \<Rightarrow> bytes \<Rightarrow> bytes \<Rightarrow> int \<Rightarrow> htlc_covenant result" where
  "build_htlc_covenant_nft genesis_txid genesis_vout nft_carrier_value taker_pkh maker_pkh hlock refund_csv =
     bind_r (validate_common hlock refund_csv taker_pkh maker_pkh) (\<lambda>(tp, mp).
     if nft_carrier_value \<le> 0 then Err ValidationError
     else
       bind_r (ref_wire genesis_txid genesis_vout) (\<lambda>ref.
       let taker_holder = nft_holder_script tp ref; maker_holder = nft_holder_script mp ref;
           et = hash256 taker_holder; em = hash256 maker_holder in
       bind_r (htlc_push hlock) (\<lambda>ph.
       bind_r (minimal_num_push refund_csv) (\<lambda>pc.
       bind_r (minimal_num_push nft_carrier_value) (\<lambda>pa.
       bind_r (htlc_push et) (\<lambda>pt.
       bind_r (htlc_push em) (\<lambda>pm.
       bind_r (substitute GravityHtlcCovenantNft
                 [(''REF'', ref), (''hashlock'', ph), (''refundCsv'', pc), (''nftCarrierValue'', pa), (''expectedTakerNftHash'', pt), (''expectedMakerNftHash'', pm)]) (\<lambda>funded.
       bind_r (guard_bd funded []) (\<lambda>_.
       bind_r (guard_refs funded (Some ref)) (\<lambda>_.
       bind_r (assert_minimal_pushes funded) (\<lambda>_.
         Ok \<lparr>hc_variant = ''nft'', hc_funded_spk = funded, hc_prologue_len = length funded,
             hc_taker_holder_script = taker_holder, hc_maker_holder_script = maker_holder,
             hc_expected_taker_hash = et, hc_expected_maker_hash = em, hc_genesis_ref = ref, hc_hashlock = hlock,
             hc_refund_csv = refund_csv\<rparr>)))))))))))"

definition build_htlc_covenant_rxd :: "int \<Rightarrow> bytes \<Rightarrow> bytes \<Rightarrow> bytes \<Rightarrow> int \<Rightarrow> htlc_covenant result" where
  "build_htlc_covenant_rxd amount taker_pkh maker_pkh hlock refund_csv =
     bind_r (validate_common hlock refund_csv taker_pkh maker_pkh) (\<lambda>(tp, mp).
     if amount \<le> 0 then Err ValidationError
     else
       let taker_holder = rxd_holder_script tp; maker_holder = rxd_holder_script mp;
           et = hash256 taker_holder; em = hash256 maker_holder in
       bind_r (htlc_push hlock) (\<lambda>ph.
       bind_r (minimal_num_push refund_csv) (\<lambda>pc.
       bind_r (minimal_num_push amount) (\<lambda>pa.
       bind_r (htlc_push et) (\<lambda>pt.
       bind_r (htlc_push em) (\<lambda>pm.
       bind_r (substitute GravityHtlcCovenantRxd
                 [(''hashlock'', ph), (''refundCsv'', pc), (''amount'', pa), (''expectedTakerHash'', pt), (''expectedMakerHash'', pm)]) (\<lambda>funded.
       bind_r (guard_bd funded []) (\<lambda>_.
       bind_r (guard_refs funded None) (\<lambda>_.
       bind_r (assert_minimal_pushes funded) (\<lambda>_.
         Ok \<lparr>hc_variant = ''rxd'', hc_funded_spk = funded, hc_prologue_len = length funded,
             hc_taker_holder_script = taker_holder, hc_maker_holder_script = maker_holder,
             hc_expected_taker_hash = et, hc_expected_maker_hash = em, hc_genesis_ref = [], hc_hashlock = hlock,
             hc_refund_csv = refund_csv\<rparr>))))))))))"

section \<open>Substitution\<close>

datatype piece = Hexes bytes | Hole string

fun render :: "piece list \<Rightarrow> string" where
  "render [] = []"
| "render (Hexes b # ps) = hex b @ render ps"
| "render (Hole n # ps) = (CHR ''<'' # n @ [CHR ''>'']) @ render ps"

fun fill :: "string \<Rightarrow> bytes \<Rightarrow> piece \<Rightarrow> piece" where
  "fill n v (Hexes b) = Hexes b"
| "fill n v (Hole m) = (if m = n then Hexes v else Hole m)"

definition plain_name :: "string \<Rightarrow> bool" where
  "plain_name n \<longleftrightarrow> CHR ''<'' \<notin> set n \<and> CHR ''>'' \<notin> set n"

fun plain_piece :: "piece \<Rightarrow> bool" where
  "plain_piece (Hexes b) = True"
| "plain_piece (Hole n) = plain_name n"

lemma hex_no_angle: "CHR ''<'' \<notin> set (hex b)"
proof (induction b)
  case (Cons x b)
  have "hex_digit n \<noteq> CHR ''<''" if "n < 16" for n
  proof
    assume "hex_digit n = CHR ''<''"
    then have "(of_char (hex_digit n) :: nat) = 60" by simp
    with that show False by (simp add: of_char_hex_digit split: if_splits)
  qed
  moreover have "unat x div 16 < 16" using unat_byte_less [of x] by linarith
  ultimately show ?case using Cons.IH by (simp add: eq_commute [of "CHR ''<''"])
qed simp

lemma replace_skip: "CHR ''<'' \<notin> set u \<Longrightarrow> str_replace (CHR ''<'' # p) v (u @ s) = u @ str_replace (CHR ''<'' # p) v s"
  by (induction u) auto

lemma replace_hit: "str_replace (c # p) v ((c # p) @ s) = v @ str_replace (c # p) v s"
  by simp

lemma name_prefix:
  assumes "take (length (n @ [CHR ''>''])) (m @ CHR ''>'' # s) = n @ [CHR ''>'']" "CHR ''>'' \<notin> set n" "CHR ''>'' \<notin> set m"
  shows "n = m"
proof -
  obtain r where "m @ CHR ''>'' # s = (n @ [CHR ''>'']) @ r" by (metis append_take_drop_id assms(1))
  then have "takeWhile (\<lambda>c. c \<noteq> CHR ''>'') (m @ CHR ''>'' # s) = takeWhile (\<lambda>c. c \<noteq> CHR ''>'') (n @ CHR ''>'' # r)" by simp
  moreover have "takeWhile (\<lambda>c. c \<noteq> CHR ''>'') (x @ CHR ''>'' # y) = x" if "CHR ''>'' \<notin> set x" for x y
    using that by (induction x) auto
  ultimately show ?thesis using assms(2,3) by simp
qed

lemma replace_miss:
  assumes "n \<noteq> m" "plain_name n" "plain_name m"
  shows "str_replace (CHR ''<'' # n @ [CHR ''>'']) v ((CHR ''<'' # m @ [CHR ''>'']) @ s)
    = (CHR ''<'' # m @ [CHR ''>'']) @ str_replace (CHR ''<'' # n @ [CHR ''>'']) v s"
proof -
  have "take (length (n @ [CHR ''>''])) (m @ CHR ''>'' # s) \<noteq> n @ [CHR ''>'']" using name_prefix assms by (metis plain_name_def)
  then have "str_replace (CHR ''<'' # n @ [CHR ''>'']) v (CHR ''<'' # (m @ [CHR ''>'']) @ s)
      = CHR ''<'' # str_replace (CHR ''<'' # n @ [CHR ''>'']) v ((m @ [CHR ''>'']) @ s)" by simp
  also have "\<dots> = CHR ''<'' # (m @ [CHR ''>'']) @ str_replace (CHR ''<'' # n @ [CHR ''>'']) v s"
    using assms(3) by (subst replace_skip) (simp_all add: plain_name_def)
  finally show ?thesis by simp
qed

lemma replace_render:
  "plain_name n \<Longrightarrow> list_all plain_piece ps \<Longrightarrow>
     str_replace (''<'' @ n @ ''>'') (hex v) (render ps) = render (map (fill n v) ps)"
proof (induction ps rule: render.induct)
  case (2 b ps)
  then show ?case using replace_skip [OF hex_no_angle] by simp
next
  case (3 m ps)
  then have ih: "str_replace (''<'' @ n @ ''>'') (hex v) (render ps) = render (map (fill n v) ps)" "plain_name m" by simp_all
  show ?case
  proof (cases "m = n")
    case True
    then show ?thesis using ih replace_hit [of "CHR ''<''" "n @ [CHR ''>'']" "hex v" "render ps"] by simp
  next
    case False
    then show ?thesis using ih replace_miss [of n m "hex v" "render ps"] 3(2) by simp
  qed
qed simp

lemma plain_fill: "list_all plain_piece ps \<Longrightarrow> list_all plain_piece (map (fill n v) ps)"
proof (induction ps)
  case (Cons p ps)
  then show ?case by (cases p) simp_all
qed simp

lemma substitute_render:
  "list_all (\<lambda>(n, v). plain_name n) subs \<Longrightarrow> list_all plain_piece ps \<Longrightarrow>
     substitute_all subs (render ps) = render (fold (\<lambda>(n, v). map (fill n v)) subs ps)"
proof (induction subs arbitrary: ps)
  case (Cons x subs)
  obtain n v where x: "x = (n, v)" by (cases x)
  with Cons.prems have "str_replace (''<'' @ n @ ''>'') (hex v) (render ps) = render (map (fill n v) ps)" by (intro replace_render) simp_all
  with Cons.IH [of "map (fill n v) ps"] Cons.prems x show ?case by (simp add: plain_fill)
qed simp

lemma render_hexes: "render (map Hexes bs) = hex (concat bs)"
  by (induction bs) (simp_all add: hex_append)

lemma substitute_pieces:
  assumes "t = render ps" "list_all (\<lambda>(n, v). plain_name n) subs" "list_all plain_piece ps"
    and "fold (\<lambda>(n, v). map (fill n v)) subs ps = map Hexes bs"
  shows "substitute t subs = Ok (concat bs)"
  using assms hex_no_angle [of "concat bs"] by (simp add: substitute_def substitute_render render_hexes)

lemma ft_template:
  "GravityHtlcCovenantFt = render [Hexes [0xD0], Hole ''REF'', Hexes [0xC4, 0x51, 0x9D, 0x76, 0xDE, 0x51, 0x9D, 0xDC], Hole ''amount'',
     Hexes [0x9D, 0x76, 0x00, 0x9C, 0x63, 0x7C, 0x82, 0x01, 0x20, 0x88, 0xA8], Hole ''hashlock'', Hexes [0x88, 0x00, 0xCD, 0xAA],
     Hole ''expectedTakerFtHash'', Hexes [0x87, 0x77, 0x67, 0x51, 0x9D], Hole ''refundCsv'', Hexes [0xB2, 0x75, 0x00, 0xCD, 0xAA],
     Hole ''expectedMakerFtHash'', Hexes [0x87, 0x68]]"
  by (simp add: GravityHtlcCovenantFt_def hex_digit_def char_of_def bit_0)

lemma nft_template:
  "GravityHtlcCovenantNft = render [Hexes [0xD8], Hole ''REF'', Hexes [0xC4, 0x51, 0x9D, 0xDE, 0x51, 0x9D, 0x00, 0xCC], Hole ''nftCarrierValue'',
     Hexes [0x9D, 0x76, 0x00, 0x9C, 0x63, 0x7C, 0x82, 0x01, 0x20, 0x88, 0xA8], Hole ''hashlock'', Hexes [0x88, 0x00, 0xCD, 0xAA],
     Hole ''expectedTakerNftHash'', Hexes [0x87, 0x77, 0x67, 0x51, 0x9D], Hole ''refundCsv'', Hexes [0xB2, 0x75, 0x00, 0xCD, 0xAA],
     Hole ''expectedMakerNftHash'', Hexes [0x87, 0x68]]"
  by (simp add: GravityHtlcCovenantNft_def hex_digit_def char_of_def bit_0)

lemma rxd_template:
  "GravityHtlcCovenantRxd = render [Hexes [0xC4, 0x51, 0x9D, 0x76, 0x00, 0x9C, 0x63, 0x7C, 0x82, 0x01, 0x20, 0x88, 0xA8], Hole ''hashlock'',
     Hexes [0x88, 0x00, 0xCC], Hole ''amount'', Hexes [0xA2, 0x69, 0x00, 0xCD, 0xAA],
     Hole ''expectedTakerHash'', Hexes [0x87, 0x77, 0x67, 0x51, 0x9D], Hole ''refundCsv'', Hexes [0xB2, 0x75, 0x00, 0xCC], Hole ''amount'',
     Hexes [0xA2, 0x69, 0x00, 0xCD, 0xAA], Hole ''expectedMakerHash'', Hexes [0x87, 0x68]]"
  by (simp add: GravityHtlcCovenantRxd_def hex_digit_def char_of_def bit_0)

section \<open>Guards on tokens\<close>

fun minimal_tok :: "tok \<Rightarrow> bool" where
  "minimal_tok (Plain b) = True"
| "minimal_tok (RefT b r) = htlc_ref_op b"
| "minimal_tok (PushT b ls d) \<longleftrightarrow>
     (b = 1 \<longrightarrow> \<not> (1 \<le> unat (d ! 0) \<and> unat (d ! 0) \<le> 16 \<or> d ! 0 = 0x81))
     \<and> (b = 0x4C \<longrightarrow> 75 < length d) \<and> (b = 0x4D \<longrightarrow> 255 < length d) \<and> (b = 0x4E \<longrightarrow> 0xFFFF < length d)"

lemma htlc_ref_is_ref: "htlc_ref_op b \<Longrightarrow> is_ref_op b"
  by (auto simp: htlc_ref_op_def is_ref_op_def)

lemma bd_not_push: "\<not> htlc_ref_op 0xBD" "\<not> is_direct_push 0xBD" "\<not> is_ref_op 0xBD"
  by (simp_all add: htlc_ref_op_def is_direct_push_def is_ref_op_def)

lemma not_ref_ops: "\<not> is_ref_op b \<Longrightarrow> \<not> htlc_ref_op b"
  using htlc_ref_is_ref by blast

lemma bd_walk_tok:
  assumes "wf_tok t" "minimal_tok t"
  shows "bd_walk i (enc_tok t @ s) = (if op_of t = 0xBD then [i] else []) @ bd_walk (i + length (enc_tok t)) s"
  using assms(1)
proof (cases rule: wf_tok_cases)
  case (ref b r)
  then show ?thesis using assms(2) bd_not_push by auto
next
  case (direct b d)
  then show ?thesis using bd_not_push not_ref_ops by auto
qed (use push_ops_distinct not_ref_ops in \<open>auto simp: numeral_eq_Suc\<close>)

lemma assert_minimal_tok:
  assumes "wf_tok t" "minimal_tok t"
  shows "assert_minimal_pushes (enc_tok t @ s) = assert_minimal_pushes s"
  using assms(1)
proof (cases rule: wf_tok_cases)
  case (direct b d)
  then have "d \<noteq> []" by (auto simp: is_direct_push_def)
  with direct show ?thesis using assms(2) not_ref_ops by (auto simp: nth_append)
qed (use assms(2) push_ops_distinct not_ref_ops in \<open>auto\<close>)

lemma assert_minimal_enc: "list_all wf_tok ts \<Longrightarrow> list_all minimal_tok ts \<Longrightarrow> assert_minimal_pushes (enc_script ts) = Ok ()"
  by (induction ts) (simp_all add: assert_minimal_tok)

lemma bd_walk_enc:
  "list_all wf_tok ts \<Longrightarrow> list_all minimal_tok ts \<Longrightarrow> list_all (\<lambda>t. op_of t \<noteq> 0xBD) ts \<Longrightarrow>
     bd_walk i (enc_script ts @ s) = bd_walk (i + length (enc_script ts)) s"
  by (induction ts arbitrary: i) (simp_all add: bd_walk_tok add.assoc)

section \<open>Pushes as tokens\<close>

definition data_tok :: "tok \<Rightarrow> bool" where
  "data_tok t \<longleftrightarrow> wf_tok t \<and> minimal_tok t \<and> op_of t \<noteq> 0xBD \<and> refs_of t = []"

definition push_token :: "bytes \<Rightarrow> tok" where
  "push_token d =
     (if length d \<le> 75 then PushT (word_of_nat (length d)) [] d
      else if length d \<le> 255 then PushT 0x4C [word_of_nat (length d)] d
      else PushT 0x4D (le_bytes 2 (length d)) d)"

definition num_token :: "int \<Rightarrow> tok" where
  "num_token n = (if n \<le> 16 then Plain (word_of_int (0x50 + n)) else push_token (scriptnum n))"

lemma push_tok_bytes: "d \<noteq> [] \<Longrightarrow> length d \<le> 0xFFFF \<Longrightarrow> htlc_push d = Ok (enc_tok (push_token d))"
  by (simp add: htlc_push_def push_token_def del: le_bytes.simps)

lemma push_tok:
  assumes "d \<noteq> []" "length d \<le> 0xFFFF" "length d = 1 \<Longrightarrow> \<not> (1 \<le> unat (d ! 0) \<and> unat (d ! 0) \<le> 16 \<or> d ! 0 = 0x81)"
  shows "data_tok (push_token d)"
proof -
  have u: "unat (word_of_nat (length d) :: byte) = length d" if "length d \<le> 255" using that by (simp add: unat_of_nat)
  consider (a) "length d \<le> 75" | (b) "75 < length d" "length d \<le> 255" | (c) "255 < length d" by linarith
  then show ?thesis
  proof cases
    case a
    have n: "word_of_nat (length d) \<noteq> (0x4C :: byte)" "word_of_nat (length d) \<noteq> (0x4D :: byte)" "word_of_nat (length d) \<noteq> (0x4E :: byte)"
      "word_of_nat (length d) \<noteq> (0xBD :: byte)"
      using a u by (auto dest!: arg_cong [where f = unat])
    have "word_of_nat (length d) = (1 :: byte) \<Longrightarrow> length d = 1" using a u by (auto dest!: arg_cong [where f = unat])
    with a n u assms show ?thesis by (auto simp: push_token_def data_tok_def is_direct_push_def Suc_le_eq)
  next
    case b
    with u show ?thesis by (auto simp: push_token_def data_tok_def)
  next
    case c
    have "le_val (le_bytes 2 (length d)) = length d" using assms(2) by (intro le_val_le_bytes) simp
    with c show ?thesis by (auto simp: push_token_def data_tok_def simp del: le_bytes.simps)
  qed
qed

lemma script_num_one: "unat b < 128 \<Longrightarrow> script_num [b] = int (unat b)" "script_num [0x81] = - 1"
  by (simp_all add: decode_script_num [symmetric] decode_script_le_int_def byte_top_bit)

lemma small_op_tok:
  assumes "1 \<le> n" "n \<le> 16"
  shows "data_tok (Plain (word_of_int (0x50 + n)))"
proof -
  have "uint (word_of_int (0x50 + n) :: byte) = (0x50 + n) mod 256" by (simp only: uint_word_of_int) simp
  with assms have "uint (word_of_int (0x50 + n) :: byte) = 0x50 + n" by (simp del: of_int_add)
  then have u: "unat (word_of_int (0x50 + n) :: byte) = nat (0x50 + n)" by (metis nat_uint_eq)
  have "word_of_int (0x50 + n) \<noteq> (b :: byte)" if b: "unat b < 0x51 \<or> 0x60 < unat b" for b
  proof
    assume "word_of_int (0x50 + n) = b"
    with u have "unat b = nat (0x50 + n)" by simp
    with b assms show False by linarith
  qed
  moreover have "\<not> is_ref_op (word_of_int (0x50 + n))" "\<not> is_direct_push (word_of_int (0x50 + n))"
    unfolding is_ref_op_def is_direct_push_def u using assms by auto
  ultimately show ?thesis by (simp add: data_tok_def)
qed

lemma num_tok:
  assumes n: "1 \<le> n" and l: "n \<le> 16 \<or> length (scriptnum n) \<le> 0xFFFF"
  shows "minimal_num_push n = Ok (enc_tok (num_token n))" "data_tok (num_token n)"
proof -
  have o: "scriptnum n = int_octets n" using n by (simp add: scriptnum_def signed_le_octets)
  have v: "script_num (scriptnum n) = n" using int_octets_value [of n] n o by simp
  have e: "scriptnum n \<noteq> []" using o int_octets_nonempty by simp
  show "minimal_num_push n = Ok (enc_tok (num_token n))"
    using n l push_tok_bytes [OF e] by (auto simp: minimal_num_push_def num_token_def)
  have "\<not> (1 \<le> unat (scriptnum n ! 0) \<and> unat (scriptnum n ! 0) \<le> 16 \<or> scriptnum n ! 0 = 0x81)" if "\<not> n \<le> 16" "length (scriptnum n) = 1"
  proof -
    from that(2) obtain b where b: "scriptnum n = [b]" by (cases "scriptnum n") auto
    then have u: "n = int (unat b)" if "unat b < 128" using v script_num_one(1) [OF that] by simp
    have m: "b \<noteq> 0x81" using b v script_num_one(2) n by auto
    have "\<not> unat b \<le> 16"
    proof
      assume "unat b \<le> 16"
      with u have "n = int (unat b)" "int (unat b) \<le> 16" by linarith+
      with that(1) show False by linarith
    qed
    with b m show ?thesis by simp
  qed
  then show "data_tok (num_token n)" using n l small_op_tok push_tok [OF e] by (auto simp: num_token_def)
qed

lemma push32:
  assumes "length d = 32"
  shows "htlc_push d = Ok (enc_tok (PushT 0x20 [] d))" "data_tok (PushT 0x20 [] d)"
  using assms by (simp_all add: htlc_push_def data_tok_def is_direct_push_def)

text \<open>The branches every template ends with: the claim by preimage and the refund after the relative timelock, with what the
  variant checks of the output in front of its hash.\<close>

definition branch_toks :: "tok list \<Rightarrow> bytes \<Rightarrow> bytes \<Rightarrow> tok \<Rightarrow> bytes \<Rightarrow> tok list" where
  "branch_toks chk h et csv em =
     map Plain [0x76, 0x00, 0x9C, 0x63, 0x7C, 0x82] @ [PushT 0x01 [] [0x20]] @ map Plain [0x88, 0xA8] @ [PushT 0x20 [] h, Plain 0x88] @ chk
     @ map Plain [0x00, 0xCD, 0xAA] @ [PushT 0x20 [] et] @ map Plain [0x87, 0x77, 0x67, 0x51, 0x9D] @ [csv] @ map Plain [0xB2, 0x75] @ chk
     @ map Plain [0x00, 0xCD, 0xAA] @ [PushT 0x20 [] em] @ map Plain [0x87, 0x68]"

definition ft_toks :: "bytes \<Rightarrow> tok \<Rightarrow> bytes \<Rightarrow> bytes \<Rightarrow> tok \<Rightarrow> bytes \<Rightarrow> tok list" where
  "ft_toks ref amt h et csv em =
     RefT 0xD0 ref # map Plain [0xC4, 0x51, 0x9D, 0x76, 0xDE, 0x51, 0x9D, 0xDC] @ [amt, Plain 0x9D] @ branch_toks [] h et csv em"

definition ft_weld :: "bytes \<Rightarrow> tok list" where
  "ft_weld ref = RefT 0xD0 ref # map Plain FT_EPILOGUE"

definition nft_toks :: "bytes \<Rightarrow> tok \<Rightarrow> bytes \<Rightarrow> bytes \<Rightarrow> tok \<Rightarrow> bytes \<Rightarrow> tok list" where
  "nft_toks ref amt h et csv em =
     RefT 0xD8 ref # map Plain [0xC4, 0x51, 0x9D, 0xDE, 0x51, 0x9D, 0x00, 0xCC] @ [amt, Plain 0x9D] @ branch_toks [] h et csv em"

definition rxd_toks :: "tok \<Rightarrow> bytes \<Rightarrow> bytes \<Rightarrow> tok \<Rightarrow> bytes \<Rightarrow> tok list" where
  "rxd_toks amt h et csv em =
     map Plain [0xC4, 0x51, 0x9D] @ branch_toks (map Plain [0x00, 0xCC] @ [amt] @ map Plain [0xA2, 0x69]) h et csv em"

lemmas covenant_toks = branch_toks_def ft_toks_def ft_weld_def nft_toks_def rxd_toks_def FT_EPILOGUE_def

lemma enc_append: "enc_script (a @ b) = enc_script a @ enc_script b"
  by (simp add: enc_script_def)

lemmas op_kinds = is_ref_op_def is_direct_push_def htlc_ref_op_def

lemma branch_data:
  assumes "length h = 32" "length et = 32" "length em = 32" "data_tok csv" "list_all data_tok chk"
  shows "list_all data_tok (branch_toks chk h et csv em)"
  using assms by (simp add: branch_toks_def data_tok_def op_kinds)

lemma data_walks:
  assumes "list_all data_tok ts"
  shows "list_all wf_tok ts" "list_all minimal_tok ts" "list_all (\<lambda>t. op_of t \<noteq> 0xBD) ts" "concat (map refs_of ts) = []"
  using assms by (induction ts) (simp_all add: data_tok_def)

lemma count_one: "count_input_refs s = Ok cs \<longleftrightarrow> (\<exists>rs. iter_input_refs s = Ok rs \<and> cs = fold (\<lambda>(_, r) cs. add_count r cs) rs [])"
  by (auto simp: count_input_refs_def bind_r_Ok_iff)

lemma fst_add_count: "fst ` set (add_count r cs) = insert r (fst ` set cs)"
  by (induction r cs rule: add_count.induct) auto

lemma fst_counts: "fst ` set (fold (\<lambda>(_, r) cs. add_count r cs) rs acc) = snd ` set rs \<union> fst ` set acc"
proof (induction rs arbitrary: acc)
  case (Cons x rs)
  then show ?case by (cases x) (simp add: fst_add_count insert_commute Un_commute)
qed simp

lemma guard_refs_enc:
  "list_all wf_tok ts \<Longrightarrow> guard_refs (enc_script ts) e =
     (if snd ` set (concat (map refs_of ts)) \<noteq> (case e of Some r \<Rightarrow> {r} | None \<Rightarrow> {}) then Err ValidationError else Ok ())"
  using fst_counts [of "concat (map refs_of ts)" "[]"] by (simp add: guard_refs_def count_input_refs_def iter_input_refs_enc)

lemma iter_operands: "iter_input_refs s = Ok rs \<Longrightarrow> (op, r) \<in> set rs \<Longrightarrow> length r = 36"
proof -
  assume i: "iter_input_refs s = Ok rs" and r: "(op, r) \<in> set rs"
  from iter_input_refs_parse [OF i] obtain ts where ts: "list_all wf_tok ts" "s = enc_script ts" by blast
  with i have "rs = concat (map refs_of ts)" by (simp add: iter_input_refs_enc)
  with r obtain t where t: "t \<in> set ts" "(op, r) \<in> set (refs_of t)" by auto
  from ts(1) t(1) have "wf_tok t" by (simp add: list_all_iff)
  with t(2) show ?thesis by (cases t) auto
qed

text \<open>A bound reference has 36 bytes, or the second guard refuses.\<close>

lemma guard_refs_length:
  assumes "guard_refs s (Some r) = Ok ()"
  shows "length r = 36"
proof -
  from assms obtain rs where rs: "iter_input_refs s = Ok rs" "fst ` set (fold (\<lambda>(_, r) cs. add_count r cs) rs []) = {r}"
    by (auto simp: guard_refs_def count_one bind_r_Ok_iff split: if_splits)
  then have "r \<in> snd ` set rs" using fst_counts [of rs "[]"] by auto
  with rs(1) show ?thesis using iter_operands by fastforce
qed

lemma covenant_parts:
  assumes "length h = 32" "length et = 32" "length em = 32" "data_tok csv" "data_tok amt" "length ref = 36"
  shows "\<exists>ts. ft_toks ref amt h et csv em = RefT 0xD0 ref # ts \<and> list_all data_tok ts"
    and "\<exists>ts. nft_toks ref amt h et csv em = RefT 0xD8 ref # ts \<and> list_all data_tok ts"
    and "list_all data_tok (rxd_toks amt h et csv em)"
    and "\<exists>ts. ft_weld ref = RefT 0xD0 ref # ts \<and> list_all data_tok ts"
  using assms branch_data [OF assms(1-4), of "[]"] branch_data [OF assms(1-4), of "map Plain [0x00, 0xCC] @ [amt] @ map Plain [0xA2, 0x69]"]
  by (simp_all add: ft_toks_def nft_toks_def rxd_toks_def ft_weld_def FT_EPILOGUE_def data_tok_def op_kinds)

lemma ref_tok: "length r = 36 \<Longrightarrow> b = 0xD0 \<or> b = 0xD8 \<Longrightarrow> wf_tok (RefT b r) \<and> minimal_tok (RefT b r) \<and> op_of (RefT b r) \<noteq> 0xBD"
  by (auto simp: op_kinds)

lemma guards_of_body:
  assumes ts: "list_all data_tok ts" and r: "length r = 36" "b = 0xD0 \<or> b = 0xD8"
  shows "guard_bd (enc_script (RefT b r # ts)) [] = Ok ()" "guard_refs (enc_script (RefT b r # ts)) (Some r) = Ok ()"
    "assert_minimal_pushes (enc_script (RefT b r # ts)) = Ok ()"
    "bd_walk i (enc_script (RefT b r # ts) @ s) = bd_walk (i + length (enc_script (RefT b r # ts))) s"
proof -
  let ?ts = "RefT b r # ts"
  note d = data_walks [OF ts]
  have w: "list_all wf_tok ?ts" "list_all minimal_tok ?ts" "list_all (\<lambda>t. op_of t \<noteq> 0xBD) ?ts" using d ref_tok [OF r] by simp_all
  show "assert_minimal_pushes (enc_script ?ts) = Ok ()" by (rule assert_minimal_enc [OF w(1,2)])
  show "bd_walk i (enc_script ?ts @ s) = bd_walk (i + length (enc_script ?ts)) s" for i s by (rule bd_walk_enc [OF w])
  from this [of 0 "[]"] show "guard_bd (enc_script ?ts) [] = Ok ()" by (simp add: guard_bd_def opcode_bd_positions_def)
  show "guard_refs (enc_script ?ts) (Some r) = Ok ()" using d(4) by (simp only: guard_refs_enc [OF w(1)]) simp
qed

lemma guards_of_plain_body:
  assumes ts: "list_all data_tok ts"
  shows "guard_bd (enc_script ts) [] = Ok ()" "guard_refs (enc_script ts) None = Ok ()" "assert_minimal_pushes (enc_script ts) = Ok ()"
  using bd_walk_enc [of ts 0 "[]"] data_walks [OF ts] assert_minimal_enc
  by (simp_all add: guard_bd_def opcode_bd_positions_def guard_refs_enc)

lemma guards_of_welded:
  assumes "list_all data_tok ts" "list_all data_tok us" "length r = 36"
  defines "p \<equiv> enc_script (RefT 0xD0 r # ts)"
  shows "guard_bd (p @ 0xBD # enc_script (RefT 0xD0 r # us)) [length p] = Ok ()"
    "guard_refs (p @ 0xBD # enc_script (RefT 0xD0 r # us)) (Some r) = Ok ()"
    "assert_minimal_pushes (p @ 0xBD # enc_script (RefT 0xD0 r # us)) = Ok ()"
proof -
  let ?all = "(RefT 0xD0 r # ts) @ Plain 0xBD # RefT 0xD0 r # us"
  note g = guards_of_body [OF assms(1,3), of "0xD0"] and g' = guards_of_body [OF assms(2,3), of "0xD0"]
  have e: "p @ 0xBD # enc_script (RefT 0xD0 r # us) = enc_script ?all" by (simp add: p_def enc_append)
  have w: "list_all wf_tok ?all" "list_all minimal_tok ?all"
    using data_walks [OF assms(1)] data_walks [OF assms(2)] ref_tok [OF assms(3), of "0xD0"] bd_not_push by simp_all
  show "assert_minimal_pushes (p @ 0xBD # enc_script (RefT 0xD0 r # us)) = Ok ()" unfolding e by (rule assert_minimal_enc [OF w])
  show "guard_refs (p @ 0xBD # enc_script (RefT 0xD0 r # us)) (Some r) = Ok ()"
    unfolding e using data_walks(4) [OF assms(1)] data_walks(4) [OF assms(2)] by (simp only: guard_refs_enc [OF w(1)]) simp
  show "guard_bd (p @ 0xBD # enc_script (RefT 0xD0 r # us)) [length p] = Ok ()"
    using g(4) [of 0] g'(4) [of _ "[]"] bd_not_push by (simp add: p_def guard_bd_def opcode_bd_positions_def)
qed

section \<open>What the builders return\<close>

definition htlc_args_ok :: "bytes \<Rightarrow> int \<Rightarrow> bytes \<Rightarrow> bytes \<Rightarrow> int \<Rightarrow> bool" where
  "htlc_args_ok h csv tp mp v \<longleftrightarrow>
     length h = 32 \<and> 1 \<le> csv \<and> csv \<le> 0xFFFF \<and> length tp = 20 \<and> length mp = 20 \<and> 0 < v \<and> (v \<le> 16 \<or> length (scriptnum v) \<le> 0xFFFF)"

definition covenant_of :: "string \<Rightarrow> bytes \<Rightarrow> nat \<Rightarrow> bytes \<Rightarrow> bytes \<Rightarrow> bytes \<Rightarrow> bytes \<Rightarrow> int \<Rightarrow> htlc_covenant" where
  "covenant_of var spk plen th mh ref h csv =
     \<lparr>hc_variant = var, hc_funded_spk = spk, hc_prologue_len = plen, hc_taker_holder_script = th, hc_maker_holder_script = mh,
      hc_expected_taker_hash = hash256 th, hc_expected_maker_hash = hash256 mh, hc_genesis_ref = ref, hc_hashlock = h, hc_refund_csv = csv\<rparr>"

definition ft_covenant :: "bytes \<Rightarrow> int \<Rightarrow> bytes \<Rightarrow> bytes \<Rightarrow> bytes \<Rightarrow> int \<Rightarrow> htlc_covenant" where
  "ft_covenant ref v tp mp h csv =
     (let th = ft_holder_script tp ref; mh = ft_holder_script mp ref;
          p = enc_script (ft_toks ref (num_token v) h (hash256 th) (num_token csv) (hash256 mh))
      in covenant_of ''ft'' (p @ enc_script (Plain 0xBD # ft_weld ref)) (length p) th mh ref h csv)"

definition nft_covenant :: "bytes \<Rightarrow> int \<Rightarrow> bytes \<Rightarrow> bytes \<Rightarrow> bytes \<Rightarrow> int \<Rightarrow> htlc_covenant" where
  "nft_covenant ref v tp mp h csv =
     (let th = nft_holder_script tp ref; mh = nft_holder_script mp ref;
          p = enc_script (nft_toks ref (num_token v) h (hash256 th) (num_token csv) (hash256 mh))
      in covenant_of ''nft'' p (length p) th mh ref h csv)"

definition rxd_covenant :: "int \<Rightarrow> bytes \<Rightarrow> bytes \<Rightarrow> bytes \<Rightarrow> int \<Rightarrow> htlc_covenant" where
  "rxd_covenant v tp mp h csv =
     (let th = rxd_holder_script tp; mh = rxd_holder_script mp;
          p = enc_script (rxd_toks (num_token v) h (hash256 th) (num_token csv) (hash256 mh))
      in covenant_of ''rxd'' p (length p) th mh [] h csv)"

lemma validate_common_Ok: "validate_common h csv tp mp = Ok (a, b) \<longleftrightarrow> length h = 32 \<and> 1 \<le> csv \<and> csv \<le> 0xFFFF \<and> length tp = 20 \<and> length mp = 20 \<and> a = tp \<and> b = mp"
  by (auto simp: validate_common_def Hex20_def fixed_bytes_def not_less)

lemma num_push_Ok: "1 \<le> n \<Longrightarrow> (\<exists>p. minimal_num_push n = Ok p) \<longleftrightarrow> n \<le> 16 \<or> length (scriptnum n) \<le> 0xFFFF"
  by (auto simp: minimal_num_push_def htlc_push_def)

lemma csv_fits: "1 \<le> csv \<Longrightarrow> csv \<le> 0xFFFF \<Longrightarrow> csv \<le> 16 \<or> length (scriptnum csv) \<le> 0xFFFF"
proof -
  assume c: "1 \<le> csv" "csv \<le> 0xFFFF"
  then have "nat \<bar>csv\<bar> < 256 ^ 2" by simp
  then have "byte_digits (nat \<bar>csv\<bar>) \<le> 2" by (rule byte_digits_le) simp
  with length_int_octets [of csv] have "length (scriptnum csv) \<le> 3" using c by (simp add: scriptnum_def signed_le_octets)
  then show ?thesis by simp
qed

lemma ft_substitute:
  "substitute GravityHtlcCovenantFt [(''REF'', ref), (''hashlock'', ph), (''refundCsv'', pc), (''amount'', pa), (''expectedTakerFtHash'', pt), (''expectedMakerFtHash'', pm)]
   = Ok (concat [[0xD0], ref, [0xC4, 0x51, 0x9D, 0x76, 0xDE, 0x51, 0x9D, 0xDC], pa, [0x9D, 0x76, 0x00, 0x9C, 0x63, 0x7C, 0x82, 0x01, 0x20, 0x88, 0xA8], ph,
       [0x88, 0x00, 0xCD, 0xAA], pt, [0x87, 0x77, 0x67, 0x51, 0x9D], pc, [0xB2, 0x75, 0x00, 0xCD, 0xAA], pm, [0x87, 0x68]])"
  by (rule substitute_pieces [OF ft_template]) (simp_all add: plain_name_def)

lemma nft_substitute:
  "substitute GravityHtlcCovenantNft [(''REF'', ref), (''hashlock'', ph), (''refundCsv'', pc), (''nftCarrierValue'', pa), (''expectedTakerNftHash'', pt), (''expectedMakerNftHash'', pm)]
   = Ok (concat [[0xD8], ref, [0xC4, 0x51, 0x9D, 0xDE, 0x51, 0x9D, 0x00, 0xCC], pa, [0x9D, 0x76, 0x00, 0x9C, 0x63, 0x7C, 0x82, 0x01, 0x20, 0x88, 0xA8], ph,
       [0x88, 0x00, 0xCD, 0xAA], pt, [0x87, 0x77, 0x67, 0x51, 0x9D], pc, [0xB2, 0x75, 0x00, 0xCD, 0xAA], pm, [0x87, 0x68]])"
  by (rule substitute_pieces [OF nft_template]) (simp_all add: plain_name_def)

lemma rxd_substitute:
  "substitute GravityHtlcCovenantRxd [(''hashlock'', ph), (''refundCsv'', pc), (''amount'', pa), (''expectedTakerHash'', pt), (''expectedMakerHash'', pm)]
   = Ok (concat [[0xC4, 0x51, 0x9D, 0x76, 0x00, 0x9C, 0x63, 0x7C, 0x82, 0x01, 0x20, 0x88, 0xA8], ph, [0x88, 0x00, 0xCC], pa, [0xA2, 0x69, 0x00, 0xCD, 0xAA], pt,
       [0x87, 0x77, 0x67, 0x51, 0x9D], pc, [0xB2, 0x75, 0x00, 0xCC], pa, [0xA2, 0x69, 0x00, 0xCD, 0xAA], pm, [0x87, 0x68]])"
  by (rule substitute_pieces [OF rxd_template]) (simp_all add: plain_name_def)

lemma ft_body:
  "length h = 32 \<Longrightarrow> concat [[0xD0], ref, [0xC4, 0x51, 0x9D, 0x76, 0xDE, 0x51, 0x9D, 0xDC], enc_tok a,
      [0x9D, 0x76, 0x00, 0x9C, 0x63, 0x7C, 0x82, 0x01, 0x20, 0x88, 0xA8], enc_tok (PushT 0x20 [] h),
      [0x88, 0x00, 0xCD, 0xAA], enc_tok (PushT 0x20 [] et), [0x87, 0x77, 0x67, 0x51, 0x9D], enc_tok c, [0xB2, 0x75, 0x00, 0xCD, 0xAA], enc_tok (PushT 0x20 [] em), [0x87, 0x68]]
    = enc_script (ft_toks ref a h et c em)"
  by (simp add: covenant_toks)

lemma nft_body:
  "concat [[0xD8], ref, [0xC4, 0x51, 0x9D, 0xDE, 0x51, 0x9D, 0x00, 0xCC], enc_tok a,
      [0x9D, 0x76, 0x00, 0x9C, 0x63, 0x7C, 0x82, 0x01, 0x20, 0x88, 0xA8], enc_tok (PushT 0x20 [] h),
      [0x88, 0x00, 0xCD, 0xAA], enc_tok (PushT 0x20 [] et), [0x87, 0x77, 0x67, 0x51, 0x9D], enc_tok c, [0xB2, 0x75, 0x00, 0xCD, 0xAA], enc_tok (PushT 0x20 [] em), [0x87, 0x68]]
    = enc_script (nft_toks ref a h et c em)"
  by (simp add: covenant_toks)

lemma rxd_body:
  "concat [[0xC4, 0x51, 0x9D, 0x76, 0x00, 0x9C, 0x63, 0x7C, 0x82, 0x01, 0x20, 0x88, 0xA8], enc_tok (PushT 0x20 [] h), [0x88, 0x00, 0xCC], enc_tok a,
      [0xA2, 0x69, 0x00, 0xCD, 0xAA], enc_tok (PushT 0x20 [] et), [0x87, 0x77, 0x67, 0x51, 0x9D], enc_tok c, [0xB2, 0x75, 0x00, 0xCC], enc_tok a,
      [0xA2, 0x69, 0x00, 0xCD, 0xAA], enc_tok (PushT 0x20 [] em), [0x87, 0x68]]
    = enc_script (rxd_toks a h et c em)"
  by (simp add: covenant_toks)

lemma args_pushes:
  assumes "htlc_args_ok h csv tp mp v"
  shows "validate_common h csv tp mp = Ok (tp, mp)" "\<not> v \<le> 0" "htlc_push h = Ok (enc_tok (PushT 0x20 [] h))"
    "minimal_num_push csv = Ok (enc_tok (num_token csv))" "minimal_num_push v = Ok (enc_tok (num_token v))"
    "data_tok (num_token csv)" "data_tok (num_token v)" "length h = 32"
  using assms num_tok [of csv] num_tok [of v] csv_fits [of csv] push32 [of h] validate_common_Ok [of h csv tp mp tp mp]
  by (simp_all add: htlc_args_ok_def)

lemma push_hash: "htlc_push (hash256 x) = Ok (enc_tok (PushT 0x20 [] (hash256 x)))"
  by (rule push32) simp

lemma ft_builds:
  assumes a: "htlc_args_ok h csv tp mp v" and r: "ref_wire tid vout = Ok ref" "length ref = 36"
  shows "build_htlc_covenant_ft tid vout v tp mp h csv = Ok (ft_covenant ref v tp mp h csv)"
proof -
  note p = args_pushes [OF a]
  let ?et = "hash256 (ft_holder_script tp ref)" and ?em = "hash256 (ft_holder_script mp ref)"
  obtain ts us where ts: "ft_toks ref (num_token v) h ?et (num_token csv) ?em = RefT 0xD0 ref # ts" "list_all data_tok ts"
    and us: "ft_weld ref = RefT 0xD0 ref # us" "list_all data_tok us"
    using covenant_parts(1,4) [OF p(8) hash256_length hash256_length p(6,7) r(2)] by meson
  have w: "[0xBD, 0xD0] @ ref @ FT_EPILOGUE = 0xBD # enc_script (ft_weld ref)" by (simp add: ft_weld_def FT_EPILOGUE_def)
  show ?thesis
    unfolding build_htlc_covenant_ft_def p(1) r(1) p(3,4,5) push_hash bind_r.simps ft_substitute ft_body [OF p(8)] Let_def prod.case w
    using p(2) guards_of_welded [OF ts(2) us(2) r(2)]
    by (simp add: ts(1) us(1) ft_covenant_def covenant_of_def Let_def)
qed

lemma nft_builds:
  assumes a: "htlc_args_ok h csv tp mp v" and r: "ref_wire tid vout = Ok ref" "length ref = 36"
  shows "build_htlc_covenant_nft tid vout v tp mp h csv = Ok (nft_covenant ref v tp mp h csv)"
proof -
  note p = args_pushes [OF a]
  let ?et = "hash256 (nft_holder_script tp ref)" and ?em = "hash256 (nft_holder_script mp ref)"
  obtain ts where ts: "nft_toks ref (num_token v) h ?et (num_token csv) ?em = RefT 0xD8 ref # ts" "list_all data_tok ts"
    using covenant_parts(2) [OF p(8) hash256_length hash256_length p(6,7) r(2)] by meson
  show ?thesis
    unfolding build_htlc_covenant_nft_def p(1) r(1) p(3,4,5) push_hash bind_r.simps nft_substitute nft_body Let_def prod.case ts(1)
    using p(2) guards_of_body [OF ts(2) r(2), of "0xD8"]
    by (simp add: nft_covenant_def covenant_of_def ts(1) Let_def)
qed

lemma rxd_builds:
  assumes a: "htlc_args_ok h csv tp mp v"
  shows "build_htlc_covenant_rxd v tp mp h csv = Ok (rxd_covenant v tp mp h csv)"
proof -
  note p = args_pushes [OF a]
  let ?et = "hash256 (rxd_holder_script tp)" and ?em = "hash256 (rxd_holder_script mp)"
  have ts: "list_all data_tok (rxd_toks (num_token v) h ?et (num_token csv) ?em)"
    using covenant_parts(3) [OF p(8) hash256_length hash256_length p(6,7), of "replicate 36 0"] by simp
  show ?thesis
    unfolding build_htlc_covenant_rxd_def p(1) p(3,4,5) push_hash bind_r.simps rxd_substitute rxd_body Let_def prod.case
    using p(2) guards_of_plain_body [OF ts]
    by (simp add: rxd_covenant_def covenant_of_def Let_def)
qed

lemma args_of_pushes:
  "validate_common h csv tp mp = Ok q \<Longrightarrow> \<not> v \<le> 0 \<Longrightarrow> minimal_num_push v = Ok pv \<Longrightarrow> htlc_args_ok h csv tp mp v"
  using num_push_Ok [of v] by (cases q) (auto simp: validate_common_Ok htlc_args_ok_def)

lemma ft_Ok:
  assumes "build_htlc_covenant_ft tid vout v tp mp h csv = Ok c"
  shows "htlc_args_ok h csv tp mp v \<and> (\<exists>ref. ref_wire tid vout = Ok ref \<and> length ref = 36)"
  using assms unfolding build_htlc_covenant_ft_def Let_def
  by (auto simp: bind_r_Ok_iff split: prod.splits if_splits dest: guard_refs_length intro: args_of_pushes)

lemma nft_Ok:
  assumes "build_htlc_covenant_nft tid vout v tp mp h csv = Ok c"
  shows "htlc_args_ok h csv tp mp v \<and> (\<exists>ref. ref_wire tid vout = Ok ref \<and> length ref = 36)"
  using assms unfolding build_htlc_covenant_nft_def Let_def
  by (auto simp: bind_r_Ok_iff split: prod.splits if_splits dest: guard_refs_length intro: args_of_pushes)

lemma rxd_Ok:
  assumes "build_htlc_covenant_rxd v tp mp h csv = Ok c"
  shows "htlc_args_ok h csv tp mp v"
  using assms unfolding build_htlc_covenant_rxd_def Let_def
  by (auto simp: bind_r_Ok_iff split: prod.splits if_splits intro: args_of_pushes)

lemma ref_wire_36: "ref_wire tid vout = Ok ref \<Longrightarrow> length ref = 36 \<longleftrightarrow> (\<exists>t. fromhex tid = Ok t \<and> length t = 32)"
  by (auto simp: ref_wire_def GlyphRef_def ref_to_bytes_def bind_r_Ok_iff pack_u_def split: if_splits)

text \<open>C10: The covenant builders accept exactly the valid arguments, and what they return is known byte for byte. A hash lock of 32 bytes, a
  relative timelock of 1 to 65535 blocks, key hashes of 20 bytes, a positive value that fits a push and, for tokens, a
  genesis reference of 36 bytes always give a covenant: none of the three guards ever refuses one. Everything else raises. The script is the
  compiled template as tokens, with every number pushed minimally, and pins the hashes of the holder scripts of taker and maker.\<close>

theorem htlc_covenants_exact:
  "(build_htlc_covenant_ft tid vout v tp mp h csv = Ok c \<longleftrightarrow>
      htlc_args_ok h csv tp mp v \<and> (\<exists>ref. ref_wire tid vout = Ok ref \<and> length ref = 36 \<and> c = ft_covenant ref v tp mp h csv))
   \<and> (build_htlc_covenant_nft tid vout v tp mp h csv = Ok c \<longleftrightarrow>
      htlc_args_ok h csv tp mp v \<and> (\<exists>ref. ref_wire tid vout = Ok ref \<and> length ref = 36 \<and> c = nft_covenant ref v tp mp h csv))
   \<and> (build_htlc_covenant_rxd v tp mp h csv = Ok c \<longleftrightarrow> htlc_args_ok h csv tp mp v \<and> c = rxd_covenant v tp mp h csv)"
proof (intro conjI iffI)
  assume b: "build_htlc_covenant_ft tid vout v tp mp h csv = Ok c"
  from ft_Ok [OF b] obtain ref where "htlc_args_ok h csv tp mp v" "ref_wire tid vout = Ok ref" "length ref = 36" by blast
  with ft_builds [OF this] b show "htlc_args_ok h csv tp mp v"
    "\<exists>ref. ref_wire tid vout = Ok ref \<and> length ref = 36 \<and> c = ft_covenant ref v tp mp h csv" by auto
next
  assume b: "build_htlc_covenant_nft tid vout v tp mp h csv = Ok c"
  from nft_Ok [OF b] obtain ref where "htlc_args_ok h csv tp mp v" "ref_wire tid vout = Ok ref" "length ref = 36" by blast
  with nft_builds [OF this] b show "htlc_args_ok h csv tp mp v"
    "\<exists>ref. ref_wire tid vout = Ok ref \<and> length ref = 36 \<and> c = nft_covenant ref v tp mp h csv" by auto
next
  assume b: "build_htlc_covenant_rxd v tp mp h csv = Ok c"
  from rxd_builds [OF rxd_Ok [OF b]] rxd_Ok [OF b] b show "htlc_args_ok h csv tp mp v" "c = rxd_covenant v tp mp h csv" by auto
qed (auto simp: ft_builds nft_builds rxd_builds)

end
