(* ===== verification/Spec2Isabelle.thy ===== *)
theory Spec2Isabelle
  imports Wire Boundary Sha256 Spv_Proof Spv_Merkle Swap_State Margin Btc_Raw Credential Seen_Store
    Coordinator_Gates Watch_Tower Sighash Base58 Ecdsa Merkle_Path Templates Glyph_Script Glyph_Ft Dmint_Mint_Props Htlc_Covenant
begin

text \<open>
  A verification of the core of \<open>pyrxd\<close>, the Python SDK for the Radiant blockchain. File names below are
  relative to \<open>src/src/pyrxd/\<close>.

  \<^bold>\<open>The program.\<close> Three layers are modelled. The lowest turns values into bytes and text: streams and
  varints, boundary types, scripts, transactions, signature preimages, base 58, DER. On it rests the
  wallet: templates that lock and unlock outputs, signing, Merkle paths, SPV proofs of Bitcoin
  payments, token scripts and token transfers, and decentralised mints: contracts that anybody may advance by a
  proof of work, with the difficulty recomputed by the contract itself. The highest is the atomic swap between Bitcoin or
  Ethereum and Radiant: a coordinator per swap drives a state machine against two chains, with
  margin and finality gates, an authenticity gate for credentials and a durable store of used hashlocks; a
  watchtower observes the chains for all swaps, decides, pages the operator and may broadcast
  refunds and claims by itself. The swap uses the SPV proofs, the raw-transaction readers and the script walks of
  the lower layers, and the record it persists is the only state the watchtower shares with it.

  \<^bold>\<open>Theories.\<close>
  \<^item> \<open>Prelude\<close>: exceptions as the sum type \<open>result\<close>, bytes as words of 8 bits, endian codecs, slices, hexadecimal
    text; the collections \<open>py_simps\<close> and \<open>codec_simps\<close>. \<open>Radix\<close>: positional numerals as a locale, interpreted for the bases 2,
    58 and 256. \<open>Sha256\<close>: SHA-256 and the double hash, computed.
  \<^item> \<open>Wire\<close> (\<open>utils.py\<close>: \<open>Reader\<close>, \<open>Writer\<close>, varints; the strict readers of \<open>spv/\<close>): reading inverts writing; the
    locale \<open>skipper\<close> is the contract of a routine that steps over one encoded item.
    \<open>Boundary\<close> (\<open>security/types.py\<close>): what every newtype accepts.
  \<^item> \<open>Script\<close> (\<open>utils.py\<close>, \<open>script/script.py\<close>), \<open>Transaction\<close> (\<open>transaction/\<close>, \<open>fee_models/\<close>), \<open>Sighash\<close>
    (\<open>transaction/transaction_preimage.py\<close>): script numbers and pushes, chunks, round trips, sizes, conservation of value by the fee
    computation, script offsets, the references a script pushes, agreement of the two
    preimage routines, and that equal preimages mean equal transactions unless a hash collides.
  \<^item> \<open>Base58\<close> (\<open>base58.py\<close>, \<open>utils.py\<close>, \<open>keys.py\<close>): both codecs are inverse, exact and agree; addresses and WIF keys survive.
    \<open>Ecdsa\<close> (\<open>utils.py\<close>, \<open>curve.py\<close>, \<open>keys.py\<close>): DER and compact signatures, point checks, signatures with a chosen nonce.
    \<open>Merkle_Path\<close> (\<open>merkle_path.py\<close>): the root of a path is the root of the tree it agrees with,
    round trip of the binary form, and what \<open>combine\<close> breaks.
  \<^item> \<open>Templates\<close> (\<open>script/type.py\<close>, \<open>Transaction.sign\<close>): every signature commits to the finished transaction,
    and announced lengths bound the real ones, so fees computed before signing suffice.
    \<open>Glyph_Script\<close> (\<open>glyph/types.py\<close>, \<open>glyph/script.py\<close>): builders, classifiers and extractors fit together.
    \<open>Glyph_Ft\<close> (\<open>glyph/ft.py\<close>): minimal selection, conservation, success of affordable transfers, and that the
    amount asked for does not reach the transaction.
  \<^item> \<open>Dmint_Script\<close>, \<open>Dmint_State\<close> (\<open>glyph/dmint/types.py\<close>, \<open>builders.py\<close>, \<open>chain.py\<close>): deployment parameters, the contract scripts of
    both generations and their parser, which inverts the builders. \<open>Dmint_Daa\<close> (\<open>miner.py\<close>): the five rules for the next
    target with their bounds and fixed points; the reference miner finds the least solution, and an external miner can only hand over a solution.
    \<open>Dmint_Vm\<close>, \<open>Dmint_Onchain\<close> (\<open>tests/test_dmint_daa_offchain_onchain_differential.py\<close>): the stack evaluator of the differential
    test, and that for every state the bytecode of the contract computes the target the miner computes.
    \<open>Dmint_Mint\<close>, \<open>Dmint_Mint_Props\<close> (\<open>miner.py\<close>): mint transactions advance a contract by one, chains of
    mints respect the limit, a mint with enough funds is built, and the last mint of a contract fails.
  \<^item> \<open>Spv_Header\<close>, \<open>Spv_Merkle\<close>, \<open>Spv_Witness\<close>, \<open>Spv_Payment\<close>, \<open>Spv_Proof\<close> (\<open>spv/\<close>): header chains and proof of
    work, branches, removal of witnesses, payment outputs; the proof builder accepts exactly the
    evidence that establishes the payment. \<open>Btc_Raw\<close> (\<open>btc_wallet/taproot.py\<close>): transaction ids, spends and the scrape of the secret, over
    the locale \<open>decoder\<close>.
  \<^item> \<open>Timelock\<close>, \<open>Locator\<close>, \<open>Swap_State\<close>, \<open>Margin\<close>, \<open>Credential\<close>, \<open>Seen_Store\<close> (\<open>gravity/\<close>, \<open>glyph/soulbound_detect.py\<close>,
    \<open>glyph/credential_binding.py\<close>): terms, record and
    transition table, cross-clock windows, the claim-finality verdict, the credential gate against
    scripts read as tokens, and the contract \<open>seen_store\<close> that the memory and the SQLite store both satisfy.
    \<open>Htlc_Covenant\<close> (\<open>gravity/htlc_covenant.py\<close>, \<open>gravity/artifacts/\<close>): the covenants that lock the asset of a swap; the builders
    accept exactly the valid arguments, no guard refuses a valid covenant, and the script is known token by token.
  \<^item> \<open>Coordinator\<close> (\<open>gravity/swap_coordinator.py\<close>): every step as a function of a state and an environment that answers or raises
    as it likes. \<open>Coordinator_Inv\<close>, \<open>Coordinator_Safety\<close>, \<open>Coordinator_Props\<close> and \<open>Coordinator_Gates\<close>: weakest preconditions, the record
    invariant, the refinement of the transition table, and, for any number of coordinators with
    crashes and any interleaving, that no hashlock is funded twice and nothing is broadcast outside its gate.
  \<^item> \<open>Watch_Decide\<close>, \<open>Watch_Observe\<close>, \<open>Watch_Alerts\<close>, \<open>Watch_Execute\<close>, \<open>Watch_Tower\<close> (\<open>gravity/watch/\<close>): the decision, quorum readers, paging and the dead-man
    switch, the two executors, one pass and the poll loop: what is broadcast is safe, every swap is answered for, a
    critical situation is paged again, and one claim per output is made.

  \<^bold>\<open>Conventions.\<close> A \<open>record\<close> stands for a class or dataclass, a \<open>datatype\<close> for an enumeration. Integers of Python are \<open>int\<close>, or
  \<open>nat\<close> where the source has a length or an offset; fixed-width fields go through \<open>int.to_bytes\<close> or
  \<open>struct.pack\<close> with their overflow exception. Exceptions are compared by class only, and where an exception is caught
  by a broad handler the handler is modelled. Times are rationals. Loops are recursive functions that
  terminate; there is no fuel except the number of turns of the poll loop, which is a parameter, and the
  number of items a format announces. Python strings are lists of characters below 256.

  \<^bold>\<open>Parameters and assumptions.\<close> Third-party code is an argument: the curve operations and the signer of \<open>coincurve\<close>, RIPEMD-160, the chains
  and legs of a swap, SQLite as a set of rows that may be unavailable, HTTP transports as functions that answer
  or raise, the process of an external miner and the JSON decoder. Hypotheses on them are stated with the theorems that need them (signatures of at most 71
  bytes; no hash collision between the compared values) and each has a witness. An environment is
  constant during one pass of the watchtower and arbitrary between passes.

  \<^bold>\<open>Not modelled.\<close> The command line, sockets and HTTP clients, the signing agent, encryption, HD wallets, minting and
  inspection of tokens beyond their scripts, transfers and decentralised mints, the search for contracts and funds on a
  server (\<open>glyph/dmint/chain.py\<close>), the wallet legs that build and
  sign the transactions of a swap (parameters of the coordinator) and the covenants of the older offers, the Taproot construction, BEEF and EF containers, the
  floating-point product of the fee model, and the process pool of the bundled miner. They are input and output, wrappers of
  third-party cryptography, or clients of such wrappers. Of the covenant of a mint only the part that adjusts the difficulty is executed; the output checks
  of its third part are built but not run.
\<close>

end
